(* ===== verification/Prelude.thy ===== *)
theory Prelude
  imports Main
begin

text \<open>
  The ground every component theory of this library stands on: the result type that models
  Go's \<open>(value, error)\<close> returns, three named collections of facts
  (\<open>defs\<close> for the guards and helpers a proof may unfold freely, \<open>keeps\<close> for the
  facts that an operation preserves an invariant, \<open>frame\<close> for what an operation leaves
  alone), and the two contracts the stateful components share: a machine whose steps keep an
  invariant, and a machine that never forgets a final observation.
\<close>

section \<open>Results\<close>

named_theorems defs "definitions that component proofs unfold"
named_theorems keeps "preservation of a component invariant by an operation"
named_theorems frame "parts of the state an operation leaves unchanged"

text \<open>A Go function returning \<open>(T, error)\<close>: \<open>Inl\<close> is the non-nil error.\<close>

type_synonym ('e, 'a) result = "'e + 'a"

definition is_ok :: "('e, 'a) result \<Rightarrow> bool" where
  "is_ok r = (case r of Inl _ \<Rightarrow> False | Inr _ \<Rightarrow> True)"

lemma is_ok_simps [simp]: "is_ok (Inr x)" "\<not> is_ok (Inl e)"
  by (simp_all add: is_ok_def)

lemma is_ok_iff: "is_ok r \<longleftrightarrow> (\<exists>x. r = Inr x)"
  by (cases r) simp_all

text \<open>
  A guard of the form \<open>if bad { return err }\<close> in front of the rest of a function. The
  rest is the second argument, so that a chain of guards reads in the order of the code.
\<close>

definition reject_if :: "bool \<Rightarrow> 'e \<Rightarrow> ('e, 'a) result \<Rightarrow> ('e, 'a) result" where
  "reject_if bad e rest = (if bad then Inl e else rest)"

lemma reject_if_ok [simp]: "reject_if bad e rest = Inr x \<longleftrightarrow> \<not> bad \<and> rest = Inr x"
  by (simp add: reject_if_def)

lemma reject_if_False [simp]: "reject_if False e rest = rest"
  by (simp add: reject_if_def)

lemma reject_if_True [simp]: "reject_if True e rest = Inl e"
  by (simp add: reject_if_def)

text \<open>\<open>x, err := f(); if err != nil { return err }\<close> and then the rest, on \<open>x\<close>.\<close>

definition and_then :: "('e, 'a) result \<Rightarrow> ('a \<Rightarrow> ('e, 'b) result) \<Rightarrow> ('e, 'b) result" where
  "and_then r f = (case r of Inl e \<Rightarrow> Inl e | Inr x \<Rightarrow> f x)"

lemma and_then_simps [simp]: "and_then (Inl e) f = Inl e" "and_then (Inr x) f = f x"
  by (simp_all add: and_then_def)

lemma and_then_ok: "and_then r f = Inr y \<longleftrightarrow> (\<exists>x. r = Inr x \<and> f x = Inr y)"
  by (cases r) simp_all

lemma and_thenE:
  assumes "and_then r f = Inr y"
  obtains x where "r = Inr x" and "f x = Inr y"
  using assms by (auto simp: and_then_ok)

section \<open>Lists\<close>

lemma distinct_map_filter [intro]: "distinct (map f xs) \<Longrightarrow> distinct (map f (filter p xs))"
  by (induction xs) auto

lemma find_SomeD: "find p xs = Some x \<Longrightarrow> x \<in> set xs \<and> p x"
  by (metis find_Some_iff in_set_conv_nth)

lemma find_NoneD: "find p xs = None \<Longrightarrow> x \<in> set xs \<Longrightarrow> \<not> p x"
  by (simp add: find_None_iff)

lemma find_unique:
  assumes "distinct (map key xs)" and "x \<in> set xs"
  shows "find (\<lambda>y. key y = key x) xs = Some x"
  using assms by (induction xs) auto

lemma distinct_map_eq:
  assumes "distinct (map key xs)" and "x \<in> set xs" and "y \<in> set xs" and "key x = key y"
  shows "x = y"
  using assms by (auto simp: distinct_map dest: inj_onD)

section \<open>Machines that keep an invariant\<close>

text \<open>
  A component as its operations see it: a state, a step for every event, and an invariant
  the steps keep. A run is a list of events, applied from the left.
\<close>

locale machine =
  fixes step :: "'e \<Rightarrow> 's \<Rightarrow> 's"
    and inv :: "'s \<Rightarrow> bool"
  assumes step_keeps: "inv s \<Longrightarrow> inv (step e s)"
begin

lemma run_keeps: "inv s \<Longrightarrow> inv (fold step es s)"
  by (induction es arbitrary: s) (simp_all add: step_keeps)

lemma run_split_keeps: "inv s \<Longrightarrow> inv (fold step (take n es) s)"
  by (rule run_keeps)

end

text \<open>
  A machine with an observation of the state per key, of which some values are final: once
  observed, no later step changes them (a completed run, a used receipt, a published draft).
\<close>

locale final_machine = machine step inv
  for step :: "'e \<Rightarrow> 's \<Rightarrow> 's" and inv :: "'s \<Rightarrow> bool" +
  fixes obs :: "'s \<Rightarrow> 'k \<Rightarrow> 'v option"
    and final :: "'v \<Rightarrow> bool"
  assumes final_step: "inv s \<Longrightarrow> obs s k = Some v \<Longrightarrow> final v \<Longrightarrow> obs (step e s) k = Some v"
begin

lemma final_run: "inv s \<Longrightarrow> obs s k = Some v \<Longrightarrow> final v \<Longrightarrow> obs (fold step es s) k = Some v"
  by (induction es arbitrary: s) (simp_all add: step_keeps final_step)

end

end
