(* ===== verification/Json.thy ===== *)
theory Json
  imports Prelude
begin

text \<open>
  The part of \<open>encoding/json\<close> the sources rely on: which byte sequences \<open>json.Valid\<close>
  accepts (the scanner's grammar, with its limit on nesting), what value they denote, and
  \<open>json.Compact\<close>. A string or a number keeps its literal text, as \<open>json.RawMessage\<close>
  and \<open>json.Number\<close> do. The parser spends one unit of fuel per call; the length of its
  input is always enough (\<open>parse_value_fuel\<close> of theory \<open>JsonFuel\<close>).
\<close>

datatype json =
    JNull
  | JBool bool
  | JNum string
  | JStr string
  | JArr "json list"
  | JObj "(string \<times> json) list"

section \<open>Lexical elements\<close>

definition is_ws :: "char \<Rightarrow> bool" where
  "is_ws c \<longleftrightarrow> c = CHR '' '' \<or> c = CHR 0x09 \<or> c = CHR 0x0A \<or> c = CHR 0x0D"

fun skip_ws :: "string \<Rightarrow> string" where
  "skip_ws [] = []"
| "skip_ws (c # s) = (if is_ws c then skip_ws s else c # s)"

definition is_digit :: "char \<Rightarrow> bool" where
  "is_digit c \<longleftrightarrow> 48 \<le> (of_char c :: int) \<and> (of_char c :: int) \<le> 57"

definition is_hex :: "char \<Rightarrow> bool" where
  "is_hex c \<longleftrightarrow> is_digit c \<or> 65 \<le> (of_char c :: int) \<and> (of_char c :: int) \<le> 70
     \<or> 97 \<le> (of_char c :: int) \<and> (of_char c :: int) \<le> 102"

definition is_escape :: "char \<Rightarrow> bool" where
  "is_escape c \<longleftrightarrow> c \<in> set [CHR ''b'', CHR ''f'', CHR ''n'', CHR ''r'', CHR ''t'',
     CHR 0x5C, CHR ''/'', CHR 0x22]"

text \<open>The literal after the opening quote, and what follows the closing quote.\<close>

fun scan_string :: "string \<Rightarrow> (string \<times> string) option" where
  "scan_string [] = None"
| "scan_string (c # s) =
     (if c = CHR 0x22 then Some ([], s)
      else if (of_char c :: int) < 32 then None
      else if c = CHR 0x5C then
        (case s of
           [] \<Rightarrow> None
         | e # s' \<Rightarrow>
             if is_escape e then map_option (\<lambda>(l, r). (c # e # l, r)) (scan_string s')
             else if e = CHR ''u'' then
               (case s' of
                  h1 # h2 # h3 # h4 # s'' \<Rightarrow>
                    if is_hex h1 \<and> is_hex h2 \<and> is_hex h3 \<and> is_hex h4
                    then map_option (\<lambda>(l, r). (c # e # h1 # h2 # h3 # h4 # l, r)) (scan_string s'')
                    else None
                | _ \<Rightarrow> None)
             else None)
      else map_option (\<lambda>(l, r). (c # l, r)) (scan_string s))"

fun digits_of :: "string \<Rightarrow> string \<times> string" where
  "digits_of [] = ([], [])"
| "digits_of (c # s) =
     (if is_digit c then (let (d, r) = digits_of s in (c # d, r)) else ([], c # s))"

definition scan_int :: "string \<Rightarrow> (string \<times> string) option" where
  "scan_int s =
     (case s of
        [] \<Rightarrow> None
      | c # r \<Rightarrow>
          if c = CHR ''0'' then Some ([c], r)
          else if is_digit c then (let (d, r') = digits_of r in Some (c # d, r'))
          else None)"

definition scan_frac :: "string \<Rightarrow> (string \<times> string) option" where
  "scan_frac s =
     (case s of
        c # r \<Rightarrow>
          if c = CHR ''.'' then
            (let (d, r') = digits_of r in if d = [] then None else Some (c # d, r'))
          else Some ([], s)
      | [] \<Rightarrow> Some ([], []))"

definition scan_exp :: "string \<Rightarrow> (string \<times> string) option" where
  "scan_exp s =
     (case s of
        c # r \<Rightarrow>
          if c = CHR ''e'' \<or> c = CHR ''E'' then
            (let (sg, r1) = (case r of
                               x # r' \<Rightarrow> if x = CHR ''+'' \<or> x = CHR ''-'' then ([x], r') else ([], r)
                             | [] \<Rightarrow> ([], []));
                 (d, r') = digits_of r1
             in if d = [] then None else Some (c # sg @ d, r'))
          else Some ([], s)
      | [] \<Rightarrow> Some ([], []))"

definition scan_number :: "string \<Rightarrow> (string \<times> string) option" where
  "scan_number s =
     (let (sg, s1) = (case s of
                        c # r \<Rightarrow> if c = CHR ''-'' then ([c], r) else ([], s)
                      | [] \<Rightarrow> ([], []))
      in case scan_int s1 of
           None \<Rightarrow> None
         | Some (i, s2) \<Rightarrow>
             (case scan_frac s2 of
                None \<Rightarrow> None
              | Some (f, s3) \<Rightarrow>
                  (case scan_exp s3 of
                     None \<Rightarrow> None
                   | Some (e, s4) \<Rightarrow> Some (sg @ i @ f @ e, s4))))"

fun scan_word :: "string \<Rightarrow> string \<Rightarrow> string option" where
  "scan_word [] s = Some s"
| "scan_word (w # ws) [] = None"
| "scan_word (w # ws) (c # s) = (if w = c then scan_word ws s else None)"

section \<open>Values\<close>

definition max_nesting :: nat where "max_nesting = 10000"

text \<open>
  \<open>parse_elems\<close> and \<open>parse_members\<close> are called in front of an element or a member;
  the closing bracket of an empty array or object is seen by \<open>parse_value\<close>. The depth is
  that of the value's own bracket.
\<close>

fun parse_value :: "nat \<Rightarrow> nat \<Rightarrow> string \<Rightarrow> (json \<times> string) option"
  and parse_elems :: "nat \<Rightarrow> nat \<Rightarrow> string \<Rightarrow> (json list \<times> string) option"
  and parse_members :: "nat \<Rightarrow> nat \<Rightarrow> string \<Rightarrow> ((string \<times> json) list \<times> string) option"
where
  "parse_value 0 depth s = None"
| "parse_value (Suc fuel) depth s =
     (case skip_ws s of
        [] \<Rightarrow> None
      | c # r \<Rightarrow>
          if c = CHR 0x22 then map_option (\<lambda>(l, r'). (JStr l, r')) (scan_string r)
          else if c = CHR 0x7B then
            (if depth \<ge> max_nesting then None
             else (case skip_ws r of
                     [] \<Rightarrow> None
                   | c' # r' \<Rightarrow>
                       if c' = CHR 0x7D then Some (JObj [], r')
                       else map_option (\<lambda>(ms, q). (JObj ms, q)) (parse_members fuel (Suc depth) r)))
          else if c = CHR ''['' then
            (if depth \<ge> max_nesting then None
             else (case skip_ws r of
                     [] \<Rightarrow> None
                   | c' # r' \<Rightarrow>
                       if c' = CHR '']'' then Some (JArr [], r')
                       else map_option (\<lambda>(vs, q). (JArr vs, q)) (parse_elems fuel (Suc depth) r)))
          else if c = CHR ''t'' then map_option (\<lambda>q. (JBool True, q)) (scan_word ''rue'' r)
          else if c = CHR ''f'' then map_option (\<lambda>q. (JBool False, q)) (scan_word ''alse'' r)
          else if c = CHR ''n'' then map_option (\<lambda>q. (JNull, q)) (scan_word ''ull'' r)
          else map_option (\<lambda>(l, q). (JNum l, q)) (scan_number (c # r)))"
| "parse_elems 0 depth s = None"
| "parse_elems (Suc fuel) depth s =
     (case parse_value fuel depth s of
        None \<Rightarrow> None
      | Some (v, r) \<Rightarrow>
          (case skip_ws r of
             [] \<Rightarrow> None
           | c # r' \<Rightarrow>
               if c = CHR '','' then map_option (\<lambda>(vs, q). (v # vs, q)) (parse_elems fuel depth r')
               else if c = CHR '']'' then Some ([v], r')
               else None))"
| "parse_members 0 depth s = None"
| "parse_members (Suc fuel) depth s =
     (case skip_ws s of
        [] \<Rightarrow> None
      | c # r \<Rightarrow>
          (if c \<noteq> CHR 0x22 then None
           else (case scan_string r of
                   None \<Rightarrow> None
                 | Some (k, r1) \<Rightarrow>
                     (case skip_ws r1 of
                        [] \<Rightarrow> None
                      | c1 # r2 \<Rightarrow>
                          (if c1 \<noteq> CHR '':'' then None
                           else (case parse_value fuel depth r2 of
                                   None \<Rightarrow> None
                                 | Some (v, r3) \<Rightarrow>
                                     (case skip_ws r3 of
                                        [] \<Rightarrow> None
                                      | c2 # r4 \<Rightarrow>
                                          (if c2 = CHR '','' then
                                             map_option (\<lambda>(ms, q). ((k, v) # ms, q))
                                               (parse_members fuel depth r4)
                                           else if c2 = CHR 0x7D then Some ([(k, v)], r4)
                                           else None)))))))) "

definition parse_document :: "string \<Rightarrow> json option" where
  "parse_document s =
     (case parse_value (Suc (2 * length s)) 0 s of
        None \<Rightarrow> None
      | Some (v, r) \<Rightarrow> if skip_ws r = [] then Some v else None)"

text \<open>\<open>json.Valid\<close>, and \<open>json.Unmarshal\<close> into a \<open>map[string]json.RawMessage\<close>
  that is not nil afterwards: the document is an object.\<close>

definition json_valid :: "string \<Rightarrow> bool" where
  "json_valid s \<longleftrightarrow> parse_document s \<noteq> None"

definition json_object :: "string \<Rightarrow> bool" where
  "json_object s \<longleftrightarrow> (case parse_document s of Some (JObj ms) \<Rightarrow> True | _ \<Rightarrow> False)"

section \<open>json.Compact\<close>

text \<open>Whitespace outside string literals is dropped; the flag says whether we are inside one.\<close>

fun compact_from :: "bool \<Rightarrow> string \<Rightarrow> string" where
  "compact_from b [] = []"
| "compact_from False (c # s) =
     (if is_ws c then compact_from False s else c # compact_from (c = CHR 0x22) s)"
| "compact_from True (c # s) =
     (if c = CHR 0x5C then (case s of [] \<Rightarrow> [c] | e # s' \<Rightarrow> c # e # compact_from True s')
      else c # compact_from (c \<noteq> CHR 0x22) s)"

definition json_compact :: "string \<Rightarrow> string option" where
  "json_compact s = (if json_valid s then Some (compact_from False s) else None)"

lemma compact_from_idem: "compact_from b (compact_from b s) = compact_from b s"
  by (induction b s rule: compact_from.induct) (auto split: list.splits)

lemma length_compact_from: "length (compact_from b s) \<le> length s"
proof (induction b s rule: compact_from.induct)
  case (3 c s)
  then show ?case by (cases s) (auto intro: le_SucI)
qed auto

end
