(* ===== verification/GoTime.thy ===== *)
theory GoTime
  imports Prelude
begin

text \<open>
  Go's \<open>time.Time\<close>, \<open>time.Duration\<close> and the text the sources store in SQLite.

  An instant is the number of nanoseconds since \<open>0001-01-01T00:00:00Z\<close>, so that Go's zero
  \<open>Time\<close> is \<open>0\<close>; every instant of the sources is in UTC. A duration is an int64 number of
  nanoseconds, with the wrap-around of its arithmetic written out (\<open>wrap64\<close>).
  \<open>formatTime\<close> is \<open>value.UTC().Format(time.RFC3339Nano)\<close> of the packages
  \<open>scheduler\<close>, \<open>instagram\<close> and \<open>storage\<close>: SQL statements compare and order these
  texts byte by byte, and RFC3339Nano drops trailing zeros of the fraction, so the order of the
  texts has to be studied and is not assumed to be the order of the instants.
\<close>

section \<open>Durations\<close>

type_synonym time = int
type_synonym duration = int

definition wrap64 :: "int \<Rightarrow> int" where
  "wrap64 x = (x + 9223372036854775808) mod 18446744073709551616 - 9223372036854775808"

definition max_int64 :: int where "max_int64 = 9223372036854775807"
definition min_int64 :: int where "min_int64 = - 9223372036854775808"

lemma wrap64_id: "min_int64 \<le> x \<Longrightarrow> x \<le> max_int64 \<Longrightarrow> wrap64 x = x"
  by (simp add: wrap64_def min_int64_def max_int64_def)

lemma wrap64_range: "min_int64 \<le> wrap64 x \<and> wrap64 x \<le> max_int64"
  by (simp add: wrap64_def min_int64_def max_int64_def)

text \<open>\<open>Time.Sub\<close> saturates instead of wrapping around.\<close>

definition time_sub :: "time \<Rightarrow> time \<Rightarrow> duration" where
  "time_sub a b = max min_int64 (min max_int64 (a - b))"

definition nanosecond :: duration where "nanosecond = 1"
definition second :: duration where "second = 1000000000"
definition minute :: duration where "minute = 60000000000"
definition hour :: duration where "hour = 3600000000000"

lemmas units [defs] = nanosecond_def second_def minute_def hour_def

definition IsZero :: "time \<Rightarrow> bool" where
  "IsZero t \<longleftrightarrow> t = 0"

section \<open>Byte order of texts\<close>

text \<open>SQLite's default BINARY collation: \<open>memcmp\<close>, a proper prefix being smaller.\<close>

fun bytes_less :: "string \<Rightarrow> string \<Rightarrow> bool" where
  "bytes_less [] [] = False"
| "bytes_less [] (y # ys) = True"
| "bytes_less (x # xs) [] = False"
| "bytes_less (x # xs) (y # ys) =
     ((of_char x :: int) < of_char y \<or> x = y \<and> bytes_less xs ys)"

definition bytes_le :: "string \<Rightarrow> string \<Rightarrow> bool" where
  "bytes_le a b \<longleftrightarrow> \<not> bytes_less b a"

lemma bytes_less_irrefl [simp]: "\<not> bytes_less a a"
  by (induction a) auto

lemma bytes_less_asym: "bytes_less a b \<Longrightarrow> \<not> bytes_less b a"
  by (induction a b rule: bytes_less.induct) auto

lemma bytes_less_trans: "bytes_less a b \<Longrightarrow> bytes_less b c \<Longrightarrow> bytes_less a c"
proof (induction a b arbitrary: c rule: bytes_less.induct)
  case (2 y ys) then show ?case by (cases c) auto
next
  case (4 x xs y ys) then show ?case by (cases c) auto
qed auto

lemma bytes_less_linear: "bytes_less a b \<or> a = b \<or> bytes_less b a"
proof (induction a b rule: bytes_less.induct)
  case (4 x xs y ys)
  have "(of_char x :: int) < of_char y \<or> x = y \<or> (of_char y :: int) < of_char x"
    by (metis linorder_neqE of_char_eq_iff)
  with 4 show ?case by auto
qed auto

lemma bytes_le_refl [simp]: "bytes_le a a"
  by (simp add: bytes_le_def)

lemma bytes_le_total: "bytes_le a b \<or> bytes_le b a"
  unfolding bytes_le_def using bytes_less_asym by blast

lemma bytes_le_trans: "bytes_le a b \<Longrightarrow> bytes_le b c \<Longrightarrow> bytes_le a c"
  unfolding bytes_le_def using bytes_less_linear bytes_less_trans by metis

lemma bytes_le_antisym: "bytes_le a b \<Longrightarrow> bytes_le b a \<Longrightarrow> a = b"
  unfolding bytes_le_def using bytes_less_linear by blast

lemma bytes_less_append:
  "length a = length a' \<Longrightarrow>
   bytes_less (a @ b) (a' @ b') \<longleftrightarrow> bytes_less a a' \<or> a = a' \<and> bytes_less b b'"
  by (induction a a' rule: bytes_less.induct) auto

lemma bytes_less_same_prefix [simp]: "bytes_less (a @ b) (a @ b') = bytes_less b b'"
  by (induction a) auto

section \<open>Decimal fields of fixed width\<close>

definition digit :: "nat \<Rightarrow> char" where
  "digit n = char_of (48 + n)"

fun pad_dec :: "nat \<Rightarrow> nat \<Rightarrow> string" where
  "pad_dec 0 n = []"
| "pad_dec (Suc w) n = pad_dec w (n div 10) @ [digit (n mod 10)]"

fun dec :: "nat \<Rightarrow> string" where
  "dec n = (if n < 10 then [digit n] else dec (n div 10) @ [digit (n mod 10)])"

declare dec.simps [simp del]

lemma of_char_digit_nat: "n < 10 \<Longrightarrow> of_char (digit n) = (48 + n :: nat)"
  by (simp add: digit_def)

lemma of_char_digit [simp]: "n < 10 \<Longrightarrow> of_char (digit n) = 48 + int n"
  using of_nat_of_char [of "digit n", where ?'a = int] by (simp add: of_char_digit_nat)

lemma digit_inj: "m < 10 \<Longrightarrow> n < 10 \<Longrightarrow> digit m = digit n \<Longrightarrow> m = n"
  by (metis add_left_imp_eq of_char_digit_nat)

lemma length_pad_dec [simp]: "length (pad_dec w n) = w"
  by (induction w arbitrary: n) auto

lemma pad_dec_numeral:
  "pad_dec (numeral w) n = pad_dec (pred_numeral w) (n div 10) @ [digit (n mod 10)]"
  by (simp only: numeral_eq_Suc [of w] pad_dec.simps)

lemma pad_dec_less: "m < n \<Longrightarrow> n < 10 ^ w \<Longrightarrow> bytes_less (pad_dec w m) (pad_dec w n)"
proof (induction w arbitrary: m n)
  case (Suc w)
  show ?case
  proof (cases "m div 10 = n div 10")
    case True
    with Suc.prems(1) have "m mod 10 < n mod 10"
      by (metis div_mult_mod_eq nat_add_left_cancel_less)
    with True show ?thesis by simp
  next
    case False
    moreover have "m div 10 \<le> n div 10" using Suc.prems(1) by (simp add: div_le_mono)
    ultimately have "m div 10 < n div 10" by simp
    moreover have "n div 10 < 10 ^ w" using Suc.prems(2) by (simp add: less_mult_imp_div_less mult.commute)
    ultimately have "bytes_less (pad_dec w (m div 10)) (pad_dec w (n div 10))" by (rule Suc.IH)
    then show ?thesis by (simp add: bytes_less_append)
  qed
qed simp

lemma pad_dec_inj: "m < 10 ^ w \<Longrightarrow> n < 10 ^ w \<Longrightarrow> pad_dec w m = pad_dec w n \<Longrightarrow> m = n"
  by (metis bytes_less_irrefl linorder_neqE_nat pad_dec_less)

section \<open>The calendar\<close>

text \<open>
  Days since 0001-01-01 to year, month and day, as package \<open>time\<close> does it: peel off
  400-, 100-, 4- and 1-year cycles, the last of each group of four being clipped at 3.
  \<open>year0\<close> counts the complete years before the day.
\<close>

definition year0 :: "int \<Rightarrow> int" where
  "year0 d =
     (let r = d mod 146097; c = min 3 (r div 36524); r2 = r - 36524 * c;
          f = r2 div 1461; r3 = r2 mod 1461; n = min 3 (r3 div 365)
      in 400 * (d div 146097) + 100 * c + 4 * f + n)"

definition days_before_year :: "int \<Rightarrow> int" where
  "days_before_year y = 365 * y + y div 4 - y div 100 + y div 400"

definition is_leap :: "int \<Rightarrow> bool" where
  "is_leap y \<longleftrightarrow> y mod 4 = 0 \<and> (y mod 100 \<noteq> 0 \<or> y mod 400 = 0)"

definition month_lengths :: "bool \<Rightarrow> int list" where
  "month_lengths leap = [31, if leap then 29 else 28, 31, 30, 31, 30, 31, 31, 30, 31, 30, 31]"

fun month_day :: "int list \<Rightarrow> int \<Rightarrow> int \<Rightarrow> int \<times> int" where
  "month_day [] m d = (m, d + 1)"
| "month_day (l # ls) m d = (if d < l then (m, d + 1) else month_day ls (m + 1) (d - l))"

definition year_of :: "int \<Rightarrow> int" where
  "year_of d = year0 d + 1"

definition year_day :: "int \<Rightarrow> int" where
  "year_day d = d - days_before_year (year0 d)"

definition civil :: "int \<Rightarrow> int \<times> int \<times> int" where
  "civil d =
     (let (m, k) = month_day (month_lengths (is_leap (year_of d))) 1 (year_day d)
      in (year_of d, m, k))"

lemma days_before_year_digits:
  assumes "0 \<le> c" "c \<le> 3" "0 \<le> f" "f \<le> 24" "0 \<le> n" "n \<le> (3::int)"
  shows "days_before_year (400 * q + 100 * c + 4 * f + n) =
         146097 * q + 36524 * c + 1461 * f + 365 * n"
proof -
  have "(400 * q + 100 * c + 4 * f + n) div 4 = 100 * q + 25 * c + f"
    by (rule int_div_pos_eq [where r = n]) (use assms in simp_all)
  moreover have "(400 * q + 100 * c + 4 * f + n) div 100 = 4 * q + c"
    by (rule int_div_pos_eq [where r = "4 * f + n"]) (use assms in simp_all)
  moreover have "(400 * q + 100 * c + 4 * f + n) div 400 = q"
    by (rule int_div_pos_eq [where r = "100 * c + 4 * f + n"]) (use assms in simp_all)
  ultimately show ?thesis by (simp add: days_before_year_def)
qed

lemma is_leap_digits:
  assumes "0 \<le> c" "c \<le> 3" "0 \<le> f" "f \<le> (24::int)"
  shows "is_leap (400 * q + 100 * c + 4 * f + 4) \<longleftrightarrow> f < 24 \<or> c = 3"
proof -
  let ?y = "400 * q + 100 * c + 4 * f + 4"
  have m4: "?y mod 4 = 0"
    by (rule int_mod_pos_eq [where q = "100 * q + 25 * c + f + 1"]) simp_all
  show ?thesis
  proof (cases "f < 24")
    case True
    have "?y mod 100 = 4 * f + 4"
      by (rule int_mod_pos_eq [where q = "4 * q + c"]) (use True assms in simp_all)
    with True m4 assms show ?thesis by (simp add: is_leap_def)
  next
    case False
    with assms have f: "f = 24" by simp
    have m100: "?y mod 100 = 0"
      by (rule int_mod_pos_eq [where q = "4 * q + c + 1"]) (simp_all add: f)
    have "?y mod 400 = (if c = 3 then 0 else 100 * c + 100)"
      by (rule int_mod_pos_eq [where q = "if c = 3 then q + 1 else q"]) (use assms f in auto)
    with m4 m100 f assms show ?thesis by (simp add: is_leap_def)
  qed
qed

text \<open>The digits of a day: the four cycle counts and the day within the year.\<close>

lemma year_digits:
  obtains q c f n r where "d = 146097 * q + 36524 * c + 1461 * f + 365 * n + r"
    and "0 \<le> c" "c \<le> 3" "0 \<le> f" "f \<le> 24" "0 \<le> n" "n \<le> 3" "0 \<le> r"
    and "r < 365 \<or> r = 365 \<and> n = 3 \<and> (f < 24 \<or> c = 3)"
    and "year0 d = 400 * q + 100 * c + 4 * f + n"
proof -
  define q where "q = d div 146097"
  define r1 where "r1 = d mod 146097"
  define c where "c = min 3 (r1 div 36524)"
  define r2 where "r2 = r1 - 36524 * c"
  define f where "f = r2 div 1461"
  define r3 where "r3 = r2 mod 1461"
  define n where "n = min 3 (r3 div 365)"
  have r1: "0 \<le> r1" "r1 < 146097" and d: "d = 146097 * q + r1"
    unfolding r1_def q_def by simp_all
  have c: "0 \<le> c" "c \<le> 3" and r2: "0 \<le> r2" "r2 < 36524 \<or> c = 3 \<and> r2 \<le> 36524"
    using r1 unfolding r2_def c_def by linarith+
  have f: "0 \<le> f" "f \<le> 24" and r3: "0 \<le> r3" "r3 < 1461" and r2': "r2 = 1461 * f + r3"
    using r2 unfolding r3_def f_def by (simp, linarith, simp, simp, simp)
  have n: "0 \<le> n" "n \<le> 3"
    using r3 unfolding n_def by linarith+
  have last: "r3 - 365 * n < 365 \<or> r3 - 365 * n = 365 \<and> n = 3"
    using r3 unfolding n_def by linarith
  have "f < 24 \<or> c = 3" if "r3 - 365 * n = 365 \<and> n = 3"
    using that r2 r2' f by linarith
  then have r4: "r3 - 365 * n < 365 \<or> r3 - 365 * n = 365 \<and> n = 3 \<and> (f < 24 \<or> c = 3)"
    using last by blast
  have r5: "0 \<le> r3 - 365 * n" using r3 unfolding n_def by linarith
  have eq: "d = 146097 * q + 36524 * c + 1461 * f + 365 * n + (r3 - 365 * n)"
    using d r2' unfolding r2_def by simp
  have y: "year0 d = 400 * q + 100 * c + 4 * f + n"
    unfolding n_def r3_def f_def r2_def c_def r1_def q_def year0_def Let_def by (rule refl)
  show ?thesis by (rule that [OF eq c f n r5 r4 y])
qed

lemma year_day_range:
  "0 \<le> year_day d \<and> year_day d < (if is_leap (year_of d) then 366 else 365)"
proof -
  obtain q c f n r where d: "d = 146097 * q + 36524 * c + 1461 * f + 365 * n + r"
    and b: "0 \<le> c" "c \<le> 3" "0 \<le> f" "f \<le> 24" "0 \<le> n" "n \<le> 3" "0 \<le> r"
    and r: "r < 365 \<or> r = 365 \<and> n = 3 \<and> (f < 24 \<or> c = 3)"
    and y: "year0 d = 400 * q + 100 * c + 4 * f + n"
    by (rule year_digits)
  have "year_day d = r"
    using d days_before_year_digits [OF b(1-6), of q] unfolding year_day_def y by linarith
  moreover have "is_leap (year_of d)" if "r = 365"
    using that r is_leap_digits [OF b(1-4), of q] by (simp add: year_of_def y add.commute)
  ultimately show ?thesis using b r by auto
qed

lemma div_next: "0 < k \<Longrightarrow> (y + 1) div k = y div k + (if (y + 1) mod k = 0 then 1 else 0)"
  for k y :: int
proof -
  assume k: "0 < k"
  have y: "y = k * (y div k) + y mod k" by simp
  have r: "0 \<le> y mod k" "y mod k < k" using k by simp_all
  show ?thesis
  proof (cases "y mod k = k - 1")
    case True
    then have "y + 1 = k * (y div k + 1) + 0" using y by (simp add: distrib_left)
    then have "(y + 1) div k = y div k + 1" and "(y + 1) mod k = 0"
      using k by (auto intro: int_div_pos_eq int_mod_pos_eq)
    then show ?thesis by simp
  next
    case False
    have e: "y + 1 = k * (y div k) + (y mod k + 1)" using y by simp
    have b: "0 \<le> y mod k + 1" "y mod k + 1 < k" using r False by linarith+
    have "(y + 1) div k = y div k" and "(y + 1) mod k = y mod k + 1"
      by (rule int_div_pos_eq [OF e b], rule int_mod_pos_eq [OF e b])
    then show ?thesis using r by simp
  qed
qed

lemma days_before_year_Suc:
  "days_before_year (y + 1) = days_before_year y + (if is_leap (y + 1) then 366 else 365)"
proof -
  define A B C where "A \<longleftrightarrow> (y + 1) mod 4 = 0" and "B \<longleftrightarrow> (y + 1) mod 100 = 0"
    and "C \<longleftrightarrow> (y + 1) mod 400 = 0"
  have CB: "C \<Longrightarrow> B" and BA: "B \<Longrightarrow> A"
    using mod_mod_cancel [of 100 400 "y + 1"] mod_mod_cancel [of 4 100 "y + 1"]
    unfolding A_def B_def C_def by simp_all
  have "(y + 1) div 4 = y div 4 + (if A then 1 else 0)"
    and "(y + 1) div 100 = y div 100 + (if B then 1 else 0)"
    and "(y + 1) div 400 = y div 400 + (if C then 1 else 0)"
    unfolding A_def B_def C_def by (rule div_next; simp)+
  note digits = this
  have "days_before_year (y + 1) = days_before_year y + 365 +
      (if A then 1 else 0) - (if B then 1 else 0) + (if C then 1 else 0)"
    unfolding days_before_year_def digits by (simp only: algebra_simps)
  moreover have "is_leap (y + 1) \<longleftrightarrow> A \<and> (\<not> B \<or> C)"
    unfolding is_leap_def A_def B_def C_def by (rule refl)
  ultimately show ?thesis using CB BA by (cases A; cases B; cases C) simp_all
qed

lemma days_before_year_mono: "y \<le> y' \<Longrightarrow> days_before_year y \<le> days_before_year y'"
proof (induction y' rule: int_ge_induct)
  case (step y')
  then show ?case by (simp add: days_before_year_Suc)
qed simp

lemma year0_mono:
  assumes "d \<le> d'"
  shows "year0 d \<le> year0 d'"
proof (rule ccontr)
  assume "\<not> year0 d \<le> year0 d'"
  then have "days_before_year (year0 d' + 1) \<le> days_before_year (year0 d)"
    by (intro days_before_year_mono) simp
  moreover have "d' < days_before_year (year0 d' + 1)"
    using year_day_range [of d'] by (simp add: days_before_year_Suc year_day_def year_of_def)
  moreover have "days_before_year (year0 d) \<le> d"
    using year_day_range [of d] by (simp add: year_day_def)
  ultimately show False using assms by simp
qed

lemma month_day_ge: "month_day ls m d = (a, b) \<Longrightarrow> m \<le> a"
  by (induction ls m d rule: month_day.induct) (force split: if_splits)+

lemma month_day_mono:
  assumes "d < d'" and "d' < sum_list ls"
    and "month_day ls m d = (a, b)" and "month_day ls m d' = (a', b')"
  shows "a < a' \<or> a = a' \<and> b < b'"
  using assms
proof (induction ls arbitrary: m d d')
  case Nil
  then show ?case by auto
next
  case (Cons l ls)
  consider "d' < l" | "d < l" "l \<le> d'" | "l \<le> d" by linarith
  then show ?case
  proof cases
    case 1
    with Cons.prems show ?thesis by auto
  next
    case 2
    with Cons.prems have "month_day ls (m + 1) (d' - l) = (a', b')" and "a = m" by auto
    with month_day_ge [of ls "m + 1"] show ?thesis by fastforce
  next
    case 3
    with Cons.prems show ?thesis using Cons.IH [of "d - l" "d' - l" "m + 1"] by simp
  qed
qed

lemma month_day_range:
  assumes "0 \<le> d" and "d < sum_list ls" and "month_day ls m d = (a, b)"
  shows "m \<le> a \<and> a < m + int (length ls) \<and> 1 \<le> b \<and> b \<le> Max (set ls)"
  using assms
proof (induction ls arbitrary: m d)
  case (Cons l ls)
  show ?case
  proof (cases "d < l")
    case True
    with Cons.prems show ?thesis by (auto intro: Max_ge [THEN order_trans [rotated]])
  next
    case False
    with Cons.prems Cons.IH [of "d - l" "m + 1"] have
      "m + 1 \<le> a \<and> a < m + 1 + int (length ls) \<and> 1 \<le> b \<and> b \<le> Max (set ls)" by simp
    moreover have "ls \<noteq> []" using False Cons.prems by auto
    ultimately show ?thesis by (auto intro: order_trans)
  qed
qed simp

lemma month_lengths_facts:
  "sum_list (month_lengths leap) = (if leap then 366 else 365)"
  "length (month_lengths leap) = 12" "Max (set (month_lengths leap)) = 31"
  by (simp_all add: month_lengths_def)

lemma civil_mono:
  assumes "d < d'" and "civil d = (y, m, k)" and "civil d' = (y', m', k')"
  shows "y < y' \<or> y = y' \<and> (m < m' \<or> m = m' \<and> k < k')"
proof (cases "year0 d = year0 d'")
  case True
  then have "year_day d < year_day d'" using assms(1) by (simp add: year_day_def)
  moreover have "year_day d' < sum_list (month_lengths (is_leap (year_of d')))"
    using year_day_range [of d'] by (simp add: month_lengths_facts)
  ultimately have "m < m' \<or> m = m' \<and> k < k'"
    using assms(2,3) True
    by (intro month_day_mono [of "year_day d" "year_day d'"])
       (auto simp: civil_def year_of_def split: prod.splits)
  with True assms(2,3) show ?thesis by (auto simp: civil_def year_of_def split: prod.splits)
next
  case False
  with assms(1) year0_mono [of d d'] have "year0 d < year0 d'" by simp
  with assms(2,3) show ?thesis by (auto simp: civil_def year_of_def split: prod.splits)
qed

lemma civil_range:
  assumes "civil d = (y, m, k)"
  shows "y = year_of d \<and> 1 \<le> m \<and> m \<le> 12 \<and> 1 \<le> k \<and> k \<le> 31"
proof -
  have "month_day (month_lengths (is_leap (year_of d))) 1 (year_day d) = (m, k)"
    using assms by (auto simp: civil_def split: prod.splits)
  from month_day_range [OF _ _ this] year_day_range [of d] assms show ?thesis
    by (auto simp: month_lengths_facts civil_def split: prod.splits if_splits)
qed

section \<open>RFC3339Nano\<close>

text \<open>
  \<open>appendInt(b, year, 4)\<close>: at least four digits, with a sign in front of them for a year
  before the year 0.
\<close>

definition year_text :: "int \<Rightarrow> string" where
  "year_text y =
     (if 0 \<le> y \<and> y < 10000 then pad_dec 4 (nat y)
      else if 0 \<le> y then dec (nat y)
      else ''-'' @ (if y > - 10000 then pad_dec 4 (nat (- y)) else dec (nat (- y))))"

definition date_text :: "int \<Rightarrow> string" where
  "date_text d =
     (let (y, m, k) = civil d
      in year_text y @ ''-'' @ pad_dec 2 (nat m) @ ''-'' @ pad_dec 2 (nat k))"

definition clock_text :: "int \<Rightarrow> string" where
  "clock_text s =
     pad_dec 2 (nat (s div 3600)) @ '':'' @ pad_dec 2 (nat (s div 60 mod 60)) @ '':'' @
     pad_dec 2 (nat (s mod 60))"

definition strip_zeros :: "string \<Rightarrow> string" where
  "strip_zeros s = rev (dropWhile (\<lambda>c. c = CHR ''0'') (rev s))"

text \<open>The fraction loses its trailing zeros, and its point with the last of its digits.\<close>

definition frac_text :: "int \<Rightarrow> string" where
  "frac_text n = (if n = 0 then [] else ''.'' @ strip_zeros (pad_dec 9 (nat n)))"

definition seconds_of :: "time \<Rightarrow> int" where "seconds_of t = t div 1000000000"
definition nanos_of :: "time \<Rightarrow> int" where "nanos_of t = t mod 1000000000"

definition stamp_text :: "int \<Rightarrow> string" where
  "stamp_text s = date_text (s div 86400) @ ''T'' @ clock_text (s mod 86400)"

definition formatTime :: "time \<Rightarrow> string" where
  "formatTime t = stamp_text (seconds_of t) @ frac_text (nanos_of t) @ ''Z''"

text \<open>The instants whose year has four digits: 0001-01-01 up to the end of 9999.\<close>

definition max_seconds :: int where "max_seconds = 315537897600"

definition in_range :: "time \<Rightarrow> bool" where
  "in_range t \<longleftrightarrow> 0 \<le> t \<and> t < max_seconds * 1000000000"

lemma in_range_seconds:
  "in_range t \<Longrightarrow> 0 \<le> seconds_of t \<and> seconds_of t < max_seconds"
  by (auto simp: in_range_def seconds_of_def max_seconds_def)

lemma nanos_range: "0 \<le> nanos_of t" "nanos_of t < 1000000000"
  by (simp_all add: nanos_of_def)

lemma time_split: "t = 1000000000 * seconds_of t + nanos_of t"
  by (simp add: seconds_of_def nanos_of_def)

lemma time_split_eq: "seconds_of s = seconds_of t \<Longrightarrow> nanos_of s = nanos_of t \<Longrightarrow> s = t"
  using time_split [of s] time_split [of t] by simp

subsection \<open>The text up to the second is in the order of the seconds\<close>

lemma pad_dec_cat_less:
  assumes "m < n \<or> m = n \<and> bytes_less a b" and "n < 10 ^ w"
  shows "bytes_less (pad_dec w m @ a) (pad_dec w n @ b)"
  using assms pad_dec_less [of m n w] by (auto simp: bytes_less_append)

lemma three_fields_less:
  assumes "h < h' \<or> h = h' \<and> (m < m' \<or> m = m' \<and> k < k')"
    and "0 \<le> h" "0 \<le> m" "0 \<le> k" and "h' < 10 ^ v" "m' < 10 ^ w" "k' < 10 ^ x"
  shows "bytes_less (pad_dec v (nat h) @ c @ pad_dec w (nat m) @ c' @ pad_dec x (nat k))
    (pad_dec v (nat h') @ c @ pad_dec w (nat m') @ c' @ pad_dec x (nat k'))"
proof -
  have n: "nat i < nat j \<longleftrightarrow> i < j" "nat i = nat j \<longleftrightarrow> i = j" if "0 \<le> i" "i \<le> j" for i j
    using that by auto
  have b: "nat j < 10 ^ u" if "j < 10 ^ u" for j u
    using that by (cases "0 \<le> j") (simp_all add: nat_less_iff)
  consider "h < h'" | "h = h'" "m < m'" | "h = h'" "m = m'" "k < k'" using assms(1) by blast
  then show ?thesis
  proof cases
    case 1
    then show ?thesis using assms b by (intro pad_dec_cat_less) auto
  next
    case 2
    then have "bytes_less (pad_dec w (nat m) @ c' @ pad_dec x (nat k))
        (pad_dec w (nat m') @ c' @ pad_dec x (nat k'))"
      using assms b by (intro pad_dec_cat_less) auto
    with 2 show ?thesis by simp
  next
    case 3
    then have "bytes_less (pad_dec x (nat k)) (pad_dec x (nat k'))"
      using assms b by (intro pad_dec_less) auto
    with 3 show ?thesis by simp
  qed
qed

lemma year_of_range: "0 \<le> d \<Longrightarrow> d < 3652059 \<Longrightarrow> 1 \<le> year_of d \<and> year_of d \<le> 9999"
proof -
  assume "0 \<le> d" and "d < 3652059"
  then have "year0 0 \<le> year0 d" and "year0 d \<le> year0 3652058"
    by (auto intro: year0_mono)
  moreover have "year0 0 = 0" and "year0 3652058 = 9998"
    by (simp_all add: year0_def)
  ultimately show ?thesis by (simp add: year_of_def)
qed

lemma length_date_text: "0 \<le> d \<Longrightarrow> d < 3652059 \<Longrightarrow> length (date_text d) = 10"
  using year_of_range [of d] civil_range [of d]
  by (auto simp: date_text_def year_text_def split: prod.splits)

lemma date_text_less:
  assumes "0 \<le> d" "d < d'" "d' < 3652059"
  shows "bytes_less (date_text d) (date_text d')"
proof -
  obtain y m k where c: "civil d = (y, m, k)" by (cases "civil d") auto
  obtain y' m' k' where c': "civil d' = (y', m', k')" by (cases "civil d'") auto
  have r: "1 \<le> y" "y \<le> 9999" "1 \<le> m" "m \<le> 12" "1 \<le> k" "k \<le> 31"
    using civil_range [OF c] year_of_range [of d] assms by auto
  have r': "1 \<le> y'" "y' \<le> 9999" "1 \<le> m'" "m' \<le> 12" "1 \<le> k'" "k' \<le> 31"
    using civil_range [OF c'] year_of_range [of d'] assms by auto
  have "y < y' \<or> y = y' \<and> (m < m' \<or> m = m' \<and> k < k')"
    by (rule civil_mono [OF assms(2) c c'])
  then have "bytes_less (pad_dec 4 (nat y) @ ''-'' @ pad_dec 2 (nat m) @ ''-'' @ pad_dec 2 (nat k))
      (pad_dec 4 (nat y') @ ''-'' @ pad_dec 2 (nat m') @ ''-'' @ pad_dec 2 (nat k'))"
    by (rule three_fields_less) (use r r' in simp_all)
  with c c' r r' show ?thesis by (simp add: date_text_def year_text_def)
qed

lemma length_clock_text [simp]: "length (clock_text s) = 8"
  by (simp add: clock_text_def)

lemma sexagesimal_less:
  fixes h m k h' m' k' :: int
  assumes "3600 * h + 60 * m + k < 3600 * h' + 60 * m' + k'"
    and "0 \<le> m" "m < 60" "0 \<le> k" "k < 60" "0 \<le> m'" "m' < 60" "0 \<le> k'" "k' < 60"
  shows "h < h' \<or> h = h' \<and> (m < m' \<or> m = m' \<and> k < k')"
proof (cases "h < h'")
  case False
  with assms have "h = h'" by linarith
  moreover have "m < m' \<or> m = m' \<and> k < k'"
    using assms \<open>h = h'\<close> by (cases "m < m'") linarith+
  ultimately show ?thesis by simp
qed simp

lemma clock_text_less:
  assumes "0 \<le> s" "s < s'" "s' < 86400"
  shows "bytes_less (clock_text s) (clock_text s')"
proof -
  have split: "x = 3600 * (x div 3600) + 60 * (x div 60 mod 60) + x mod 60" for x :: int
  proof -
    have "x div 60 div 60 = x div 3600" by (simp flip: zdiv_zmult2_eq)
    then have a: "x div 60 = 60 * (x div 3600) + x div 60 mod 60"
      using div_mult_mod_eq [of "x div 60" 60] by linarith
    have b: "x = 60 * (x div 60) + x mod 60" by simp
    show ?thesis by (subst b, subst (1) a) algebra
  qed
  have r: "x div 60 mod 60 < 60" "0 \<le> x div 60 mod 60" "x mod 60 < 60" "0 \<le> x mod 60" for x :: int
    by simp_all
  have b: "0 \<le> s div 3600" "0 \<le> s' div 3600" "s' div 3600 < 24" using assms by auto
  have "s div 3600 < s' div 3600 \<or> s div 3600 = s' div 3600 \<and>
      (s div 60 mod 60 < s' div 60 mod 60 \<or>
       s div 60 mod 60 = s' div 60 mod 60 \<and> s mod 60 < s' mod 60)"
  proof (rule sexagesimal_less)
    show "3600 * (s div 3600) + 60 * (s div 60 mod 60) + s mod 60
        < 3600 * (s' div 3600) + 60 * (s' div 60 mod 60) + s' mod 60"
      unfolding split [of s, symmetric] split [of s', symmetric] by (rule assms(2))
  qed (rule r)+
  then show ?thesis
    unfolding clock_text_def
  proof (rule three_fields_less)
    show "s' div 60 mod 60 < 10 ^ 2" "s' mod 60 < 10 ^ 2"
      using r(1) [of s'] r(3) [of s'] by simp_all
  qed (use b r in simp_all)
qed

lemma length_stamp_text:
  "0 \<le> s \<Longrightarrow> s < max_seconds \<Longrightarrow> length (stamp_text s) = 19"
  by (simp add: stamp_text_def length_date_text max_seconds_def)

lemma stamp_text_less:
  assumes "0 \<le> s" "s < s'" "s' < max_seconds"
  shows "bytes_less (stamp_text s) (stamp_text s')"
proof -
  have d: "0 \<le> s div 86400" "s div 86400 < 3652059" "0 \<le> s' div 86400" "s' div 86400 < 3652059"
    using assms by (auto simp: max_seconds_def)
  have len: "length (date_text (s div 86400)) = length (date_text (s' div 86400))"
    using d by (simp add: length_date_text)
  show ?thesis
  proof (cases "s div 86400 = s' div 86400")
    case True
    have "s = 86400 * (s div 86400) + s mod 86400" and "s' = 86400 * (s' div 86400) + s' mod 86400"
      by simp_all
    with True assms(2) have "s mod 86400 < s' mod 86400" by linarith
    then have "bytes_less (clock_text (s mod 86400)) (clock_text (s' mod 86400))"
      by (intro clock_text_less) simp_all
    with True show ?thesis by (simp add: stamp_text_def)
  next
    case False
    moreover have "s div 86400 \<le> s' div 86400" using assms(2) by (simp add: zdiv_mono1)
    ultimately have "bytes_less (date_text (s div 86400)) (date_text (s' div 86400))"
      using d by (intro date_text_less) auto
    with len show ?thesis by (simp add: stamp_text_def bytes_less_append)
  qed
qed

subsection \<open>No two instants share a text\<close>

lemma strip_zeros_pad:
  "strip_zeros s @ replicate (length s - length (strip_zeros s)) (CHR ''0'') = s"
proof -
  let ?z = "\<lambda>c. c = CHR ''0''"
  have "takeWhile ?z (rev s) = replicate (length (takeWhile ?z (rev s))) (CHR ''0'')"
    by (rule replicate_length_same [symmetric]) (auto dest: set_takeWhileD)
  moreover have "length (takeWhile ?z (rev s)) = length s - length (strip_zeros s)"
    by (metis (no_types) add_diff_cancel_right' length_append length_rev strip_zeros_def
        takeWhile_dropWhile_id)
  moreover have "s = strip_zeros s @ rev (takeWhile ?z (rev s))"
    by (metis rev_append rev_rev_ident strip_zeros_def takeWhile_dropWhile_id)
  ultimately show ?thesis by (metis rev_replicate)
qed

lemma frac_text_inj:
  assumes "0 \<le> m" "m < 1000000000" "0 \<le> n" "n < 1000000000" and "frac_text m = frac_text n"
  shows "m = n"
proof (cases "m = 0 \<or> n = 0")
  case True
  with assms(5) show ?thesis by (auto simp: frac_text_def split: if_splits)
next
  case False
  with assms(5) have "strip_zeros (pad_dec 9 (nat m)) = strip_zeros (pad_dec 9 (nat n))"
    by (simp add: frac_text_def)
  then have "pad_dec 9 (nat m) = pad_dec 9 (nat n)"
    by (metis length_pad_dec strip_zeros_pad)
  then have "nat m = nat n" by (rule pad_dec_inj [rotated 2]) (use assms in auto)
  with assms show ?thesis by simp
qed

lemma stamp_text_inj:
  assumes "0 \<le> s" "s < max_seconds" "0 \<le> s'" "s' < max_seconds" and "stamp_text s = stamp_text s'"
  shows "s = s'"
  using stamp_text_less [of s s'] stamp_text_less [of s' s] assms bytes_less_irrefl
  by (metis linorder_neqE)

lemma formatTime_inj:
  assumes "in_range a" and "in_range b" and "formatTime a = formatTime b"
  shows "a = b"
proof -
  note r = in_range_seconds [OF assms(1)] in_range_seconds [OF assms(2)]
  then have "stamp_text (seconds_of a) = stamp_text (seconds_of b)
      \<and> frac_text (nanos_of a) @ ''Z'' = frac_text (nanos_of b) @ ''Z''"
    using assms(3) by (simp add: formatTime_def length_stamp_text)
  then have "seconds_of a = seconds_of b" and "nanos_of a = nanos_of b"
    using r nanos_range [of a] nanos_range [of b] by (auto intro: stamp_text_inj frac_text_inj)
  then show ?thesis by (rule time_split_eq)
qed

subsection \<open>Comparing two stored times in SQL\<close>

text \<open>
  \<open>col <= ?\<close> between two columns or parameters that \<open>formatTime\<close> wrote. A column is
  modelled by its instant (the texts of two instants differ, \<open>formatTime_inj\<close>), and the
  comparison by the comparison of the texts.
\<close>

definition sql_le :: "time \<Rightarrow> time \<Rightarrow> bool" where
  "sql_le a b \<longleftrightarrow> bytes_le (formatTime a) (formatTime b)"

lemma sql_le_refl [simp]: "sql_le a a"
  by (simp add: sql_le_def)

lemma sql_le_total: "sql_le a b \<or> sql_le b a"
  by (simp add: sql_le_def bytes_le_total)

lemma sql_le_trans: "sql_le a b \<Longrightarrow> sql_le b c \<Longrightarrow> sql_le a c"
  unfolding sql_le_def by (rule bytes_le_trans)

lemma format_less_seconds:
  assumes "in_range a" and "in_range b" and "seconds_of a < seconds_of b"
  shows "bytes_less (formatTime a) (formatTime b)"
proof -
  note r = in_range_seconds [OF assms(1)] in_range_seconds [OF assms(2)]
  have "bytes_less (stamp_text (seconds_of a)) (stamp_text (seconds_of b))"
    using r assms(3) by (intro stamp_text_less) auto
  then show ?thesis using r by (simp add: formatTime_def bytes_less_append length_stamp_text)
qed

lemma sql_le_seconds:
  "in_range a \<Longrightarrow> in_range b \<Longrightarrow> sql_le a b \<Longrightarrow> seconds_of a \<le> seconds_of b"
  using format_less_seconds [of b a] unfolding sql_le_def bytes_le_def by force

lemma sql_le_of_seconds:
  "in_range a \<Longrightarrow> in_range b \<Longrightarrow> seconds_of a < seconds_of b \<Longrightarrow> sql_le a b"
  using format_less_seconds [of a b] bytes_less_asym unfolding sql_le_def bytes_le_def by blast

lemma format_whole_second_last:
  assumes "seconds_of b = seconds_of a" and "nanos_of a = 0" and "0 < nanos_of b"
  shows "bytes_less (formatTime b) (formatTime a)"
  using assms by (simp add: formatTime_def frac_text_def)

text \<open>What a comparison of texts says of the instants, and what it can miss.\<close>

lemma sql_le_error:
  assumes "in_range a" and "in_range b" and "sql_le a b"
  shows "a < b + second"
proof -
  have "seconds_of a \<le> seconds_of b" using assms by (rule sql_le_seconds)
  with time_split [of a] time_split [of b] nanos_range [of a] nanos_range [of b]
  show ?thesis by (simp add: second_def)
qed

lemma sql_le_later:
  assumes "in_range a" and "in_range b" and "a + second \<le> b"
  shows "sql_le a b"
proof -
  have "seconds_of a < seconds_of b"
    using time_split [of a] time_split [of b] nanos_range [of a] nanos_range [of b] assms(3)
    by (simp add: second_def)
  with assms show ?thesis by (intro sql_le_of_seconds)
qed

lemma sql_le_whole_seconds:
  assumes "in_range a" and "in_range b" and "nanos_of a = 0" and "nanos_of b = 0"
  shows "sql_le a b \<longleftrightarrow> a \<le> b"
proof -
  have "a = 1000000000 * seconds_of a" and "b = 1000000000 * seconds_of b"
    using time_split [of a] time_split [of b] assms(3,4) by simp_all
  then have "a \<le> b \<longleftrightarrow> seconds_of a < seconds_of b \<or> a = b" by auto
  with assms sql_le_seconds [of a b] sql_le_of_seconds [of a b] show ?thesis
    using \<open>a = _\<close> \<open>b = _\<close> by (metis order_le_less sql_le_refl)
qed

section \<open>Evaluation\<close>

text \<open>
  Code equations that compute on binary integers instead of on natural numbers, and that
  compare two times by their seconds before they compare texts. They only serve evaluation.
\<close>

fun pad_int :: "nat \<Rightarrow> int \<Rightarrow> string" where
  "pad_int 0 z = []"
| "pad_int (Suc w) z = pad_int w (z div 10) @ [char_of (48 + z mod 10)]"

lemma char_of_nat_int: "0 \<le> z \<Longrightarrow> (char_of (48 + nat z) :: char) = char_of (48 + z)"
proof -
  assume "0 \<le> z"
  have "(char_of (of_nat (48 + nat z) :: int) :: char) = char_of (48 + nat z)" by (rule char_of_nat)
  with \<open>0 \<le> z\<close> show ?thesis by simp
qed

lemma pad_dec_nat: "0 \<le> z \<Longrightarrow> pad_dec w (nat z) = pad_int w z"
proof (induction w arbitrary: z)
  case (Suc w)
  have "nat z div 10 = nat (z div 10)" and "nat z mod 10 = nat (z mod 10)"
    using Suc.prems by (simp_all add: nat_div_distrib nat_mod_distrib)
  then have "pad_dec (Suc w) (nat z) = pad_dec w (nat (z div 10)) @ [digit (nat (z mod 10))]" by simp
  also have "\<dots> = pad_int (Suc w) z"
    using Suc.IH [of "z div 10"] Suc.prems
    by (simp add: digit_def char_of_nat_int pos_imp_zdiv_nonneg_iff)
  finally show ?case .
qed simp

lemma pad_dec_max: "pad_dec w (nat z) = pad_int w (max 0 z)"
  using pad_dec_nat [of z w] pad_dec_nat [of 0 w] by (cases "0 \<le> z") (simp_all add: max_def)

lemma year_text_code [code]:
  "year_text y =
     (if 0 \<le> y \<and> y < 10000 then pad_int 4 y
      else if 0 \<le> y then dec (nat y)
      else ''-'' @ (if y > - 10000 then pad_int 4 (- y) else dec (nat (- y))))"
  by (simp add: year_text_def pad_dec_max)

lemma date_text_code [code]:
  "date_text d =
     (let (y, m, k) = civil d
      in year_text y @ ''-'' @ pad_int 2 (max 0 m) @ ''-'' @ pad_int 2 (max 0 k))"
  by (simp add: date_text_def pad_dec_max split: prod.split)

lemma clock_text_code [code]:
  "clock_text s =
     pad_int 2 (max 0 (s div 3600)) @ '':'' @ pad_int 2 (max 0 (s div 60 mod 60)) @ '':'' @
     pad_int 2 (max 0 (s mod 60))"
  by (simp add: clock_text_def pad_dec_max)

lemma frac_text_code [code]:
  "frac_text n = (if n = 0 then [] else ''.'' @ strip_zeros (pad_int 9 (max 0 n)))"
  by (simp add: frac_text_def pad_dec_max)

lemma sql_le_code [code]:
  "sql_le a b =
     (if in_range a \<and> in_range b \<and> seconds_of a \<noteq> seconds_of b then seconds_of a < seconds_of b
      else bytes_le (formatTime a) (formatTime b))"
proof (cases "in_range a \<and> in_range b \<and> seconds_of a \<noteq> seconds_of b")
  case True
  then show ?thesis using sql_le_seconds [of a b] sql_le_of_seconds [of a b] by auto
next
  case False
  then show ?thesis by (simp only: sql_le_def if_False)
qed

end
