(* ===== verification/GoText.thy ===== *)
theory GoText
  imports Json GoTime
begin

text \<open>
  Texts as Go's standard library writes them: decimal integers (\<open>strconv.FormatInt\<close>), string
  literals of \<open>json.Marshal\<close> with its escapes and its replacement of invalid UTF-8, and the
  objects \<open>json.Marshal\<close> writes for a struct. The literals are shown to determine the text they
  were written for, so that a hash over a marshalled struct is a hash over its fields.
\<close>

section \<open>Integers\<close>

definition format_int :: "int \<Rightarrow> string" where
  "format_int n = (if n < 0 then CHR ''-'' # dec (nat (- n)) else dec (nat n))"

lemma dec_less_10: "n < 10 \<Longrightarrow> dec n = [digit n]"
  by (subst dec.simps) simp

lemma dec_step: "10 \<le> n \<Longrightarrow> dec n = dec (n div 10) @ [digit (n mod 10)]"
  by (subst dec.simps) simp

lemma dec_nonempty: "dec n \<noteq> []"
  by (subst dec.simps) simp

lemma is_digit_digit: "n < 10 \<Longrightarrow> is_digit (digit n)"
  by (simp add: is_digit_def)

lemma dec_digits: "c \<in> set (dec n) \<Longrightarrow> is_digit c"
proof (induction n rule: less_induct)
  case (less n)
  show ?case
  proof (cases "n < 10")
    case True
    with less.prems show ?thesis by (simp add: dec_less_10 is_digit_digit)
  next
    case False
    then have "c \<in> set (dec (n div 10)) \<or> c = digit (n mod 10)"
      using less.prems dec_step [of n] by auto
    with False less.IH [of "n div 10"] show ?thesis by (auto simp: is_digit_digit)
  qed
qed

fun undec :: "string \<Rightarrow> int" where
  "undec s = foldl (\<lambda>n c. 10 * n + (of_char c - 48)) 0 s"

lemma undec_dec: "undec (dec n) = int n"
proof (induction n rule: less_induct)
  case (less n)
  show ?case
  proof (cases "n < 10")
    case True
    then show ?thesis by (simp add: dec_less_10)
  next
    case False
    then have "undec (dec n) = 10 * undec (dec (n div 10)) + int (n mod 10)"
      using dec_step [of n] by simp
    also have "\<dots> = 10 * int (n div 10) + int (n mod 10)" using less.IH [of "n div 10"] False by simp
    also have "\<dots> = int n" by presburger
    finally show ?thesis .
  qed
qed

lemma dec_inj: "dec m = dec n \<Longrightarrow> m = n"
  using undec_dec [of m] undec_dec [of n] by simp

lemma format_int_inj:
  assumes "format_int m = format_int n"
  shows "m = n"
proof -
  have no: "CHR ''-'' # s \<noteq> dec k" for s k
  proof
    assume "CHR ''-'' # s = dec k"
    then have "CHR ''-'' \<in> set (dec k)" by (metis list.set_intros(1))
    then show False using dec_digits by (force simp: is_digit_def)
  qed
  with assms no [THEN not_sym] show ?thesis
    by (auto simp: format_int_def split: if_splits dest!: dec_inj)
qed

lemma format_int_chars: "c \<in> set (format_int n) \<Longrightarrow> is_digit c \<or> c = CHR ''-''"
  by (auto simp: format_int_def split: if_splits dest: dec_digits)

section \<open>UTF-8\<close>

definition in_bytes :: "int \<Rightarrow> int \<Rightarrow> char \<Rightarrow> bool" where
  "in_bytes lo hi c \<longleftrightarrow> lo \<le> of_char c \<and> of_char c \<le> hi"

text \<open>The length of the encoding at the front of a byte string, 0 if there is none.\<close>

definition rune_len :: "string \<Rightarrow> nat" where
  "rune_len s =
     (case s of
        [] \<Rightarrow> 0
      | a # r \<Rightarrow>
          if in_bytes 0 0x7F a then 1
          else if in_bytes 0xC2 0xDF a \<and> list_all (in_bytes 0x80 0xBF) (take 1 r) \<and> length r \<ge> 1 then 2
          else if in_bytes 0xE0 0xEF a \<and> length r \<ge> 2 \<and> list_all (in_bytes 0x80 0xBF) (take 2 r)
              \<and> (a = CHR 0xE0 \<longrightarrow> in_bytes 0xA0 0xBF (hd r)) \<and> (a = CHR 0xED \<longrightarrow> in_bytes 0x80 0x9F (hd r)) then 3
          else if in_bytes 0xF0 0xF4 a \<and> length r \<ge> 3 \<and> list_all (in_bytes 0x80 0xBF) (take 3 r)
              \<and> (a = CHR 0xF0 \<longrightarrow> in_bytes 0x90 0xBF (hd r)) \<and> (a = CHR 0xF4 \<longrightarrow> in_bytes 0x80 0x8F (hd r)) then 4
          else 0)"

definition is_ascii :: "char \<Rightarrow> bool" where
  "is_ascii c \<longleftrightarrow> of_char c < (128 :: int)"

section \<open>String literals of json.Marshal\<close>

definition hex4 :: "int \<Rightarrow> char" where
  "hex4 n = char_of (if n < 10 then 48 + n else 87 + n)"

definition escape_ascii :: "char \<Rightarrow> string" where
  "escape_ascii c =
     (if c = CHR 0x5C \<or> c = CHR 0x22 then [CHR 0x5C, c]
      else if c = CHR 0x08 then [CHR 0x5C, CHR ''b'']
      else if c = CHR 0x0C then [CHR 0x5C, CHR ''f'']
      else if c = CHR 0x0A then [CHR 0x5C, CHR ''n'']
      else if c = CHR 0x0D then [CHR 0x5C, CHR ''r'']
      else if c = CHR 0x09 then [CHR 0x5C, CHR ''t'']
      else if of_char c < (32 :: int) \<or> c = CHR ''<'' \<or> c = CHR ''>'' \<or> c = CHR ''&''
      then [CHR 0x5C, CHR ''u'', CHR ''0'', CHR ''0'', hex4 (of_char c div 16), hex4 (of_char c mod 16)]
      else [c])"

fun escape_json :: "string \<Rightarrow> string" where
  "escape_json [] = []"
| "escape_json (c # s) =
     (if is_ascii c then escape_ascii c @ escape_json s
      else if rune_len (c # s) = 0 then CHR 0x5C # ''ufffd'' @ escape_json s
      else if take 3 (c # s) = [CHR 0xE2, CHR 0x80, CHR 0xA8] then CHR 0x5C # ''u2028'' @ escape_json (drop 2 s)
      else if take 3 (c # s) = [CHR 0xE2, CHR 0x80, CHR 0xA9] then CHR 0x5C # ''u2029'' @ escape_json (drop 2 s)
      else take (rune_len (c # s)) (c # s) @ escape_json (drop (rune_len (c # s) - 1) s))"

definition json_quote :: "string \<Rightarrow> string" where
  "json_quote s = CHR 0x22 # escape_json s @ [CHR 0x22]"

text \<open>A struct: the names and the values of its fields, in order.\<close>

datatype go_value = GoInt int | GoText string | GoBool bool | GoRaw string

fun value_json :: "go_value \<Rightarrow> string" where
  "value_json (GoInt n) = format_int n"
| "value_json (GoText s) = json_quote s"
| "value_json (GoBool b) = (if b then ''true'' else ''false'')"
| "value_json (GoRaw j) = j"

fun json_fields :: "(string \<times> go_value) list \<Rightarrow> string" where
  "json_fields [] = []"
| "json_fields [(k, v)] = json_quote k @ '':'' @ value_json v"
| "json_fields ((k, v) # f # fs) = json_quote k @ '':'' @ value_json v @ '','' @ json_fields (f # fs)"

definition json_struct :: "(string \<times> go_value) list \<Rightarrow> string" where
  "json_struct fs = ''{'' @ json_fields fs @ ''}''"

section \<open>Literals determine their text\<close>

definition ascii :: "string \<Rightarrow> bool" where
  "ascii s \<longleftrightarrow> list_all is_ascii s"

definition unescape :: "char \<Rightarrow> int" where
  "unescape e =
     (if e = CHR ''b'' then 8 else if e = CHR ''f'' then 12 else if e = CHR ''n'' then 10
      else if e = CHR ''r'' then 13 else if e = CHR ''t'' then 9 else of_char e)"

definition unhex4 :: "char \<Rightarrow> int" where
  "unhex4 c = (if of_char c < (58 :: int) then of_char c - 48 else of_char c - 87)"

lemma unhex4_hex4:
  assumes "0 \<le> n" and "n < 16"
  shows "unhex4 (hex4 n) = n"
  using assms by (cases "n < 10") (simp_all add: unhex4_def hex4_def)

lemma of_char_bounds: "0 \<le> (of_char c :: int)" "(of_char c :: int) < 256"
  using of_char_mod_256 [of c, where ?'a = int] pos_mod_bound [of 256 "of_char c :: int"]
    pos_mod_sign [of 256 "of_char c :: int"] by simp_all

lemma escape_ascii_cases:
  obtains (plain) "escape_ascii c = [c]" and "c \<noteq> CHR 0x5C" and "c \<noteq> CHR 0x22"
    | (short) e where "escape_ascii c = [CHR 0x5C, e]" and "e \<noteq> CHR ''u''" and "unescape e = of_char c"
    | (long) h l where "escape_ascii c = [CHR 0x5C, CHR ''u'', CHR ''0'', CHR ''0'', h, l]"
        and "16 * unhex4 h + unhex4 l = of_char c"
proof -
  have "unhex4 (hex4 (of_char c div 16)) = of_char c div 16"
    by (rule unhex4_hex4) (use of_char_bounds [of c] in \<open>simp_all add: pos_imp_zdiv_nonneg_iff int_div_less_self\<close>)
  moreover have "unhex4 (hex4 (of_char c mod 16)) = of_char c mod 16"
    by (rule unhex4_hex4) simp_all
  ultimately have "16 * unhex4 (hex4 (of_char c div 16)) + unhex4 (hex4 (of_char c mod 16)) = of_char c"
    by simp
  then have l: thesis if "escape_ascii c = [CHR 0x5C, CHR ''u'', CHR ''0'', CHR ''0'',
      hex4 (of_char c div 16), hex4 (of_char c mod 16)]"
    using long that by blast
  consider "c = CHR 0x5C \<or> c = CHR 0x22" | "c = CHR 0x08" | "c = CHR 0x0C" | "c = CHR 0x0A" | "c = CHR 0x0D"
    | "c = CHR 0x09"
    | "\<not> (c = CHR 0x5C \<or> c = CHR 0x22)" "c \<noteq> CHR 0x08" "c \<noteq> CHR 0x0C" "c \<noteq> CHR 0x0A" "c \<noteq> CHR 0x0D" "c \<noteq> CHR 0x09"
    by blast
  then show ?thesis
  proof cases
    case 1
    then show ?thesis by (intro short [of c]) (auto simp: escape_ascii_def unescape_def)
  next
    case 7
    show ?thesis
    proof (cases "of_char c < (32 :: int) \<or> c = CHR ''<'' \<or> c = CHR ''>'' \<or> c = CHR ''&''")
      case True
      show ?thesis by (rule l) (use 7 True in \<open>auto simp: escape_ascii_def\<close>)
    next
      case False
      show ?thesis by (rule plain) (use 7 False in \<open>auto simp: escape_ascii_def\<close>)
    qed
  qed (rule short, simp add: escape_ascii_def, simp, simp add: unescape_def)+
qed

lemma escape_ascii_prefix:
  assumes "escape_ascii c @ x = escape_ascii d @ y"
  shows "c = d \<and> x = y"
proof -
  have "(of_char c :: int) = of_char d \<Longrightarrow> c = d" by simp
  with assms show ?thesis
    by (cases rule: escape_ascii_cases [of c]; cases rule: escape_ascii_cases [of d]) auto
qed

lemma escape_ascii_quote: "escape_ascii c @ x \<noteq> CHR 0x22 # y"
  by (cases rule: escape_ascii_cases [of c]) auto

lemma escape_json_prefix:
  assumes "ascii s" and "ascii t" and "escape_json s @ CHR 0x22 # x = escape_json t @ CHR 0x22 # y"
  shows "s = t \<and> x = y"
  using assms
proof (induction s arbitrary: t)
  case Nil
  show ?case
  proof (cases t)
    case (Cons d t')
    with Nil have "escape_ascii d @ escape_json t' @ CHR 0x22 # y = CHR 0x22 # x" by (simp add: ascii_def)
    then show ?thesis by (simp add: escape_ascii_quote)
  qed (use Nil in simp)
next
  case (Cons c s)
  show ?case
  proof (cases t)
    case Nil
    with Cons.prems have "escape_ascii c @ escape_json s @ CHR 0x22 # x = CHR 0x22 # y" by (simp add: ascii_def)
    then show ?thesis by (simp add: escape_ascii_quote)
  next
    case t: (Cons d t')
    with Cons.prems have "escape_ascii c @ (escape_json s @ CHR 0x22 # x) = escape_ascii d @ (escape_json t' @ CHR 0x22 # y)"
      by (simp add: ascii_def)
    from escape_ascii_prefix [OF this] Cons.IH [of t'] Cons.prems t show ?thesis by (simp add: ascii_def)
  qed
qed

lemma json_quote_prefix:
  assumes "ascii s" and "ascii t" and "json_quote s @ x = json_quote t @ y"
  shows "s = t \<and> x = y"
  using escape_json_prefix [OF assms(1,2), of x y] assms(3) by (simp add: json_quote_def)

lemma split_at_stop:
  assumes "\<And>e. e \<in> set a \<Longrightarrow> P e" "\<And>e. e \<in> set b \<Longrightarrow> P e" and "\<not> P c" and "a @ c # x = b @ c # y"
  shows "a = b \<and> x = y"
  using assms
proof (induction a arbitrary: b)
  case Nil
  then show ?case by (cases b) auto
next
  case (Cons d a)
  then show ?case by (cases b) auto
qed

lemma format_int_prefix:
  assumes "format_int m @ c # x = format_int n @ c # y" and "\<not> is_digit c" and "c \<noteq> CHR ''-''"
  shows "m = n \<and> x = y"
  using split_at_stop [of "format_int m" "\<lambda>d. is_digit d \<or> d = CHR ''-''" "format_int n" c x y] assms
    format_int_chars format_int_inj by blast

text \<open>Values of the same kind, with texts in ASCII: the next byte shows where they end.\<close>

fun same_kind :: "go_value \<Rightarrow> go_value \<Rightarrow> bool" where
  "same_kind (GoInt m) (GoInt n) = True"
| "same_kind (GoText s) (GoText t) = (ascii s \<and> ascii t)"
| "same_kind (GoBool a) (GoBool b) = True"
| "same_kind _ _ = False"

lemma value_json_prefix:
  assumes "same_kind v w" and "value_json v @ c # x = value_json w @ c # y" and "c = CHR '','' \<or> c = CHR ''}''"
  shows "v = w \<and> x = y"
proof -
  have "\<not> is_digit c \<and> c \<noteq> CHR ''-''" using assms(3) by (auto simp: is_digit_def)
  with assms(1,2) show ?thesis
    by (cases "(v, w)" rule: same_kind.cases)
       (auto split: if_splits dest: format_int_prefix json_quote_prefix)
qed

lemma json_fields_inj:
  assumes "map fst fs = map fst gs" and "list_all2 same_kind (map snd fs) (map snd gs)"
    and "json_fields fs @ CHR ''}'' # x = json_fields gs @ CHR ''}'' # y"
  shows "fs = gs"
  using assms
proof (induction fs arbitrary: gs rule: json_fields.induct)
  case (2 k v)
  then obtain w where gs: "gs = [(k, w)]" and "same_kind v w" by (cases gs) auto
  with 2(3) value_json_prefix [of v w "CHR ''}''" x y] show ?case by simp
next
  case (3 k v f fs)
  then obtain w g gs' where gs: "gs = (k, w) # g # gs'" and sk: "same_kind v w"
    by (cases gs; cases "tl gs") auto
  with 3(4) have "value_json v @ CHR '','' # (json_fields (f # fs) @ CHR ''}'' # x)
    = value_json w @ CHR '','' # (json_fields (g # gs') @ CHR ''}'' # y)" by simp
  then have "v = w" and rest: "json_fields (f # fs) @ CHR ''}'' # x = json_fields (g # gs') @ CHR ''}'' # y"
    using value_json_prefix [OF sk] by blast+
  moreover have "f # fs = g # gs'"
    by (rule 3(1) [OF _ _ rest]) (use 3(2,3) gs in simp_all)
  ultimately show ?case using gs by simp
qed simp

lemma json_struct_inj:
  assumes "json_struct fs = json_struct gs" and "map fst fs = map fst gs"
    and "list_all2 same_kind (map snd fs) (map snd gs)"
  shows "fs = gs"
  using json_fields_inj [OF assms(2,3), of "[]" "[]"] assms(1) by (simp add: json_struct_def)

end
