(* ===== verification/GoStr.thy ===== *)
theory GoStr
  imports GoText Complex_Main
begin

text \<open>
  Functions of the packages \<open>strings\<close> and \<open>unicode/utf8\<close> on byte strings, and the
  comparisons of \<open>float64\<close>. A float is not a number, infinite, or a rational; comparing two of them
  is exact, and that is all the components that use this theory do with one.
\<close>

section \<open>strings.TrimSpace\<close>

text \<open>The encodings of the runes with the property \<open>White_Space\<close>.\<close>

definition space_runes :: "string list" where
  "space_runes =
     [[CHR 0x09], [CHR 0x0A], [CHR 0x0B], [CHR 0x0C], [CHR 0x0D], [CHR '' ''],
      [CHR 0xC2, CHR 0x85], [CHR 0xC2, CHR 0xA0], [CHR 0xE1, CHR 0x9A, CHR 0x80]]
     @ map (\<lambda>n. [CHR 0xE2, CHR 0x80, char_of n])
         [0x80, 0x81, 0x82, 0x83, 0x84, 0x85, 0x86, 0x87, 0x88, 0x89, 0x8A, 0xA8, 0xA9, 0xAF :: int]
     @ [[CHR 0xE2, CHR 0x81, CHR 0x9F], [CHR 0xE3, CHR 0x80, CHR 0x80]]"

definition starts_with :: "string \<Rightarrow> string \<Rightarrow> bool" where
  "starts_with s w \<longleftrightarrow> take (length w) s = w"

definition ends_with :: "string \<Rightarrow> string \<Rightarrow> bool" where
  "ends_with s w \<longleftrightarrow> starts_with (rev s) (rev w)"

function drop_runes :: "string list \<Rightarrow> string \<Rightarrow> string" where
  "drop_runes ws s =
     (case find (\<lambda>w. w \<noteq> [] \<and> starts_with s w) ws of
        None \<Rightarrow> s | Some w \<Rightarrow> drop_runes ws (drop (length w) s))"
  by pat_completeness auto

termination
proof (relation "measure (length \<circ> snd)")
  fix ws :: "string list" and s w :: string
  assume "find (\<lambda>w. w \<noteq> [] \<and> starts_with s w) ws = Some w"
  then have "w \<noteq> []" "take (length w) s = w" by (auto dest!: find_SomeD simp: starts_with_def)
  then have "s \<noteq> []" "0 < length w" by auto
  then show "((ws, drop (length w) s), (ws, s)) \<in> measure (length \<circ> snd)" by simp
qed simp

declare drop_runes.simps [simp del]

definition trim_space :: "string \<Rightarrow> string" where
  "trim_space s = rev (drop_runes (map rev space_runes) (rev (drop_runes space_runes s)))"

section \<open>Runes\<close>

text \<open>\<open>utf8.RuneCountInString\<close>: an invalid byte counts as one rune.\<close>

fun rune_count :: "string \<Rightarrow> nat" where
  "rune_count [] = 0"
| "rune_count (c # s) = Suc (rune_count (drop (rune_len (c # s) - 1) s))"

text \<open>\<open>utf8.Valid\<close>\<close>

fun utf8_valid :: "string \<Rightarrow> bool" where
  "utf8_valid [] = True"
| "utf8_valid (c # s) = (rune_len (c # s) \<noteq> 0 \<and> utf8_valid (drop (rune_len (c # s) - 1) s))"

lemma rune_count_le: "rune_count s \<le> length s"
  by (induction s rule: rune_count.induct) (use le_trans in auto)

definition has_nul :: "string \<Rightarrow> bool" where
  "has_nul s \<longleftrightarrow> list_ex (\<lambda>c. c = CHR 0x00) s"

text \<open>\<open>strings.ToLower\<close> on ASCII text.\<close>

definition lower_char :: "char \<Rightarrow> char" where
  "lower_char c = (if 65 \<le> (of_char c :: int) \<and> (of_char c :: int) \<le> 90 then char_of ((of_char c :: int) + 32) else c)"

definition lower_ascii :: "string \<Rightarrow> string" where
  "lower_ascii s = map lower_char s"

section \<open>Floats\<close>

datatype float64 = NotANumber | PosInf | NegInf | Finite rat

fun float_less :: "float64 \<Rightarrow> float64 \<Rightarrow> bool" where
  "float_less NotANumber y = False"
| "float_less x NotANumber = False"
| "float_less PosInf y = False"
| "float_less x NegInf = False"
| "float_less NegInf y = True"
| "float_less (Finite a) PosInf = True"
| "float_less (Finite a) (Finite b) = (a < b)"

fun float_le :: "float64 \<Rightarrow> float64 \<Rightarrow> bool" where
  "float_le NotANumber y = False"
| "float_le x NotANumber = False"
| "float_le NegInf y = True"
| "float_le x PosInf = True"
| "float_le PosInf y = False"
| "float_le (Finite a) NegInf = False"
| "float_le (Finite a) (Finite b) = (a \<le> b)"

definition is_nan :: "float64 \<Rightarrow> bool" where "is_nan x \<longleftrightarrow> x = NotANumber"
definition is_inf :: "float64 \<Rightarrow> bool" where "is_inf x \<longleftrightarrow> x = PosInf \<or> x = NegInf"

lemma finite_float: "\<not> is_nan x \<Longrightarrow> \<not> is_inf x \<Longrightarrow> \<exists>a. x = Finite a"
  by (cases x) (simp_all add: is_nan_def is_inf_def)

text \<open>Comparing with a finite bound decides unless the float is not a number.\<close>

lemma float_le_iff_not_less: "x \<noteq> NotANumber \<Longrightarrow> y \<noteq> NotANumber \<Longrightarrow> float_le x y \<longleftrightarrow> \<not> float_less y x"
  by (cases x; cases y) auto

end
