(* ===== verification/GoFloat.thy ===== *)
theory GoFloat
  imports GoStr
begin

text \<open>
  Arithmetic on \<open>float64\<close>: the exact result, rounded to the nearest float with ties to even, or an
  infinity where that exceeds the largest float. Zero has one sign here; no comparison tells the
  difference.
\<close>

fun bit_length :: "nat \<Rightarrow> nat" where
  "bit_length n = (if n = 0 then 0 else Suc (bit_length (n div 2)))"

declare bit_length.simps [simp del]

definition pow2 :: "int \<Rightarrow> rat" where
  "pow2 e = (if 0 \<le> e then 2 ^ nat e else 1 / 2 ^ nat (- e))"

text \<open>The exponent of a positive rational: the largest power of two that does not exceed it.\<close>

definition exponent :: "rat \<Rightarrow> int" where
  "exponent x =
     (case quotient_of x of (p, q) \<Rightarrow>
        (let d = int (bit_length (nat p)) - int (bit_length (nat q)) in if x < pow2 d then d - 1 else d))"

definition round_even :: "rat \<Rightarrow> int" where
  "round_even x =
     (let f = \<lfloor>x\<rfloor>; r = x - of_int f in
      if r < 1 / 2 then f else if 1 / 2 < r then f + 1 else if even f then f else f + 1)"

definition round64 :: "rat \<Rightarrow> float64" where
  "round64 x =
     (if x = 0 then Finite 0
      else (let e = max (exponent \<bar>x\<bar> - 52) (- 1074); y = of_int (round_even (\<bar>x\<bar> / pow2 e)) * pow2 e in
            if y \<ge> pow2 1024 then (if 0 < x then PosInf else NegInf)
            else Finite (if 0 < x then y else - y)))"

fun float_add :: "float64 \<Rightarrow> float64 \<Rightarrow> float64" where
  "float_add NotANumber y = NotANumber"
| "float_add x NotANumber = NotANumber"
| "float_add PosInf NegInf = NotANumber"
| "float_add NegInf PosInf = NotANumber"
| "float_add PosInf y = PosInf"
| "float_add NegInf y = NegInf"
| "float_add x PosInf = PosInf"
| "float_add x NegInf = NegInf"
| "float_add (Finite a) (Finite b) = round64 (a + b)"

text \<open>Products and quotients are only taken of finite operands, and quotients by constants.\<close>

definition float_mult :: "float64 \<Rightarrow> float64 \<Rightarrow> float64" where
  "float_mult x y = (case (x, y) of (Finite a, Finite b) \<Rightarrow> round64 (a * b) | _ \<Rightarrow> NotANumber)"

definition float_div :: "float64 \<Rightarrow> rat \<Rightarrow> float64" where
  "float_div x c = (case x of Finite a \<Rightarrow> round64 (a / c) | _ \<Rightarrow> x)"

definition of_go_int :: "int \<Rightarrow> float64" where
  "of_go_int n = round64 (of_int n)"

definition float_min :: "float64 \<Rightarrow> float64 \<Rightarrow> float64" where
  "float_min x y =
     (if x = NegInf \<or> y = NegInf then NegInf else if x = NotANumber \<or> y = NotANumber then NotANumber
      else if float_less x y then x else y)"

section \<open>Rounding\<close>

lemma pow2_pos [simp]: "0 < pow2 e"
  by (simp add: pow2_def)

lemma round_even_int [simp]: "round_even (of_int n) = n"
  by (simp add: round_even_def)

lemma round_even_mono:
  assumes "x \<le> y"
  shows "round_even x \<le> round_even y"
proof -
  have le: "\<lfloor>x\<rfloor> \<le> \<lfloor>y\<rfloor>" using assms by (rule floor_mono)
  have up: "round_even z \<le> \<lfloor>z\<rfloor> + 1" "\<lfloor>z\<rfloor> \<le> round_even z" for z by (simp_all add: round_even_def Let_def)
  show ?thesis
  proof (cases "\<lfloor>x\<rfloor> = \<lfloor>y\<rfloor>")
    case True
    with assms show ?thesis by (auto simp: round_even_def Let_def)
  next
    case False
    with le have "\<lfloor>x\<rfloor> + 1 \<le> \<lfloor>y\<rfloor>" by simp
    with up(1) [of x] up(2) [of y] show ?thesis by linarith
  qed
qed

text \<open>An integer of at most 53 bits is a float.\<close>

lemma bit_length_bounds: "0 < n \<Longrightarrow> 2 ^ (bit_length n - 1) \<le> n \<and> n < 2 ^ bit_length n"
proof (induction n rule: bit_length.induct)
  case (1 n)
  show ?case
  proof (cases "n = 1")
    case True
    then show ?thesis by (simp add: bit_length.simps)
  next
    case False
    define m where "m = n div 2"
    have m: "0 < m" "n = 2 * m \<or> n = 2 * m + 1" using False 1(2) by (auto simp: m_def)
    have IH: "2 ^ (bit_length m - 1) \<le> m" "m < 2 ^ bit_length m" using 1(1) m(1) 1(2) by (simp_all add: m_def)
    have len: "bit_length n = Suc (bit_length m)" using 1(2) by (subst bit_length.simps) (simp add: m_def)
    have "0 < bit_length m" using m(1) by (subst bit_length.simps) simp
    then have "(2 :: nat) ^ bit_length m = 2 * 2 ^ (bit_length m - 1)" by (cases "bit_length m") simp_all
    with IH m(2) show ?thesis unfolding len by auto
  qed
qed

lemma exponent_int:
  assumes "0 < n"
  shows "exponent (of_int n) = int (bit_length (nat n)) - 1"
proof -
  have q: "quotient_of (of_int n :: rat) = (n, 1)" by (simp add: quotient_of_int)
  have one: "bit_length (Suc 0) = 1" by (simp add: bit_length.simps)
  have pos: "0 < bit_length (nat n)" using assms by (subst bit_length.simps) simp
  then have "pow2 (int (bit_length (nat n)) - 1) = of_nat (2 ^ (bit_length (nat n) - 1))"
    by (simp add: pow2_def nat_diff_distrib')
  also have "\<dots> \<le> (of_nat (nat n) :: rat)" using bit_length_bounds [of "nat n"] assms by (simp only: of_nat_le_iff)
  finally have "pow2 (int (bit_length (nat n)) - 1) \<le> of_int n" using assms by simp
  then show ?thesis by (simp add: exponent_def q one Let_def)
qed

lemma round64_nat:
  assumes "0 < n" and "n < 2 ^ 53"
  shows "round64 (of_int n) = Finite (of_int n)"
proof -
  let ?e = "max (exponent (of_int n) - 52) (- 1074)"
  have "2 ^ (bit_length (nat n) - 1) \<le> nat n" using bit_length_bounds [of "nat n"] assms(1) by simp
  also have "\<dots> < 2 ^ 53" using assms by (simp add: nat_less_iff)
  finally have "bit_length (nat n) - 1 < 53" by (rule power_less_imp_less_exp [rotated]) simp
  then have e: "?e \<le> 0" by (simp add: exponent_int [OF assms(1)])
  define k where "k = nat (- ?e)"
  have pow: "pow2 ?e = 1 / 2 ^ k" using e by (cases "?e = 0") (simp_all add: pow2_def k_def)
  have "of_int n / pow2 ?e = of_int (n * 2 ^ k)" by (simp add: pow)
  then have y: "of_int (round_even (of_int n / pow2 ?e)) * pow2 ?e = of_int n" by (simp only: round_even_int) (simp add: pow)
  have "(of_int n :: rat) < of_int (2 ^ 53)" using assms(2) by (simp only: of_int_less_iff)
  also have "\<dots> \<le> pow2 1024" unfolding pow2_def by (simp add: power_increasing)
  finally have "\<not> of_int n \<ge> pow2 1024" by simp
  with assms(1) y show ?thesis by (simp add: round64_def Let_def)
qed

lemma round64_int:
  assumes "0 \<le> n" and "n \<le> 2 ^ 52"
  shows "round64 (of_int n) = Finite (of_int n)"
  using assms round64_nat [of n] by (cases "n = 0") (simp_all add: round64_def)

end
