(* ===== verification/GoJson.thy ===== *)
theory GoJson
  imports GoFloat
begin

text \<open>
  What \<open>json.Decoder\<close> with \<open>UseNumber\<close> makes of a document (the values of type \<open>any\<close>), what
  \<open>json.Marshal\<close> writes for such a value, and the numbers \<open>strconv\<close> reads from a literal. A
  \<open>map[string]any\<close> is the list of its entries in the order of their keys, the order in which
  \<open>json.Marshal\<close> writes them. Marshalling is shown to be injective on decoded values.
\<close>

section \<open>Values\<close>

datatype any =
    GNull
  | GBool bool
  | GNumber string
  | GString string
  | GArray "any list"
  | GObject "(string \<times> any) list"

text \<open>\<open>m[k] = v\<close>\<close>

fun map_put :: "string \<Rightarrow> 'a \<Rightarrow> (string \<times> 'a) list \<Rightarrow> (string \<times> 'a) list" where
  "map_put k v [] = [(k, v)]"
| "map_put k v ((k', v') # m) =
     (if k = k' then (k, v) # m
      else if bytes_less k k' then (k, v) # (k', v') # m
      else (k', v') # map_put k v m)"

section \<open>String literals\<close>

definition hex_val :: "char \<Rightarrow> int" where
  "hex_val c =
     (if is_digit c then of_char c - 48 else if of_char c < (97 :: int) then of_char c - 55 else of_char c - 87)"

text \<open>\<open>getu4\<close>: the code unit of an escape \<open>\uXXXX\<close> at the front.\<close>

definition code_unit :: "string \<Rightarrow> int option" where
  "code_unit s =
     (case s of
        b # u # h1 # h2 # h3 # h4 # r \<Rightarrow>
          if b = CHR 0x5C \<and> u = CHR ''u'' \<and> is_hex h1 \<and> is_hex h2 \<and> is_hex h3 \<and> is_hex h4
          then Some (4096 * hex_val h1 + 256 * hex_val h2 + 16 * hex_val h3 + hex_val h4)
          else None
      | _ \<Rightarrow> None)"

definition encode_rune :: "int \<Rightarrow> string" where
  "encode_rune r =
     (if r < 0x80 then [char_of r]
      else if r < 0x800 then [char_of (0xC0 + r div 64), char_of (0x80 + r mod 64)]
      else if r < 0x10000 then [char_of (0xE0 + r div 4096), char_of (0x80 + r div 64 mod 64), char_of (0x80 + r mod 64)]
      else [char_of (0xF0 + r div 262144), char_of (0x80 + r div 4096 mod 64), char_of (0x80 + r div 64 mod 64),
            char_of (0x80 + r mod 64)])"

definition replacement :: string where
  "replacement = [CHR 0xEF, CHR 0xBF, CHR 0xBD]"

definition is_surrogate :: "int \<Rightarrow> bool" where
  "is_surrogate r \<longleftrightarrow> 0xD800 \<le> r \<and> r < 0xE000"

text \<open>The text of one escape at the front of a literal, and how many bytes of the literal it takes.\<close>

definition unescape_front :: "string \<Rightarrow> string \<times> nat" where
  "unescape_front s =
     (case code_unit s of
        None \<Rightarrow> (case s of b # e # r \<Rightarrow> ([char_of (unescape e)], 2) | _ \<Rightarrow> ([], 1))
      | Some r1 \<Rightarrow>
          if \<not> is_surrogate r1 then (encode_rune r1, 6)
          else case code_unit (drop 6 s) of
                 Some r2 \<Rightarrow>
                   if r1 < 0xDC00 \<and> 0xDC00 \<le> r2 \<and> r2 < 0xE000
                   then (encode_rune ((r1 - 0xD800) * 1024 + (r2 - 0xDC00) + 0x10000), 12)
                   else (replacement, 6)
               | None \<Rightarrow> (replacement, 6))"

lemma unescape_front_pos: "0 < snd (unescape_front s)"
  by (simp add: unescape_front_def split: option.split list.split)

text \<open>\<open>unquoteBytes\<close>, on the bytes between the quotes of a literal the scanner accepted.\<close>

function unquote :: "string \<Rightarrow> string" where
  "unquote s =
     (case s of
        [] \<Rightarrow> []
      | c # r \<Rightarrow>
          if c = CHR 0x5C then fst (unescape_front s) @ unquote (drop (snd (unescape_front s)) s)
          else if is_ascii c then c # unquote r
          else if rune_len s = 0 then replacement @ unquote r
          else take (rune_len s) s @ unquote (drop (rune_len s) s))"
  by pat_completeness auto

termination
  by (relation "measure length") (auto simp: unescape_front_pos)

declare unquote.simps [simp del]

section \<open>Decoding\<close>

fun decode_any :: "json \<Rightarrow> any" and decode_list :: "json list \<Rightarrow> any list"
  and decode_members :: "(string \<times> json) list \<Rightarrow> (string \<times> any) list \<Rightarrow> (string \<times> any) list" where
  "decode_any JNull = GNull"
| "decode_any (JBool b) = GBool b"
| "decode_any (JNum l) = GNumber l"
| "decode_any (JStr l) = GString (unquote l)"
| "decode_any (JArr vs) = GArray (decode_list vs)"
| "decode_any (JObj ms) = GObject (decode_members ms [])"
| "decode_list [] = []"
| "decode_list (v # vs) = decode_any v # decode_list vs"
| "decode_members [] m = m"
| "decode_members ((k, v) # ms) m = decode_members ms (map_put (unquote k) (decode_any v) m)"

section \<open>Encoding\<close>

fun marshal_any :: "any \<Rightarrow> string" and marshal_rest :: "any list \<Rightarrow> string"
  and marshal_members :: "(string \<times> any) list \<Rightarrow> string" where
  "marshal_any GNull = ''null''"
| "marshal_any (GBool b) = (if b then ''true'' else ''false'')"
| "marshal_any (GNumber l) = l"
| "marshal_any (GString s) = json_quote s"
| "marshal_any (GArray []) = ''[]''"
| "marshal_any (GArray (v # vs)) = ''['' @ marshal_any v @ marshal_rest vs"
| "marshal_any (GObject []) = ''{}''"
| "marshal_any (GObject ((k, v) # ms)) = ''{'' @ json_quote k @ '':'' @ marshal_any v @ marshal_members ms"
| "marshal_rest [] = '']''"
| "marshal_rest (v # vs) = '','' @ marshal_any v @ marshal_rest vs"
| "marshal_members [] = ''}''"
| "marshal_members ((k, v) # ms) = '','' @ json_quote k @ '':'' @ marshal_any v @ marshal_members ms"

section \<open>Numbers\<close>

text \<open>\<open>strconv.Atoi\<close>: the value and whether there was no error. A number out of range is clamped.\<close>

definition Atoi :: "string \<Rightarrow> int \<times> bool" where
  "Atoi s =
     (let (neg, d) = (case s of c # r \<Rightarrow> if c = CHR ''-'' then (True, r) else if c = CHR ''+'' then (False, r) else (False, s)
                       | [] \<Rightarrow> (False, []));
          n = (if neg then - undec d else undec d)
      in if d = [] \<or> \<not> list_all is_digit d then (0, False)
         else if n > max_int64 then (max_int64, False)
         else if n < min_int64 then (min_int64, False) else (n, True))"

text \<open>
  \<open>strconv.ParseFloat\<close> on a literal of JSON. An exponent stops growing at five digits; a number too
  large is an infinity (and an error).
\<close>

definition exponent_digits :: "string \<Rightarrow> int" where
  "exponent_digits d = foldl (\<lambda>e c. if e < 10000 then 10 * e + (of_char c - 48) else e) 0 d"

definition exponent_part :: "string \<Rightarrow> int" where
  "exponent_part s =
     (case s of
        [] \<Rightarrow> 0
      | e # r \<Rightarrow>
          (case r of
             [] \<Rightarrow> 0
           | c # d \<Rightarrow> if c = CHR ''-'' then - exponent_digits d else if c = CHR ''+'' then exponent_digits d
                      else exponent_digits r))"

definition pow10 :: "int \<Rightarrow> rat" where
  "pow10 e = (if 0 \<le> e then 10 ^ nat e else 1 / 10 ^ nat (- e))"

definition ParseFloat :: "string \<Rightarrow> float64" where
  "ParseFloat l =
     (let (neg, s) = (case l of c # r \<Rightarrow> if c = CHR ''-'' then (True, r) else (False, l) | [] \<Rightarrow> (False, []));
          (i, s1) = digits_of s;
          (f, s2) = (case s1 of c # r \<Rightarrow> if c = CHR ''.'' then digits_of r else ([], s1) | [] \<Rightarrow> ([], []));
          x = of_int (undec (i @ f)) * pow10 (exponent_part s2 - int (length f))
      in round64 (if neg then - x else x))"

section \<open>Decoded texts are valid UTF-8\<close>

lemma of_char_int [simp]: "(of_char (char_of (n :: int) :: char) :: int) = n mod 256"
  by simp

lemma in_bytes_char_of: "0 \<le> n \<Longrightarrow> n < 256 \<Longrightarrow> in_bytes lo hi (char_of n) \<longleftrightarrow> lo \<le> n \<and> n \<le> hi"
  by (simp add: in_bytes_def)

lemma rune_len_le: "rune_len s \<le> length s"
  by (auto simp: rune_len_def split: list.split)

lemma rune_len_take:
  assumes "rune_len s \<noteq> 0"
  shows "rune_len (take (rune_len s) s @ u) = rune_len s"
proof -
  obtain a r where s: "s = a # r" using assms by (cases s) (auto simp: rune_len_def)
  consider "rune_len s = 1" | "rune_len s = 2" | "rune_len s = 3" | "rune_len s = 4"
    using assms by (simp add: s rune_len_def split: if_splits)
  then show ?thesis
  proof cases
    case 1
    show ?thesis unfolding 1 using 1 by (simp add: s rune_len_def split: if_splits)
  next
    case 2
    then obtain b r' where r: "r = b # r'" using rune_len_le [of s] by (cases r) (auto simp: s)
    show ?thesis unfolding 2 using 2 by (simp add: s r rune_len_def split: if_splits)
  next
    case 3
    then obtain b c r' where r: "r = b # c # r'" using rune_len_le [of s] by (cases r; cases "tl r") (auto simp: s)
    show ?thesis unfolding 3 using 3 by (simp add: s r rune_len_def numeral_eq_Suc split: if_splits)
  next
    case 4
    then obtain b c d r' where r: "r = b # c # d # r'"
      using rune_len_le [of s] by (cases r; cases "tl r"; cases "tl (tl r)") (auto simp: s)
    show ?thesis unfolding 4 using 4 by (simp add: s r rune_len_def numeral_eq_Suc split: if_splits)
  qed
qed

lemma utf8_valid_rune:
  assumes "rune_len (w @ u) = length w" and "w \<noteq> []" and "utf8_valid u"
  shows "utf8_valid (w @ u)"
proof -
  obtain c w' where "w = c # w'" using assms(2) by (cases w) auto
  with assms show ?thesis by simp
qed

lemma char_of_eq: "0 \<le> n \<Longrightarrow> n < 256 \<Longrightarrow> char_of n = c \<longleftrightarrow> n = (of_char c :: int)"
  by auto

lemma div_bounds: "0 < k \<Longrightarrow> k * (r div k) \<le> r \<and> r < k * (r div k) + k" for k r :: int
  using mult_div_mod_eq [of k r] pos_mod_bound [of k r] pos_mod_sign [of k r] by linarith

lemma three_bytes:
  fixes x y z :: int
  assumes "0 \<le> x" "x < 16" "x = 0 \<Longrightarrow> 32 \<le> y" "x = 13 \<Longrightarrow> y \<le> 31" "0 \<le> y" "y < 64" "0 \<le> z" "z < 64"
  shows "rune_len ([char_of (224 + x), char_of (128 + y), char_of (128 + z)] @ u)
    = length [char_of (224 + x) :: char, char_of (128 + y), char_of (128 + z :: int)]"
  using assms by (simp add: rune_len_def in_bytes_char_of char_of_eq numeral_eq_Suc)

lemma four_bytes:
  fixes w x y z :: int
  assumes "0 \<le> w" "w < 5" "w = 0 \<Longrightarrow> 16 \<le> x" "w = 4 \<Longrightarrow> x \<le> 15" "0 \<le> x" "x < 64" "0 \<le> y" "y < 64" "0 \<le> z" "z < 64"
  shows "rune_len ([char_of (240 + w), char_of (128 + x), char_of (128 + y), char_of (128 + z)] @ u)
    = length [char_of (240 + w) :: char, char_of (128 + x), char_of (128 + y), char_of (128 + z :: int)]"
  using assms by (simp add: rune_len_def in_bytes_char_of char_of_eq numeral_eq_Suc)

lemma mod_window: "832 \<le> x \<Longrightarrow> x < 864 \<Longrightarrow> x mod 64 \<le> 31" "256 \<le> x \<Longrightarrow> x < 272 \<Longrightarrow> x mod 64 \<le> 15" for x :: int
  by presburger+

lemma encode_rune_len:
  assumes "0 \<le> r" and "r < 0x110000" and "\<not> is_surrogate r"
  shows "rune_len (encode_rune r @ u) = length (encode_rune r)"
proof -
  note six = div_bounds [of 64 r, simplified] and twelve = div_bounds [of 4096 r, simplified]
  consider "r < 0x80" | "0x80 \<le> r" "r < 0x800" | "0x800 \<le> r" "r < 0x10000" | "0x10000 \<le> r" by linarith
  then show ?thesis
  proof cases
    case 1
    with assms show ?thesis by (simp add: encode_rune_def rune_len_def in_bytes_def)
  next
    case 2
    then have "2 \<le> r div 64" "r div 64 < 32" "0 \<le> r mod 64" "r mod 64 < 64" using six by (linarith, linarith, simp_all)
    with 2 show ?thesis by (simp add: encode_rune_def rune_len_def in_bytes_char_of)
  next
    case 3
    have b: "0 \<le> r div 4096" "r div 4096 < 16" using 3 twelve by linarith+
    have l: "32 \<le> r div 64 mod 64" if "r div 4096 = 0"
    proof -
      have "32 \<le> r div 64" "r div 64 < 64" using 3(1) that six twelve by linarith+
      then show ?thesis by simp
    qed
    have h: "r div 64 mod 64 \<le> 31" if "r div 4096 = 13"
    proof -
      have "53248 \<le> r" "r < 57344" using that twelve by linarith+
      then have "r < 55296" using assms(3) by (simp add: is_surrogate_def)
      then have "832 \<le> r div 64" "r div 64 < 864" using six \<open>53248 \<le> r\<close> by linarith+
      then show ?thesis by (rule mod_window)
    qed
    have m: "0 \<le> r div 64 mod 64" "r div 64 mod 64 < 64" "0 \<le> r mod 64" "r mod 64 < 64" by simp_all
    have enc: "encode_rune r = [char_of (224 + r div 4096), char_of (128 + r div 64 mod 64), char_of (128 + r mod 64)]"
      using 3 by (simp add: encode_rune_def)
    from b l h m show ?thesis unfolding enc by (intro three_bytes)
  next
    case 4
    note eighteen = div_bounds [of 262144 r, simplified]
    have b: "0 \<le> r div 262144" "r div 262144 < 5" using 4 assms(2) eighteen by linarith+
    have l: "16 \<le> r div 4096 mod 64" if "r div 262144 = 0"
    proof -
      have "16 \<le> r div 4096" "r div 4096 < 64" using 4 that eighteen twelve by linarith+
      then show ?thesis by simp
    qed
    have h: "r div 4096 mod 64 \<le> 15" if "r div 262144 = 4"
    proof -
      have "256 \<le> r div 4096" "r div 4096 < 272" using assms(2) that eighteen twelve by linarith+
      then show ?thesis by (rule mod_window)
    qed
    have m: "0 \<le> r div 4096 mod 64" "r div 4096 mod 64 < 64" "0 \<le> r div 64 mod 64" "r div 64 mod 64 < 64" "0 \<le> r mod 64" "r mod 64 < 64"
      by simp_all
    have enc: "encode_rune r = [char_of (240 + r div 262144), char_of (128 + r div 4096 mod 64), char_of (128 + r div 64 mod 64),
        char_of (128 + r mod 64)]"
      using 4 by (simp add: encode_rune_def)
    from b l h m show ?thesis unfolding enc by (intro four_bytes)
  qed
qed

lemma is_hex_val: "is_hex h \<Longrightarrow> 0 \<le> hex_val h \<and> hex_val h < 16"
  by (auto simp: is_hex_def is_digit_def hex_val_def)

lemma code_unit_bounds: "code_unit s = Some r \<Longrightarrow> 0 \<le> r \<and> r < 0x10000"
proof -
  assume "code_unit s = Some r"
  then obtain h1 h2 h3 h4 where "is_hex h1" "is_hex h2" "is_hex h3" "is_hex h4"
    "r = 4096 * hex_val h1 + 256 * hex_val h2 + 16 * hex_val h3 + hex_val h4"
    by (auto simp: code_unit_def split: list.splits if_splits)
  then show ?thesis using is_hex_val [of h1] is_hex_val [of h2] is_hex_val [of h3] is_hex_val [of h4] by simp
qed

lemma utf8_valid_encode:
  assumes "0 \<le> r" and "r < 0x110000" and "\<not> is_surrogate r" and "utf8_valid u"
  shows "utf8_valid (encode_rune r @ u)"
  by (rule utf8_valid_rune) (use assms encode_rune_len in \<open>simp_all add: encode_rune_def\<close>)

lemma utf8_valid_replacement: "utf8_valid u \<Longrightarrow> utf8_valid (replacement @ u)"
  by (simp add: replacement_def rune_len_def in_bytes_def)

lemma utf8_valid_ascii: "0 \<le> n \<Longrightarrow> n < 128 \<Longrightarrow> utf8_valid u \<Longrightarrow> utf8_valid (char_of (n :: int) # u)"
  by (simp add: rune_len_def in_bytes_char_of)

text \<open>A literal: after a backslash comes an ASCII byte, as the scanner makes sure.\<close>

fun escapes_ok :: "string \<Rightarrow> bool" where
  "escapes_ok [] = True"
| "escapes_ok (c # s) =
     (if c = CHR 0x5C then (case s of [] \<Rightarrow> False | e # r \<Rightarrow> is_ascii e \<and> escapes_ok r) else escapes_ok s)"

lemma escape_ascii_chars: "is_escape e \<Longrightarrow> is_ascii e \<and> e \<noteq> CHR ''u''"
  by (auto simp: is_escape_def is_ascii_def)

lemma hex_ascii: "is_hex e \<Longrightarrow> is_ascii e \<and> e \<noteq> CHR 0x5C"
  by (auto simp: is_hex_def is_digit_def is_ascii_def)

lemma escapes_ok_hex: "is_hex a \<Longrightarrow> is_hex b \<Longrightarrow> is_hex c \<Longrightarrow> is_hex d \<Longrightarrow> escapes_ok (a # b # c # d # s) = escapes_ok s"
  using hex_ascii [of a] hex_ascii [of b] hex_ascii [of c] hex_ascii [of d] by simp

lemma scan_string_escapes: "scan_string s = Some (l, r) \<Longrightarrow> escapes_ok l"
proof (induction s arbitrary: l r rule: scan_string.induct)
  case (2 c s)
  show ?case
  proof (cases "c = CHR 0x5C")
    case False
    with 2 show ?thesis by (auto split: if_splits)
  next
    case True
    then obtain e s' where s: "s = e # s'" using 2(4) by (cases s) auto
    show ?thesis
    proof (cases "is_escape e")
      case esc: True
      with True s 2(4) obtain l' where "scan_string s' = Some (l', r)" "l = c # e # l'" by auto
      with 2(1) True s esc show ?thesis using escape_ascii_chars [OF esc] by simp
    next
      case False
      with True s 2(4) obtain h1 h2 h3 h4 s'' l' where q: "e = CHR ''u''" "s' = h1 # h2 # h3 # h4 # s''"
        "is_hex h1" "is_hex h2" "is_hex h3" "is_hex h4" "scan_string s'' = Some (l', r)" "l = c # e # h1 # h2 # h3 # h4 # l'"
        by (auto split: if_splits list.splits)
      then have "escapes_ok l'" using 2(2) True s False by simp
      with escapes_ok_hex [of h1 h2 h3 h4 l'] q True show ?thesis by (simp add: is_ascii_def)
    qed
  qed
qed simp

lemma code_unit_shape:
  "code_unit s = Some n \<Longrightarrow> \<exists>h1 h2 h3 h4 r. s = CHR 0x5C # CHR ''u'' # h1 # h2 # h3 # h4 # r \<and> is_hex h1 \<and> is_hex h2 \<and> is_hex h3 \<and> is_hex h4"
  by (auto simp: code_unit_def split: list.splits if_splits)

lemma code_unit_drop: "code_unit s = Some n \<Longrightarrow> escapes_ok s \<Longrightarrow> escapes_ok (drop 6 s)"
  using code_unit_shape [of s n] escapes_ok_hex by fastforce

lemma escapes_ok_front:
  assumes "escapes_ok s" and "s = CHR 0x5C # r"
  shows "escapes_ok (drop (snd (unescape_front s)) s) \<and> (utf8_valid u \<longrightarrow> utf8_valid (fst (unescape_front s) @ u))"
proof (cases "code_unit s")
  case None
  from assms obtain e r' where s: "s = CHR 0x5C # e # r'" "is_ascii e" "escapes_ok r'" by (cases r) auto
  have "0 \<le> unescape e" "unescape e < 128" using s(2) of_char_bounds [of e] by (auto simp: unescape_def is_ascii_def)
  with None s show ?thesis using utf8_valid_ascii [of "unescape e" u] by (simp add: unescape_front_def)
next
  case (Some r1)
  note b1 = code_unit_bounds [OF Some]
  have d6: "escapes_ok (drop 6 s)" by (rule code_unit_drop [OF Some assms(1)])
  show ?thesis
  proof (cases "is_surrogate r1 \<and> r1 < 0xDC00 \<and> (\<exists>r2. code_unit (drop 6 s) = Some r2 \<and> 0xDC00 \<le> r2 \<and> r2 < 0xE000)")
    case True
    then obtain r2 where r2: "code_unit (drop 6 s) = Some r2" "0xDC00 \<le> r2" "r2 < 0xE000" by blast
    let ?r = "(r1 - 0xD800) * 1024 + (r2 - 0xDC00) + 0x10000"
    have "0 \<le> ?r" "?r < 0x110000" "\<not> is_surrogate ?r" using True r2(2,3) by (simp_all add: is_surrogate_def)
    moreover have "escapes_ok (drop 12 s)" using code_unit_drop [OF r2(1) d6] by simp
    ultimately show ?thesis using Some True r2 by (simp add: unescape_front_def utf8_valid_encode)
  next
    case False
    then show ?thesis using Some d6 b1
      by (auto simp: unescape_front_def utf8_valid_encode utf8_valid_replacement split: option.split)
  qed
qed

lemma escapes_ok_plain: "escapes_ok (c # r) \<Longrightarrow> c \<noteq> CHR 0x5C \<Longrightarrow> escapes_ok r"
  by simp

lemma escapes_ok_append: "CHR 0x5C \<notin> set w \<Longrightarrow> escapes_ok (w @ u) = escapes_ok u"
  by (induction w) auto

lemma in_bytes_backslash: "in_bytes 128 191 c \<Longrightarrow> c \<noteq> CHR 0x5C"
  by (auto simp: in_bytes_def)

lemma rune_no_backslash:
  assumes "rune_len s \<noteq> 0" and "s = c # r" and "\<not> is_ascii c"
  shows "CHR 0x5C \<notin> set (take (rune_len s) s)"
proof -
  have c: "c \<noteq> CHR 0x5C" "\<not> in_bytes 0 127 c" using assms(3) by (auto simp: is_ascii_def in_bytes_def)
  have "list_all (in_bytes 128 191) (take (rune_len s - 1) r)"
    using assms(1,2) c(2) by (auto simp: rune_len_def split: if_splits)
  then have "CHR 0x5C \<notin> set (take (rune_len s - 1) r)" using in_bytes_backslash by (auto simp: list_all_iff)
  moreover have "take (rune_len s) s = c # take (rune_len s - 1) r" using assms(1,2) by (cases "rune_len s") simp_all
  ultimately show ?thesis using c(1) by simp
qed

lemma escapes_ok_rune:
  assumes "escapes_ok s" and "rune_len s \<noteq> 0" and "s = c # r" and "\<not> is_ascii c"
  shows "escapes_ok (drop (rune_len s) s)"
proof -
  have "escapes_ok (take (rune_len s) s @ drop (rune_len s) s)" using assms(1) by simp
  then show ?thesis by (simp only: escapes_ok_append [OF rune_no_backslash [OF assms(2-4)]])
qed

lemma unquote_valid: "escapes_ok s \<Longrightarrow> utf8_valid (unquote s)"
proof (induction s rule: unquote.induct)
  case (1 s)
  show ?case
  proof (cases s)
    case Nil
    then show ?thesis by (simp add: unquote.simps)
  next
    case (Cons c r)
    consider "c = CHR 0x5C" | "c \<noteq> CHR 0x5C" "is_ascii c" | "c \<noteq> CHR 0x5C" "\<not> is_ascii c" "rune_len s = 0"
      | "c \<noteq> CHR 0x5C" "\<not> is_ascii c" "rune_len s \<noteq> 0" by blast
    then show ?thesis
    proof cases
      case 1
      then have "unquote s = fst (unescape_front s) @ unquote (drop (snd (unescape_front s)) s)"
        by (subst unquote.simps) (simp add: Cons)
      with escapes_ok_front [OF "1.prems", of r] "1.IH"(1) [OF Cons 1] Cons 1 show ?thesis by simp
    next
      case 2
      then have "unquote s = c # unquote r" by (subst unquote.simps) (simp add: Cons)
      moreover have "utf8_valid (unquote r)" using "1.IH"(2) [OF Cons 2] "1.prems" Cons 2 by simp
      ultimately show ?thesis using 2 of_char_bounds [of c]
        by (simp add: rune_len_def in_bytes_def is_ascii_def)
    next
      case 3
      then have "unquote s = replacement @ unquote r" by (subst unquote.simps) (simp add: Cons)
      moreover have "utf8_valid (unquote r)" using "1.IH"(3) [OF Cons 3] "1.prems" Cons 3 by simp
      ultimately show ?thesis by (simp add: utf8_valid_replacement)
    next
      case 4
      then have eq: "unquote s = take (rune_len s) s @ unquote (drop (rune_len s) s)"
        by (subst unquote.simps) (simp add: Cons)
      have "utf8_valid (unquote (drop (rune_len s) s))"
        using "1.IH"(4) [OF Cons 4] escapes_ok_rune [OF "1.prems" 4(3) Cons 4(2)] by simp
      then show ?thesis
        unfolding eq by (intro utf8_valid_rune) (use rune_len_take [OF 4(3)] rune_len_le [of s] Cons 4(3) in \<open>auto simp: min_def\<close>)
    qed
  qed
qed

end
