(* ===== verification/GoMarshal.thy ===== *)
theory GoMarshal
  imports GoJson
begin

text \<open>
  What a decoded value looks like (its texts are valid UTF-8, its numbers are literals of JSON, its
  objects have their keys in order), and that \<open>json.Marshal\<close> is injective on such values.
\<close>

section \<open>Well-formed values\<close>

definition number_char :: "char \<Rightarrow> bool" where
  "number_char c \<longleftrightarrow> is_digit c \<or> c \<in> {CHR ''-'', CHR ''+'', CHR ''.'', CHR ''e'', CHR ''E''}"

definition number_ok :: "string \<Rightarrow> bool" where
  "number_ok l \<longleftrightarrow> (\<exists>c r. l = c # r \<and> (is_digit c \<or> c = CHR ''-'')) \<and> list_all number_char l"

fun json_ok :: "json \<Rightarrow> bool" and jsons_ok :: "json list \<Rightarrow> bool" and jmembers_ok :: "(string \<times> json) list \<Rightarrow> bool" where
  "json_ok JNull = True"
| "json_ok (JBool b) = True"
| "json_ok (JNum l) = number_ok l"
| "json_ok (JStr l) = escapes_ok l"
| "json_ok (JArr vs) = jsons_ok vs"
| "json_ok (JObj ms) = jmembers_ok ms"
| "jsons_ok [] = True"
| "jsons_ok (v # vs) = (json_ok v \<and> jsons_ok vs)"
| "jmembers_ok [] = True"
| "jmembers_ok ((k, v) # ms) = (escapes_ok k \<and> json_ok v \<and> jmembers_ok ms)"

fun any_ok :: "any \<Rightarrow> bool" and anys_ok :: "any list \<Rightarrow> bool" and amembers_ok :: "(string \<times> any) list \<Rightarrow> bool" where
  "any_ok GNull = True"
| "any_ok (GBool b) = True"
| "any_ok (GNumber l) = number_ok l"
| "any_ok (GString s) = utf8_valid s"
| "any_ok (GArray vs) = anys_ok vs"
| "any_ok (GObject ms) = (sorted_wrt bytes_less (map fst ms) \<and> amembers_ok ms)"
| "anys_ok [] = True"
| "anys_ok (v # vs) = (any_ok v \<and> anys_ok vs)"
| "amembers_ok [] = True"
| "amembers_ok ((k, v) # ms) = (utf8_valid k \<and> any_ok v \<and> amembers_ok ms)"

section \<open>The parser yields well-formed literals\<close>

lemma digits_of_digits: "digits_of s = (d, r) \<Longrightarrow> list_all is_digit d"
  by (induction s arbitrary: d r) (auto split: if_splits prod.splits)

lemma list_all_number: "list_all is_digit d \<Longrightarrow> list_all number_char d"
  by (auto simp: list_all_iff number_char_def)

lemma scan_int_ok:
  assumes "scan_int s = Some (i, r)"
  shows "\<exists>c d. i = c # d \<and> is_digit c \<and> list_all is_digit d"
proof -
  have zero: "is_digit CHR ''0''" by (simp add: is_digit_def)
  obtain c s' where s: "s = c # s'" using assms by (cases s) (simp_all add: scan_int_def)
  obtain d q where d: "digits_of s' = (d, q)" by (cases "digits_of s'")
  show ?thesis
  proof (cases "c = CHR ''0''")
    case True
    with assms s have "i = [c]" by (simp add: scan_int_def)
    with True zero show ?thesis by simp
  next
    case False
    with assms s d have "is_digit c" "i = c # d" by (simp_all add: scan_int_def split: if_splits)
    with digits_of_digits [OF d] show ?thesis by simp
  qed
qed

lemma scan_frac_ok: "scan_frac s = Some (f, r) \<Longrightarrow> list_all number_char f"
  by (auto simp: scan_frac_def number_char_def split: list.splits if_splits prod.splits dest!: digits_of_digits list_all_number)

lemma scan_exp_ok: "scan_exp s = Some (e, r) \<Longrightarrow> list_all number_char e"
  by (auto simp: scan_exp_def number_char_def Let_def split: list.splits if_splits prod.splits dest!: digits_of_digits list_all_number)

lemma scan_number_ok:
  assumes "scan_number s = Some (l, r)"
  shows "number_ok l"
proof -
  obtain sg s1 where p: "(case s of c # r \<Rightarrow> if c = CHR ''-'' then ([c], r) else ([], s) | [] \<Rightarrow> ([], [])) = (sg, s1)"
    by fastforce
  then have sg: "sg = [] \<or> sg = [CHR ''-'']" by (auto split: list.splits if_splits)
  obtain i s2 f s3 e s4 where parts: "scan_int s1 = Some (i, s2)" "scan_frac s2 = Some (f, s3)" "scan_exp s3 = Some (e, s4)"
    "l = sg @ i @ f @ e"
    using assms by (auto simp: scan_number_def p split: option.splits)
  from scan_int_ok [OF parts(1)] obtain c d where i: "i = c # d" "is_digit c" "list_all is_digit d" by blast
  then have "list_all number_char i" using list_all_number [of i] by simp
  with scan_frac_ok [OF parts(2)] scan_exp_ok [OF parts(3)] sg have "list_all number_char l"
    by (auto simp: parts(4) number_char_def)
  with sg i show ?thesis by (auto simp: number_ok_def parts(4))
qed

lemma parse_ok:
  "parse_value fuel depth s = Some (v, r) \<Longrightarrow> json_ok v"
  "parse_elems fuel depth s = Some (vs, r) \<Longrightarrow> jsons_ok vs"
  "parse_members fuel depth s = Some (ms, r) \<Longrightarrow> jmembers_ok ms"
proof (induction fuel depth s and fuel depth s and fuel depth s arbitrary: v r and vs r and ms r
    rule: parse_value_parse_elems_parse_members.induct)
  case (2 fuel depth s)
  then show ?case
    by (auto split: list.splits if_splits dest: scan_string_escapes scan_number_ok)
next
  case (4 fuel depth s)
  then show ?case by (auto split: option.splits prod.splits list.splits if_splits)
next
  case (6 fuel depth s)
  then show ?case
    by (auto split: option.splits prod.splits list.splits if_splits dest: scan_string_escapes)
qed simp_all

lemma parse_document_ok: "parse_document s = Some v \<Longrightarrow> json_ok v"
  by (auto simp: parse_document_def simp del: parse_value.simps split: option.splits if_splits dest: parse_ok(1))

section \<open>Decoding yields well-formed values\<close>

lemma map_put_keys: "set (map fst (map_put k v m)) = insert k (set (map fst m))"
  by (induction k v m rule: map_put.induct) auto

lemma map_put_sorted: "sorted_wrt bytes_less (map fst m) \<Longrightarrow> sorted_wrt bytes_less (map fst (map_put k v m))"
proof (induction k v m rule: map_put.induct)
  case (2 k v k' v' m)
  show ?case
  proof (cases "k = k' \<or> bytes_less k k'")
    case True
    with 2(2) show ?thesis by (auto intro: bytes_less_trans)
  next
    case False
    then have "bytes_less k' k" using bytes_less_linear by blast
    moreover have "fst ` set (map_put k v m) = insert k (fst ` set m)" using map_put_keys [of k v m] by simp
    ultimately show ?thesis using 2 False by simp
  qed
qed simp

lemma map_put_ok: "amembers_ok m \<Longrightarrow> utf8_valid k \<Longrightarrow> any_ok v \<Longrightarrow> amembers_ok (map_put k v m)"
  by (induction k v m rule: map_put.induct) simp_all

lemma decode_ok:
  "json_ok j \<Longrightarrow> any_ok (decode_any j)"
  "jsons_ok js \<Longrightarrow> anys_ok (decode_list js)"
  "jmembers_ok ms \<Longrightarrow> sorted_wrt bytes_less (map fst m) \<Longrightarrow> amembers_ok m \<Longrightarrow>
     sorted_wrt bytes_less (map fst (decode_members ms m)) \<and> amembers_ok (decode_members ms m)"
  by (induction j and js and ms m rule: decode_any_decode_list_decode_members.induct)
     (simp_all add: unquote_valid map_put_sorted map_put_ok)

section \<open>Literals of valid texts determine their text\<close>

lemma rune_len_1: "rune_len (c # s) = 1 \<longleftrightarrow> is_ascii c"
  using of_char_bounds [of c] by (auto simp: rune_len_def in_bytes_def is_ascii_def)

lemma rune_len_lead:
  assumes "rune_len (c # s) \<noteq> 0" and "rune_len (c # t) \<noteq> 0"
  shows "rune_len (c # s) = rune_len (c # t)"
  using assms by (auto simp: rune_len_def in_bytes_def split: if_splits)

text \<open>A piece of a text and what \<open>escape_json\<close> writes for it.\<close>

inductive esc_token :: "string \<Rightarrow> string \<Rightarrow> bool" where
  low: "is_ascii c \<Longrightarrow> esc_token [c] (escape_ascii c)"
| line: "esc_token [CHR 0xE2, CHR 0x80, CHR 0xA8] (CHR 0x5C # ''u2028'')"
| para: "esc_token [CHR 0xE2, CHR 0x80, CHR 0xA9] (CHR 0x5C # ''u2029'')"
| rune: "\<not> is_ascii c \<Longrightarrow> rune_len (c # w) = length (c # w) \<Longrightarrow> esc_token (c # w) (c # w)"

lemma low_chars: "is_ascii c \<Longrightarrow> \<exists>d e. escape_ascii c = d # e \<and> is_ascii d \<and> d \<noteq> CHR 0x22 \<and> \<not> (\<exists>f. e = CHR ''u'' # CHR ''2'' # f)"
  by (cases rule: escape_ascii_cases [of c]) (auto simp: is_ascii_def)

lemma esc_token_prefix:
  assumes "esc_token p a" and "esc_token q b" and "a @ x = b @ y"
  shows "p = q \<and> x = y"
  using assms(1)
proof cases
  case (low c)
  obtain d e where d: "escape_ascii c = d # e" "is_ascii d" "\<not> (\<exists>f. e = CHR ''u'' # CHR ''2'' # f)"
    using low_chars [OF low(3)] by blast
  have nou: "e @ x \<noteq> CHR ''u'' # CHR ''2'' # f" if "d = CHR 0x5C" for f
    using that d low by (cases rule: escape_ascii_cases [of c]) auto
  from assms(2) show ?thesis
  proof cases
    case low': (low c')
    with escape_ascii_prefix [of c x c' y] low assms(3) show ?thesis by simp
  next
    case (rune c' w)
    with d low assms(3) show ?thesis by auto
  qed (use d nou low assms(3) in auto)
next
  case line
  from assms(2) show ?thesis
  proof cases
    case (low c)
    with low_chars [OF low(3)] line assms(3) show ?thesis by (cases rule: escape_ascii_cases [of c]) auto
  qed (use line assms(3) in \<open>auto simp: is_ascii_def\<close>)
next
  case para
  from assms(2) show ?thesis
  proof cases
    case (low c)
    with low_chars [OF low(3)] para assms(3) show ?thesis by (cases rule: escape_ascii_cases [of c]) auto
  qed (use para assms(3) in \<open>auto simp: is_ascii_def\<close>)
next
  case (rune c w)
  from assms(2) show ?thesis
  proof cases
    case (low c')
    with low_chars [OF low(3)] rune assms(3) show ?thesis by auto
  next
    case rune': (rune c' w')
    with rune assms(3) have "c' = c" by simp
    then have "length (c # w) = length (c # w')" using rune_len_lead [of c w w'] rune(3,4) rune' by simp
    with rune rune' assms(3) show ?thesis by simp
  qed (use rune assms(3) in \<open>auto simp: is_ascii_def\<close>)
qed

lemma esc_token_start: "esc_token p a \<Longrightarrow> a @ x \<noteq> CHR 0x22 # y"
proof (induction rule: esc_token.induct)
  case (low c)
  then show ?case using low_chars by fastforce
qed (auto simp: is_ascii_def)

lemma escape_json_front:
  assumes "utf8_valid (c # s)"
  obtains p a r where "esc_token p a" and "p \<noteq> []" and "c # s = p @ r" and "escape_json (c # s) = a @ escape_json r" and "utf8_valid r"
proof (cases "is_ascii c")
  case True
  then have "rune_len (c # s) = 1" using rune_len_1 by blast
  with assms True show ?thesis by (intro that [of "[c]" "escape_ascii c" s] low) simp_all
next
  case False
  define n where "n = rune_len (c # s)"
  have n: "n \<noteq> 0" "utf8_valid (drop n (c # s))" using assms by (cases n; simp add: n_def)+
  consider "take 3 (c # s) = [CHR 0xE2, CHR 0x80, CHR 0xA8]" | "take 3 (c # s) = [CHR 0xE2, CHR 0x80, CHR 0xA9]"
    | "take 3 (c # s) \<noteq> [CHR 0xE2, CHR 0x80, CHR 0xA8]" "take 3 (c # s) \<noteq> [CHR 0xE2, CHR 0x80, CHR 0xA9]" by blast
  then show ?thesis
  proof cases
    case 1
    then obtain q where q: "c = CHR 0xE2" "s = CHR 0x80 # CHR 0xA8 # q" by (cases s; cases "tl s") auto
    then have "n = 3" unfolding n_def by (simp add: rune_len_def in_bytes_def)
    with n q False show ?thesis by (intro that [OF line, of q]) (simp_all add: n_def)
  next
    case 2
    then obtain q where q: "c = CHR 0xE2" "s = CHR 0x80 # CHR 0xA9 # q" by (cases s; cases "tl s") auto
    then have "n = 3" unfolding n_def by (simp add: rune_len_def in_bytes_def)
    with n q False show ?thesis by (intro that [OF para, of q]) (simp_all add: n_def)
  next
    case 3
    have take: "take n (c # s) = c # take (n - 1) s" using n(1) by (cases n) simp_all
    have len: "length (c # take (n - 1) s) = n" unfolding take [symmetric] using rune_len_le [of "c # s"] by (simp add: n_def)
    have "rune_len (c # take (n - 1) s) = n"
      using rune_len_take [of "c # s" "[]"] n(1) unfolding n_def [symmetric] take by simp
    then have token: "esc_token (c # take (n - 1) s) (c # take (n - 1) s)" using False len by (intro rune) simp_all
    have esc: "escape_json (c # s) = take n (c # s) @ escape_json (drop n (c # s))"
      using 3 False n(1) by (cases n) (simp_all add: n_def)
    have cat: "c # s = (c # take (n - 1) s) @ drop n (c # s)" unfolding take [symmetric] by simp
    have "escape_json (c # s) = (c # take (n - 1) s) @ escape_json (drop n (c # s))" unfolding esc take ..
    then show ?thesis by (intro that [OF token _ cat _ n(2)]) simp
  qed
qed

lemma escape_json_prefix_valid:
  assumes "utf8_valid s" and "utf8_valid t" and "escape_json s @ CHR 0x22 # x = escape_json t @ CHR 0x22 # y"
  shows "s = t \<and> x = y"
  using assms
proof (induction s arbitrary: t rule: length_induct)
  case (1 s)
  show ?case
  proof (cases s)
    case Nil
    show ?thesis
    proof (cases t)
      case (Cons d t')
      obtain p a r where "esc_token p a" "escape_json t = a @ escape_json r"
        using 1(3) unfolding Cons by (rule escape_json_front)
      with 1(4) Nil esc_token_start [of p a "escape_json r @ CHR 0x22 # y" x] show ?thesis by simp
    qed (use 1 Nil in simp)
  next
    case (Cons c s')
    obtain p a r where s: "esc_token p a" "p \<noteq> []" "s = p @ r" "escape_json s = a @ escape_json r" "utf8_valid r"
      using 1(2) unfolding Cons by (rule escape_json_front)
    show ?thesis
    proof (cases t)
      case Nil
      with 1(4) s esc_token_start [of p a "escape_json r @ CHR 0x22 # x" y] show ?thesis by simp
    next
      case t: (Cons d t')
      obtain q b u where u: "esc_token q b" "t = q @ u" "escape_json t = b @ escape_json u" "utf8_valid u"
        using 1(3) unfolding t by (rule escape_json_front)
      with 1(4) s u have "a @ (escape_json r @ CHR 0x22 # x) = b @ (escape_json u @ CHR 0x22 # y)" by simp
      from esc_token_prefix [OF s(1) u(1) this] have pq: "p = q" "escape_json r @ CHR 0x22 # x = escape_json u @ CHR 0x22 # y" by auto
      have "length r < length s" using s(2,3) by simp
      with 1(1) s(5) u(4) pq(2) have "r = u \<and> x = y" by blast
      with pq(1) s u show ?thesis by simp
    qed
  qed
qed

lemma quote_prefix:
  assumes "utf8_valid s" and "utf8_valid t" and "json_quote s @ x = json_quote t @ y"
  shows "s = t \<and> x = y"
  using escape_json_prefix_valid [OF assms(1,2), of x y] assms(3) by (simp add: json_quote_def)

section \<open>Marshalling is injective\<close>

definition delimited :: "string \<Rightarrow> bool" where
  "delimited x \<longleftrightarrow> x = [] \<or> hd x \<in> {CHR '','', CHR '']'', CHR ''}''}"

lemma delimited_simps [simp]: "delimited []" "delimited (CHR '','' # x)" "delimited (CHR '']'' # x)" "delimited (CHR ''}'' # x)"
  by (simp_all add: delimited_def)

lemma takeWhile_stop:
  assumes "list_all P a" and "x = [] \<or> \<not> P (hd x)"
  shows "takeWhile P (a @ x) = a"
  using assms by (induction a) (cases x; auto)+

lemma number_prefix:
  assumes "number_ok l" and "number_ok m" and "l @ x = m @ y" and "delimited x" and "delimited y"
  shows "l = m \<and> x = y"
proof -
  have stop: "z = [] \<or> \<not> number_char (hd z)" if "delimited z" for z
    using that by (auto simp: delimited_def number_char_def is_digit_def)
  have "takeWhile number_char (l @ x) = l" "takeWhile number_char (m @ y) = m"
    by (rule takeWhile_stop; use assms stop in \<open>simp add: number_ok_def\<close>)+
  with assms(3) have "l = m" by simp
  with assms(3) show ?thesis by simp
qed

definition starts_value :: "char \<Rightarrow> bool" where
  "starts_value c \<longleftrightarrow> c \<in> {CHR ''n'', CHR ''t'', CHR ''f'', CHR 0x22, CHR ''['', CHR ''{''}"

lemma number_first: "number_ok l \<Longrightarrow> l @ x = c # y \<Longrightarrow> \<not> starts_value c"
  by (auto simp: number_ok_def starts_value_def is_digit_def)

lemma starts_value_simps [simp]: "starts_value CHR ''n''" "starts_value CHR ''t''" "starts_value CHR ''f''" "starts_value CHR 0x22"
    "starts_value CHR ''[''" "starts_value CHR ''{''" "\<not> starts_value CHR '']''" "\<not> starts_value CHR ''}''"
  by (simp_all add: starts_value_def)

text \<open>The first byte shows the kind of the value.\<close>

fun lead :: "any \<Rightarrow> char" where
  "lead GNull = CHR ''n''"
| "lead (GBool b) = (if b then CHR ''t'' else CHR ''f'')"
| "lead (GNumber l) = hd l"
| "lead (GString s) = CHR 0x22"
| "lead (GArray vs) = CHR ''[''"
| "lead (GObject ms) = CHR ''{''"

lemma marshal_lead: "any_ok v \<Longrightarrow> \<exists>r. marshal_any v = lead v # r"
  by (cases v rule: marshal_any.cases) (auto simp: number_ok_def json_quote_def)

lemma lead_number: "number_ok l \<Longrightarrow> \<not> starts_value (hd l)"
  by (auto simp: number_ok_def starts_value_def is_digit_def)

lemma lead_starts: "starts_value (lead v) \<or> (\<exists>l. v = GNumber l)"
  by (cases v) simp_all

fun alike :: "any \<Rightarrow> any \<Rightarrow> bool" where
  "alike GNull w = (w = GNull)"
| "alike (GBool b) w = (w = GBool b)"
| "alike (GNumber l) w = (\<exists>m. w = GNumber m)"
| "alike (GString s) w = (\<exists>t. w = GString t)"
| "alike (GArray vs) w = (\<exists>ws. w = GArray ws)"
| "alike (GObject ms) w = (\<exists>ns. w = GObject ns)"

lemma same_lead:
  assumes "any_ok v" and "any_ok w" and "lead v = lead w"
  shows "alike v w"
proof (cases "\<exists>l. v = GNumber l")
  case True
  then obtain l where v: "v = GNumber l" by blast
  with lead_number [of l] assms(1,3) lead_starts [of w] show ?thesis by auto
next
  case False
  with lead_starts [of v] have "starts_value (lead w)" using assms(3) by simp
  then have "w \<noteq> GNumber l" for l using lead_number [of l] assms(2) by auto
  with False assms(3) show ?thesis by (cases v; cases w) (auto split: if_splits)
qed

lemma marshal_alike:
  assumes "any_ok v" and "any_ok w" and "marshal_any v @ x = marshal_any w @ y"
  shows "alike v w"
  using marshal_lead [OF assms(1)] marshal_lead [OF assms(2)] assms by (intro same_lead) auto

lemma marshal_not_close: "any_ok v \<Longrightarrow> marshal_any v @ x \<noteq> CHR '']'' # y"
proof
  assume v: "any_ok v" and eq: "marshal_any v @ x = CHR '']'' # y"
  with marshal_lead [OF v] have "lead v = CHR '']''" by auto
  with lead_starts [of v] v show False by (auto simp: number_ok_def is_digit_def)
qed

lemma marshal_rest_start: "\<exists>c r. marshal_rest vs = c # r \<and> (c = CHR '','' \<or> c = CHR '']'')"
  by (cases vs) auto

lemma marshal_members_start: "\<exists>c r. marshal_members ms = c # r \<and> (c = CHR '','' \<or> c = CHR ''}'')"
  by (cases ms rule: marshal_members.cases) auto

lemma delimited_rest [simp]: "delimited (marshal_rest vs @ x)" "delimited (marshal_members ms @ x)"
  using marshal_rest_start [of vs] marshal_members_start [of ms] by auto

lemma marshal_prefix:
  "any_ok v \<Longrightarrow> any_ok w \<Longrightarrow> marshal_any v @ x = marshal_any w @ y \<Longrightarrow> delimited x \<Longrightarrow> delimited y \<Longrightarrow> v = w \<and> x = y"
  "anys_ok vs \<Longrightarrow> anys_ok ws \<Longrightarrow> marshal_rest vs @ x = marshal_rest ws @ y \<Longrightarrow> vs = ws \<and> x = y"
  "amembers_ok ms \<Longrightarrow> amembers_ok ns \<Longrightarrow> marshal_members ms @ x = marshal_members ns @ y \<Longrightarrow> ms = ns \<and> x = y"
proof (induction v and vs and ms arbitrary: w x y and ws x y and ns x y rule: marshal_any_marshal_rest_marshal_members.induct)
  case 1
  then show ?case using marshal_alike [of GNull w x y] by auto
next
  case (2 b)
  then show ?case using marshal_alike [of "GBool b" w x y] by auto
next
  case (3 l)
  then obtain m where "w = GNumber m" using marshal_alike [of "GNumber l" w x y] by auto
  with 3 number_prefix [of l m x y] show ?case by simp
next
  case (4 s)
  then obtain t where "w = GString t" using marshal_alike [of "GString s" w x y] by auto
  with 4 quote_prefix [of s t x y] show ?case by simp
next
  case 5
  then obtain ws where w: "w = GArray ws" using marshal_alike [of "GArray []" w x y] by auto
  show ?case
  proof (cases ws)
    case (Cons u us)
    with 5 w show ?thesis using marshal_not_close [of u "marshal_rest us @ y" x] by simp
  qed (use 5 w in simp)
next
  case (6 v vs)
  have "alike (GArray (v # vs)) w" by (rule marshal_alike [OF 6(3-5)])
  then obtain ws where w: "w = GArray ws" by auto
  show ?case
  proof (cases ws)
    case Nil
    with 6(3-5) w show ?thesis using marshal_not_close [of v "marshal_rest vs @ x" y] by simp
  next
    case (Cons u us)
    then have "v = u \<and> marshal_rest vs @ x = marshal_rest us @ y"
      using 6(1) [of u "marshal_rest vs @ x" "marshal_rest us @ y"] 6(3-5) w by simp
    with 6(2) [of us x y] 6(3,4) Cons w show ?thesis by simp
  qed
next
  case 7
  then obtain ns where w: "w = GObject ns" using marshal_alike [of "GObject []" w x y] by auto
  show ?case
  proof (cases ns)
    case (Cons n ns')
    obtain k u where "n = (k, u)" by (cases n)
    with 7 w Cons show ?thesis by (simp add: json_quote_def)
  qed (use 7 w in simp)
next
  case (8 k v ms)
  have "alike (GObject ((k, v) # ms)) w" by (rule marshal_alike [OF 8(3-5)])
  then obtain ns where w: "w = GObject ns" by auto
  show ?case
  proof (cases ns)
    case Nil
    with 8(3-5) w show ?thesis by (simp add: json_quote_def)
  next
    case (Cons n ns')
    obtain k' u where n: "n = (k', u)" by (cases n)
    have "json_quote k @ (CHR '':'' # marshal_any v @ marshal_members ms @ x)
        = json_quote k' @ (CHR '':'' # marshal_any u @ marshal_members ns' @ y)"
      using 8(5) w Cons n by simp
    from quote_prefix [OF _ _ this] have k: "k = k'" "marshal_any v @ marshal_members ms @ x = marshal_any u @ marshal_members ns' @ y"
      using 8(3,4) w Cons n by simp_all
    then have "v = u \<and> marshal_members ms @ x = marshal_members ns' @ y"
      using 8(1) [of u "marshal_members ms @ x" "marshal_members ns' @ y"] 8(3,4) w Cons n by simp
    with 8(2) [of ns' x y] 8(3,4) k w Cons n show ?thesis by simp
  qed
next
  case 9
  then show ?case by (cases ws) simp_all
next
  case (10 v vs)
  show ?case
  proof (cases ws)
    case Nil
    with 10(5) show ?thesis by simp
  next
    case (Cons u us)
    then have "v = u \<and> marshal_rest vs @ x = marshal_rest us @ y"
      using 10(1) [of u "marshal_rest vs @ x" "marshal_rest us @ y"] 10(3-5) by simp
    with 10(2) [of us x y] 10(3,4) Cons show ?thesis by simp
  qed
next
  case 11
  then show ?case by (cases ns rule: marshal_members.cases) simp_all
next
  case (12 k v ms)
  show ?case
  proof (cases ns)
    case Nil
    with 12(5) show ?thesis by simp
  next
    case (Cons n ns')
    obtain k' u where n: "n = (k', u)" by (cases n)
    have "json_quote k @ (CHR '':'' # marshal_any v @ marshal_members ms @ x)
        = json_quote k' @ (CHR '':'' # marshal_any u @ marshal_members ns' @ y)"
      using 12(5) Cons n by simp
    from quote_prefix [OF _ _ this] have k: "k = k'" "marshal_any v @ marshal_members ms @ x = marshal_any u @ marshal_members ns' @ y"
      using 12(3,4) Cons n by simp_all
    then have "v = u \<and> marshal_members ms @ x = marshal_members ns' @ y"
      using 12(1) [of u "marshal_members ms @ x" "marshal_members ns' @ y"] 12(3,4) Cons n by simp
    with 12(2) [of ns' x y] 12(3,4) k Cons n show ?thesis by simp
  qed
qed

lemma marshal_inj: "any_ok v \<Longrightarrow> any_ok w \<Longrightarrow> marshal_any v = marshal_any w \<Longrightarrow> v = w"
  using marshal_prefix(1) [of v w "[]" "[]"] by simp

end
