(* ===== verification/GoDecode.thy ===== *)
theory GoDecode
  imports GoMarshal
begin

text \<open>
  \<open>encoding/json\<close> decoding into structs: for every struct a list of names with what a value does to a record.
  Names match without case, the last value of a name counts, \<open>null\<close> sets nothing. A value of another type is an
  error; every caller gives up at an error, so what was set before it is not kept.
\<close>

section \<open>Names\<close>

text \<open>Two letters outside ASCII fold to one of ASCII: the long s and the Kelvin sign.\<close>

fun fold_name :: "string \<Rightarrow> string" where
  "fold_name [] = []"
| "fold_name (c # s) =
     (if c = CHR 0xC5 \<and> take 1 s = [CHR 0xBF] then CHR ''s'' # fold_name (drop 1 s)
      else if c = CHR 0xE2 \<and> take 2 s = [CHR 0x84, CHR 0xAA] then CHR ''k'' # fold_name (drop 2 s)
      else lower_char c # fold_name s)"

section \<open>Setters\<close>

type_synonym 'r setter = "json \<Rightarrow> 'r \<Rightarrow> 'r option"

definition set_text :: "(string \<Rightarrow> 'r \<Rightarrow> 'r) \<Rightarrow> 'r setter" where
  "set_text f v r = (case v of JStr l \<Rightarrow> Some (f (unquote l) r) | JNull \<Rightarrow> Some r | _ \<Rightarrow> None)"

definition set_int :: "(int \<Rightarrow> 'r \<Rightarrow> 'r) \<Rightarrow> 'r setter" where
  "set_int f v r =
     (case v of JNum l \<Rightarrow> (case Atoi l of (n, ok) \<Rightarrow> if ok then Some (f n r) else None) | JNull \<Rightarrow> Some r | _ \<Rightarrow> None)"

definition set_float :: "(float64 \<Rightarrow> 'r \<Rightarrow> 'r) \<Rightarrow> 'r setter" where
  "set_float f v r =
     (case v of JNum l \<Rightarrow> if is_inf (ParseFloat l) then None else Some (f (ParseFloat l) r) | JNull \<Rightarrow> Some r | _ \<Rightarrow> None)"

definition set_bool :: "(bool \<Rightarrow> 'r \<Rightarrow> 'r) \<Rightarrow> 'r setter" where
  "set_bool f v r = (case v of JBool b \<Rightarrow> Some (f b r) | JNull \<Rightarrow> Some r | _ \<Rightarrow> None)"

text \<open>The members of an object into a record; \<open>strict\<close> is \<open>DisallowUnknownFields\<close>.\<close>

fun decode_fields :: "bool \<Rightarrow> (string \<times> 'r setter) list \<Rightarrow> (string \<times> json) list \<Rightarrow> 'r \<Rightarrow> 'r option" where
  "decode_fields strict fs [] r = Some r"
| "decode_fields strict fs ((k, v) # ms) r =
     (case map_of fs (fold_name (unquote k)) of
        None \<Rightarrow> if strict then None else decode_fields strict fs ms r
      | Some f \<Rightarrow> (case f v r of None \<Rightarrow> None | Some r' \<Rightarrow> decode_fields strict fs ms r'))"

definition decode_struct :: "bool \<Rightarrow> (string \<times> 'r setter) list \<Rightarrow> 'r setter" where
  "decode_struct strict fs v r = (case v of JObj ms \<Rightarrow> decode_fields strict fs ms r | JNull \<Rightarrow> Some r | _ \<Rightarrow> None)"

definition set_struct :: "bool \<Rightarrow> (string \<times> 'q setter) list \<Rightarrow> ('r \<Rightarrow> 'q) \<Rightarrow> ('q \<Rightarrow> 'r \<Rightarrow> 'r) \<Rightarrow> 'r setter" where
  "set_struct strict fs get put' v r = map_option (\<lambda>q. put' q r) (decode_struct strict fs v (get r))"

text \<open>A pointer to a struct: \<open>null\<close> is nil.\<close>

definition set_pointer :: "bool \<Rightarrow> (string \<times> 'q setter) list \<Rightarrow> 'q \<Rightarrow> ('r \<Rightarrow> 'q option) \<Rightarrow> ('q option \<Rightarrow> 'r \<Rightarrow> 'r) \<Rightarrow> 'r setter" where
  "set_pointer strict fs zero get put' v r =
     (if v = JNull then Some (put' None r)
      else map_option (\<lambda>q. put' (Some q) r) (decode_struct strict fs v (case get r of None \<Rightarrow> zero | Some q \<Rightarrow> q)))"

text \<open>A slice of structs. A repeated name starts the slice anew.\<close>

fun decode_items :: "bool \<Rightarrow> (string \<times> 'q setter) list \<Rightarrow> 'q \<Rightarrow> json list \<Rightarrow> 'q list option" where
  "decode_items strict fs zero [] = Some []"
| "decode_items strict fs zero (v # vs) =
     (case decode_struct strict fs v zero of
        None \<Rightarrow> None
      | Some q \<Rightarrow> map_option (Cons q) (decode_items strict fs zero vs))"

definition set_slice :: "bool \<Rightarrow> (string \<times> 'q setter) list \<Rightarrow> 'q \<Rightarrow> ('q list \<Rightarrow> 'r \<Rightarrow> 'r) \<Rightarrow> 'r setter" where
  "set_slice strict fs zero put' v r =
     (case v of JArr vs \<Rightarrow> map_option (\<lambda>qs. put' qs r) (decode_items strict fs zero vs) | JNull \<Rightarrow> Some (put' [] r) | _ \<Rightarrow> None)"

text \<open>\<open>json.Unmarshal\<close>, and a \<open>Decoder\<close> that is then asked for the end of the text.\<close>

definition decode_text :: "bool \<Rightarrow> (string \<times> 'r setter) list \<Rightarrow> string \<Rightarrow> 'r \<Rightarrow> 'r option" where
  "decode_text strict fs s r = (case parse_document s of None \<Rightarrow> None | Some v \<Rightarrow> decode_struct strict fs v r)"

section \<open>What decoding keeps\<close>

definition setter_keeps :: "('r \<Rightarrow> bool) \<Rightarrow> 'r setter \<Rightarrow> bool" where
  "setter_keeps P f \<longleftrightarrow> (\<forall>v r r'. P r \<longrightarrow> f v r = Some r' \<longrightarrow> P r')"

lemma ParseFloat_number: "ParseFloat l \<noteq> NotANumber"
  by (simp add: ParseFloat_def Let_def round64_def case_prod_unfold)

lemma keeps_text: "(\<And>x r. P r \<Longrightarrow> P (f x r)) \<Longrightarrow> setter_keeps P (set_text f)"
  by (auto simp: setter_keeps_def set_text_def split: json.splits)

lemma keeps_int: "(\<And>x r. P r \<Longrightarrow> P (f x r)) \<Longrightarrow> setter_keeps P (set_int f)"
  by (auto simp: setter_keeps_def set_int_def split: json.splits prod.splits if_splits)

lemma keeps_float: "(\<And>x r. x \<noteq> NotANumber \<Longrightarrow> P r \<Longrightarrow> P (f x r)) \<Longrightarrow> setter_keeps P (set_float f)"
  using ParseFloat_number by (auto simp: setter_keeps_def set_float_def split: json.splits if_splits)

lemma keeps_fields:
  assumes "\<forall>(n, f) \<in> set fs. setter_keeps P f"
  shows "P r \<Longrightarrow> decode_fields strict fs ms r = Some r' \<Longrightarrow> P r'"
proof (induction ms arbitrary: r)
  case (Cons m ms)
  obtain k v where m: "m = (k, v)" by (cases m)
  show ?case
  proof (cases "map_of fs (fold_name (unquote k))")
    case None
    with Cons m show ?thesis by (simp split: if_splits)
  next
    case (Some f)
    then obtain r1 where r1: "f v r = Some r1" "decode_fields strict fs ms r1 = Some r'" using Cons.prems m by (auto split: option.splits)
    have "setter_keeps P f" using assms map_of_SomeD [OF Some] by blast
    then have "P r1" using Cons.prems(1) r1(1) by (auto simp: setter_keeps_def)
    with Cons.IH r1(2) show ?thesis by blast
  qed
qed simp

lemma keeps_decode_struct: "\<forall>(n, f) \<in> set fs. setter_keeps P f \<Longrightarrow> setter_keeps P (decode_struct strict fs)"
  unfolding setter_keeps_def [of P "decode_struct strict fs"]
proof (intro allI impI)
  fix v r r'
  assume fs: "\<forall>(n, f) \<in> set fs. setter_keeps P f" and r: "P r" "decode_struct strict fs v r = Some r'"
  show "P r'"
  proof (cases v)
    case (JObj ms)
    with r(2) have "decode_fields strict fs ms r = Some r'" by (simp add: decode_struct_def)
    from keeps_fields [OF fs r(1) this] show ?thesis .
  qed (use r in \<open>simp_all add: decode_struct_def\<close>)
qed

lemma keeps_struct:
  assumes "\<forall>(n, f) \<in> set fs. setter_keeps Q f" and "\<And>r. P r \<Longrightarrow> Q (get r)" and "\<And>q r. Q q \<Longrightarrow> P r \<Longrightarrow> P (put' q r)"
  shows "setter_keeps P (set_struct strict fs get put')"
  unfolding setter_keeps_def
proof (intro allI impI)
  fix v r r'
  assume r: "P r" "set_struct strict fs get put' v r = Some r'"
  then obtain q where q: "decode_struct strict fs v (get r) = Some q" "r' = put' q r" by (auto simp: set_struct_def)
  have "Q q" using keeps_decode_struct [OF assms(1)] q(1) assms(2) [OF r(1)] unfolding setter_keeps_def by blast
  with assms(3) r(1) q(2) show "P r'" by blast
qed

lemma fold_name_examples: "fold_name ''Token_FILE'' = ''token_file''" "fold_name [CHR 0xC5, CHR 0xBF] = ''s''"
  by code_simp+

end
