(* ===== verification/Policy.thy ===== *)
theory Policy
  imports GoTime
begin

text \<open>
  Package \<open>internal/policy\<close>: the declaration of a tool and the decision whether an
  invocation in a given mode is allowed, needs an approval, or is denied. Go's string types
  \<open>Mode\<close>, \<open>Risk\<close> and \<open>Idempotency\<close> become datatypes with the declared constants,
  the empty string and any other string, so that the checks for unknown values stay visible.
\<close>

datatype mode = Mode_Unset | Read | Write | Publish | Admin | Mode_Other string

datatype risk = Risk_Unset | Safe | Low | Medium | High | Critical | Risk_Other string

datatype idempotency = Idempotent | AtLeastOnce | NonRepeatable | Idem_Other string

record tool =
  t_name :: string
  t_version :: string
  t_input_schema :: string
  t_risk :: risk
  t_modes :: "mode list"
  t_approval :: bool
  t_timeout :: duration
  t_output_limit :: int
  t_path_scope :: "string list"
  t_network_scope :: "string list"
  t_idempotency :: idempotency

record decision =
  d_allowed :: bool
  d_needs_approval :: bool
  d_reason :: string

definition Evaluate :: "tool \<Rightarrow> mode \<Rightarrow> decision" where
  "Evaluate t m =
     (if \<not> List.member (t_modes t) m
      then \<lparr>d_allowed = False, d_needs_approval = False, d_reason = ''mode denied''\<rparr>
      else if t_name t = [] \<or> t_version t = [] \<or> t_timeout t \<le> 0 \<or> t_output_limit t \<le> 0
      then \<lparr>d_allowed = False, d_needs_approval = False, d_reason = ''invalid tool declaration''\<rparr>
      else (let need = t_approval t \<or> t_risk t = High \<or> t_risk t = Critical \<or> m = Publish
            in \<lparr>d_allowed = \<not> need, d_needs_approval = need, d_reason = ''policy''\<rparr>))"

datatype policy_error = NameVersionRequired | ModesRequired | LimitsRequired

definition Validate :: "tool \<Rightarrow> (policy_error, unit) result" where
  "Validate t =
     (if t_name t = [] \<or> t_version t = [] then Inl NameVersionRequired
      else if t_modes t = [] then Inl ModesRequired
      else if t_timeout t \<le> 0 \<or> t_output_limit t \<le> 0 then Inl LimitsRequired
      else Inr ())"

section \<open>What a decision says\<close>

text \<open>The three verdicts are exclusive, and together they are all there is.\<close>

definition denied :: "decision \<Rightarrow> bool" where
  "denied d \<longleftrightarrow> \<not> d_allowed d \<and> \<not> d_needs_approval d"

lemma Evaluate_exclusive: "\<not> (d_allowed (Evaluate t m) \<and> d_needs_approval (Evaluate t m))"
  by (simp add: Evaluate_def Let_def)

lemma Evaluate_allowed_iff:
  "d_allowed (Evaluate t m) \<longleftrightarrow>
     m \<in> set (t_modes t) \<and> t_name t \<noteq> [] \<and> t_version t \<noteq> [] \<and> 0 < t_timeout t \<and> 0 < t_output_limit t
     \<and> \<not> t_approval t \<and> t_risk t \<noteq> High \<and> t_risk t \<noteq> Critical \<and> m \<noteq> Publish"
  by (auto simp: Evaluate_def Let_def)

lemma Evaluate_needs_iff:
  "d_needs_approval (Evaluate t m) \<longleftrightarrow>
     m \<in> set (t_modes t) \<and> t_name t \<noteq> [] \<and> t_version t \<noteq> [] \<and> 0 < t_timeout t \<and> 0 < t_output_limit t
     \<and> (t_approval t \<or> t_risk t = High \<or> t_risk t = Critical \<or> m = Publish)"
  by (auto simp: Evaluate_def Let_def)

lemma Evaluate_denied_iff:
  "denied (Evaluate t m) \<longleftrightarrow>
     m \<notin> set (t_modes t) \<or> t_name t = [] \<or> t_version t = [] \<or> t_timeout t \<le> 0 \<or> t_output_limit t \<le> 0"
  by (auto simp: denied_def Evaluate_def Let_def)

lemma Validate_ok_iff:
  "Validate t = Inr () \<longleftrightarrow>
     t_name t \<noteq> [] \<and> t_version t \<noteq> [] \<and> t_modes t \<noteq> [] \<and> 0 < t_timeout t \<and> 0 < t_output_limit t"
  by (simp add: Validate_def)

text \<open>A validated tool is only ever denied for its mode.\<close>

lemma Validate_denied_iff:
  "Validate t = Inr () \<Longrightarrow> denied (Evaluate t m) \<longleftrightarrow> m \<notin> set (t_modes t)"
  by (auto simp: Validate_ok_iff Evaluate_denied_iff)

end
