(* ===== verification/SkillSchema.thy ===== *)
theory SkillSchema
  imports GoMarshal
begin

text \<open>
  Package \<open>internal/skills\<close>: the schemas a manifest may use (\<open>validateSchemaDocument\<close> and
  \<open>validateSchemaNode\<close> of \<open>manifest.go\<close>) and the check of an input against one (\<open>schema.go\<close>).
  A type assertion without the second result panics when it fails; here it is the error
  \<open>TypeAssertionPanic\<close>, which the theorem below shows to be unreachable. The depth counters
  run down here: 17 levels are the depths 0 to 16, 33 levels the depths 0 to 32. The loops over
  a map run in the order of its keys; Go leaves the order open, which decides at most which of several
  errors is returned.
\<close>

section \<open>Errors and loops\<close>

datatype schema_error = BadDocument | TooDeep | NotAnObject | UnknownKeyword | NoType | NoProperties | OpenProperties
  | BadPropertyName | BadRequired | UndeclaredRequired

datatype input_error = BadSchema | UnboundedInput | DuplicateKey | InputTooDeep | ExpectedObject | UnknownProperty | MissingProperty
  | ExpectedArray | ExpectedString | ExpectedNumber | BadNumber | ExpectedInteger | BelowMinimum | AboveMaximum | ExpectedBoolean
  | ExpectedNull | NotInEnum | BadBound | BoundExceeded | BoundNotMet | TypeAssertionPanic

fun for_each :: "('a \<Rightarrow> ('e, unit) result) \<Rightarrow> 'a list \<Rightarrow> ('e, unit) result" where
  "for_each f [] = Inr ()"
| "for_each f (x # xs) = and_then (f x) (\<lambda>_. for_each f xs)"

lemma and_then_unit [simp]: "and_then r (\<lambda>_. q) = Inr () \<longleftrightarrow> r = Inr () \<and> q = Inr ()"
  by (cases r) simp_all

lemma and_then_Inr [simp]: "and_then r Inr = r"
  by (cases r) simp_all

lemma for_each_ok [simp]: "for_each f xs = Inr () \<longleftrightarrow> (\<forall>x \<in> set xs. f x = Inr ())"
  by (induction xs) simp_all

definition members :: "any \<Rightarrow> (string \<times> any) list" where
  "members v = (case v of GObject ms \<Rightarrow> ms | _ \<Rightarrow> [])"

text \<open>\<open>object[key]\<close>, nil where the key is missing.\<close>

definition item :: "(string \<times> any) list \<Rightarrow> string \<Rightarrow> any" where
  "item m k = (case map_of m k of None \<Rightarrow> GNull | Some v \<Rightarrow> v)"

section \<open>Schemas\<close>

definition is_letter :: "char \<Rightarrow> bool" where
  "is_letter c \<longleftrightarrow> 65 \<le> (of_char c :: int) \<and> (of_char c :: int) \<le> 90 \<or> 97 \<le> (of_char c :: int) \<and> (of_char c :: int) \<le> 122"

definition property_name_ok :: "string \<Rightarrow> bool" where
  "property_name_ok s =
     (case s of
        [] \<Rightarrow> False
      | c # r \<Rightarrow> is_letter c \<and> length r \<le> 127
          \<and> list_all (\<lambda>d. is_letter d \<or> is_digit d \<or> d = CHR ''_'' \<or> d = CHR ''.'' \<or> d = CHR ''-'') r)"

definition schema_keywords :: "string list" where
  "schema_keywords = [''type'', ''description'', ''properties'', ''required'', ''additionalProperties'', ''items'', ''enum'',
     ''minLength'', ''maxLength'', ''minimum'', ''maximum'', ''minItems'', ''maxItems'']"

definition schema_types :: "string list" where
  "schema_types = [''object'', ''string'', ''number'', ''integer'', ''boolean'', ''array'', ''null'']"

definition check_required :: "(string \<times> any) list \<Rightarrow> (string \<times> any) list \<Rightarrow> (schema_error, unit) result" where
  "check_required m ps =
     (case map_of m ''required'' of
        None \<Rightarrow> Inr ()
      | Some (GArray vs) \<Rightarrow>
          for_each (\<lambda>v. case v of GString n \<Rightarrow> reject_if (map_of ps n = None) UndeclaredRequired (Inr ()) | _ \<Rightarrow> Inl BadRequired) vs
      | Some _ \<Rightarrow> Inl BadRequired)"

fun validateSchemaNode :: "nat \<Rightarrow> any \<Rightarrow> (schema_error, unit) result" where
  "validateSchemaNode 0 node = Inl TooDeep"
| "validateSchemaNode (Suc levels) node =
     (case node of
        GObject m \<Rightarrow>
          and_then (for_each (\<lambda>(k, v). reject_if (k \<notin> set schema_keywords) UnknownKeyword (Inr ())) m) (\<lambda>_.
          case item m ''type'' of
            GString t \<Rightarrow>
              reject_if (t \<notin> set schema_types) NoType
              (and_then
                (if t = ''object'' then
                   (case item m ''properties'' of
                      GObject ps \<Rightarrow>
                        reject_if (map_of m ''additionalProperties'' \<noteq> Some (GBool False)) OpenProperties
                        (and_then (for_each (\<lambda>(k, c). reject_if (\<not> property_name_ok k) BadPropertyName (validateSchemaNode levels c)) ps)
                          (\<lambda>_. check_required m ps))
                    | _ \<Rightarrow> Inl NoProperties)
                 else Inr ())
                (\<lambda>_. if t = ''array'' then validateSchemaNode levels (item m ''items'') else Inr ()))
          | _ \<Rightarrow> Inl NoType)
      | _ \<Rightarrow> Inl NotAnObject)"

definition schema_levels :: nat where "schema_levels = 17"

definition decode_document :: "string \<Rightarrow> any option" where
  "decode_document s = map_option decode_any (parse_document s)"

definition validateSchemaDocument :: "string \<Rightarrow> (schema_error, unit) result" where
  "validateSchemaDocument raw =
     (if length raw = 0 \<or> length raw > 64 * 1024 then Inl BadDocument
      else case decode_document raw of None \<Rightarrow> Inl BadDocument | Some s \<Rightarrow> validateSchemaNode schema_levels s)"

section \<open>Inputs\<close>

definition checkIntegerBound :: "(string \<times> any) list \<Rightarrow> string \<Rightarrow> nat \<Rightarrow> bool \<Rightarrow> (input_error, unit) result" where
  "checkIntegerBound m name n is_max =
     (case item m name of
        GNumber l \<Rightarrow>
          (case Atoi l of (bound, ok) \<Rightarrow>
             if \<not> ok \<or> bound < 0 then Inl BadBound
             else if is_max \<and> int n > bound then Inl BoundExceeded
             else if \<not> is_max \<and> int n < bound then Inl BoundNotMet
             else Inr ())
      | _ \<Rightarrow> Inr ())"

text \<open>The bound of a number: parsed without looking at the error.\<close>

definition check_minimum :: "(string \<times> any) list \<Rightarrow> float64 \<Rightarrow> (input_error, unit) result" where
  "check_minimum m x =
     (case item m ''minimum'' of GNumber l \<Rightarrow> reject_if (float_less x (ParseFloat l)) BelowMinimum (Inr ()) | _ \<Rightarrow> Inr ())"

definition check_maximum :: "(string \<times> any) list \<Rightarrow> float64 \<Rightarrow> (input_error, unit) result" where
  "check_maximum m x =
     (case item m ''maximum'' of GNumber l \<Rightarrow> reject_if (float_less (ParseFloat l) x) AboveMaximum (Inr ()) | _ \<Rightarrow> Inr ())"

definition is_integer :: "float64 \<Rightarrow> bool" where
  "is_integer x = (case x of Finite a \<Rightarrow> of_int \<lfloor>a\<rfloor> = a | _ \<Rightarrow> False)"

definition check_number :: "(string \<times> any) list \<Rightarrow> bool \<Rightarrow> any \<Rightarrow> (input_error, unit) result" where
  "check_number m want_integer v =
     (case v of
        GNumber l \<Rightarrow>
          (let x = ParseFloat l in
           reject_if (is_inf x \<or> is_nan x) BadNumber
           (reject_if (want_integer \<and> \<not> is_integer x) ExpectedInteger
           (and_then (check_minimum m x) (\<lambda>_. check_maximum m x))))
      | _ \<Rightarrow> Inl ExpectedNumber)"

definition check_string :: "(string \<times> any) list \<Rightarrow> any \<Rightarrow> (input_error, unit) result" where
  "check_string m v =
     (case v of
        GString s \<Rightarrow>
          and_then (checkIntegerBound m ''minLength'' (rune_count s) False) (\<lambda>_. checkIntegerBound m ''maxLength'' (rune_count s) True)
      | _ \<Rightarrow> Inl ExpectedString)"

definition check_enum :: "(string \<times> any) list \<Rightarrow> any \<Rightarrow> (input_error, unit) result" where
  "check_enum m v =
     (case item m ''enum'' of
        GArray vs \<Rightarrow> reject_if (marshal_any v \<notin> marshal_any ` set vs) NotInEnum (Inr ())
      | _ \<Rightarrow> Inr ())"

definition check_present :: "(string \<times> any) list \<Rightarrow> (string \<times> any) list \<Rightarrow> (input_error, unit) result" where
  "check_present m kvs =
     (case item m ''required'' of
        GArray vs \<Rightarrow>
          for_each (\<lambda>v. case v of GString n \<Rightarrow> reject_if (map_of kvs n = None) MissingProperty (Inr ()) | _ \<Rightarrow> Inl TypeAssertionPanic) vs
      | _ \<Rightarrow> Inr ())"

fun validateValue :: "nat \<Rightarrow> any \<Rightarrow> any \<Rightarrow> (input_error, unit) result" where
  "validateValue 0 schema v = Inl InputTooDeep"
| "validateValue (Suc levels) schema v =
     (case schema of
        GObject m \<Rightarrow>
          (case item m ''type'' of
             GString t \<Rightarrow>
               and_then
                 (if t = ''object'' then
                    (case v of
                       GObject kvs \<Rightarrow>
                         (case item m ''properties'' of
                            GObject ps \<Rightarrow>
                              and_then (for_each (\<lambda>(k, x). reject_if (map_of ps k = None) UnknownProperty (Inr ())) kvs) (\<lambda>_.
                              and_then (check_present m kvs) (\<lambda>_.
                              for_each (\<lambda>(k, x). case item ps k of GObject c \<Rightarrow> validateValue levels (GObject c) x
                                                | _ \<Rightarrow> Inl TypeAssertionPanic) kvs))
                          | _ \<Rightarrow> Inl TypeAssertionPanic)
                     | _ \<Rightarrow> Inl ExpectedObject)
                  else if t = ''array'' then
                    (case v of
                       GArray xs \<Rightarrow>
                         and_then (checkIntegerBound m ''minItems'' (length xs) False) (\<lambda>_.
                         and_then (checkIntegerBound m ''maxItems'' (length xs) True) (\<lambda>_.
                         (case item m ''items'' of
                            GObject i \<Rightarrow> for_each (validateValue levels (GObject i)) xs
                          | _ \<Rightarrow> Inl TypeAssertionPanic)))
                     | _ \<Rightarrow> Inl ExpectedArray)
                  else if t = ''string'' then check_string m v
                  else if t = ''number'' \<or> t = ''integer'' then check_number m (t = ''integer'') v
                  else if t = ''boolean'' then (case v of GBool b \<Rightarrow> Inr () | _ \<Rightarrow> Inl ExpectedBoolean)
                  else if t = ''null'' then reject_if (v \<noteq> GNull) ExpectedNull (Inr ())
                  else Inr ())
                 (\<lambda>_. check_enum m v)
           | _ \<Rightarrow> Inl TypeAssertionPanic)
      | _ \<Rightarrow> Inl TypeAssertionPanic)"

definition input_levels :: nat where "input_levels = 33"

text \<open>\<open>rejectDuplicateJSONKeys\<close> on a document that is valid JSON.\<close>

fun no_duplicate_keys :: "json \<Rightarrow> bool" and no_duplicates_in :: "json list \<Rightarrow> bool"
  and no_duplicates_from :: "string set \<Rightarrow> (string \<times> json) list \<Rightarrow> bool" where
  "no_duplicate_keys (JArr vs) = no_duplicates_in vs"
| "no_duplicate_keys (JObj ms) = no_duplicates_from {} ms"
| "no_duplicate_keys _ = True"
| "no_duplicates_in [] = True"
| "no_duplicates_in (v # vs) = (no_duplicate_keys v \<and> no_duplicates_in vs)"
| "no_duplicates_from seen [] = True"
| "no_duplicates_from seen ((k, v) # ms) =
     (unquote k \<notin> seen \<and> no_duplicate_keys v \<and> no_duplicates_from (insert (unquote k) seen) ms)"

definition max_input_bytes :: nat where "max_input_bytes = 1024 * 1024"

definition ValidateInput :: "string \<Rightarrow> string \<Rightarrow> (input_error, unit) result" where
  "ValidateInput schema_raw input_raw =
     (if validateSchemaDocument schema_raw \<noteq> Inr () then Inl BadSchema
      else if length input_raw = 0 \<or> length input_raw > max_input_bytes then Inl UnboundedInput
      else case parse_document input_raw of
        None \<Rightarrow> Inl UnboundedInput
      | Some j \<Rightarrow>
          if \<not> no_duplicate_keys j then Inl DuplicateKey
          else case decode_document schema_raw of
                 None \<Rightarrow> Inl BadSchema
               | Some schema \<Rightarrow> validateValue input_levels schema (decode_any j))"

section \<open>What a schema says\<close>

text \<open>The meaning of a schema, keyword by keyword, without depth, order or errors.\<close>

definition has_type :: "any \<Rightarrow> string \<Rightarrow> bool" where
  "has_type s t \<longleftrightarrow> item (members s) ''type'' = GString t"

definition enum_fits :: "any \<Rightarrow> any \<Rightarrow> bool" where
  "enum_fits s v \<longleftrightarrow> (case item (members s) ''enum'' of GArray vs \<Rightarrow> v \<in> set vs | _ \<Rightarrow> True)"

definition required_names :: "any \<Rightarrow> string set" where
  "required_names s = (case item (members s) ''required'' of GArray vs \<Rightarrow> set (concat (map (\<lambda>v. case v of GString n \<Rightarrow> [n] | _ \<Rightarrow> []) vs))
                         | _ \<Rightarrow> {})"

text \<open>A count is within a bound: there is none, or it is a natural number the count respects.\<close>

definition at_least :: "any \<Rightarrow> string \<Rightarrow> nat \<Rightarrow> bool" where
  "at_least s name n \<longleftrightarrow> (case item (members s) name of GNumber l \<Rightarrow> snd (Atoi l) \<and> 0 \<le> fst (Atoi l) \<and> fst (Atoi l) \<le> int n | _ \<Rightarrow> True)"

definition at_most :: "any \<Rightarrow> string \<Rightarrow> nat \<Rightarrow> bool" where
  "at_most s name n \<longleftrightarrow> (case item (members s) name of GNumber l \<Rightarrow> snd (Atoi l) \<and> int n \<le> fst (Atoi l) | _ \<Rightarrow> True)"

definition in_interval :: "any \<Rightarrow> float64 \<Rightarrow> bool" where
  "in_interval s x \<longleftrightarrow>
     (case item (members s) ''minimum'' of GNumber l \<Rightarrow> \<not> float_less x (ParseFloat l) | _ \<Rightarrow> True)
     \<and> (case item (members s) ''maximum'' of GNumber l \<Rightarrow> \<not> float_less (ParseFloat l) x | _ \<Rightarrow> True)"

definition is_finite :: "float64 \<Rightarrow> bool" where
  "is_finite x \<longleftrightarrow> (case x of Finite a \<Rightarrow> True | _ \<Rightarrow> False)"

fun conforms :: "any \<Rightarrow> any \<Rightarrow> bool" and conforms_all :: "any \<Rightarrow> any list \<Rightarrow> bool"
  and conforms_members :: "(string \<times> any) list \<Rightarrow> (string \<times> any) list \<Rightarrow> bool" where
  "conforms s GNull = (has_type s ''null'' \<and> enum_fits s GNull)"
| "conforms s (GBool b) = (has_type s ''boolean'' \<and> enum_fits s (GBool b))"
| "conforms s (GString x) =
     (has_type s ''string'' \<and> at_least s ''minLength'' (rune_count x) \<and> at_most s ''maxLength'' (rune_count x)
      \<and> enum_fits s (GString x))"
| "conforms s (GNumber l) =
     (is_finite (ParseFloat l) \<and> (has_type s ''number'' \<or> has_type s ''integer'' \<and> is_integer (ParseFloat l))
      \<and> in_interval s (ParseFloat l) \<and> enum_fits s (GNumber l))"
| "conforms s (GArray vs) =
     (has_type s ''array'' \<and> at_least s ''minItems'' (length vs) \<and> at_most s ''maxItems'' (length vs)
      \<and> conforms_all (item (members s) ''items'') vs \<and> enum_fits s (GArray vs))"
| "conforms s (GObject kvs) =
     (has_type s ''object'' \<and> required_names s \<subseteq> fst ` set kvs
      \<and> conforms_members (members (item (members s) ''properties'')) kvs \<and> enum_fits s (GObject kvs))"
| "conforms_all s [] = True"
| "conforms_all s (v # vs) = (conforms s v \<and> conforms_all s vs)"
| "conforms_members ps [] = True"
| "conforms_members ps ((k, v) # kvs) =
     ((case map_of ps k of None \<Rightarrow> False | Some c \<Rightarrow> conforms c v) \<and> conforms_members ps kvs)"

lemma conforms_all_iff: "conforms_all s vs \<longleftrightarrow> (\<forall>v \<in> set vs. conforms s v)"
  by (induction vs) auto

lemma conforms_members_iff:
  "conforms_members ps kvs \<longleftrightarrow> (\<forall>(k, v) \<in> set kvs. \<exists>c. map_of ps k = Some c \<and> conforms c v)"
  by (induction kvs) (auto split: option.splits)

section \<open>A valid schema\<close>

lemma schema_nodeE:
  assumes "validateSchemaNode n s = Inr ()"
  obtains n' m t where "n = Suc n'" and "s = GObject m" and "item m ''type'' = GString t" and "t \<in> set schema_types"
    and "t = ''object'' \<Longrightarrow> \<exists>ps. item m ''properties'' = GObject ps \<and> (\<forall>(k, c) \<in> set ps. validateSchemaNode n' c = Inr ())
           \<and> check_required m ps = Inr ()"
    and "t = ''array'' \<Longrightarrow> validateSchemaNode n' (item m ''items'') = Inr ()"
proof -
  obtain n' where n: "n = Suc n'" using assms by (cases n) auto
  obtain m where s: "s = GObject m" using assms n by (cases s) auto
  obtain t where t: "item m ''type'' = GString t" using assms n s by (cases "item m ''type''") auto
  have kw: "t \<in> set schema_types" using assms by (simp add: n s t)
  show ?thesis
  proof (rule that [OF n s t kw])
    assume o: "t = ''object''"
    then obtain ps where "item m ''properties'' = GObject ps" using assms by (cases "item m ''properties''") (auto simp: n s t)
    with o assms show "\<exists>ps. item m ''properties'' = GObject ps \<and> (\<forall>(k, c) \<in> set ps. validateSchemaNode n' c = Inr ())
        \<and> check_required m ps = Inr ()"
      by (auto simp: n s t)
  next
    assume "t = ''array''"
    with assms show "validateSchemaNode n' (item m ''items'') = Inr ()" by (auto simp: n s t)
  qed
qed

lemma item_ok: "amembers_ok m \<Longrightarrow> any_ok (item m k)"
  by (induction m) (auto simp: item_def)

lemma anys_ok_iff: "anys_ok vs \<longleftrightarrow> (\<forall>v \<in> set vs. any_ok v)"
  by (induction vs) auto

lemma amembers_ok_iff: "amembers_ok ms \<longleftrightarrow> (\<forall>(k, v) \<in> set ms. utf8_valid k \<and> any_ok v)"
  by (induction ms) auto

lemma check_enum_iff:
  assumes "amembers_ok m" and "any_ok v"
  shows "check_enum m v = Inr () \<longleftrightarrow> enum_fits (GObject m) v"
proof (cases "item m ''enum''")
  case (GArray vs)
  then have "\<forall>w \<in> set vs. any_ok w" using item_ok [OF assms(1), of "''enum''"] by (simp add: anys_ok_iff)
  then have "marshal_any v \<in> marshal_any ` set vs \<longleftrightarrow> v \<in> set vs" using marshal_inj [OF assms(2)] by auto
  with GArray show ?thesis by (simp add: check_enum_def enum_fits_def members_def)
qed (simp_all add: check_enum_def enum_fits_def members_def)

lemma checkIntegerBound_iff:
  "checkIntegerBound m name n False = Inr () \<longleftrightarrow> at_least (GObject m) name n"
  "checkIntegerBound m name n True = Inr () \<longleftrightarrow> at_most (GObject m) name n"
  by (auto simp: checkIntegerBound_def at_least_def at_most_def members_def split: any.split prod.split)

lemma check_interval_iff:
  "check_minimum m x = Inr () \<and> check_maximum m x = Inr () \<longleftrightarrow> in_interval (GObject m) x"
  by (auto simp: check_minimum_def check_maximum_def in_interval_def members_def split: any.split)

lemma ParseFloat_not_nan: "ParseFloat l \<noteq> NotANumber"
  by (auto simp: ParseFloat_def round64_def Let_def split: prod.split)

lemma check_number_iff:
  "check_number m b (GNumber l) = Inr () \<longleftrightarrow>
     is_finite (ParseFloat l) \<and> (b \<longrightarrow> is_integer (ParseFloat l)) \<and> in_interval (GObject m) (ParseFloat l)"
proof -
  have "\<not> (is_inf (ParseFloat l) \<or> is_nan (ParseFloat l)) \<longleftrightarrow> is_finite (ParseFloat l)"
    by (cases "ParseFloat l") (simp_all add: is_inf_def is_nan_def is_finite_def)
  then show ?thesis by (auto simp: check_number_def Let_def check_interval_iff)
qed

section \<open>Checking an input decides its meaning\<close>

lemma required_iff:
  assumes "check_required m ps = Inr ()"
  shows "check_present m kvs = Inr () \<longleftrightarrow> required_names (GObject m) \<subseteq> fst ` set kvs"
proof (cases "item m ''required''")
  case (GArray vs)
  then have m: "map_of m ''required'' = Some (GArray vs)" by (auto simp: item_def split: option.splits)
  have str: "\<exists>n. v = GString n" if "v \<in> set vs" for v
    using assms that by (cases v) (auto simp: check_required_def m)
  have "(case v of GString n \<Rightarrow> reject_if (map_of kvs n = None) MissingProperty (Inr ()) | _ \<Rightarrow> Inl TypeAssertionPanic) = Inr ()
      \<longleftrightarrow> (\<exists>n. v = GString n \<and> n \<in> fst ` set kvs)" for v
    by (cases v) (simp_all add: map_of_eq_None_iff)
  then have "check_present m kvs = Inr () \<longleftrightarrow> (\<forall>v \<in> set vs. \<exists>n. v = GString n \<and> n \<in> fst ` set kvs)"
    by (simp add: check_present_def GArray)
  also have "\<dots> \<longleftrightarrow> required_names (GObject m) \<subseteq> fst ` set kvs"
    using str by (fastforce simp: required_names_def members_def GArray split: any.splits)
  finally show ?thesis .
qed (simp_all add: check_present_def required_names_def members_def)

lemma schema_member:
  assumes "\<forall>(k, c) \<in> set ps. validateSchemaNode n c = Inr ()" and "map_of ps k = Some c"
  shows "validateSchemaNode n c = Inr ()" and "\<exists>m. c = GObject m" and "item ps k = c"
proof -
  show c: "validateSchemaNode n c = Inr ()" using assms map_of_SomeD by fastforce
  then show "\<exists>m. c = GObject m" by (elim schema_nodeE) blast
  show "item ps k = c" using assms(2) by (simp add: item_def)
qed

lemma one_of_five:
  "t \<in> set [a, b, c, d, e, f, g] \<Longrightarrow> \<not> (t = a \<or> t = f) \<Longrightarrow> t = b \<or> t = c \<or> t = d \<or> t = e \<or> t = g"
  by auto

lemma validateValue_iff:
  assumes "validateSchemaNode n s = Inr ()" and "n \<le> levels" and "any_ok s" and "any_ok v"
  shows "validateValue levels s v = Inr () \<longleftrightarrow> conforms s v"
  using assms
proof (induction n arbitrary: levels s v)
  case 0
  then show ?case by simp
next
  case (Suc n)
  obtain m t where s: "s = GObject m" and t: "item m ''type'' = GString t" "t \<in> set schema_types"
    and obj: "t = ''object'' \<Longrightarrow> \<exists>ps. item m ''properties'' = GObject ps \<and> (\<forall>(k, c) \<in> set ps. validateSchemaNode n c = Inr ())
           \<and> check_required m ps = Inr ()"
    and arr: "t = ''array'' \<Longrightarrow> validateSchemaNode n (item m ''items'') = Inr ()"
    using Suc.prems(1) by (elim schema_nodeE) blast
  obtain lv where lv: "levels = Suc lv" "n \<le> lv" using Suc.prems(2) by (cases levels) auto
  have m: "amembers_ok m" using Suc.prems(3) by (simp add: s)
  note enum = check_enum_iff [OF m Suc.prems(4)]
  have type: "has_type s u \<longleftrightarrow> u = t" for u using t(1) by (auto simp: has_type_def s members_def)
  show ?case
  proof (cases "t = ''object'' \<or> t = ''array''")
    case False
    then have "t = ''string'' \<or> t = ''number'' \<or> t = ''integer'' \<or> t = ''boolean'' \<or> t = ''null''"
      by (rule one_of_five [OF t(2) [unfolded schema_types_def]])
    then show ?thesis
    proof (elim disjE)
      assume str: "t = ''string''"
      with enum show ?thesis
        by (cases v) (simp_all add: lv s t(1) type [unfolded s] check_string_def checkIntegerBound_iff conj_ac)
    next
      assume num: "t = ''number''"
      with enum show ?thesis
        by (cases v) (simp_all add: lv s t(1) type [unfolded s] check_number_iff conj_ac, simp_all add: check_number_def)
    next
      assume int: "t = ''integer''"
      with enum show ?thesis
        by (cases v) (simp_all add: lv s t(1) type [unfolded s] check_number_iff conj_ac, simp_all add: check_number_def)
    next
      assume bool: "t = ''boolean''"
      with enum show ?thesis by (cases v) (simp_all add: lv s t(1) type [unfolded s])
    next
      assume null: "t = ''null''"
      with enum show ?thesis by (cases v) (simp_all add: lv s t(1) type [unfolded s])
    qed
  next
    case True
    then show ?thesis
    proof
      assume o: "t = ''object''"
      then obtain ps where ps: "item m ''properties'' = GObject ps" "\<forall>(k, c) \<in> set ps. validateSchemaNode n c = Inr ()"
        "check_required m ps = Inr ()" using obj by blast
      show ?thesis
      proof (cases v)
        case (GObject kvs)
        have psok: "amembers_ok ps" using item_ok [OF m, of "''properties''"] ps(1) by simp
        have "(case item ps k of GObject c \<Rightarrow> validateValue lv (GObject c) x | _ \<Rightarrow> Inl TypeAssertionPanic) = Inr () \<longleftrightarrow> conforms c x"
          if "map_of ps k = Some c" "(k, x) \<in> set kvs" for k c x
        proof -
          note mem = schema_member [OF ps(2) that(1)]
          have "any_ok c" using psok map_of_SomeD [OF that(1)] by (auto simp: amembers_ok_iff)
          moreover have "any_ok x" using Suc.prems(4) GObject that(2) by (auto simp: amembers_ok_iff)
          ultimately have "validateValue lv c x = Inr () \<longleftrightarrow> conforms c x" by (rule Suc.IH [OF mem(1) lv(2)])
          with mem(2,3) show ?thesis by auto
        qed
        then have "(\<forall>(k, x) \<in> set kvs. map_of ps k \<noteq> None) \<and> (\<forall>(k, x) \<in> set kvs. (case item ps k of GObject c \<Rightarrow>
              validateValue lv (GObject c) x | _ \<Rightarrow> Inl TypeAssertionPanic) = Inr ())
            \<longleftrightarrow> conforms_members ps kvs"
          unfolding conforms_members_iff by fastforce
        moreover have "validateValue levels s v = Inr () \<longleftrightarrow>
            ((\<forall>(k, x) \<in> set kvs. map_of ps k \<noteq> None) \<and> (\<forall>(k, x) \<in> set kvs. (case item ps k of GObject c \<Rightarrow>
              validateValue lv (GObject c) x | _ \<Rightarrow> Inl TypeAssertionPanic) = Inr ()))
            \<and> check_present m kvs = Inr () \<and> check_enum m v = Inr ()"
          by (auto simp: lv s t(1) o GObject ps(1) case_prod_beta simp del: not_None_eq)
        ultimately show ?thesis
          using enum required_iff [OF ps(3), of kvs] by (auto simp: GObject type [unfolded s] o s members_def ps(1))
      qed (simp_all add: lv s t(1) o type [unfolded s])
    next
      assume a: "t = ''array''"
      show ?thesis
      proof (cases v)
        case (GArray xs)
        obtain i where i: "item m ''items'' = GObject i" using arr [OF a] by (elim schema_nodeE) blast
        have "any_ok (GObject i)" using item_ok [OF m, of "''items''"] i by simp
        then have "validateValue lv (GObject i) x = Inr () \<longleftrightarrow> conforms (GObject i) x" if "x \<in> set xs" for x
          using Suc.IH [of "GObject i" lv x] arr [OF a] i lv(2) Suc.prems(4) that by (simp add: GArray anys_ok_iff)
        then show ?thesis
          using enum by (auto simp: lv s t(1) a GArray i checkIntegerBound_iff conforms_all_iff type [unfolded s] members_def)
      qed (simp_all add: lv s t(1) a type [unfolded s])
    qed
  qed
qed

section \<open>No assertion panics\<close>

definition calm :: "(input_error, unit) result \<Rightarrow> bool" where
  "calm r \<longleftrightarrow> r \<noteq> Inl TypeAssertionPanic \<and> r \<noteq> Inl InputTooDeep"

lemma calm_Inr [simp]: "calm (Inr u)"
  by (simp add: calm_def)

lemma calm_Inl [simp]: "calm (Inl e) \<longleftrightarrow> e \<noteq> TypeAssertionPanic \<and> e \<noteq> InputTooDeep"
  by (simp add: calm_def)

lemma calm_and_then: "calm r \<Longrightarrow> (r = Inr () \<Longrightarrow> calm q) \<Longrightarrow> calm (and_then r (\<lambda>_. q))"
  by (cases r) simp_all

lemma calm_if: "calm p \<Longrightarrow> calm q \<Longrightarrow> calm (if b then p else q)"
  by simp

lemma calm_for_each: "(\<And>x. x \<in> set xs \<Longrightarrow> calm (f x)) \<Longrightarrow> calm (for_each f xs)"
proof (induction xs)
  case (Cons x xs)
  have "calm (f x)" "calm (for_each f xs)" using Cons by simp_all
  then show ?case by (simp add: calm_and_then)
qed simp

lemma calm_reject [simp]: "calm (reject_if b e r) \<longleftrightarrow> (if b then calm (Inl e) else calm r)"
  by simp

lemma calm_checks [simp]:
  "calm (checkIntegerBound m name n b)" "calm (check_enum m v)" "calm (check_minimum m x)" "calm (check_maximum m x)"
  by (auto simp: checkIntegerBound_def check_enum_def check_minimum_def check_maximum_def split: any.split prod.split)

lemma calm_string [simp]: "calm (check_string m v)"
  by (auto simp: check_string_def intro: calm_and_then split: any.split)

lemma calm_number [simp]: "calm (check_number m b v)"
  by (auto simp: check_number_def Let_def intro: calm_and_then split: any.split)

lemma calm_present:
  assumes "check_required m ps = Inr ()"
  shows "calm (check_present m kvs)"
proof (cases "item m ''required''")
  case (GArray vs)
  then have m: "map_of m ''required'' = Some (GArray vs)" by (auto simp: item_def split: option.splits)
  have "calm (case v of GString n \<Rightarrow> reject_if (map_of kvs n = None) MissingProperty (Inr ()) | _ \<Rightarrow> Inl TypeAssertionPanic)"
    if "v \<in> set vs" for v
    using assms that by (cases v) (auto simp: check_required_def m)
  then show ?thesis by (simp add: check_present_def GArray calm_for_each)
qed (simp_all add: check_present_def)

lemma validateValue_calm:
  assumes "validateSchemaNode n s = Inr ()" and "n \<le> levels"
  shows "calm (validateValue levels s v)"
  using assms
proof (induction n arbitrary: levels s v)
  case 0
  then show ?case by simp
next
  case (Suc n)
  obtain m t where s: "s = GObject m" and t: "item m ''type'' = GString t" "t \<in> set schema_types"
    and obj: "t = ''object'' \<Longrightarrow> \<exists>ps. item m ''properties'' = GObject ps \<and> (\<forall>(k, c) \<in> set ps. validateSchemaNode n c = Inr ())
           \<and> check_required m ps = Inr ()"
    and arr: "t = ''array'' \<Longrightarrow> validateSchemaNode n (item m ''items'') = Inr ()"
    using Suc.prems(1) by (elim schema_nodeE) blast
  obtain lv where lv: "levels = Suc lv" "n \<le> lv" using Suc.prems(2) by (cases levels) auto
  consider (obj) "t = ''object''" | (arr) "t = ''array''" | (rest) "t \<noteq> ''object''" "t \<noteq> ''array''" by blast
  then show ?case
  proof cases
    case o: obj
    then obtain ps where ps: "item m ''properties'' = GObject ps" "\<forall>(k, c) \<in> set ps. validateSchemaNode n c = Inr ()"
      "check_required m ps = Inr ()" using obj by blast
    have member: "calm (case item ps k of GObject c \<Rightarrow> validateValue lv (GObject c) x | _ \<Rightarrow> Inl TypeAssertionPanic)"
      if some: "map_of ps k \<noteq> None" for k x
    proof -
      obtain c where c: "map_of ps k = Some c" using some by blast
      with schema_member [OF ps(2) c] Suc.IH [of c lv x] lv(2) show ?thesis by auto
    qed
    show ?thesis
      unfolding lv s
      by (cases v) (auto simp: t(1) o ps(1) calm_present [OF ps(3)] intro!: calm_and_then calm_for_each member dest!: bspec)
  next
    case a: arr
    obtain i where i: "item m ''items'' = GObject i" using arr [OF a] by (elim schema_nodeE) blast
    have "calm (validateValue lv (GObject i) x)" for x using Suc.IH [of "GObject i" lv x] arr [OF a] i lv(2) by simp
    then show ?thesis
      unfolding lv s by (cases v) (auto simp: t(1) a i intro!: calm_and_then calm_for_each)
  next
    case rest
    have "calm (case v of GBool b \<Rightarrow> Inr () | _ \<Rightarrow> Inl ExpectedBoolean)" by (cases v) simp_all
    then have "calm (if t = ''string'' then check_string m v else if t = ''number'' \<or> t = ''integer'' then check_number m (t = ''integer'') v
        else if t = ''boolean'' then (case v of GBool b \<Rightarrow> Inr () | _ \<Rightarrow> Inl ExpectedBoolean)
        else if t = ''null'' then reject_if (v \<noteq> GNull) ExpectedNull (Inr ()) else Inr ())"
      by (intro calm_if) simp_all
    then show ?thesis
      unfolding lv s validateValue.simps any.simps t(1) if_not_P [OF rest(1)] if_not_P [OF rest(2)] by (rule calm_and_then) simp
  qed
qed

section \<open>The theorems\<close>

lemma validateSchemaDocument_ok:
  assumes "validateSchemaDocument raw = Inr ()"
  obtains s where "decode_document raw = Some s" and "validateSchemaNode schema_levels s = Inr ()" and "any_ok s"
proof -
  obtain j where j: "parse_document raw = Some j" "validateSchemaNode schema_levels (decode_any j) = Inr ()"
    using assms by (auto simp: validateSchemaDocument_def decode_document_def split: if_splits option.splits)
  with decode_ok(1) [OF parse_document_ok [OF j(1)]] that show ?thesis by (simp add: decode_document_def)
qed

text \<open>
  C36: Checking an input decides the meaning of the schema: with a schema the manifest check accepts,
  an input is accepted exactly when it is JSON of at most a MiB without duplicate keys and the value
  it denotes conforms to the schema, keyword by keyword. Depth limits and the order of loops play no
  role, and a value is in an enumeration exactly when it is one of its values.
\<close>

theorem ValidateInput_decides_schema:
  assumes "validateSchemaDocument schema = Inr ()"
  shows "ValidateInput schema input = Inr () \<longleftrightarrow>
    length input \<le> max_input_bytes \<and> (\<exists>s j. decode_document schema = Some s \<and> parse_document input = Some j
      \<and> no_duplicate_keys j \<and> conforms s (decode_any j))"
proof -
  obtain s where s: "decode_document schema = Some s" "validateSchemaNode schema_levels s = Inr ()" "any_ok s"
    using assms by (rule validateSchemaDocument_ok)
  have "parse_document input \<noteq> Some j" if "input = []" for j
    using that by (simp add: parse_document_def)
  moreover have "validateValue input_levels s (decode_any j) = Inr () \<longleftrightarrow> conforms s (decode_any j)" if "parse_document input = Some j" for j
    by (rule validateValue_iff [OF s(2) _ s(3)])
       (use decode_ok(1) [OF parse_document_ok [OF that]] in \<open>simp_all add: schema_levels_def input_levels_def\<close>)
  ultimately show ?thesis using assms s(1) by (auto simp: ValidateInput_def split: option.split)
qed

text \<open>
  C37: Checking an input never panics and never meets the depth limit: with any schema document and any
  input, no type assertion of \<open>validateValue\<close> fails, because the schema was checked first and is
  at most 17 levels deep.
\<close>

theorem ValidateInput_never_panics:
  "ValidateInput schema input \<noteq> Inl TypeAssertionPanic \<and> ValidateInput schema input \<noteq> Inl InputTooDeep"
proof (cases "validateSchemaDocument schema = Inr ()")
  case True
  then obtain s where s: "decode_document schema = Some s" "validateSchemaNode schema_levels s = Inr ()"
    by (rule validateSchemaDocument_ok)
  have "calm (validateValue input_levels s v)" for v
    by (rule validateValue_calm [OF s(2)]) (simp add: schema_levels_def input_levels_def)
  with True s(1) show ?thesis by (auto simp: ValidateInput_def calm_def split: option.split)
qed (simp add: ValidateInput_def)

text \<open>The schema \<open>{"type":"string","minLength":1}\<close> and the input \<open>"a"\<close>.\<close>

definition demo_schema :: string where
  "demo_schema = (let q = [CHR 0x22] in
     ''{'' @ q @ ''type'' @ q @ '':'' @ q @ ''string'' @ q @ '','' @ q @ ''minLength'' @ q @ '':1}'')"

definition demo_schema_value :: any where
  "demo_schema_value = GObject [(''minLength'', GNumber ''1''), (''type'', GString ''string'')]"

lemma demo_schema_decoded: "decode_document demo_schema = Some demo_schema_value"
  by code_simp

lemma demo_schema_valid: "validateSchemaDocument demo_schema = Inr ()"
proof -
  have "validateSchemaNode schema_levels demo_schema_value = Inr ()" by code_simp
  then show ?thesis unfolding validateSchemaDocument_def demo_schema_decoded by (simp add: demo_schema_def)
qed

lemma demo_input_parsed: "parse_document [CHR 0x22, CHR ''a'', CHR 0x22] = Some (JStr ''a'')"
  by code_simp

lemma ValidateInput_decides_schema_witness: "ValidateInput demo_schema [CHR 0x22, CHR ''a'', CHR 0x22] = Inr ()"
proof -
  have "conforms demo_schema_value (decode_any (JStr ''a''))" by code_simp
  then show ?thesis
    using ValidateInput_decides_schema [OF demo_schema_valid, of "[CHR 0x22, CHR ''a'', CHR 0x22]"]
    by (simp add: demo_schema_decoded demo_input_parsed max_input_bytes_def)
qed

end
