(* ===== verification/Sha256.thy ===== *)
theory Sha256
  imports Prelude "HOL-Library.Word"
begin

text \<open>
  \<open>crypto/sha256\<close> and \<open>encoding/hex\<close> of Go's standard library, which the audit log, the
  approval tokens, the bound arguments and the image and update hashes use: SHA-256 on 32-bit
  words as FIPS 180-4 states it, and lower-case hexadecimal. A byte string is a \<open>string\<close>.
\<close>

unbundle bit_operations_syntax

section \<open>SHA-256\<close>

type_synonym w32 = "32 word"

definition rotr :: "nat \<Rightarrow> w32 \<Rightarrow> w32" where
  "rotr n x = drop_bit n x OR push_bit (32 - n) x"

definition ch :: "w32 \<Rightarrow> w32 \<Rightarrow> w32 \<Rightarrow> w32" where
  "ch x y z = (x AND y) XOR (NOT x AND z)"

definition maj :: "w32 \<Rightarrow> w32 \<Rightarrow> w32 \<Rightarrow> w32" where
  "maj x y z = (x AND y) XOR (x AND z) XOR (y AND z)"

definition big_sigma0 :: "w32 \<Rightarrow> w32" where "big_sigma0 x = rotr 2 x XOR rotr 13 x XOR rotr 22 x"
definition big_sigma1 :: "w32 \<Rightarrow> w32" where "big_sigma1 x = rotr 6 x XOR rotr 11 x XOR rotr 25 x"
definition small_sigma0 :: "w32 \<Rightarrow> w32" where "small_sigma0 x = rotr 7 x XOR rotr 18 x XOR drop_bit 3 x"
definition small_sigma1 :: "w32 \<Rightarrow> w32" where "small_sigma1 x = rotr 17 x XOR rotr 19 x XOR drop_bit 10 x"

text \<open>The constants of the standard, in decimal; the test vector of \<open>Sha256Test\<close> checks them.\<close>

definition round_keys :: "w32 list" where
  "round_keys =
    [1116352408, 1899447441, 3049323471, 3921009573, 961987163, 1508970993, 2453635748, 2870763221,
     3624381080, 310598401, 607225278, 1426881987, 1925078388, 2162078206, 2614888103, 3248222580,
     3835390401, 4022224774, 264347078, 604807628, 770255983, 1249150122, 1555081692, 1996064986,
     2554220882, 2821834349, 2952996808, 3210313671, 3336571891, 3584528711, 113926993, 338241895,
     666307205, 773529912, 1294757372, 1396182291, 1695183700, 1986661051, 2177026350, 2456956037,
     2730485921, 2820302411, 3259730800, 3345764771, 3516065817, 3600352804, 4094571909, 275423344,
     430227734, 506948616, 659060556, 883997877, 958139571, 1322822218, 1537002063, 1747873779,
     1955562222, 2024104815, 2227730452, 2361852424, 2428436474, 2756734187, 3204031479, 3329325298]"

definition initial_hash :: "w32 list" where
  "initial_hash = [1779033703, 3144134277, 1013904242, 2773480762, 1359893119, 2600822924, 528734635,
      1541459225]"

text \<open>The schedule keeps the last sixteen words, oldest first; a block is sixteen words.\<close>

definition next_word :: "w32 list \<Rightarrow> w32" where
  "next_word w = small_sigma1 (w ! 14) + w ! 9 + small_sigma0 (w ! 1) + w ! 0"

fun shift_state :: "w32 \<Rightarrow> w32 \<Rightarrow> w32 list \<Rightarrow> w32 list" where
  "shift_state t1 t2 [a, b, c, d, e, f, g, h] = [t1 + t2, a, b, c, d + t1, e, f, g]"
| "shift_state t1 t2 st = st"

fun temp1 :: "w32 \<Rightarrow> w32 \<Rightarrow> w32 list \<Rightarrow> w32" where
  "temp1 k w [a, b, c, d, e, f, g, h] = h + big_sigma1 e + ch e f g + k + w"
| "temp1 k w st = 0"

fun temp2 :: "w32 list \<Rightarrow> w32" where
  "temp2 [a, b, c, d, e, f, g, h] = big_sigma0 a + maj a b c"
| "temp2 st = 0"

fun compress_rounds :: "w32 list \<Rightarrow> w32 list \<Rightarrow> w32 list \<Rightarrow> w32 list" where
  "compress_rounds [] w st = st"
| "compress_rounds (k # ks) w st =
     compress_rounds ks (tl w @ [next_word w]) (shift_state (temp1 k (hd w) st) (temp2 st) st)"

definition compress :: "w32 list \<Rightarrow> w32 list \<Rightarrow> w32 list" where
  "compress st block = map2 (+) st (compress_rounds round_keys block st)"

fun be_bytes :: "nat \<Rightarrow> int \<Rightarrow> string" where
  "be_bytes 0 n = []"
| "be_bytes (Suc w) n = be_bytes w (n div 256) @ [char_of (n mod 256)]"

text \<open>Padding to whole blocks of 64 bytes: 0x80, zeros, the length in bits.\<close>

definition pad_message :: "string \<Rightarrow> string" where
  "pad_message s =
     s @ [CHR 0x80] @ replicate ((119 - length s mod 64) mod 64) (CHR 0x00) @ be_bytes 8 (8 * int (length s))"

fun words_of :: "string \<Rightarrow> w32 list" where
  "words_of (a # b # c # d # s) =
     word_of_int (((of_char a * 256 + of_char b) * 256 + of_char c) * 256 + of_char d) # words_of s"
| "words_of _ = []"

fun blocks :: "nat \<Rightarrow> w32 list \<Rightarrow> w32 list list" where
  "blocks 0 ws = []"
| "blocks (Suc n) ws = take 16 ws # blocks n (drop 16 ws)"

definition word_bytes :: "w32 \<Rightarrow> string" where
  "word_bytes x = be_bytes 4 (uint x)"

definition digest_blocks :: "string \<Rightarrow> string" where
  "digest_blocks p =
     concat (map word_bytes (foldl compress initial_hash (blocks (length p div 64) (words_of p))))"

definition sha256 :: "string \<Rightarrow> string" where
  "sha256 s = digest_blocks (pad_message s)"

section \<open>Hexadecimal\<close>

definition hex_digit :: "int \<Rightarrow> char" where
  "hex_digit n = char_of (if n < 10 then 48 + n else 87 + n)"

definition hex_encode :: "string \<Rightarrow> string" where
  "hex_encode s = concat (map (\<lambda>c. [hex_digit (of_char c div 16), hex_digit (of_char c mod 16)]) s)"

definition sha256_hex :: "string \<Rightarrow> string" where
  "sha256_hex s = hex_encode (sha256 s)"

lemma length_be_bytes [simp]: "length (be_bytes w n) = w"
  by (induction w arbitrary: n) simp_all

lemma length_hex_encode [simp]: "length (hex_encode s) = 2 * length s"
  by (induction s) (simp_all add: hex_encode_def)

lemma length_shift_state [simp]: "length (shift_state a b st) = length st"
  by (cases "(a, b, st)" rule: shift_state.cases) simp_all

lemma length_compress_rounds [simp]: "length (compress_rounds ks w st) = length st"
  by (induction ks w st rule: compress_rounds.induct) simp_all

lemma length_foldl_compress [simp]: "length (foldl compress st bs) = length st"
  by (induction bs arbitrary: st) (simp_all add: compress_def)

lemma length_sha256 [simp]: "length (sha256 s) = 32"
proof -
  have "length (concat (map word_bytes ws)) = 4 * length ws" for ws
    by (induction ws) (simp_all add: word_bytes_def)
  then show ?thesis by (simp add: sha256_def digest_blocks_def initial_hash_def)
qed

lemma length_sha256_hex [simp]: "length (sha256_hex s) = 64"
  by (simp add: sha256_hex_def)

end
