(* ===== verification/SkillManifest.thy ===== *)
theory SkillManifest
  imports Policy SkillSchema Sha256
begin

text \<open>
  Package \<open>internal/skills\<close>, \<open>manifest.go\<close>: the manifest of a skill, its validation against the
  capabilities of the core, its integrity hash, and the comparison of versions. A slice that is nil and
  one that is empty differ in the hash (\<open>null\<close> and \<open>[]\<close>), so the slices the JSON always
  shows are options. The case mapping of text outside ASCII is a parameter.
\<close>

section \<open>Data\<close>

datatype skill_type = Declarative | Builtin | MCP | Type_Other string

datatype approval_policy = ApprovalByPolicy | ApprovalAlways | ApprovalBound | Approval_Other string

record compatibility =
  cp_min_core :: string
  cp_max_core :: string
  cp_os :: "string list"
  cp_arch :: "string list"

record skill_output =
  so_name :: string
  so_description :: string
  so_schema :: string

record skill_step =
  st_tool :: string
  st_mode :: mode
  st_arguments :: string

record mcp_binding =
  mb_server :: string
  mb_tool :: string

record manifest =
  m_id :: string
  m_version :: string
  m_description :: string
  m_type :: skill_type
  m_input_schema :: string
  m_outputs :: "skill_output list option"
  m_tools :: "string list option"
  m_permissions :: "mode list option"
  m_secrets :: "string list option"
  m_networks :: "string list option"
  m_timeout :: int
  m_approval :: approval_policy
  m_compatibility :: compatibility
  m_integrity :: string
  m_steps :: "skill_step list"
  m_mcp :: "mcp_binding option"

record capabilities =
  k_tools :: "string list"
  k_core :: string
  k_os :: string
  k_arch :: string
  k_networks :: "string list"

datatype skill_error = InvalidManifest string | Integrity | Conflict | Incompatible | InputRejected input_error
  | SkillNotFound | SkillApprovalRequired | RuntimeMissing | BuiltinRequired | CallFailed string

definition no_capabilities :: capabilities where
  "no_capabilities = \<lparr>k_tools = [], k_core = [], k_os = [], k_arch = [], k_networks = []\<rparr>"

text \<open>The elements of a slice; nil has none.\<close>

definition elems :: "'a list option \<Rightarrow> 'a list" where
  "elems xs = (case xs of None \<Rightarrow> [] | Some ys \<Rightarrow> ys)"

section \<open>Names and versions\<close>

definition is_lower :: "char \<Rightarrow> bool" where
  "is_lower c \<longleftrightarrow> 97 \<le> (of_char c :: int) \<and> (of_char c :: int) \<le> 122"

definition is_upper :: "char \<Rightarrow> bool" where
  "is_upper c \<longleftrightarrow> 65 \<le> (of_char c :: int) \<and> (of_char c :: int) \<le> 90"

definition manifest_id_ok :: "string \<Rightarrow> bool" where
  "manifest_id_ok s =
     (case s of
        [] \<Rightarrow> False
      | c # r \<Rightarrow> is_lower c \<and> 1 \<le> length r \<and> length r \<le> 127
          \<and> list_all (\<lambda>d. is_lower d \<or> is_digit d \<or> d = CHR ''.'' \<or> d = CHR ''-'') r)"

definition secret_name_ok :: "string \<Rightarrow> bool" where
  "secret_name_ok s =
     (case s of
        [] \<Rightarrow> False
      | c # r \<Rightarrow> is_upper c \<and> 1 \<le> length r \<and> length r \<le> 127
          \<and> list_all (\<lambda>d. is_upper d \<or> is_digit d \<or> d = CHR ''_'') r)"

definition version_number_ok :: "string \<Rightarrow> bool" where
  "version_number_ok d \<longleftrightarrow> d = ''0'' \<or> d \<noteq> [] \<and> hd d \<noteq> CHR ''0'' \<and> list_all is_digit d"

definition prerelease_ok :: "string \<Rightarrow> bool" where
  "prerelease_ok r \<longleftrightarrow> r = [] \<or> hd r = CHR ''-'' \<and> tl r \<noteq> []
     \<and> list_all (\<lambda>d. is_digit d \<or> is_letter d \<or> d = CHR ''.'' \<or> d = CHR ''-'') (tl r)"

text \<open>\<open>semanticVersionExpr\<close>: the digits are taken as far as they go, which is the only match.\<close>

definition semantic_version_ok :: "string \<Rightarrow> bool" where
  "semantic_version_ok s =
     (case digits_of s of (a, r1) \<Rightarrow> version_number_ok a \<and> r1 \<noteq> [] \<and> hd r1 = CHR ''.'' \<and>
     (case digits_of (tl r1) of (b, r2) \<Rightarrow> version_number_ok b \<and> r2 \<noteq> [] \<and> hd r2 = CHR ''.'' \<and>
     (case digits_of (tl r2) of (c, r3) \<Rightarrow> version_number_ok c \<and> prerelease_ok r3)))"

text \<open>\<open>strings.Split\<close> and \<open>strings.SplitN(_, _, 2)[0]\<close> at one byte.\<close>

fun split_at :: "char \<Rightarrow> string \<Rightarrow> string list" where
  "split_at c [] = [[]]"
| "split_at c (d # s) =
     (if d = c then [] # split_at c s else (case split_at c s of p # ps \<Rightarrow> (d # p) # ps | [] \<Rightarrow> [[d]]))"

definition parse_version :: "string \<Rightarrow> int list" where
  "parse_version v =
     (let ps = map (\<lambda>p. fst (Atoi p)) (take 3 (split_at (CHR ''.'') (takeWhile (\<lambda>c. c \<noteq> CHR ''-'') v)))
      in ps @ replicate (3 - length ps) 0)"

fun compare_ints :: "int list \<Rightarrow> int list \<Rightarrow> int" where
  "compare_ints (a # as) (b # bs) = (if a < b then - 1 else if a > b then 1 else compare_ints as bs)"
| "compare_ints _ _ = 0"

definition compareVersions :: "string \<Rightarrow> string \<Rightarrow> int" where
  "compareVersions l r = compare_ints (parse_version l) (parse_version r)"

definition current_core :: string where "current_core = ''0.1.0''"

section \<open>Validation\<close>

definition to_lower :: "(string \<Rightarrow> string) \<Rightarrow> string \<Rightarrow> string" where
  "to_lower lower s = (if ascii s then lower_ascii s else lower s)"

definition trim_dot :: "string \<Rightarrow> string" where
  "trim_dot s = (if ends_with s ''.'' then butlast s else s)"

text \<open>\<open>net.ParseIP\<close> on a text without colons: four decimal bytes without leading zeros.\<close>

definition ipv4_field_ok :: "string \<Rightarrow> bool" where
  "ipv4_field_ok p \<longleftrightarrow> p \<noteq> [] \<and> list_all is_digit p \<and> undec p \<le> 255 \<and> (length p = 1 \<or> hd p \<noteq> CHR ''0'')"

definition parse_ipv4 :: "string \<Rightarrow> bool" where
  "parse_ipv4 s \<longleftrightarrow> length (split_at (CHR ''.'') s) = 4 \<and> list_all ipv4_field_ok (split_at (CHR ''.'') s)"

fun validateNetworks :: "(string \<Rightarrow> string) \<Rightarrow> string list \<Rightarrow> string list \<Rightarrow> string set \<Rightarrow> (skill_error, unit) result" where
  "validateNetworks lower [] available seen = Inr ()"
| "validateNetworks lower (n # ns) available seen =
     (let host = to_lower lower (trim_dot n) in
      reject_if (host = [] \<or> host \<noteq> n \<or> list_ex (\<lambda>c. c \<in> {CHR ''/'', CHR ''*'', CHR '':'', CHR ''@''}) host
          \<or> starts_with host ''.'' \<or> ends_with host ''.'') (InvalidManifest ''network scope must be an exact DNS name'')
      (reject_if (parse_ipv4 host \<or> host = ''localhost'' \<or> ends_with host ''.localhost'')
        (InvalidManifest ''IP and local network scopes are forbidden'')
      (reject_if (host \<in> seen) (InvalidManifest ''duplicate network scope'')
      (reject_if (available \<noteq> [] \<and> host \<notin> set available) (InvalidManifest ''network scope is not granted by the core'')
      (validateNetworks lower ns available (insert host seen))))))"

fun validateUniqueIdentifiers :: "string list \<Rightarrow> string set \<Rightarrow> (skill_error, unit) result" where
  "validateUniqueIdentifiers [] seen = Inr ()"
| "validateUniqueIdentifiers (v # vs) seen =
     reject_if (\<not> manifest_id_ok v) (InvalidManifest ''invalid identifier'')
     (reject_if (v \<in> seen) (InvalidManifest ''duplicate identifier'')
     (validateUniqueIdentifiers vs (insert v seen)))"

definition grantable :: "mode \<Rightarrow> bool" where
  "grantable p \<longleftrightarrow> p = Read \<or> p = Write \<or> p = Publish"

fun check_permissions :: "mode list \<Rightarrow> mode set \<Rightarrow> (skill_error, unit) result" where
  "check_permissions [] seen = Inr ()"
| "check_permissions (p # ps) seen =
     reject_if (\<not> grantable p) (InvalidManifest ''permission is unavailable to skills'')
     (reject_if (p \<in> seen) (InvalidManifest ''duplicate permission'')
     (check_permissions ps (insert p seen)))"

fun check_secrets :: "string list \<Rightarrow> string set \<Rightarrow> (skill_error, unit) result" where
  "check_secrets [] seen = Inr ()"
| "check_secrets (n # ns) seen =
     reject_if (\<not> secret_name_ok n) (InvalidManifest ''invalid secret reference'')
     (reject_if (n \<in> seen) (InvalidManifest ''duplicate secret reference'')
     (check_secrets ns (insert n seen)))"

fun check_outputs :: "skill_output list \<Rightarrow> string set \<Rightarrow> (skill_error, unit) result" where
  "check_outputs [] seen = Inr ()"
| "check_outputs (p # ps) seen =
     reject_if (\<not> manifest_id_ok (so_name p) \<or> trim_space (so_description p) = []) (InvalidManifest ''invalid output'')
     (reject_if (so_name p \<in> seen) (InvalidManifest ''duplicate output'')
     (reject_if (validateSchemaDocument (so_schema p) \<noteq> Inr ()) (InvalidManifest ''output schema'')
     (check_outputs ps (insert (so_name p) seen))))"

definition check_step :: "manifest \<Rightarrow> skill_step \<Rightarrow> (skill_error, unit) result" where
  "check_step m p =
     reject_if (st_tool p \<notin> set (elems (m_tools m))) (InvalidManifest ''step tool is not declared'')
     (reject_if (\<not> grantable (st_mode p)) (InvalidManifest ''invalid step mode'')
     (reject_if (st_mode p \<notin> set (elems (m_permissions m))) (InvalidManifest ''step widens permission scope'')
     (reject_if (st_arguments p \<noteq> [] \<and> \<not> json_valid (st_arguments p)) (InvalidManifest ''malformed step arguments'')
     (Inr ()))))"

definition validateImplementation :: "manifest \<Rightarrow> (skill_error, unit) result" where
  "validateImplementation m =
     (case m_type m of
        Declarative \<Rightarrow>
          reject_if (m_mcp m \<noteq> None \<or> m_steps m = [] \<or> length (m_steps m) > 32)
            (InvalidManifest ''declarative steps required and bounded'') (for_each (check_step m) (m_steps m))
      | Builtin \<Rightarrow>
          reject_if (m_mcp m \<noteq> None \<or> m_steps m \<noteq> []) (InvalidManifest ''builtin implementation must be compiled in'') (Inr ())
      | MCP \<Rightarrow>
          reject_if (m_steps m \<noteq> [] \<or> (case m_mcp m of None \<Rightarrow> True | Some b \<Rightarrow> \<not> manifest_id_ok (mb_server b) \<or> \<not> manifest_id_ok (mb_tool b)))
            (InvalidManifest ''pinned MCP binding required'') (Inr ())
      | Type_Other t \<Rightarrow> Inr ())"

definition validIntegrityShape :: "string \<Rightarrow> bool" where
  "validIntegrityShape v \<longleftrightarrow> starts_with v ''sha256:'' \<and> length v = 71 \<and> list_all is_hex (drop 7 v)"

definition core_of :: "capabilities \<Rightarrow> string" where
  "core_of k = (if k_core k = [] then current_core else k_core k)"

definition check_compatibility :: "capabilities \<Rightarrow> compatibility \<Rightarrow> (skill_error, unit) result" where
  "check_compatibility k c =
     reject_if (cp_min_core c = [] \<or> \<not> semantic_version_ok (cp_min_core c)) (InvalidManifest ''min_core is required'')
     (reject_if (cp_max_core c \<noteq> [] \<and> \<not> semantic_version_ok (cp_max_core c)) (InvalidManifest ''invalid max_core'')
     (reject_if (compareVersions (core_of k) (cp_min_core c) < 0
         \<or> cp_max_core c \<noteq> [] \<and> compareVersions (core_of k) (cp_max_core c) > 0) Incompatible
     (reject_if (k_os k \<noteq> [] \<and> cp_os c \<noteq> [] \<and> k_os k \<notin> set (cp_os c)) Incompatible
     (reject_if (k_arch k \<noteq> [] \<and> cp_arch c \<noteq> [] \<and> k_arch k \<notin> set (cp_arch c)) Incompatible
     (Inr ())))))"

definition Validate_manifest :: "(string \<Rightarrow> string) \<Rightarrow> manifest \<Rightarrow> capabilities \<Rightarrow> (skill_error, unit) result" where
  "Validate_manifest lower m k =
     reject_if (\<not> manifest_id_ok (m_id m)) (InvalidManifest ''invalid id'')
     (reject_if (\<not> semantic_version_ok (m_version m)) (InvalidManifest ''invalid semantic version'')
     (reject_if (length (trim_space (m_description m)) < 8 \<or> length (m_description m) > 1024) (InvalidManifest ''description length'')
     (reject_if (m_type m \<noteq> Declarative \<and> m_type m \<noteq> Builtin \<and> m_type m \<noteq> MCP) (InvalidManifest ''unsupported type'')
     (reject_if (validateSchemaDocument (m_input_schema m) \<noteq> Inr ()) (InvalidManifest ''input schema'')
     (reject_if (elems (m_outputs m) = [] \<or> length (elems (m_outputs m)) > 16) (InvalidManifest ''outputs required and bounded'')
     (and_then (check_outputs (elems (m_outputs m)) {}) (\<lambda>_.
      reject_if (m_timeout m < 1 \<or> m_timeout m > 3600) (InvalidManifest ''timeout out of bounds'')
     (reject_if (m_approval m \<noteq> ApprovalByPolicy \<and> m_approval m \<noteq> ApprovalAlways \<and> m_approval m \<noteq> ApprovalBound)
        (InvalidManifest ''invalid approval policy'')
     (and_then (validateUniqueIdentifiers (elems (m_tools m)) {}) (\<lambda>_.
      reject_if (k_tools k \<noteq> [] \<and> \<not> set (elems (m_tools m)) \<subseteq> set (k_tools k)) (InvalidManifest ''tool is not provided by the core'')
     (and_then (check_permissions (elems (m_permissions m)) {}) (\<lambda>_.
      reject_if (elems (m_permissions m) = []) (InvalidManifest ''required permissions missing'')
     (reject_if (Publish \<in> set (elems (m_permissions m)) \<and> m_approval m \<noteq> ApprovalBound)
        (InvalidManifest ''publishing requires bound approval'')
     (and_then (check_secrets (elems (m_secrets m)) {}) (\<lambda>_.
      and_then (validateNetworks lower (elems (m_networks m)) (k_networks k) {}) (\<lambda>_.
      and_then (check_compatibility k (m_compatibility m)) (\<lambda>_.
      and_then (validateImplementation m) (\<lambda>_.
      reject_if (\<not> validIntegrityShape (m_integrity m)) (InvalidManifest ''malformed integrity hash'') (Inr ())))))))))))))))))))"

section \<open>Integrity\<close>

fun mode_text :: "mode \<Rightarrow> string" where
  "mode_text Mode_Unset = []"
| "mode_text Read = ''read''"
| "mode_text Write = ''write''"
| "mode_text Publish = ''publish''"
| "mode_text Admin = ''admin''"
| "mode_text (Mode_Other s) = s"

fun type_text :: "skill_type \<Rightarrow> string" where
  "type_text Declarative = ''declarative''"
| "type_text Builtin = ''builtin''"
| "type_text MCP = ''mcp''"
| "type_text (Type_Other s) = s"

fun approval_text :: "approval_policy \<Rightarrow> string" where
  "approval_text ApprovalByPolicy = ''policy''"
| "approval_text ApprovalAlways = ''always''"
| "approval_text ApprovalBound = ''bound_publish''"
| "approval_text (Approval_Other s) = s"

text \<open>The escapes \<open>json.Marshal\<close> adds to a \<open>RawMessage\<close> it compacts.\<close>

fun html_escape :: "string \<Rightarrow> string" where
  "html_escape [] = []"
| "html_escape (c # s) =
     (if c = CHR ''<'' then CHR 0x5C # ''u003c'' @ html_escape s
      else if c = CHR ''>'' then CHR 0x5C # ''u003e'' @ html_escape s
      else if c = CHR ''&'' then CHR 0x5C # ''u0026'' @ html_escape s
      else if c = CHR 0xE2 \<and> take 2 s = [CHR 0x80, CHR 0xA8] then CHR 0x5C # ''u2028'' @ html_escape (drop 2 s)
      else if c = CHR 0xE2 \<and> take 2 s = [CHR 0x80, CHR 0xA9] then CHR 0x5C # ''u2029'' @ html_escape (drop 2 s)
      else c # html_escape s)"

text \<open>A \<open>RawMessage\<close>: nil is \<open>null\<close>, and text that is not JSON is an error.\<close>

definition raw_json :: "string \<Rightarrow> string option" where
  "raw_json r = (if r = [] then Some ''null'' else map_option html_escape (json_compact r))"

definition json_list :: "string list \<Rightarrow> string" where
  "json_list js = ''['' @ concat (map (\<lambda>(i, j). (if i = 0 then [] else '','') @ j) (enumerate (0 :: nat) js)) @ '']''"

definition text_list :: "string list option \<Rightarrow> string" where
  "text_list xs = (case xs of None \<Rightarrow> ''null'' | Some ys \<Rightarrow> json_list (map json_quote ys))"

fun all_some :: "'a option list \<Rightarrow> 'a list option" where
  "all_some [] = Some []"
| "all_some (x # xs) = (case x of None \<Rightarrow> None | Some y \<Rightarrow> map_option ((#) y) (all_some xs))"

definition output_json :: "skill_output \<Rightarrow> string option" where
  "output_json p = map_option (\<lambda>r. json_struct [(''name'', GoText (so_name p)), (''description'', GoText (so_description p)),
     (''schema'', GoRaw r)]) (raw_json (so_schema p))"

definition step_json :: "skill_step \<Rightarrow> string option" where
  "step_json p =
     (let fs = [(''tool'', GoText (st_tool p)), (''mode'', GoText (mode_text (st_mode p)))] in
      if st_arguments p = [] then Some (json_struct fs)
      else map_option (\<lambda>r. json_struct (fs @ [(''arguments'', GoRaw r)])) (raw_json (st_arguments p)))"

definition compatibility_json :: "compatibility \<Rightarrow> string" where
  "compatibility_json c = json_struct ([(''min_core'', GoText (cp_min_core c))]
     @ (if cp_max_core c = [] then [] else [(''max_core'', GoText (cp_max_core c))])
     @ (if cp_os c = [] then [] else [(''os'', GoRaw (text_list (Some (cp_os c))))])
     @ (if cp_arch c = [] then [] else [(''arch'', GoRaw (text_list (Some (cp_arch c))))]))"

definition binding_json :: "mcp_binding \<Rightarrow> string" where
  "binding_json b = json_struct [(''server_id'', GoText (mb_server b)), (''tool'', GoText (mb_tool b))]"

definition manifest_json :: "manifest \<Rightarrow> string option" where
  "manifest_json m =
     (case (raw_json (m_input_schema m), all_some (map output_json (elems (m_outputs m))), all_some (map step_json (m_steps m))) of
        (Some schema, Some outs, Some steps) \<Rightarrow>
          Some (json_struct (
            [(''id'', GoText (m_id m)), (''version'', GoText (m_version m)), (''description'', GoText (m_description m)),
             (''type'', GoText (type_text (m_type m))), (''input_schema'', GoRaw schema),
             (''outputs'', GoRaw (if m_outputs m = None then ''null'' else json_list outs)),
             (''required_tools'', GoRaw (text_list (m_tools m))),
             (''required_permissions'', GoRaw (text_list (map_option (map mode_text) (m_permissions m)))),
             (''required_secrets'', GoRaw (text_list (m_secrets m))), (''allowed_networks'', GoRaw (text_list (m_networks m))),
             (''timeout_seconds'', GoInt (m_timeout m)), (''approval_policy'', GoText (approval_text (m_approval m))),
             (''compatibility'', GoRaw (compatibility_json (m_compatibility m))), (''integrity_hash'', GoText (m_integrity m))]
            @ (if m_steps m = [] then [] else [(''steps'', GoRaw (json_list steps))])
            @ (case m_mcp m of None \<Rightarrow> [] | Some b \<Rightarrow> [(''mcp'', GoRaw (binding_json b))])))
      | _ \<Rightarrow> None)"

definition ComputeIntegrity :: "manifest \<Rightarrow> (skill_error, string) result" where
  "ComputeIntegrity m =
     (case manifest_json (m\<lparr>m_integrity := []\<rparr>) of
        None \<Rightarrow> Inl (CallFailed ''json'')
      | Some j \<Rightarrow> Inr (''sha256:'' @ sha256_hex j))"

definition trim_prefix :: "string \<Rightarrow> string \<Rightarrow> string" where
  "trim_prefix w s = (if starts_with s w then drop (length w) s else s)"

definition VerifyIntegrity :: "manifest \<Rightarrow> (skill_error, unit) result" where
  "VerifyIntegrity m =
     and_then (ComputeIntegrity m) (\<lambda>got.
       let want = trim_prefix ''sha256:'' (m_integrity m) in
       reject_if (want = [] \<or> lower_ascii want \<noteq> lower_ascii (trim_prefix ''sha256:'' got)) Integrity (Inr ()))"

section \<open>What a valid manifest promises\<close>

lemma check_permissions_ok: "check_permissions ps seen = Inr () \<Longrightarrow> (\<forall>p \<in> set ps. grantable p) \<and> distinct ps \<and> set ps \<inter> seen = {}"
  by (induction ps arbitrary: seen) auto

lemma identifiers_ok: "validateUniqueIdentifiers vs seen = Inr () \<Longrightarrow> (\<forall>v \<in> set vs. manifest_id_ok v) \<and> distinct vs \<and> set vs \<inter> seen = {}"
  by (induction vs arbitrary: seen) auto

lemma check_outputs_ok:
  "check_outputs ps seen = Inr () \<Longrightarrow> (\<forall>p \<in> set ps. validateSchemaDocument (so_schema p) = Inr ())
     \<and> distinct (map so_name ps) \<and> so_name ` set ps \<inter> seen = {}"
  by (induction ps arbitrary: seen) auto

lemma Validate_manifest_ok:
  assumes "Validate_manifest lower m k = Inr ()"
  shows "validateSchemaDocument (m_input_schema m) = Inr ()" and "check_permissions (elems (m_permissions m)) {} = Inr ()"
    and "validateUniqueIdentifiers (elems (m_tools m)) {} = Inr ()" and "elems (m_permissions m) \<noteq> []"
    and "Publish \<in> set (elems (m_permissions m)) \<longrightarrow> m_approval m = ApprovalBound"
    and "validateImplementation m = Inr ()" and "check_outputs (elems (m_outputs m)) {} = Inr ()"
  using assms by (simp_all add: Validate_manifest_def)

lemma permissions_grantable: "Validate_manifest lower m k = Inr () \<Longrightarrow> p \<in> set (elems (m_permissions m)) \<Longrightarrow> grantable p"
  using Validate_manifest_ok(2) check_permissions_ok by blast

end
