(* ===== verification/GoPath.thy ===== *)
theory GoPath
  imports SkillManifest
begin

text \<open>
  The functions of \<open>path/filepath\<close> on Unix that the program uses, on byte strings: \<open>Clean\<close>, \<open>Join\<close>, \<open>Dir\<close>,
  \<open>Base\<close>, \<open>Rel\<close> and \<open>IsAbs\<close>, and what they mean on the elements of a path: a relative path that does not
  climb stays below the directory it is joined to.
\<close>

section \<open>Functions\<close>

definition rooted :: "string \<Rightarrow> bool" where
  "rooted p \<longleftrightarrow> starts_with p ''/''"

definition path_elements :: "string \<Rightarrow> string list" where
  "path_elements p = filter (\<lambda>e. e \<noteq> []) (split_at (CHR ''/'') p)"

fun join_path :: "string list \<Rightarrow> string" where
  "join_path [] = []"
| "join_path [e] = e"
| "join_path (e # es) = e @ ''/'' @ join_path es"

text \<open>\<open>filepath.Clean\<close>: the elements so far are kept in reverse.\<close>

fun clean_elements :: "bool \<Rightarrow> string list \<Rightarrow> string list \<Rightarrow> string list" where
  "clean_elements slash [] out = rev out"
| "clean_elements slash (e # es) out =
     (if e = ''.'' then clean_elements slash es out
      else if e = ''..'' then
        (if out \<noteq> [] \<and> hd out \<noteq> ''..'' then clean_elements slash es (tl out)
         else if slash then clean_elements slash es out else clean_elements slash es (e # out))
      else clean_elements slash es (e # out))"

definition Clean :: "string \<Rightarrow> string" where
  "Clean p =
     (let es = clean_elements (rooted p) (path_elements p) [] in
      if rooted p then ''/'' @ join_path es else if es = [] then ''.'' else join_path es)"

definition Base :: "string \<Rightarrow> string" where
  "Base p = (if p = [] then ''.'' else if path_elements p = [] then ''/'' else last (path_elements p))"

definition Dir :: "string \<Rightarrow> string" where
  "Dir p = Clean (rev (dropWhile (\<lambda>c. c \<noteq> CHR ''/'') (rev p)))"

fun drop_common :: "string list \<Rightarrow> string list \<Rightarrow> string list \<times> string list" where
  "drop_common (a # as) (b # bs) = (if a = b then drop_common as bs else (a # as, b # bs))"
| "drop_common as bs = (as, bs)"

definition Rel :: "string \<Rightarrow> string \<Rightarrow> string option" where
  "Rel base target =
     (let b = Clean base; t = Clean target in
      if t = b then Some ''.''
      else let b' = (if b = ''.'' then [] else b) in
      if rooted b' \<noteq> rooted t then None
      else (case drop_common (path_elements b') (path_elements t) of
              (up, down) \<Rightarrow> if up \<noteq> [] \<and> hd up = ''..'' then None else Some (join_path (map (\<lambda>e. ''..'') up @ down))))"

definition within_root :: "string \<Rightarrow> string \<Rightarrow> bool" where
  "within_root top_dir candidate =
     (case Rel top_dir candidate of
        None \<Rightarrow> False
      | Some r \<Rightarrow> r \<noteq> ''..'' \<and> \<not> starts_with r ''../'' \<and> \<not> rooted r)"

lemma Clean_examples:
  "Clean ''/a/./b//../c/'' = ''/a/c''" "Clean ''../../x'' = ''../../x''" "Clean ''/..'' = ''/''" "Clean [] = ''.''"
  "Base ''/usr/bin/sh'' = ''sh''" "Dir ''/usr/bin/sh'' = ''/usr/bin''"
  "Rel ''/a/b'' ''/a/c/d'' = Some ''../c/d''" "Rel ''/a'' ''/a'' = Some ''.''"
  "within_root ''/a'' ''/a/b''" "\<not> within_root ''/a/b'' ''/a''" "within_root ''/'' ''/x''" "\<not> within_root ''/a'' ''/ab''"
  by code_simp+

definition Join :: "string \<Rightarrow> string \<Rightarrow> string" where
  "Join a b = (if a = [] then (if b = [] then [] else Clean b) else Clean (a @ ''/'' @ b))"

text \<open>\<open>relative == ".." || strings.HasPrefix(relative, "../")\<close>\<close>

definition climbs :: "string \<Rightarrow> bool" where
  "climbs r \<longleftrightarrow> r = ''..'' \<or> starts_with r ''../''"

text \<open>The element list of a clean absolute path and the text of one.\<close>

definition abs_elements :: "string \<Rightarrow> string list" where
  "abs_elements p = clean_elements True (path_elements p) []"

definition abs_path :: "string list \<Rightarrow> string" where
  "abs_path es = ''/'' @ join_path es"

lemma Join_examples: "Join ''/a'' ''b/../c'' = ''/a/c''" "Join ''/a'' ''..'' = ''/''" "Join ''/'' ''x'' = ''/x''" "Join [] [] = []"
  "climbs ''../x''" "\<not> climbs ''..x''"
  by code_simp+

section \<open>Elements\<close>

text \<open>An element that names an entry of a directory.\<close>

definition plain_name :: "string \<Rightarrow> bool" where
  "plain_name e \<longleftrightarrow> e \<noteq> [] \<and> e \<noteq> ''.'' \<and> e \<noteq> ''..'' \<and> CHR ''/'' \<notin> set e"

lemma split_at_nonempty [simp]: "split_at c s \<noteq> []"
  by (induction s) (auto split: list.split)

lemma split_at_append: "split_at c (s @ c # t) = split_at c s @ split_at c t"
proof (induction s)
  case (Cons d s)
  then show ?case by (cases "split_at c s") simp_all
qed simp

lemma split_at_free: "c \<notin> set s \<Longrightarrow> split_at c s = [s]"
  by (induction s) auto

lemma split_at_parts: "p \<in> set (split_at c s) \<Longrightarrow> c \<notin> set p"
proof (induction s arbitrary: p)
  case (Cons d s)
  then show ?case by (cases "split_at c s") (auto split: if_splits)
qed simp

lemma path_elements_append: "path_elements (a @ ''/'' @ b) = path_elements a @ path_elements b"
  by (simp add: path_elements_def split_at_append)

lemma path_elements_slash [simp]: "path_elements (CHR ''/'' # s) = path_elements s"
  by (simp add: path_elements_def)

lemma path_elements_Nil [simp]: "path_elements [] = []"
  by (simp add: path_elements_def)

lemma path_elements_name: "e \<noteq> [] \<Longrightarrow> CHR ''/'' \<notin> set e \<Longrightarrow> path_elements e = [e]"
  by (simp add: path_elements_def split_at_free)

lemma path_elements_parts: "e \<in> set (path_elements p) \<Longrightarrow> e \<noteq> [] \<and> CHR ''/'' \<notin> set e"
  by (auto simp: path_elements_def dest: split_at_parts)

lemma path_elements_join:
  "\<forall>e \<in> set es. e \<noteq> [] \<and> CHR ''/'' \<notin> set e \<Longrightarrow> path_elements (join_path es) = es"
  by (induction es rule: join_path.induct) (simp_all add: path_elements_append [of _ "join_path _", simplified] path_elements_name)

lemma rooted_iff: "rooted p \<longleftrightarrow> p \<noteq> [] \<and> hd p = CHR ''/''"
  by (cases p) (auto simp: rooted_def starts_with_def)

lemma rooted_append [simp]: "rooted (a @ ''/'' @ b) \<longleftrightarrow> rooted a \<or> a = []"
  by (cases a) (simp_all add: rooted_iff)

lemma rooted_join: "\<forall>e \<in> set es. e \<noteq> [] \<and> CHR ''/'' \<notin> set e \<Longrightarrow> \<not> rooted (join_path es)"
  by (induction es rule: join_path.induct) (auto simp: rooted_iff dest: hd_in_set)

section \<open>Clean\<close>

lemma clean_elements_append: "clean_elements sl (xs @ ys) out = clean_elements sl ys (rev (clean_elements sl xs out))"
  by (induction sl xs out rule: clean_elements.induct) (simp_all, auto)

lemma clean_plain: "\<forall>e \<in> set es. plain_name e \<Longrightarrow> clean_elements sl es out = rev out @ es"
  by (induction es arbitrary: out) (simp_all add: plain_name_def)

lemma clean_rooted_step:
  "e = ''.'' \<and> clean_elements True (e # es) out = clean_elements True es out
   \<or> e = ''..'' \<and> (clean_elements True (e # es) out = clean_elements True es out \<or> clean_elements True (e # es) out = clean_elements True es (tl out))
   \<or> e \<noteq> ''.'' \<and> e \<noteq> ''..'' \<and> clean_elements True (e # es) out = clean_elements True es (e # out)"
  by simp

lemma clean_rooted:
  "\<forall>e \<in> set es. e \<noteq> [] \<and> CHR ''/'' \<notin> set e \<Longrightarrow> \<forall>e \<in> set out. plain_name e \<Longrightarrow>
   \<forall>e \<in> set (clean_elements True es out). plain_name e"
proof (induction es arbitrary: out)
  case (Cons e es)
  have es: "\<forall>e \<in> set es. e \<noteq> [] \<and> CHR ''/'' \<notin> set e" using Cons.prems(1) by simp
  have tl: "\<forall>e \<in> set (tl out). plain_name e" using Cons.prems(2) by (cases out) simp_all
  consider "clean_elements True (e # es) out = clean_elements True es out" | "clean_elements True (e # es) out = clean_elements True es (tl out)"
    | "e \<noteq> ''.''" "e \<noteq> ''..''" "clean_elements True (e # es) out = clean_elements True es (e # out)"
    using clean_rooted_step [of e es out] by argo
  then show ?case
  proof cases
    case 3
    then have "\<forall>x \<in> set (e # out). plain_name x" using Cons.prems unfolding plain_name_def by simp
    with 3(3) Cons.IH [OF es] show ?thesis by metis
  qed (use Cons.IH [OF es Cons.prems(2)] Cons.IH [OF es tl] in \<open>simp_all only:\<close>)
qed simp

text \<open>Relative paths keep the climbs in front.\<close>

definition climbs_first :: "string list \<Rightarrow> bool" where
  "climbs_first es \<longleftrightarrow> (\<exists>n ps. es = replicate n ''..'' @ ps \<and> (\<forall>e \<in> set ps. plain_name e))"

lemma clean_relative:
  "\<forall>e \<in> set es. e \<noteq> [] \<and> CHR ''/'' \<notin> set e \<Longrightarrow> climbs_first (rev out) \<Longrightarrow> climbs_first (clean_elements False es out)"
proof (induction es arbitrary: out)
  case (Cons e es)
  obtain n ps where out: "rev out = replicate n ''..'' @ ps" "\<forall>e \<in> set ps. plain_name e"
    using Cons.prems(2) by (auto simp: climbs_first_def)
  have es: "\<forall>e \<in> set es. e \<noteq> [] \<and> CHR ''/'' \<notin> set e" "e \<noteq> []" "CHR ''/'' \<notin> set e" using Cons.prems(1) by simp_all
  show ?case
  proof (cases "e = ''.''")
    case True
    with Cons.IH [OF es(1) Cons.prems(2)] show ?thesis by simp
  next
    case dot: False
    show ?thesis
    proof (cases "e = ''..''")
      case True
      show ?thesis
      proof (cases "ps = []")
        case True
        then have o: "out = replicate n ''..''" using out(1) by (metis append_Nil2 rev_replicate rev_rev_ident)
        then have "clean_elements False (e # es) out = clean_elements False es (e # out)" using \<open>e = ''..''\<close> by (cases n) simp_all
        moreover have "climbs_first (rev (e # out))" using \<open>e = ''..''\<close> o
          unfolding climbs_first_def by (intro exI [of _ "Suc n"] exI [of _ "[]"]) (simp add: replicate_append_same)
        ultimately show ?thesis using Cons.IH [OF es(1), of "e # out"] by simp
      next
        case False
        then obtain qs q where q: "ps = qs @ [q]" by (metis rev_exhaust)
        then have o: "out = q # rev (replicate n ''..'' @ qs)" using out(1) by (metis append.assoc rev_rev_ident rev_append rev.simps append_Cons append_Nil)
        then have "out \<noteq> [] \<and> hd out \<noteq> ''..''" using out(2) q by (simp add: plain_name_def)
        moreover have "climbs_first (rev (tl out))" using o out(2) q unfolding climbs_first_def by auto
        ultimately show ?thesis using Cons.IH [OF es(1), of "tl out"] True dot by simp
      qed
    next
      case False
      then have "plain_name e" using es dot by (simp add: plain_name_def)
      then have "climbs_first (rev (e # out))" using out unfolding climbs_first_def by (intro exI [of _ n] exI [of _ "ps @ [e]"]) auto
      with Cons.IH [OF es(1), of "e # out"] dot False show ?thesis by simp
    qed
  qed
qed simp

lemma abs_elements_plain: "\<forall>e \<in> set (abs_elements p). plain_name e"
  unfolding abs_elements_def using path_elements_parts by (intro clean_rooted) auto

lemma plain_names_parts: "\<forall>e \<in> set es. plain_name e \<Longrightarrow> \<forall>e \<in> set es. e \<noteq> [] \<and> CHR ''/'' \<notin> set e"
  by (auto simp: plain_name_def)

lemma Clean_rooted: "rooted p \<Longrightarrow> Clean p = abs_path (abs_elements p)"
  by (simp add: Clean_def abs_path_def abs_elements_def)

lemma abs_path_elements: "\<forall>e \<in> set es. plain_name e \<Longrightarrow> path_elements (abs_path es) = es"
  by (simp add: abs_path_def path_elements_join plain_names_parts)

lemma abs_elements_abs_path: "\<forall>e \<in> set es. plain_name e \<Longrightarrow> abs_elements (abs_path es) = es"
  by (simp add: abs_elements_def abs_path_elements clean_plain)

lemma rooted_abs_path [simp]: "rooted (abs_path es)"
  by (simp add: abs_path_def rooted_iff)

section \<open>Relative paths that do not climb\<close>

text \<open>The elements a relative path adds to the directory it is joined to.\<close>

definition below :: "string \<Rightarrow> string list" where
  "below r = clean_elements False (path_elements r) []"

lemma below_plain:
  assumes "\<not> climbs (Clean r)" and "\<not> rooted r"
  shows "\<forall>e \<in> set (below r). plain_name e"
proof -
  have "climbs_first (below r)" unfolding below_def
    by (rule clean_relative) (use path_elements_parts in \<open>auto simp: climbs_first_def\<close>)
  then obtain n ps where b: "below r = replicate n ''..'' @ ps" "\<forall>e \<in> set ps. plain_name e" by (auto simp: climbs_first_def)
  have "n = 0"
  proof (cases n)
    case (Suc k)
    then obtain qs where q: "below r = ''..'' # qs" using b(1) by simp
    then have "Clean r = join_path (''..'' # qs)" using assms(2) by (simp add: Clean_def below_def)
    then have "climbs (Clean r)" by (cases qs) (simp_all add: climbs_def starts_with_def)
    with assms(1) show ?thesis by blast
  qed
  with b show ?thesis by simp
qed

lemma Clean_below: "\<not> rooted r \<Longrightarrow> Clean r = (if below r = [] then ''.'' else join_path (below r))"
  by (simp add: Clean_def below_def Let_def)

lemma Clean_elements_below:
  assumes "\<not> climbs (Clean r)" and "\<not> rooted r"
  shows "path_elements (Clean r) = (if below r = [] then [''.''] else below r)"
  using assms below_plain [OF assms] by (simp add: Clean_below path_elements_join plain_names_parts path_elements_name)

lemma Join_below:
  assumes "rooted d" and "\<not> climbs (Clean r)" and "\<not> rooted r"
  shows "Join d (Clean r) = abs_path (abs_elements d @ below r)"
proof -
  have "abs_elements (d @ ''/'' @ Clean r) = abs_elements d @ below r"
    using below_plain [OF assms(2,3)] Clean_elements_below [OF assms(2,3)]
    by (simp add: abs_elements_def path_elements_append [simplified] clean_elements_append clean_plain)
  moreover have "d \<noteq> []" using assms(1) by (auto simp: rooted_iff)
  ultimately show ?thesis using assms(1) Clean_rooted [of "d @ ''/'' @ Clean r"] by (simp add: Join_def rooted_append [simplified])
qed

lemma Dir_abs_path:
  assumes "\<forall>e \<in> set es. plain_name e"
  shows "Dir (abs_path es) = abs_path (butlast es)"
proof (cases es rule: rev_cases)
  case Nil
  then show ?thesis by (simp add: Dir_def abs_path_def) code_simp
next
  case (snoc ds e)
  have e: "e \<noteq> []" "CHR ''/'' \<notin> set e" using assms snoc by (simp_all add: plain_name_def)
  have "join_path (ds @ [e]) = (if ds = [] then e else join_path ds @ ''/'' @ e)" for ds
    by (induction ds rule: join_path.induct) simp_all
  then obtain u where u: "abs_path es = u @ ''/'' @ e" "u = (if ds = [] then [] else abs_path ds)"
    using snoc by (simp add: abs_path_def)
  have "\<forall>c \<in> set (rev e). c \<noteq> CHR ''/''" using e(2) by (metis set_rev)
  then have "dropWhile (\<lambda>c. c \<noteq> CHR ''/'') (rev (abs_path es)) = CHR ''/'' # rev u"
    using dropWhile_append2 [of "rev e" "\<lambda>c. c \<noteq> CHR ''/''" "CHR ''/'' # rev u"] by (simp add: u(1))
  then have "Dir (abs_path es) = Clean (u @ ''/'')" by (simp add: Dir_def)
  moreover have "abs_elements (u @ ''/'') = ds"
    using assms snoc path_elements_append [of u "[]"] by (auto simp: u(2) abs_elements_def abs_path_elements clean_plain)
  moreover have "rooted (u @ ''/'')" using u(2) rooted_append [of u "[]"] by auto
  ultimately show ?thesis using snoc by (simp add: Clean_rooted)
qed

text \<open>What \<open>Rel\<close> says of two absolute paths: it does not climb iff one is below the other.\<close>

lemma drop_common_prefix: "fst (drop_common as bs) = [] \<longleftrightarrow> (\<exists>cs. bs = as @ cs)"
  by (induction as bs rule: drop_common.induct) auto

lemma Rel_climbs:
  assumes "\<forall>e \<in> set as. plain_name e" and "\<forall>e \<in> set bs. plain_name e"
  shows "(case Rel (abs_path as) (abs_path bs) of None \<Rightarrow> True | Some r \<Rightarrow> climbs r) \<longleftrightarrow> \<not> (\<exists>cs. bs = as @ cs)"
proof -
  have clean: "Clean (abs_path as) = abs_path as" "Clean (abs_path bs) = abs_path bs"
    using assms by (simp_all add: Clean_rooted abs_elements_abs_path)
  obtain up down where d: "drop_common as bs = (up, down)" by (cases "drop_common as bs")
  have sub: "set up \<subseteq> set as \<and> set down \<subseteq> set bs" using d
    by (induction as bs arbitrary: up down rule: drop_common.induct) (fastforce split: if_splits)+
  have up: "up = [] \<longleftrightarrow> (\<exists>cs. bs = as @ cs)" using drop_common_prefix [of as bs] d by simp
  show ?thesis
  proof (cases "as = bs")
    case True
    then show ?thesis using clean by (simp add: Rel_def climbs_def starts_with_def)
  next
    case False
    then have ne: "abs_path bs \<noteq> abs_path as" using assms abs_path_elements by metis
    have dot: "abs_path as \<noteq> ''.''" by (simp add: abs_path_def)
    show ?thesis
    proof (cases up)
      case Nil
      then have "down \<noteq> []" using False d by (induction as bs arbitrary: up down rule: drop_common.induct) (auto split: if_splits)
      then obtain x xs where x: "down = x # xs" by (cases down) auto
      then have "plain_name x" using sub assms(2) by auto
      then have "\<not> climbs (join_path down)" using x
        by (cases xs; cases x; cases "tl x"; cases "tl (tl x)") (auto simp: climbs_def starts_with_def plain_name_def)
      then show ?thesis using Nil up ne dot d clean assms by (simp add: Rel_def Let_def abs_path_elements)
    next
      case (Cons u us)
      then have "u \<noteq> ''..''" using sub assms(1) by (auto simp: plain_name_def)
      moreover have "climbs (join_path (''..'' # es))" for es by (cases es) (simp_all add: climbs_def starts_with_def)
      ultimately show ?thesis using Cons up ne dot d clean assms by (simp add: Rel_def Let_def abs_path_elements)
    qed
  qed
qed

section \<open>Absolute paths\<close>

text \<open>\<open>filepath.Abs\<close> in a process that was started in the top directory.\<close>

definition Abs :: "string \<Rightarrow> string" where
  "Abs p = (if rooted p then Clean p else Join ''/'' p)"

lemma Abs_rooted: "rooted (Abs p) \<and> Abs p = abs_path (abs_elements (Abs p))"
proof -
  have "rooted (''/'' @ ''/'' @ p)" by (simp add: rooted_iff)
  then show ?thesis
    using abs_elements_plain by (cases "p = []") (auto simp: Abs_def Join_def Clean_rooted abs_elements_abs_path abs_elements_plain)
qed

end
