(* ===== verification/Files.thy ===== *)
theory Files
  imports GoPath "HOL-Library.AList" "HOL-Library.Sublist"
begin

text \<open>
  A file system as package \<open>os\<close> of Go sees it on Unix: regular files, directories and symbolic links, and
  the calls the program makes. A location is the list of names from the top directory, a path is a text;
  a path is resolved to a location element by element, through links. Permissions, open files and
  errors of the device are left out, and so is the working directory: relative paths start at the top.
\<close>

section \<open>State\<close>

datatype node = RegularFile string | Folder | Link string

type_synonym location = "string list"
type_synonym files = "(location \<times> node) list"

datatype os_error = NotExist | NotDirectory | IsDirectory | AlreadyExists | TooManyLinks | NotEmpty | InvalidMove

definition node_at :: "files \<Rightarrow> location \<Rightarrow> node option" where
  "node_at fs l = (if l = [] then Some Folder else map_of fs l)"

definition put :: "location \<Rightarrow> node \<Rightarrow> files \<Rightarrow> files" where
  "put l n fs = AList.update l n fs"

lemma node_at_Nil [simp]: "node_at fs [] = Some Folder"
  by (simp add: node_at_def)

text \<open>The names in a directory, in the order of their bytes.\<close>

fun put_name :: "string \<Rightarrow> string list \<Rightarrow> string list" where
  "put_name n [] = [n]"
| "put_name n (m # ms) = (if n = m then m # ms else if bytes_less n m then n # m # ms else m # put_name n ms)"

definition children :: "files \<Rightarrow> location \<Rightarrow> string list" where
  "children fs l = foldr put_name (map (\<lambda>e. last (fst e)) (filter (\<lambda>e. fst e \<noteq> [] \<and> butlast (fst e) = l) fs)) []"

section \<open>Resolution\<close>

text \<open>
  What is asked of the last element of a path: that it is there, after links or not (\<open>Follow\<close>, \<open>NoFollow\<close>); the
  place a file is opened at that may be created (\<open>Creating\<close>); or the entry itself, there or not (\<open>Entry\<close>).
\<close>

datatype asked = Follow | NoFollow | Creating | Entry

fun resolve :: "files \<Rightarrow> asked \<Rightarrow> nat \<Rightarrow> location \<Rightarrow> string list \<Rightarrow> (os_error, location) result" where
  "resolve fs ask fuel here [] = Inr here"
| "resolve fs ask fuel here (e # es) =
     (if node_at fs here = None then Inl NotExist
      else if node_at fs here \<noteq> Some Folder then Inl NotDirectory
      else if e = ''.'' then resolve fs ask fuel here es
      else if e = ''..'' then resolve fs ask fuel (butlast here) es
      else case node_at fs (here @ [e]) of
             None \<Rightarrow> if es = [] \<and> (ask = Creating \<or> ask = Entry) then Inr (here @ [e]) else Inl NotExist
           | Some n \<Rightarrow>
               (case n of
                  Link t \<Rightarrow>
                    if es = [] \<and> (ask = NoFollow \<or> ask = Entry) then Inr (here @ [e])
                    else (case fuel of
                            0 \<Rightarrow> Inl TooManyLinks
                          | Suc k \<Rightarrow> resolve fs ask k (if rooted t then [] else here) (path_elements t @ es))
                | _ \<Rightarrow> resolve fs ask fuel (here @ [e]) es))"

text \<open>The limits of the kernel and of \<open>filepath.EvalSymlinks\<close>.\<close>

definition locate :: "files \<Rightarrow> asked \<Rightarrow> string \<Rightarrow> (os_error, location) result" where
  "locate fs ask p = resolve fs ask 40 [] (path_elements p)"

definition EvalSymlinks :: "files \<Rightarrow> string \<Rightarrow> (os_error, string) result" where
  "EvalSymlinks fs p = and_then (resolve fs Follow 255 [] (path_elements p)) (\<lambda>l. Inr (abs_path l))"

definition node_of :: "files \<Rightarrow> asked \<Rightarrow> string \<Rightarrow> (os_error, node) result" where
  "node_of fs ask p = and_then (locate fs ask p) (\<lambda>l. case node_at fs l of None \<Rightarrow> Inl NotExist | Some n \<Rightarrow> Inr n)"

definition Lstat :: "files \<Rightarrow> string \<Rightarrow> (os_error, node) result" where
  "Lstat fs p = node_of fs NoFollow p"

definition Stat :: "files \<Rightarrow> string \<Rightarrow> (os_error, node) result" where
  "Stat fs p = node_of fs Follow p"

section \<open>Calls\<close>

definition ReadFile :: "files \<Rightarrow> string \<Rightarrow> (os_error, string) result" where
  "ReadFile fs p = and_then (Stat fs p) (\<lambda>n. case n of RegularFile c \<Rightarrow> Inr c | _ \<Rightarrow> Inl IsDirectory)"

definition ReadDir :: "files \<Rightarrow> string \<Rightarrow> (os_error, (string \<times> node) list) result" where
  "ReadDir fs p =
     and_then (locate fs Follow p) (\<lambda>l.
       if node_at fs l = Some Folder then Inr (map (\<lambda>e. (e, the (node_at fs (l @ [e])))) (children fs l))
       else Inl (if node_at fs l = None then NotExist else NotDirectory))"

definition WriteFile :: "string \<Rightarrow> string \<Rightarrow> files \<Rightarrow> (os_error, unit) result \<times> files" where
  "WriteFile p c fs =
     (case locate fs Creating p of
        Inl e \<Rightarrow> (Inl e, fs)
      | Inr l \<Rightarrow> if node_at fs l = Some Folder then (Inl IsDirectory, fs) else (Inr (), put l (RegularFile c) fs))"

text \<open>\<open>O_CREATE|O_EXCL\<close> and \<open>mkdir\<close>: nothing may be there yet, not even a link.\<close>

definition make_new :: "string \<Rightarrow> node \<Rightarrow> files \<Rightarrow> (os_error, unit) result \<times> files" where
  "make_new p n fs =
     (case locate fs Entry p of
        Inl e \<Rightarrow> (Inl e, fs)
      | Inr l \<Rightarrow> if node_at fs l \<noteq> None then (Inl AlreadyExists, fs) else (Inr (), put l n fs))"

definition Remove_file :: "string \<Rightarrow> files \<Rightarrow> (os_error, unit) result \<times> files" where
  "Remove_file p fs =
     (case locate fs Entry p of
        Inl e \<Rightarrow> (Inl e, fs)
      | Inr l \<Rightarrow>
          if node_at fs l = None then (Inl NotExist, fs)
          else if l = [] \<or> node_at fs l = Some Folder \<and> children fs l \<noteq> [] then (Inl NotEmpty, fs)
          else (Inr (), filter (\<lambda>e. fst e \<noteq> l) fs))"

text \<open>\<open>os.MkdirAll\<close>, on the elements of a clean absolute path in reverse.\<close>

fun mkdir_all :: "string list \<Rightarrow> files \<Rightarrow> (os_error, unit) result \<times> files" where
  "mkdir_all [] fs = (Inr (), fs)"
| "mkdir_all (e # up) fs =
     (let p = abs_path (rev (e # up)) in
      case Stat fs p of
        Inr n \<Rightarrow> (if n = Folder then Inr () else Inl NotDirectory, fs)
      | Inl _ \<Rightarrow>
          (case mkdir_all up fs of
             (Inl err, fs1) \<Rightarrow> (Inl err, fs1)
           | (Inr _, fs1) \<Rightarrow>
               (case make_new p Folder fs1 of
                  (Inr _, fs2) \<Rightarrow> (Inr (), fs2)
                | (Inl err, _) \<Rightarrow> (if Lstat fs1 p = Inr Folder then Inr () else Inl err, fs1))))"

definition MkdirAll :: "string \<Rightarrow> files \<Rightarrow> (os_error, unit) result \<times> files" where
  "MkdirAll p fs = mkdir_all (rev (path_elements p)) fs"

text \<open>\<open>os.Rename\<close> refuses a directory as the new name; a directory takes all that is in it along.\<close>

definition move :: "location \<Rightarrow> location \<Rightarrow> files \<Rightarrow> files" where
  "move a b fs =
     map (\<lambda>(l, n). (if prefix a l then b @ drop (length a) l else l, n)) (filter (\<lambda>e. fst e \<noteq> b) fs)"

definition Rename :: "string \<Rightarrow> string \<Rightarrow> files \<Rightarrow> (os_error, unit) result \<times> files" where
  "Rename p q fs =
     (case locate fs Entry p of
        Inl e \<Rightarrow> (Inl e, fs)
      | Inr a \<Rightarrow>
          (case locate fs Entry q of
             Inl e \<Rightarrow> (Inl e, fs)
           | Inr b \<Rightarrow>
               if node_at fs a = None then (Inl NotExist, fs)
               else if a = b then (Inr (), fs)
               else if node_at fs b = Some Folder then (Inl AlreadyExists, fs)
               else if prefix a b then (Inl InvalidMove, fs)
               else if node_at fs a = Some Folder \<and> node_at fs b \<noteq> None then (Inl NotDirectory, fs)
               else (Inr (), move a b fs)))"

definition demo_files :: files where
  "demo_files = [([''w''], Folder), ([''w'', ''a''], RegularFile ''one''), ([''w'', ''up''], Link ''/out''), ([''out''], Folder),
     ([''out'', ''b''], RegularFile ''two''), ([''w'', ''self''], Link ''self'')]"

lemma files_examples:
  "ReadFile demo_files ''/w/a'' = Inr ''one''" "ReadFile demo_files ''/w/up/b'' = Inr ''two''" "ReadFile demo_files ''/w/self'' = Inl TooManyLinks"
  "EvalSymlinks demo_files ''/w/up/b'' = Inr ''/out/b''" "EvalSymlinks demo_files ''/w/up/c'' = Inl NotExist"
  "Lstat demo_files ''/w/up'' = Inr (Link ''/out'')" "ReadDir demo_files ''/w'' = Inr [(''a'', RegularFile ''one''), (''self'', Link ''self''), (''up'', Link ''/out'')]"
  "fst (MkdirAll ''/w/up/x/y'' demo_files) = Inr ()" "node_at (snd (MkdirAll ''/w/up/x/y'' demo_files)) [''out'', ''x'', ''y''] = Some Folder"
  "node_at (snd (Rename ''/out'' ''/w/o'' demo_files)) [''w'', ''o'', ''b''] = Some (RegularFile ''two'')"
  "fst (Rename ''/w'' ''/w/o'' demo_files) = Inl InvalidMove"
  by code_simp+

end
