(* ===== verification/GoNet.thy ===== *)
theory GoNet
  imports SkillManifest "HOL-Library.Word"
begin

text \<open>
  Package \<open>net/netip\<close> as the sources use it: addresses of both versions, their text, the
  predicates on them and the test for a prefix. An address of version 6 has a zone, which is part
  of its identity: \<open>==\<close> and so \<open>IsUnspecified\<close> tell addresses with different zones apart, and
  a prefix contains no address with a zone.
\<close>

section \<open>Addresses\<close>

datatype addr = V4 "32 word" | V6 "128 word" string

text \<open>An IPv4 address inside \<open>::ffff:0:0/96\<close>.\<close>

definition is_4in6 :: "128 word \<Rightarrow> bool" where
  "is_4in6 w \<longleftrightarrow> drop_bit 32 w = 0xFFFF"

definition Unmap :: "addr \<Rightarrow> addr" where
  "Unmap a = (case a of V4 w \<Rightarrow> V4 w | V6 w z \<Rightarrow> if is_4in6 w then V4 (ucast w) else V6 w z)"

definition in_prefix4 :: "32 word \<Rightarrow> nat \<Rightarrow> 32 word \<Rightarrow> bool" where
  "in_prefix4 p n w \<longleftrightarrow> drop_bit (32 - n) w = drop_bit (32 - n) p"

definition in_prefix6 :: "128 word \<Rightarrow> nat \<Rightarrow> 128 word \<Rightarrow> bool" where
  "in_prefix6 p n w \<longleftrightarrow> drop_bit (128 - n) w = drop_bit (128 - n) p"

text \<open>The first of four bytes, and the address of four bytes.\<close>

definition quad :: "int \<Rightarrow> int \<Rightarrow> int \<Rightarrow> int \<Rightarrow> 32 word" where
  "quad a b c d = word_of_int (((a * 256 + b) * 256 + c) * 256 + d)"

definition IsLoopback :: "addr \<Rightarrow> bool" where
  "IsLoopback a = (case Unmap a of V4 w \<Rightarrow> in_prefix4 (quad 127 0 0 0) 8 w | V6 w z \<Rightarrow> w = 1)"

definition IsMulticast :: "addr \<Rightarrow> bool" where
  "IsMulticast a = (case Unmap a of V4 w \<Rightarrow> in_prefix4 (quad 224 0 0 0) 4 w | V6 w z \<Rightarrow> drop_bit 120 w = 0xFF)"

definition IsLinkLocalUnicast :: "addr \<Rightarrow> bool" where
  "IsLinkLocalUnicast a =
     (case Unmap a of V4 w \<Rightarrow> in_prefix4 (quad 169 254 0 0) 16 w | V6 w z \<Rightarrow> drop_bit 118 w = 0x3FA)"

definition IsLinkLocalMulticast :: "addr \<Rightarrow> bool" where
  "IsLinkLocalMulticast a =
     (case Unmap a of V4 w \<Rightarrow> in_prefix4 (quad 224 0 0 0) 24 w | V6 w z \<Rightarrow> drop_bit 120 w = 0xFF \<and> take_bit 4 (drop_bit 112 w) = 2)"

definition IsPrivate :: "addr \<Rightarrow> bool" where
  "IsPrivate a =
     (case Unmap a of
        V4 w \<Rightarrow> in_prefix4 (quad 10 0 0 0) 8 w \<or> in_prefix4 (quad 172 16 0 0) 12 w \<or> in_prefix4 (quad 192 168 0 0) 16 w
      | V6 w z \<Rightarrow> drop_bit 121 w = 0x7E)"

definition IsUnspecified :: "addr \<Rightarrow> bool" where
  "IsUnspecified a \<longleftrightarrow> a = V4 0 \<or> a = V6 0 []"

definition IsGlobalUnicast :: "addr \<Rightarrow> bool" where
  "IsGlobalUnicast a \<longleftrightarrow> a \<noteq> V4 0 \<and> a \<noteq> V4 (- 1) \<and> a \<noteq> V6 0 [] \<and> \<not> IsLoopback a \<and> \<not> IsMulticast a \<and> \<not> IsLinkLocalUnicast a"

text \<open>\<open>Prefix.Contains\<close>\<close>

definition Contains4 :: "32 word \<Rightarrow> nat \<Rightarrow> addr \<Rightarrow> bool" where
  "Contains4 p n a = (case a of V4 w \<Rightarrow> in_prefix4 p n w | V6 w z \<Rightarrow> False)"

definition Contains6 :: "128 word \<Rightarrow> nat \<Rightarrow> addr \<Rightarrow> bool" where
  "Contains6 p n a = (case a of V4 w \<Rightarrow> False | V6 w z \<Rightarrow> z = [] \<and> in_prefix6 p n w)"

text \<open>\<open>Addr.Compare\<close> as an order: by version, by value, by zone.\<close>

fun addr_le :: "addr \<Rightarrow> addr \<Rightarrow> bool" where
  "addr_le (V4 a) (V4 b) \<longleftrightarrow> a \<le> b"
| "addr_le (V4 a) (V6 b z) \<longleftrightarrow> True"
| "addr_le (V6 a y) (V4 b) \<longleftrightarrow> False"
| "addr_le (V6 a y) (V6 b z) \<longleftrightarrow> a < b \<or> a = b \<and> bytes_le y z"

section \<open>Their text\<close>

text \<open>\<open>parseIPv4Fields\<close>: four decimal bytes without leading zeros.\<close>

definition parse_fields4 :: "string \<Rightarrow> int list option" where
  "parse_fields4 s = (if parse_ipv4 s then Some (map undec (split_at (CHR ''.'') s)) else None)"

definition parse_addr4 :: "string \<Rightarrow> addr option" where
  "parse_addr4 s = (case parse_fields4 s of Some [a, b, c, d] \<Rightarrow> Some (V4 (quad a b c d)) | _ \<Rightarrow> None)"

text \<open>The value of hexadecimal digits, and the digits a text begins with.\<close>

definition hex_number :: "string \<Rightarrow> int" where
  "hex_number s = foldl (\<lambda>n c. 16 * n + hex_val c) 0 s"

text \<open>
  The loop of \<open>parseIPv6\<close>: the 16-bit groups so far and the place of the ellipsis; the result is
  the groups and the ellipsis. Each round consumes a digit or a field of an IPv4 address, at the
  end of which the text is used up.
\<close>

function groups6 :: "int list \<Rightarrow> nat option \<Rightarrow> string \<Rightarrow> (int list \<times> nat option) option" where
  "groups6 gs ell s =
     (let h = takeWhile is_hex s; r = dropWhile is_hex s in
      if length gs \<ge> 8 then (if s = [] then Some (gs, ell) else None)
      else if h = [] \<or> length h > 4 then None
      else if r \<noteq> [] \<and> hd r = CHR ''.'' then
        (if ell = None \<and> length gs \<noteq> 6 \<or> length gs > 6 then None
         else (case parse_fields4 s of
                 Some [a, b, c, d] \<Rightarrow> Some (gs @ [256 * a + b, 256 * c + d], ell)
               | _ \<Rightarrow> None))
      else
        (let gs' = gs @ [hex_number h] in
         if r = [] then Some (gs', ell)
         else if hd r \<noteq> CHR '':'' \<or> tl r = [] then None
         else if hd (tl r) = CHR '':'' then
           (if ell \<noteq> None then None
            else if tl (tl r) = [] then Some (gs', Some (length gs'))
            else groups6 gs' (Some (length gs')) (tl (tl r)))
         else groups6 gs' ell (tl r)))"
  by pat_completeness auto
termination
proof -
  have less: "length (dropWhile is_hex s) - Suc n < length s" if r: "dropWhile is_hex s \<noteq> []" for s and n :: nat
  proof -
    obtain c q where cq: "dropWhile is_hex s = c # q" using r by (cases "dropWhile is_hex s") auto
    then have "Suc (length q) \<le> length s" using length_dropWhile_le [of is_hex s] by simp
    with cq show ?thesis by simp
  qed
  show ?thesis by (relation "measure (\<lambda>(gs, ell, s). length s)") (auto simp: less)
qed

declare groups6.simps [simp del]

definition word6 :: "int list \<Rightarrow> 128 word" where
  "word6 gs = word_of_int (foldl (\<lambda>n g. 65536 * n + g) 0 gs)"

text \<open>\<open>parseIPv6\<close> without its zone; the ellipsis stands for at least one group.\<close>

definition parse_groups6 :: "string \<Rightarrow> (128 word) option" where
  "parse_groups6 s =
     (let lead = starts_with s ''::''; s' = (if lead then drop 2 s else s) in
      if lead \<and> s' = [] then Some 0
      else (case groups6 [] (if lead then Some 0 else None) s' of
              None \<Rightarrow> None
            | Some (gs, None) \<Rightarrow> if length gs = 8 then Some (word6 gs) else None
            | Some (gs, Some k) \<Rightarrow>
                if length gs < 8 then Some (word6 (take k gs @ replicate (8 - length gs) 0 @ drop k gs)) else None))"

definition parse_addr6 :: "string \<Rightarrow> addr option" where
  "parse_addr6 s =
     (let body = takeWhile (\<lambda>c. c \<noteq> CHR ''%'') s; rest = dropWhile (\<lambda>c. c \<noteq> CHR ''%'') s in
      if rest \<noteq> [] \<and> tl rest = [] then None
      else map_option (\<lambda>w. V6 w (if rest = [] then [] else tl rest)) (parse_groups6 body))"

text \<open>\<open>ParseAddr\<close>: the first dot, colon or percent sign decides.\<close>

definition ParseAddr :: "string \<Rightarrow> addr option" where
  "ParseAddr s =
     (case dropWhile (\<lambda>c. c \<notin> set [CHR ''.'', CHR '':'', CHR ''%'']) s of
        [] \<Rightarrow> None
      | c # r \<Rightarrow> if c = CHR ''.'' then parse_addr4 s else if c = CHR '':'' then parse_addr6 s else None)"

text \<open>\<open>net.ParseIP\<close>: an address without a zone.\<close>

definition ParseIP :: "string \<Rightarrow> addr option" where
  "ParseIP s = (case ParseAddr s of Some (V6 w z) \<Rightarrow> if z = [] then Some (V6 w z) else None | r \<Rightarrow> r)"

lemma ParseAddr_examples:
  "ParseAddr ''127.0.0.1'' = Some (V4 (quad 127 0 0 1))"
  "ParseAddr ''::1'' = Some (V6 1 [])"
  "ParseAddr ''fe80::1%eth0'' = Some (V6 0xFE800000000000000000000000000001 ''eth0'')"
  "ParseAddr ''::ffff:10.0.0.1'' = Some (V6 0xFFFF0A000001 [])"
  "ParseAddr ''2001:db8::1:2:3'' = Some (V6 0x20010DB8000000000000000100020003 [])"
  "ParseAddr ''1:2:3:4:5:6:7::'' = Some (V6 0x00010002000300040005000600070000 [])"
  "ParseAddr ''::%eth0'' = Some (V6 0 ''eth0'')"
  "ParseAddr ''1::2::3'' = None" "ParseAddr ''010.0.0.1'' = None" "ParseAddr ''1:2:3:4:5:6:7:8::'' = None" "ParseAddr ''example'' = None"
  by code_simp+

end
