(* ===== verification/Fetch.thy ===== *)
theory Fetch
  imports GoNet Sha256
begin

text \<open>
  Package \<open>internal/research\<close>, \<open>fetch.go\<close> and \<open>types.go\<close>: the fetching of external content. The
  functions of \<open>net/url\<close> and \<open>mime\<close> it calls, the resolver and the exchange of one request are arguments, the last
  two with the state \<open>'w\<close> of the world they act on; so every answer of a hostile server is covered. Of
  a URL the \<open>Host\<close> field is kept as text, since \<open>Hostname\<close> and \<open>Port\<close> read it again after
  \<open>parseExternalURL\<close> has rewritten it. The state records every connection that is opened. Timeouts are
  errors of the exchange.
\<close>

section \<open>Types\<close>

datatype fetch_error = URLDenied | AddressDenied | RedirectDenied | ContentTooLarge | ContentTypeDenied
  | InvalidLimits | InvalidPort | InvalidHosts | InvalidTypes | DependenciesUnavailable
  | LookupFailed string | RequestFailed string | BadStatus int | ReadFailed

record url =
  u_scheme :: string
  u_host :: string
  u_user :: bool
  u_fragment :: string
  u_rest :: string

record fetch_policy =
  p_hosts :: "string list"
  p_ports :: "int list"
  p_types :: "string list"
  p_max_bytes :: int
  p_max_redirects :: int
  p_timeout :: duration
  p_max_header :: int
  p_agent :: string

record provenance =
  v_url :: string
  v_retrieved :: time
  v_sha256 :: string
  v_content_type :: string
  v_bytes :: nat

record external_content =
  xc_trust :: string
  xc_text :: string
  xc_provenance :: provenance
  xc_policy :: bool
  xc_secrets :: bool
  xc_approve :: bool
  xc_tools :: bool
  xc_persist :: bool

text \<open>The body is what the server sends and whether it then breaks off with an error.\<close>

record response =
  rs_status :: int
  rs_location :: string
  rs_encoding :: string
  rs_content_type :: string
  rs_content_length :: int
  rs_body :: string
  rs_broken :: bool

record hop =
  h_url :: url
  h_addresses :: "addr list"

record destination =
  ds_address :: addr
  ds_port :: string
  ds_url :: url

record 'w net =
  nt_parse :: "string \<Rightarrow> url option"
  nt_text :: "url \<Rightarrow> string"
  nt_refer :: "url \<Rightarrow> string \<Rightarrow> url option"
  nt_media :: "string \<Rightarrow> string option"
  nt_lower :: "string \<Rightarrow> string"
  nt_lookup :: "string \<Rightarrow> 'w \<Rightarrow> (string, addr option list) result \<times> 'w"
  nt_exchange :: "destination \<Rightarrow> string \<Rightarrow> string \<Rightarrow> 'w \<Rightarrow> (string, response) result \<times> 'w"

record 'w fetch_state =
  fs_world :: 'w
  fs_dials :: "destination list"

definition TrustLabel :: string where "TrustLabel = ''UNTRUSTED_EXTERNAL_CONTENT''"

definition NewExternalContent :: "string \<Rightarrow> provenance \<Rightarrow> external_content" where
  "NewExternalContent text p = \<lparr>xc_trust = TrustLabel, xc_text = text, xc_provenance = p, xc_policy = False, xc_secrets = False,
     xc_approve = False, xc_tools = False, xc_persist = False\<rparr>"

definition HashBytes :: "string \<Rightarrow> string" where
  "HashBytes content = sha256_hex content"

section \<open>The policy\<close>

definition or_default :: "'a \<Rightarrow> 'a \<Rightarrow> 'a \<Rightarrow> 'a" where
  "or_default zero d x = (if x = zero then d else x)"

definition normalizedPolicy :: "fetch_policy \<Rightarrow> fetch_policy" where
  "normalizedPolicy p =
     p\<lparr>p_ports := or_default [] [80, 443] (p_ports p),
       p_types := or_default [] [''text/plain'', ''text/html'', ''text/markdown'', ''application/json'', ''application/xml'', ''text/xml''] (p_types p),
       p_max_bytes := or_default 0 (2 * 1024 * 1024) (p_max_bytes p),
       p_max_redirects := or_default 0 4 (p_max_redirects p),
       p_timeout := or_default 0 (20 * second) (p_timeout p),
       p_max_header := or_default 0 (64 * 1024) (p_max_header p),
       p_agent := or_default [] ''Mosaid/0.1 research-fetcher'' (p_agent p)\<rparr>"

definition contains_any :: "string \<Rightarrow> string \<Rightarrow> bool" where
  "contains_any s cs \<longleftrightarrow> list_ex (\<lambda>c. c \<in> set cs) s"

definition validatePolicy :: "(string \<Rightarrow> string) \<Rightarrow> fetch_policy \<Rightarrow> (fetch_error, unit) result" where
  "validatePolicy lower p =
     reject_if (p_max_bytes p < 1 \<or> p_max_bytes p > 8 * 1024 * 1024 \<or> p_max_redirects p < 0 \<or> p_max_redirects p > 8
         \<or> p_timeout p \<le> 0 \<or> p_timeout p > minute \<or> p_max_header p < 1024 \<or> p_max_header p > 1024 * 1024) InvalidLimits
     (reject_if (list_ex (\<lambda>n. n < 1 \<or> n > 65535) (p_ports p)) InvalidPort
     (reject_if (list_ex (\<lambda>h. h = [] \<or> h \<noteq> to_lower lower h \<or> contains_any h ''/*:@'') (p_hosts p)) InvalidHosts
     (reject_if (list_ex (\<lambda>t. t \<noteq> to_lower lower t \<or> contains_any t '' ;'') (p_types p)) InvalidTypes (Inr ()))))"

section \<open>URLs and addresses\<close>

text \<open>\<open>splitHostPort\<close> of \<open>net/url\<close>: what follows the last colon is a port if it is made of digits.\<close>

definition after_last :: "char \<Rightarrow> string \<Rightarrow> (string \<times> string) option" where
  "after_last c s = (if c \<in> set s
     then Some (rev (tl (dropWhile (\<lambda>d. d \<noteq> c) (rev s))), rev (takeWhile (\<lambda>d. d \<noteq> c) (rev s))) else None)"

definition splitHostPort :: "string \<Rightarrow> string \<times> string" where
  "splitHostPort s =
     (let (host, port) = (case after_last (CHR '':'') s of
            Some (h, p) \<Rightarrow> if list_all is_digit p then (h, p) else (s, []) | None \<Rightarrow> (s, []))
      in (if starts_with host ''['' \<and> ends_with host '']'' then butlast (tl host) else host, port))"

definition Hostname :: "url \<Rightarrow> string" where "Hostname u = fst (splitHostPort (u_host u))"
definition Port :: "url \<Rightarrow> string" where "Port u = snd (splitHostPort (u_host u))"

definition JoinHostPort :: "string \<Rightarrow> string \<Rightarrow> string" where
  "JoinHostPort h p = (if CHR '':'' \<in> set h then ''['' @ h @ '']:'' @ p else h @ '':'' @ p)"

definition blocked :: "addr \<Rightarrow> bool" where
  "blocked a \<longleftrightarrow>
     Contains4 (quad 0 0 0 0) 8 a \<or> Contains4 (quad 100 64 0 0) 10 a \<or> Contains4 (quad 192 0 0 0) 24 a
   \<or> Contains4 (quad 192 0 2 0) 24 a \<or> Contains4 (quad 198 18 0 0) 15 a \<or> Contains4 (quad 198 51 100 0) 24 a
   \<or> Contains4 (quad 203 0 113 0) 24 a \<or> Contains4 (quad 240 0 0 0) 4 a \<or> Contains6 0x20010DB8000000000000000000000000 32 a"

definition deniedAddress :: "addr \<Rightarrow> bool" where
  "deniedAddress address =
     (let a = Unmap address in
      \<not> IsGlobalUnicast a \<or> IsPrivate a \<or> IsLoopback a \<or> IsLinkLocalUnicast a \<or> IsLinkLocalMulticast a \<or> IsMulticast a
      \<or> IsUnspecified a \<or> blocked a)"

definition isMetadataHostname :: "string \<Rightarrow> bool" where
  "isMetadataHostname h \<longleftrightarrow>
     h \<in> set [''metadata.google.internal'', ''metadata.goog'', ''instance-data'', ''instance-data.ec2.internal'', ''metadata.azure.internal'']"

definition default_port :: "url \<Rightarrow> int" where
  "default_port u = (if u_scheme u = ''https'' then 443 else 80)"

definition parseExternalURL :: "'w net \<Rightarrow> string \<Rightarrow> fetch_policy \<Rightarrow> (fetch_error, url) result" where
  "parseExternalURL net raw p =
     reject_if (raw = [] \<or> length raw > 8192) URLDenied
     (case nt_parse net raw of
        None \<Rightarrow> Inl URLDenied
      | Some u \<Rightarrow>
          reject_if (u_scheme u \<noteq> ''http'' \<and> u_scheme u \<noteq> ''https'' \<or> Hostname u = [] \<or> u_user u \<or> u_fragment u \<noteq> []) URLDenied
          (let host = to_lower (nt_lower net) (trim_dot (Hostname u)) in
           reject_if (host \<noteq> Hostname u \<or> isMetadataHostname host \<or> host = ''localhost'' \<or> ends_with host ''.localhost'') URLDenied
           (reject_if (case ParseAddr host of Some a \<Rightarrow> deniedAddress (Unmap a) | None \<Rightarrow> False) URLDenied
           (reject_if (\<not> ascii host) URLDenied
           (reject_if (p_hosts p \<noteq> [] \<and> host \<notin> set (p_hosts p)) URLDenied
           (let explicit = Port u \<noteq> []; port = (if explicit then fst (Atoi (Port u)) else default_port u) in
            reject_if (explicit \<and> \<not> snd (Atoi (Port u))) URLDenied
            (reject_if (port \<notin> set (p_ports p)) URLDenied
            (Inr (u\<lparr>u_host := (if explicit then JoinHostPort host (format_int port) else host)\<rparr>)))))))))"

fun insert_addr :: "addr \<Rightarrow> addr list \<Rightarrow> addr list" where
  "insert_addr a [] = [a]"
| "insert_addr a (b # bs) = (if addr_le a b then a # b # bs else b # insert_addr a bs)"

text \<open>The addresses of a host; an answer that is not an address ends the fetch.\<close>

fun unmap_all :: "addr option list \<Rightarrow> (fetch_error, addr list) result" where
  "unmap_all [] = Inr []"
| "unmap_all (None # as) = Inl AddressDenied"
| "unmap_all (Some a # as) = and_then (unmap_all as) (\<lambda>bs. Inr (Unmap a # bs))"

definition addresses_of :: "'w net \<Rightarrow> string \<Rightarrow> 'w \<Rightarrow> (fetch_error, addr list) result \<times> 'w" where
  "addresses_of net host w =
     (case ParseAddr host of
        Some a \<Rightarrow> (Inr [Unmap a], w)
      | None \<Rightarrow> (case nt_lookup net host w of (Inl e, w') \<Rightarrow> (Inl (LookupFailed e), w') | (Inr as, w') \<Rightarrow> (unmap_all as, w')))"

definition public_hop :: "url \<Rightarrow> addr list \<Rightarrow> (fetch_error, hop) result" where
  "public_hop u as =
     reject_if (as = [] \<or> list_ex deniedAddress as) AddressDenied
     (Inr \<lparr>h_url = u, h_addresses = foldr insert_addr (remdups as) []\<rparr>)"

definition resolveHop :: "'w net \<Rightarrow> url \<Rightarrow> 'w \<Rightarrow> (fetch_error, hop) result \<times> 'w" where
  "resolveHop net u w =
     (case addresses_of net (to_lower (nt_lower net) (Hostname u)) w of (r, w') \<Rightarrow> (and_then r (public_hop u), w'))"

text \<open>\<open>pinnedTransportFactory\<close>: whatever the request names, the connection goes here.\<close>

definition TransportFor :: "hop \<Rightarrow> (fetch_error, destination) result" where
  "TransportFor h =
     (case h_addresses h of
        [] \<Rightarrow> Inl AddressDenied
      | a # as \<Rightarrow> Inr \<lparr>ds_address = a,
          ds_port = (if Port (h_url h) = [] then format_int (default_port (h_url h)) else Port (h_url h)), ds_url = h_url h\<rparr>)"

section \<open>Reading and fetching\<close>

definition isRedirect :: "int \<Rightarrow> bool" where
  "isRedirect n \<longleftrightarrow> n = 301 \<or> n = 302 \<or> n = 303 \<or> n = 307 \<or> n = 308"

definition readResponse :: "'w net \<Rightarrow> time \<Rightarrow> response \<Rightarrow> url \<Rightarrow> fetch_policy \<Rightarrow> (fetch_error, external_content) result" where
  "readResponse net now r u p =
     reject_if (rs_status r < 200 \<or> rs_status r > 299) (BadStatus (rs_status r))
     (reject_if (trim_space (rs_encoding r) \<noteq> [] \<and> trim_space (rs_encoding r) \<noteq> ''identity'') ContentTypeDenied
     (case nt_media net (rs_content_type r) of
        None \<Rightarrow> Inl ContentTypeDenied
      | Some media \<Rightarrow>
          reject_if (to_lower (nt_lower net) media \<notin> set (p_types p)) ContentTypeDenied
          (reject_if (rs_content_length r > p_max_bytes p) ContentTooLarge
          (let body = take (nat (p_max_bytes p + 1)) (rs_body r) in
           reject_if (rs_broken r \<and> int (length (rs_body r)) < p_max_bytes p + 1) ReadFailed
           (reject_if (int (length body) > p_max_bytes p) ContentTooLarge
           (reject_if (\<not> utf8_valid body \<or> media = ''application/json'' \<and> \<not> json_valid body) ContentTypeDenied
           (Inr (NewExternalContent body \<lparr>v_url = nt_text net u, v_retrieved = now, v_sha256 = HashBytes body,
                   v_content_type = to_lower (nt_lower net) media, v_bytes = length body\<rparr>))))))))"

text \<open>One request: the connection is recorded; the text of the URL is parsed again by \<open>NewRequest\<close>.\<close>

definition send_request ::
  "'w net \<Rightarrow> fetch_policy \<Rightarrow> destination \<Rightarrow> 'w fetch_state \<Rightarrow> (fetch_error, response) result \<times> 'w fetch_state" where
  "send_request net p d s =
     (if nt_parse net (nt_text net (ds_url d)) = None then (Inl (RequestFailed ''url''), s)
      else (case nt_exchange net d (nt_text net (ds_url d)) (p_agent p) (fs_world s) of
              (r, w') \<Rightarrow> (case r of Inl e \<Rightarrow> Inl (RequestFailed e) | Inr x \<Rightarrow> Inr x,
                         s\<lparr>fs_world := w', fs_dials := fs_dials s @ [d]\<rparr>)))"

definition next_url :: "'w net \<Rightarrow> fetch_policy \<Rightarrow> url \<Rightarrow> string \<Rightarrow> (fetch_error, url) result" where
  "next_url net p u location =
     (case nt_refer net u location of
        None \<Rightarrow> Inl RedirectDenied
      | Some v \<Rightarrow> (case parseExternalURL net (nt_text net v) p of Inl e \<Rightarrow> Inl RedirectDenied | Inr x \<Rightarrow> Inr x))"

definition hop_and_send ::
  "'w net \<Rightarrow> fetch_policy \<Rightarrow> int \<Rightarrow> url \<Rightarrow> 'w fetch_state \<Rightarrow> (fetch_error, response) result \<times> 'w fetch_state" where
  "hop_and_send net p redirect u s =
     (case resolveHop net u (fs_world s) of
        (Inl e, w) \<Rightarrow> (Inl (if redirect > 0 then RedirectDenied else e), s\<lparr>fs_world := w\<rparr>)
      | (Inr h, w) \<Rightarrow>
          (case TransportFor h of Inl e \<Rightarrow> (Inl e, s\<lparr>fs_world := w\<rparr>) | Inr d \<Rightarrow> send_request net p d (s\<lparr>fs_world := w\<rparr>)))"

function fetch_loop ::
  "'w net \<Rightarrow> fetch_policy \<Rightarrow> time \<Rightarrow> int \<Rightarrow> url \<Rightarrow> 'w fetch_state \<Rightarrow> (fetch_error, external_content) result \<times> 'w fetch_state" where
  "fetch_loop net p now redirect u s =
     (case hop_and_send net p redirect u s of
        (Inl e, s1) \<Rightarrow> (Inl e, s1)
      | (Inr r, s1) \<Rightarrow>
          if isRedirect (rs_status r) then
            (if redirect \<ge> p_max_redirects p \<or> rs_location r = [] then (Inl RedirectDenied, s1)
             else (case next_url net p u (rs_location r) of
                     Inl e \<Rightarrow> (Inl e, s1)
                   | Inr v \<Rightarrow> fetch_loop net p now (redirect + 1) v s1))
          else (readResponse net now r u p, s1))"
  by pat_completeness auto
termination by (relation "measure (\<lambda>(net, p, now, redirect, u, s). nat (p_max_redirects p - redirect))") auto

declare fetch_loop.simps [simp del]

text \<open>\<open>Fetch\<close>; without a policy here, the fetcher or one of its dependencies is nil.\<close>

definition Fetch ::
  "'w net \<Rightarrow> fetch_policy option \<Rightarrow> time \<Rightarrow> string \<Rightarrow> 'w fetch_state \<Rightarrow> (fetch_error, external_content) result \<times> 'w fetch_state" where
  "Fetch net fetcher now raw s =
     (case fetcher of
        None \<Rightarrow> (Inl DependenciesUnavailable, s)
      | Some given \<Rightarrow>
          (let p = normalizedPolicy given in
           case and_then (validatePolicy (nt_lower net) p) (\<lambda>_. parseExternalURL net raw p) of
             Inl e \<Rightarrow> (Inl e, s)
           | Inr u \<Rightarrow> fetch_loop net p now 0 u s))"

definition NewFetcher :: "(string \<Rightarrow> string) \<Rightarrow> fetch_policy \<Rightarrow> (fetch_error, fetch_policy) result" where
  "NewFetcher lower given = (let p = normalizedPolicy given in and_then (validatePolicy lower p) (\<lambda>_. Inr p))"

end
