(* ===== verification/JsonRead.thy ===== *)
theory JsonRead
  imports GoMarshal
begin

text \<open>
  What \<open>encoding/json\<close> reads of what it wrote: literals, numbers and structs.
\<close>

section \<open>Literals read back\<close>

lemma hex4_hex: "0 \<le> n \<Longrightarrow> n < 16 \<Longrightarrow> is_hex (hex4 n) \<and> hex_val (hex4 n) = n"
  by (cases "n < 10") (simp_all add: hex4_def is_hex_def hex_val_def is_digit_def)

lemma escape_ascii_shape:
  obtains (plain) "escape_ascii c = [c]" and "c \<noteq> CHR 0x5C" and "c \<noteq> CHR 0x22" and "32 \<le> (of_char c :: int)"
    | (short) e where "escape_ascii c = [CHR 0x5C, e]" and "is_escape e" and "char_of (unescape e) = c"
    | (long) h l where "escape_ascii c = [CHR 0x5C, CHR ''u'', CHR ''0'', CHR ''0'', h, l]"
        and "is_hex h" and "is_hex l" and "16 * hex_val h + hex_val l = of_char c"
proof -
  have h: "is_hex (hex4 (of_char c div 16)) \<and> hex_val (hex4 (of_char c div 16)) = of_char c div 16"
    by (rule hex4_hex) (use of_char_bounds [of c] in \<open>simp_all add: pos_imp_zdiv_nonneg_iff int_div_less_self\<close>)
  have l: "is_hex (hex4 (of_char c mod 16)) \<and> hex_val (hex4 (of_char c mod 16)) = of_char c mod 16"
    by (rule hex4_hex) simp_all
  define special where "special \<longleftrightarrow> c \<in> {CHR 0x5C, CHR 0x22, CHR 0x08, CHR 0x0C, CHR 0x0A, CHR 0x0D, CHR 0x09}"
  define escaped where "escaped \<longleftrightarrow> of_char c < (32 :: int) \<or> c = CHR ''<'' \<or> c = CHR ''>'' \<or> c = CHR ''&''"
  consider "special" | "\<not> special" "escaped" | "\<not> special" "\<not> escaped" by blast
  then show ?thesis
  proof cases
    case 1
    then have "\<exists>e. escape_ascii c = [CHR 0x5C, e] \<and> is_escape e \<and> char_of (unescape e) = c"
      unfolding special_def by (elim insertE emptyE) (simp_all add: escape_ascii_def is_escape_def unescape_def char_of_eq)
    with short show ?thesis by blast
  next
    case 2
    show ?thesis by (rule long [OF _ conjunct1 [OF h] conjunct1 [OF l]]) (use 2 h l in \<open>auto simp: escape_ascii_def special_def escaped_def\<close>)
  next
    case 3
    show ?thesis by (rule plain) (use 3 in \<open>auto simp: escape_ascii_def special_def escaped_def\<close>)
  qed
qed

lemma scan_high: "list_all (\<lambda>c. \<not> is_ascii c) w \<Longrightarrow> scan_string (w @ x) = map_option (\<lambda>(l, r). (w @ l, r)) (scan_string x)"
proof (induction w)
  case Nil
  show ?case by (cases "scan_string x") auto
next
  case (Cons c w)
  then have "c \<noteq> CHR 0x22" "c \<noteq> CHR 0x5C" "\<not> (of_char c :: int) < 32" by (auto simp: is_ascii_def)
  with Cons show ?case by (cases "scan_string x") auto
qed

lemma rune_high: "rune_len (c # w) = length (c # w) \<Longrightarrow> \<not> is_ascii c \<Longrightarrow> list_all (\<lambda>c. \<not> is_ascii c) (c # w)"
proof -
  assume r: "rune_len (c # w) = length (c # w)" and c: "\<not> is_ascii c"
  have "in_bytes 128 191 x \<Longrightarrow> \<not> is_ascii x" for x by (simp add: in_bytes_def is_ascii_def)
  moreover have "list_all (in_bytes 128 191) w" using r c by (auto simp: rune_len_def is_ascii_def in_bytes_def split: if_splits)
  ultimately show ?thesis using c by (auto simp: list_all_iff)
qed

lemma token_scan:
  assumes "esc_token p a"
  shows "scan_string (a @ x) = map_option (\<lambda>(l, r). (a @ l, r)) (scan_string x)"
  using assms
proof cases
  case (low c)
  show ?thesis
  proof (cases rule: escape_ascii_shape [of c])
    case (short e)
    then show ?thesis using low by (cases "scan_string x") auto
  next
    case (long h l)
    then show ?thesis using low by (cases "scan_string x") (auto simp: is_escape_def is_hex_def is_digit_def)
  qed (use low in \<open>cases "scan_string x"; auto\<close>)
next
  case (rune c w)
  then show ?thesis using scan_high [OF rune_high] by simp
qed (cases "scan_string x"; simp add: is_escape_def is_hex_def is_digit_def)+

lemma token_unquote:
  assumes "esc_token p a"
  shows "unquote (a @ x) = p @ unquote x"
  using assms
proof cases
  case (low c)
  show ?thesis
  proof (cases rule: escape_ascii_shape [of c])
    case plain
    then show ?thesis using low by (simp add: unquote.simps [of "c # x"])
  next
    case (short e)
    then have "e \<noteq> CHR ''u''" by (auto simp: is_escape_def)
    then have "code_unit (CHR 0x5C # e # x) = None" by (simp add: code_unit_def split: list.split)
    with short low show ?thesis by (simp add: unquote.simps [of "CHR 0x5C # e # x"] unescape_front_def)
  next
    case (long h l)
    have "hex_val CHR ''0'' = 0" "is_hex CHR ''0''" by (simp_all add: hex_val_def is_digit_def is_hex_def)
    then have "code_unit (CHR 0x5C # CHR ''u'' # CHR ''0'' # CHR ''0'' # h # l # x) = Some (of_char c)"
      using long by (simp add: code_unit_def)
    moreover have "of_char c < (128 :: int)" using low by (simp add: is_ascii_def)
    ultimately show ?thesis using long low
      by (simp add: unquote.simps [of "CHR 0x5C # CHR ''u'' # CHR ''0'' # CHR ''0'' # h # l # x"] unescape_front_def is_surrogate_def encode_rune_def)
  qed
next
  case line
  then show ?thesis
    by (simp add: unquote.simps [of "CHR 0x5C # CHR ''u'' # CHR ''2'' # CHR ''0'' # CHR ''2'' # CHR ''8'' # x"] unescape_front_def code_unit_def
        is_hex_def is_digit_def hex_val_def is_surrogate_def encode_rune_def char_of_eq)
next
  case para
  then show ?thesis
    by (simp add: unquote.simps [of "CHR 0x5C # CHR ''u'' # CHR ''2'' # CHR ''0'' # CHR ''2'' # CHR ''9'' # x"] unescape_front_def code_unit_def
        is_hex_def is_digit_def hex_val_def is_surrogate_def encode_rune_def char_of_eq)
next
  case (rune c w)
  have "rune_len ((c # w) @ x) = length (c # w)" "c \<noteq> CHR 0x5C" using rune rune_len_take [of "c # w" x] by (auto simp: is_ascii_def)
  with rune show ?thesis by (simp add: unquote.simps [of "c # w @ x"])
qed

lemma escape_scan: "utf8_valid s \<Longrightarrow> scan_string (escape_json s @ CHR 0x22 # r) = Some (escape_json s, r)"
proof (induction s rule: length_induct)
  case (1 s)
  show ?case
  proof (cases s)
    case (Cons c s')
    obtain p a t where t: "esc_token p a" "p \<noteq> []" "s = p @ t" "escape_json s = a @ escape_json t" "utf8_valid t"
      using 1(2) unfolding Cons by (rule escape_json_front)
    then have "scan_string (escape_json t @ CHR 0x22 # r) = Some (escape_json t, r)" using 1(1) by simp
    with t(4) token_scan [OF t(1), of "escape_json t @ CHR 0x22 # r"] show ?thesis by simp
  qed simp
qed

lemma escape_unquote: "utf8_valid s \<Longrightarrow> unquote (escape_json s) = s"
proof (induction s rule: length_induct)
  case (1 s)
  show ?case
  proof (cases s)
    case Nil
    then show ?thesis by (simp add: unquote.simps)
  next
    case (Cons c s')
    obtain p a t where t: "esc_token p a" "p \<noteq> []" "s = p @ t" "escape_json s = a @ escape_json t" "utf8_valid t"
      using 1(2) unfolding Cons by (rule escape_json_front)
    with 1(1) token_unquote [OF t(1), of "escape_json t"] show ?thesis by simp
  qed
qed

section \<open>Structs read back\<close>

lemma digits_of_append: "list_all is_digit d \<Longrightarrow> (x = [] \<or> \<not> is_digit (hd x)) \<Longrightarrow> digits_of (d @ x) = (d, x)"
proof (induction d)
  case Nil
  then show ?case by (cases x) auto
qed auto

lemma dec_first: "0 < n \<Longrightarrow> hd (dec n) \<noteq> CHR ''0''"
proof (induction n rule: less_induct)
  case (less n)
  show ?case
  proof (cases "n < 10")
    case True
    have "digit n \<noteq> digit 0" using digit_inj [of n 0] True less.prems by auto
    moreover have "digit 0 = CHR ''0''" by code_simp
    ultimately show ?thesis using True by (simp add: dec_less_10)
  next
    case False
    with less.IH [of "n div 10"] dec_step [of n] dec_nonempty [of "n div 10"] show ?thesis by simp
  qed
qed

lemma dec_cons:
  obtains c d where "dec n = c # d" and "is_digit c" and "list_all is_digit d" and "c \<noteq> CHR ''-''" and "c \<noteq> CHR ''+''"
proof -
  obtain c d where d: "dec n = c # d" using dec_nonempty [of n] by (cases "dec n") auto
  then have "is_digit c" "list_all is_digit d" using dec_digits [of _ n] by (auto simp: list_all_iff)
  moreover from this have "c \<noteq> CHR ''-''" "c \<noteq> CHR ''+''" by (auto simp: is_digit_def)
  ultimately show ?thesis using d that by blast
qed

lemma scan_dec: "(x = [] \<or> \<not> is_digit (hd x)) \<Longrightarrow> scan_int (dec n @ x) = Some (dec n, x)"
proof -
  assume x: "x = [] \<or> \<not> is_digit (hd x)"
  obtain c d where d: "dec n = c # d" using dec_nonempty [of n] by (cases "dec n") auto
  have digits: "is_digit c" "list_all is_digit d" using dec_digits [of _ n] d by (auto simp: list_all_iff)
  show ?thesis
  proof (cases "n = 0")
    case True
    have "dec 0 = ''0''" by code_simp
    with True show ?thesis by (simp add: scan_int_def)
  next
    case False
    then have "c \<noteq> CHR ''0''" using dec_first [of n] d by simp
    with d digits digits_of_append [OF digits(2) x] show ?thesis by (simp add: scan_int_def)
  qed
qed

definition closing :: "string \<Rightarrow> bool" where
  "closing x \<longleftrightarrow> (\<exists>c r. x = c # r \<and> (c = CHR '','' \<or> c = CHR ''}''))"

lemma scan_number_int:
  assumes "closing x"
  shows "scan_number (format_int n @ x) = Some (format_int n, x)"
proof -
  obtain c r where x: "x = c # r" "c = CHR '','' \<or> c = CHR ''}''" using assms by (auto simp: closing_def)
  then have "\<not> is_digit (hd x)" by (auto simp: is_digit_def)
  then have int: "scan_int (dec k @ x) = Some (dec k, x)" for k using scan_dec by blast
  have rest: "scan_frac x = Some ([], x)" "scan_exp x = Some ([], x)" using x by (auto simp: scan_frac_def scan_exp_def)
  have "(case dec k @ x of c # r \<Rightarrow> if c = CHR ''-'' then ([c], r) else ([], dec k @ x) | [] \<Rightarrow> ([], [])) = ([], dec k @ x)" for k
    by (rule dec_cons [of k]) simp
  then show ?thesis using int rest by (simp add: scan_number_def format_int_def)
qed

lemma Atoi_format: "min_int64 \<le> n \<Longrightarrow> n \<le> max_int64 \<Longrightarrow> Atoi (format_int n) = (n, True)"
proof -
  assume n: "min_int64 \<le> n" "n \<le> max_int64"
  have digits: "list_all is_digit (dec k)" "dec k \<noteq> []" "undec (dec k) = int k" for k
    using dec_digits [of _ k] dec_nonempty undec_dec by (auto simp: list_all_iff simp del: undec.simps)
  have "(case dec k of c # r \<Rightarrow> if c = CHR ''-'' then (True, r) else if c = CHR ''+'' then (False, r) else (False, dec k)
      | [] \<Rightarrow> (False, [])) = (False, dec k)" for k
    by (rule dec_cons [of k]) simp
  with n digits show ?thesis by (auto simp: Atoi_def format_int_def simp del: undec.simps)
qed

fun field_value :: "go_value \<Rightarrow> json" where
  "field_value (GoInt n) = JNum (format_int n)"
| "field_value (GoText s) = JStr (escape_json s)"
| "field_value (GoBool b) = JBool b"
| "field_value (GoRaw j) = JNull"

fun plain_field :: "string \<times> go_value \<Rightarrow> bool" where
  "plain_field (k, GoInt n) \<longleftrightarrow> utf8_valid k"
| "plain_field (k, GoText s) \<longleftrightarrow> utf8_valid k \<and> utf8_valid s"
| "plain_field (k, v) \<longleftrightarrow> False"

lemma parse_field_value:
  assumes "plain_field (k, v)" and "closing x"
  shows "parse_value (Suc fuel) depth (value_json v @ x) = Some (field_value v, x)"
proof (cases v)
  case (GoText s)
  then show ?thesis using assms escape_scan [of s x] by (simp add: json_quote_def is_ws_def)
next
  case (GoInt n)
  have "format_int n \<noteq> []" "is_digit (hd (format_int n)) \<or> hd (format_int n) = CHR ''-''"
    using dec_nonempty [of "nat n"] dec_digits [of "hd (dec (nat n))" "nat n"] by (auto simp: format_int_def)
  then obtain c r where c: "format_int n = c # r" "is_digit c \<or> c = CHR ''-''" by (cases "format_int n") auto
  then have "\<not> is_ws c" "c \<notin> {CHR 0x22, CHR 0x7B, CHR ''['', CHR ''t'', CHR ''f'', CHR ''n''}" by (auto simp: is_ws_def is_digit_def)
  then show ?thesis using GoInt c scan_number_int [OF assms(2), of n] by simp
qed (use assms in auto)

text \<open>What is written for a value is read as \<open>j\<close>: a plain value, or an object of such values.\<close>

definition reads :: "nat \<Rightarrow> nat \<Rightarrow> go_value \<Rightarrow> json \<Rightarrow> bool" where
  "reads n depth v j \<longleftrightarrow> (\<forall>fuel x. n \<le> fuel \<longrightarrow> closing x \<longrightarrow> parse_value fuel depth (value_json v @ x) = Some (j, x))"

lemma reads_plain: "plain_field (k, v) \<Longrightarrow> reads 1 depth v (field_value v)"
  using parse_field_value [of k v] by (auto simp: reads_def Suc_le_eq gr0_conv_Suc simp del: parse_value.simps value_json.simps)

lemma reads_more: "reads n depth v j \<Longrightarrow> n \<le> m \<Longrightarrow> reads m depth v j"
  by (simp add: reads_def)

definition field_reads :: "nat \<Rightarrow> nat \<Rightarrow> (string \<times> go_value) \<times> json \<Rightarrow> bool" where
  "field_reads n depth f = (case f of ((k, v), j) \<Rightarrow> utf8_valid k \<and> reads n depth v j)"

lemma parse_read_fields:
  "fs \<noteq> [] \<Longrightarrow> list_all (field_reads n depth) fs \<Longrightarrow> length fs + n \<le> fuel \<Longrightarrow>
   parse_members fuel depth (json_fields (map fst fs) @ CHR 0x7D # r) = Some (map (\<lambda>((k, v), j). (escape_json k, j)) fs, r)"
proof (induction fs arbitrary: fuel)
  case (Cons f fs)
  obtain k v j where f: "f = ((k, v), j)" by (metis prod.exhaust)
  obtain m where m: "fuel = Suc m" "n \<le> m" "length fs + n \<le> m" using Cons.prems(3) by (cases fuel) auto
  have k: "utf8_valid k" and read: "\<And>x. closing x \<Longrightarrow> parse_value m depth (value_json v @ x) = Some (j, x)"
    using Cons.prems(2) m f by (auto simp: field_reads_def reads_def)
  show ?case
  proof (cases fs)
    case Nil
    have "closing (CHR 0x7D # r)" by (simp add: closing_def)
    from read [OF this] escape_scan [OF k] Nil show ?thesis
      by (simp add: m f json_quote_def is_ws_def del: parse_value.simps)
  next
    case (Cons g gs)
    have "closing (CHR '','' # x)" for x by (simp add: closing_def)
    moreover have "parse_members m depth (json_fields (map fst fs) @ CHR 0x7D # r) = Some (map (\<lambda>((k, v), j). (escape_json k, j)) fs, r)"
      using Cons Cons.prems(2) m(3) by (intro Cons.IH) simp_all
    ultimately show ?thesis using Cons read escape_scan [OF k]
      by (cases g) (simp add: m f json_quote_def is_ws_def del: parse_value.simps)
  qed
qed simp

lemma json_fields_quote: "fs \<noteq> [] \<Longrightarrow> \<exists>r. json_fields fs @ x = CHR 0x22 # r"
  by (cases fs rule: json_fields.cases) (auto simp: json_quote_def)

lemma reads_struct:
  assumes "fs \<noteq> []" and "list_all (field_reads n (Suc depth)) fs" and "depth < max_nesting"
  shows "reads (Suc (length fs + n)) depth (GoRaw (json_struct (map fst fs))) (JObj (map (\<lambda>((k, v), j). (escape_json k, j)) fs))"
  unfolding reads_def
proof (intro allI impI)
  fix fuel x
  assume "Suc (length fs + n) \<le> fuel"
  then obtain m where m: "fuel = Suc m" "length fs + n \<le> m" by (cases fuel) auto
  obtain r where r: "json_fields (map fst fs) @ CHR 0x7D # x = CHR 0x22 # r" using json_fields_quote assms(1) by blast
  from parse_read_fields [OF assms(1,2) m(2), of x] r assms(3)
  show "parse_value fuel depth (value_json (GoRaw (json_struct (map fst fs))) @ x) = Some (JObj (map (\<lambda>((k, v), j). (escape_json k, j)) fs), x)"
    by (simp add: m json_struct_def is_ws_def)
qed

lemma parse_struct_of:
  assumes "fs \<noteq> []" and "list_all (field_reads n 1) fs" and "n \<le> length (json_struct (map fst fs))"
  shows "parse_document (json_struct (map fst fs)) = Some (JObj (map (\<lambda>((k, v), j). (escape_json k, j)) fs))"
proof -
  have "length fs \<le> length (json_fields fs)" for fs by (induction fs rule: json_fields.induct) (auto simp: json_quote_def)
  from this [of "map fst fs"] have fuel: "length fs + n \<le> 2 * length (json_struct (map fst fs))" using assms(3) by (simp add: json_struct_def)
  obtain r where r: "json_fields (map fst fs) @ ''}'' = CHR 0x22 # r" using json_fields_quote assms(1) by blast
  from parse_read_fields [OF assms(1,2) fuel, of "[]"] r show ?thesis
    by (simp add: parse_document_def json_struct_def is_ws_def max_nesting_def)
qed

lemma parse_struct:
  assumes "fs \<noteq> []" and "list_all plain_field fs"
  shows "parse_document (json_struct fs) = Some (JObj (map (\<lambda>(k, v). (escape_json k, field_value v)) fs))"
proof -
  let ?fs = "map (\<lambda>f. (f, field_value (snd f))) fs"
  have "field_reads 1 1 (f, field_value (snd f))" if "plain_field f" for f
    using that reads_plain [of "fst f" "snd f"] by (cases f; cases "snd f") (auto simp: field_reads_def)
  then have "list_all (field_reads 1 1) ?fs" using assms(2) by (simp add: list_all_iff)
  from parse_struct_of [OF _ this] assms(1) show ?thesis by (simp add: json_struct_def comp_def case_prod_beta)
qed

end
