(* ===== verification/GoScan.thy ===== *)
theory GoScan
  imports GoStr
begin

text \<open>
  \<open>bufio.Scanner\<close> with \<open>ScanLines\<close>, and searching and replacing in texts (\<open>strings.Contains\<close>, \<open>Count\<close>, \<open>Replace\<close>).
\<close>

section \<open>Lines\<close>

definition strip_cr :: "string \<Rightarrow> string" where
  "strip_cr l = (if l \<noteq> [] \<and> last l = CHR 0x0D then butlast l else l)"

text \<open>The lines that fit a buffer of the given buf, and whether one did not fit, which ends the scan.\<close>

function scan_up_to :: "nat \<Rightarrow> string \<Rightarrow> string list \<times> bool" where
  "scan_up_to buf s =
     (let l = takeWhile (\<lambda>c. c \<noteq> CHR 0x0A) s; r = dropWhile (\<lambda>c. c \<noteq> CHR 0x0A) s in
      if s = [] then ([], False)
      else if buf \<le> length l then ([], True)
      else if r = [] then ([strip_cr l], False)
      else (case scan_up_to buf (tl r) of (ls, over) \<Rightarrow> (strip_cr l # ls, over)))"
  by pat_completeness auto

termination
proof (relation "measure (length \<circ> snd)")
  fix buf :: nat and s :: string and l r :: string
  assume "r = dropWhile (\<lambda>c. c \<noteq> CHR 0x0A) s" "r \<noteq> []"
  then have "length (tl r) < length r" "length r \<le> length s" by (simp_all add: length_dropWhile_le)
  then show "((buf, tl r), (buf, s)) \<in> measure (length \<circ> snd)" by simp
qed simp

declare scan_up_to.simps [simp del]

section \<open>Searching and replacing\<close>

fun contains :: "string \<Rightarrow> string \<Rightarrow> bool" where
  "contains [] q = (q = [])"
| "contains (c # s) q = (starts_with (c # s) q \<or> contains s q)"

text \<open>Occurrences that do not overlap, for a text to find that is not empty; \<open>skip\<close> bytes belong to the last one.\<close>

fun count_from :: "nat \<Rightarrow> string \<Rightarrow> string \<Rightarrow> nat" where
  "count_from skip q [] = 0"
| "count_from (Suc k) q (c # s) = count_from k q s"
| "count_from 0 q (c # s) = (if starts_with (c # s) q then Suc (count_from (length q - 1) q s) else count_from 0 q s)"

definition Count :: "string \<Rightarrow> string \<Rightarrow> nat" where
  "Count s q = count_from 0 q s"

fun replace_first :: "string \<Rightarrow> string \<Rightarrow> string \<Rightarrow> string" where
  "replace_first q n [] = []"
| "replace_first q n (c # s) = (if starts_with (c # s) q then n @ drop (length q) (c # s) else c # replace_first q n s)"

lemma starts_with_iff: "starts_with s w \<longleftrightarrow> (\<exists>t. s = w @ t)"
  unfolding starts_with_def by (metis append_eq_conv_conj append_take_drop_id)

lemma contains_iff: "contains s q \<longleftrightarrow> (\<exists>a b. s = a @ q @ b)"
proof (induction s)
  case (Cons c s)
  have "(\<exists>a b. c # s = a @ q @ b) \<longleftrightarrow> (\<exists>b. c # s = q @ b) \<or> (\<exists>a b. s = a @ q @ b)"
    by (metis append_Cons append_Nil list.exhaust list.inject)
  with Cons show ?case by (simp add: starts_with_iff)
qed simp

text \<open>If a text occurs, replacing it once replaces its first occurrence.\<close>

lemma replace_first_at:
  assumes "contains s q" and "q \<noteq> []"
  shows "\<exists>a b. s = a @ q @ b \<and> replace_first q n s = a @ n @ b"
  using assms
proof (induction s)
  case (Cons c s)
  show ?case
  proof (cases "starts_with (c # s) q")
    case True
    then obtain b where b: "c # s = q @ b" by (auto simp: starts_with_iff)
    have "replace_first q n (c # s) = n @ drop (length q) (c # s)" using True by simp
    then have "replace_first q n (c # s) = n @ b" by (simp only: b) simp
    with b show ?thesis by (metis append_Nil)
  next
    case False
    with Cons obtain a b where "s = a @ q @ b" "replace_first q n s = a @ n @ b" by auto
    with False show ?thesis by (intro exI [of _ "c # a"] exI [of _ b]) simp
  qed
qed simp

lemma count_from_pos: "0 < count_from k q s \<Longrightarrow> contains s q"
  by (induction k q s rule: count_from.induct) (auto split: if_splits)

lemma Count_pos: "0 < Count s q \<Longrightarrow> contains s q"
  unfolding Count_def by (rule count_from_pos)

lemma scan_examples: "Count ''aaaa'' ''aa'' = 2" "replace_first ''b'' ''xy'' ''abcb'' = ''axycb''" "contains ''abc'' ''bc''" "contains ''abc'' []"
  by code_simp+

end
