(* ===== verification/Session.thy ===== *)
theory Session
  imports JsonRead GoTime GoScan
begin

text \<open>
  Package \<open>internal/storage\<close>, \<open>session.go\<close>: the conversations, one line of JSON per message in one file.
  The file is its bytes, or absent; other errors of the file system are left out. Reading goes through
  \<open>bufio.Scanner\<close> with its limit and \<open>json.Unmarshal\<close>, which takes whatever the file holds.
\<close>

section \<open>Writing\<close>

type_synonym model_message = "string \<times> string"

text \<open>A time is encoded if its year has four digits.\<close>

definition time_encodes :: "time \<Rightarrow> bool" where
  "time_encodes t \<longleftrightarrow> 0 \<le> year_of (seconds_of t div 86400) \<and> year_of (seconds_of t div 86400) \<le> 9999"

definition session_line :: "int \<Rightarrow> string \<Rightarrow> string \<Rightarrow> time \<Rightarrow> string" where
  "session_line chat role content now =
     json_struct [(''chat_id'', GoInt chat), (''role'', GoText role), (''content'', GoText content), (''at'', GoText (formatTime now))]"

definition file_text :: "string option \<Rightarrow> string" where
  "file_text f = (case f of None \<Rightarrow> [] | Some t \<Rightarrow> t)"

definition Append_session :: "int \<Rightarrow> string \<Rightarrow> string \<Rightarrow> time \<Rightarrow> string option \<Rightarrow> bool \<times> string option" where
  "Append_session chat role content now f =
     (if time_encodes now then (True, Some (file_text f @ session_line chat role content now @ [CHR 0x0A]))
      else (False, Some (file_text f)))"

section \<open>Reading\<close>

text \<open>\<open>bufio.ScanLines\<close> in a buffer of at most 1 MiB.\<close>

definition max_line :: nat where "max_line = 1048576"

definition scan_lines :: "string \<Rightarrow> string list \<times> bool" where
  "scan_lines s = scan_up_to max_line s"

text \<open>\<open>time.Time.UnmarshalJSON\<close> on the bytes between the quotes: strict RFC 3339.\<close>

definition uint_within :: "int \<Rightarrow> int \<Rightarrow> string \<Rightarrow> bool" where
  "uint_within lo hi s \<longleftrightarrow> list_all is_digit s \<and> lo \<le> undec s \<and> undec s \<le> hi"

definition days_in :: "int \<Rightarrow> int \<Rightarrow> int" where
  "days_in m y = month_lengths (is_leap y) ! nat (m - 1)"

definition zone_ok :: "string \<Rightarrow> bool" where
  "zone_ok z \<longleftrightarrow> z = ''Z'' \<or>
     length z = 6 \<and> (hd z = CHR ''-'' \<or> hd z = CHR ''+'') \<and> uint_within 0 23 (take 2 (drop 1 z)) \<and> z ! 3 = CHR '':'' \<and> uint_within 0 59 (drop 4 z)"

definition skip_fraction :: "string \<Rightarrow> string" where
  "skip_fraction s =
     (case s of
        c # d # r \<Rightarrow> if c = CHR ''.'' \<and> is_digit d then dropWhile is_digit r else s
      | _ \<Rightarrow> s)"

definition rfc3339_ok :: "string \<Rightarrow> bool" where
  "rfc3339_ok s \<longleftrightarrow>
     19 \<le> length s \<and> uint_within 0 9999 (take 4 s) \<and> uint_within 1 12 (take 2 (drop 5 s))
     \<and> uint_within 1 (days_in (undec (take 2 (drop 5 s))) (undec (take 4 s))) (take 2 (drop 8 s))
     \<and> uint_within 0 23 (take 2 (drop 11 s)) \<and> uint_within 0 59 (take 2 (drop 14 s)) \<and> uint_within 0 59 (take 2 (drop 17 s))
     \<and> s ! 4 = CHR ''-'' \<and> s ! 7 = CHR ''-'' \<and> s ! 10 = CHR ''T'' \<and> s ! 13 = CHR '':'' \<and> s ! 16 = CHR '':''
     \<and> zone_ok (skip_fraction (drop 19 s))"

text \<open>
  \<open>json.Unmarshal\<close> into a \<open>record\<close>: names match without case, the last one counts, \<open>null\<close> sets nothing, a value of another
  type is an error, other names are skipped. The time is only checked: nothing reads it.
\<close>

definition set_field :: "string \<times> json \<Rightarrow> int \<times> string \<times> string \<Rightarrow> (int \<times> string \<times> string) option" where
  "set_field kv r =
     (case (kv, r) of ((k, v), (chat, role, content)) \<Rightarrow>
        (let name = lower_ascii (unquote k) in
         if name \<notin> {''chat_id'', ''role'', ''content'', ''at''} \<or> v = JNull then Some r
         else if name = ''chat_id'' then (case v of JNum l \<Rightarrow> (case Atoi l of (n, ok) \<Rightarrow> if ok then Some (n, role, content) else None) | _ \<Rightarrow> None)
         else (case v of
                 JStr l \<Rightarrow>
                   if name = ''role'' then Some (chat, unquote l, content)
                   else if name = ''content'' then Some (chat, role, unquote l)
                   else if rfc3339_ok l then Some r else None
               | _ \<Rightarrow> None)))"

fun set_fields :: "(string \<times> json) list \<Rightarrow> int \<times> string \<times> string \<Rightarrow> (int \<times> string \<times> string) option" where
  "set_fields [] r = Some r"
| "set_fields (f # fs) r = (case set_field f r of None \<Rightarrow> None | Some r' \<Rightarrow> set_fields fs r')"

definition decode_session :: "string \<Rightarrow> (int \<times> string \<times> string) option" where
  "decode_session l =
     (case parse_document l of
        None \<Rightarrow> None
      | Some v \<Rightarrow> (case v of JNull \<Rightarrow> Some (0, [], []) | JObj ms \<Rightarrow> set_fields ms (0, [], []) | _ \<Rightarrow> None))"

definition message_in :: "int \<Rightarrow> string \<Rightarrow> model_message list" where
  "message_in chat l = (case decode_session l of None \<Rightarrow> [] | Some (c, role, content) \<Rightarrow> if c = chat then [(role, content)] else [])"

text \<open>The error is that a line did not fit.\<close>

definition Recent :: "int \<Rightarrow> nat \<Rightarrow> string option \<Rightarrow> model_message list \<times> bool" where
  "Recent chat limit f =
     (case f of
        None \<Rightarrow> ([], False)
      | Some t \<Rightarrow>
          (case scan_lines t of (ls, over) \<Rightarrow>
             (let everything = concat (map (message_in chat) ls) in (drop (length everything - limit) everything, over))))"

section \<open>Times read back\<close>

lemma pad_dec_digits: "list_all is_digit (pad_dec w n)"
  by (induction w arbitrary: n) (simp_all add: is_digit_digit)

lemma undec_pad: "undec (pad_dec w n) = int (n mod 10 ^ w)"
proof (induction w arbitrary: n)
  case (Suc w)
  have "undec (pad_dec (Suc w) n) = 10 * undec (pad_dec w (n div 10)) + int (n mod 10)" by simp
  also have "\<dots> = int (10 * (n div 10 mod 10 ^ w) + n mod 10)" by (simp add: Suc del: undec.simps)
  also have "10 * (n div 10 mod 10 ^ w) + n mod 10 = n mod 10 ^ Suc w" by (simp add: mod_mult2_eq)
  finally show ?case .
qed simp

lemma uint_pad: "lo \<le> n \<Longrightarrow> n \<le> hi \<Longrightarrow> 0 \<le> n \<Longrightarrow> n < 10 ^ w \<Longrightarrow> uint_within lo hi (pad_dec w (nat n)) \<and> undec (pad_dec w (nat n)) = n"
proof -
  assume n: "lo \<le> n" "n \<le> hi" "0 \<le> n" "n < 10 ^ w"
  have "nat n mod 10 ^ w = nat n" using n(3,4) by (simp add: nat_less_iff)
  with n show ?thesis using pad_dec_digits undec_pad [of w "nat n"] by (simp add: uint_within_def del: undec.simps)
qed

lemma month_day_within: "0 \<le> d \<Longrightarrow> d < sum_list ls \<Longrightarrow> month_day ls m d = (a, b) \<Longrightarrow> b \<le> ls ! nat (a - m)"
proof (induction ls arbitrary: m d)
  case (Cons l ls)
  show ?case
  proof (cases "d < l")
    case False
    with Cons have "b \<le> ls ! nat (a - (m + 1))" "m + 1 \<le> a"
      using month_day_range [of "d - l" ls "m + 1" a b] Cons.IH [of "d - l" "m + 1"] by auto
    moreover from this have "nat (a - m) = Suc (nat (a - (m + 1)))" by linarith
    ultimately show ?thesis by simp
  qed (use Cons in auto)
qed simp

lemma civil_day: "civil d = (y, m, k) \<Longrightarrow> k \<le> days_in m y"
  using month_day_within [of "year_day d" "month_lengths (is_leap (year_of d))" 1 m k] year_day_range [of d]
  by (auto simp: civil_def days_in_def month_lengths_facts split: prod.splits if_splits)

lemma fraction_skipped: "0 \<le> n \<Longrightarrow> n < 1000000000 \<Longrightarrow> skip_fraction (frac_text n @ ''Z'') = ''Z''"
proof -
  assume n: "0 \<le> n" "n < 1000000000"
  show ?thesis
  proof (cases "n = 0")
    case False
    have zero: "strip_zeros (pad_dec 9 0) = []" by code_simp
    have "strip_zeros (pad_dec 9 (nat n)) \<noteq> []"
    proof
      assume "strip_zeros (pad_dec 9 (nat n)) = []"
      then have "pad_dec 9 (nat n) = pad_dec 9 0" using zero by (metis length_pad_dec strip_zeros_pad)
      then have "nat n = 0" by (rule pad_dec_inj [rotated 2]) (use n in auto)
      with n False show False by simp
    qed
    then obtain d ds where d: "strip_zeros (pad_dec 9 (nat n)) = d # ds" by (cases "strip_zeros (pad_dec 9 (nat n))") auto
    have "set (strip_zeros s) \<subseteq> set s" for s using set_dropWhileD [of _ "\<lambda>c. c = CHR ''0''" "rev s"] by (auto simp: strip_zeros_def)
    then have "list_all is_digit (d # ds)" using pad_dec_digits [of 9 "nat n"] d by (metis list_all_iff subsetD)
    moreover have "dropWhile is_digit (ds @ ''Z'') = dropWhile is_digit ''Z''" if "list_all is_digit ds"
      using that by (auto simp: list_all_iff intro: dropWhile_append2)
    ultimately show ?thesis using False d by (simp add: frac_text_def skip_fraction_def is_digit_def)
  qed (simp add: frac_text_def skip_fraction_def)
qed

lemma formatTime_reads_back:
  assumes "in_range t"
  shows "time_encodes t \<and> rfc3339_ok (formatTime t)"
proof -
  define d where "d = seconds_of t div 86400"
  define k where "k = seconds_of t mod 86400"
  have t: "0 \<le> seconds_of t" "seconds_of t < 315537897600" using in_range_seconds [OF assms] by (simp_all add: max_seconds_def)
  then have d: "0 \<le> d" "d < 3652059" by (simp_all add: d_def)
  have k: "0 \<le> k" "k < 86400" by (simp_all add: k_def)
  have y: "1 \<le> year_of d" "year_of d \<le> 9999" using year_of_range [OF d] by simp_all
  obtain m j where c: "civil d = (year_of d, m, j)" "1 \<le> m" "m \<le> 12" "1 \<le> j" "j \<le> 31"
    using civil_range [of d] by (metis prod.collapse)
  have fields: "uint_within 0 9999 (pad_dec 4 (nat (year_of d))) \<and> undec (pad_dec 4 (nat (year_of d))) = year_of d"
    "uint_within 1 12 (pad_dec 2 (nat m)) \<and> undec (pad_dec 2 (nat m)) = m"
    "uint_within 1 (days_in m (year_of d)) (pad_dec 2 (nat j)) \<and> undec (pad_dec 2 (nat j)) = j"
    "uint_within 0 23 (pad_dec 2 (nat (k div 3600))) \<and> undec (pad_dec 2 (nat (k div 3600))) = k div 3600"
    "uint_within 0 59 (pad_dec 2 (nat (k div 60 mod 60))) \<and> undec (pad_dec 2 (nat (k div 60 mod 60))) = k div 60 mod 60"
    "uint_within 0 59 (pad_dec 2 (nat (k mod 60))) \<and> undec (pad_dec 2 (nat (k mod 60))) = k mod 60"
    by (rule uint_pad; use y c k civil_day [OF c(1)] in simp)+
  have "skip_fraction (frac_text (nanos_of t) @ ''Z'') = ''Z''" by (rule fraction_skipped) (simp_all add: nanos_range)
  moreover have "formatTime t = pad_dec 4 (nat (year_of d)) @ ''-'' @ pad_dec 2 (nat m) @ ''-'' @ pad_dec 2 (nat j) @ ''T''
      @ pad_dec 2 (nat (k div 3600)) @ '':'' @ pad_dec 2 (nat (k div 60 mod 60)) @ '':'' @ pad_dec 2 (nat (k mod 60)) @ frac_text (nanos_of t) @ ''Z''"
    using y c by (simp add: formatTime_def stamp_text_def date_text_def year_text_def clock_text_def d_def [symmetric] k_def [symmetric])
  ultimately have "rfc3339_ok (formatTime t)"
    using fields by (simp add: rfc3339_ok_def zone_ok_def nth_append del: undec.simps)
  with y show ?thesis by (simp add: time_encodes_def d_def)
qed

section \<open>Lines read back\<close>

lemma hex_visible: "is_hex h \<Longrightarrow> 32 \<le> (of_char h :: int)"
  by (auto simp: is_hex_def is_digit_def)

lemma escape_visible: "is_escape e \<Longrightarrow> 32 \<le> (of_char e :: int)"
  by (auto simp: is_escape_def)

lemma scan_string_step:
  assumes "scan_string (d # s) = Some (l, r)"
  obtains (stop) "d = CHR 0x22" "l = []" "r = s"
    | (short) e s' l' where "d = CHR 0x5C" "s = e # s'" "is_escape e" "scan_string s' = Some (l', r)" "l = d # e # l'"
    | (long) h1 h2 h3 h4 s' l' where "d = CHR 0x5C" "s = CHR ''u'' # h1 # h2 # h3 # h4 # s'" "is_hex h1" "is_hex h2" "is_hex h3" "is_hex h4"
        "scan_string s' = Some (l', r)" "l = d # CHR ''u'' # h1 # h2 # h3 # h4 # l'"
    | (plain) l' where "d \<noteq> CHR 0x22" "d \<noteq> CHR 0x5C" "32 \<le> (of_char d :: int)" "scan_string s = Some (l', r)" "l = d # l'"
proof -
  show ?thesis
  proof (cases "d = CHR 0x22 \<or> (of_char d :: int) < 32")
    case True
    with assms show ?thesis by (intro stop) (auto split: if_splits)
  next
    case low: False
    show ?thesis
    proof (cases "d = CHR 0x5C")
      case False
      with assms low show ?thesis by (auto intro!: plain)
    next
      case True
      with assms low obtain e s' where s: "s = e # s'" by (cases s) auto
      show ?thesis
      proof (cases "is_escape e")
        case e: True
        with assms True s show ?thesis by (auto intro!: short)
      next
        case False
        with assms True s have u: "e = CHR ''u''" by (auto split: if_splits)
        with assms True s False obtain h1 h2 h3 h4 t where "s' = h1 # h2 # h3 # h4 # t" "is_hex h1" "is_hex h2" "is_hex h3" "is_hex h4"
          by (auto split: list.splits if_splits)
        with assms True s u False show ?thesis by (auto intro!: long)
      qed
    qed
  qed
qed

lemma scan_string_chars: "scan_string x = Some (l, r) \<Longrightarrow> c \<in> set l \<Longrightarrow> 32 \<le> (of_char c :: int)"
proof (induction "length x" arbitrary: x l r rule: less_induct)
  case less
  obtain d s where x: "x = d # s" using less.prems(1) by (cases x) auto
  from less.prems(1) [unfolded x] show ?case
  proof (cases rule: scan_string_step)
    case (short e s' l')
    then show ?thesis using less.hyps [of s' l' r] less.prems(2) x escape_visible by auto
  next
    case (long h1 h2 h3 h4 s' l')
    then show ?thesis using less.hyps [of s' l' r] less.prems(2) x hex_visible by auto
  next
    case (plain l')
    then show ?thesis using less.hyps [of s l' r] less.prems(2) x by auto
  qed (use less.prems in simp)
qed

lemma escape_chars: "utf8_valid s \<Longrightarrow> c \<in> set (escape_json s) \<Longrightarrow> 32 \<le> (of_char c :: int)"
  using escape_scan [of s "[]"] scan_string_chars by blast

definition time_char :: "char \<Rightarrow> bool" where
  "time_char c \<longleftrightarrow> is_digit c \<or> c \<in> {CHR ''-'', CHR '':'', CHR ''T'', CHR ''.'', CHR ''Z''}"

lemma dec_time: "list_all time_char (dec n)"
  using dec_digits [of _ n] by (auto simp: list_all_iff time_char_def)

lemma pad_time: "list_all time_char (pad_dec w n)"
  using pad_dec_digits [of w n] by (auto simp: list_all_iff time_char_def)

lemma strip_time: "list_all time_char s \<Longrightarrow> list_all time_char (strip_zeros s)"
  using set_dropWhileD [of _ "\<lambda>c. c = CHR ''0''" "rev s"] by (auto simp: strip_zeros_def list_all_iff)

lemma format_time_chars: "list_all time_char (formatTime t)"
proof -
  have lits: "time_char CHR ''-''" "time_char CHR '':''" "time_char CHR ''T''" "time_char CHR ''.''" "time_char CHR ''Z''"
    by (simp_all add: time_char_def)
  have "list_all time_char (year_text y)" for y by (simp add: year_text_def pad_time dec_time lits)
  then show ?thesis
    by (simp add: formatTime_def stamp_text_def date_text_def clock_text_def frac_text_def pad_time strip_time lits case_prod_unfold Let_def)
qed

lemma time_char_code: "time_char c \<Longrightarrow> 45 \<le> (of_char c :: int) \<and> (of_char c :: int) \<le> 58 \<or> (of_char c :: int) = 84 \<or> (of_char c :: int) = 90"
  unfolding time_char_def is_digit_def by (elim disjE insertE emptyE conjE; simp)

lemma escape_plain: "list_all time_char s \<Longrightarrow> escape_json s = s \<and> utf8_valid s"
proof (induction s)
  case (Cons c s)
  then have n: "45 \<le> (of_char c :: int) \<and> (of_char c :: int) \<le> 58 \<or> (of_char c :: int) = 84 \<or> (of_char c :: int) = 90"
    by (intro time_char_code) simp
  then have "is_ascii c" by (auto simp: is_ascii_def)
  moreover from n have "c \<noteq> CHR 0x5C" "c \<noteq> CHR 0x22" "c \<noteq> CHR 0x08" "c \<noteq> CHR 0x0C" "c \<noteq> CHR 0x0A" "c \<noteq> CHR 0x0D" "c \<noteq> CHR 0x09"
    "c \<noteq> CHR ''<''" "c \<noteq> CHR ''>''" "c \<noteq> CHR ''&''" "\<not> (of_char c :: int) < 32" by auto
  then have "escape_ascii c = [c]" by (simp add: escape_ascii_def)
  moreover from \<open>is_ascii c\<close> have "rune_len (c # s) = 1" using rune_len_1 by blast
  ultimately show ?case using Cons by simp
qed simp

text \<open>A message that can be written: texts in UTF-8, a chat in int64, a time with a year of four digits.\<close>

definition writable :: "int \<times> string \<times> string \<times> time \<Rightarrow> bool" where
  "writable m \<longleftrightarrow> (case m of (chat, role, content, now) \<Rightarrow>
     min_int64 \<le> chat \<and> chat \<le> max_int64 \<and> utf8_valid role \<and> utf8_valid content \<and> in_range now)"

definition line_of :: "int \<times> string \<times> string \<times> time \<Rightarrow> string" where
  "line_of m = (case m of (chat, role, content, now) \<Rightarrow> session_line chat role content now)"

lemma decode_line: "writable (chat, role, content, now) \<Longrightarrow> decode_session (session_line chat role content now) = Some (chat, role, content)"
proof -
  assume w: "writable (chat, role, content, now)"
  have at: "escape_json (formatTime now) = formatTime now" "utf8_valid (formatTime now)" using escape_plain [OF format_time_chars] by simp_all
  have names: "unquote (escape_json ''chat_id'') = ''chat_id''" "unquote (escape_json ''role'') = ''role''"
    "unquote (escape_json ''content'') = ''content''" "unquote (escape_json ''at'') = ''at''"
    "utf8_valid ''chat_id''" "utf8_valid ''role''" "utf8_valid ''content''" "utf8_valid ''at''" by code_simp+
  have low: "lower_ascii ''chat_id'' = ''chat_id''" "lower_ascii ''role'' = ''role''" "lower_ascii ''content'' = ''content''"
    "lower_ascii ''at'' = ''at''" by code_simp+
  let ?fs = "[(''chat_id'', GoInt chat), (''role'', GoText role), (''content'', GoText content), (''at'', GoText (formatTime now))]"
  have doc: "parse_document (session_line chat role content now) = Some (JObj (map (\<lambda>(k, v). (escape_json k, field_value v)) ?fs))"
    unfolding session_line_def by (rule parse_struct) (use w at names in \<open>simp_all add: writable_def\<close>)
  have steps: "set_field (escape_json ''chat_id'', JNum (format_int chat)) r = Some (chat, snd r)"
    "set_field (escape_json ''role'', JStr (escape_json role)) r = Some (fst r, role, snd (snd r))"
    "set_field (escape_json ''content'', JStr (escape_json content)) r = Some (fst r, fst (snd r), content)"
    "set_field (escape_json ''at'', JStr (escape_json (formatTime now))) r = Some r" for r
    using w names low at formatTime_reads_back [of now] Atoi_format [of chat] escape_unquote
    by (simp_all add: set_field_def case_prod_unfold writable_def del: escape_json.simps)
  show ?thesis by (simp add: decode_session_def doc steps del: escape_json.simps)
qed

lemma line_chars: "writable m \<Longrightarrow> CHR 0x0A \<notin> set (line_of m) \<and> strip_cr (line_of m) = line_of m"
proof -
  assume w: "writable m"
  obtain chat role content now where m: "m = (chat, role, content, now)" by (cases m)
  have at: "escape_json (formatTime now) = formatTime now" "utf8_valid (formatTime now)" using escape_plain [OF format_time_chars] by simp_all
  have "CHR 0x0A \<notin> set (escape_json s)" if "utf8_valid s" for s using escape_chars [OF that, of "CHR 0x0A"] by auto
  moreover have "CHR 0x0A \<notin> set (format_int n)" for n using format_int_chars [of "CHR 0x0A" n] by (auto simp: is_digit_def)
  moreover have "utf8_valid ''chat_id''" "utf8_valid ''role''" "utf8_valid ''content''" "utf8_valid ''at''" by code_simp+
  ultimately have "CHR 0x0A \<notin> set (line_of m)"
    using w at(2) by (simp add: m line_of_def session_line_def json_struct_def json_quote_def writable_def del: escape_json.simps)
  moreover have "strip_cr (line_of m) = line_of m"
    by (simp add: m line_of_def session_line_def json_struct_def strip_cr_def)
  ultimately show ?thesis by blast
qed

section \<open>The theorems\<close>

definition write_all :: "(int \<times> string \<times> string \<times> time) list \<Rightarrow> string option" where
  "write_all es = fold (\<lambda>(chat, role, content, now) f. snd (Append_session chat role content now f)) es None"

lemma write_all_text: "\<forall>m \<in> set es. writable m \<Longrightarrow> file_text (write_all es) = concat (map (\<lambda>m. line_of m @ [CHR 0x0A]) es) \<and> (es = [] \<longleftrightarrow> write_all es = None)"
proof (induction es rule: rev_induct)
  case (snoc m es)
  obtain chat role content now where m: "m = (chat, role, content, now)" by (cases m)
  then have "time_encodes now" using snoc.prems formatTime_reads_back by (auto simp: writable_def)
  with snoc m show ?case by (simp add: write_all_def Append_session_def file_text_def line_of_def)
qed (simp add: write_all_def file_text_def)

lemma scan_line: "CHR 0x0A \<notin> set l \<Longrightarrow> scan_lines (l @ CHR 0x0A # t)
    = (if max_line \<le> length l then ([], True) else (strip_cr l # fst (scan_lines t), snd (scan_lines t)))"
proof -
  assume "CHR 0x0A \<notin> set l"
  then have "\<forall>c \<in> set l. c \<noteq> CHR 0x0A" by blast
  then have "takeWhile (\<lambda>c. c \<noteq> CHR 0x0A) (l @ CHR 0x0A # t) = l" "dropWhile (\<lambda>c. c \<noteq> CHR 0x0A) (l @ CHR 0x0A # t) = CHR 0x0A # t"
    by (simp_all add: takeWhile_append2 dropWhile_append2)
  then show ?thesis by (subst (1) scan_lines_def, subst scan_up_to.simps) (simp add: Let_def case_prod_unfold scan_lines_def)
qed

lemma scan_written:
  "\<forall>m \<in> set es. writable m \<and> length (line_of m) < max_line \<Longrightarrow>
   scan_lines (concat (map (\<lambda>m. line_of m @ [CHR 0x0A]) es) @ t) = (map line_of es @ fst (scan_lines t), snd (scan_lines t))"
proof (induction es)
  case (Cons m es)
  then show ?case using scan_line [of "line_of m"] line_chars [of m] by (simp add: not_less [symmetric])
qed simp

lemma scan_lines_Nil [simp]: "scan_lines [] = ([], False)"
  by (simp add: scan_lines_def scan_up_to.simps)

lemma recent_of_written:
  assumes "\<forall>m \<in> set es. writable m \<and> length (line_of m) < 1048576"
    and "mine = [(role, content). (c, role, content, now) \<leftarrow> es, c = chat]"
  shows "Recent chat limit (write_all es) = (drop (length mine - limit) mine, False)"
proof (cases "es = []")
  case True
  with assms(2) show ?thesis by (simp add: write_all_def Recent_def)
next
  case False
  have w: "\<forall>m \<in> set es. writable m" using assms(1) by blast
  then obtain t where t: "write_all es = Some t" using write_all_text [OF w] False by (cases "write_all es") auto
  then have "t = concat (map (\<lambda>m. line_of m @ [CHR 0x0A]) es)" using write_all_text [OF w] by (simp add: file_text_def)
  then have lines: "scan_lines t = (map line_of es, False)"
    using scan_written [of es "[]"] assms(1) by (simp add: max_line_def)
  have "concat (map (message_in chat) (map line_of es)) = mine"
    unfolding assms(2) using w
  proof (induction es)
    case (Cons m es)
    obtain c role content now where "m = (c, role, content, now)" by (cases m)
    with Cons show ?case by (simp add: message_in_def line_of_def decode_line)
  qed simp
  with t lines show ?thesis by (simp add: Recent_def Let_def)
qed

text \<open>
  C27: What was said is what is read: if messages of any chats were appended to the file, each with texts in
  UTF-8 and a line shorter than 1 MiB, then reading a chat gives its last messages, as many as asked
  for, in their order, with the role and the text they were written with.
\<close>

theorem session_round_trip:
  assumes "\<forall>m \<in> set es. writable m \<and> length (line_of m) < 1048576"
    and "mine = [(role, content). (c, role, content, now) \<leftarrow> es, c = chat]"
  shows "Recent chat limit (write_all es) = (drop (length mine - limit) mine, False)"
  using assms by (rule recent_of_written)

text \<open>
  C34: One line of 1 MiB or more ends the history: once such a message was written, reading any chat is an
  error and stops in front of it, whatever is appended later.
\<close>

theorem long_message_blocks_history:
  assumes "\<forall>m \<in> set (es @ m # es'). writable m" and "\<forall>m \<in> set es. length (line_of m) < 1048576" and "1048576 \<le> length (line_of m)"
  shows "snd (Recent chat limit (write_all (es @ m # es')))
    \<and> fst (Recent chat limit (write_all (es @ m # es'))) = fst (Recent chat limit (write_all es))"
proof -
  have w: "\<forall>m \<in> set es. writable m" "writable m" using assms(1) by simp_all
  obtain t where t: "write_all (es @ m # es') = Some t" using write_all_text [OF assms(1)] by (cases "write_all (es @ m # es')") auto
  then have "t = concat (map (\<lambda>m. line_of m @ [CHR 0x0A]) es) @ line_of m @ CHR 0x0A # concat (map (\<lambda>m. line_of m @ [CHR 0x0A]) es')"
    using write_all_text [OF assms(1)] by (simp add: file_text_def)
  moreover have "scan_lines (line_of m @ CHR 0x0A # u) = ([], True)" for u
    using scan_line [of "line_of m" u] line_chars [OF w(2)] assms(3) by (simp add: max_line_def)
  ultimately have lines: "scan_lines t = (map line_of es, True)"
    using scan_written [of es] w(1) assms(2) by (simp add: max_line_def)
  have before: "fst (Recent chat limit (write_all es)) = (let xs = concat (map (message_in chat) (map line_of es)) in drop (length xs - limit) xs)"
  proof (cases "write_all es")
    case None
    then show ?thesis using write_all_text [OF w(1)] by (simp add: Recent_def)
  next
    case (Some u)
    then have "u = concat (map (\<lambda>m. line_of m @ [CHR 0x0A]) es)" using write_all_text [OF w(1)] by (simp add: file_text_def)
    then have "scan_lines u = (map line_of es, False)" using scan_written [of es "[]"] w(1) assms(2) by (simp add: max_line_def)
    with Some show ?thesis by (simp add: Recent_def Let_def)
  qed
  with t lines show ?thesis by (simp add: Recent_def Let_def)
qed

definition demo_said :: "(int \<times> string \<times> string \<times> time) list" where
  "demo_said = [(7, ''user'', ''hello'', 0), (8, ''user'', ''other'', second), (7, ''assistant'', ''hi'', minute)]"

lemma demo_writable: "\<forall>m \<in> set demo_said. writable m \<and> length (line_of m) < 1048576"
proof -
  have "utf8_valid ''user''" "utf8_valid ''assistant''" "utf8_valid ''hello''" "utf8_valid ''other''" "utf8_valid ''hi''"
    "in_range 0" "in_range second" "in_range minute" "min_int64 \<le> 7" "7 \<le> max_int64" "min_int64 \<le> 8" "8 \<le> max_int64" by code_simp+
  moreover have "length (line_of (7, ''user'', ''hello'', 0)) = 73" by code_simp
  moreover have "length (line_of (8, ''user'', ''other'', second)) = 73" by code_simp
  moreover have "length (line_of (7, ''assistant'', ''hi'', minute)) = 75" by code_simp
  ultimately show ?thesis by (simp add: demo_said_def writable_def)
qed

lemma session_round_trip_witness: "Recent 7 20 (write_all demo_said) = ([(''user'', ''hello''), (''assistant'', ''hi'')], False)"
  using session_round_trip [OF demo_writable refl, of 7 20] by (simp add: demo_said_def)

definition demo_long :: "int \<times> string \<times> string \<times> time" where
  "demo_long = (7, ''user'', replicate 1048576 (CHR ''a''), 0)"

lemma long_message_blocks_history_witness: "snd (Recent 7 20 (write_all (demo_said @ demo_long # demo_said)))"
proof -
  have "utf8_valid (replicate n (CHR ''a'')) \<and> escape_json (replicate n (CHR ''a'')) = replicate n (CHR ''a'')" for n
  proof (induction n)
    case (Suc n)
    have "is_ascii CHR ''a''" "escape_ascii CHR ''a'' = ''a''" by code_simp+
    moreover have "rune_len (CHR ''a'' # s) = 1" for s using rune_len_1 [of "CHR ''a''" s] \<open>is_ascii CHR ''a''\<close> by simp
    ultimately show ?case using Suc by simp
  qed simp
  then have long: "utf8_valid (replicate 1048576 (CHR ''a''))" "length (escape_json (replicate 1048576 (CHR ''a''))) = 1048576" by simp_all
  have "utf8_valid ''user''" "min_int64 \<le> 7" "7 \<le> max_int64" "in_range 0" by code_simp+
  then have w: "writable demo_long" using long(1) by (simp add: writable_def demo_long_def)
  have "1048576 \<le> length (line_of demo_long)"
    by (simp add: demo_long_def line_of_def session_line_def json_struct_def json_quote_def long(2))
  then show ?thesis using long_message_blocks_history [of demo_said demo_long demo_said 7 20] w demo_writable by simp
qed

end
