(* ===== verification/SqlTable.thy ===== *)
theory SqlTable
  imports Prelude
begin

text \<open>
  The SQL the Go code sends to SQLite, statement by statement. A table is the list of its rows
  in rowid order. Each operation below is one statement form as the sources use it:
  \<open>UPDATE t SET f WHERE p\<close>, its \<open>RowsAffected\<close>, \<open>DELETE FROM t WHERE p\<close>,
  \<open>SELECT ... WHERE p\<close> of at most one row, \<open>SELECT ... ORDER BY ... LIMIT 1\<close>,
  \<open>EXISTS(SELECT ...)\<close>, and \<open>INSERT OR IGNORE\<close> into a table with a unique key.
  A transaction is modelled by where the caller puts the new tables: an early return keeps
  the old ones, which is \<open>defer tx.Rollback()\<close>.
\<close>

section \<open>Statements\<close>

definition update_where :: "('r \<Rightarrow> bool) \<Rightarrow> ('r \<Rightarrow> 'r) \<Rightarrow> 'r list \<Rightarrow> 'r list" where
  "update_where p f rows = map (\<lambda>r. if p r then f r else r) rows"

definition rows_affected :: "('r \<Rightarrow> bool) \<Rightarrow> 'r list \<Rightarrow> nat" where
  "rows_affected p rows = length (filter p rows)"

definition delete_where :: "('r \<Rightarrow> bool) \<Rightarrow> 'r list \<Rightarrow> 'r list" where
  "delete_where p rows = filter (\<lambda>r. \<not> p r) rows"

definition exists_where :: "('r \<Rightarrow> bool) \<Rightarrow> 'r list \<Rightarrow> bool" where
  "exists_where p rows = list_ex p rows"

definition select_one :: "('r \<Rightarrow> bool) \<Rightarrow> 'r list \<Rightarrow> 'r option" where
  "select_one p rows = find p rows"

fun first_by :: "('r \<Rightarrow> 'r \<Rightarrow> bool) \<Rightarrow> 'r list \<Rightarrow> 'r option" where
  "first_by le [] = None"
| "first_by le (x # xs) =
     (case first_by le xs of None \<Rightarrow> Some x | Some y \<Rightarrow> if le x y then Some x else Some y)"

text \<open>
  \<open>INSERT OR IGNORE\<close>: a row whose key is already present is dropped and no row is
  affected. The boolean is \<open>RowsAffected() == 1\<close>.
\<close>

definition insert_or_ignore :: "('r \<Rightarrow> 'k) \<Rightarrow> 'r \<Rightarrow> 'r list \<Rightarrow> 'r list \<times> bool" where
  "insert_or_ignore key r rows =
     (if exists_where (\<lambda>q. key q = key r) rows then (rows, False) else (rows @ [r], True))"

section \<open>What a statement does to the set of rows\<close>

lemma exists_where_iff [simp]: "exists_where p rows \<longleftrightarrow> (\<exists>r \<in> set rows. p r)"
  by (simp add: exists_where_def list_ex_iff)

lemma set_update_where:
  "r \<in> set (update_where p f rows) \<longleftrightarrow> (\<exists>q \<in> set rows. r = (if p q then f q else q))"
  by (auto simp: update_where_def)

lemma update_whereE:
  assumes "r \<in> set (update_where p f rows)"
  obtains (kept) "r \<in> set rows" and "\<not> p r" | (changed) q where "q \<in> set rows" and "p q" and "r = f q"
  using assms by (auto simp: set_update_where split: if_splits)

lemma set_delete_where [simp]: "r \<in> set (delete_where p rows) \<longleftrightarrow> r \<in> set rows \<and> \<not> p r"
  by (simp add: delete_where_def)

lemma length_update_where [simp]: "length (update_where p f rows) = length rows"
  by (simp add: update_where_def)

lemma update_where_Nil [simp]: "update_where p f [] = []"
  by (simp add: update_where_def)

lemma rows_affected_zero: "rows_affected p rows = 0 \<longleftrightarrow> (\<forall>r \<in> set rows. \<not> p r)"
  by (auto simp: rows_affected_def filter_empty_conv)

lemma update_where_cong:
  "(\<And>q. q \<in> set rows \<Longrightarrow> p q = p' q) \<Longrightarrow> update_where p f rows = update_where p' f rows"
  by (simp add: update_where_def)

lemma update_where_none:
  assumes "\<And>r. r \<in> set rows \<Longrightarrow> \<not> p r"
  shows "update_where p f rows = rows"
  using assms by (induction rows) (auto simp: update_where_def)

lemma update_whereD:
  assumes "r \<in> set (update_where p f rows)" and "\<And>q. \<not> p (f q)"
  shows "\<not> p r"
  using assms(1) by (cases rule: update_whereE) (use assms(2) in simp_all)

lemma rows_affected_oneD:
  assumes "rows_affected p rows = 1"
  shows "\<exists>r \<in> set rows. p r"
  using assms rows_affected_zero [of p rows] by auto

lemma rows_affected_distinct:
  assumes "distinct (map key rows)" and "r \<in> set rows"
    and "p r" and "\<And>q. q \<in> set rows \<Longrightarrow> p q \<Longrightarrow> key q = key r"
  shows "rows_affected p rows = 1"
proof -
  have only: "q = r" if "q \<in> set rows" and "p q" for q
    using distinct_map_eq [OF assms(1) that(1) assms(2) assms(4) [OF that]] .
  have "q \<in> set (filter p rows) \<longleftrightarrow> q \<in> {r}" for q
    using only [of q] assms(2,3) by (cases "q = r") auto
  then have "set (filter p rows) = {r}" by (rule set_eqI)
  then have "card {r} = card (set (filter p rows))" by simp
  also have "\<dots> = length (filter p rows)"
    by (rule distinct_card) (use assms(1) in \<open>simp add: distinct_map\<close>)
  finally have "length (filter p rows) = 1" by simp
  then show ?thesis by (simp add: rows_affected_def)
qed

section \<open>Keys\<close>

lemma map_update_where:
  assumes "\<And>r. p r \<Longrightarrow> key (f r) = key r"
  shows "map key (update_where p f rows) = map key rows"
  using assms by (simp add: update_where_def)

lemma update_where_keyed:
  "(\<And>r. p r \<Longrightarrow> key (f r) = key r) \<Longrightarrow>
   distinct (map key (update_where p f rows)) = distinct (map key rows)"
  by (simp add: map_update_where)

lemma delete_where_keyed [intro]:
  "distinct (map key rows) \<Longrightarrow> distinct (map key (delete_where p rows))"
  by (auto simp: delete_where_def)

lemma insert_or_ignore_keyed:
  "distinct (map key rows) \<Longrightarrow> distinct (map key (fst (insert_or_ignore key r rows)))"
  by (auto simp: insert_or_ignore_def)

lemma insert_or_ignore_set:
  "set (fst (insert_or_ignore key r rows)) =
     (if snd (insert_or_ignore key r rows) then insert r (set rows) else set rows)"
  by (auto simp: insert_or_ignore_def)

lemma insert_or_ignore_fresh:
  "snd (insert_or_ignore key r rows) \<longleftrightarrow> key r \<notin> key ` set rows"
  by (simp add: insert_or_ignore_def image_iff Bex_def eq_commute)

lemma select_oneD: "select_one p rows = Some r \<Longrightarrow> r \<in> set rows \<and> p r"
  by (simp add: select_one_def find_SomeD)

lemma select_one_None: "select_one p rows = None \<longleftrightarrow> (\<forall>r \<in> set rows. \<not> p r)"
  by (auto simp: select_one_def find_None_iff)

lemma select_one_key:
  "distinct (map key rows) \<Longrightarrow> r \<in> set rows \<Longrightarrow>
   select_one (\<lambda>q. key q = key r) rows = Some r"
  by (simp add: select_one_def find_unique)

lemma select_one_update:
  assumes "\<And>r. p r \<Longrightarrow> key (f r) = key r"
  shows "select_one (\<lambda>q. key q = k) (update_where p f rows) =
         map_option (\<lambda>r. if p r then f r else r) (select_one (\<lambda>q. key q = k) rows)"
  using assms by (induction rows) (auto simp: update_where_def select_one_def)

lemma select_one_append:
  "select_one p (rows @ qs) =
     (case select_one p rows of None \<Rightarrow> select_one p qs | Some r \<Rightarrow> Some r)"
  by (induction rows) (auto simp: select_one_def)

section \<open>Weights of tables\<close>

text \<open>A table as a measure: an update that lowers the weight of the rows it touches.\<close>

lemma weight_update_le:
  assumes "\<And>q. q \<in> set rows \<Longrightarrow> p q \<Longrightarrow> (w (f q) :: nat) \<le> w q"
  shows "sum_list (map w (update_where p f rows)) \<le> sum_list (map w rows)"
  using assms by (induction rows) (auto simp: update_where_def intro: add_mono)

lemma weight_update_less:
  assumes "\<And>q. q \<in> set rows \<Longrightarrow> p q \<Longrightarrow> (w (f q) :: nat) < w q" and "r \<in> set rows" and "p r"
  shows "sum_list (map w (update_where p f rows)) < sum_list (map w rows)"
  using assms
proof (induction rows)
  case (Cons q rows)
  have le: "sum_list (map w (update_where p f rows)) \<le> sum_list (map w rows)"
    by (rule weight_update_le) (use Cons.prems(1) in \<open>auto intro: less_imp_le\<close>)
  show ?case
  proof (cases "p q")
    case True
    then have "w (f q) < w q" using Cons.prems(1) by simp
    with le True show ?thesis by (simp add: update_where_def)
  next
    case False
    then have "r \<in> set rows" using Cons.prems(2,3) by auto
    with Cons False show ?thesis by (simp add: update_where_def)
  qed
qed simp

section \<open>ORDER BY with LIMIT 1\<close>

lemma first_by_in: "first_by le rows = Some r \<Longrightarrow> r \<in> set rows"
  by (induction rows arbitrary: r) (auto split: option.splits if_splits)

lemma first_by_None [simp]: "first_by le rows = None \<longleftrightarrow> rows = []"
  by (cases rows) (auto split: option.splits)

text \<open>
  The order of an \<open>ORDER BY\<close> clause is total and transitive; that is all the selection of
  the first row relies on.
\<close>

locale row_order =
  fixes le :: "'r \<Rightarrow> 'r \<Rightarrow> bool"
  assumes le_total: "le x y \<or> le y x"
    and le_trans: "le x y \<Longrightarrow> le y z \<Longrightarrow> le x z"
begin

lemma le_refl: "le x x"
  using le_total by blast

lemma first_by_least: "first_by le rows = Some r \<Longrightarrow> q \<in> set rows \<Longrightarrow> le r q"
proof (induction rows arbitrary: r q)
  case (Cons x xs)
  show ?case
  proof (cases "first_by le xs")
    case None
    with Cons.prems show ?thesis by (simp add: le_refl)
  next
    case (Some y)
    with Cons.prems have r: "r = (if le x y then x else y)" by (simp split: if_splits)
    show ?thesis
    proof (cases "q = x")
      case True
      with r show ?thesis using le_total [of x y] by (cases "le x y") (simp_all add: le_refl)
    next
      case False
      with Cons.prems Some have "le y q" using Cons.IH by simp
      with r show ?thesis using le_trans [of x y q] by (cases "le x y") simp_all
    qed
  qed
qed simp

end

end
