(* ===== verification/Memory.thy ===== *)
theory Memory
  imports SqlTable GoText GoStr
begin

text \<open>
  Package \<open>internal/memory\<close>: what the assistant remembers. A text becomes a candidate, an approved candidate
  becomes an item with an entry in the full-text index. The tables are lists of rows, the ids of
  \<open>AUTOINCREMENT\<close> are counters, and the index of FTS5, whose content is the table of items, is the list of
  the rowids and texts it was told. What FTS5 answers to a query is an argument, and so are the clock and
  the text of a finite float in JSON.
\<close>

section \<open>Tables\<close>

datatype candidate_state = Candidate_Pending | Candidate_Approved

record candidate_row =
  cd_id :: int
  cd_content :: string
  cd_source :: string
  cd_confidence :: float64
  cd_expires :: "time option"
  cd_state :: candidate_state
  cd_created :: time

record item_row =
  it_id :: int
  it_content :: string
  it_source :: string
  it_confidence :: float64
  it_expires :: "time option"
  it_created :: time

record memory_db =
  md_candidates :: "candidate_row list"
  md_items :: "item_row list"
  md_links :: "(int \<times> string \<times> string) list"
  md_index :: "(int \<times> string) list"
  md_candidate_seq :: int
  md_item_seq :: int

record memory_item =
  mi_id :: int
  mi_content :: string
  mi_source :: string
  mi_confidence :: float64
  mi_created :: string

datatype memory_error = EmptyMemory | SecretDenied | ConfidenceMissing | NoSuchCandidate | QueryError string | Unencodable

definition no_memory :: memory_db where
  "no_memory = \<lparr>md_candidates = [], md_items = [], md_links = [], md_index = [], md_candidate_seq = 0, md_item_seq = 0\<rparr>"

section \<open>Texts that look like a secret\<close>

text \<open>
  The regular expression of \<open>secret\<close>, without case: a letter matches both cases, \<open>k\<close> also the Kelvin sign
  and \<open>s\<close> also the long s. Matchers take a text and return what is left after a match at its front.
\<close>

definition eat_letter :: "char \<Rightarrow> string \<Rightarrow> string option" where
  "eat_letter l s =
     (case s of
        [] \<Rightarrow> None
      | c # r \<Rightarrow>
          if lower_char c = l then Some r
          else if l = CHR ''s'' \<and> starts_with s [CHR 0xC5, CHR 0xBF] then Some (drop 2 s)
          else if l = CHR ''k'' \<and> starts_with s [CHR 0xE2, CHR 0x84, CHR 0xAA] then Some (drop 3 s)
          else None)"

fun eat_word :: "string \<Rightarrow> string \<Rightarrow> string option" where
  "eat_word [] s = Some s"
| "eat_word (l # ls) s = (case eat_letter l s of None \<Rightarrow> None | Some r \<Rightarrow> eat_word ls r)"

definition regexp_space :: "char \<Rightarrow> bool" where
  "regexp_space c \<longleftrightarrow> c \<in> {CHR 0x09, CHR 0x0A, CHR 0x0C, CHR 0x0D, CHR '' ''}"

text \<open>\<open>\s*[:=]\s*\S+\<close>\<close>

definition assigned :: "string \<Rightarrow> bool" where
  "assigned s =
     (case dropWhile regexp_space s of
        [] \<Rightarrow> False
      | c # r \<Rightarrow> (c = CHR '':'' \<or> c = CHR ''='') \<and> dropWhile regexp_space r \<noteq> [])"

definition eat_api_key :: "string \<Rightarrow> string option" where
  "eat_api_key s =
     (case eat_word ''api'' s of
        None \<Rightarrow> None
      | Some [] \<Rightarrow> None
      | Some (c # r) \<Rightarrow> eat_word ''key'' (if c \<in> {CHR ''_'', CHR '' '', CHR ''-''} then r else c # r))"

definition is_alnum :: "char \<Rightarrow> bool" where
  "is_alnum c \<longleftrightarrow> is_digit c \<or> in_bytes 97 122 (lower_char c)"

text \<open>\<open>[A-Za-z0-9_-]{n}\<close>\<close>

fun eat_token :: "nat \<Rightarrow> string \<Rightarrow> bool" where
  "eat_token 0 s = True"
| "eat_token (Suc n) [] = False"
| "eat_token (Suc n) (c # r) =
     (if is_alnum c \<or> c = CHR ''_'' \<or> c = CHR ''-'' then eat_token n r
      else (case eat_letter (CHR ''s'') (c # r) of
              Some r' \<Rightarrow> eat_token n r'
            | None \<Rightarrow> (case eat_letter (CHR ''k'') (c # r) of Some r' \<Rightarrow> eat_token n r' | None \<Rightarrow> False)))"

definition secret_here :: "string \<Rightarrow> bool" where
  "secret_here s \<longleftrightarrow>
     list_ex (\<lambda>m. case m of None \<Rightarrow> False | Some r \<Rightarrow> assigned r)
       [eat_api_key s, eat_word ''token'' s, eat_word ''password'' s, eat_word ''secret'' s]
     \<or> (case eat_word ''sk'' s of Some (CHR ''-'' # r) \<Rightarrow> eat_token 12 r | _ \<Rightarrow> False)"

fun secret_like :: "string \<Rightarrow> bool" where
  "secret_like [] = False"
| "secret_like (c # s) = (secret_here (c # s) \<or> secret_like s)"

lemma secret_examples:
  "secret_like ''my api_key=x'' \<and> secret_like ''ApiKey :  1'' \<and> secret_like ''the TOKEN = abc'' \<and> secret_like ''sk-abcdefABC_-9''
   \<and> \<not> secret_like ''a token of thanks'' \<and> \<not> secret_like ''secret= '' \<and> \<not> secret_like ''sk-short'' \<and> secret_like (CHR 0xC5 # CHR 0xBF # ''ecret:a'')"
  by code_simp

section \<open>Operations\<close>

definition Candidate ::
  "string \<Rightarrow> string \<Rightarrow> float64 \<Rightarrow> time option \<Rightarrow> time \<Rightarrow> memory_db \<Rightarrow> (memory_error, int) result \<times> memory_db" where
  "Candidate content source confidence expires now db =
     (let c = trim_space content; i = md_candidate_seq db + 1 in
      if c = [] then (Inl EmptyMemory, db)
      else if secret_like c then (Inl SecretDenied, db)
      else if is_nan confidence then (Inl ConfidenceMissing, db)
      else (Inr i, db\<lparr>md_candidates := md_candidates db @ [\<lparr>cd_id = i, cd_content = c, cd_source = source, cd_confidence = confidence,
                        cd_expires = expires, cd_state = Candidate_Pending, cd_created = now\<rparr>], md_candidate_seq := i\<rparr>))"

definition item_of :: "int \<Rightarrow> time \<Rightarrow> candidate_row \<Rightarrow> item_row" where
  "item_of i now c = \<lparr>it_id = i, it_content = cd_content c, it_source = cd_source c, it_confidence = cd_confidence c,
     it_expires = cd_expires c, it_created = now\<rparr>"

definition Approve_memory :: "int \<Rightarrow> time \<Rightarrow> memory_db \<Rightarrow> (memory_error, int) result \<times> memory_db" where
  "Approve_memory k now db =
     (case select_one (\<lambda>c. cd_id c = k \<and> cd_state c = Candidate_Pending) (md_candidates db) of
        None \<Rightarrow> (Inl NoSuchCandidate, db)
      | Some c \<Rightarrow>
          (let i = md_item_seq db + 1 in
           (Inr i, db\<lparr>md_items := md_items db @ [item_of i now c], md_item_seq := i, md_index := md_index db @ [(i, cd_content c)],
                      md_candidates := update_where (\<lambda>r. cd_id r = k) (\<lambda>r. r\<lparr>cd_state := Candidate_Approved\<rparr>) (md_candidates db)\<rparr>)))"

definition Remember :: "string \<Rightarrow> time \<Rightarrow> time \<Rightarrow> memory_db \<Rightarrow> (memory_error, int) result \<times> memory_db" where
  "Remember content now now' db =
     (case Candidate content ''telegram:explicit'' (Finite 1) None now db of
        (Inl e, db1) \<Rightarrow> (Inl e, db1)
      | (Inr k, db1) \<Rightarrow> Approve_memory k now' db1)"

definition memory_item_of :: "item_row \<Rightarrow> memory_item" where
  "memory_item_of r = \<lparr>mi_id = it_id r, mi_content = it_content r, mi_source = it_source r, mi_confidence = it_confidence r,
     mi_created = formatTime (it_created r)\<rparr>"

text \<open>\<open>expires_at IS NULL OR expires_at>?\<close>, on texts.\<close>

definition unexpired :: "time \<Rightarrow> item_row \<Rightarrow> bool" where
  "unexpired now r = (case it_expires r of None \<Rightarrow> True | Some t \<Rightarrow> \<not> sql_le t now)"

definition search_limit :: "int \<Rightarrow> nat" where
  "search_limit n = nat (if n \<le> 0 \<or> n > 50 then 20 else n)"

text \<open>The join keeps, in the order of rank, the rows of the index that have a live item.\<close>

definition Search_memory ::
  "(string \<Rightarrow> (int \<times> string) list \<Rightarrow> (string, int list) result) \<Rightarrow> string \<Rightarrow> int \<Rightarrow> time \<Rightarrow> memory_db \<Rightarrow> (memory_error, memory_item list) result" where
  "Search_memory fts q limit now db =
     (case fts q (md_index db) of
        Inl e \<Rightarrow> Inl (QueryError e)
      | Inr ids \<Rightarrow>
          Inr (take (search_limit limit)
            (concat (map (\<lambda>i. map memory_item_of (filter (\<lambda>r. it_id r = i \<and> unexpired now r) (md_items db))) ids))))"

text \<open>\<open>'delete'\<close> tells the index the text it has for the rowid.\<close>

definition Forget :: "int \<Rightarrow> memory_db \<Rightarrow> memory_db" where
  "Forget k db =
     (let gone = map (\<lambda>r. (it_id r, it_content r)) (filter (\<lambda>r. it_id r = k) (md_items db)) in
      db\<lparr>md_index := filter (\<lambda>e. e \<notin> set gone) (md_index db),
         md_links := delete_where (\<lambda>l. fst l = k) (md_links db),
         md_items := delete_where (\<lambda>r. it_id r = k) (md_items db)\<rparr>)"

definition newline :: string where "newline = [CHR 0x0A]"

text \<open>\<open>json.MarshalIndent\<close> of one item, at its depth.\<close>

definition item_json :: "(rat \<Rightarrow> string) \<Rightarrow> memory_item \<Rightarrow> string option" where
  "item_json fm x =
     (case mi_confidence x of
        Finite f \<Rightarrow>
          Some (''  {'' @ newline
            @ ''    '' @ json_quote ''id'' @ '': '' @ format_int (mi_id x) @ '','' @ newline
            @ ''    '' @ json_quote ''Content'' @ '': '' @ json_quote (mi_content x) @ '','' @ newline
            @ ''    '' @ json_quote ''Source'' @ '': '' @ json_quote (mi_source x) @ '','' @ newline
            @ ''    '' @ json_quote ''Confidence'' @ '': '' @ fm f @ '','' @ newline
            @ ''    '' @ json_quote ''Created'' @ '': '' @ json_quote (mi_created x) @ newline @ ''  }'')
      | _ \<Rightarrow> None)"

fun items_json :: "(rat \<Rightarrow> string) \<Rightarrow> memory_item list \<Rightarrow> string option" where
  "items_json fm [] = Some []"
| "items_json fm [x] = map_option (\<lambda>j. j @ newline) (item_json fm x)"
| "items_json fm (x # y # xs) =
     (case item_json fm x of
        None \<Rightarrow> None
      | Some j \<Rightarrow> map_option (\<lambda>r. j @ '','' @ newline @ r) (items_json fm (y # xs)))"

definition Export_memory :: "(rat \<Rightarrow> string) \<Rightarrow> memory_db \<Rightarrow> (memory_error, string) result" where
  "Export_memory fm db =
     (if md_items db = [] then Inr ''null''
      else case items_json fm (map memory_item_of (sort_key it_id (md_items db))) of
        None \<Rightarrow> Inl Unencodable
      | Some j \<Rightarrow> Inr (''['' @ newline @ j @ '']''))"

section \<open>Histories\<close>

datatype memory_op =
    OpCandidate string string float64 "time option" time
  | OpApprove int time
  | OpRemember string time time
  | OpForget int

fun memory_step :: "memory_op \<Rightarrow> memory_db \<Rightarrow> memory_db" where
  "memory_step (OpCandidate c src conf ex now) db = snd (Candidate c src conf ex now db)"
| "memory_step (OpApprove k now) db = snd (Approve_memory k now db)"
| "memory_step (OpRemember c now now') db = snd (Remember c now now' db)"
| "memory_step (OpForget k) db = Forget k db"

definition memory_run :: "memory_op list \<Rightarrow> memory_db" where
  "memory_run es = fold memory_step es no_memory"

section \<open>The invariant\<close>

text \<open>A text that may be kept, and the candidate an item comes from.\<close>

definition keepable :: "string \<Rightarrow> bool" where
  "keepable c \<longleftrightarrow> c \<noteq> [] \<and> \<not> secret_like c"

definition stems_from :: "item_row \<Rightarrow> candidate_row \<Rightarrow> bool" where
  "stems_from r c \<longleftrightarrow> cd_state c = Candidate_Approved \<and> it_content r = cd_content c \<and> it_source r = cd_source c
     \<and> it_confidence r = cd_confidence c \<and> it_expires r = cd_expires c"

definition memory_inv :: "memory_db \<Rightarrow> bool" where
  "memory_inv db \<longleftrightarrow> distinct (map it_id (md_items db)) \<and> (\<forall>r \<in> set (md_items db). 1 \<le> it_id r \<and> it_id r \<le> md_item_seq db)
     \<and> md_index db = map (\<lambda>r. (it_id r, it_content r)) (md_items db)
     \<and> distinct (map cd_id (md_candidates db)) \<and> (\<forall>c \<in> set (md_candidates db). cd_id c \<le> md_candidate_seq db \<and> keepable (cd_content c))
     \<and> (\<forall>r \<in> set (md_items db). \<exists>c \<in> set (md_candidates db). stems_from r c)
     \<and> md_item_seq db = int (length (filter (\<lambda>c. cd_state c = Candidate_Approved) (md_candidates db)))"

lemma memory_inv_empty: "memory_inv no_memory"
  by (simp add: memory_inv_def no_memory_def)

lemma Candidate_keeps: "memory_inv db \<Longrightarrow> memory_inv (snd (Candidate c src conf ex now db))"
  by (fastforce simp: memory_inv_def Candidate_def Let_def keepable_def)

lemma approved_update:
  "distinct (map cd_id cs) \<Longrightarrow> c \<in> set cs \<Longrightarrow> cd_state c = Candidate_Pending \<Longrightarrow>
   length (filter (\<lambda>c. cd_state c = Candidate_Approved) (update_where (\<lambda>r. cd_id r = cd_id c) (\<lambda>r. r\<lparr>cd_state := Candidate_Approved\<rparr>) cs))
     = Suc (length (filter (\<lambda>c. cd_state c = Candidate_Approved) cs))"
proof (induction cs)
  case (Cons d cs)
  show ?case
  proof (cases "cd_id d = cd_id c")
    case True
    then have "d = c" and "cd_id c \<notin> cd_id ` set cs" using Cons.prems by (auto simp: image_iff)
    then have "\<not> cd_id x = cd_id c" if "x \<in> set cs" for x using that by (metis imageI)
    then have "update_where (\<lambda>r. cd_id r = cd_id c) (\<lambda>r. r\<lparr>cd_state := Candidate_Approved\<rparr>) cs = cs" by (intro update_where_none) simp
    with \<open>d = c\<close> Cons.prems(3) show ?thesis by (simp add: update_where_def)
  next
    case False
    with Cons show ?thesis by (auto simp: update_where_def)
  qed
qed simp

lemma Approve_keeps:
  assumes inv: "memory_inv db"
  shows "memory_inv (snd (Approve_memory k now db))"
proof (cases "select_one (\<lambda>c. cd_id c = k \<and> cd_state c = Candidate_Pending) (md_candidates db)")
  case None
  with inv show ?thesis by (simp add: Approve_memory_def)
next
  case (Some c)
  note c = select_oneD [OF Some]
  let ?cs = "update_where (\<lambda>r. cd_id r = k) (\<lambda>r. r\<lparr>cd_state := Candidate_Approved\<rparr>) (md_candidates db)"
  have dist: "distinct (map cd_id (md_candidates db))" using inv by (simp add: memory_inv_def)
  have ids: "map cd_id ?cs = map cd_id (md_candidates db)" "map cd_content ?cs = map cd_content (md_candidates db)"
    by (rule map_update_where; simp)+
  have approved: "length (filter (\<lambda>c. cd_state c = Candidate_Approved) ?cs)
      = Suc (length (filter (\<lambda>c. cd_state c = Candidate_Approved) (md_candidates db)))"
    using approved_update [OF dist, of c] c by simp
  have keep: "cd_id x \<le> md_candidate_seq db \<and> keepable (cd_content x)" if x: "x \<in> set ?cs" for x
    using x by (cases rule: update_whereE) (use inv in \<open>auto simp: memory_inv_def\<close>)
  have stems: "\<exists>y \<in> set ?cs. stems_from r y" if r: "r \<in> set (md_items db)" for r
  proof -
    obtain y where y: "y \<in> set (md_candidates db)" "stems_from r y" using inv r by (auto simp: memory_inv_def)
    then have "y\<lparr>cd_state := Candidate_Approved\<rparr> = y" by (simp add: stems_from_def)
    then have "y \<in> set ?cs" using y(1) by (auto simp: set_update_where intro!: bexI [of _ y])
    with y(2) show ?thesis by blast
  qed
  have new: "\<exists>y \<in> set ?cs. stems_from (item_of i now c) y" for i
  proof -
    have "c\<lparr>cd_state := Candidate_Approved\<rparr> \<in> set ?cs" using c by (auto simp: set_update_where)
    then show ?thesis by (rule bexI [rotated]) (simp add: stems_from_def item_of_def)
  qed
  have fresh: "it_id r \<noteq> md_item_seq db + 1" if "r \<in> set (md_items db)" for r using inv that by (fastforce simp: memory_inv_def)
  show ?thesis
    unfolding Approve_memory_def Some Let_def
    using inv keep stems new fresh approved ids(1) by (auto simp: memory_inv_def item_of_def)
qed

lemma Remember_keeps: "memory_inv db \<Longrightarrow> memory_inv (snd (Remember c now now' db))"
  using Candidate_keeps [of db c "''telegram:explicit''" "Finite 1" None now] Approve_keeps
  by (auto simp: Remember_def split: prod.split sum.split)

lemma Forget_index:
  assumes "memory_inv db"
  shows "md_index (Forget k db) = map (\<lambda>r. (it_id r, it_content r)) (filter (\<lambda>r. it_id r \<noteq> k) (md_items db))"
proof -
  have "(it_id r, it_content r) \<in> (\<lambda>r. (it_id r, it_content r)) ` {x \<in> set (md_items db). it_id x = k} \<longleftrightarrow> it_id r = k"
    if "r \<in> set (md_items db)" for r using that by force
  then have "filter (\<lambda>r. (it_id r, it_content r) \<notin> (\<lambda>r. (it_id r, it_content r)) ` {x \<in> set (md_items db). it_id x = k}) (md_items db)
      = filter (\<lambda>r. it_id r \<noteq> k) (md_items db)" by (intro filter_cong) simp_all
  with assms show ?thesis by (simp add: Forget_def Let_def memory_inv_def filter_map comp_def)
qed

lemma Forget_keeps:
  assumes "memory_inv db"
  shows "memory_inv (Forget k db)"
proof -
  have "md_items (Forget k db) = filter (\<lambda>r. it_id r \<noteq> k) (md_items db)" "md_candidates (Forget k db) = md_candidates db"
    "md_item_seq (Forget k db) = md_item_seq db" "md_candidate_seq (Forget k db) = md_candidate_seq db"
    by (simp_all add: Forget_def Let_def delete_where_def)
  with assms Forget_index [OF assms, of k] show ?thesis by (auto simp: memory_inv_def distinct_map_filter)
qed

lemma memory_step_keeps: "memory_inv db \<Longrightarrow> memory_inv (memory_step e db)"
  by (cases e) (simp_all add: Candidate_keeps Approve_keeps Remember_keeps Forget_keeps)

interpretation memory: machine memory_step memory_inv
  by unfold_locales (rule memory_step_keeps)

lemma memory_run_inv: "memory_inv (memory_run es)"
  unfolding memory_run_def by (rule memory.run_keeps) (rule memory_inv_empty)

section \<open>What is forgotten\<close>

definition gone :: "int \<Rightarrow> memory_db \<Rightarrow> bool" where
  "gone k db \<longleftrightarrow> k \<le> md_item_seq db \<and> k \<notin> it_id ` set (md_items db)"

lemma gone_step: "gone k db \<Longrightarrow> gone k (memory_step e db)"
proof (cases e)
  case (OpRemember c now now')
  assume "gone k db"
  with OpRemember show ?thesis
    by (auto simp: Remember_def Candidate_def Approve_memory_def gone_def item_of_def Let_def split: option.split)
qed (auto simp: Candidate_def Approve_memory_def Forget_def gone_def item_of_def Let_def delete_where_def split: option.split)

interpretation forgetting: machine memory_step "gone k"
  by unfold_locales (rule gone_step)

lemma Search_items:
  assumes "Search_memory fts q limit now db = Inr xs" and "x \<in> set xs"
  shows "\<exists>r \<in> set (md_items db). x = memory_item_of r"
  using assms set_take_subset [of "search_limit limit"] by (fastforce simp: Search_memory_def split: sum.splits)

section \<open>The theorems\<close>

text \<open>
  C28: Once an item is forgotten it stays so: whatever candidates, approvals, memories and removals follow,
  no row and no entry of the index has its id again, and no search, whatever the full-text index
  answers, returns it.
\<close>

theorem forgotten_stays_forgotten:
  assumes "k \<in> it_id ` set (md_items (memory_run es))" and "db = memory_run (es @ OpForget k # es')"
  shows "k \<notin> it_id ` set (md_items db) \<and> k \<notin> fst ` set (md_index db)
    \<and> (\<forall>fts q limit now xs. Search_memory fts q limit now db = Inr xs \<longrightarrow> k \<notin> mi_id ` set xs)"
proof -
  have "k \<le> md_item_seq (memory_run es)" using assms(1) memory_run_inv [of es] by (auto simp: memory_inv_def)
  then have "gone k (Forget k (memory_run es))" by (auto simp: gone_def Forget_def Let_def delete_where_def)
  then have "gone k db" using forgetting.run_keeps [of k _ es'] by (simp add: assms(2) memory_run_def)
  then have gone: "k \<notin> it_id ` set (md_items db)" by (simp add: gone_def)
  moreover have "md_index db = map (\<lambda>r. (it_id r, it_content r)) (md_items db)"
    using memory_run_inv [of "es @ OpForget k # es'"] by (simp add: assms(2) memory_inv_def)
  then have "k \<notin> fst ` set (md_index db)" using gone by (auto simp: image_iff)
  moreover have "k \<notin> mi_id ` set xs" if "Search_memory fts q limit now db = Inr xs" for fts q limit now xs
    using Search_items [OF that] gone by (fastforce simp: memory_item_of_def)
  ultimately show ?thesis by blast
qed

lemma concat_rows:
  assumes "distinct (map it_id rows)" and "distinct ids"
  shows "distinct (map it_id (concat (map (\<lambda>i. filter (\<lambda>r. it_id r = i \<and> p r) rows) ids)))"
    and "set (concat (map (\<lambda>i. filter (\<lambda>r. it_id r = i \<and> p r) rows) ids)) = {r \<in> set rows. it_id r \<in> set ids \<and> p r}"
proof -
  show "distinct (map it_id (concat (map (\<lambda>i. filter (\<lambda>r. it_id r = i \<and> p r) rows) ids)))"
    using assms(2) by (induction ids) (auto simp: distinct_map_filter [OF assms(1)])
qed auto

text \<open>
  A search through the index is a search through the items: if the full-text index answers a query with
  the rowids of the texts it was told that match, each once, the search returns items that match
  and have not expired, each once and no more than the limit, and all of them if there is room.
\<close>

theorem search_is_exact:
  assumes "\<And>idx ids. fts q idx = Inr ids \<Longrightarrow> distinct ids \<and> set ids = {i. \<exists>c. (i, c) \<in> set idx \<and> matches c}"
    and "Search_memory fts q limit now (memory_run es) = Inr xs"
    and "found = {memory_item_of r | r. r \<in> set (md_items (memory_run es)) \<and> matches (it_content r) \<and> unexpired now r}"
  shows "distinct (map mi_id xs) \<and> length xs \<le> search_limit limit \<and> set xs \<subseteq> found \<and> (length xs < search_limit limit \<longrightarrow> set xs = found)"
proof -
  let ?db = "memory_run es"
  note inv = memory_run_inv [of es]
  have dist: "distinct (map it_id (md_items ?db))" using inv by (simp add: memory_inv_def)
  obtain ids where ids: "fts q (md_index ?db) = Inr ids"
    and xs: "xs = take (search_limit limit) (map memory_item_of (concat (map (\<lambda>i. filter (\<lambda>r. it_id r = i \<and> unexpired now r) (md_items ?db)) ids)))"
    using assms(2) by (auto simp: Search_memory_def map_concat comp_def split: sum.splits)
  define rows where "rows = concat (map (\<lambda>i. filter (\<lambda>r. it_id r = i \<and> unexpired now r) (md_items ?db)) ids)"
  have d: "distinct ids" "set ids = {i. \<exists>c. (i, c) \<in> set (md_index ?db) \<and> matches c}" using assms(1) [OF ids] by simp_all
  have "it_id r \<in> set ids \<longleftrightarrow> matches (it_content r)" if r: "r \<in> set (md_items ?db)" for r
    using inv r distinct_map_eq [OF dist] by (fastforce simp: d(2) memory_inv_def)
  then have set_rows: "memory_item_of ` set rows = found"
    unfolding rows_def concat_rows(2) [OF dist d(1)] assms(3) by auto
  have "distinct (map mi_id (map memory_item_of rows))"
    using concat_rows(1) [OF dist d(1)] by (simp add: rows_def memory_item_of_def comp_def)
  then have dx: "distinct (map mi_id xs)" unfolding xs rows_def [symmetric] take_map [symmetric] by (rule distinct_take)
  have sub: "set xs \<subseteq> found" using set_take_subset [of "search_limit limit" "map memory_item_of rows"] set_rows by (auto simp: xs rows_def)
  have "set xs = found" if "length xs < search_limit limit"
    using that set_rows by (simp add: xs rows_def [symmetric] min_def split: if_splits)
  with dx sub show ?thesis by (simp add: xs)
qed

text \<open>
  C29: Nothing is remembered that looks like a secret: in every history an item has a text that is not empty
  and does not match the pattern for secrets, and it is a candidate that was approved, with the
  same source, confidence and expiry; there are never more items than approved candidates.
\<close>

theorem memory_holds_no_secret:
  assumes "r \<in> set (md_items (memory_run es))"
  shows "it_content r \<noteq> [] \<and> \<not> secret_like (it_content r) \<and> (\<exists>c \<in> set (md_candidates (memory_run es)). stems_from r c)
    \<and> length (md_items (memory_run es)) \<le> length (filter (\<lambda>c. cd_state c = Candidate_Approved) (md_candidates (memory_run es)))"
proof -
  let ?db = "memory_run es"
  note inv = memory_run_inv [of es]
  have "card (it_id ` set (md_items ?db)) \<le> card {1..md_item_seq ?db}"
    by (rule card_mono) (use inv in \<open>auto simp: memory_inv_def\<close>)
  also have "card (it_id ` set (md_items ?db)) = length (md_items ?db)"
    using inv distinct_card [of "map it_id (md_items ?db)"] by (simp add: memory_inv_def)
  finally have "length (md_items ?db) \<le> length (filter (\<lambda>c. cd_state c = Candidate_Approved) (md_candidates ?db))"
    using inv by (simp add: memory_inv_def)
  moreover obtain c where "c \<in> set (md_candidates ?db)" "stems_from r c" "keepable (cd_content c)"
    using inv assms by (auto simp: memory_inv_def)
  ultimately show ?thesis by (auto simp: stems_from_def keepable_def)
qed

section \<open>A history\<close>

definition demo_memory :: "memory_op list" where
  "demo_memory = [OpRemember '' likes tea '' 0 0, OpRemember ''password: x'' 0 0, OpRemember ''likes cake'' second second]"

text \<open>An index that finds the texts that are the query.\<close>

definition demo_fts :: "string \<Rightarrow> (int \<times> string) list \<Rightarrow> (string, int list) result" where
  "demo_fts q idx = Inr (remdups (map fst (filter (\<lambda>e. snd e = q) idx)))"

lemma demo_remembered: "map (\<lambda>r. (it_id r, it_content r)) (md_items (memory_run demo_memory)) = [(1, ''likes tea''), (2, ''likes cake'')]"
proof -
  have "trim_space '' likes tea '' = ''likes tea''" "trim_space ''password: x'' = ''password: x''" "trim_space ''likes cake'' = ''likes cake''"
    "secret_like ''password: x''" "\<not> secret_like ''likes tea''" "\<not> secret_like ''likes cake''" by code_simp+
  then show ?thesis
    by (simp add: memory_run_def demo_memory_def Remember_def Candidate_def Approve_memory_def no_memory_def Let_def select_one_def
        update_where_def item_of_def is_nan_def)
qed

lemma demo_item: "\<exists>r \<in> set (md_items (memory_run demo_memory)). it_id r = 1 \<and> it_content r = ''likes tea''"
proof -
  have "(1, ''likes tea'') \<in> (\<lambda>r. (it_id r, it_content r)) ` set (md_items (memory_run demo_memory))"
    using arg_cong [OF demo_remembered, of set] by simp
  then show ?thesis by auto
qed

lemma forgotten_stays_forgotten_witness: "1 \<notin> it_id ` set (md_items (memory_run (demo_memory @ [OpForget 1, OpRemember ''likes tea'' 0 0])))"
  using forgotten_stays_forgotten [of 1 demo_memory _ "[OpRemember ''likes tea'' 0 0]", OF _ refl] demo_item by force

lemma memory_holds_no_secret_witness: "\<exists>r \<in> set (md_items (memory_run demo_memory)). it_id r = 1 \<and> \<not> secret_like (it_content r)"
  using demo_item memory_holds_no_secret [of _ demo_memory] by blast

lemma search_is_exact_witness:
  "\<exists>xs. Search_memory demo_fts ''likes tea'' 10 second (memory_run demo_memory) = Inr xs \<and> distinct (map mi_id xs) \<and> length xs \<le> 10"
proof -
  obtain xs where "Search_memory demo_fts ''likes tea'' 10 second (memory_run demo_memory) = Inr xs"
    by (simp add: Search_memory_def demo_fts_def)
  moreover from this have "distinct (map mi_id xs) \<and> length xs \<le> search_limit 10"
    using search_is_exact [of demo_fts "''likes tea''" "\<lambda>c. c = ''likes tea''", OF _ _ refl] by (force simp: demo_fts_def)
  ultimately show ?thesis by (simp add: search_limit_def)
qed

end
