(* ===== verification/SecLimits.thy ===== *)
theory SecLimits
  imports GoFloat
begin

text \<open>
  Package \<open>internal/security\<close>, \<open>limits.go\<close>: the execution budget of a request and the token
  bucket that limits the messages of a user. Go's \<open>int\<close> has 64 bits, and the sums of \<open>consume\<close> wrap.
\<close>

section \<open>Budget\<close>

record budget_limits =
  bl_model_steps :: int
  bl_tool_calls :: int
  bl_tokens :: int
  bl_cost :: float64
  bl_retries :: int

record budget =
  bu_limits :: budget_limits
  bu_used :: budget_limits

datatype budget_error = BudgetExceeded | BudgetsRequired

definition no_use :: budget_limits where
  "no_use = \<lparr>bl_model_steps = 0, bl_tool_calls = 0, bl_tokens = 0, bl_cost = Finite 0, bl_retries = 0\<rparr>"

definition NewBudget :: "budget_limits \<Rightarrow> (budget_error, budget) result" where
  "NewBudget l =
     (if bl_model_steps l < 1 \<or> bl_tool_calls l < 1 \<or> bl_tokens l < 1 \<or> float_le (bl_cost l) (Finite 0)
         \<or> is_nan (bl_cost l) \<or> is_inf (bl_cost l) \<or> bl_retries l < 1
      then Inl BudgetsRequired else Inr \<lparr>bu_limits = l, bu_used = no_use\<rparr>)"

definition consume :: "budget_limits \<Rightarrow> budget \<Rightarrow> (budget_error, unit) result \<times> budget" where
  "consume d b =
     (let u = bu_used b; l = bu_limits b;
          next' = \<lparr>bl_model_steps = wrap64 (bl_model_steps u + bl_model_steps d),
                   bl_tool_calls = wrap64 (bl_tool_calls u + bl_tool_calls d),
                   bl_tokens = wrap64 (bl_tokens u + bl_tokens d),
                   bl_cost = float_add (bl_cost u) (bl_cost d),
                   bl_retries = wrap64 (bl_retries u + bl_retries d)\<rparr>
      in if bl_model_steps next' > bl_model_steps l \<or> bl_tool_calls next' > bl_tool_calls l \<or> bl_tokens next' > bl_tokens l
            \<or> float_less (bl_cost l) (bl_cost next') \<or> bl_retries next' > bl_retries l
         then (Inl BudgetExceeded, b) else (Inr (), b\<lparr>bu_used := next'\<rparr>))"

definition UseModelStep :: "budget \<Rightarrow> (budget_error, unit) result \<times> budget" where
  "UseModelStep b = consume (no_use\<lparr>bl_model_steps := 1\<rparr>) b"

definition UseTool :: "budget \<Rightarrow> (budget_error, unit) result \<times> budget" where
  "UseTool b = consume (no_use\<lparr>bl_tool_calls := 1\<rparr>) b"

definition UseTokens :: "int \<Rightarrow> budget \<Rightarrow> (budget_error, unit) result \<times> budget" where
  "UseTokens n b = (if n < 0 then (Inl BudgetExceeded, b) else consume (no_use\<lparr>bl_tokens := n\<rparr>) b)"

definition UseCost :: "float64 \<Rightarrow> budget \<Rightarrow> (budget_error, unit) result \<times> budget" where
  "UseCost x b =
     (if float_less x (Finite 0) \<or> is_nan x \<or> is_inf x then (Inl BudgetExceeded, b) else consume (no_use\<lparr>bl_cost := x\<rparr>) b)"

definition UseRetry :: "budget \<Rightarrow> (budget_error, unit) result \<times> budget" where
  "UseRetry b = consume (no_use\<lparr>bl_retries := 1\<rparr>) b"

definition Snapshot_budget :: "budget \<Rightarrow> budget_limits \<times> budget_limits" where
  "Snapshot_budget b = (bu_used b, bu_limits b)"

definition TokenCostUSD :: "int \<Rightarrow> float64 \<Rightarrow> float64" where
  "TokenCostUSD tokens price =
     (if tokens \<le> 0 \<or> float_le price (Finite 0) then Finite 0
      else float_div (float_mult (of_go_int tokens) price) 1000000)"

section \<open>Message guard\<close>

record rate_state =
  rt_tokens :: float64
  rt_last :: time

record message_guard =
  mg_max_bytes :: int
  mg_per_minute :: float64
  mg_burst :: float64
  mg_users :: "int \<rightharpoonup> rate_state"

datatype guard_error = InvalidMessage | RateLimited | GuardLimitsRequired

definition NewMessageGuard :: "int \<Rightarrow> int \<Rightarrow> int \<Rightarrow> (guard_error, message_guard) result" where
  "NewMessageGuard max_bytes per_minute burst =
     (if max_bytes < 1 \<or> per_minute < 1 \<or> burst < 1 \<or> burst > per_minute then Inl GuardLimitsRequired
      else Inr \<lparr>mg_max_bytes = max_bytes, mg_per_minute = of_go_int per_minute, mg_burst = of_go_int burst, mg_users = Map.empty\<rparr>)"

text \<open>\<open>Duration.Minutes\<close>: the whole minutes and the rest are converted separately; here for a
  duration that is not negative. \<open>Time.Sub\<close> saturates.\<close>

definition minutes_of :: "duration \<Rightarrow> float64" where
  "minutes_of d = float_add (of_go_int (d div minute)) (float_div (of_go_int (d mod minute)) 60000000000)"

definition saturated_sub :: "time \<Rightarrow> time \<Rightarrow> duration" where
  "saturated_sub a b =
     (if a - b > max_int64 then max_int64 else if a - b < min_int64 then min_int64 else a - b)"

definition refill :: "message_guard \<Rightarrow> time \<Rightarrow> rate_state \<Rightarrow> float64" where
  "refill g now st =
     (let elapsed = saturated_sub now (rt_last st);
          elapsed = (if elapsed < 0 then 0 else elapsed)
      in float_min (mg_burst g) (float_add (rt_tokens st) (float_mult (minutes_of elapsed) (mg_per_minute g))))"

definition Allow_message :: "int \<Rightarrow> string \<Rightarrow> time \<Rightarrow> message_guard \<Rightarrow> (guard_error, unit) result \<times> message_guard" where
  "Allow_message user text now g =
     (if user \<le> 0 \<or> int (length text) > mg_max_bytes g \<or> \<not> utf8_valid text then (Inl InvalidMessage, g)
      else
        (let st = (case mg_users g user of None \<Rightarrow> \<lparr>rt_tokens = mg_burst g, rt_last = now\<rparr> | Some st \<Rightarrow> st);
             tokens = refill g now st
         in if float_less tokens (Finite 1)
            then (Inl RateLimited, g\<lparr>mg_users := (mg_users g)(user \<mapsto> \<lparr>rt_tokens = tokens, rt_last = now\<rparr>)\<rparr>)
            else (Inr (), g\<lparr>mg_users := (mg_users g)(user \<mapsto> \<lparr>rt_tokens = float_add tokens (Finite (- 1)), rt_last = now\<rparr>)\<rparr>)))"

section \<open>What a budget bounds\<close>

text \<open>Every charge that is accepted leaves each used amount within its limit.\<close>

definition within_limits :: "budget \<Rightarrow> bool" where
  "within_limits b \<longleftrightarrow> bl_model_steps (bu_used b) \<le> bl_model_steps (bu_limits b)
     \<and> bl_tool_calls (bu_used b) \<le> bl_tool_calls (bu_limits b) \<and> bl_tokens (bu_used b) \<le> bl_tokens (bu_limits b)
     \<and> bl_retries (bu_used b) \<le> bl_retries (bu_limits b) \<and> \<not> float_less (bl_cost (bu_limits b)) (bl_cost (bu_used b))"

lemma consume_within: "within_limits b \<Longrightarrow> within_limits (snd (consume d b))"
  by (auto simp: consume_def Let_def within_limits_def)

lemma NewBudget_within: "NewBudget l = Inr b \<Longrightarrow> within_limits b"
  by (cases "bl_cost l") (auto simp: NewBudget_def within_limits_def no_use_def is_nan_def is_inf_def split: if_splits)

datatype charge = ModelStep | ToolCall | Tokens int | Cost float64 | Retry

fun apply_charge :: "charge \<Rightarrow> budget \<Rightarrow> budget" where
  "apply_charge ModelStep b = snd (UseModelStep b)"
| "apply_charge ToolCall b = snd (UseTool b)"
| "apply_charge (Tokens n) b = snd (UseTokens n b)"
| "apply_charge (Cost x) b = snd (UseCost x b)"
| "apply_charge Retry b = snd (UseRetry b)"

lemmas charges = UseModelStep_def UseTool_def UseTokens_def UseCost_def UseRetry_def

lemma charge_within: "within_limits b \<Longrightarrow> within_limits (apply_charge c b)"
  by (cases c) (simp_all add: charges consume_within)

lemma charge_limits: "bu_limits (apply_charge c b) = bu_limits b"
  by (cases c) (simp_all add: charges consume_def Let_def)

interpretation budgets: machine apply_charge within_limits
  by unfold_locales (rule charge_within)

text \<open>How many of the tool calls of a sequence of charges are accepted.\<close>

fun accepted_tools :: "charge list \<Rightarrow> budget \<Rightarrow> nat" where
  "accepted_tools [] b = 0"
| "accepted_tools (c # cs) b =
     (if c = ToolCall \<and> is_ok (fst (UseTool b)) then 1 else 0) + accepted_tools cs (apply_charge c b)"

lemma other_charge_tools:
  assumes "c \<noteq> ToolCall" and "0 \<le> bl_tool_calls (bu_used b)" and "bl_tool_calls (bu_used b) \<le> max_int64"
  shows "bl_tool_calls (bu_used (apply_charge c b)) = bl_tool_calls (bu_used b)"
proof -
  have "wrap64 (bl_tool_calls (bu_used b)) = bl_tool_calls (bu_used b)"
    using assms(2,3) by (intro wrap64_id) (simp_all add: min_int64_def)
  with assms(1) show ?thesis by (cases c) (simp_all add: charges consume_def Let_def no_use_def)
qed

lemma tool_charge:
  assumes "0 \<le> bl_tool_calls (bu_used b)" and "bl_tool_calls (bu_used b) < max_int64"
  shows "bl_tool_calls (bu_used (apply_charge ToolCall b)) = bl_tool_calls (bu_used b) + (if is_ok (fst (UseTool b)) then 1 else 0)"
proof -
  have "wrap64 (bl_tool_calls (bu_used b) + 1) = bl_tool_calls (bu_used b) + 1"
    using assms by (intro wrap64_id) (simp_all add: min_int64_def)
  then show ?thesis by (simp add: charges consume_def Let_def no_use_def)
qed

lemma accepted_tools_bound:
  assumes "within_limits b" and "0 \<le> bl_tool_calls (bu_used b)" and "bl_tool_calls (bu_limits b) < max_int64"
  shows "int (accepted_tools cs b) + bl_tool_calls (bu_used b) \<le> bl_tool_calls (bu_limits b)"
  using assms
proof (induction cs arbitrary: b)
  case Nil
  then show ?case by (simp add: within_limits_def)
next
  case (Cons c cs)
  have used: "bl_tool_calls (bu_used b) < max_int64" using Cons.prems by (simp add: within_limits_def)
  have step: "bl_tool_calls (bu_used (apply_charge c b))
      = bl_tool_calls (bu_used b) + (if c = ToolCall \<and> is_ok (fst (UseTool b)) then 1 else 0)"
    using other_charge_tools [OF _ Cons.prems(2), of c] tool_charge [OF Cons.prems(2) used] used by (cases "c = ToolCall") auto
  then have "int (accepted_tools cs (apply_charge c b)) + bl_tool_calls (bu_used (apply_charge c b)) \<le> bl_tool_calls (bu_limits b)"
    using Cons.IH [of "apply_charge c b"] Cons.prems by (simp add: charge_within charge_limits)
  with step show ?case
    unfolding accepted_tools.simps by (cases "c = ToolCall \<and> is_ok (fst (UseTool b))") (simp_all only: if_True if_False, simp_all)
qed

text \<open>
  A budget is never overdrawn: whatever is charged to it, in whatever order, its used amounts
  stay within its limits, and no more tool calls are accepted than it was created for.
\<close>

theorem budget_not_overdrawn:
  assumes "NewBudget l = Inr b" and "bl_tool_calls l < max_int64"
  shows "within_limits (fold apply_charge cs b) \<and> bu_limits (fold apply_charge cs b) = l
    \<and> int (accepted_tools cs b) \<le> bl_tool_calls l"
proof -
  have new: "bu_limits b = l" "bl_tool_calls (bu_used b) = 0"
    using assms(1) by (auto simp: NewBudget_def no_use_def split: if_splits)
  have inv: "within_limits b" by (rule NewBudget_within [OF assms(1)])
  have "bu_limits (fold apply_charge cs b) = bu_limits b" by (induction cs arbitrary: b) (simp_all add: charge_limits)
  with budgets.run_keeps [OF inv] accepted_tools_bound [OF inv] new assms(2) show ?thesis by simp
qed

definition demo_limits :: budget_limits where
  "demo_limits = \<lparr>bl_model_steps = 1, bl_tool_calls = 1, bl_tokens = 10, bl_cost = Finite 1, bl_retries = 1\<rparr>"

definition demo_budget :: budget where
  "demo_budget = \<lparr>bu_limits = demo_limits, bu_used = no_use\<rparr>"

lemma demo_new_budget: "NewBudget demo_limits = Inr demo_budget"
  by (simp add: NewBudget_def demo_limits_def demo_budget_def is_nan_def is_inf_def)

lemma budget_not_overdrawn_witness: "accepted_tools [ToolCall, Tokens 4, ToolCall, ToolCall] demo_budget \<le> 1"
  using budget_not_overdrawn [OF demo_new_budget, of "[ToolCall, Tokens 4, ToolCall, ToolCall]"]
  by (simp add: demo_limits_def max_int64_def)

text \<open>The sum of the tokens wraps around: a charge of the largest integer is accepted after a smaller one.\<close>

lemma token_sum_wraps:
  "fst (UseTokens max_int64 (snd (UseTokens 4 demo_budget))) = Inr ()"
proof -
  have "wrap64 4 = 4" "wrap64 0 = 0" "wrap64 (4 + max_int64) = min_int64 + 3" by code_simp+
  moreover have "float_add (Finite 0) (Finite 0) = Finite 0" by (simp add: round64_def)
  ultimately show ?thesis
    by (simp add: UseTokens_def consume_def Let_def demo_budget_def demo_limits_def no_use_def max_int64_def min_int64_def)
qed

section \<open>What the guard lets through\<close>

text \<open>The number of the messages of one user, all at one instant, that are allowed.\<close>

fun allowed_at :: "int \<Rightarrow> time \<Rightarrow> string list \<Rightarrow> message_guard \<Rightarrow> nat" where
  "allowed_at user now [] g = 0"
| "allowed_at user now (m # ms) g =
     (case Allow_message user m now g of (r, g') \<Rightarrow> (if is_ok r then 1 else 0) + allowed_at user now ms g')"

definition level :: "message_guard \<Rightarrow> int \<Rightarrow> time \<Rightarrow> int \<Rightarrow> bool" where
  "level g user now k \<longleftrightarrow> (case mg_users g user of None \<Rightarrow> mg_burst g = Finite (of_int k)
     | Some st \<Rightarrow> st = \<lparr>rt_tokens = Finite (of_int k), rt_last = now\<rparr>)"

lemma refill_now:
  assumes "mg_per_minute g = Finite p" and "mg_burst g = Finite (of_int b)" and "0 \<le> k" and "k \<le> b" and "b \<le> 2 ^ 52"
  shows "refill g now \<lparr>rt_tokens = Finite (of_int k), rt_last = now\<rparr> = Finite (of_int k)"
proof -
  have "saturated_sub now now = 0" by (simp add: saturated_sub_def max_int64_def min_int64_def)
  moreover have "minutes_of 0 = Finite 0" by (simp add: minutes_of_def of_go_int_def round64_def float_div_def)
  moreover have "round64 (of_int k) = Finite (of_int k)" using assms(3-5) by (intro round64_int) simp_all
  ultimately show ?thesis using assms
    by (auto simp: refill_def Let_def float_mult_def round64_def [of 0] float_min_def)
qed

lemma allow_now:
  assumes g: "mg_per_minute g = Finite p" "mg_burst g = Finite (of_int b)" and k: "0 \<le> k" "k \<le> b" "b \<le> 2 ^ 52"
    and lev: "level g user now k" and ok: "0 < user" "int (length m) \<le> mg_max_bytes g" "utf8_valid m"
  shows "is_ok (fst (Allow_message user m now g)) = (1 \<le> k)"
    and "level (snd (Allow_message user m now g)) user now (if 1 \<le> k then k - 1 else k)"
    and "mg_per_minute (snd (Allow_message user m now g)) = Finite p" "mg_burst (snd (Allow_message user m now g)) = Finite (of_int b)"
      "mg_max_bytes (snd (Allow_message user m now g)) = mg_max_bytes g"
proof -
  define st where "st = (case mg_users g user of None \<Rightarrow> \<lparr>rt_tokens = mg_burst g, rt_last = now\<rparr> | Some st \<Rightarrow> st)"
  have st: "st = \<lparr>rt_tokens = Finite (of_int k), rt_last = now\<rparr>"
    using lev by (auto simp: st_def level_def split: option.splits)
  have full: "refill g now st = Finite (of_int k)" unfolding st by (rule refill_now [OF g k])
  have eq: "Allow_message user m now g =
    (if k < 1 then (Inl RateLimited, g\<lparr>mg_users := (mg_users g)(user \<mapsto> \<lparr>rt_tokens = Finite (of_int k), rt_last = now\<rparr>)\<rparr>)
     else (Inr (), g\<lparr>mg_users := (mg_users g)(user \<mapsto> \<lparr>rt_tokens = float_add (Finite (of_int k)) (Finite (- 1)), rt_last = now\<rparr>)\<rparr>))"
    using ok by (simp add: Allow_message_def st_def [symmetric] full)
  have "round64 (of_int (k - 1)) = Finite (of_int (k - 1))" if "1 \<le> k" using that k by (intro round64_int) simp_all
  then have less: "float_add (Finite (of_int k)) (Finite (- 1)) = Finite (of_int (k - 1))" if "1 \<le> k" using that by simp
  show "is_ok (fst (Allow_message user m now g)) = (1 \<le> k)" by (simp add: eq)
  show "level (snd (Allow_message user m now g)) user now (if 1 \<le> k then k - 1 else k)"
    using less by (simp add: eq level_def)
  show "mg_per_minute (snd (Allow_message user m now g)) = Finite p" "mg_burst (snd (Allow_message user m now g)) = Finite (of_int b)"
    "mg_max_bytes (snd (Allow_message user m now g)) = mg_max_bytes g"
    using g by (simp_all add: eq)
qed

lemma allowed_now:
  assumes "mg_per_minute g = Finite p" and "mg_burst g = Finite (of_int b)" and "0 \<le> k" and "k \<le> b" and "b \<le> 2 ^ 52"
    and "level g user now k" and "0 < user" and "\<forall>m \<in> set ms. int (length m) \<le> mg_max_bytes g \<and> utf8_valid m"
  shows "int (allowed_at user now ms g) = min k (int (length ms))"
  using assms
proof (induction ms arbitrary: g k)
  case (Cons m ms)
  let ?g = "snd (Allow_message user m now g)" and ?k = "if 1 \<le> k then k - 1 else k"
  note step = allow_now [OF Cons.prems(1-7), of m]
  have "int (allowed_at user now ms ?g) = min ?k (int (length ms))"
    using step Cons.prems by (intro Cons.IH) simp_all
  with step(1) Cons.prems show ?case by (simp add: case_prod_beta min_def)
qed simp

text \<open>
  Of any number of messages a user sends in one instant, exactly as many as the burst allows are
  let through.
\<close>

theorem burst_is_bounded:
  assumes "NewMessageGuard mb pm b = Inr g" and "pm \<le> 2 ^ 52" and "0 < user"
    and "\<forall>m \<in> set ms. int (length m) \<le> mb \<and> utf8_valid m"
  shows "int (allowed_at user now ms g) = min b (int (length ms))"
proof -
  have g: "1 \<le> b" "b \<le> pm" "mg_max_bytes g = mb" "mg_per_minute g = of_go_int pm" "mg_burst g = of_go_int b" "mg_users g user = None"
    using assms(1) by (auto simp: NewMessageGuard_def split: if_splits)
  then have "of_go_int pm = Finite (of_int pm)" "of_go_int b = Finite (of_int b)"
    unfolding of_go_int_def using assms(2) by (auto intro!: round64_int)
  with g assms show ?thesis by (intro allowed_now [of g "of_int pm" b b]) (simp_all add: level_def)
qed

definition demo_guard :: message_guard where
  "demo_guard = \<lparr>mg_max_bytes = 100, mg_per_minute = of_go_int 20, mg_burst = of_go_int 2, mg_users = Map.empty\<rparr>"

lemma burst_is_bounded_witness: "allowed_at 7 0 [''a'', ''b'', ''c''] demo_guard = 2"
proof -
  have "NewMessageGuard 100 20 2 = Inr demo_guard" by (simp add: NewMessageGuard_def demo_guard_def)
  moreover have "utf8_valid ''a''" "utf8_valid ''b''" "utf8_valid ''c''" by code_simp+
  ultimately show ?thesis using burst_is_bounded [of 100 20 2 demo_guard 7 "[''a'', ''b'', ''c'']" 0] by simp
qed

end
