(* ===== verification/AuditLog.thy ===== *)
theory AuditLog
  imports GoText Sha256 SqlTable
begin

text \<open>
  Package \<open>internal/audit\<close>: the hash chain of the table \<open>audit_entries\<close>. \<open>Append\<close> links a new
  entry to the last one and \<open>Verify\<close> recomputes the chain. A row carries the marshalled payload
  besides the fields of the entry; \<open>Verify\<close> does not read that column. The constants carry the
  suffix \<open>_audit\<close>.
\<close>

record audit_entry =
  u_seq :: int
  u_at :: string
  u_kind :: string
  u_user :: int
  u_resource :: string
  u_decision :: string
  u_prev :: string
  u_hash :: string

record audit_row =
  u_entry :: audit_entry
  u_payload :: string

datatype audit_error = ChainBroken int | HashMismatch | AuditConflict

section \<open>The operations\<close>

text \<open>\<open>json.Marshal\<close> of the anonymous struct over which the hash is taken.\<close>

definition audit_payload :: "audit_entry \<Rightarrow> string" where
  "audit_payload e =
     json_struct
       [(''Seq'', GoInt (u_seq e)), (''At'', GoText (u_at e)), (''Kind'', GoText (u_kind e)),
        (''UserID'', GoInt (u_user e)), (''Resource'', GoText (u_resource e)),
        (''Decision'', GoText (u_decision e)), (''Prev'', GoText (u_prev e))]"

definition audit_hash :: "audit_entry \<Rightarrow> string" where
  "audit_hash e = sha256_hex (audit_payload e)"

definition last_seq :: "audit_row \<Rightarrow> audit_row \<Rightarrow> bool" where
  "last_seq r q \<longleftrightarrow> u_seq (u_entry r) \<ge> u_seq (u_entry q)"

definition Append_audit ::
  "audit_entry \<Rightarrow> time \<Rightarrow> audit_row list \<Rightarrow> (audit_error, audit_entry) result \<times> audit_row list" where
  "Append_audit e now log =
     (let (seq, prev) = (case first_by last_seq log of
                           None \<Rightarrow> (0, [])
                         | Some r \<Rightarrow> (u_seq (u_entry r), u_hash (u_entry r)));
          e1 = e\<lparr>u_seq := seq + 1, u_at := formatTime now, u_prev := prev\<rparr>;
          e2 = e1\<lparr>u_hash := audit_hash e1\<rparr>
      in if exists_where (\<lambda>r. u_seq (u_entry r) = u_seq e2 \<or> u_hash (u_entry r) = u_hash e2) log
         then (Inl AuditConflict, log)
         else (Inr e2, log @ [\<lparr>u_entry = e2, u_payload = audit_payload e1\<rparr>]))"

fun verify_from :: "string \<Rightarrow> int \<Rightarrow> audit_entry list \<Rightarrow> (audit_error, unit) result" where
  "verify_from prev expected [] = Inr ()"
| "verify_from prev expected (e # es) =
     (if u_seq e \<noteq> expected \<or> u_prev e \<noteq> prev then Inl (ChainBroken (u_seq e))
      else if audit_hash e \<noteq> u_hash e then Inl HashMismatch
      else verify_from (u_hash e) (expected + 1) es)"

text \<open>The rows ORDER BY seq.\<close>

definition entries :: "audit_row list \<Rightarrow> audit_entry list" where
  "entries log = map u_entry (sort_key (\<lambda>r. u_seq (u_entry r)) log)"

definition Verify_audit :: "audit_row list \<Rightarrow> (audit_error, unit) result" where
  "Verify_audit log = verify_from [] 1 (entries log)"

section \<open>The payload determines the fields\<close>

definition plain_entry :: "audit_entry \<Rightarrow> bool" where
  "plain_entry e \<longleftrightarrow> ascii (u_at e) \<and> ascii (u_kind e) \<and> ascii (u_resource e) \<and> ascii (u_decision e)
     \<and> ascii (u_prev e)"

lemma audit_payload_inj:
  assumes "plain_entry a" and "plain_entry b" and "audit_payload a = audit_payload b"
  shows "u_seq a = u_seq b \<and> u_at a = u_at b \<and> u_kind a = u_kind b \<and> u_user a = u_user b
    \<and> u_resource a = u_resource b \<and> u_decision a = u_decision b \<and> u_prev a = u_prev b"
  using json_struct_inj [OF assms(3) [unfolded audit_payload_def]] assms(1,2)
  by (simp add: plain_entry_def)

section \<open>Chains\<close>

text \<open>A chain from a hash and a number: what \<open>verify_from\<close> accepts.\<close>

fun chained :: "string \<Rightarrow> int \<Rightarrow> audit_entry list \<Rightarrow> bool" where
  "chained prev n [] = True"
| "chained prev n (e # es) =
     (u_seq e = n \<and> u_prev e = prev \<and> u_hash e = audit_hash e \<and> chained (u_hash e) (n + 1) es)"

lemma verify_from_iff: "verify_from prev n es = Inr () \<longleftrightarrow> chained prev n es"
  by (induction es arbitrary: prev n) auto

definition end_hash :: "string \<Rightarrow> audit_entry list \<Rightarrow> string" where
  "end_hash prev es = (if es = [] then prev else u_hash (last es))"

lemma end_hash_simps [simp]: "end_hash prev [] = prev" "end_hash prev (es @ [e]) = u_hash e"
  "end_hash prev (e # es) = end_hash (u_hash e) es"
  by (simp_all add: end_hash_def)

lemma chained_append:
  "chained prev n (es @ fs) \<longleftrightarrow> chained prev n es \<and> chained (end_hash prev es) (n + int (length es)) fs"
  by (induction es arbitrary: prev n) (auto simp: algebra_simps)

lemma chained_seq: "chained prev n es \<Longrightarrow> i < length es \<Longrightarrow> u_seq (es ! i) = n + int i"
proof (induction es arbitrary: prev n i)
  case (Cons e es)
  then show ?case by (cases i) auto
qed simp

lemma chained_sorted: "chained prev n es \<Longrightarrow> sorted (map u_seq es)"
  by (auto simp: sorted_iff_nth_mono chained_seq)

lemma first_by_last:
  assumes "\<And>r. r \<in> set log \<Longrightarrow> u_seq (u_entry r) < u_seq (u_entry q)"
  shows "first_by last_seq (log @ [q]) = Some q"
  using assms by (induction log) (auto simp: last_seq_def split: option.split dest: leD)

definition chain :: "audit_row list \<Rightarrow> bool" where
  "chain log \<longleftrightarrow> chained [] 1 (map u_entry log)"

lemma chain_sort: "chain log \<Longrightarrow> sort_key (\<lambda>r. u_seq (u_entry r)) log = log"
  using chained_sorted [of "[]" 1 "map u_entry log"]
  by (intro sort_key_id_if_sorted) (simp add: chain_def comp_def)

lemma Verify_chain: "chain log \<Longrightarrow> Verify_audit log = Inr ()"
  by (simp add: Verify_audit_def entries_def chain_sort verify_from_iff chain_def)

lemma entries_chain: "chain log \<Longrightarrow> entries log = map u_entry log"
  by (simp add: entries_def chain_sort)

lemma set_entries: "set (entries log) = u_entry ` set log"
  by (simp add: entries_def)

lemma length_entries [simp]: "length (entries log) = length log"
  by (simp add: entries_def)

lemma Append_chain:
  assumes "chain log"
  shows "chain (snd (Append_audit e now log))"
proof (cases log rule: rev_cases)
  case Nil
  then show ?thesis
    by (auto simp: Append_audit_def Let_def chain_def audit_hash_def audit_payload_def)
next
  case (snoc log' q)
  have ch: "chained [] 1 (map u_entry log')"
    and q: "u_seq (u_entry q) = 1 + int (length log')"
    using assms unfolding chain_def snoc by (auto simp: chained_append)
  have "u_seq (u_entry r) < u_seq (u_entry q)" if "r \<in> set log'" for r
  proof -
    from that obtain i where i: "i < length log'" "log' ! i = r" by (auto simp: in_set_conv_nth)
    then show ?thesis using chained_seq [OF ch, of i] q by simp
  qed
  then have "first_by last_seq log = Some q" unfolding snoc by (rule first_by_last)
  with assms show ?thesis
    unfolding Append_audit_def chain_def snoc
    by (auto simp: Let_def chained_append q audit_hash_def audit_payload_def)
qed

definition audit_run :: "(audit_entry \<times> time) list \<Rightarrow> audit_row list" where
  "audit_run es = fold (\<lambda>(e, now) log. snd (Append_audit e now log)) es []"

interpretation audit_log: machine "\<lambda>(e, now) log. snd (Append_audit e now log)" chain
  by unfold_locales (auto intro: Append_chain)

lemma audit_run_chain: "chain (audit_run es)"
  unfolding audit_run_def by (rule audit_log.run_keeps) (simp add: chain_def)

section \<open>Tampering\<close>

text \<open>
  Two chains of one length that end in the same hash are the same chain, from the last entry back
  to the first, unless two different payloads of theirs have one SHA-256 hash.
\<close>

lemma chained_unique:
  assumes "chained p n es" and "chained q n fs" and "length es = length fs"
    and "end_hash p es = end_hash q fs" and "es \<noteq> []"
    and "\<And>a b. a \<in> set es \<Longrightarrow> b \<in> set fs \<Longrightarrow> audit_hash a = audit_hash b \<Longrightarrow> audit_payload a = audit_payload b"
    and "\<And>a. a \<in> set es \<union> set fs \<Longrightarrow> plain_entry a"
  shows "es = fs \<and> p = q"
  using assms
proof (induction es arbitrary: fs rule: rev_induct)
  case (snoc a es)
  then obtain b fs' where fs: "fs = fs' @ [b]" by (cases fs rule: rev_cases) auto
  from snoc.prems have ha: "u_hash a = audit_hash a" "u_hash b = audit_hash b" "u_hash a = u_hash b"
    and prevs: "u_prev a = end_hash p es" "u_prev b = end_hash q fs'"
    and ch: "chained p n es" "chained q n fs'" and len: "length es = length fs'"
    by (auto simp: fs chained_append)
  have "audit_payload a = audit_payload b" using snoc.prems(6) [of a b] ha by (simp add: fs)
  moreover have "plain_entry a" "plain_entry b" using snoc.prems(7) by (simp_all add: fs)
  ultimately have same: "u_seq a = u_seq b \<and> u_at a = u_at b \<and> u_kind a = u_kind b \<and> u_user a = u_user b
    \<and> u_resource a = u_resource b \<and> u_decision a = u_decision b \<and> u_prev a = u_prev b"
    by (intro audit_payload_inj)
  then have ab: "a = b" using ha(3) by simp
  have ends: "end_hash p es = end_hash q fs'" using same prevs by simp
  show ?case
  proof (cases "es = []")
    case True
    with len ends ab fs show ?thesis by simp
  next
    case False
    have "es = fs' \<and> p = q"
      by (rule snoc.IH [OF ch len ends False]) (use snoc.prems(6,7) fs in auto)
    with ab fs show ?thesis by simp
  qed
qed simp

section \<open>The theorems\<close>

text \<open>
  Whatever entries are appended at whatever times, \<open>Verify\<close> accepts the log.
\<close>

theorem appended_log_verifies: "Verify_audit (audit_run es) = Inr ()"
  by (rule Verify_chain) (rule audit_run_chain)


text \<open>
  What the chain alone cannot show: \<open>Verify\<close> accepts every log whose last entries were
  removed.
\<close>

theorem truncated_log_verifies: "Verify_audit (take n (audit_run es)) = Inr ()"
proof (rule Verify_chain)
  have "chained [] 1 (map u_entry (take n (audit_run es)) @ map u_entry (drop n (audit_run es)))"
    using audit_run_chain [of es] by (simp add: chain_def flip: map_append)
  then show "chain (take n (audit_run es))" by (simp add: chained_append chain_def)
qed

section \<open>The theorems at a log of one entry\<close>

definition demo_entry :: audit_entry where
  "demo_entry = \<lparr>u_seq = 0, u_at = [], u_kind = ''approval_requested'', u_user = 7, u_resource = ''repo'',
     u_decision = ''pending'', u_prev = [], u_hash = []\<rparr>"

lemma demo_log:
  "map u_entry (audit_run [(demo_entry, 0)]) =
     [(demo_entry\<lparr>u_seq := 1, u_at := formatTime 0\<rparr>)\<lparr>u_hash := audit_hash (demo_entry\<lparr>u_seq := 1, u_at := formatTime 0\<rparr>)\<rparr>]"
  by (simp add: audit_run_def Append_audit_def Let_def demo_entry_def)


end
