(* ===== verification/Approval.thy ===== *)
theory Approval
  imports AuditLog
begin

text \<open>
  Package \<open>internal/approval\<close>: requests for approval with a one-time token, their resolution by
  the owner and the receipt an approved request is redeemed for. The tables
  \<open>approval_requests\<close> and \<open>approval_uses\<close> and the audit log are the state. The random
  bytes and each reading of the clock are arguments; an expiry outside the years 1 to 9999 does
  not parse back from its text.
\<close>

section \<open>Tables\<close>

datatype appr_state = APending | AApproved | ADenied | AExpired

record request_row =
  a_id :: string
  a_token_hash :: string
  a_user :: int
  a_tool :: string
  a_args_hash :: string
  a_resource :: string
  a_expires :: time
  a_state :: appr_state
  a_created_at :: time
  a_resolved_at :: "time option"

record appr_db =
  requests :: "request_row list"
  uses :: "(string \<times> time) list"
  audit :: "audit_row list"

record appr_request =
  q_id :: string
  q_token :: string
  q_user :: int
  q_tool :: string
  q_args_hash :: string
  q_resource :: string
  q_expires :: time

record receipt =
  c_id :: string
  c_user :: int
  c_tool :: string
  c_args_hash :: string
  c_resource :: string
  c_expires :: time

datatype appr_error = NotFound | BindingMismatch | ExpiredApproval | NotAuthorized | AlreadyUsed
  | InvalidDecision | AlreadyResolved | Replay | ConstraintFailed

definition no_approvals :: appr_db where
  "no_approvals = \<lparr>requests = [], uses = [], audit = []\<rparr>"

section \<open>Tokens\<close>

text \<open>\<open>base64.RawURLEncoding\<close>\<close>

definition base64_digit :: "int \<Rightarrow> char" where
  "base64_digit n =
     (if n < 26 then char_of (65 + n) else if n < 52 then char_of (71 + n)
      else if n < 62 then char_of (n - 4) else if n = 62 then CHR ''-'' else CHR ''_'')"

fun base64url :: "string \<Rightarrow> string" where
  "base64url (a # b # c # s) =
     base64_digit (of_char a div 4)
     # base64_digit (of_char a mod 4 * 16 + of_char b div 16)
     # base64_digit (of_char b mod 16 * 4 + of_char c div 64)
     # base64_digit (of_char c mod 64) # base64url s"
| "base64url [a, b] =
     [base64_digit (of_char a div 4), base64_digit (of_char a mod 4 * 16 + of_char b div 16),
      base64_digit (of_char b mod 16 * 4)]"
| "base64url [a] = [base64_digit (of_char a div 4), base64_digit (of_char a mod 4 * 16)]"
| "base64url [] = []"

definition token_hash :: "string \<Rightarrow> string" where
  "token_hash tok = sha256_hex tok"

definition request_id :: "string \<Rightarrow> string" where
  "request_id b = hex_encode (take 12 (sha256 (''id:'' @ b)))"

definition parse_stored :: "time \<Rightarrow> time option" where
  "parse_stored t = (if in_range t then Some t else None)"

text \<open>\<open>et, _ := time.Parse(...)\<close>: the zero time where the text does not parse.\<close>

definition expiry_of :: "request_row \<Rightarrow> time" where
  "expiry_of r = (case parse_stored (a_expires r) of None \<Rightarrow> 0 | Some t \<Rightarrow> t)"

definition by_token :: "string \<Rightarrow> appr_db \<Rightarrow> request_row option" where
  "by_token tok db = select_one (\<lambda>r. a_token_hash r = token_hash tok) (requests db)"

definition log_event :: "string \<Rightarrow> int \<Rightarrow> string \<Rightarrow> string \<Rightarrow> time \<Rightarrow> appr_db \<Rightarrow> appr_db" where
  "log_event kind user resource decision now db =
     db\<lparr>audit := snd (Append_audit
       \<lparr>u_seq = 0, u_at = [], u_kind = kind, u_user = user, u_resource = resource, u_decision = decision,
        u_prev = [], u_hash = []\<rparr> now (audit db))\<rparr>"

section \<open>The operations\<close>

definition Create_request ::
  "string \<Rightarrow> int \<Rightarrow> string \<Rightarrow> string \<Rightarrow> string \<Rightarrow> duration \<Rightarrow> time \<Rightarrow> time \<Rightarrow> time \<Rightarrow> appr_db \<Rightarrow>
   (appr_error, appr_request) result \<times> appr_db" where
  "Create_request b user tool args resource ttl now created logged db =
     (let tok = base64url b;
          q = \<lparr>q_id = request_id b, q_token = tok, q_user = user, q_tool = tool, q_args_hash = args,
               q_resource = resource, q_expires = now + ttl\<rparr>;
          row = \<lparr>a_id = q_id q, a_token_hash = token_hash tok, a_user = user, a_tool = tool,
                 a_args_hash = args, a_resource = resource, a_expires = now + ttl, a_state = APending,
                 a_created_at = created, a_resolved_at = None\<rparr>
      in if exists_where (\<lambda>r. a_id r = a_id row \<or> a_token_hash r = a_token_hash row) (requests db)
         then (Inl ConstraintFailed, db)
         else (Inr q, log_event ''approval_requested'' user resource ''pending'' logged
                        (db\<lparr>requests := requests db @ [row]\<rparr>)))"

definition decision_state :: "string \<Rightarrow> appr_state" where
  "decision_state d = (if d = ''approved'' then AApproved else ADenied)"

definition Resolve_request ::
  "string \<Rightarrow> int \<Rightarrow> string \<Rightarrow> string \<Rightarrow> string \<Rightarrow> string \<Rightarrow> time \<Rightarrow> time \<Rightarrow> time \<Rightarrow> appr_db \<Rightarrow>
   (appr_error, unit) result \<times> appr_db" where
  "Resolve_request tok user tool args resource decision now resolved logged db =
     (if decision \<noteq> ''approved'' \<and> decision \<noteq> ''denied'' then (Inl InvalidDecision, db)
      else case by_token tok db of
        None \<Rightarrow> (Inl NotFound, db)
      | Some r \<Rightarrow>
          if a_state r \<noteq> APending then (Inl AlreadyResolved, db)
          else if now > expiry_of r
          then (Inl ExpiredApproval,
                db\<lparr>requests := update_where (\<lambda>q. a_id q = a_id r) (\<lambda>q. q\<lparr>a_state := AExpired\<rparr>) (requests db)\<rparr>)
          else if a_user r \<noteq> user \<or> a_tool r \<noteq> tool \<or> a_args_hash r \<noteq> args \<or> a_resource r \<noteq> resource
          then (Inl BindingMismatch, db)
          else (let p = (\<lambda>q. a_id q = a_id r \<and> a_state q = APending);
                    f = (\<lambda>q. q\<lparr>a_state := decision_state decision, a_resolved_at := Some resolved\<rparr>)
                in if rows_affected p (requests db) \<noteq> 1 then (Inl Replay, db)
                   else (Inr (), log_event ''approval_resolved'' user resource decision logged
                                   (db\<lparr>requests := update_where p f (requests db)\<rparr>))))"

definition ResolveToken ::
  "string \<Rightarrow> int \<Rightarrow> string \<Rightarrow> time \<Rightarrow> time \<Rightarrow> time \<Rightarrow> appr_db \<Rightarrow> (appr_error, unit) result \<times> appr_db" where
  "ResolveToken tok user decision now resolved logged db =
     (case by_token tok db of
        None \<Rightarrow> (Inl NotFound, db)
      | Some r \<Rightarrow>
          if a_user r \<noteq> user then (Inl BindingMismatch, db)
          else Resolve_request tok user (a_tool r) (a_args_hash r) (a_resource r) decision now resolved logged db)"

definition AuthorizeReceipt ::
  "string \<Rightarrow> int \<Rightarrow> string \<Rightarrow> string \<Rightarrow> string \<Rightarrow> time \<Rightarrow> time \<Rightarrow> appr_db \<Rightarrow>
   (appr_error, receipt) result \<times> appr_db" where
  "AuthorizeReceipt tok user tool args resource now used db =
     (case by_token tok db of
        None \<Rightarrow> (Inl NotFound, db)
      | Some r \<Rightarrow>
          (case parse_stored (a_expires r) of
             None \<Rightarrow> (Inl ExpiredApproval, db)
           | Some expiry \<Rightarrow>
               if \<not> now < expiry then (Inl ExpiredApproval, db)
               else if a_state r \<noteq> AApproved \<or> a_user r \<noteq> user \<or> a_tool r \<noteq> tool \<or> a_args_hash r \<noteq> args
                   \<or> a_resource r \<noteq> resource
               then (Inl NotAuthorized, db)
               else if a_id r \<in> fst ` set (uses db) then (Inl AlreadyUsed, db)
               else (Inr \<lparr>c_id = a_id r, c_user = a_user r, c_tool = a_tool r, c_args_hash = a_args_hash r,
                          c_resource = a_resource r, c_expires = expiry\<rparr>,
                     db\<lparr>uses := uses db @ [(a_id r, used)]\<rparr>)))"

definition Authorize_request ::
  "string \<Rightarrow> int \<Rightarrow> string \<Rightarrow> string \<Rightarrow> string \<Rightarrow> time \<Rightarrow> time \<Rightarrow> appr_db \<Rightarrow> (appr_error, unit) result \<times> appr_db" where
  "Authorize_request tok user tool args resource now used db =
     (case AuthorizeReceipt tok user tool args resource now used db of
        (Inl e, db') \<Rightarrow> (Inl e, db') | (Inr _, db') \<Rightarrow> (Inr (), db'))"

section \<open>Sequences of operations\<close>

datatype appr_op =
    OpRequest string int string string string duration time time time
  | OpResolve string int string string string string time time time
  | OpResolveToken string int string time time time
  | OpRedeem string int string string string time time

fun appr_step :: "appr_op \<Rightarrow> appr_db \<Rightarrow> appr_db" where
  "appr_step (OpRequest b u t a r ttl n1 n2 n3) db = snd (Create_request b u t a r ttl n1 n2 n3 db)"
| "appr_step (OpResolve tok u t a r d n1 n2 n3) db = snd (Resolve_request tok u t a r d n1 n2 n3 db)"
| "appr_step (OpResolveToken tok u d n1 n2 n3) db = snd (ResolveToken tok u d n1 n2 n3 db)"
| "appr_step (OpRedeem tok u t a r n1 n2) db = snd (AuthorizeReceipt tok u t a r n1 n2 db)"

definition appr_run :: "appr_op list \<Rightarrow> appr_db" where
  "appr_run es = fold appr_step es no_approvals"


section \<open>The invariant\<close>

definition appr_inv :: "appr_db \<Rightarrow> bool" where
  "appr_inv db \<longleftrightarrow> distinct (map a_id (requests db)) \<and> distinct (map a_token_hash (requests db))
     \<and> distinct (map fst (uses db))
     \<and> (\<forall>u \<in> set (uses db). \<exists>r \<in> set (requests db). a_id r = fst u \<and> a_state r = AApproved)"

lemma appr_inv_empty: "appr_inv no_approvals"
  by (simp add: appr_inv_def no_approvals_def)

lemma by_tokenD: "by_token tok db = Some r \<Longrightarrow> r \<in> set (requests db) \<and> a_token_hash r = token_hash tok"
  unfolding by_token_def by (rule select_oneD)

lemma same_request: "appr_inv db \<Longrightarrow> r \<in> set (requests db) \<Longrightarrow> q \<in> set (requests db) \<Longrightarrow> a_id r = a_id q \<Longrightarrow> r = q"
  by (rule distinct_map_eq [of a_id]) (simp_all add: appr_inv_def)

lemma log_event_frame [simp]: "requests (log_event k u r d now db) = requests db" "uses (log_event k u r d now db) = uses db"
  by (simp_all add: log_event_def)

text \<open>An update of the requests that settles one of them.\<close>

definition settling :: "(request_row \<Rightarrow> request_row) \<Rightarrow> appr_state \<Rightarrow> bool" where
  "settling f st \<longleftrightarrow> st \<noteq> APending \<and> (\<forall>q. a_id (f q) = a_id q \<and> a_token_hash (f q) = a_token_hash q
     \<and> a_user (f q) = a_user q \<and> a_tool (f q) = a_tool q \<and> a_args_hash (f q) = a_args_hash q
     \<and> a_resource (f q) = a_resource q \<and> a_expires (f q) = a_expires q \<and> a_state (f q) = st)"

text \<open>Who approves what: the event carries the token of the request and comes from its user.\<close>

fun approves :: "appr_op \<Rightarrow> request_row \<Rightarrow> bool" where
  "approves (OpResolve tok u t a res d now n2 n3) r =
     (token_hash tok = a_token_hash r \<and> u = a_user r \<and> t = a_tool r \<and> a = a_args_hash r
      \<and> res = a_resource r \<and> d = ''approved'' \<and> now \<le> expiry_of r)"
| "approves (OpResolveToken tok u d now n2 n3) r =
     (token_hash tok = a_token_hash r \<and> u = a_user r \<and> d = ''approved'' \<and> now \<le> expiry_of r)"
| "approves _ r = False"

text \<open>What a step does to the tables: nothing, add a request, settle one, or redeem one.\<close>

inductive appr_effect :: "appr_op \<Rightarrow> appr_db \<Rightarrow> appr_db \<Rightarrow> bool" for e db db' where
  same: "requests db' = requests db \<Longrightarrow> uses db' = uses db \<Longrightarrow> appr_effect e db db'"
| added: "requests db' = requests db @ [row] \<Longrightarrow> uses db' = uses db \<Longrightarrow> a_state row = APending \<Longrightarrow>
    (\<And>r. r \<in> set (requests db) \<Longrightarrow> a_id r \<noteq> a_id row \<and> a_token_hash r \<noteq> a_token_hash row) \<Longrightarrow>
    appr_effect e db db'"
| settled: "requests db' = update_where (\<lambda>q. a_id q = a_id r) f (requests db) \<Longrightarrow> uses db' = uses db \<Longrightarrow>
    r \<in> set (requests db) \<Longrightarrow> a_state r = APending \<Longrightarrow> settling f st \<Longrightarrow>
    (st = AApproved \<Longrightarrow> approves e r) \<Longrightarrow> appr_effect e db db'"
| redeemed: "requests db' = requests db \<Longrightarrow> uses db' = uses db @ [(a_id r, used)] \<Longrightarrow>
    r \<in> set (requests db) \<Longrightarrow> a_state r = AApproved \<Longrightarrow> a_id r \<notin> fst ` set (uses db) \<Longrightarrow>
    appr_effect e db db'"

lemma Create_effect: "appr_effect e db (snd (Create_request b u t a r ttl n1 n2 n3 db))"
proof -
  define row where "row = \<lparr>a_id = request_id b, a_token_hash = token_hash (base64url b), a_user = u, a_tool = t,
    a_args_hash = a, a_resource = r, a_expires = n1 + ttl, a_state = APending, a_created_at = n2, a_resolved_at = None\<rparr>"
  show ?thesis
  proof (cases "exists_where (\<lambda>r. a_id r = a_id row \<or> a_token_hash r = a_token_hash row) (requests db)")
    case True
    then show ?thesis by (intro same) (simp_all add: Create_request_def Let_def row_def)
  next
    case False
    show ?thesis
      by (rule added [where row = row]) (use False in \<open>auto simp: Create_request_def Let_def row_def\<close>)
  qed
qed

lemma Resolve_effect:
  assumes "appr_inv db"
    and "\<And>r. r \<in> set (requests db) \<Longrightarrow> token_hash tok = a_token_hash r \<Longrightarrow> a_user r = u \<Longrightarrow> a_tool r = t \<Longrightarrow>
      a_args_hash r = a \<Longrightarrow> a_resource r = res \<Longrightarrow> d = ''approved'' \<Longrightarrow> n1 \<le> expiry_of r \<Longrightarrow> approves e r"
  shows "appr_effect e db (snd (Resolve_request tok u t a res d n1 n2 n3 db))"
proof (cases "(d = ''approved'' \<or> d = ''denied'') \<and> (\<exists>r. by_token tok db = Some r \<and> a_state r = APending)")
  case False
  then show ?thesis
    by (intro same) (auto simp: Resolve_request_def split: option.split)
next
  case True
  then obtain r where r: "by_token tok db = Some r" "a_state r = APending" and d: "d = ''approved'' \<or> d = ''denied''"
    by blast
  note row = by_tokenD [OF r(1)]
  show ?thesis
  proof (cases "n1 > expiry_of r")
    case True
    show ?thesis
      by (rule settled [where r = r and f = "\<lambda>q. q\<lparr>a_state := AExpired\<rparr>" and st = AExpired])
         (use True r d row in \<open>auto simp: Resolve_request_def settling_def\<close>)
  next
    case live: False
    show ?thesis
    proof (cases "a_user r \<noteq> u \<or> a_tool r \<noteq> t \<or> a_args_hash r \<noteq> a \<or> a_resource r \<noteq> res")
      case True
      then show ?thesis using live r d by (intro same) (auto simp: Resolve_request_def)
    next
      case False
      let ?f = "\<lambda>q. q\<lparr>a_state := decision_state d, a_resolved_at := Some n2\<rparr>"
      have "update_where (\<lambda>q. a_id q = a_id r \<and> a_state q = APending) ?f (requests db)
          = update_where (\<lambda>q. a_id q = a_id r) ?f (requests db)"
        by (rule update_where_cong) (use same_request [OF assms(1)] row r(2) in auto)
      moreover have "rows_affected (\<lambda>q. a_id q = a_id r \<and> a_state q = APending) (requests db) = 1"
        by (rule rows_affected_distinct [of a_id _ r]) (use assms(1) row r(2) in \<open>auto simp: appr_inv_def\<close>)
      ultimately have "requests (snd (Resolve_request tok u t a res d n1 n2 n3 db)) =
          update_where (\<lambda>q. a_id q = a_id r) ?f (requests db)
        \<and> uses (snd (Resolve_request tok u t a res d n1 n2 n3 db)) = uses db"
        using False live r d by (auto simp: Resolve_request_def Let_def)
      then show ?thesis
        by (intro settled [where r = r and f = ?f and st = "decision_state d"])
           (use row r d False live assms(2) [of r] in \<open>auto simp: settling_def decision_state_def\<close>)
    qed
  qed
qed

lemma Redeem_effect: "appr_effect e db (snd (AuthorizeReceipt tok u t a res now used db))"
proof (cases "is_ok (fst (AuthorizeReceipt tok u t a res now used db))")
  case True
  then obtain r where "by_token tok db = Some r" "a_state r = AApproved" "a_id r \<notin> fst ` set (uses db)"
    "snd (AuthorizeReceipt tok u t a res now used db) = db\<lparr>uses := uses db @ [(a_id r, used)]\<rparr>"
    by (auto simp: AuthorizeReceipt_def split: option.splits if_splits)
  then show ?thesis by (intro redeemed [where r = r]) (auto dest: by_tokenD)
next
  case False
  then show ?thesis
    by (intro same) (auto simp: AuthorizeReceipt_def split: option.splits)
qed

lemma appr_step_effect:
  assumes "appr_inv db"
  shows "appr_effect e db (appr_step e db)"
proof (cases e)
  case (OpResolveToken tok u d n1 n2 n3)
  show ?thesis
  proof (cases "\<exists>r. by_token tok db = Some r \<and> a_user r = u")
    case False
    then show ?thesis by (intro same) (auto simp: OpResolveToken ResolveToken_def split: option.split)
  next
    case True
    then obtain r where "by_token tok db = Some r" "a_user r = u" by blast
    then show ?thesis
      using Resolve_effect [OF assms, of tok u "a_tool r" "a_args_hash r" "a_resource r" d n1 e n2 n3]
      by (simp add: OpResolveToken ResolveToken_def)
  qed
qed (simp_all add: Create_effect Resolve_effect [OF assms] Redeem_effect)

lemma update_settling_state:
  assumes "settling f st" and "q \<in> set (update_where (\<lambda>q. a_id q = a_id r) f rows)" and "a_id q \<noteq> a_id r"
  shows "q \<in> set rows"
  using assms(2)
proof (cases rule: update_whereE)
  case (changed q0)
  with assms(1,3) show ?thesis by (simp add: settling_def)
qed

lemma appr_effect_keeps:
  assumes "appr_inv db" and "appr_effect e db db'"
  shows "appr_inv db'"
  using assms(2)
proof cases
  case same
  with assms(1) show ?thesis by (simp add: appr_inv_def)
next
  case (added row)
  with assms(1) show ?thesis by (fastforce simp: appr_inv_def)
next
  case (settled r f st)
  have ids: "map a_id (requests db') = map a_id (requests db)"
    "map a_token_hash (requests db') = map a_token_hash (requests db)"
    unfolding settled(1) by (rule map_update_where; use settled(5) in \<open>simp add: settling_def\<close>)+
  have "\<exists>q \<in> set (requests db'). a_id q = fst x \<and> a_state q = AApproved" if x: "x \<in> set (uses db)" for x
  proof -
    obtain q where q: "q \<in> set (requests db)" "a_id q = fst x" "a_state q = AApproved"
      using assms(1) x by (auto simp: appr_inv_def)
    then have "a_id q \<noteq> a_id r" using same_request [OF assms(1) q(1) settled(3)] settled(4) by auto
    with q show ?thesis unfolding settled(1) by (intro bexI [of _ q]) (auto simp: set_update_where intro!: bexI [of _ q])
  qed
  with assms(1) settled(2) ids show ?thesis by (simp add: appr_inv_def)
next
  case (redeemed r used)
  with assms(1) show ?thesis by (auto simp: appr_inv_def intro!: bexI [of _ r])
qed


lemma appr_step_keeps: "appr_inv db \<Longrightarrow> appr_inv (appr_step e db)"
  using appr_effect_keeps appr_step_effect by blast

interpretation approvals: machine appr_step appr_inv
  by unfold_locales (rule appr_step_keeps)

lemma appr_run_inv: "appr_inv (appr_run es)"
  unfolding appr_run_def by (rule approvals.run_keeps) (rule appr_inv_empty)

section \<open>What never changes again\<close>

text \<open>The request of a token, the verdict on a request, and that a request was redeemed.\<close>

definition ticket :: "appr_db \<Rightarrow> string \<Rightarrow> string option" where
  "ticket db h = map_option a_id (select_one (\<lambda>r. a_token_hash r = h) (requests db))"

definition verdict :: "appr_db \<Rightarrow> string \<Rightarrow> appr_state option" where
  "verdict db k = map_option a_state (select_one (\<lambda>r. a_id r = k) (requests db))"

definition spent :: "appr_db \<Rightarrow> string \<Rightarrow> unit option" where
  "spent db k = (if k \<in> fst ` set (uses db) then Some () else None)"

lemma ticket_effect: "appr_effect e db db' \<Longrightarrow> ticket db h = Some k \<Longrightarrow> ticket db' h = Some k"
proof (induction rule: appr_effect.induct)
  case (settled r f st)
  have "select_one (\<lambda>q. a_token_hash q = h) (requests db') =
      map_option (\<lambda>q. if a_id q = a_id r then f q else q) (select_one (\<lambda>q. a_token_hash q = h) (requests db))"
    unfolding settled(1) by (rule select_one_update) (use settled(5) in \<open>simp add: settling_def\<close>)
  moreover obtain q where "select_one (\<lambda>q. a_token_hash q = h) (requests db) = Some q" "a_id q = k"
    using settled(7) by (auto simp: ticket_def)
  ultimately show ?case using settled(5) by (simp add: ticket_def settling_def)
qed (auto simp: ticket_def select_one_append)

lemma verdict_effect:
  "appr_effect e db db' \<Longrightarrow> appr_inv db \<Longrightarrow> verdict db k = Some st \<Longrightarrow> st \<noteq> APending \<Longrightarrow> verdict db' k = Some st"
proof (induction rule: appr_effect.induct)
  case (settled r f st')
  from settled(8) obtain q where q: "select_one (\<lambda>q. a_id q = k) (requests db) = Some q" "a_state q = st"
    by (auto simp: verdict_def)
  then have "a_id q \<noteq> a_id r"
    using same_request [OF settled(7) _ settled(3)] settled(4,9) select_oneD by fastforce
  moreover have "select_one (\<lambda>q. a_id q = k) (requests db') =
      map_option (\<lambda>q. if a_id q = a_id r then f q else q) (select_one (\<lambda>q. a_id q = k) (requests db))"
    unfolding settled(1) by (rule select_one_update) (use settled(5) in \<open>simp add: settling_def\<close>)
  ultimately show ?case using q by (simp add: verdict_def)
qed (auto simp: verdict_def select_one_append)

lemma spent_effect: "appr_effect e db db' \<Longrightarrow> spent db k = Some x \<Longrightarrow> spent db' k = Some x"
  by (induction rule: appr_effect.induct) (auto simp: spent_def split: if_splits)

interpretation tickets: final_machine appr_step appr_inv ticket "\<lambda>k. True"
  by unfold_locales (erule ticket_effect [OF appr_step_effect])

interpretation verdicts: final_machine appr_step appr_inv verdict "\<lambda>st. st \<noteq> APending"
  by unfold_locales (blast intro: verdict_effect appr_step_effect)

interpretation spending: final_machine appr_step appr_inv spent "\<lambda>x. True"
  by unfold_locales (erule spent_effect [OF appr_step_effect])

lemma approves_settling: "settling f st \<Longrightarrow> approves e (f q) = approves e q"
  by (cases e) (auto simp: settling_def expiry_of_def)

lemma approved_by_someone:
  "r \<in> set (requests (appr_run es)) \<Longrightarrow> a_state r = AApproved \<Longrightarrow> \<exists>e \<in> set es. approves e r"
proof (induction es arbitrary: r rule: rev_induct)
  case (snoc e es)
  have "appr_effect e (appr_run es) (appr_run (es @ [e]))"
    using appr_step_effect [OF appr_run_inv] by (simp add: appr_run_def)
  then show ?case
  proof cases
    case same
    with snoc show ?thesis by auto
  next
    case (added row)
    with snoc show ?thesis by auto
  next
    case (settled q f st)
    from snoc.prems(1) have "r \<in> set (update_where (\<lambda>x. a_id x = a_id q) f (requests (appr_run es)))"
      by (simp add: settled(1))
    then show ?thesis
    proof (cases rule: update_whereE)
      case kept
      with snoc show ?thesis by auto
    next
      case (changed q0)
      then have "q0 = q" using same_request [OF appr_run_inv _ settled(3)] by simp
      moreover have "st = AApproved" using changed snoc.prems(2) settled(5) by (simp add: settling_def)
      ultimately show ?thesis using changed settled(5,6) approves_settling by auto
    qed
  next
    case (redeemed q used)
    with snoc show ?thesis by auto
  qed
qed (simp add: appr_run_def no_approvals_def)

text \<open>An approved row stays in the table as it is.\<close>

definition approvals_stay :: "appr_db \<Rightarrow> appr_db \<Rightarrow> bool" where
  "approvals_stay db db' \<longleftrightarrow> (\<forall>r \<in> set (requests db). a_state r = AApproved \<longrightarrow> r \<in> set (requests db'))"

lemma approvals_stay_refl [simp]: "approvals_stay db db"
  by (simp add: approvals_stay_def)

lemma appr_effect_stays:
  assumes "appr_inv db" and "appr_effect e db db'"
  shows "approvals_stay db db'"
  unfolding approvals_stay_def
proof (intro ballI impI)
  fix r assume r: "r \<in> set (requests db)" "a_state r = AApproved"
  from assms(2) show "r \<in> set (requests db')"
  proof cases
    case (settled q f st)
    have "a_id r \<noteq> a_id q" using same_request [OF assms(1) r(1) settled(3)] r(2) settled(4) by auto
    then show ?thesis using r(1) by (auto simp: settled(1) set_update_where)
  qed (use r in auto)
qed

lemma appr_step_stays: "appr_inv db \<Longrightarrow> approvals_stay db (appr_step e db)"
  by (rule appr_effect_stays [OF _ appr_step_effect])

section \<open>The theorems\<close>

text \<open>
  A receipt is only issued for a request that its own user approved with the token, before it
  expired, for exactly the tool, the arguments and the resource presented; the request has not
  expired and was never redeemed before.
\<close>

theorem redeem_needs_approval:
  assumes "AuthorizeReceipt tok u t a res now used (appr_run es) = (Inr c, db')"
  shows "\<exists>r \<in> set (requests (appr_run es)). a_token_hash r = token_hash tok \<and> a_user r = u \<and> a_tool r = t
    \<and> a_args_hash r = a \<and> a_resource r = res \<and> now < a_expires r \<and> a_id r \<notin> fst ` set (uses (appr_run es))
    \<and> c_id c = a_id r \<and> (\<exists>e \<in> set es. approves e r)"
proof -
  from assms obtain r where r: "by_token tok (appr_run es) = Some r" "a_state r = AApproved"
    "a_user r = u" "a_tool r = t" "a_args_hash r = a" "a_resource r = res" "now < a_expires r"
    "a_id r \<notin> fst ` set (uses (appr_run es))" "c_id c = a_id r"
    by (auto simp: AuthorizeReceipt_def parse_stored_def split: option.splits if_splits)
  with by_tokenD [OF r(1)] approved_by_someone [of r es] show ?thesis by auto
qed

text \<open>
  C6: A token is redeemed at most once: after a receipt was issued for it, no later presentation of
  the token, by anyone, for anything, at any time, after any other operations, yields another.
\<close>

theorem redeem_once:
  assumes "AuthorizeReceipt tok u t a res now used (appr_run es) = (Inr c, db')"
    and "db'' = fold appr_step fs db'"
  shows "\<exists>err. AuthorizeReceipt tok u' t' a' res' now' used' db'' = (Inl err, db'')"
proof -
  from assms(1) obtain r where r: "by_token tok (appr_run es) = Some r"
    and db': "db' = (appr_run es)\<lparr>uses := uses (appr_run es) @ [(a_id r, used)]\<rparr>"
    by (auto simp: AuthorizeReceipt_def split: option.splits if_splits)
  have inv: "appr_inv db'"
    using appr_step_keeps [OF appr_run_inv, of "OpRedeem tok u t a res now used" es] assms(1) by simp
  have "ticket db'' (token_hash tok) = Some (a_id r)"
    unfolding assms(2) by (rule tickets.final_run [OF inv]) (use r in \<open>simp_all add: db' ticket_def by_token_def\<close>)
  moreover have "spent db'' (a_id r) = Some ()"
    unfolding assms(2) by (rule spending.final_run [OF inv]) (simp_all add: db' spent_def)
  ultimately obtain q where "by_token tok db'' = Some q" "a_id q \<in> fst ` set (uses db'')"
    by (auto simp: ticket_def by_token_def spent_def split: if_splits)
  then show ?thesis by (auto simp: AuthorizeReceipt_def split: option.split)
qed

text \<open>
  The verdict on a request is final: approved, denied or expired, it stays so through every
  later sequence of operations.
\<close>

theorem verdict_is_final:
  assumes "verdict (appr_run es) k = Some st" and "st \<noteq> APending"
  shows "verdict (fold appr_step fs (appr_run es)) k = Some st"
  using appr_run_inv assms by (rule verdicts.final_run)

text \<open>
  An approved request is redeemed when its user presents its token with the bound tool,
  arguments and resource before the expiry, unless it was redeemed already.
\<close>

theorem redeem_succeeds:
  assumes "r \<in> set (requests (appr_run es))" and "a_state r = AApproved" and "a_token_hash r = token_hash tok"
    and "in_range (a_expires r)" and "now < a_expires r" and "a_id r \<notin> fst ` set (uses (appr_run es))"
  shows "\<exists>c db'. AuthorizeReceipt tok (a_user r) (a_tool r) (a_args_hash r) (a_resource r) now used (appr_run es)
    = (Inr c, db') \<and> c_id c = a_id r \<and> a_id r \<in> fst ` set (uses db')"
proof -
  have "by_token tok (appr_run es) = Some r"
    using select_one_key [of a_token_hash "requests (appr_run es)" r] appr_run_inv [of es] assms(1,3)
    by (simp add: by_token_def appr_inv_def)
  with assms show ?thesis by (simp add: AuthorizeReceipt_def parse_stored_def)
qed


section \<open>The theorems at one approved request\<close>

definition demo_bytes :: string where "demo_bytes = ''abcdefghijklmnopqrstuvwx''"
definition demo_token :: string where "demo_token = base64url demo_bytes"

definition demo_events :: "appr_op list" where
  "demo_events =
     [OpRequest demo_bytes 7 ''git.push'' ''args'' ''repo'' hour 0 0 0,
      OpResolve demo_token 7 ''git.push'' ''args'' ''repo'' ''approved'' second second second]"

definition demo_request :: request_row where
  "demo_request = \<lparr>a_id = request_id demo_bytes, a_token_hash = token_hash demo_token, a_user = 7,
     a_tool = ''git.push'', a_args_hash = ''args'', a_resource = ''repo'', a_expires = hour, a_state = AApproved,
     a_created_at = 0, a_resolved_at = Some second\<rparr>"

definition demo_receipt :: receipt where
  "demo_receipt = \<lparr>c_id = request_id demo_bytes, c_user = 7, c_tool = ''git.push'', c_args_hash = ''args'',
     c_resource = ''repo'', c_expires = hour\<rparr>"

lemma demo_requests: "requests (appr_run demo_events) = [demo_request]" "uses (appr_run demo_events) = []"
  by (simp_all add: appr_run_def demo_events_def no_approvals_def Create_request_def Resolve_request_def
      Let_def by_token_def select_one_def demo_token_def expiry_of_def parse_stored_def in_range_def
      max_seconds_def units rows_affected_def update_where_def decision_state_def demo_request_def)

lemma demo_redeem:
  "fst (AuthorizeReceipt demo_token 7 ''git.push'' ''args'' ''repo'' minute minute (appr_run demo_events)) = Inr demo_receipt"
  by (simp add: AuthorizeReceipt_def by_token_def select_one_def demo_requests demo_request_def parse_stored_def
      in_range_def max_seconds_def units demo_receipt_def)

lemma demo_redeemed:
  "AuthorizeReceipt demo_token 7 ''git.push'' ''args'' ''repo'' minute minute (appr_run demo_events) =
   (Inr demo_receipt, snd (AuthorizeReceipt demo_token 7 ''git.push'' ''args'' ''repo'' minute minute (appr_run demo_events)))"
  by (rule prod_eqI) (simp_all add: demo_redeem)

lemma redeem_needs_approval_witness: "\<exists>e \<in> set demo_events. approves e demo_request"
  using redeem_needs_approval [OF demo_redeemed]
  by (simp add: demo_requests)

lemma redeem_once_witness:
  "\<exists>err. fst (AuthorizeReceipt demo_token 7 ''git.push'' ''args'' ''repo'' (2 * minute) (2 * minute)
     (snd (AuthorizeReceipt demo_token 7 ''git.push'' ''args'' ''repo'' minute minute (appr_run demo_events)))) = Inl err"
proof -
  let ?db = "snd (AuthorizeReceipt demo_token 7 ''git.push'' ''args'' ''repo'' minute minute (appr_run demo_events))"
  have "?db = fold appr_step [] ?db" by simp
  from redeem_once [OF demo_redeemed this]
  show ?thesis by (metis fst_conv)
qed

lemma verdict_is_final_witness:
  "verdict (fold appr_step [OpResolveToken demo_token 7 ''denied'' minute minute minute] (appr_run demo_events))
     (request_id demo_bytes) = Some AApproved"
  by (rule verdict_is_final) (simp_all add: verdict_def demo_requests select_one_def demo_request_def)

lemma redeem_succeeds_witness:
  "\<exists>c db'. AuthorizeReceipt demo_token 7 ''git.push'' ''args'' ''repo'' minute minute (appr_run demo_events) = (Inr c, db')"
  using redeem_succeeds [of demo_request demo_events demo_token minute minute]
  by (auto simp: demo_requests demo_request_def in_range_def max_seconds_def units)

end
