(* ===== verification/Inbox.thy ===== *)
theory Inbox
  imports GoTime SqlTable GoText
begin

text \<open>
  Packages \<open>internal/message\<close> and \<open>internal/storage\<close> (\<open>db.go\<close>): the Telegram updates seen,
  the inbox of messages to process, the outbox of replies to send, and \<open>Open\<close> with its
  migrations and its recovery after a crash. Each reading of the clock is an argument. A message is
  kept as the value that its JSON column encodes. \<open>updated_at\<close> is only written, never read, so
  its text is kept.
\<close>

section \<open>Messages and tables\<close>

record inbound =
  in_update :: int
  in_message :: int
  in_chat :: int
  in_user :: int
  in_chat_type :: string
  in_text :: string
  in_received :: time

record outbound =
  out_chat :: int
  out_text :: string
  out_reply_to :: int

datatype inbox_state = MPending | MRunning | MCompleted | MFailed | MDead
datatype outbox_state = OPending | OSending | OSent | ODead

record inbox_row =
  m_id :: int
  m_message :: inbound
  m_state :: inbox_state
  m_attempts :: int
  m_last_error :: string
  m_available_at :: time
  m_updated_at :: string

record outbox_row =
  o_id :: int
  o_inbox_id :: int
  o_key :: string
  o_message :: outbound
  o_state :: outbox_state
  o_attempts :: int
  o_last_error :: string
  o_available_at :: time
  o_updated_at :: string

record store =
  seen :: "(int \<times> string) list"
  inbox :: "inbox_row list"
  outbox :: "outbox_row list"
  inbox_seq :: int
  outbox_seq :: int
  versions :: "int list"
  tables :: "string list"

definition empty_store :: store where
  "empty_store = \<lparr>seen = [], inbox = [], outbox = [], inbox_seq = 0, outbox_seq = 0, versions = [], tables = []\<rparr>"

datatype store_error = StoreConstraint | MigrationFailed int | BadTable

section \<open>Open\<close>

text \<open>\<open>CREATE TABLE\<close> statements fail if a table is there already.\<close>

definition create_tables :: "string list \<Rightarrow> string list \<Rightarrow> string list option" where
  "create_tables new ts = (if list_ex (\<lambda>t. List.member ts t) new then None else Some (ts @ new))"

definition applyMigration ::
  "int \<Rightarrow> (string list \<Rightarrow> string list option) \<Rightarrow> store \<Rightarrow> (store_error, unit) result \<times> store" where
  "applyMigration version body db =
     (if List.member (versions db) version then (Inr (), db)
      else case body (tables db) of
        None \<Rightarrow> (Inl (MigrationFailed version), db)
      | Some ts \<Rightarrow> (Inr (), db\<lparr>tables := ts, versions := versions db @ [version]\<rparr>))"

definition schedulerMigration :: "string list \<Rightarrow> string list option" where
  "schedulerMigration = create_tables [''scheduled_jobs'', ''scheduled_runs'', ''job_locks'']"

definition instagramMigration :: "string list \<Rightarrow> string list option" where
  "instagramMigration = create_tables [''instagram_drafts'', ''instagram_publish_events'']"

definition add_version :: "int \<Rightarrow> int list \<Rightarrow> int list" where
  "add_version v vs = (if List.member vs v then vs else vs @ [v])"

text \<open>The statements of the constant \<open>schema\<close> that change an existing file: the versions 1 to 3.\<close>

definition base_schema :: "store \<Rightarrow> store" where
  "base_schema db = db\<lparr>versions := add_version 3 (add_version 2 (add_version 1 (versions db)))\<rparr>"

definition requeue_interrupted :: "string \<Rightarrow> store \<Rightarrow> store" where
  "requeue_interrupted stamp db =
     db\<lparr>inbox := update_where (\<lambda>r. m_state r = MRunning)
          (\<lambda>r. r\<lparr>m_state := MPending, m_updated_at := stamp\<rparr>) (inbox db),
        outbox := update_where (\<lambda>r. o_state r = OSending)
          (\<lambda>r. r\<lparr>o_state := OPending, o_updated_at := stamp\<rparr>) (outbox db)\<rparr>"

definition Open_store :: "string \<Rightarrow> store \<Rightarrow> (store_error, store) result \<times> store" where
  "Open_store stamp db =
     (let db0 = base_schema db in
      case applyMigration 4 schedulerMigration db0 of
        (Inl e, db1) \<Rightarrow> (Inl e, db1)
      | (Inr _, db1) \<Rightarrow>
          (case applyMigration 5 instagramMigration db1 of
             (Inl e, db2) \<Rightarrow> (Inl e, db2)
           | (Inr _, db2) \<Rightarrow> (Inr (requeue_interrupted stamp db2), requeue_interrupted stamp db2)))"

section \<open>The inbox\<close>

definition Ingest :: "inbound \<Rightarrow> string \<Rightarrow> time \<Rightarrow> store \<Rightarrow> (store_error, bool) result \<times> store" where
  "Ingest m hash now db =
     (if exists_where (\<lambda>u. fst u = in_update m) (seen db) then (Inr False, db)
      else if exists_where (\<lambda>r. in_update (m_message r) = in_update m) (inbox db) then (Inl StoreConstraint, db)
      else (Inr True,
            db\<lparr>seen := seen db @ [(in_update m, hash)],
               inbox := inbox db @ [\<lparr>m_id = inbox_seq db + 1, m_message = m, m_state = MPending, m_attempts = 0,
                 m_last_error = [], m_available_at = now, m_updated_at = formatTime now\<rparr>],
               inbox_seq := inbox_seq db + 1\<rparr>))"

record claimed =
  k_id :: int
  k_message :: inbound
  k_attempts :: int

definition inbox_order :: "inbox_row \<Rightarrow> inbox_row \<Rightarrow> bool" where
  "inbox_order r q \<longleftrightarrow> m_id r \<le> m_id q"

definition inbox_ready :: "time \<Rightarrow> inbox_row \<Rightarrow> bool" where
  "inbox_ready now r \<longleftrightarrow> m_state r = MPending \<and> sql_le (m_available_at r) now"

text \<open>The parameter \<open>max\<close> of \<open>ClaimInbox\<close> is not used by the code.\<close>

definition ClaimInbox :: "int \<Rightarrow> time \<Rightarrow> time \<Rightarrow> store \<Rightarrow> claimed option \<times> store" where
  "ClaimInbox limit now later db =
     (case first_by inbox_order (filter (inbox_ready now) (inbox db)) of
        None \<Rightarrow> (None, db)
      | Some r \<Rightarrow>
          (let p = (\<lambda>q. m_id q = m_id r \<and> m_state q = MPending);
               f = (\<lambda>q. q\<lparr>m_state := MRunning, m_attempts := m_attempts q + 1, m_updated_at := formatTime later\<rparr>)
           in if rows_affected p (inbox db) \<noteq> 1 then (None, db)
              else (Some \<lparr>k_id = m_id r, k_message = m_message r, k_attempts = m_attempts r\<rparr>,
                    db\<lparr>inbox := update_where p f (inbox db)\<rparr>)))"

definition CompleteWithOutbox :: "int \<Rightarrow> outbound \<Rightarrow> string \<Rightarrow> time \<Rightarrow> store \<Rightarrow> store" where
  "CompleteWithOutbox i out key now db =
     (let row = \<lparr>o_id = outbox_seq db + 1, o_inbox_id = i, o_key = key, o_message = out, o_state = OPending,
                 o_attempts = 0, o_last_error = [], o_available_at = now, o_updated_at = formatTime now\<rparr>;
          (os, fresh) = insert_or_ignore o_key row (outbox db)
      in db\<lparr>outbox := os, outbox_seq := if fresh then outbox_seq db + 1 else outbox_seq db,
            inbox := update_where (\<lambda>r. m_id r = i)
              (\<lambda>r. r\<lparr>m_state := MCompleted, m_updated_at := formatTime now\<rparr>) (inbox db)\<rparr>)"

text \<open>\<open>1<<min(attempts, 6)\<close> seconds; attempts are never negative.\<close>

definition retry_delay :: "int \<Rightarrow> duration" where
  "retry_delay attempts = 2 ^ nat (if attempts < 6 then attempts else 6) * second"

definition safeErr :: "string option \<Rightarrow> string" where
  "safeErr e = (case e of None \<Rightarrow> [] | Some s \<Rightarrow> if length s > 500 then take 500 s else s)"

definition FailInbox :: "int \<Rightarrow> string option \<Rightarrow> int \<Rightarrow> time \<Rightarrow> time \<Rightarrow> store \<Rightarrow> store" where
  "FailInbox i err limit now later db =
     (let attempts = (case select_one (\<lambda>r. m_id r = i) (inbox db) of None \<Rightarrow> 0 | Some r \<Rightarrow> m_attempts r);
          st = (if attempts \<ge> limit then MDead else MPending)
      in db\<lparr>inbox := update_where (\<lambda>r. m_id r = i)
           (\<lambda>r. r\<lparr>m_state := st, m_last_error := safeErr err, m_available_at := now + retry_delay attempts,
                  m_updated_at := formatTime later\<rparr>) (inbox db)\<rparr>)"

section \<open>The outbox\<close>

record claimed_out =
  y_id :: int
  y_message :: outbound
  y_attempts :: int
  y_key :: string

definition outbox_order :: "outbox_row \<Rightarrow> outbox_row \<Rightarrow> bool" where
  "outbox_order r q \<longleftrightarrow> o_id r \<le> o_id q"

definition outbox_ready :: "time \<Rightarrow> outbox_row \<Rightarrow> bool" where
  "outbox_ready now r \<longleftrightarrow> o_state r = OPending \<and> sql_le (o_available_at r) now"

definition ClaimOutbox :: "time \<Rightarrow> time \<Rightarrow> store \<Rightarrow> claimed_out option \<times> store" where
  "ClaimOutbox now later db =
     (case first_by outbox_order (filter (outbox_ready now) (outbox db)) of
        None \<Rightarrow> (None, db)
      | Some r \<Rightarrow>
          (let p = (\<lambda>q. o_id q = o_id r \<and> o_state q = OPending);
               f = (\<lambda>q. q\<lparr>o_state := OSending, o_attempts := o_attempts q + 1, o_updated_at := formatTime later\<rparr>)
           in if rows_affected p (outbox db) \<noteq> 1 then (None, db)
              else (Some \<lparr>y_id = o_id r, y_message = o_message r, y_attempts = o_attempts r, y_key = o_key r\<rparr>,
                    db\<lparr>outbox := update_where p f (outbox db)\<rparr>)))"

definition OutboxSent :: "int \<Rightarrow> time \<Rightarrow> store \<Rightarrow> store" where
  "OutboxSent i now db =
     db\<lparr>outbox := update_where (\<lambda>r. o_id r = i) (\<lambda>r. r\<lparr>o_state := OSent, o_updated_at := formatTime now\<rparr>) (outbox db)\<rparr>"

definition OutboxFailed :: "int \<Rightarrow> string option \<Rightarrow> int \<Rightarrow> time \<Rightarrow> time \<Rightarrow> store \<Rightarrow> store" where
  "OutboxFailed i err limit now later db =
     (let a = (case select_one (\<lambda>r. o_id r = i) (outbox db) of None \<Rightarrow> 0 | Some r \<Rightarrow> o_attempts r);
          st = (if a \<ge> limit then ODead else OPending)
      in db\<lparr>outbox := update_where (\<lambda>r. o_id r = i)
           (\<lambda>r. r\<lparr>o_state := st, o_last_error := safeErr err, o_available_at := now + retry_delay a,
                  o_updated_at := formatTime later\<rparr>) (outbox db)\<rparr>)"

datatype count_state = InboxState inbox_state | OutboxState outbox_state

definition StateCount :: "string \<Rightarrow> count_state \<Rightarrow> store \<Rightarrow> (store_error, nat) result" where
  "StateCount table st db =
     (if table = ''inbox_messages''
      then Inr (length (filter (\<lambda>r. InboxState (m_state r) = st) (inbox db)))
      else if table = ''outbox_messages''
      then Inr (length (filter (\<lambda>r. OutboxState (o_state r) = st) (outbox db)))
      else Inl BadTable)"


section \<open>The invariant\<close>

definition store_inv :: "store \<Rightarrow> bool" where
  "store_inv db \<longleftrightarrow> distinct (map m_id (inbox db)) \<and> distinct (map (in_update \<circ> m_message) (inbox db))
     \<and> (\<forall>r \<in> set (inbox db). m_id r \<le> inbox_seq db \<and> 0 \<le> m_attempts r \<and> in_update (m_message r) \<in> fst ` set (seen db))
     \<and> distinct (map o_id (outbox db)) \<and> distinct (map o_key (outbox db))
     \<and> (\<forall>r \<in> set (outbox db). o_id r \<le> outbox_seq db)"

lemma store_inv_empty: "store_inv empty_store"
  by (simp add: store_inv_def empty_store_def)

lemma same_message: "store_inv db \<Longrightarrow> r \<in> set (inbox db) \<Longrightarrow> q \<in> set (inbox db) \<Longrightarrow> m_id r = m_id q \<Longrightarrow> r = q"
  by (rule distinct_map_eq [of m_id]) (simp_all add: store_inv_def)

lemma same_reply: "store_inv db \<Longrightarrow> r \<in> set (outbox db) \<Longrightarrow> q \<in> set (outbox db) \<Longrightarrow> o_id r = o_id q \<Longrightarrow> r = q"
  by (rule distinct_map_eq [of o_id]) (simp_all add: store_inv_def)

definition inbox_keeping :: "(inbox_row \<Rightarrow> inbox_row) \<Rightarrow> bool" where
  "inbox_keeping f \<longleftrightarrow> (\<forall>r. m_id (f r) = m_id r \<and> m_message (f r) = m_message r
     \<and> (0 \<le> m_attempts r \<longrightarrow> 0 \<le> m_attempts (f r)))"

definition outbox_keeping :: "(outbox_row \<Rightarrow> outbox_row) \<Rightarrow> bool" where
  "outbox_keeping f \<longleftrightarrow> (\<forall>r. o_id (f r) = o_id r \<and> o_key (f r) = o_key r \<and> o_message (f r) = o_message r)"

lemma inbox_update_inv [keeps]:
  assumes "store_inv db" and f: "inbox_keeping f"
  shows "store_inv (db\<lparr>inbox := update_where p f (inbox db)\<rparr>)"
proof -
  have "map m_id (update_where p f (inbox db)) = map m_id (inbox db)"
    and "map (in_update \<circ> m_message) (update_where p f (inbox db)) = map (in_update \<circ> m_message) (inbox db)"
    by (rule map_update_where; use f in \<open>simp add: inbox_keeping_def\<close>)+
  with assms show ?thesis by (auto simp: store_inv_def inbox_keeping_def set_update_where split: if_splits)
qed

lemma outbox_update_inv [keeps]:
  assumes "store_inv db" and f: "outbox_keeping f"
  shows "store_inv (db\<lparr>outbox := update_where p f (outbox db)\<rparr>)"
proof -
  have "map o_id (update_where p f (outbox db)) = map o_id (outbox db)"
    and "map o_key (update_where p f (outbox db)) = map o_key (outbox db)"
    by (rule map_update_where; use f in \<open>simp add: outbox_keeping_def\<close>)+
  with assms show ?thesis by (auto simp: store_inv_def outbox_keeping_def set_update_where split: if_splits)
qed

lemmas keeping = inbox_keeping_def outbox_keeping_def

lemma Ingest_inv [keeps]: "store_inv db \<Longrightarrow> store_inv (snd (Ingest m h now db))"
  by (fastforce simp: Ingest_def store_inv_def)

lemma ClaimInbox_inv [keeps]: "store_inv db \<Longrightarrow> store_inv (snd (ClaimInbox n now later db))"
  by (auto simp: ClaimInbox_def Let_def keeping intro!: inbox_update_inv split: option.split)

lemma FailInbox_inv [keeps]: "store_inv db \<Longrightarrow> store_inv (FailInbox i e n now later db)"
  by (simp add: FailInbox_def Let_def keeping inbox_update_inv)

lemma ClaimOutbox_inv [keeps]: "store_inv db \<Longrightarrow> store_inv (snd (ClaimOutbox now later db))"
  by (auto simp: ClaimOutbox_def Let_def keeping intro!: outbox_update_inv split: option.split)

lemma OutboxSent_inv [keeps]: "store_inv db \<Longrightarrow> store_inv (OutboxSent i now db)"
  by (simp add: OutboxSent_def keeping outbox_update_inv)

lemma OutboxFailed_inv [keeps]: "store_inv db \<Longrightarrow> store_inv (OutboxFailed i e n now later db)"
  by (simp add: OutboxFailed_def Let_def keeping outbox_update_inv)

text \<open>The two tables of \<open>CompleteWithOutbox\<close>.\<close>

definition reply_row :: "int \<Rightarrow> outbound \<Rightarrow> string \<Rightarrow> time \<Rightarrow> store \<Rightarrow> outbox_row" where
  "reply_row i out key now db = \<lparr>o_id = outbox_seq db + 1, o_inbox_id = i, o_key = key, o_message = out,
     o_state = OPending, o_attempts = 0, o_last_error = [], o_available_at = now, o_updated_at = formatTime now\<rparr>"

definition finished_inbox :: "int \<Rightarrow> time \<Rightarrow> inbox_row list \<Rightarrow> inbox_row list" where
  "finished_inbox i now = update_where (\<lambda>r. m_id r = i) (\<lambda>r. r\<lparr>m_state := MCompleted, m_updated_at := formatTime now\<rparr>)"

lemma CompleteWithOutbox_eq:
  "CompleteWithOutbox i out key now db =
     (if \<exists>q \<in> set (outbox db). o_key q = key then db\<lparr>inbox := finished_inbox i now (inbox db)\<rparr>
      else db\<lparr>inbox := finished_inbox i now (inbox db), outbox := outbox db @ [reply_row i out key now db],
              outbox_seq := outbox_seq db + 1\<rparr>)"
  by (simp add: CompleteWithOutbox_def Let_def insert_or_ignore_def reply_row_def finished_inbox_def)

lemma CompleteWithOutbox_inv [keeps]:
  assumes "store_inv db"
  shows "store_inv (CompleteWithOutbox i out key now db)"
proof -
  have "store_inv (db\<lparr>inbox := finished_inbox i now (inbox db)\<rparr>)"
    unfolding finished_inbox_def by (rule inbox_update_inv [OF assms]) (simp add: keeping)
  then show ?thesis by (fastforce simp: CompleteWithOutbox_eq store_inv_def reply_row_def)
qed

lemma requeue_inv [keeps]: "store_inv db \<Longrightarrow> store_inv (requeue_interrupted t db)"
proof -
  assume "store_inv db"
  then have "store_inv (db\<lparr>inbox := update_where (\<lambda>r. m_state r = MRunning)
      (\<lambda>r. r\<lparr>m_state := MPending, m_updated_at := t\<rparr>) (inbox db)\<rparr>)"
    by (rule inbox_update_inv) (simp add: keeping)
  from outbox_update_inv [OF this, of "\<lambda>r. r\<lparr>o_state := OPending, o_updated_at := t\<rparr>" "\<lambda>r. o_state r = OSending"]
  show ?thesis by (simp add: requeue_interrupted_def keeping)
qed

section \<open>Opening a store\<close>

lemma add_version_set: "set (add_version v vs) = insert v (set vs)"
  by (auto simp: add_version_def)

lemma applyMigration_atomic:
  "fst (applyMigration v body db) = Inl e \<Longrightarrow> snd (applyMigration v body db) = db"
  by (auto simp: applyMigration_def split: option.splits if_splits)

lemma applyMigration_applied:
  "fst (applyMigration v body db) = Inr () \<Longrightarrow> v \<in> set (versions (snd (applyMigration v body db)))"
  by (auto simp: applyMigration_def split: option.splits if_splits)

lemma applyMigration_twice:
  assumes "applyMigration v body db = (Inr (), db')"
  shows "applyMigration v body' db' = (Inr (), db')"
  using applyMigration_applied [of v body db] assms by (simp add: applyMigration_def)


lemma requeue_done:
  "r \<in> set (inbox (requeue_interrupted t db)) \<Longrightarrow> m_state r \<noteq> MRunning"
  "q \<in> set (outbox (requeue_interrupted t db)) \<Longrightarrow> o_state q \<noteq> OSending"
  by (simp_all add: requeue_interrupted_def) (drule update_whereD, simp, simp)+

lemma requeue_idle:
  assumes "\<And>r. r \<in> set (inbox db) \<Longrightarrow> m_state r \<noteq> MRunning" and "\<And>q. q \<in> set (outbox db) \<Longrightarrow> o_state q \<noteq> OSending"
  shows "requeue_interrupted t db = db"
  using assms by (simp add: requeue_interrupted_def update_where_none)

lemma OpenE:
  assumes "Open_store stamp db = (Inr db', db'')"
  obtains db2 where "db' = requeue_interrupted stamp db2" and "db'' = db'" and "{1, 2, 3, 4, 5} \<subseteq> set (versions db2)"
proof -
  from assms obtain db1 db2 where m4: "applyMigration 4 schedulerMigration (base_schema db) = (Inr (), db1)"
    and m5: "applyMigration 5 instagramMigration db1 = (Inr (), db2)"
    and db': "db' = requeue_interrupted stamp db2" "db'' = db'"
    by (auto simp: Open_store_def Let_def split: prod.splits sum.splits)
  have grow: "set (versions d) \<subseteq> set (versions d')" if "applyMigration v b d = (Inr (), d')" for v b d d'
    using that by (auto simp: applyMigration_def split: option.splits if_splits)
  have "4 \<in> set (versions db1)" "5 \<in> set (versions db2)"
    using applyMigration_applied [of 4 schedulerMigration "base_schema db"]
      applyMigration_applied [of 5 instagramMigration db1] m4 m5 by simp_all
  moreover have "{1, 2, 3} \<subseteq> set (versions (base_schema db))" by (auto simp: base_schema_def add_version_set)
  ultimately show ?thesis using that [OF db'] grow [OF m4] grow [OF m5] by blast
qed

text \<open>
  A successful \<open>Open\<close> leaves every migration applied and no message half-processed or
  half-sent.
\<close>

theorem Open_recovers:
  assumes "Open_store stamp db = (Inr db', db'')"
  shows "db'' = db' \<and> {1, 2, 3, 4, 5} \<subseteq> set (versions db')
    \<and> (\<forall>r \<in> set (inbox db'). m_state r \<noteq> MRunning) \<and> (\<forall>r \<in> set (outbox db'). o_state r \<noteq> OSending)"
  using assms
proof (rule OpenE)
  fix db2 assume "db' = requeue_interrupted stamp db2" "db'' = db'" "{1, 2, 3, 4, 5} \<subseteq> set (versions db2)"
  moreover from this have "versions db' = versions db2" by (simp add: requeue_interrupted_def)
  ultimately show ?thesis using requeue_done [of _ stamp db2] by auto
qed

text \<open>
  Opening a store again changes nothing: the migrations are not applied a second time and there
  is nothing left to recover.
\<close>

theorem Open_again:
  assumes "Open_store stamp db = (Inr db', db'')"
  shows "Open_store stamp' db' = (Inr db', db')"
  using assms
proof (rule OpenE)
  fix db2 assume db': "db' = requeue_interrupted stamp db2" and "{1, 2, 3, 4, 5} \<subseteq> set (versions db2)"
  then have vs: "{1, 2, 3, 4, 5} \<subseteq> set (versions db')" by (simp add: requeue_interrupted_def)
  then have "base_schema db' = db'" by (simp add: base_schema_def add_version_def)
  moreover have "requeue_interrupted stamp' db' = db'"
    by (rule requeue_idle) (use requeue_done [of _ stamp db2] in \<open>simp_all add: db'\<close>)
  ultimately show ?thesis using vs by (simp add: Open_store_def applyMigration_def)
qed

lemma fresh_open: "\<exists>db'. Open_store stamp empty_store = (Inr db', db')"
  by (simp add: Open_store_def base_schema_def add_version_def applyMigration_def schedulerMigration_def
      instagramMigration_def create_tables_def empty_store_def)

lemma Open_recovers_witness: "\<exists>db'. Open_store [] empty_store = (Inr db', db') \<and> 5 \<in> set (versions db')"
  using fresh_open [of "[]"] Open_recovers [of "[]" empty_store] by blast

lemma Open_again_witness: "\<exists>db'. Open_store [] empty_store = (Inr db', db') \<and> Open_store [] db' = (Inr db', db')"
  using fresh_open [of "[]"] Open_again [of "[]" empty_store] by blast

end
