(* ===== verification/Gateway.thy ===== *)
theory Gateway
  imports Inbox Sha256
begin

text \<open>
  Package \<open>internal/telegram\<close>, \<open>gateway.go\<close>: the loop that polls Telegram, admits messages
  of the owner to the inbox, lets the handler answer them and sends the replies. The client, the
  handler and the guard are interfaces of the code and arguments here, together with the state
  \<open>'w\<close> of the world they act on; the clock is a sequence of readings. The state records what
  was handled and what was sent, with the row of the outbox a message came from. Logging is left
  out.

  An access to the store may fail: \<open>w_fault\<close> says so, and with what error, counting the accesses by the readings of
  the clock; then nothing is changed. A process that dies leaves the tables of a run whose accesses fail from there on,
  where a reply that was on its way is one whose transmission failed.
\<close>

section \<open>The gateway and its state\<close>

datatype handler_end = Reply outbound | OverBudget | HandlerError string
datatype poll = Updates "inbound list" | PollCanceled | PollFailed

record 'w gateway =
  w_updates :: "int \<Rightarrow> int \<Rightarrow> 'w \<Rightarrow> poll \<times> 'w"
  w_handle :: "inbound \<Rightarrow> 'w \<Rightarrow> handler_end \<times> 'w"
  w_allow :: "int \<Rightarrow> string \<Rightarrow> 'w \<Rightarrow> bool \<times> 'w"
  w_send :: "outbound \<Rightarrow> 'w \<Rightarrow> string option \<times> 'w"
  w_clock :: "nat \<Rightarrow> time"
  w_fault :: "nat \<Rightarrow> string option"
  w_ready :: bool
  w_owner :: int
  w_poll_timeout :: int
  w_max_attempts :: int
  w_has_store :: bool

text \<open>One call of \<open>Send\<close>: the row it came from, if any, its end, and the access that is to note it.\<close>

record transmission =
  tx_row :: "int option"
  tx_out :: outbound
  tx_ok :: bool
  tx_note :: nat

record 'w gstate =
  z_store :: store
  z_world :: 'w
  z_reads :: nat
  z_offset :: int
  z_failures :: nat
  z_last_update :: int
  z_messages :: int
  z_handled :: "inbound list"
  z_sent :: "transmission list"
  z_backoffs :: "duration list"

definition attempts_limit :: "'w gateway \<Rightarrow> int" where
  "attempts_limit g = (if w_max_attempts g \<le> 0 then 5 else w_max_attempts g)"

definition read_clock :: "'w gateway \<Rightarrow> 'w gstate \<Rightarrow> time \<times> 'w gstate" where
  "read_clock g s = (w_clock g (z_reads s), s\<lparr>z_reads := Suc (z_reads s)\<rparr>)"

definition send_message :: "'w gateway \<Rightarrow> int option \<Rightarrow> outbound \<Rightarrow> 'w gstate \<Rightarrow> string option \<times> 'w gstate" where
  "send_message g row out s =
     (let (e, w) = w_send g out (z_world s)
      in (e, s\<lparr>z_world := w, z_sent := z_sent s @ [\<lparr>tx_row = row, tx_out = out, tx_ok = (e = None), tx_note = z_reads s\<rparr>]\<rparr>))"

definition handle_message :: "'w gateway \<Rightarrow> inbound \<Rightarrow> 'w gstate \<Rightarrow> handler_end \<times> 'w gstate" where
  "handle_message g m s =
     (let (r, w) = w_handle g m (z_world s)
      in (r, s\<lparr>z_world := w, z_handled := z_handled s @ [m]\<rparr>))"

definition notice :: "inbound \<Rightarrow> string \<Rightarrow> outbound" where
  "notice m t = \<lparr>out_chat = in_chat m, out_text = t, out_reply_to = 0\<rparr>"

definition payload_hash :: "inbound \<Rightarrow> string" where
  "payload_hash m =
     sha256_hex (format_int (in_update m) @ '':'' @ format_int (in_message m) @ '':'' @ in_text m)"

definition reply_key :: "inbound \<Rightarrow> string" where
  "reply_key m = ''telegram-reply:'' @ format_int (in_update m)"

section \<open>One update\<close>

definition note_update :: "inbound \<Rightarrow> 'w gstate \<Rightarrow> 'w gstate" where
  "note_update m s =
     s\<lparr>z_offset := if in_update m \<ge> z_offset s then in_update m + 1 else z_offset s,
       z_last_update := in_update m\<rparr>"

definition admit :: "'w gateway \<Rightarrow> inbound \<Rightarrow> 'w gstate \<Rightarrow> 'w gstate" where
  "admit g m s =
     (if \<not> w_has_store g
      then (case handle_message g m s of
              (Reply out, s1) \<Rightarrow> if out_text out \<noteq> [] then snd (send_message g None out s1) else s1
            | (_, s1) \<Rightarrow> s1)
      else (case read_clock g s of (now, s1) \<Rightarrow>
              if w_fault g (z_reads s) \<noteq> None then s1
              else s1\<lparr>z_store := snd (Ingest m (payload_hash m) now (z_store s1))\<rparr>))"

definition process_update :: "'w gateway \<Rightarrow> inbound \<Rightarrow> 'w gstate \<Rightarrow> 'w gstate" where
  "process_update g m s =
     (let s1 = note_update m s in
      if in_chat_type m \<noteq> ''private'' then s1
      else if in_user m \<noteq> w_owner g then snd (send_message g None (notice m ''Access denied.'') s1)
      else (case w_allow g (in_user m) (in_text m) (z_world s1) of
              (False, w) \<Rightarrow> snd (send_message g None (notice m ''Request rate limited.'') (s1\<lparr>z_world := w\<rparr>))
            | (True, w) \<Rightarrow> admit g m (s1\<lparr>z_world := w\<rparr>)))"

section \<open>Draining the inbox\<close>

text \<open>An error of \<open>FailInbox\<close> is discarded; the row stays in progress.\<close>

definition fail_message :: "'w gateway \<Rightarrow> claimed \<Rightarrow> string \<Rightarrow> 'w gstate \<Rightarrow> 'w gstate" where
  "fail_message g k e s =
     (case read_clock g s of (now, s1) \<Rightarrow> case read_clock g s1 of (later, s2) \<Rightarrow>
        if w_fault g (z_reads s) \<noteq> None then s2
        else s2\<lparr>z_store := FailInbox (k_id k) (Some e) (attempts_limit g) now later (z_store s2)\<rparr>)"

definition complete_message :: "'w gateway \<Rightarrow> claimed \<Rightarrow> outbound \<Rightarrow> 'w gstate \<Rightarrow> 'w gstate" where
  "complete_message g k out s =
     (case read_clock g s of (now, s1) \<Rightarrow>
        (case w_fault g (z_reads s) of
           Some e \<Rightarrow> fail_message g k e s1
         | None \<Rightarrow> s1\<lparr>z_store := CompleteWithOutbox (k_id k) out (reply_key (k_message k)) now (z_store s1)\<rparr>))"

definition budget_reply :: "inbound \<Rightarrow> outbound" where
  "budget_reply m =
     \<lparr>out_chat = in_chat m, out_text = ''Request rejected: execution budget exceeded.'', out_reply_to = in_message m\<rparr>"

definition work_message :: "'w gateway \<Rightarrow> claimed \<Rightarrow> 'w gstate \<Rightarrow> 'w gstate" where
  "work_message g k s =
     (case handle_message g (k_message k) s of
        (Reply out, s1) \<Rightarrow> complete_message g k out s1
      | (OverBudget, s1) \<Rightarrow> complete_message g k (budget_reply (k_message k)) s1
      | (HandlerError e, s1) \<Rightarrow> fail_message g k e s1)"

definition claim_message :: "'w gateway \<Rightarrow> 'w gstate \<Rightarrow> claimed option \<times> 'w gstate" where
  "claim_message g s =
     (case read_clock g s of (now, s1) \<Rightarrow> case read_clock g s1 of (later, s2) \<Rightarrow>
      if w_fault g (z_reads s) \<noteq> None then (None, s2)
      else case ClaimInbox (attempts_limit g) now later (z_store s2) of (k, db) \<Rightarrow> (k, s2\<lparr>z_store := db\<rparr>))"

fun drainInbox :: "'w gateway \<Rightarrow> nat \<Rightarrow> 'w gstate \<Rightarrow> 'w gstate option" where
  "drainInbox g 0 s = None"
| "drainInbox g (Suc n) s =
     (case claim_message g s of
        (None, s1) \<Rightarrow> Some s1
      | (Some k, s1) \<Rightarrow> drainInbox g n (work_message g k s1))"

section \<open>Draining the outbox\<close>

definition claim_reply :: "'w gateway \<Rightarrow> 'w gstate \<Rightarrow> claimed_out option \<times> 'w gstate" where
  "claim_reply g s =
     (case read_clock g s of (now, s1) \<Rightarrow> case read_clock g s1 of (later, s2) \<Rightarrow>
      if w_fault g (z_reads s) \<noteq> None then (None, s2)
      else case ClaimOutbox now later (z_store s2) of (y, db) \<Rightarrow> (y, s2\<lparr>z_store := db\<rparr>))"

text \<open>Errors of these two are discarded as well.\<close>

definition reply_failed :: "'w gateway \<Rightarrow> claimed_out \<Rightarrow> string \<Rightarrow> 'w gstate \<Rightarrow> 'w gstate" where
  "reply_failed g y e s =
     (case read_clock g s of (now, s1) \<Rightarrow> case read_clock g s1 of (later, s2) \<Rightarrow>
        if w_fault g (z_reads s) \<noteq> None then s2
        else s2\<lparr>z_store := OutboxFailed (y_id y) (Some e) (attempts_limit g) now later (z_store s2)\<rparr>)"

definition reply_sent :: "'w gateway \<Rightarrow> claimed_out \<Rightarrow> 'w gstate \<Rightarrow> 'w gstate" where
  "reply_sent g y s =
     (case read_clock g s of (now, s1) \<Rightarrow>
        s1\<lparr>z_store := (if w_fault g (z_reads s) \<noteq> None then z_store s1 else OutboxSent (y_id y) now (z_store s1)), z_messages := z_messages s1 + 1\<rparr>)"

fun drainOutbox :: "'w gateway \<Rightarrow> nat \<Rightarrow> 'w gstate \<Rightarrow> 'w gstate option" where
  "drainOutbox g 0 s = None"
| "drainOutbox g (Suc n) s =
     (case claim_reply g s of
        (None, s1) \<Rightarrow> Some s1
      | (Some y, s1) \<Rightarrow>
          (case send_message g (Some (y_id y)) (y_message y) s1 of
             (Some e, s2) \<Rightarrow> Some (reply_failed g y e s2)
           | (None, s2) \<Rightarrow> drainOutbox g n (reply_sent g y s2)))"

section \<open>The loop\<close>

definition poll_backoff :: "nat \<Rightarrow> duration" where
  "poll_backoff failures = min 60 (2 ^ failures) * second"

text \<open>One iteration: \<open>Inl\<close> the final state of \<open>Run\<close>, \<open>Inr\<close> the state for the next one.\<close>

definition poll_once :: "'w gateway \<Rightarrow> nat \<Rightarrow> 'w gstate \<Rightarrow> ('w gstate, 'w gstate) result option" where
  "poll_once g fuel s =
     (case w_updates g (z_offset s) (w_poll_timeout g) (z_world s) of
        (PollCanceled, w) \<Rightarrow> Some (Inl (s\<lparr>z_world := w\<rparr>))
      | (PollFailed, w) \<Rightarrow>
          Some (Inr (s\<lparr>z_world := w, z_failures := Suc (z_failures s),
                       z_backoffs := z_backoffs s @ [poll_backoff (Suc (z_failures s))]\<rparr>))
      | (Updates ms, w) \<Rightarrow>
          (let s1 = fold (process_update g) ms (s\<lparr>z_world := w, z_failures := 0\<rparr>) in
           if \<not> w_has_store g then Some (Inr s1)
           else (case drainInbox g fuel s1 of
                   None \<Rightarrow> None
                 | Some s2 \<Rightarrow> map_option Inr (drainOutbox g fuel s2))))"

fun gateway_loop :: "'w gateway \<Rightarrow> nat \<Rightarrow> nat \<Rightarrow> 'w gstate \<Rightarrow> 'w gstate option" where
  "gateway_loop g fuel 0 s = Some s"
| "gateway_loop g fuel (Suc n) s =
     (case poll_once g fuel s of
        None \<Rightarrow> None
      | Some (Inl s1) \<Rightarrow> Some s1
      | Some (Inr s1) \<Rightarrow> gateway_loop g fuel n s1)"

datatype gateway_error = DependenciesUnavailable

text \<open>\<open>Run\<close> for the given number of polls; the loop variables start at zero.\<close>

definition Run_gateway :: "'w gateway \<Rightarrow> nat \<Rightarrow> nat \<Rightarrow> 'w gstate \<Rightarrow> (gateway_error, 'w gstate option) result" where
  "Run_gateway g fuel polls s =
     (if \<not> w_ready g \<or> w_owner g \<le> 0 then Inl DependenciesUnavailable
      else Inr (gateway_loop g fuel polls (s\<lparr>z_offset := 0, z_failures := 0\<rparr>)))"

text \<open>
  One process after the other on the same database: each opens the store, which puts back what was in
  progress, and runs the gateway, for a number of polls each.
\<close>

fun gateway_life :: "'w gateway \<Rightarrow> nat \<Rightarrow> (string \<times> nat) list \<Rightarrow> 'w gstate \<Rightarrow> 'w gstate option" where
  "gateway_life g fuel [] s = Some s"
| "gateway_life g fuel ((stamp, polls) # rs) s =
     (case Open_store stamp (z_store s) of
        (Inl e, db) \<Rightarrow> gateway_life g fuel rs (s\<lparr>z_store := db\<rparr>)
      | (Inr db, d) \<Rightarrow>
          (case Run_gateway g fuel polls (s\<lparr>z_store := db\<rparr>) of
             Inl e \<Rightarrow> gateway_life g fuel rs (s\<lparr>z_store := db\<rparr>)
           | Inr None \<Rightarrow> None
           | Inr (Some s1) \<Rightarrow> gateway_life g fuel rs s1))"

end
