(* ===== verification/GatewayProofs.thy ===== *)
theory GatewayProofs
  imports Gateway
begin

text \<open>
  What the gateway guarantees: only private messages of the owner are admitted and handled, each
  has exactly one reply, no reply is sent twice while the process runs, nothing is left half-way,
  and the two drains end.
\<close>

section \<open>Claims\<close>

lemma ClaimInboxE:
  assumes "store_inv db" and "ClaimInbox n now later db = (Some k, db')"
  obtains r f where "r \<in> set (inbox db)" and "m_id r = k_id k" and "m_state r = MPending"
    and "m_message r = k_message k" and "f = (\<lambda>q. q\<lparr>m_state := MRunning, m_attempts := m_attempts q + 1, m_updated_at := formatTime later\<rparr>)"
    and "db' = db\<lparr>inbox := update_where (\<lambda>q. m_id q = k_id k) f (inbox db)\<rparr>"
proof -
  from assms(2) obtain r where r: "first_by inbox_order (filter (inbox_ready now) (inbox db)) = Some r"
    by (auto simp: ClaimInbox_def split: option.splits)
  then have row: "r \<in> set (inbox db)" "m_state r = MPending" by (auto dest!: first_by_in simp: inbox_ready_def)
  let ?f = "\<lambda>q. q\<lparr>m_state := MRunning, m_attempts := m_attempts q + 1, m_updated_at := formatTime later\<rparr>"
  have k: "k = \<lparr>k_id = m_id r, k_message = m_message r, k_attempts = m_attempts r\<rparr>"
    and db': "db' = db\<lparr>inbox := update_where (\<lambda>q. m_id q = m_id r \<and> m_state q = MPending) ?f (inbox db)\<rparr>"
    using assms(2) r by (auto simp: ClaimInbox_def Let_def split: if_splits)
  have "update_where (\<lambda>q. m_id q = m_id r \<and> m_state q = MPending) ?f (inbox db)
      = update_where (\<lambda>q. m_id q = m_id r) ?f (inbox db)"
    by (rule update_where_cong) (use same_message [OF assms(1)] row in auto)
  then have up: "db' = db\<lparr>inbox := update_where (\<lambda>q. m_id q = k_id k) ?f (inbox db)\<rparr>" using db' k by simp
  show thesis by (rule that [OF row(1) _ row(2) _ refl up]) (simp_all add: k)
qed

lemma ClaimOutboxE:
  assumes "store_inv db" and "ClaimOutbox now later db = (Some y, db')"
  obtains r f where "r \<in> set (outbox db)" and "o_id r = y_id y" and "o_message r = y_message y" and "o_state r = OPending"
    and "f = (\<lambda>q. q\<lparr>o_state := OSending, o_attempts := o_attempts q + 1, o_updated_at := formatTime later\<rparr>)"
    and "db' = db\<lparr>outbox := update_where (\<lambda>q. o_id q = y_id y) f (outbox db)\<rparr>"
proof -
  from assms(2) obtain r where r: "first_by outbox_order (filter (outbox_ready now) (outbox db)) = Some r"
    by (auto simp: ClaimOutbox_def split: option.splits)
  then have row: "r \<in> set (outbox db)" "o_state r = OPending" by (auto dest!: first_by_in simp: outbox_ready_def)
  let ?f = "\<lambda>q. q\<lparr>o_state := OSending, o_attempts := o_attempts q + 1, o_updated_at := formatTime later\<rparr>"
  have y: "y = \<lparr>y_id = o_id r, y_message = o_message r, y_attempts = o_attempts r, y_key = o_key r\<rparr>"
    and db': "db' = db\<lparr>outbox := update_where (\<lambda>q. o_id q = o_id r \<and> o_state q = OPending) ?f (outbox db)\<rparr>"
    using assms(2) r by (auto simp: ClaimOutbox_def Let_def split: if_splits)
  have "update_where (\<lambda>q. o_id q = o_id r \<and> o_state q = OPending) ?f (outbox db)
      = update_where (\<lambda>q. o_id q = o_id r) ?f (outbox db)"
    by (rule update_where_cong) (use same_reply [OF assms(1)] row in auto)
  then have up: "db' = db\<lparr>outbox := update_where (\<lambda>q. o_id q = y_id y) ?f (outbox db)\<rparr>" using db' y by simp
  show thesis by (rule that [OF row(1) _ _ row(2) refl up]) (simp_all add: y)
qed

lemma ClaimInbox_None:
  "ClaimInbox n now later db = (None, db') \<Longrightarrow> db' = db"
  by (auto simp: ClaimInbox_def Let_def split: option.splits if_splits)

lemma ClaimOutbox_None:
  "ClaimOutbox now later db = (None, db') \<Longrightarrow> db' = db"
  by (auto simp: ClaimOutbox_def Let_def split: option.splits if_splits)

section \<open>The drains end\<close>

text \<open>
  What is left to do on a message: two steps for every attempt it may still have, and one more
  when it is being worked on.
\<close>

definition message_left :: "int \<Rightarrow> inbox_row \<Rightarrow> nat" where
  "message_left n r =
     (if m_state r = MPending then 2 * nat (n - m_attempts r) + 2
      else if m_state r = MRunning then 2 * nat (n + 1 - m_attempts r) + 1 else 0)"

definition inbox_left :: "int \<Rightarrow> store \<Rightarrow> nat" where
  "inbox_left n db = sum_list (map (message_left n) (inbox db))"

definition outbox_left :: "store \<Rightarrow> nat" where
  "outbox_left db = sum_list (map (\<lambda>r. if o_state r = OPending then 1 else 0) (outbox db))"

lemma claim_lowers:
  assumes "store_inv db" and "ClaimInbox l now later db = (Some k, db')"
  shows "inbox_left n db' < inbox_left n db"
  using assms
proof (rule ClaimInboxE)
  fix r f
  assume r: "r \<in> set (inbox db)" "m_id r = k_id k" "m_state r = MPending"
    and f: "f = (\<lambda>q. q\<lparr>m_state := MRunning, m_attempts := m_attempts q + 1, m_updated_at := formatTime later\<rparr>)"
    and db': "db' = db\<lparr>inbox := update_where (\<lambda>q. m_id q = k_id k) f (inbox db)\<rparr>"
  have "message_left n (f q) < message_left n q" if "q \<in> set (inbox db)" "m_id q = k_id k" for q
  proof -
    have "q = r" using same_message [OF assms(1) that(1) r(1)] that r(2) by simp
    then show ?thesis by (simp add: message_left_def f r(3))
  qed
  then show ?thesis unfolding inbox_left_def db' using r by (simp add: weight_update_less)
qed

text \<open>A running message that is completed or fails.\<close>

definition busy :: "int \<Rightarrow> store \<Rightarrow> bool" where
  "busy i db \<longleftrightarrow> (\<exists>r \<in> set (inbox db). m_id r = i \<and> m_state r = MRunning)"

lemma claim_busy:
  assumes "store_inv db" and "ClaimInbox l now later db = (Some k, db')"
  shows "busy (k_id k) db'"
  using assms
proof (rule ClaimInboxE)
  fix r f
  assume "r \<in> set (inbox db)" "m_id r = k_id k"
    and f: "f = (\<lambda>q. q\<lparr>m_state := MRunning, m_attempts := m_attempts q + 1, m_updated_at := formatTime later\<rparr>)"
    and "db' = db\<lparr>inbox := update_where (\<lambda>q. m_id q = k_id k) f (inbox db)\<rparr>"
  then have "f r \<in> set (inbox db')" by (auto simp: set_update_where)
  then show ?thesis unfolding busy_def by (rule bexI [rotated]) (simp add: f \<open>m_id r = k_id k\<close>)
qed

lemma work_lowers:
  assumes "store_inv db" and "busy i db"
    and "\<And>q. m_state q = MRunning \<Longrightarrow> message_left n (f q) < message_left n q"
  shows "sum_list (map (message_left n) (update_where (\<lambda>q. m_id q = i) f (inbox db))) < inbox_left n db"
proof -
  obtain r where r: "r \<in> set (inbox db)" "m_id r = i" "m_state r = MRunning" using assms(2) by (auto simp: busy_def)
  have "message_left n (f q) < message_left n q" if "q \<in> set (inbox db)" "m_id q = i" for q
    using same_message [OF assms(1) that(1) r(1)] that r assms(3) by simp
  then show ?thesis unfolding inbox_left_def using r by (simp add: weight_update_less)
qed

lemma complete_lowers:
  assumes "store_inv db" and "busy i db"
  shows "inbox_left n (CompleteWithOutbox i out key now db) < inbox_left n db"
proof -
  have "message_left n (q\<lparr>m_state := MCompleted, m_updated_at := t\<rparr>) < message_left n q"
    if "m_state q = MRunning" for q t using that by (simp add: message_left_def)
  from work_lowers [OF assms this] show ?thesis
    by (simp add: inbox_left_def CompleteWithOutbox_eq finished_inbox_def)
qed

lemma fail_lowers:
  assumes "store_inv db" and "busy i db"
  shows "inbox_left n (FailInbox i e n now later db) < inbox_left n db"
proof -
  obtain r where r: "r \<in> set (inbox db)" "m_id r = i" "m_state r = MRunning" using assms(2) by (auto simp: busy_def)
  have sel: "select_one (\<lambda>q. m_id q = i) (inbox db) = Some r"
    using select_one_key [of m_id "inbox db" r] assms(1) r by (simp add: store_inv_def)
  define f where "f = (\<lambda>q :: inbox_row. q\<lparr>m_state := if m_attempts r \<ge> n then MDead else MPending, m_last_error := safeErr e,
      m_available_at := now + retry_delay (m_attempts r), m_updated_at := formatTime later\<rparr>)"
  have "message_left n (f q) < message_left n q" if "q \<in> set (inbox db)" "m_id q = i" for q
  proof -
    have "q = r" using same_message [OF assms(1) that(1) r(1)] that r(2) by simp
    moreover have "nat (n + 1 - a) = Suc (nat (n - a))" if "\<not> n \<le> a" for a using that by simp
    ultimately show ?thesis using r(3) by (simp add: message_left_def f_def)
  qed
  then have "sum_list (map (message_left n) (update_where (\<lambda>q. m_id q = i) f (inbox db))) < inbox_left n db"
    unfolding inbox_left_def using r by (simp add: weight_update_less)
  then show ?thesis by (simp add: inbox_left_def FailInbox_def Let_def sel f_def)
qed


section \<open>What a step keeps\<close>

definition from_owner :: "'w gateway \<Rightarrow> inbound \<Rightarrow> bool" where
  "from_owner g m \<longleftrightarrow> in_chat_type m = ''private'' \<and> in_user m = w_owner g"

definition answered :: "store \<Rightarrow> bool" where
  "answered db \<longleftrightarrow> (\<forall>r \<in> set (inbox db). m_state r = MCompleted \<longrightarrow> reply_key (m_message r) \<in> o_key ` set (outbox db))"

definition idle :: "store \<Rightarrow> bool" where
  "idle db \<longleftrightarrow> (\<forall>r \<in> set (inbox db). m_state r \<noteq> MRunning) \<and> (\<forall>q \<in> set (outbox db). o_state q \<noteq> OSending)"

definition faultless :: "'w gateway \<Rightarrow> bool" where
  "faultless g \<longleftrightarrow> (\<forall>n. w_fault g n = None)"

definition store_ok :: "'w gateway \<Rightarrow> store \<Rightarrow> bool" where
  "store_ok g db \<longleftrightarrow> store_inv db \<and> (\<forall>r \<in> set (inbox db). from_owner g (m_message r)) \<and> answered db \<and> (faultless g \<longrightarrow> idle db)"

text \<open>The rows whose reply was delivered, and those among them whose delivery was noted.\<close>

definition delivered :: "transmission list \<Rightarrow> int list" where
  "delivered xs = concat (map (\<lambda>x. case tx_row x of Some j \<Rightarrow> if tx_ok x then [j] else [] | None \<Rightarrow> []) xs)"

definition noted :: "'w gateway \<Rightarrow> transmission list \<Rightarrow> int set" where
  "noted g xs = {i. \<exists>x \<in> set xs. tx_row x = Some i \<and> tx_ok x \<and> w_fault g (tx_note x) = None}"

definition in_state :: "outbox_state set \<Rightarrow> int set \<Rightarrow> store \<Rightarrow> bool" where
  "in_state S ids db \<longleftrightarrow> (\<forall>i \<in> ids. \<exists>q \<in> set (outbox db). o_id q = i \<and> o_state q \<in> S)"

definition rows_match :: "transmission list \<Rightarrow> store \<Rightarrow> bool" where
  "rows_match xs db \<longleftrightarrow> (\<forall>x \<in> set xs. \<forall>i. tx_row x = Some i \<longrightarrow> (\<exists>q \<in> set (outbox db). o_id q = i \<and> o_message q = tx_out x))"

text \<open>What was sent agrees with the rows: \<open>xs\<close> in all, \<open>ys\<close> in this process.\<close>

definition trace_ok :: "'w gateway \<Rightarrow> transmission list \<Rightarrow> transmission list \<Rightarrow> store \<Rightarrow> bool" where
  "trace_ok g xs ys db \<longleftrightarrow> in_state {OSent} (noted g xs) db \<and> in_state {OSending, OSent} (set (delivered ys)) db \<and> rows_match xs db
     \<and> distinct (delivered ys)
     \<and> sorted_wrt (\<lambda>x y. \<forall>i. tx_row x = Some i \<and> tx_row y = Some i \<and> tx_ok x \<longrightarrow> w_fault g (tx_note x) \<noteq> None) xs"

lemma delivered_snoc: "delivered (xs @ [x]) = delivered xs @ (case tx_row x of Some j \<Rightarrow> if tx_ok x then [j] else [] | None \<Rightarrow> [])"
  by (simp add: delivered_def)

lemma noted_snoc: "noted g (xs @ [x]) = noted g xs \<union> {i. tx_row x = Some i \<and> tx_ok x \<and> w_fault g (tx_note x) = None}"
  by (auto simp: noted_def)

text \<open>Rows of the outbox go forward, but for those in \<open>X\<close>.\<close>

definition steady :: "int set \<Rightarrow> store \<Rightarrow> store \<Rightarrow> bool" where
  "steady X db db' \<longleftrightarrow> (\<forall>q \<in> set (outbox db). \<exists>q' \<in> set (outbox db'). o_id q' = o_id q \<and> o_message q' = o_message q
     \<and> (o_id q \<notin> X \<longrightarrow> (o_state q = OSent \<longrightarrow> o_state q' = OSent) \<and> (o_state q = OSending \<longrightarrow> o_state q' \<in> {OSending, OSent})))"

lemma steady_outbox [simp]: "set (outbox db) \<subseteq> set (outbox db') \<Longrightarrow> steady X db db'"
  unfolding steady_def by blast

lemma steady_update:
  assumes "outbox db' = update_where p f (outbox db)" and "outbox_keeping f"
    and "\<And>q. q \<in> set (outbox db) \<Longrightarrow> p q \<Longrightarrow> o_id q \<notin> X \<Longrightarrow> (o_state q = OSent \<longrightarrow> o_state (f q) = OSent) \<and> (o_state q = OSending \<longrightarrow> o_state (f q) \<in> {OSending, OSent})"
  shows "steady X db db'"
  unfolding steady_def
proof
  fix q assume q: "q \<in> set (outbox db)"
  then have "(if p q then f q else q) \<in> set (outbox db')" by (auto simp: assms(1) set_update_where)
  then show "\<exists>q' \<in> set (outbox db'). o_id q' = o_id q \<and> o_message q' = o_message q
     \<and> (o_id q \<notin> X \<longrightarrow> (o_state q = OSent \<longrightarrow> o_state q' = OSent) \<and> (o_state q = OSending \<longrightarrow> o_state q' \<in> {OSending, OSent}))"
    by (rule bexI [rotated]) (use assms(2,3) q in \<open>auto simp: outbox_keeping_def\<close>)
qed

lemma in_state_steady:
  assumes "in_state S ids db" and "steady X db db'" and "ids \<inter> X = {}" and "S = {OSent} \<or> S = {OSending, OSent}"
  shows "in_state S ids db'"
  unfolding in_state_def
proof
  fix i assume i: "i \<in> ids"
  then obtain q where q: "q \<in> set (outbox db)" "o_id q = i" "o_state q \<in> S" using assms(1) by (auto simp: in_state_def)
  then have "o_id q \<notin> X" using assms(3) i by blast
  with assms(2) q(1) obtain q' where q': "q' \<in> set (outbox db')" "o_id q' = o_id q"
    "o_state q = OSent \<longrightarrow> o_state q' = OSent" "o_state q = OSending \<longrightarrow> o_state q' \<in> {OSending, OSent}"
    unfolding steady_def by meson
  then have "o_state q' \<in> S" using q(3) assms(4) by auto
  with q' q(2) show "\<exists>q \<in> set (outbox db'). o_id q = i \<and> o_state q \<in> S" by auto
qed

lemma rows_match_steady: "rows_match xs db \<Longrightarrow> steady X db db' \<Longrightarrow> rows_match xs db'"
  unfolding rows_match_def steady_def by (metis (no_types, lifting))

lemma trace_ok_steady:
  assumes "trace_ok g xs ys db" and "steady X db db'" and "X \<inter> noted g xs = {}" and "X \<inter> set (delivered ys) = {}"
  shows "trace_ok g xs ys db'"
  using assms(1) in_state_steady [OF _ assms(2), where ids = "noted g xs" and S = "{OSent}"]
    in_state_steady [OF _ assms(2), where ids = "set (delivered ys)" and S = "{OSending, OSent}"]
    rows_match_steady [OF _ assms(2)] assms(3,4) by (auto simp: trace_ok_def)

lemma trace_ok_quiet: "trace_ok g xs ys db \<Longrightarrow> set (outbox db) \<subseteq> set (outbox db') \<Longrightarrow> trace_ok g xs ys db'"
  by (rule trace_ok_steady [OF _ steady_outbox [where X = "{}"]]) simp_all

text \<open>A transmission that does not come from a row, or that failed.\<close>

lemma trace_ok_more:
  assumes "trace_ok g xs ys db" and "tx_row x = None \<or> \<not> tx_ok x" and "rows_match [x] db"
    and "\<And>i. tx_row x = Some i \<Longrightarrow> i \<notin> noted g xs"
  shows "trace_ok g (xs @ [x]) (ys @ [x]) db"
proof -
  have "delivered (ys @ [x]) = delivered ys" "noted g (xs @ [x]) = noted g xs"
    using assms(2) by (auto simp: delivered_snoc noted_snoc split: option.splits)
  moreover have "w_fault g (tx_note y) \<noteq> None" if "y \<in> set xs" "tx_row y = Some i" "tx_row x = Some i" "tx_ok y" for y i
    using assms(4) [OF that(3)] that by (auto simp: noted_def)
  ultimately show ?thesis using assms(1,3) unfolding trace_ok_def rows_match_def sorted_wrt_append by auto
qed

text \<open>A delivery, after which the row is in progress, or sent where that could be noted.\<close>

lemma trace_ok_delivery:
  assumes "trace_ok g xs ys db" and x: "tx_row x = Some i" "tx_ok x" and new: "i \<notin> noted g xs" "i \<notin> set (delivered ys)" and "rows_match [x] db"
    and row: "in_state (if w_fault g (tx_note x) = None then {OSent} else {OSending, OSent}) {i} db"
  shows "trace_ok g (xs @ [x]) (ys @ [x]) db"
proof -
  have "delivered (ys @ [x]) = delivered ys @ [i]" "noted g (xs @ [x]) = noted g xs \<union> (if w_fault g (tx_note x) = None then {i} else {})"
    using x by (auto simp: delivered_snoc noted_snoc)
  moreover have "w_fault g (tx_note y) \<noteq> None" if "y \<in> set xs" "tx_row y = Some j" "tx_row x = Some j" "tx_ok y" for y j
    using new(1) that x by (auto simp: noted_def)
  moreover have "in_state {OSending, OSent} {i} db" using row by (auto simp: in_state_def split: if_splits)
  ultimately show ?thesis using assms(1,6) new(2) row unfolding trace_ok_def rows_match_def sorted_wrt_append
    by (auto simp: in_state_def split: if_splits)
qed

section \<open>Steps of the inbox\<close>

lemma idle_ingest: "idle db \<Longrightarrow> idle (snd (Ingest m h now db))"
  by (auto simp: idle_def Ingest_def)

lemma store_ok_ingest: "store_ok g db \<Longrightarrow> from_owner g m \<Longrightarrow> store_ok g (snd (Ingest m h now db))"
  using Ingest_inv [of db m h now] idle_ingest [of db m h now] by (auto simp: store_ok_def answered_def Ingest_def)

text \<open>Rewriting inbox rows: completed rows appear only with their reply.\<close>

lemma store_ok_inbox:
  assumes "store_ok g db" and "inbox_keeping f"
    and "\<And>q. q \<in> set (inbox db) \<Longrightarrow> p q \<Longrightarrow> m_state (f q) = MCompleted \<Longrightarrow> reply_key (m_message q) \<in> o_key ` set (outbox db)"
    and "faultless g \<Longrightarrow> idle (db\<lparr>inbox := update_where p f (inbox db)\<rparr>)"
  shows "store_ok g (db\<lparr>inbox := update_where p f (inbox db)\<rparr>)"
  using assms inbox_update_inv [of db f p]
  by (auto simp: store_ok_def answered_def inbox_keeping_def set_update_where split: if_splits)

text \<open>
  Between the claim of a message and its end its row is there, and is the only one in progress if no access
  failed before.
\<close>

definition working :: "claimed \<Rightarrow> store \<Rightarrow> bool" where
  "working k db \<longleftrightarrow> (\<forall>r \<in> set (inbox db). m_state r = MRunning \<longrightarrow> m_id r = k_id k) \<and> (\<forall>q \<in> set (outbox db). o_state q \<noteq> OSending)"

definition claimed_ok :: "'w gateway \<Rightarrow> claimed \<Rightarrow> store \<Rightarrow> bool" where
  "claimed_ok g k db \<longleftrightarrow> store_inv db \<and> (\<forall>r \<in> set (inbox db). from_owner g (m_message r)) \<and> answered db
     \<and> (\<exists>r \<in> set (inbox db). m_id r = k_id k \<and> m_message r = k_message k \<and> m_state r = MRunning) \<and> (faultless g \<longrightarrow> working k db)"

lemma claimed_busy: "claimed_ok g k db \<Longrightarrow> busy (k_id k) db"
  by (auto simp: claimed_ok_def busy_def)

lemma claim_claimed:
  assumes "store_ok g db" and "ClaimInbox n now later db = (Some k, db')"
  shows "claimed_ok g k db'" and "from_owner g (k_message k)" and "outbox db' = outbox db"
proof -
  have inv: "store_inv db" using assms(1) by (simp add: store_ok_def)
  obtain r f where r: "r \<in> set (inbox db)" "m_id r = k_id k" "m_message r = k_message k"
    and f: "f = (\<lambda>q. q\<lparr>m_state := MRunning, m_attempts := m_attempts q + 1, m_updated_at := formatTime later\<rparr>)"
    and db': "db' = db\<lparr>inbox := update_where (\<lambda>q. m_id q = k_id k) f (inbox db)\<rparr>"
    using inv assms(2) by (rule ClaimInboxE)
  show "from_owner g (k_message k)" using assms(1) r by (auto simp: store_ok_def)
  show "outbox db' = outbox db" by (simp add: db')
  have keep: "inbox_keeping f" by (simp add: f keeping)
  have "f r \<in> set (inbox db')" using r by (auto simp: db' set_update_where)
  then have "\<exists>q \<in> set (inbox db'). m_id q = k_id k \<and> m_message q = k_message k \<and> m_state q = MRunning"
    by (rule bexI [rotated]) (simp add: f r)
  moreover have "working k db'" if "faultless g"
    using assms(1) that by (auto simp: store_ok_def working_def idle_def db' f set_update_where split: if_splits)
  moreover have "store_inv db'" unfolding db' by (rule inbox_update_inv [OF inv keep])
  moreover have "answered db'" "\<forall>r \<in> set (inbox db'). from_owner g (m_message r)"
    using assms(1) by (auto simp: store_ok_def answered_def db' f set_update_where split: if_splits)
  ultimately show "claimed_ok g k db'" by (simp add: claimed_ok_def)
qed

lemma idle_work:
  assumes "working k db" and "\<And>q. m_state (f q) \<noteq> MRunning"
  shows "idle (db\<lparr>inbox := update_where (\<lambda>q. m_id q = k_id k) f (inbox db)\<rparr>)"
proof -
  have "m_state r \<noteq> MRunning" if "r \<in> set (update_where (\<lambda>q. m_id q = k_id k) f (inbox db))" for r
    using that assms by (cases rule: update_whereE) (auto simp: working_def)
  then show ?thesis using assms(1) by (simp add: idle_def working_def)
qed

lemma store_ok_complete:
  assumes ok: "claimed_ok g k db"
  shows "store_ok g (CompleteWithOutbox (k_id k) out (reply_key (k_message k)) now db)" (is "store_ok g ?d")
    and "set (outbox db) \<subseteq> set (outbox (CompleteWithOutbox (k_id k) out (reply_key (k_message k)) now db))"
proof -
  obtain r where r: "r \<in> set (inbox db)" "m_id r = k_id k" "m_message r = k_message k"
    using ok by (auto simp: claimed_ok_def)
  have k: "m_message q = k_message k" if "q \<in> set (inbox db)" "m_id q = k_id k" for q
    using same_message [of db q r] ok that r by (simp add: claimed_ok_def)
  have own: "from_owner g (k_message k)" using ok r(1) unfolding claimed_ok_def r(3) [symmetric] by blast
  have key: "reply_key (k_message k) \<in> o_key ` set (outbox ?d)"
    by (force simp: CompleteWithOutbox_eq reply_row_def)
  show more: "set (outbox db) \<subseteq> set (outbox ?d)" by (auto simp: CompleteWithOutbox_eq)
  let ?f = "\<lambda>q. q\<lparr>m_state := MCompleted, m_updated_at := formatTime now\<rparr>"
  have inb: "inbox ?d = update_where (\<lambda>q. m_id q = k_id k) ?f (inbox db)"
    by (simp add: CompleteWithOutbox_eq finished_inbox_def)
  have "from_owner g (m_message q) \<and> (m_state q = MCompleted \<longrightarrow> reply_key (m_message q) \<in> o_key ` set (outbox ?d))"
    if "q \<in> set (inbox ?d)" for q
    using that unfolding inb
  proof (cases rule: update_whereE)
    case kept
    with ok image_mono [OF more, of o_key] show ?thesis by (auto simp: claimed_ok_def answered_def)
  next
    case (changed q')
    with k key own show ?thesis by simp
  qed
  moreover have "idle ?d" if "faultless g"
  proof -
    have "idle (db\<lparr>inbox := finished_inbox (k_id k) now (inbox db)\<rparr>)"
      unfolding finished_inbox_def by (rule idle_work) (use ok that in \<open>simp_all add: claimed_ok_def\<close>)
    then show ?thesis by (auto simp: CompleteWithOutbox_eq idle_def reply_row_def)
  qed
  ultimately show "store_ok g ?d"
    using ok CompleteWithOutbox_inv [of db "k_id k" out "reply_key (k_message k)" now]
    by (simp add: store_ok_def claimed_ok_def answered_def)
qed

lemma store_ok_fail:
  assumes "claimed_ok g k db"
  shows "store_ok g (FailInbox (k_id k) e n now later db)"
proof -
  let ?d = "FailInbox (k_id k) e n now later db"
  have "store_inv ?d" using assms unfolding FailInbox_def Let_def by (intro inbox_update_inv) (auto simp: claimed_ok_def keeping)
  moreover have "answered ?d" "\<forall>r \<in> set (inbox ?d). from_owner g (m_message r)"
    using assms by (auto simp: claimed_ok_def answered_def FailInbox_def Let_def set_update_where split: if_splits)
  moreover have "idle ?d" if "faultless g" unfolding FailInbox_def Let_def
    by (rule idle_work) (use assms that in \<open>simp_all add: claimed_ok_def\<close>)
  ultimately show ?thesis by (simp add: store_ok_def)
qed

text \<open>Where the end of the work could not be written.\<close>

lemma store_ok_stuck: "claimed_ok g k db \<Longrightarrow> \<not> faultless g \<Longrightarrow> store_ok g db"
  by (simp add: claimed_ok_def store_ok_def)

section \<open>Steps of the outbox\<close>

definition sending :: "claimed_out \<Rightarrow> store \<Rightarrow> bool" where
  "sending y db \<longleftrightarrow> (\<forall>q \<in> set (outbox db). o_state q = OSending \<longrightarrow> o_id q = y_id y) \<and> (\<forall>r \<in> set (inbox db). m_state r \<noteq> MRunning)"

definition reply_claimed :: "'w gateway \<Rightarrow> claimed_out \<Rightarrow> store \<Rightarrow> bool" where
  "reply_claimed g y db \<longleftrightarrow> store_inv db \<and> (\<forall>r \<in> set (inbox db). from_owner g (m_message r)) \<and> answered db
     \<and> (\<exists>q \<in> set (outbox db). o_id q = y_id y \<and> o_message q = y_message y \<and> o_state q = OSending) \<and> (faultless g \<longrightarrow> sending y db)"

lemma keys_update:
  assumes "outbox_keeping f"
  shows "o_key ` set (update_where p f qs) = o_key ` set qs"
proof -
  have "map o_key (update_where p f qs) = map o_key qs" by (rule map_update_where) (use assms in \<open>simp add: outbox_keeping_def\<close>)
  from arg_cong [OF this, of set] show ?thesis by simp
qed

lemma store_ok_outbox:
  assumes "store_inv db" "\<forall>r \<in> set (inbox db). from_owner g (m_message r)" "answered db" and "outbox_keeping f"
    and "db' = db\<lparr>outbox := update_where p f (outbox db)\<rparr>"
  shows "store_inv db' \<and> (\<forall>r \<in> set (inbox db'). from_owner g (m_message r)) \<and> answered db'"
  using assms outbox_update_inv [OF assms(1,4), of p] keys_update [OF assms(4), of p "outbox db"] by (simp add: answered_def)

lemma pending_fresh:
  assumes "trace_ok g xs ys db" and "store_inv db" and "r \<in> set (outbox db)" and "o_state r = OPending"
  shows "o_id r \<notin> noted g xs" and "o_id r \<notin> set (delivered ys)"
proof -
  have "o_id r \<notin> ids" if st: "in_state S ids db" and S: "OPending \<notin> S" for S ids
  proof
    assume "o_id r \<in> ids"
    then obtain q where q: "q \<in> set (outbox db)" "o_id q = o_id r" "o_state q \<in> S" using st by (auto simp: in_state_def)
    then have "q = r" using same_reply [OF assms(2) _ assms(3)] by simp
    with q(3) assms(4) S show False by simp
  qed
  then show "o_id r \<notin> noted g xs" "o_id r \<notin> set (delivered ys)" using assms(1) by (auto simp: trace_ok_def)
qed

lemma reply_claim:
  assumes ok: "store_ok g db" and tr: "trace_ok g xs ys db" and claim: "ClaimOutbox now later db = (Some y, db')"
  shows "reply_claimed g y db'" and "trace_ok g xs ys db'" and "y_id y \<notin> noted g xs" and "y_id y \<notin> set (delivered ys)"
    and "outbox_left db' < outbox_left db"
proof -
  have inv: "store_inv db" using ok by (simp add: store_ok_def)
  obtain r f where r: "r \<in> set (outbox db)" "o_id r = y_id y" "o_message r = y_message y" "o_state r = OPending"
    and f: "f = (\<lambda>q. q\<lparr>o_state := OSending, o_attempts := o_attempts q + 1, o_updated_at := formatTime later\<rparr>)"
    and db': "db' = db\<lparr>outbox := update_where (\<lambda>q. o_id q = y_id y) f (outbox db)\<rparr>"
    using inv claim by (rule ClaimOutboxE)
  have keep: "outbox_keeping f" by (simp add: f keeping)
  show fresh: "y_id y \<notin> noted g xs" "y_id y \<notin> set (delivered ys)" using pending_fresh [OF tr inv r(1,4)] r(2) by simp_all
  have only: "q = r" if "q \<in> set (outbox db)" "o_id q = y_id y" for q using same_reply [OF inv _ r(1)] that r(2) by simp
  show "trace_ok g xs ys db'"
    by (rule trace_ok_steady [OF tr steady_update [where X = "{}" and p = "\<lambda>q. o_id q = y_id y" and f = f]])
       (use only r(4) keep in \<open>auto simp: db'\<close>)
  have "f r \<in> set (outbox db')" using r by (auto simp: db' set_update_where)
  then have "\<exists>q \<in> set (outbox db'). o_id q = y_id y \<and> o_message q = y_message y \<and> o_state q = OSending"
    by (rule bexI [rotated]) (simp add: f r)
  moreover have "sending y db'" if "faultless g"
  proof -
    have "o_id q = y_id y" if q: "q \<in> set (outbox db')" "o_state q = OSending" for q
    proof -
      have "q \<in> set (update_where (\<lambda>q. o_id q = y_id y) f (outbox db))" using q(1) by (simp add: db')
      then show ?thesis using q(2) ok \<open>faultless g\<close> by (cases rule: update_whereE) (auto simp: idle_def store_ok_def f)
    qed
    then show ?thesis using ok that by (auto simp: sending_def store_ok_def idle_def db')
  qed
  moreover have "store_inv db' \<and> (\<forall>r \<in> set (inbox db'). from_owner g (m_message r)) \<and> answered db'"
    by (rule store_ok_outbox [OF _ _ _ keep db']) (use ok in \<open>simp_all add: store_ok_def\<close>)
  ultimately show "reply_claimed g y db'" by (simp add: reply_claimed_def)
  show "outbox_left db' < outbox_left db" unfolding outbox_left_def db'
  proof (simp, rule weight_update_less [where r = r])
    fix q assume "q \<in> set (outbox db)" "o_id q = y_id y"
    then have "q = r" by (rule only)
    then show "(if o_state (f q) = OPending then 1 else 0) < (if o_state q = OPending then 1 else (0 :: nat))"
      by (simp add: f r)
  qed (simp_all add: r)
qed

text \<open>The three ends: noted, failed, and an end that could not be written.\<close>

lemma idle_send:
  assumes "sending y db" and "\<And>q. o_state (f q) \<noteq> OSending"
  shows "idle (db\<lparr>outbox := update_where (\<lambda>q. o_id q = y_id y) f (outbox db)\<rparr>)"
proof -
  have "o_state r \<noteq> OSending" if "r \<in> set (update_where (\<lambda>q. o_id q = y_id y) f (outbox db))" for r
    using that assms by (cases rule: update_whereE) (auto simp: sending_def)
  then show ?thesis using assms(1) by (simp add: idle_def sending_def)
qed

lemma reply_written:
  assumes "reply_claimed g y db" and "outbox_keeping f" and "\<And>q. o_state (f q) \<noteq> OSending"
    and "db' = db\<lparr>outbox := update_where (\<lambda>q. o_id q = y_id y) f (outbox db)\<rparr>"
  shows "store_ok g db'"
  using store_ok_outbox [OF _ _ _ assms(2,4), of g] idle_send [of y db f, OF _ assms(3)] assms(1)
  by (auto simp: reply_claimed_def store_ok_def assms(4))

lemma reply_stuck: "reply_claimed g y db \<Longrightarrow> \<not> faultless g \<Longrightarrow> store_ok g db"
  by (simp add: reply_claimed_def store_ok_def)

lemma reply_row:
  assumes "reply_claimed g y db"
  shows "rows_match [\<lparr>tx_row = Some (y_id y), tx_out = y_message y, tx_ok = b, tx_note = n\<rparr>] db" and "in_state {OSending, OSent} {y_id y} db"
  using assms by (auto simp: reply_claimed_def rows_match_def in_state_def)

section \<open>The gateway\<close>

definition notices :: "string set" where
  "notices = {''Access denied.'', ''Request rate limited.''}"

text \<open>What may be sent outside the outbox: a refusal, or without a store the reply to a message that was handled.\<close>

definition direct_ok :: "'w gateway \<Rightarrow> inbound list \<Rightarrow> transmission \<Rightarrow> bool" where
  "direct_ok g ms x \<longleftrightarrow> out_text (tx_out x) \<in> notices
     \<or> \<not> w_has_store g \<and> (\<exists>m \<in> set ms. \<exists>w. fst (w_handle g m w) = Reply (tx_out x))"

definition frame_ok :: "'w gateway \<Rightarrow> nat \<Rightarrow> 'w gstate \<Rightarrow> bool" where
  "frame_ok g b s \<longleftrightarrow> trace_ok g (z_sent s) (drop b (z_sent s)) (z_store s) \<and> b \<le> length (z_sent s)
     \<and> (\<forall>m \<in> set (z_handled s). from_owner g m)
     \<and> (\<forall>x \<in> set (z_sent s). tx_row x = None \<longrightarrow> direct_ok g (z_handled s) x)"

definition gate_ok :: "'w gateway \<Rightarrow> nat \<Rightarrow> 'w gstate \<Rightarrow> bool" where
  "gate_ok g b s \<longleftrightarrow> store_ok g (z_store s) \<and> frame_ok g b s"

text \<open>A new state that differs in the tables.\<close>

lemma frame_ok_tables:
  assumes "frame_ok g b s" and "z_handled s' = z_handled s" and "z_sent s' = z_sent s"
    and "trace_ok g (z_sent s) (drop b (z_sent s)) (z_store s')"
  shows "frame_ok g b s'"
  using assms by (simp add: frame_ok_def)

lemma frame_ok_trace: "frame_ok g b s \<Longrightarrow> trace_ok g (z_sent s) (drop b (z_sent s)) (z_store s)"
  by (simp add: frame_ok_def)

lemma gate_ok_same: "gate_ok g b s \<Longrightarrow> z_store s' = z_store s \<Longrightarrow> z_handled s' = z_handled s \<Longrightarrow> z_sent s' = z_sent s \<Longrightarrow> gate_ok g b s'"
  by (simp add: gate_ok_def frame_ok_def)

lemma send_message_eff:
  assumes "send_message g i out s = (e, s')"
  shows "z_store s' = z_store s" and "z_handled s' = z_handled s" and "z_reads s' = z_reads s"
    and "z_sent s' = z_sent s @ [\<lparr>tx_row = i, tx_out = out, tx_ok = (e = None), tx_note = z_reads s\<rparr>]"
  using assms by (auto simp: send_message_def split: prod.splits)

lemma handle_message_eff:
  assumes "handle_message g m s = (r, s')"
  shows "z_store s' = z_store s" and "z_handled s' = z_handled s @ [m]" and "z_sent s' = z_sent s" and "z_reads s' = z_reads s"
    and "r = fst (w_handle g m (z_world s))"
  using assms by (auto simp: handle_message_def split: prod.splits)

lemma gate_ok_direct:
  assumes "gate_ok g b s" and "\<And>ok n. direct_ok g (z_handled s) \<lparr>tx_row = None, tx_out = out, tx_ok = ok, tx_note = n\<rparr>"
  shows "gate_ok g b (snd (send_message g None out s))"
proof -
  obtain e s' where e: "send_message g None out s = (e, s')" by fastforce
  note eff = send_message_eff [OF e]
  let ?x = "\<lparr>tx_row = None, tx_out = out, tx_ok = (e = None), tx_note = z_reads s\<rparr>"
  have "trace_ok g (z_sent s @ [?x]) (drop b (z_sent s) @ [?x]) (z_store s)"
    by (rule trace_ok_more) (use assms(1) in \<open>simp_all add: gate_ok_def frame_ok_def rows_match_def\<close>)
  then show ?thesis using assms unfolding e by (auto simp: gate_ok_def frame_ok_def eff)
qed

lemma gate_ok_notice: "gate_ok g b s \<Longrightarrow> out_text out \<in> notices \<Longrightarrow> gate_ok g b (snd (send_message g None out s))"
  by (rule gate_ok_direct) (simp_all add: direct_ok_def)

lemma direct_ok_mono: "direct_ok g ms x \<Longrightarrow> set ms \<subseteq> set ns \<Longrightarrow> direct_ok g ns x"
  unfolding direct_ok_def by blast

lemma frame_ok_handle:
  assumes "frame_ok g b s" and "from_owner g m" and "handle_message g m s = (r, s')"
  shows "frame_ok g b s'"
proof -
  note eff = handle_message_eff [OF assms(3)]
  have "direct_ok g (z_handled s') x" if "direct_ok g (z_handled s) x" for x
    by (rule direct_ok_mono [OF that]) (auto simp: eff(2))
  then show ?thesis using assms(1,2) by (simp add: frame_ok_def eff(1,3)) (auto simp: eff(2))
qed

lemma gate_ok_admit:
  assumes "gate_ok g b s" and "from_owner g m"
  shows "gate_ok g b (admit g m s)"
proof (cases "w_has_store g")
  case True
  have "gate_ok g b (s\<lparr>z_reads := n, z_store := snd (Ingest m h now (z_store s))\<rparr>)" (is "gate_ok g b ?s") for n h now
  proof -
    have "frame_ok g b ?s"
      by (rule frame_ok_tables) (use assms(1) trace_ok_quiet [OF frame_ok_trace] in \<open>auto simp: gate_ok_def Ingest_def\<close>)
    then show ?thesis using store_ok_ingest [OF _ assms(2)] assms(1) by (simp add: gate_ok_def)
  qed
  with True assms(1) show ?thesis by (simp add: admit_def read_clock_def gate_ok_same)
next
  case False
  obtain r s1 where h: "handle_message g m s = (r, s1)" by fastforce
  have ok1: "gate_ok g b s1" using frame_ok_handle [OF _ assms(2) h] assms(1) handle_message_eff(1) [OF h] by (simp add: gate_ok_def)
  show ?thesis
  proof (cases r)
    case (Reply out)
    have "gate_ok g b (snd (send_message g None out s1))"
    proof (rule gate_ok_direct [OF ok1])
      have "m \<in> set (z_handled s1)" "fst (w_handle g m (z_world s)) = Reply out" using handle_message_eff [OF h] Reply by simp_all
      then show "direct_ok g (z_handled s1) \<lparr>tx_row = None, tx_out = out, tx_ok = ok, tx_note = n\<rparr>" for ok n
        using False unfolding direct_ok_def by auto
    qed
    with False h ok1 Reply show ?thesis by (simp add: admit_def)
  qed (use False h ok1 in \<open>simp_all add: admit_def\<close>)
qed

lemma gate_ok_process:
  assumes "gate_ok g b s"
  shows "gate_ok g b (process_update g m s)"
proof -
  have note_ok: "gate_ok g b (note_update m s)" and "gate_ok g b ((note_update m s)\<lparr>z_world := w\<rparr>)" for w
    using assms by (simp_all add: gate_ok_def frame_ok_def note_update_def)
  then show ?thesis
    by (auto simp: process_update_def Let_def notice_def notices_def from_owner_def
        intro!: gate_ok_notice gate_ok_admit split: prod.split bool.split)
qed

lemma gate_ok_updates: "gate_ok g b s \<Longrightarrow> gate_ok g b (fold (process_update g) ms s)"
  by (induction ms arbitrary: s) (simp_all add: gate_ok_process)

text \<open>One round of the inbox.\<close>

lemma not_faultless: "w_fault g n \<noteq> None \<Longrightarrow> \<not> faultless g"
  by (auto simp: faultless_def)

lemma fail_message_ok:
  assumes "frame_ok g b s" and "claimed_ok g k (z_store s)"
  shows "gate_ok g b (fail_message g k e s)"
    and "inbox_left (attempts_limit g) (z_store (fail_message g k e s)) \<le> inbox_left (attempts_limit g) (z_store s)"
proof -
  let ?t = "fail_message g k e s"
  have "gate_ok g b ?t \<and> inbox_left (attempts_limit g) (z_store ?t) \<le> inbox_left (attempts_limit g) (z_store s)"
  proof (cases "w_fault g (z_reads s)")
    case None
    obtain n now later where t: "?t = s\<lparr>z_reads := n, z_store := FailInbox (k_id k) (Some e) (attempts_limit g) now later (z_store s)\<rparr>"
      using None by (auto simp: fail_message_def read_clock_def)
    have "outbox (z_store ?t) = outbox (z_store s)" by (simp add: t FailInbox_def Let_def)
    then have "frame_ok g b ?t" by (intro frame_ok_tables [OF assms(1)] trace_ok_quiet [OF frame_ok_trace [OF assms(1)]]) (simp_all add: t)
    moreover have "inbox_left (attempts_limit g) (z_store ?t) < inbox_left (attempts_limit g) (z_store s)"
      using fail_lowers [OF _ claimed_busy [OF assms(2)]] assms(2) by (simp add: t claimed_ok_def)
    ultimately show ?thesis using store_ok_fail [OF assms(2)] by (simp add: gate_ok_def t less_imp_le)
  next
    case (Some x)
    then obtain n where t: "?t = s\<lparr>z_reads := n\<rparr>" by (auto simp: fail_message_def read_clock_def)
    have "store_ok g (z_store s)" by (rule store_ok_stuck [OF assms(2) not_faultless [of g "z_reads s"]]) (use Some in simp)
    with assms(1) show ?thesis by (simp add: t gate_ok_def frame_ok_def)
  qed
  then show "gate_ok g b ?t" "inbox_left (attempts_limit g) (z_store ?t) \<le> inbox_left (attempts_limit g) (z_store s)" by simp_all
qed

lemma complete_message_ok:
  assumes "frame_ok g b s" and "claimed_ok g k (z_store s)"
  shows "gate_ok g b (complete_message g k out s)"
    and "inbox_left (attempts_limit g) (z_store (complete_message g k out s)) \<le> inbox_left (attempts_limit g) (z_store s)"
proof -
  let ?t = "complete_message g k out s"
  have "gate_ok g b ?t \<and> inbox_left (attempts_limit g) (z_store ?t) \<le> inbox_left (attempts_limit g) (z_store s)"
  proof (cases "w_fault g (z_reads s)")
    case None
    obtain n now where t: "?t = s\<lparr>z_reads := n, z_store := CompleteWithOutbox (k_id k) out (reply_key (k_message k)) now (z_store s)\<rparr>"
      using None by (auto simp: complete_message_def read_clock_def)
    have "frame_ok g b ?t"
      by (intro frame_ok_tables [OF assms(1)] trace_ok_quiet [OF frame_ok_trace [OF assms(1)]])
         (use store_ok_complete(2) [OF assms(2)] in \<open>simp_all add: t\<close>)
    moreover have "inbox_left l (z_store ?t) < inbox_left l (z_store s)" for l
      using complete_lowers [OF _ claimed_busy [OF assms(2)]] assms(2) by (simp add: t claimed_ok_def)
    ultimately show ?thesis using store_ok_complete(1) [OF assms(2)] by (simp add: gate_ok_def t less_imp_le)
  next
    case (Some x)
    let ?s = "s\<lparr>z_reads := Suc (z_reads s)\<rparr>"
    have t: "?t = fail_message g k x ?s" using Some by (simp add: complete_message_def read_clock_def)
    have "frame_ok g b ?s" "claimed_ok g k (z_store ?s)" using assms by (simp_all add: frame_ok_def)
    from fail_message_ok [OF this, of x] show ?thesis by (simp add: t)
  qed
  then show "gate_ok g b ?t" "inbox_left (attempts_limit g) (z_store ?t) \<le> inbox_left (attempts_limit g) (z_store s)" by simp_all
qed

lemma work_message_ok:
  assumes ok: "gate_ok g b s" and "claim_message g s = (Some k, s1)"
  shows "gate_ok g b (work_message g k s1)"
    and "inbox_left (attempts_limit g) (z_store (work_message g k s1)) < inbox_left (attempts_limit g) (z_store s)"
proof -
  obtain now later db where cl: "ClaimInbox (attempts_limit g) now later (z_store s) = (Some k, db)"
    and s1: "s1 = s\<lparr>z_reads := Suc (Suc (z_reads s)), z_store := db\<rparr>"
    using assms(2) by (auto simp: claim_message_def read_clock_def split: prod.splits if_splits)
  have st: "store_ok g (z_store s)" "frame_ok g b s" using ok by (simp_all add: gate_ok_def)
  note db = claim_claimed [OF st(1) cl]
  have less: "inbox_left (attempts_limit g) db < inbox_left (attempts_limit g) (z_store s)"
    by (rule claim_lowers [OF _ cl]) (use st in \<open>simp add: store_ok_def\<close>)
  have f1: "frame_ok g b s1"
    by (intro frame_ok_tables [OF st(2)] trace_ok_quiet [OF frame_ok_trace [OF st(2)]]) (simp_all add: s1 db(3))
  obtain r s2 where h: "handle_message g (k_message k) s1 = (r, s2)" by fastforce
  have f2: "frame_ok g b s2" by (rule frame_ok_handle [OF f1 db(2) h])
  have z2: "z_store s2 = db" using handle_message_eff(1) [OF h] by (simp add: s1)
  then have c2: "claimed_ok g k (z_store s2)" using db(1) by simp
  note both = fail_message_ok [OF f2 c2] complete_message_ok [OF f2 c2]
  show "gate_ok g b (work_message g k s1)"
    using both by (simp add: work_message_def h split: handler_end.split)
  show "inbox_left (attempts_limit g) (z_store (work_message g k s1)) < inbox_left (attempts_limit g) (z_store s)"
    using both(2,4) less z2 by (auto simp: work_message_def h intro: le_less_trans split: handler_end.split)
qed

lemma claim_message_None:
  assumes "gate_ok g b s" and "claim_message g s = (None, s1)"
  shows "gate_ok g b s1 \<and> z_store s1 = z_store s"
proof -
  have "z_store s1 = z_store s" "z_handled s1 = z_handled s" "z_sent s1 = z_sent s"
    using assms(2) by (auto simp: claim_message_def read_clock_def split: prod.splits if_splits dest: ClaimInbox_None)
  then show ?thesis using gate_ok_same [OF assms(1)] by simp
qed

lemma drainInbox_returns:
  assumes "gate_ok g b s" and "inbox_left (attempts_limit g) (z_store s) < n"
  shows "\<exists>s'. drainInbox g n s = Some s' \<and> gate_ok g b s'"
  using assms
proof (induction g n s rule: drainInbox.induct)
  case (2 g n s)
  obtain k s1 where c: "claim_message g s = (k, s1)" by fastforce
  show ?case
  proof (cases k)
    case None
    with c 2 claim_message_None [of g b s s1] show ?thesis by simp
  next
    case (Some k')
    with c work_message_ok [of g b s k' s1] 2 show ?thesis by simp
  qed
qed simp

text \<open>One round of the outbox.\<close>

lemma claim_reply_None:
  assumes "gate_ok g b s" and "claim_reply g s = (None, s1)"
  shows "gate_ok g b s1 \<and> z_store s1 = z_store s"
proof -
  have "z_store s1 = z_store s" "z_handled s1 = z_handled s" "z_sent s1 = z_sent s"
    using assms(2) by (auto simp: claim_reply_def read_clock_def split: prod.splits if_splits dest: ClaimOutbox_None)
  then show ?thesis using gate_ok_same [OF assms(1)] by simp
qed

lemma outbox_left_sent: "outbox_left (OutboxSent i now db) \<le> outbox_left db"
  unfolding outbox_left_def OutboxSent_def by (simp, rule weight_update_le) simp

text \<open>Between the claim of a reply and its end.\<close>

lemma claim_reply_ok:
  assumes ok: "gate_ok g b s" and "claim_reply g s = (Some y, s1)"
  shows "reply_claimed g y (z_store s1)" and "frame_ok g b s1" and "y_id y \<notin> noted g (z_sent s1)" and "y_id y \<notin> set (delivered (drop b (z_sent s1)))"
    and "outbox_left (z_store s1) < outbox_left (z_store s)"
proof -
  obtain now later db where cl: "ClaimOutbox now later (z_store s) = (Some y, db)"
    and s1: "s1 = s\<lparr>z_reads := Suc (Suc (z_reads s)), z_store := db\<rparr>"
    using assms(2) by (auto simp: claim_reply_def read_clock_def split: prod.splits if_splits)
  have st: "store_ok g (z_store s)" "frame_ok g b s" using ok by (simp_all add: gate_ok_def)
  note c = reply_claim [OF st(1) frame_ok_trace [OF st(2)] cl]
  show "reply_claimed g y (z_store s1)" "y_id y \<notin> noted g (z_sent s1)" "y_id y \<notin> set (delivered (drop b (z_sent s1)))"
    "outbox_left (z_store s1) < outbox_left (z_store s)" using c by (simp_all add: s1)
  show "frame_ok g b s1" by (rule frame_ok_tables [OF st(2)]) (use c(2) in \<open>simp_all add: s1\<close>)
qed

lemma reply_sent_ok:
  assumes cl: "reply_claimed g y (z_store s1)" and fr: "frame_ok g b s1" and new: "y_id y \<notin> noted g (z_sent s1)" "y_id y \<notin> set (delivered (drop b (z_sent s1)))"
    and sent: "send_message g (Some (y_id y)) (y_message y) s1 = (None, s2)"
  shows "gate_ok g b (reply_sent g y s2)" and "outbox_left (z_store (reply_sent g y s2)) \<le> outbox_left (z_store s1)"
proof -
  let ?x = "\<lparr>tx_row = Some (y_id y), tx_out = y_message y, tx_ok = True, tx_note = z_reads s1\<rparr>"
  note eff = send_message_eff [OF sent]
  let ?lost = "w_fault g (z_reads s1) \<noteq> None"
  define db where "db = (if ?lost then z_store s1 else OutboxSent (y_id y) (w_clock g (z_reads s1)) (z_store s1))"
  have t: "reply_sent g y s2 = s2\<lparr>z_reads := Suc (z_reads s1), z_store := db, z_messages := z_messages s2 + 1\<rparr>"
    by (simp add: reply_sent_def read_clock_def eff db_def)
  let ?f = "\<lambda>q. q\<lparr>o_state := OSent, o_updated_at := formatTime (w_clock g (z_reads s1))\<rparr>"
  have keep: "outbox_keeping ?f" by (simp add: keeping)
  have written: "db = (z_store s1)\<lparr>outbox := update_where (\<lambda>q. o_id q = y_id y) ?f (outbox (z_store s1))\<rparr>" if "\<not> ?lost"
    using that by (simp add: db_def OutboxSent_def)
  have "store_ok g db"
  proof (cases ?lost)
    case True
    then show ?thesis using reply_stuck [OF cl not_faultless] by (simp add: db_def)
  next
    case False
    then show ?thesis using reply_written [OF cl keep _ written] by simp
  qed
  moreover have "trace_ok g (z_sent s1 @ [?x]) (drop b (z_sent s1) @ [?x]) db"
  proof (rule trace_ok_delivery [OF _ _ _ new])
    have st: "steady {} (z_store s1) db"
      by (cases ?lost) (simp add: db_def, rule steady_update [OF _ keep], simp add: written, simp)
    show "trace_ok g (z_sent s1) (drop b (z_sent s1)) db" by (rule trace_ok_steady [OF frame_ok_trace [OF fr] st]) simp_all
    show "rows_match [?x] db" by (rule rows_match_steady [OF reply_row(1) [OF cl] st])
    show "in_state (if w_fault g (tx_note ?x) = None then {OSent} else {OSending, OSent}) {y_id y} db"
    proof (cases ?lost)
      case True
      with reply_row(2) [OF cl] show ?thesis by (simp add: db_def del: not_None_eq)
    next
      case False
      obtain q where q: "q \<in> set (outbox (z_store s1))" "o_id q = y_id y" using cl by (auto simp: reply_claimed_def)
      then have "?f q \<in> set (outbox db)" by (auto simp: written [OF False] set_update_where)
      then have "\<exists>q \<in> set (outbox db). o_id q = y_id y \<and> o_state q = OSent" by (rule bexI [rotated]) (simp add: q)
      with False show ?thesis by (simp add: in_state_def)
    qed
  qed simp_all
  ultimately show "gate_ok g b (reply_sent g y s2)" using fr unfolding t by (auto simp: gate_ok_def frame_ok_def eff)
  show "outbox_left (z_store (reply_sent g y s2)) \<le> outbox_left (z_store s1)" using outbox_left_sent by (simp add: t db_def)
qed

lemma reply_failed_ok:
  assumes cl: "reply_claimed g y (z_store s1)" and fr: "frame_ok g b s1" and new: "y_id y \<notin> noted g (z_sent s1)" "y_id y \<notin> set (delivered (drop b (z_sent s1)))"
    and sent: "send_message g (Some (y_id y)) (y_message y) s1 = (Some e, s2)"
  shows "gate_ok g b (reply_failed g y e s2)"
proof -
  let ?x = "\<lparr>tx_row = Some (y_id y), tx_out = y_message y, tx_ok = False, tx_note = z_reads s1\<rparr>"
  note eff = send_message_eff [OF sent]
  have tr: "trace_ok g (z_sent s1 @ [?x]) (drop b (z_sent s1) @ [?x]) (z_store s1)"
    by (rule trace_ok_more [OF frame_ok_trace [OF fr] _ reply_row(1) [OF cl]]) (use new in simp_all)
  have fr2: "frame_ok g b s2" using fr tr by (auto simp: frame_ok_def eff)
  show ?thesis
  proof (cases "w_fault g (z_reads s1)")
    case (Some x)
    then obtain n where t: "reply_failed g y e s2 = s2\<lparr>z_reads := n\<rparr>" by (auto simp: reply_failed_def read_clock_def eff)
    have "store_ok g (z_store s1)" by (rule reply_stuck [OF cl not_faultless [of g "z_reads s1"]]) (use Some in simp)
    then show ?thesis using fr2 by (simp add: t gate_ok_def frame_ok_def eff)
  next
    case None
    then obtain n now later where t: "reply_failed g y e s2 = s2\<lparr>z_reads := n, z_store := OutboxFailed (y_id y) (Some e) (attempts_limit g) now later (z_store s1)\<rparr>"
      by (auto simp: reply_failed_def read_clock_def eff)
    obtain f where db: "OutboxFailed (y_id y) (Some e) (attempts_limit g) now later (z_store s1)
        = (z_store s1)\<lparr>outbox := update_where (\<lambda>q. o_id q = y_id y) f (outbox (z_store s1))\<rparr>"
      and f: "outbox_keeping f" "\<And>q. o_state (f q) \<noteq> OSending"
    proof -
      let ?a = "case select_one (\<lambda>r. o_id r = y_id y) (outbox (z_store s1)) of None \<Rightarrow> 0 | Some r \<Rightarrow> o_attempts r"
      show thesis
        by (rule that [of "\<lambda>r. r\<lparr>o_state := if attempts_limit g \<le> ?a then ODead else OPending, o_last_error := safeErr (Some e),
              o_available_at := now + retry_delay ?a, o_updated_at := formatTime later\<rparr>"])
           (simp_all add: OutboxFailed_def Let_def keeping)
    qed
    have "store_ok g (z_store (reply_failed g y e s2))" using reply_written [OF cl f db] by (simp add: t)
    moreover have "steady {y_id y} (z_store s1) (z_store (reply_failed g y e s2))"
      by (rule steady_update [OF _ f(1), where p = "\<lambda>q. o_id q = y_id y"]) (simp_all add: t db)
    then have "trace_ok g (z_sent s1 @ [?x]) (drop b (z_sent s1) @ [?x]) (z_store (reply_failed g y e s2))"
      by (rule trace_ok_steady [OF tr]) (use new in \<open>simp_all add: noted_snoc delivered_snoc\<close>)
    ultimately show ?thesis using fr by (auto simp: gate_ok_def frame_ok_def t eff)
  qed
qed

lemma drainOutbox_returns:
  assumes "gate_ok g b s" and "outbox_left (z_store s) < n"
  shows "\<exists>s'. drainOutbox g n s = Some s' \<and> gate_ok g b s'"
  using assms
proof (induction g n s rule: drainOutbox.induct)
  case (2 g n s)
  obtain y s1 where c: "claim_reply g s = (y, s1)" by fastforce
  show ?case
  proof (cases y)
    case None
    with c 2 claim_reply_None [of g b s s1] show ?thesis by simp
  next
    case (Some y')
    note cl = claim_reply_ok [OF 2(2) c [unfolded Some]]
    obtain e s2 where sent: "send_message g (Some (y_id y')) (y_message y') s1 = (e, s2)" by fastforce
    show ?thesis
    proof (cases e)
      case None
      note ok = reply_sent_ok [OF cl(1-4) sent [unfolded None]]
      have "outbox_left (z_store (reply_sent g y' s2)) < n" using ok(2) cl(5) 2(3) by simp
      with 2(1) [OF c [symmetric] Some sent [symmetric] None ok(1)] c Some sent None show ?thesis by simp
    next
      case e: (Some x)
      with reply_failed_ok [OF cl(1-4) sent [unfolded e]] c Some sent show ?thesis by simp
    qed
  qed
qed simp

text \<open>More fuel gives the same end.\<close>

lemma drainInbox_more: "drainInbox g n s = Some s' \<Longrightarrow> n \<le> m \<Longrightarrow> drainInbox g m s = Some s'"
proof (induction g n s arbitrary: m rule: drainInbox.induct)
  case (2 g n s)
  from 2(3) obtain l where "m = Suc l" "n \<le> l" by (cases m) auto
  then show ?case using 2(1) [OF prod.collapse] 2(2)
    by (simp add: case_prod_beta split: option.splits)
qed simp

lemma drainOutbox_more: "drainOutbox g n s = Some s' \<Longrightarrow> n \<le> m \<Longrightarrow> drainOutbox g m s = Some s'"
proof (induction g n s arbitrary: m rule: drainOutbox.induct)
  case (2 g n s)
  from 2(3) obtain l where l: "m = Suc l" "n \<le> l" by (cases m) auto
  obtain c s1 where c: "claim_reply g s = (c, s1)" by fastforce
  show ?case
  proof (cases c)
    case None
    with 2(2) l c show ?thesis by simp
  next
    case (Some y)
    obtain e s2 where e: "send_message g (Some (y_id y)) (y_message y) s1 = (e, s2)" by fastforce
    show ?thesis
    proof (cases e)
      case None
      with 2(1) [OF c [symmetric] Some e [symmetric] None] 2(2) l c Some e show ?thesis by simp
    next
      case (Some x)
      with 2(2) l c \<open>c = Some y\<close> e show ?thesis by simp
    qed
  qed
qed simp

lemma poll_once_more:
  assumes "poll_once g n s = Some r" and "n \<le> m"
  shows "poll_once g m s = Some r"
proof -
  obtain u w where u: "w_updates g (z_offset s) (w_poll_timeout g) (z_world s) = (u, w)" by fastforce
  show ?thesis
  proof (cases u)
    case (Updates ms)
    define s1 where "s1 = fold (process_update g) ms (s\<lparr>z_world := w, z_failures := 0\<rparr>)"
    show ?thesis
    proof (cases "w_has_store g")
      case True
      then obtain s2 s3 where "drainInbox g n s1 = Some s2" "drainOutbox g n s2 = Some s3" "r = Inr s3"
        using assms(1) by (auto simp: poll_once_def u Updates s1_def [symmetric] split: option.splits)
      note ended = this
      have "drainInbox g m s1 = Some s2" "drainOutbox g m s2 = Some s3"
        by (rule drainInbox_more [OF ended(1) assms(2)], rule drainOutbox_more [OF ended(2) assms(2)])
      with True ended(3) show ?thesis by (simp add: poll_once_def u Updates s1_def [symmetric])
    next
      case False
      with assms(1) show ?thesis by (simp add: poll_once_def u Updates)
    qed
  qed (use assms(1) in \<open>simp_all add: poll_once_def u\<close>)
qed

lemma gateway_loop_more: "gateway_loop g n p s = Some s' \<Longrightarrow> n \<le> m \<Longrightarrow> gateway_loop g m p s = Some s'"
proof (induction g n p s rule: gateway_loop.induct)
  case (2 g n p s)
  then obtain r where "poll_once g n s = Some r" "poll_once g m s = Some r"
    by (auto split: option.splits dest: poll_once_more)
  with 2 show ?case by (auto split: sum.splits)
qed simp

section \<open>Every poll ends\<close>

definition poll_state :: "('w gstate, 'w gstate) result \<Rightarrow> 'w gstate" where
  "poll_state r = (case r of Inl s \<Rightarrow> s | Inr s \<Rightarrow> s)"

lemma poll_once_returns:
  assumes "gate_ok g b s"
  shows "\<exists>n r. poll_once g n s = Some r \<and> gate_ok g b (poll_state r)"
proof -
  obtain u w where u: "w_updates g (z_offset s) (w_poll_timeout g) (z_world s) = (u, w)" by fastforce
  have same: "gate_ok g b (s\<lparr>z_world := w\<rparr>)" "gate_ok g b (s\<lparr>z_world := w, z_failures := k, z_backoffs := c\<rparr>)"
    "gate_ok g b (s\<lparr>z_world := w, z_failures := k\<rparr>)" for k c
    using assms by (simp_all add: gate_ok_def frame_ok_def)
  show ?thesis
  proof (cases u)
    case (Updates ms)
    define s1 where "s1 = fold (process_update g) ms (s\<lparr>z_world := w, z_failures := 0\<rparr>)"
    have ok1: "gate_ok g b s1" unfolding s1_def by (rule gate_ok_updates [OF same(3)])
    show ?thesis
    proof (cases "w_has_store g")
      case True
      obtain n s2 where d: "drainInbox g n s1 = Some s2" "gate_ok g b s2" using drainInbox_returns [OF ok1 lessI] by blast
      obtain m s3 where e: "drainOutbox g m s2 = Some s3" "gate_ok g b s3" using drainOutbox_returns [OF d(2) lessI] by blast
      have "poll_once g (max n m) s = Some (Inr s3)"
        using drainInbox_more [OF d(1), of "max n m"] drainOutbox_more [OF e(1), of "max n m"] True
        by (simp add: poll_once_def u Updates s1_def [symmetric])
      moreover have "gate_ok g b (poll_state (Inr s3))" using e(2) by (simp add: poll_state_def)
      ultimately show ?thesis by blast
    next
      case False
      with ok1 show ?thesis by (simp add: poll_once_def u Updates s1_def [symmetric] poll_state_def)
    qed
  qed (simp_all add: poll_once_def u poll_state_def same)
qed

lemma gateway_loop_returns:
  "gate_ok g b s \<Longrightarrow> \<exists>n s'. gateway_loop g n p s = Some s' \<and> gate_ok g b s'"
proof (induction p arbitrary: s)
  case (Suc p)
  obtain n r where r: "poll_once g n s = Some r" "gate_ok g b (poll_state r)" using poll_once_returns [OF Suc.prems] by blast
  show ?case
  proof (cases r)
    case (Inl s1)
    with r have "gateway_loop g n (Suc p) s = Some s1 \<and> gate_ok g b s1" by (simp add: poll_state_def)
    then show ?thesis by blast
  next
    case (Inr s1)
    with r obtain m s2 where m: "gateway_loop g m p s1 = Some s2" "gate_ok g b s2" using Suc.IH [of s1] by (auto simp: poll_state_def)
    have "gateway_loop g (max n m) (Suc p) s = Some s2"
      using poll_once_more [OF r(1), of "max n m"] gateway_loop_more [OF m(1), of "max n m"] Inr by simp
    with m(2) show ?thesis by blast
  qed
qed simp

text \<open>A gateway that starts: an opened store and nothing handled or sent yet.\<close>

definition gateway_start :: "'w gateway \<Rightarrow> 'w gstate \<Rightarrow> bool" where
  "gateway_start g s \<longleftrightarrow> store_inv (z_store s) \<and> idle (z_store s) \<and> answered (z_store s)
     \<and> (\<forall>r \<in> set (inbox (z_store s)). from_owner g (m_message r)) \<and> z_handled s = [] \<and> z_sent s = []"

lemma gateway_start_gate: "gateway_start g s \<Longrightarrow> gate_ok g 0 s"
  by (simp add: gateway_start_def gate_ok_def frame_ok_def store_ok_def trace_ok_def delivered_def noted_def in_state_def rows_match_def)

lemma gate_ok_started: "gate_ok g b s \<Longrightarrow> gate_ok g b (s\<lparr>z_offset := 0, z_failures := 0\<rparr>)"
  by (rule gate_ok_same) simp_all

lemma gateway_start_ok: "gateway_start g s \<Longrightarrow> gate_ok g 0 (s\<lparr>z_offset := 0, z_failures := 0\<rparr>)"
  by (rule gate_ok_started [OF gateway_start_gate])

lemma Run_gateway_keeps:
  assumes "gate_ok g b s" and "Run_gateway g fuel polls s = Inr (Some s')"
  shows "gate_ok g b s'"
proof -
  from assms(2) have run: "gateway_loop g fuel polls (s\<lparr>z_offset := 0, z_failures := 0\<rparr>) = Some s'"
    by (simp add: Run_gateway_def split: if_splits)
  obtain n t where n: "gateway_loop g n polls (s\<lparr>z_offset := 0, z_failures := 0\<rparr>) = Some t" "gate_ok g b t"
    using gateway_loop_returns [OF gate_ok_started [OF assms(1)]] by blast
  have "s' = t" using gateway_loop_more [OF run, of "max n fuel"] gateway_loop_more [OF n(1), of "max n fuel"] by simp
  with n(2) show ?thesis by simp
qed

lemma Run_gateway_ok: "gateway_start g s \<Longrightarrow> Run_gateway g fuel polls s = Inr (Some s') \<Longrightarrow> gate_ok g 0 s'"
  by (rule Run_gateway_keeps [OF gateway_start_gate])

section \<open>One process after the other\<close>

lemma Open_rows:
  assumes "Open_store stamp db = (r, d)"
  obtains (failed) e where "r = Inl e" and "inbox d = inbox db" and "outbox d = outbox db" and "store_inv db \<longrightarrow> store_inv d"
    | (opened) d0 where "r = Inr d" and "d = requeue_interrupted stamp d0" and "inbox d0 = inbox db" and "outbox d0 = outbox db"
        and "store_inv db \<longrightarrow> store_inv d0"
proof -
  have mig: "inbox d2 = inbox d1 \<and> outbox d2 = outbox d1 \<and> (store_inv d1 \<longrightarrow> store_inv d2)" if "applyMigration v body d1 = (x, d2)" for v body x d1 d2
    using that by (auto simp: applyMigration_def store_inv_def split: if_splits option.splits)
  have base: "inbox (base_schema db) = inbox db" "outbox (base_schema db) = outbox db" "store_inv db \<longrightarrow> store_inv (base_schema db)"
    by (simp_all add: base_schema_def store_inv_def)
  obtain x1 d1 where m4: "applyMigration 4 schedulerMigration (base_schema db) = (x1, d1)" by fastforce
  obtain x2 d2 where m5: "applyMigration 5 instagramMigration d1 = (x2, d2)" by fastforce
  note kept = mig [OF m4] mig [OF m5] base
  show thesis
  proof (cases x1)
    case (Inl e)
    then have "r = Inl e" "d = d1" using assms m4 by (simp_all add: Open_store_def)
    with kept show thesis by (intro failed) simp_all
  next
    case x1: (Inr u)
    show thesis
    proof (cases x2)
      case (Inl e)
      then have "r = Inl e" "d = d2" using assms m4 m5 x1 by (simp_all add: Open_store_def)
      with kept show thesis by (intro failed) simp_all
    next
      case (Inr u')
      then have "r = Inr d" "d = requeue_interrupted stamp d2" using assms m4 m5 x1 by (auto simp: Open_store_def)
      with kept show thesis by (intro opened [of d2]) simp_all
    qed
  qed
qed

text \<open>What holds between two processes.\<close>

definition rest_ok :: "'w gateway \<Rightarrow> 'w gstate \<Rightarrow> bool" where
  "rest_ok g s \<longleftrightarrow> gate_ok g (length (z_sent s)) s"

lemma gate_rest:
  assumes "gate_ok g b s"
  shows "rest_ok g s"
proof -
  have "trace_ok g (z_sent s) [] (z_store s)"
    using frame_ok_trace [of g b s] assms by (auto simp: gate_ok_def trace_ok_def in_state_def delivered_def)
  with assms show ?thesis by (simp add: rest_ok_def gate_ok_def frame_ok_def)
qed

lemma rest_ok_db:
  assumes "rest_ok g s" and "inbox db = inbox (z_store s)" and "outbox db = outbox (z_store s)" and "store_inv db"
  shows "rest_ok g (s\<lparr>z_store := db\<rparr>)"
  using assms by (simp add: rest_ok_def gate_ok_def frame_ok_def store_ok_def answered_def idle_def trace_ok_def in_state_def rows_match_def)

lemma rest_ok_requeued:
  assumes "rest_ok g s"
  shows "rest_ok g (s\<lparr>z_store := requeue_interrupted stamp (z_store s)\<rparr>)"
proof -
  let ?db = "requeue_interrupted stamp (z_store s)" and ?f = "\<lambda>r. r\<lparr>o_state := OPending, o_updated_at := stamp\<rparr>"
  have ok: "store_ok g (z_store s)" "trace_ok g (z_sent s) [] (z_store s)"
    using assms by (simp_all add: rest_ok_def gate_ok_def frame_ok_def)
  have inb: "inbox ?db = update_where (\<lambda>r. m_state r = MRunning) (\<lambda>r. r\<lparr>m_state := MPending, m_updated_at := stamp\<rparr>) (inbox (z_store s))"
    and out: "outbox ?db = update_where (\<lambda>r. o_state r = OSending) ?f (outbox (z_store s))" by (simp_all add: requeue_interrupted_def)
  have keep: "outbox_keeping ?f" by (simp add: keeping)
  have "idle ?db" using requeue_done by (auto simp: idle_def)
  moreover have "answered ?db" using ok(1) keys_update [OF keep] unfolding answered_def inb out
    by (auto simp: store_ok_def answered_def set_update_where split: if_splits)
  moreover have "\<forall>r \<in> set (inbox ?db). from_owner g (m_message r)"
    using ok(1) unfolding inb by (auto simp: store_ok_def set_update_where split: if_splits)
  ultimately have store: "store_ok g ?db" using requeue_inv ok(1) by (simp add: store_ok_def)
  define X where "X = {o_id q |q. q \<in> set (outbox (z_store s)) \<and> o_state q = OSending}"
  have "steady X (z_store s) ?db"
    by (rule steady_update [OF out keep]) (auto simp: X_def)
  moreover have "X \<inter> noted g (z_sent s) = {}"
  proof -
    have False if q: "i \<in> noted g (z_sent s)" "q \<in> set (outbox (z_store s))" "o_state q = OSending" "o_id q = i" for i q
    proof -
      have "in_state {OSent} (noted g (z_sent s)) (z_store s)" using ok(2) by (simp add: trace_ok_def)
      then obtain p where "p \<in> set (outbox (z_store s))" "o_id p = i" "o_state p = OSent" using q(1) by (auto simp: in_state_def)
      then show False using same_reply [of "z_store s" p q] ok(1) q by (simp add: store_ok_def)
    qed
    then show ?thesis by (auto simp: X_def)
  qed
  ultimately have "trace_ok g (z_sent s) [] ?db" by (intro trace_ok_steady [OF ok(2)]) (simp_all add: delivered_def)
  with store assms show ?thesis by (simp add: rest_ok_def gate_ok_def frame_ok_def)
qed

lemma gateway_life_ok: "rest_ok g s \<Longrightarrow> gateway_life g fuel rs s = Some s' \<Longrightarrow> rest_ok g s'"
proof (induction g fuel rs s rule: gateway_life.induct)
  case (2 g fuel stamp polls rs s)
  obtain r d where op: "Open_store stamp (z_store s) = (r, d)" by fastforce
  have inv: "store_inv (z_store s)" using 2(4) by (simp add: rest_ok_def gate_ok_def store_ok_def)
  from op show ?case
  proof (cases rule: Open_rows)
    case (failed e)
    then have "rest_ok g (s\<lparr>z_store := d\<rparr>)" using rest_ok_db [OF 2(4)] inv by simp
    then show ?thesis using 2(1) [OF op [symmetric] failed(1)] 2(5) op failed(1) by simp
  next
    case (opened d0)
    then have "rest_ok g (s\<lparr>z_store := d0\<rparr>)" using rest_ok_db [OF 2(4)] inv by simp
    from rest_ok_requeued [OF this, of stamp] have ok: "rest_ok g (s\<lparr>z_store := d\<rparr>)" using opened(2) by simp
    show ?thesis
    proof (cases "Run_gateway g fuel polls (s\<lparr>z_store := d\<rparr>)")
      case (Inl e)
      then show ?thesis using 2(2) [OF op [symmetric] opened(1)] ok 2(5) op opened(1) by simp
    next
      case (Inr x)
      then obtain s1 where x: "x = Some s1" "gateway_life g fuel rs s1 = Some s'" using 2(5) op opened(1) by (cases x) simp_all
      have "rest_ok g s1"
        by (rule gate_rest [OF Run_gateway_keeps [OF ok [unfolded rest_ok_def]]]) (use Inr x in simp)
      then show ?thesis using 2(3) [OF op [symmetric] opened(1) Inr x(1)] x(2) by simp
    qed
  qed
qed simp

lemma gateway_life_returns: "rest_ok g s \<Longrightarrow> \<exists>n. \<forall>fuel \<ge> n. \<exists>s'. gateway_life g fuel rs s = Some s'"
proof (induction rs arbitrary: s)
  case (Cons r rs)
  obtain stamp polls where r: "r = (stamp, polls)" by fastforce
  obtain x d where op: "Open_store stamp (z_store s) = (x, d)" by fastforce
  have inv: "store_inv (z_store s)" using Cons.prems by (simp add: rest_ok_def gate_ok_def store_ok_def)
  from op show ?case
  proof (cases rule: Open_rows)
    case (failed e)
    then have "rest_ok g (s\<lparr>z_store := d\<rparr>)" using rest_ok_db [OF Cons.prems] inv by simp
    from Cons.IH [OF this] failed(1) op show ?thesis by (simp add: r)
  next
    case (opened d0)
    then have "rest_ok g (s\<lparr>z_store := d0\<rparr>)" using rest_ok_db [OF Cons.prems] inv by simp
    from rest_ok_requeued [OF this, of stamp] have ok: "rest_ok g (s\<lparr>z_store := d\<rparr>)" using opened(2) by simp
    show ?thesis
    proof (cases "w_ready g \<and> 0 < w_owner g")
      case False
      then have "Run_gateway g fuel polls (s\<lparr>z_store := d\<rparr>) = Inl DependenciesUnavailable" for fuel by (auto simp: Run_gateway_def)
      with Cons.IH [OF ok] opened(1) op show ?thesis by (simp add: r)
    next
      case True
      obtain n s1 where n: "gateway_loop g n polls (s\<lparr>z_store := d, z_offset := 0, z_failures := 0\<rparr>) = Some s1"
        using gateway_loop_returns [OF gate_ok_started [OF ok [unfolded rest_ok_def]], of polls] by auto
      have run: "Run_gateway g fuel polls (s\<lparr>z_store := d\<rparr>) = Inr (Some s1)" if "n \<le> fuel" for fuel
        using gateway_loop_more [OF n that] True by (simp add: Run_gateway_def)
      have "rest_ok g s1" by (rule gate_rest [OF Run_gateway_keeps [OF ok [unfolded rest_ok_def] run [OF order_refl]]])
      from Cons.IH [OF this] obtain m where m: "\<forall>fuel \<ge> m. \<exists>s'. gateway_life g fuel rs s1 = Some s'" by blast
      have "\<exists>s'. gateway_life g fuel (r # rs) s = Some s'" if "max n m \<le> fuel" for fuel
        using m that run [of fuel] op opened(1) by (simp add: r)
      then show ?thesis by blast
    qed
  qed
qed simp

section \<open>The theorems\<close>

text \<open>
  C39: Started over an opened store, the gateway never blocks itself: for every number of polls
  there is a fuel from which on \<open>Run\<close> comes back, always with the same state, whatever accesses to the store fail.
\<close>

theorem gateway_returns:
  assumes "gateway_start g s" and "w_ready g" and "0 < w_owner g"
  shows "\<exists>n s'. \<forall>fuel \<ge> n. Run_gateway g fuel polls s = Inr (Some s')"
proof -
  obtain n s' where n: "gateway_loop g n polls (s\<lparr>z_offset := 0, z_failures := 0\<rparr>) = Some s'"
    using gateway_loop_returns [OF gateway_start_ok [OF assms(1)]] by blast
  have "Run_gateway g fuel polls s = Inr (Some s')" if "n \<le> fuel" for fuel
    using gateway_loop_more [OF n that] assms(2,3) by (simp add: Run_gateway_def)
  then show ?thesis by blast
qed



text \<open>
  C0: Within one process no reply is delivered twice, even where accesses fail: a row that was delivered is marked as sent
  or, if that could not be written, still as being sent, and neither is claimed again before the store is
  opened anew. If no access fails, every delivered row is marked as sent and between two polls nothing is half done.
\<close>

theorem run_delivers_once:
  assumes "gateway_start g s" and "Run_gateway g fuel polls s = Inr (Some s')"
  shows "distinct (delivered (z_sent s'))
    \<and> (\<forall>i \<in> set (delivered (z_sent s')). \<exists>q \<in> set (outbox (z_store s')). o_id q = i \<and> (o_state q = OSent \<or> o_state q = OSending))
    \<and> ((\<forall>n. w_fault g n = None) \<longrightarrow>
         (\<forall>r \<in> set (inbox (z_store s')). m_state r \<noteq> MRunning) \<and> (\<forall>q \<in> set (outbox (z_store s')). o_state q \<noteq> OSending))"
  using Run_gateway_ok [OF assms]
  by (auto simp: gate_ok_def frame_ok_def store_ok_def trace_ok_def in_state_def faultless_def idle_def)

section \<open>Witnesses\<close>

text \<open>
  A gateway that gets one message of the owner and one of a stranger, echoes the text whose
  first transmission fails and one of whose accesses to the store does.
\<close>

definition demo_message :: "int \<Rightarrow> int \<Rightarrow> inbound" where
  "demo_message u user = \<lparr>in_update = u, in_message = u, in_chat = 9, in_user = user, in_chat_type = ''private'', in_text = ''hi'', in_received = 0\<rparr>"

definition demo_gateway :: "nat gateway" where
  "demo_gateway = \<lparr>w_updates = \<lambda>_ _ n. (if n = 0 then Updates [demo_message 5 7, demo_message 6 8] else Updates [], n + 1),
     w_handle = \<lambda>m n. (Reply \<lparr>out_chat = in_chat m, out_text = in_text m, out_reply_to = 0\<rparr>, n + 1),
     w_allow = \<lambda>_ _ n. (True, n), w_send = \<lambda>_ n. (if n = 1 then Some ''down'' else None, n + 1),
     w_clock = int, w_fault = \<lambda>n. if n = 10 then Some ''disk full'' else None, w_ready = True, w_owner = 7, w_poll_timeout = 30, w_max_attempts = 0, w_has_store = True\<rparr>"

definition demo_gstate :: "nat gstate" where
  "demo_gstate = \<lparr>z_store = empty_store, z_world = 0, z_reads = 0, z_offset = 3, z_failures = 1, z_last_update = 0,
     z_messages = 0, z_handled = [], z_sent = [], z_backoffs = []\<rparr>"

lemma demo_start: "gateway_start demo_gateway demo_gstate"
  by (simp add: gateway_start_def demo_gstate_def store_inv_empty) (simp add: empty_store_def idle_def answered_def)

lemma demo_ready: "w_ready demo_gateway" "0 < w_owner demo_gateway"
  by (simp_all add: demo_gateway_def)

lemma demo_run: "\<exists>fuel s'. Run_gateway demo_gateway fuel 3 demo_gstate = Inr (Some s')"
  using gateway_loop_returns [OF gateway_start_ok [OF demo_start], of 3] demo_ready by (auto simp: Run_gateway_def)

lemma gateway_returns_witness:
  "\<exists>fuel s'. Run_gateway demo_gateway fuel 3 demo_gstate = Inr (Some s')"
  using gateway_returns [OF demo_start demo_ready] by blast


text \<open>A gateway whose note of its only delivery is lost: the next process delivers it again.\<close>

definition lossy_gateway :: "nat gateway" where
  "lossy_gateway = \<lparr>w_updates = \<lambda>_ _ n. (if n = 0 then Updates [demo_message 5 7] else Updates [], Suc n),
     w_handle = \<lambda>m n. (Reply \<lparr>out_chat = in_chat m, out_text = in_text m, out_reply_to = 0\<rparr>, n),
     w_allow = \<lambda>_ _ n. (True, n), w_send = \<lambda>_ n. (None, n),
     w_clock = \<lambda>n. 0, w_fault = \<lambda>n. if n = 8 then Some ''disk full'' else None, w_ready = True, w_owner = 7, w_poll_timeout = 30, w_max_attempts = 0, w_has_store = True\<rparr>"

lemma lossy_simps:
  "w_updates lossy_gateway i j n = (if n = 0 then Updates [demo_message 5 7] else Updates [], Suc n)"
  "w_handle lossy_gateway m n = (Reply \<lparr>out_chat = in_chat m, out_text = in_text m, out_reply_to = 0\<rparr>, n)"
  "w_allow lossy_gateway u t n = (True, n)" "w_send lossy_gateway out n = (None, n)" "w_clock lossy_gateway n = 0"
  "w_fault lossy_gateway n = (if n = 8 then Some ''disk full'' else None)" "w_ready lossy_gateway" "w_owner lossy_gateway = 7"
  "w_has_store lossy_gateway"
  by (simp_all add: lossy_gateway_def)

lemmas lossy_eval = Run_gateway_def poll_once_def lossy_simps demo_message_def process_update_def
      note_update_def admit_def read_clock_def Ingest_def claim_message_def ClaimInbox_def inbox_ready_def work_message_def
      handle_message_def complete_message_def CompleteWithOutbox_def insert_or_ignore_def claim_reply_def ClaimOutbox_def send_message_def
      reply_sent_def OutboxSent_def outbox_ready_def rows_affected_def update_where_def Let_def
      Open_store_def applyMigration_def base_schema_def add_version_def schedulerMigration_def instagramMigration_def create_tables_def requeue_interrupted_def

lemma lossy_life:
  "\<exists>s'. gateway_life lossy_gateway (Suc (Suc 0)) [([], Suc 0), ([], Suc 0)] demo_gstate = Some s'
     \<and> z_sent s' = map (\<lambda>n. \<lparr>tx_row = Some 1, tx_out = \<lparr>out_chat = 9, out_text = ''hi'', out_reply_to = 0\<rparr>, tx_ok = True, tx_note = n\<rparr>) [8, 15]"
  by (simp add: lossy_eval empty_store_def demo_gstate_def del: One_nat_def)


lemma run_delivers_once_witness:
  "\<exists>fuel s'. Run_gateway demo_gateway fuel 3 demo_gstate = Inr (Some s') \<and> distinct (delivered (z_sent s'))"
proof -
  obtain fuel s' where run: "Run_gateway demo_gateway fuel 3 demo_gstate = Inr (Some s')" using demo_run by blast
  with run_delivers_once [OF demo_start run] show ?thesis by blast
qed

end
