(* ===== verification/Agent.thy ===== *)
theory Agent
  imports Session Memory SecLimits Approval GatewayProofs
begin

text \<open>
  Package \<open>internal/agent\<close>: how a message of the user is answered. Commands go to the approvals and the memory,
  everything else to the model, within a budget. The model, the full-text index, the clock and what
  \<open>internal/health\<close> reports are arguments; the state records every call of the model, with the history and the
  budget it was given.
\<close>

section \<open>Texts\<close>

text \<open>\<open>strings.Fields\<close>: the pieces between runs of space, the current piece in reverse.\<close>

function split_fields :: "string \<Rightarrow> string \<Rightarrow> string list" where
  "split_fields s piece =
     (case s of
        [] \<Rightarrow> (if piece = [] then [] else [rev piece])
      | c # r \<Rightarrow>
          (case find (\<lambda>w. w \<noteq> [] \<and> starts_with s w) space_runes of
             Some w \<Rightarrow> (if piece = [] then [] else [rev piece]) @ split_fields (drop (length w) s) []
           | None \<Rightarrow> split_fields r (c # piece)))"
  by pat_completeness auto

termination
proof (relation "measure (length \<circ> fst)")
  fix s piece r w :: string and c :: char
  assume "s = c # r" "find (\<lambda>w. w \<noteq> [] \<and> starts_with s w) space_runes = Some w"
  then show "((drop (length w) s, []), (s, piece)) \<in> measure (length \<circ> fst)" by (auto dest!: find_SomeD)
qed simp_all

declare split_fields.simps [simp del]

definition Fields :: "string \<Rightarrow> string list" where
  "Fields s = split_fields s []"

fun join_words :: "string list \<Rightarrow> string" where
  "join_words [] = []"
| "join_words [w] = w"
| "join_words (w # ws) = w @ '' '' @ join_words ws"

text \<open>\<open>Duration.Round(time.Second)\<close>: halves go away from zero, an overflow saturates.\<close>

definition round_seconds :: "duration \<Rightarrow> duration" where
  "round_seconds d =
     (let r = \<bar>d\<bar> mod second; up = \<bar>d\<bar> - r + (if 2 * r < second then 0 else second); x = (if d < 0 then - up else up)
      in if x > max_int64 then max_int64 else if x < min_int64 then min_int64 else x)"

text \<open>\<open>Duration.String\<close> of a duration that is zero or a second at least.\<close>

definition duration_text :: "duration \<Rightarrow> string" where
  "duration_text d =
     (let u = \<bar>d\<bar> div second; s = dec (nat (u mod 60)) @ frac_text (\<bar>d\<bar> mod second) @ ''s'' in
      (if d < 0 then ''-'' else [])
      @ (if u div 60 = 0 then s
         else if u div 3600 = 0 then dec (nat (u div 60)) @ ''m'' @ s
         else dec (nat (u div 3600)) @ ''h'' @ dec (nat (u div 60 mod 60)) @ ''m'' @ s))"

section \<open>The agent and its state\<close>

record health_state =
  he_status :: string
  he_started :: time
  he_messages :: nat

record 'w agent =
  ae_complete :: "model_message list \<Rightarrow> budget \<Rightarrow> 'w \<Rightarrow> (string, string) result \<times> budget \<times> 'w"
  ae_fts :: "string \<Rightarrow> (int \<times> string) list \<Rightarrow> (string, int list) result"
  ae_float :: "rat \<Rightarrow> string"
  ae_health :: "'w \<Rightarrow> health_state"
  ae_clock :: "nat \<Rightarrow> time"
  ae_version :: string
  ae_limits :: budget_limits
  ae_price_in :: float64
  ae_price_out :: float64

record 'w agent_state =
  as_sessions :: "string option"
  as_memory :: "memory_db option"
  as_approvals :: "appr_db option"
  as_cancel :: bool
  as_reads :: nat
  as_world :: 'w
  as_completions :: "(model_message list \<times> budget) list"

datatype agent_error = MemoryError memory_error | BadNumber | LineTooLong | BudgetError budget_error | ModelError string

definition agent_now :: "'w agent \<Rightarrow> 'w agent_state \<Rightarrow> time \<times> 'w agent_state" where
  "agent_now a s = (ae_clock a (as_reads s), s\<lparr>as_reads := Suc (as_reads s)\<rparr>)"

definition estimatedTokens :: "int \<Rightarrow> int" where
  "estimatedTokens n = (if n \<le> 0 then 0 else (n + 3) div 4)"

definition appr_error_text :: "appr_error \<Rightarrow> string" where
  "appr_error_text e =
     (case e of
        NotFound \<Rightarrow> ''approval not found'' | BindingMismatch \<Rightarrow> ''approval binding mismatch'' | ExpiredApproval \<Rightarrow> ''approval expired''
      | NotAuthorized \<Rightarrow> ''approval not authorized'' | AlreadyUsed \<Rightarrow> ''approval already used'' | InvalidDecision \<Rightarrow> ''invalid decision''
      | AlreadyResolved \<Rightarrow> ''approval already resolved'' | Replay \<Rightarrow> ''approval replay'' | ConstraintFailed \<Rightarrow> [])"

definition reply_to :: "inbound \<Rightarrow> string \<Rightarrow> outbound" where
  "reply_to m t = \<lparr>out_chat = in_chat m, out_text = t, out_reply_to = in_message m\<rparr>"

section \<open>Commands\<close>

definition decide_command :: "'w agent \<Rightarrow> inbound \<Rightarrow> string list \<Rightarrow> 'w agent_state \<Rightarrow> outbound \<times> 'w agent_state" where
  "decide_command a m fs s =
     (case as_approvals s of
        None \<Rightarrow> (reply_to m ''Approval command requires one token.'', s)
      | Some db \<Rightarrow>
          if length fs \<noteq> 2 then (reply_to m ''Approval command requires one token.'', s)
          else (let d = (if hd fs = ''/deny'' then ''denied'' else ''approved'') in
                case agent_now a s of (n1, s1) \<Rightarrow> case agent_now a s1 of (n2, s2) \<Rightarrow> case agent_now a s2 of (n3, s3) \<Rightarrow>
                case ResolveToken (fs ! 1) (in_user m) d n1 n2 n3 db of
                  (Inl e, db') \<Rightarrow> (reply_to m (''Approval rejected: '' @ appr_error_text e), s3\<lparr>as_approvals := Some db'\<rparr>)
                | (Inr _, db') \<Rightarrow> (reply_to m (''Approval '' @ d @ ''.''), s3\<lparr>as_approvals := Some db'\<rparr>)))"

definition memory_lines :: "memory_item list \<Rightarrow> string" where
  "memory_lines xs = concat (map (\<lambda>x. ''#'' @ format_int (mi_id x) @ '' '' @ mi_content x @ newline) xs)"

definition recall_command :: "'w agent \<Rightarrow> inbound \<Rightarrow> string list \<Rightarrow> 'w agent_state \<Rightarrow> (outbound \<times> agent_error option) \<times> 'w agent_state" where
  "recall_command a m fs s =
     (case as_memory s of
        None \<Rightarrow> ((reply_to m ''Usage: /memory <query>'', None), s)
      | Some db \<Rightarrow>
          if length fs < 2 then ((reply_to m ''Usage: /memory <query>'', None), s)
          else (case agent_now a s of (now, s1) \<Rightarrow>
                case Search_memory (ae_fts a) (join_words (tl fs)) 10 now db of
                  Inl e \<Rightarrow> ((reply_to m [], Some (MemoryError e)), s1)
                | Inr xs \<Rightarrow> ((reply_to m (if xs = [] then ''No memory found.'' else trim_space (memory_lines xs)), None), s1)))"

definition remember_command :: "'w agent \<Rightarrow> inbound \<Rightarrow> string list \<Rightarrow> 'w agent_state \<Rightarrow> (outbound \<times> agent_error option) \<times> 'w agent_state" where
  "remember_command a m fs s =
     (case as_memory s of
        None \<Rightarrow> ((reply_to m ''Usage: /remember <text>'', None), s)
      | Some db \<Rightarrow>
          if length fs < 2 then ((reply_to m ''Usage: /remember <text>'', None), s)
          else (case agent_now a s of (n1, s1) \<Rightarrow> case agent_now a s1 of (n2, s2) \<Rightarrow>
                case Remember (join_words (tl fs)) n1 n2 db of
                  (Inl e, db') \<Rightarrow> ((reply_to m [], Some (MemoryError e)), s2\<lparr>as_memory := Some db'\<rparr>)
                | (Inr i, db') \<Rightarrow> ((reply_to m (''Remembered #'' @ format_int i @ ''.''), None), s2\<lparr>as_memory := Some db'\<rparr>)))"

definition forget_command :: "inbound \<Rightarrow> string list \<Rightarrow> 'w agent_state \<Rightarrow> (outbound \<times> agent_error option) \<times> 'w agent_state" where
  "forget_command m fs s =
     (case as_memory s of
        None \<Rightarrow> ((reply_to m ''Usage: /forget <id>'', None), s)
      | Some db \<Rightarrow>
          if length fs \<noteq> 2 then ((reply_to m ''Usage: /forget <id>'', None), s)
          else (case Atoi (fs ! 1) of (i, ok) \<Rightarrow>
                if \<not> ok then ((reply_to m [], Some BadNumber), s)
                else ((reply_to m ''Memory forgotten.'', None), s\<lparr>as_memory := Some (Forget i db)\<rparr>)))"

definition export_command :: "'w agent \<Rightarrow> inbound \<Rightarrow> 'w agent_state \<Rightarrow> outbound \<times> agent_error option" where
  "export_command a m s =
     (case as_memory s of
        None \<Rightarrow> (reply_to m [], None)
      | Some db \<Rightarrow>
          (case Export_memory (ae_float a) db of
             Inl e \<Rightarrow> (reply_to m [], Some (MemoryError e))
           | Inr t \<Rightarrow> (reply_to m t, None)))"

definition status_command :: "'w agent \<Rightarrow> inbound \<Rightarrow> 'w agent_state \<Rightarrow> outbound \<times> 'w agent_state" where
  "status_command a m s =
     (let h = ae_health a (as_world s) in
      case agent_now a s of (now, s1) \<Rightarrow>
        (reply_to m (''Mosaid '' @ ae_version a @ '' status='' @ he_status h @ '' uptime=''
           @ duration_text (round_seconds (saturated_sub now (he_started h))) @ '' messages='' @ dec (he_messages h)), s1))"

section \<open>Conversation\<close>

definition characters :: "model_message list \<Rightarrow> int" where
  "characters h = sum_list (map (\<lambda>(role, content). int (length content)) h)"

definition charge_text :: "int \<Rightarrow> float64 \<Rightarrow> budget \<Rightarrow> (budget_error, unit) result \<times> budget" where
  "charge_text tokens price b =
     (case UseTokens tokens b of
        (Inl e, b1) \<Rightarrow> (Inl e, b1)
      | (Inr _, b1) \<Rightarrow> UseCost (TokenCostUSD tokens price) b1)"

definition open_budget :: "'w agent \<Rightarrow> model_message list \<Rightarrow> (budget_error, budget) result" where
  "open_budget a h =
     and_then (NewBudget (ae_limits a)) (\<lambda>b.
       case UseModelStep b of
         (Inl e, _) \<Rightarrow> Inl e
       | (Inr _, b1) \<Rightarrow>
           (case charge_text (estimatedTokens (characters h)) (ae_price_in a) b1 of
              (Inl e, _) \<Rightarrow> Inl e
            | (Inr _, b2) \<Rightarrow> Inr b2))"

definition append_message :: "'w agent \<Rightarrow> inbound \<Rightarrow> string \<Rightarrow> string \<Rightarrow> 'w agent_state \<Rightarrow> 'w agent_state" where
  "append_message a m role t s =
     (case agent_now a s of (now, s1) \<Rightarrow> s1\<lparr>as_sessions := snd (Append_session (in_chat m) role t now (as_sessions s1))\<rparr>)"

definition converse :: "'w agent \<Rightarrow> inbound \<Rightarrow> string \<Rightarrow> 'w agent_state \<Rightarrow> (outbound \<times> agent_error option) \<times> 'w agent_state" where
  "converse a m text s =
     (let out = reply_to m []; s1 = append_message a m ''user'' text s in
      case Recent (in_chat m) 20 (as_sessions s1) of (h, over) \<Rightarrow>
        if over then ((out, Some LineTooLong), s1)
        else (case open_budget a h of
                Inl e \<Rightarrow> ((out, Some (BudgetError e)), s1)
              | Inr b \<Rightarrow>
                  (case ae_complete a h b (as_world s1) of
                     (r, b1, w) \<Rightarrow>
                       (let s2 = s1\<lparr>as_world := w, as_cancel := False, as_completions := as_completions s1 @ [(h, b)]\<rparr> in
                        case r of
                          Inl e \<Rightarrow> ((out, Some (ModelError e)), s2)
                        | Inr answer \<Rightarrow>
                            (case charge_text (estimatedTokens (int (length answer))) (ae_price_out a) b1 of
                               (Inl e, _) \<Rightarrow> ((out, Some (BudgetError e)), s2)
                             | (Inr _, _) \<Rightarrow> ((reply_to m answer, None), append_message a m ''assistant'' answer s2))))))"

definition Handle_agent :: "'w agent \<Rightarrow> inbound \<Rightarrow> 'w agent_state \<Rightarrow> (outbound \<times> agent_error option) \<times> 'w agent_state" where
  "Handle_agent a m s =
     (let text = trim_space (in_text m); fs = Fields text in
      case fs of
        [] \<Rightarrow> ((reply_to m [], None), s)
      | c # _ \<Rightarrow>
          if c = ''/help'' then
            ((reply_to m ''Mosaid commands: /status /help /stop /approve /deny /memory <query> /remember <text> /forget <id> /export'', None), s)
          else if c = ''/approve'' \<or> c = ''/deny'' then (case decide_command a m fs s of (out, s1) \<Rightarrow> ((out, None), s1))
          else if c = ''/memory'' then recall_command a m fs s
          else if c = ''/remember'' then remember_command a m fs s
          else if c = ''/forget'' then forget_command m fs s
          else if c = ''/export'' then (export_command a m s, s)
          else if c = ''/status'' then (case status_command a m s of (out, s1) \<Rightarrow> ((out, None), s1))
          else if c = ''/stop'' then ((reply_to m ''Active request stopped.'', None), s\<lparr>as_cancel := False\<rparr>)
          else converse a m text s)"

lemma Fields_examples: "Fields ''  /approve   tok '' = [''/approve'', ''tok'']" "Fields [] = []" "Fields '' '' = []"
  "duration_text 0 = ''0s''" "duration_text (61 * second) = ''1m1s''" "duration_text (2 * hour + 3 * second) = ''2h0m3s''"
  "round_seconds (second + 500000000) = 2 * second"
  by code_simp+

end
