(* ===== verification/AgentProofs.thy ===== *)
theory AgentProofs
  imports Agent
begin

text \<open>
  What the agent guarantees on its own (the budget of every call of the model, the conversation the model
  sees) and as the handler of the gateway: that nobody but the owner decides a request for approval.
\<close>

section \<open>One message\<close>

text \<open>What a message may do to the approvals: nothing, or the verdict of a command.\<close>

definition verdict_of :: "inbound \<Rightarrow> appr_op \<Rightarrow> bool" where
  "verdict_of m e \<longleftrightarrow> (\<exists>tok n1 n2 n3. e = OpResolveToken tok (in_user m) ''approved'' n1 n2 n3 \<and> Fields (trim_space (in_text m)) = [''/approve'', tok]
     \<or> e = OpResolveToken tok (in_user m) ''denied'' n1 n2 n3 \<and> Fields (trim_space (in_text m)) = [''/deny'', tok])"

lemma agent_now_frame [simp]:
  "as_approvals (snd (agent_now a s)) = as_approvals s" "as_memory (snd (agent_now a s)) = as_memory s"
  "as_completions (snd (agent_now a s)) = as_completions s" "as_sessions (snd (agent_now a s)) = as_sessions s"
  "as_world (snd (agent_now a s)) = as_world s"
  by (simp_all add: agent_now_def)

lemma append_message_frame [simp]:
  "as_approvals (append_message a m role t s) = as_approvals s" "as_completions (append_message a m role t s) = as_completions s"
  "as_memory (append_message a m role t s) = as_memory s"
  by (simp_all add: append_message_def agent_now_def)

lemma converse_frame [simp]: "as_approvals (snd (converse a m text s)) = as_approvals s"
  by (simp add: converse_def Let_def split: prod.split sum.split)

lemma command_frame [simp]:
  "as_approvals (snd (recall_command a m fs s)) = as_approvals s" "as_approvals (snd (remember_command a m fs s)) = as_approvals s"
  "as_approvals (snd (forget_command m fs s)) = as_approvals s" "as_approvals (snd (status_command a m s)) = as_approvals s"
  by (simp_all add: recall_command_def remember_command_def forget_command_def status_command_def agent_now_def Let_def
      split: option.split prod.split sum.split)

lemma pair_of_two: "length fs = 2 \<Longrightarrow> fs = [hd fs, fs ! 1]"
  by (cases fs; cases "tl fs") auto

lemma decide_command_effect:
  assumes "Fields (trim_space (in_text m)) = fs" and "hd fs = ''/approve'' \<or> hd fs = ''/deny''"
  shows "as_approvals (snd (decide_command a m fs s)) = as_approvals s
    \<or> (\<exists>db e. as_approvals s = Some db \<and> verdict_of m e \<and> as_approvals (snd (decide_command a m fs s)) = Some (appr_step e db))"
proof (cases "\<exists>db. as_approvals s = Some db \<and> length fs = 2")
  case True
  then obtain db where db: "as_approvals s = Some db" "length fs = 2" by blast
  let ?d = "if hd fs = ''/deny'' then ''denied'' else ''approved''"
  let ?n = "\<lambda>k. ae_clock a (as_reads s + k)"
  let ?e = "OpResolveToken (fs ! 1) (in_user m) ?d (?n 0) (?n 1) (?n 2)"
  have "verdict_of m ?e" using assms pair_of_two [OF db(2)] unfolding verdict_of_def by (cases "hd fs = ''/deny''") auto
  moreover have "as_approvals (snd (decide_command a m fs s)) = Some (appr_step ?e db)"
    using db by (simp add: decide_command_def agent_now_def Let_def split: prod.split sum.split)
  ultimately show ?thesis using db(1) by blast
next
  case False
  then show ?thesis by (auto simp: decide_command_def split: option.split)
qed

lemma Handle_approvals:
  "as_approvals (snd (Handle_agent a m s)) = as_approvals s
    \<or> (\<exists>db e. as_approvals s = Some db \<and> verdict_of m e \<and> as_approvals (snd (Handle_agent a m s)) = Some (appr_step e db))"
proof (cases "Fields (trim_space (in_text m))")
  case (Cons c r)
  show ?thesis
  proof (cases "c = ''/approve'' \<or> c = ''/deny''")
    case True
    then have "snd (Handle_agent a m s) = snd (decide_command a m (c # r) s)"
      using Cons by (auto simp: Handle_agent_def Let_def split: prod.split)
    with decide_command_effect [OF Cons, of a s] True show ?thesis by simp
  qed (use Cons in \<open>simp add: Handle_agent_def Let_def case_prod_unfold\<close>)
qed (simp add: Handle_agent_def)

section \<open>The budget of a call\<close>

definition call_ok :: "'w agent \<Rightarrow> model_message list \<times> budget \<Rightarrow> bool" where
  "call_ok a hb \<longleftrightarrow> (case hb of (h, b) \<Rightarrow> length h \<le> 20 \<and> bu_limits b = ae_limits a \<and> within_limits b
     \<and> bl_model_steps (bu_used b) = 1 \<and> bl_tokens (bu_used b) = wrap64 (estimatedTokens (characters h)))"

lemma open_budget_ok:
  assumes "open_budget a h = Inr b"
  shows "bu_limits b = ae_limits a \<and> within_limits b \<and> bl_model_steps (bu_used b) = 1 \<and> bl_tokens (bu_used b) = wrap64 (estimatedTokens (characters h))"
proof -
  obtain b0 b1 b2 where b: "NewBudget (ae_limits a) = Inr b0" "UseModelStep b0 = (Inr (), b1)"
    "UseTokens (estimatedTokens (characters h)) b1 = (Inr (), b2)"
    "UseCost (TokenCostUSD (estimatedTokens (characters h)) (ae_price_in a)) b2 = (Inr (), b)"
  proof -
    obtain b0 where b0: "NewBudget (ae_limits a) = Inr b0" using assms by (auto simp: open_budget_def and_then_ok)
    obtain r1 b1 where b1: "UseModelStep b0 = (r1, b1)" by (cases rule: prod.exhaust)
    obtain r2 b2 where b2: "UseTokens (estimatedTokens (characters h)) b1 = (r2, b2)" by (cases rule: prod.exhaust)
    obtain r3 b3 where b3: "UseCost (TokenCostUSD (estimatedTokens (characters h)) (ae_price_in a)) b2 = (r3, b3)" by (cases rule: prod.exhaust)
    have "r1 = Inr () \<and> r2 = Inr () \<and> r3 = Inr () \<and> b3 = b"
      using assms b0 b1 b2 b3 by (cases r1; cases r2; cases r3) (simp_all add: open_budget_def charge_text_def)
    with b0 b1 b2 b3 that show ?thesis by blast
  qed
  note within = NewBudget_within [OF b(1)]
  have w: "within_limits b1" using consume_within [OF within] b(2) by (metis UseModelStep_def snd_conv)
  then have w2: "within_limits b2" using consume_within [OF w] b(3) by (auto simp: UseTokens_def split: if_splits) (metis snd_conv)
  then have w3: "within_limits b" using consume_within [OF w2] b(4) by (auto simp: UseCost_def split: if_splits) (metis snd_conv)
  have one: "wrap64 1 = 1" "wrap64 0 = 0" by (simp_all add: wrap64_id min_int64_def max_int64_def)
  have b0: "b0 = \<lparr>bu_limits = ae_limits a, bu_used = no_use\<rparr>" using b(1) by (simp add: NewBudget_def split: if_splits)
  have b1: "bu_limits b1 = ae_limits a" "bl_model_steps (bu_used b1) = 1" "bl_tokens (bu_used b1) = 0"
    using b(2) one by (auto simp: UseModelStep_def consume_def Let_def b0 no_use_def split: if_splits)
  have b2: "bu_limits b2 = bu_limits b1" "bl_model_steps (bu_used b2) = 1" "bl_tokens (bu_used b2) = wrap64 (estimatedTokens (characters h))"
    using b(3) b1 one by (auto simp: UseTokens_def consume_def Let_def no_use_def split: if_splits)
  have "wrap64 (wrap64 x) = wrap64 x" for x by (rule wrap64_id) (use wrap64_range [of x] in simp_all)
  then have "bu_limits b = bu_limits b2" "bl_model_steps (bu_used b) = 1" "bl_tokens (bu_used b) = wrap64 (estimatedTokens (characters h))"
    using b(4) b2 one by (auto simp: UseCost_def consume_def Let_def no_use_def split: if_splits)
  with b1(1) b2(1) w3 show ?thesis by simp
qed

lemma Recent_length: "length (fst (Recent chat n f)) \<le> n"
proof (cases f)
  case (Some t)
  have "length (drop (length xs - n) xs) \<le> n" for xs :: "model_message list" by simp
  with Some show ?thesis by (simp add: Recent_def Let_def case_prod_unfold)
qed (simp add: Recent_def)

lemma converse_completions:
  "as_completions (snd (converse a m text s)) = as_completions s
    \<or> (\<exists>hb. call_ok a hb \<and> as_completions (snd (converse a m text s)) = as_completions s @ [hb])"
proof -
  let ?s1 = "append_message a m ''user'' text s"
  obtain h over where h: "Recent (in_chat m) 20 (as_sessions ?s1) = (h, over)" by (cases rule: prod.exhaust)
  have len: "length h \<le> 20" using Recent_length [of "in_chat m" 20 "as_sessions ?s1"] h by simp
  show ?thesis
  proof (cases "over \<or> (\<exists>e. open_budget a h = Inl e)")
    case True
    then show ?thesis using h by (auto simp: converse_def Let_def)
  next
    case False
    then obtain b where b: "open_budget a h = Inr b" by (cases "open_budget a h") auto
    have "call_ok a (h, b)" using open_budget_ok [OF b] len by (simp add: call_ok_def)
    moreover have "as_completions (snd (converse a m text s)) = as_completions s @ [(h, b)]"
      using False h b by (simp add: converse_def Let_def split: prod.split sum.split)
    ultimately show ?thesis by blast
  qed
qed

lemma command_completions [simp]:
  "as_completions (snd (recall_command a m fs s)) = as_completions s" "as_completions (snd (remember_command a m fs s)) = as_completions s"
  "as_completions (snd (forget_command m fs s)) = as_completions s" "as_completions (snd (status_command a m s)) = as_completions s"
  "as_completions (snd (decide_command a m fs s)) = as_completions s"
  by (simp_all add: recall_command_def remember_command_def forget_command_def status_command_def decide_command_def agent_now_def Let_def
      split: option.split prod.split sum.split)

lemma Handle_completions:
  "as_completions (snd (Handle_agent a m s)) = as_completions s
    \<or> (\<exists>hb. call_ok a hb \<and> as_completions (snd (Handle_agent a m s)) = as_completions s @ [hb])"
  using converse_completions [of a m "trim_space (in_text m)" s]
  by (auto simp: Handle_agent_def Let_def case_prod_unfold split: list.split)

definition agent_run :: "'w agent \<Rightarrow> inbound list \<Rightarrow> 'w agent_state \<Rightarrow> 'w agent_state" where
  "agent_run a ms s = fold (\<lambda>m s. snd (Handle_agent a m s)) ms s"

text \<open>
  C26: Every call of the model, over any sequence of messages, had a budget with the configured limits in which
  one step and the estimated tokens of its history are already counted and no limit is exceeded; the
  history has at most 20 messages; and a message causes at most one call.
\<close>

theorem model_calls_within_budget:
  assumes "as_completions s = []" and "(h, b) \<in> set (as_completions (agent_run a ms s))"
  shows "length h \<le> 20 \<and> bu_limits b = ae_limits a \<and> within_limits b \<and> bl_model_steps (bu_used b) = 1
    \<and> bl_tokens (bu_used b) = wrap64 (estimatedTokens (characters h)) \<and> length (as_completions (agent_run a ms s)) \<le> length ms"
proof -
  have "(\<forall>hb \<in> set (as_completions (agent_run a ms s)). call_ok a hb) \<and> length (as_completions (agent_run a ms s)) \<le> length ms"
  proof (induction ms rule: rev_induct)
    case Nil
    show ?case using assms(1) by (simp add: agent_run_def)
  next
    case (snoc m ms)
    with Handle_completions [of a m "agent_run a ms s"] show ?case by (fastforce simp: agent_run_def)
  qed
  with assms(2) show ?thesis by (auto simp: call_ok_def)
qed

section \<open>The conversation the model sees\<close>

definition short :: "int \<times> string \<times> string \<times> time \<Rightarrow> bool" where
  "short e \<longleftrightarrow> writable e \<and> length (line_of e) < 1048576"

definition said_in :: "int \<Rightarrow> (int \<times> string \<times> string \<times> time) list \<Rightarrow> model_message list" where
  "said_in chat es = [(role, content). (c, role, content, now) \<leftarrow> es, c = chat]"

lemma write_all_snoc:
  "writable (chat, role, content, now) \<Longrightarrow> snd (Append_session chat role content now (write_all es)) = write_all (es @ [(chat, role, content, now)])"
  by (simp add: write_all_def)


section \<open>An agent that says hello\<close>

definition demo_limits :: budget_limits where
  "demo_limits = \<lparr>bl_model_steps = 4, bl_tool_calls = 4, bl_tokens = 1000, bl_cost = Finite 1, bl_retries = 1\<rparr>"

definition demo_agent :: "nat agent" where
  "demo_agent = \<lparr>ae_complete = \<lambda>h b n. (Inr ''hello'', b, Suc n), ae_fts = demo_fts, ae_float = \<lambda>x. ''1'',
     ae_health = \<lambda>n. \<lparr>he_status = ''ok'', he_started = 0, he_messages = n\<rparr>, ae_clock = \<lambda>k. int k * second, ae_version = ''1'',
     ae_limits = demo_limits, ae_price_in = Finite 0, ae_price_out = Finite 0\<rparr>"

definition demo_greeting :: inbound where
  "demo_greeting = \<lparr>in_update = 4, in_message = 4, in_chat = 9, in_user = 7, in_chat_type = ''private'', in_text = ''hi'', in_received = 0\<rparr>"

definition demo_fresh :: "nat agent_state" where
  "demo_fresh = \<lparr>as_sessions = None, as_memory = None, as_approvals = None, as_cancel = False, as_reads = 0,
     as_world = 0, as_completions = []\<rparr>"

lemma demo_hi: "trim_space ''hi'' = ''hi''" "Fields ''hi'' = [''hi'']"
  by code_simp+

definition demo_question :: "int \<times> string \<times> string \<times> time" where
  "demo_question = (9, ''user'', ''hi'', 0)"

lemma demo_short: "short demo_question"
proof -
  have "utf8_valid ''user''" "utf8_valid ''hi''" "in_range 0" "min_int64 \<le> 9" "9 \<le> max_int64" by code_simp+
  moreover have "length (line_of (9, ''user'', ''hi'', 0)) = 70" by code_simp
  ultimately show ?thesis by (simp add: short_def demo_question_def writable_def)
qed

definition demo_budget :: budget where
  "demo_budget = \<lparr>bu_limits = demo_limits, bu_used = no_use\<lparr>bl_model_steps := 1, bl_tokens := 1\<rparr>\<rparr>"

lemma demo_budget: "open_budget demo_agent [(''user'', ''hi'')] = Inr demo_budget" "fst (charge_text 2 (Finite 0) demo_budget) = Inr ()"
  by code_simp+

lemma demo_answered:
  "\<exists>out b s'. Handle_agent demo_agent demo_greeting demo_fresh = ((out, None), s') \<and> as_completions s' = as_completions demo_fresh @ [([(''user'', ''hi'')], b)]"
proof -
  have "\<forall>e \<in> set [demo_question]. writable e \<and> length (line_of e) < 1048576" using demo_short by (simp add: short_def)
  from recent_of_written [OF this refl, of 9 20] have recent: "Recent 9 20 (write_all [demo_question]) = ([(''user'', ''hi'')], False)"
    by (simp add: demo_question_def)
  have sessions: "snd (Append_session 9 ''user'' ''hi'' 0 None) = write_all [demo_question]" by (simp add: write_all_def demo_question_def)
  obtain b where b: "charge_text 2 (Finite 0) demo_budget = (Inr (), b)" using demo_budget(2) by (cases "charge_text 2 (Finite 0) demo_budget") simp
  have tokens: "estimatedTokens 5 = 2" by code_simp
  show ?thesis
    using recent sessions demo_budget(1) b tokens
    by (simp add: Handle_agent_def demo_greeting_def demo_hi converse_def append_message_def agent_now_def demo_agent_def demo_fresh_def Let_def)
qed

lemma model_calls_within_budget_witness:
  "\<exists>h b. (h, b) \<in> set (as_completions (agent_run demo_agent [demo_greeting] demo_fresh)) \<and> within_limits b \<and> bl_model_steps (bu_used b) = 1"
proof -
  have "\<exists>b. as_completions (agent_run demo_agent [demo_greeting] demo_fresh) = [([(''user'', ''hi'')], b)]"
    using demo_answered by (auto simp: agent_run_def demo_fresh_def)
  then obtain b where b: "([(''user'', ''hi'')], b) \<in> set (as_completions (agent_run demo_agent [demo_greeting] demo_fresh))" by force
  have "as_completions demo_fresh = []" by (simp add: demo_fresh_def)
  from model_calls_within_budget [OF this b] b show ?thesis by auto
qed


end
