(* ===== verification/GatewayAgent.thy ===== *)
theory GatewayAgent
  imports AgentProofs
begin

text \<open>
  The gateway with the agent as its handler, as \<open>cmd/mosaid/main.go\<close> wires them: what holds of the world of the
  gateway for the messages it has handled, and with it that only the owner, by a command, decides a
  request for approval.
\<close>

section \<open>Invariants of the world of a gateway\<close>

text \<open>A relation of the world and the messages handled that every interface of the gateway keeps.\<close>

locale gateway_world =
  fixes g :: "'w gateway"
    and rel :: "'w \<Rightarrow> inbound list \<Rightarrow> bool"
  assumes updates_rel: "rel w h \<Longrightarrow> rel (snd (w_updates g offset wait w)) h"
    and allow_rel: "rel w h \<Longrightarrow> rel (snd (w_allow g user t w)) h"
    and send_rel: "rel w h \<Longrightarrow> rel (snd (w_send g out w)) h"
    and handle_rel: "rel w h \<Longrightarrow> rel (snd (w_handle g m w)) (h @ [m])"
begin

definition keeps :: "'w gstate \<Rightarrow> bool" where
  "keeps s \<longleftrightarrow> rel (z_world s) (z_handled s)"

lemma keeps_send: "keeps s \<Longrightarrow> keeps (snd (send_message g row out s))"
  using send_rel by (simp add: keeps_def send_message_def case_prod_unfold Let_def)

lemma keeps_handle: "keeps s \<Longrightarrow> keeps (snd (handle_message g m s))"
  using handle_rel by (simp add: keeps_def handle_message_def case_prod_unfold Let_def)

lemma keeps_clock: "keeps s \<Longrightarrow> keeps (snd (read_clock g s))"
  by (simp add: keeps_def read_clock_def)

lemma keeps_admit: "keeps s \<Longrightarrow> keeps (admit g m s)"
proof -
  assume s: "keeps s"
  obtain r s1 where h: "handle_message g m s = (r, s1)" by (cases rule: prod.exhaust)
  have s1: "keeps s1" using keeps_handle [OF s, of m] h by simp
  show ?thesis
  proof (cases "w_has_store g")
    case True
    with s show ?thesis by (simp add: admit_def keeps_def read_clock_def)
  next
    case False
    with h s1 keeps_send [OF s1] show ?thesis by (cases r) (simp_all add: admit_def)
  qed
qed

lemma keeps_process: "keeps s \<Longrightarrow> keeps (process_update g m s)"
proof -
  assume "keeps s"
  then have s1: "keeps (note_update m s)" by (simp add: keeps_def note_update_def)
  then have "keeps ((note_update m s)\<lparr>z_world := snd (w_allow g (in_user m) (in_text m) (z_world (note_update m s)))\<rparr>)"
    using allow_rel by (simp add: keeps_def)
  with s1 show ?thesis
    by (auto simp: process_update_def Let_def case_prod_unfold intro: keeps_send keeps_admit split: bool.split)
qed

lemma keeps_updates: "keeps s \<Longrightarrow> keeps (fold (process_update g) ms s)"
  by (induction ms arbitrary: s) (simp_all add: keeps_process)

lemma keeps_work: "keeps s \<Longrightarrow> keeps (work_message g k s)"
proof -
  assume s: "keeps s"
  obtain r s1 where h: "handle_message g (k_message k) s = (r, s1)" by (cases rule: prod.exhaust)
  have "keeps s1" using keeps_handle [OF s, of "k_message k"] h by simp
  with h show ?thesis by (cases r) (simp_all add: work_message_def complete_message_def fail_message_def read_clock_def keeps_def split: option.split)
qed

lemma keeps_claim: "keeps s \<Longrightarrow> keeps (snd (claim_message g s)) \<and> keeps (snd (claim_reply g s))"
  by (simp add: claim_message_def claim_reply_def read_clock_def keeps_def case_prod_unfold)

lemma keeps_inbox: "keeps s \<Longrightarrow> drainInbox g n s = Some s' \<Longrightarrow> keeps s'"
proof (induction n arbitrary: s)
  case (Suc n)
  obtain k s1 where k: "claim_message g s = (k, s1)" by (cases rule: prod.exhaust)
  have "keeps s1" using keeps_claim [OF Suc.prems(1)] k by (metis snd_conv)
  with Suc k keeps_work show ?case by (cases k) auto
qed simp

lemma keeps_outbox: "keeps s \<Longrightarrow> drainOutbox g n s = Some s' \<Longrightarrow> keeps s'"
proof (induction n arbitrary: s)
  case (Suc n)
  obtain y s1 where y: "claim_reply g s = (y, s1)" by (cases rule: prod.exhaust)
  have s1: "keeps s1" using keeps_claim [OF Suc.prems(1)] y by (metis snd_conv)
  show ?case
  proof (cases y)
    case None
    with Suc.prems(2) y s1 show ?thesis by simp
  next
    case (Some z)
    obtain e s2 where e: "send_message g (Some (y_id z)) (y_message z) s1 = (e, s2)" by (cases rule: prod.exhaust)
    have s2: "keeps s2" using keeps_send [OF s1, of "Some (y_id z)" "y_message z"] e by simp
    then have "keeps (reply_sent g z s2)" "keeps (reply_failed g z x s2)" for x
      by (simp_all add: reply_sent_def reply_failed_def read_clock_def keeps_def)
    with Suc y Some e show ?thesis by (cases e) auto
  qed
qed simp

lemma keeps_poll: "keeps s \<Longrightarrow> poll_once g n s = Some r \<Longrightarrow> keeps (poll_state r)"
proof -
  assume s: "keeps s" and r: "poll_once g n s = Some r"
  obtain u w where u: "w_updates g (z_offset s) (w_poll_timeout g) (z_world s) = (u, w)" by (cases rule: prod.exhaust)
  have w: "rel w (z_handled s)" using updates_rel [of "z_world s" "z_handled s" "z_offset s" "w_poll_timeout g"] s u by (simp add: keeps_def)
  show ?thesis
  proof (cases u)
    case (Updates ms)
    have s1: "keeps (fold (process_update g) ms (s\<lparr>z_world := w, z_failures := 0\<rparr>))"
      by (rule keeps_updates) (use w in \<open>simp add: keeps_def\<close>)
    show ?thesis
    proof (cases "w_has_store g")
      case True
      then obtain s2 s3 where "drainInbox g n (fold (process_update g) ms (s\<lparr>z_world := w, z_failures := 0\<rparr>)) = Some s2"
        "drainOutbox g n s2 = Some s3" "r = Inr s3"
        using r u Updates by (auto simp: poll_once_def Let_def split: option.splits)
      with keeps_outbox [OF keeps_inbox [OF s1]] show ?thesis by (simp add: poll_state_def)
    next
      case False
      with r u Updates s1 show ?thesis by (auto simp: poll_once_def Let_def poll_state_def)
    qed
  qed (use r u w in \<open>auto simp: poll_once_def poll_state_def keeps_def\<close>)
qed

lemma keeps_loop: "keeps s \<Longrightarrow> gateway_loop g n p s = Some s' \<Longrightarrow> keeps s'"
proof (induction p arbitrary: s)
  case (Suc p)
  obtain r where r: "poll_once g n s = Some r" using Suc.prems(2) by (auto split: option.splits)
  with Suc keeps_poll [OF Suc.prems(1) r] show ?case by (cases r) (auto simp: poll_state_def)
qed simp

lemma keeps_run: "rel (z_world s) (z_handled s) \<Longrightarrow> Run_gateway g n p s = Inr (Some s') \<Longrightarrow> rel (z_world s') (z_handled s')"
  using keeps_loop [of "s\<lparr>z_offset := 0, z_failures := 0\<rparr>" n p s'] by (auto simp: Run_gateway_def keeps_def split: if_splits)

end

section \<open>The agent as the handler\<close>

definition agent_handler :: "(agent_error \<Rightarrow> string) \<Rightarrow> 'w agent \<Rightarrow> inbound \<Rightarrow> 'w agent_state \<Rightarrow> handler_end \<times> 'w agent_state" where
  "agent_handler text_of a m s =
     (case Handle_agent a m s of
        ((out, None), s1) \<Rightarrow> (Reply out, s1)
      | ((out, Some e), s1) \<Rightarrow> (if e = BudgetError BudgetExceeded then OverBudget else HandlerError (text_of e), s1))"

lemma agent_handler_state [simp]: "snd (agent_handler text_of a m s) = snd (Handle_agent a m s)"
  by (simp add: agent_handler_def split: prod.split option.split)

text \<open>What the rest of the program may do to the approvals meanwhile: request and redeem.\<close>

fun deciding :: "appr_op \<Rightarrow> bool" where
  "deciding (OpRequest b u t a r ttl n1 n2 n3) = False"
| "deciding (OpRedeem tok u t a r n1 n2) = False"
| "deciding (OpResolve tok u t a r d n1 n2 n3) = True"
| "deciding (OpResolveToken tok u d n1 n2 n3) = True"

record 'w services =
  ws_updates :: "int \<Rightarrow> int \<Rightarrow> 'w \<Rightarrow> poll \<times> 'w"
  ws_allow :: "int \<Rightarrow> string \<Rightarrow> 'w \<Rightarrow> bool \<times> 'w"
  ws_send :: "outbound \<Rightarrow> 'w \<Rightarrow> string option \<times> 'w"
  ws_meanwhile :: "'w \<Rightarrow> appr_op list"
  ws_clock :: "nat \<Rightarrow> time"
  ws_fault :: "nat \<Rightarrow> string option"
  ws_owner :: int
  ws_poll_timeout :: int
  ws_max_attempts :: int

definition meanwhile :: "'w services \<Rightarrow> 'w \<Rightarrow> 'w agent_state \<Rightarrow> 'w agent_state" where
  "meanwhile v w s =
     s\<lparr>as_world := w, as_approvals := map_option (fold appr_step (filter (\<lambda>e. \<not> deciding e) (ws_meanwhile v w))) (as_approvals s)\<rparr>"

definition wired_gateway :: "'w services \<Rightarrow> (agent_error \<Rightarrow> string) \<Rightarrow> 'w agent \<Rightarrow> 'w agent_state gateway" where
  "wired_gateway v text_of a =
     \<lparr>w_updates = \<lambda>offset wait s. (case ws_updates v offset wait (as_world s) of (p, w) \<Rightarrow> (p, meanwhile v w s)),
      w_handle = agent_handler text_of a,
      w_allow = \<lambda>user t s. (case ws_allow v user t (as_world s) of (ok, w) \<Rightarrow> (ok, meanwhile v w s)),
      w_send = \<lambda>out s. (case ws_send v out (as_world s) of (e, w) \<Rightarrow> (e, meanwhile v w s)),
      w_clock = ws_clock v, w_fault = ws_fault v, w_ready = True, w_owner = ws_owner v, w_poll_timeout = ws_poll_timeout v,
      w_max_attempts = ws_max_attempts v, w_has_store = True\<rparr>"

text \<open>The approvals are those of the start, operations that approve nothing, and verdicts of messages handled.\<close>

definition decided_by :: "appr_op list \<Rightarrow> 'w agent_state \<Rightarrow> inbound list \<Rightarrow> bool" where
  "decided_by es0 s h \<longleftrightarrow> (\<exists>es. as_approvals s = Some (appr_run (es0 @ es)) \<and> (\<forall>e \<in> set es. (\<forall>r. \<not> approves e r) \<or> (\<exists>m \<in> set h. verdict_of m e)))"

lemma decided_by_meanwhile: "decided_by es0 s h \<Longrightarrow> decided_by es0 (meanwhile v w s) h"
proof -
  assume "decided_by es0 s h"
  then obtain es where es: "as_approvals s = Some (appr_run (es0 @ es))" "\<forall>e \<in> set es. (\<forall>r. \<not> approves e r) \<or> (\<exists>m \<in> set h. verdict_of m e)"
    by (auto simp: decided_by_def)
  let ?ops = "filter (\<lambda>e. \<not> deciding e) (ws_meanwhile v w)"
  have "\<not> deciding e \<Longrightarrow> \<not> approves e r" for e r by (cases e) simp_all
  moreover have "as_approvals (meanwhile v w s) = Some (appr_run (es0 @ es @ ?ops))" using es(1) by (simp add: meanwhile_def appr_run_def)
  ultimately show ?thesis using es(2) unfolding decided_by_def by (intro exI [of _ "es @ ?ops"]) auto
qed

lemma decided_by_handled: "decided_by es0 s h \<Longrightarrow> decided_by es0 (snd (Handle_agent a m s)) (h @ [m])"
proof -
  assume "decided_by es0 s h"
  then obtain es where es: "as_approvals s = Some (appr_run (es0 @ es))" "\<forall>e \<in> set es. (\<forall>r. \<not> approves e r) \<or> (\<exists>m \<in> set h. verdict_of m e)"
    by (auto simp: decided_by_def)
  from Handle_approvals [of a m s] show ?thesis
  proof
    assume "as_approvals (snd (Handle_agent a m s)) = as_approvals s"
    with es show ?thesis unfolding decided_by_def by (intro exI [of _ es]) auto
  next
    assume "\<exists>db e. as_approvals s = Some db \<and> verdict_of m e \<and> as_approvals (snd (Handle_agent a m s)) = Some (appr_step e db)"
    then obtain e where "verdict_of m e" "as_approvals (snd (Handle_agent a m s)) = Some (appr_step e (appr_run (es0 @ es)))" using es(1) by auto
    with es(2) show ?thesis unfolding decided_by_def by (intro exI [of _ "es @ [e]"]) (auto simp: appr_run_def)
  qed
qed

interpretation wired: gateway_world "wired_gateway v text_of a" "decided_by es0"
  by unfold_locales (simp_all add: wired_gateway_def case_prod_unfold decided_by_meanwhile decided_by_handled)

text \<open>
  C9: With the agent as the handler of the gateway, while the rest of the program requests and redeems
  approvals but decides none, a request that is approved after any number of polls was approved before
  they began, or it is a request of the owner, who sent the command \<open>/approve\<close> with its very token in a
  private chat.
\<close>

theorem owner_alone_decides:
  assumes "gateway_start (wired_gateway v text_of a) s" and "Run_gateway (wired_gateway v text_of a) fuel polls s = Inr (Some s')"
    and "as_approvals (z_world s) = Some (appr_run es0)" and "as_approvals (z_world s') = Some db"
    and "r \<in> set (requests db)" and "a_state r = AApproved"
  shows "(\<exists>e \<in> set es0. approves e r) \<or>
    (\<exists>m \<in> set (z_handled s'). \<exists>tok. in_chat_type m = ''private'' \<and> in_user m = ws_owner v \<and> a_user r = ws_owner v
       \<and> Fields (trim_space (in_text m)) = [''/approve'', tok] \<and> token_hash tok = a_token_hash r)"
proof -
  have "z_handled s = []" using assms(1) by (simp add: gateway_start_def)
  then have "decided_by es0 (z_world s) (z_handled s)" using assms(3) unfolding decided_by_def by (intro exI [of _ "[]"]) simp
  from wired.keeps_run [OF this assms(2)] obtain es where es: "db = appr_run (es0 @ es)"
    "\<forall>e \<in> set es. (\<forall>r. \<not> approves e r) \<or> (\<exists>m \<in> set (z_handled s'). verdict_of m e)"
    using assms(4) by (auto simp: decided_by_def)
  obtain e where e: "e \<in> set (es0 @ es)" "approves e r" using approved_by_someone [of r "es0 @ es"] assms(5,6) es(1) by blast
  show ?thesis
  proof (cases "e \<in> set es0")
    case False
    with e es(2) obtain m where m: "m \<in> set (z_handled s')" "verdict_of m e" by auto
    obtain tok where tok: "Fields (trim_space (in_text m)) = [''/approve'', tok]" "token_hash tok = a_token_hash r" "in_user m = a_user r"
      using m(2) e(2) unfolding verdict_of_def by auto
    have "in_chat_type m = ''private''" "in_user m = ws_owner v"
      using Run_gateway_ok [OF assms(1,2)] m(1) by (auto simp: gate_ok_def frame_ok_def from_owner_def wired_gateway_def)
    with m(1) tok show ?thesis by auto
  qed (use e(2) in blast)
qed

section \<open>A request, a command, a verdict\<close>

definition demo_command :: inbound where
  "demo_command = \<lparr>in_update = 5, in_message = 5, in_chat = 9, in_user = 7, in_chat_type = ''private'',
     in_text = ''/approve YWJjZGVmZ2hpamtsbW5vcHFyc3R1dnd4'', in_received = 0\<rparr>"

definition demo_services :: "nat services" where
  "demo_services = \<lparr>ws_updates = \<lambda>i t n. (Updates [demo_command], Suc n), ws_allow = \<lambda>u t n. (True, n), ws_send = \<lambda>out n. (None, n),
     ws_meanwhile = \<lambda>n. [], ws_clock = \<lambda>k. 0, ws_fault = \<lambda>k. None, ws_owner = 7, ws_poll_timeout = 30, ws_max_attempts = 0\<rparr>"

definition demo_requested :: "appr_op list" where
  "demo_requested = [OpRequest demo_bytes 7 ''git.push'' ''args'' ''repo'' hour 0 0 0]"

definition demo_agent_state :: "nat agent_state" where
  "demo_agent_state = \<lparr>as_sessions = None, as_memory = None, as_approvals = Some (appr_run demo_requested), as_cancel = False, as_reads = 0,
     as_world = 0, as_completions = []\<rparr>"

definition demo_gate :: "nat agent_state gstate" where
  "demo_gate = \<lparr>z_store = empty_store, z_world = demo_agent_state, z_reads = 0, z_offset = 0, z_failures = 0, z_last_update = 0,
     z_messages = 0, z_handled = [], z_sent = [], z_backoffs = []\<rparr>"


lemma demo_words:
  "demo_token = ''YWJjZGVmZ2hpamtsbW5vcHFyc3R1dnd4''"
  "Fields (trim_space ''/approve YWJjZGVmZ2hpamtsbW5vcHFyc3R1dnd4'') = [''/approve'', ''YWJjZGVmZ2hpamtsbW5vcHFyc3R1dnd4'']"
  by code_simp+

lemmas demo_gate_defs = demo_services_def demo_agent_def demo_command_def demo_requested_def demo_agent_state_def demo_gate_def

lemma demo_decided:
  "Handle_agent demo_agent demo_command (demo_agent_state\<lparr>as_world := 1\<rparr>) =
     ((reply_to demo_command ''Approval approved.'', None),
      demo_agent_state\<lparr>as_world := 1, as_reads := 3,
        as_approvals := Some (appr_run (demo_requested @ [OpResolveToken demo_token 7 ''approved'' 0 second (2 * second)]))\<rparr>)"
  by (simp add: Handle_agent_def decide_command_def agent_now_def demo_gate_defs demo_words Let_def demo_token_def [symmetric] appr_run_def
      no_approvals_def Create_request_def Resolve_request_def ResolveToken_def
      by_token_def select_one_def expiry_of_def parse_stored_def in_range_def
      max_seconds_def units rows_affected_def update_where_def decision_state_def split: prod.split)

definition demo_text_of :: "agent_error \<Rightarrow> string" where
  "demo_text_of e = ''error''"

lemma demo_meanwhile: "meanwhile demo_services n s = s\<lparr>as_world := n\<rparr>"
  by (cases s) (simp add: meanwhile_def demo_services_def option.map_id)

definition demo_wired :: "nat agent_state gateway" where
  "demo_wired = wired_gateway demo_services demo_text_of demo_agent"

definition demo_end :: "nat agent_state" where
  "demo_end = snd (Handle_agent demo_agent demo_command (demo_agent_state\<lparr>as_world := 1\<rparr>))"

lemma demo_wired_simps:
  "w_updates demo_wired k t demo_agent_state = (Updates [demo_command], demo_agent_state\<lparr>as_world := 1\<rparr>)"
  "w_allow demo_wired u x s = (True, s)" "w_send demo_wired out s = (None, s)"
  "w_handle demo_wired demo_command (demo_agent_state\<lparr>as_world := 1\<rparr>) = (Reply (reply_to demo_command ''Approval approved.''), demo_end)"
  "w_clock demo_wired n = 0" "w_fault demo_wired n = None" "w_has_store demo_wired" "w_ready demo_wired" "w_owner demo_wired = 7"
  by (simp_all add: demo_wired_def wired_gateway_def demo_end_def agent_handler_def demo_decided demo_meanwhile del: One_nat_def)
    (simp_all add: demo_services_def demo_agent_state_def)

lemma demo_command_simps: "in_chat_type demo_command = ''private''" "in_user demo_command = 7" "in_update demo_command = 5"
  by (simp_all add: demo_command_def)

lemma demo_decision_run:
  "\<exists>s'. Run_gateway demo_wired 2 (Suc 0) demo_gate = Inr (Some s') \<and> z_handled s' = [demo_command] \<and> z_world s' = demo_end"
  by (simp add: Run_gateway_def numeral_2_eq_2 poll_once_def demo_wired_simps demo_command_simps demo_gate_def process_update_def
      note_update_def admit_def read_clock_def Ingest_def empty_store_def claim_message_def ClaimInbox_def inbox_ready_def work_message_def
      handle_message_def complete_message_def CompleteWithOutbox_def insert_or_ignore_def claim_reply_def ClaimOutbox_def send_message_def
      reply_sent_def OutboxSent_def outbox_ready_def rows_affected_def update_where_def reply_to_def Let_def del: One_nat_def)

lemma demo_start_wired: "gateway_start demo_wired demo_gate"
  by (simp add: gateway_start_def demo_gate_def store_inv_empty) (simp add: empty_store_def idle_def answered_def)

lemma demo_end_approvals:
  "as_approvals demo_end = Some (appr_run (demo_requested @ [OpResolveToken demo_token 7 ''approved'' 0 second (2 * second)]))"
  "\<exists>r. requests (appr_run (demo_requested @ [OpResolveToken demo_token 7 ''approved'' 0 second (2 * second)])) = [r]
     \<and> a_state r = AApproved"
  by (simp_all only: demo_end_def demo_decided)
    (simp_all add: demo_requested_def demo_token_def [symmetric] appr_run_def
      no_approvals_def Create_request_def Resolve_request_def ResolveToken_def
      by_token_def select_one_def expiry_of_def parse_stored_def in_range_def
      max_seconds_def units rows_affected_def update_where_def decision_state_def split: prod.split)

lemma owner_alone_decides_witness:
  "\<exists>(m :: inbound) tok. in_user m = 7 \<and> Fields (trim_space (in_text m)) = [''/approve'', tok]
     \<and> token_hash tok = (case requests (the (as_approvals demo_end)) of r # _ \<Rightarrow> a_token_hash r)"
proof -
  obtain s' where s': "Run_gateway (wired_gateway demo_services demo_text_of demo_agent) 2 (Suc 0) demo_gate = Inr (Some s')"
    "z_world s' = demo_end"
    using demo_decision_run by (auto simp: demo_wired_def)
  obtain db r where db: "as_approvals (z_world s') = Some db" "requests db = [r]" "a_state r = AApproved"
    using demo_end_approvals s'(2) by auto
  have es0: "as_approvals (z_world demo_gate) = Some (appr_run demo_requested)" by (simp add: demo_gate_def demo_agent_state_def)
  have none: "\<not> (\<exists>e \<in> set demo_requested. approves e r)" by (simp add: demo_requested_def)
  have r: "r \<in> set (requests db)" "(case requests (the (as_approvals demo_end)) of r # _ \<Rightarrow> a_token_hash r) = a_token_hash r"
    "ws_owner demo_services = 7"
    using db(1,2) s'(2) by (simp_all add: demo_services_def)
  show ?thesis
    using owner_alone_decides [OF demo_start_wired [unfolded demo_wired_def] s'(1) es0 db(1) r(1) db(3)] none unfolding r(2,3)
    apply (elim disjE bexE exE conjE)
     apply simp
    subgoal for m tok by (rule exI [of _ m], rule exI [of _ tok], (rule conjI, assumption)+, assumption)
    done
qed

end
