(* ===== verification/Config.thy ===== *)
theory Config
  imports GoDecode Files Fetch GatewayAgent
begin

text \<open>
  Package \<open>internal/config\<close>: the file of the configuration and its validation, and what \<open>cmd/mosaid/main.go\<close>
  builds from it: the limits of the agent, the message guard and the parameters of the gateway. \<open>url.Parse\<close> is
  an argument.
\<close>

section \<open>The configuration\<close>

record telegram_config =
  tc_token_file :: string
  tc_poll_timeout :: int

record model_config =
  mo_base_url :: string
  mo_key_file :: string
  mo_name :: string
  mo_timeout :: int
  mo_price_in :: float64
  mo_price_out :: float64

record limits_config =
  lc_message_bytes :: int
  lc_response_bytes :: int
  lc_model_steps :: int
  lc_tool_calls :: int
  lc_tokens :: int
  lc_cost :: float64
  lc_retries :: int
  lc_per_minute :: int
  lc_burst :: int

record config =
  cf_data_dir :: string
  cf_owner :: int
  cf_telegram :: telegram_config
  cf_model :: model_config
  cf_limits :: limits_config

definition no_config :: config where
  "no_config = \<lparr>cf_data_dir = [], cf_owner = 0, cf_telegram = \<lparr>tc_token_file = [], tc_poll_timeout = 0\<rparr>,
     cf_model = \<lparr>mo_base_url = [], mo_key_file = [], mo_name = [], mo_timeout = 0, mo_price_in = Finite 0, mo_price_out = Finite 0\<rparr>,
     cf_limits = \<lparr>lc_message_bytes = 0, lc_response_bytes = 0, lc_model_steps = 0, lc_tool_calls = 0, lc_tokens = 0, lc_cost = Finite 0,
       lc_retries = 0, lc_per_minute = 0, lc_burst = 0\<rparr>\<rparr>"

datatype config_error = NotReadable os_error | Undecodable | OwnerNotPositive | DataDirNotAbsolute | TokenFileNotAbsolute | KeyFileNotAbsolute
  | ModelName | ModelPrices | BaseURL | NetworkTimeouts | SizeLimits | BudgetLimits | CostLimits | FloodLimits

section \<open>Validation\<close>

definition price_denied :: "float64 \<Rightarrow> bool" where
  "price_denied p \<longleftrightarrow> float_less p (Finite 0) \<or> float_less (Finite 1000) p \<or> is_nan p \<or> is_inf p"

definition base_url_denied :: "url option \<Rightarrow> bool" where
  "base_url_denied parsed =
     (case parsed of None \<Rightarrow> True | Some u \<Rightarrow> u_scheme u \<noteq> ''https'' \<or> Hostname u = [] \<or> url.u_user u \<or> u_fragment u \<noteq> [])"

definition outside_range :: "int \<Rightarrow> int \<Rightarrow> int \<Rightarrow> bool" where
  "outside_range lo hi n \<longleftrightarrow> n < lo \<or> n > hi"

definition limits_checked :: "limits_config \<Rightarrow> (config_error, unit) result" where
  "limits_checked l =
     reject_if (outside_range 1 (1024 * 1024) (lc_message_bytes l) \<or> outside_range 1 (4 * 1024 * 1024) (lc_response_bytes l)) SizeLimits
    (reject_if (outside_range 1 32 (lc_model_steps l) \<or> outside_range 1 128 (lc_tool_calls l) \<or> outside_range 1 1000000 (lc_tokens l)) BudgetLimits
    (reject_if (float_le (lc_cost l) (Finite 0) \<or> float_less (Finite 100) (lc_cost l) \<or> outside_range 1 20 (lc_retries l)) CostLimits
    (reject_if (outside_range 1 600 (lc_per_minute l) \<or> outside_range 1 (lc_per_minute l) (lc_burst l)) FloodLimits
    (Inr ()))))"

definition Validate_config :: "(string \<Rightarrow> url option) \<Rightarrow> config \<Rightarrow> (config_error, config) result" where
  "Validate_config parse_url c =
     reject_if (cf_owner c \<le> 0) OwnerNotPositive
    (reject_if (cf_data_dir c = [] \<or> \<not> rooted (cf_data_dir c)) DataDirNotAbsolute
    (let m = cf_model c; t = cf_telegram c in
     reject_if (tc_token_file t = [] \<or> \<not> rooted (tc_token_file t)) TokenFileNotAbsolute
    (reject_if (mo_key_file m = [] \<or> \<not> rooted (mo_key_file m)) KeyFileNotAbsolute
    (reject_if (mo_name m = [] \<or> length (mo_name m) > 128) ModelName
    (reject_if (price_denied (mo_price_in m) \<or> price_denied (mo_price_out m)) ModelPrices
    (reject_if (base_url_denied (parse_url (mo_base_url m))) BaseURL
    (reject_if (outside_range 1 60 (tc_poll_timeout t) \<or> outside_range 1 300 (mo_timeout m)) NetworkTimeouts
    (and_then (limits_checked (cf_limits c)) (\<lambda>_. Inr (c\<lparr>cf_data_dir := Clean (cf_data_dir c)\<rparr>))))))))))"

section \<open>Load\<close>

definition telegram_fields :: "(string \<times> telegram_config setter) list" where
  "telegram_fields = [(''token_file'', set_text (\<lambda>x. tc_token_file_update (\<lambda>_. x))), (''poll_timeout_seconds'', set_int (\<lambda>x. tc_poll_timeout_update (\<lambda>_. x)))]"

definition model_fields :: "(string \<times> model_config setter) list" where
  "model_fields =
     [(''base_url'', set_text (\<lambda>x. mo_base_url_update (\<lambda>_. x))), (''api_key_file'', set_text (\<lambda>x. mo_key_file_update (\<lambda>_. x))),
      (''name'', set_text (\<lambda>x. mo_name_update (\<lambda>_. x))), (''timeout_seconds'', set_int (\<lambda>x. mo_timeout_update (\<lambda>_. x))),
      (''input_price_per_1m'', set_float (\<lambda>x. mo_price_in_update (\<lambda>_. x))), (''output_price_per_1m'', set_float (\<lambda>x. mo_price_out_update (\<lambda>_. x)))]"

definition limits_fields :: "(string \<times> limits_config setter) list" where
  "limits_fields =
     [(''max_message_bytes'', set_int (\<lambda>x. lc_message_bytes_update (\<lambda>_. x))), (''max_response_bytes'', set_int (\<lambda>x. lc_response_bytes_update (\<lambda>_. x))),
      (''max_model_steps'', set_int (\<lambda>x. lc_model_steps_update (\<lambda>_. x))), (''max_tool_calls'', set_int (\<lambda>x. lc_tool_calls_update (\<lambda>_. x))),
      (''max_tokens'', set_int (\<lambda>x. lc_tokens_update (\<lambda>_. x))), (''max_cost_usd'', set_float (\<lambda>x. lc_cost_update (\<lambda>_. x))),
      (''max_retries'', set_int (\<lambda>x. lc_retries_update (\<lambda>_. x))), (''messages_per_minute'', set_int (\<lambda>x. lc_per_minute_update (\<lambda>_. x))),
      (''message_burst'', set_int (\<lambda>x. lc_burst_update (\<lambda>_. x)))]"

definition config_fields :: "(string \<times> config setter) list" where
  "config_fields =
     [(''data_dir'', set_text (\<lambda>x. cf_data_dir_update (\<lambda>_. x))), (''owner_telegram_id'', set_int (\<lambda>x. cf_owner_update (\<lambda>_. x))),
      (''telegram'', set_struct True telegram_fields cf_telegram (\<lambda>x. cf_telegram_update (\<lambda>_. x))),
      (''model'', set_struct True model_fields cf_model (\<lambda>x. cf_model_update (\<lambda>_. x))),
      (''limits'', set_struct True limits_fields cf_limits (\<lambda>x. cf_limits_update (\<lambda>_. x)))]"

definition Load_config :: "(string \<Rightarrow> url option) \<Rightarrow> files \<Rightarrow> string \<Rightarrow> (config_error, config) result" where
  "Load_config parse_url fs path =
     (case ReadFile fs path of
        Inl e \<Rightarrow> Inl (NotReadable e)
      | Inr s \<Rightarrow>
          (case decode_text True config_fields s no_config of
             None \<Rightarrow> Inl Undecodable
           | Some c \<Rightarrow> Validate_config parse_url c))"

section \<open>What is built from it\<close>

definition limits_of :: "config \<Rightarrow> budget_limits" where
  "limits_of c =
     (let l = cf_limits c in
      \<lparr>bl_model_steps = lc_model_steps l, bl_tool_calls = lc_tool_calls l, bl_tokens = lc_tokens l, bl_cost = lc_cost l, bl_retries = lc_retries l\<rparr>)"

definition guard_of :: "config \<Rightarrow> (guard_error, message_guard) result" where
  "guard_of c = (let l = cf_limits c in NewMessageGuard (lc_message_bytes l) (lc_per_minute l) (lc_burst l))"

definition configured_agent :: "config \<Rightarrow> 'w agent \<Rightarrow> 'w agent" where
  "configured_agent c a =
     a\<lparr>ae_limits := limits_of c, ae_price_in := mo_price_in (cf_model c), ae_price_out := mo_price_out (cf_model c)\<rparr>"

definition configured_services :: "config \<Rightarrow> 'w services \<Rightarrow> 'w services" where
  "configured_services c v =
     v\<lparr>ws_owner := cf_owner c, ws_poll_timeout := tc_poll_timeout (cf_telegram c), ws_max_attempts := lc_retries (cf_limits c)\<rparr>"

section \<open>A valid configuration\<close>

lemma Validate_config_ok:
  assumes "Validate_config parse_url c = Inr c'"
  shows "c' = c\<lparr>cf_data_dir := Clean (cf_data_dir c)\<rparr>" "0 < cf_owner c" "limits_checked (cf_limits c) = Inr ()"
    "\<not> outside_range 1 60 (tc_poll_timeout (cf_telegram c))" "rooted (cf_data_dir c)"
    "\<not> price_denied (mo_price_in (cf_model c))" "\<not> price_denied (mo_price_out (cf_model c))"
  using assms by (auto simp: Validate_config_def Let_def and_then_ok)

lemma budget_opens:
  assumes "NewBudget (ae_limits a) = Inr b"
  shows "open_budget a h \<noteq> Inl BudgetsRequired"
proof -
  have "fst (consume d x) \<noteq> Inl BudgetsRequired" for d x by (simp add: consume_def Let_def)
  then have never: "fst (UseModelStep x) \<noteq> Inl BudgetsRequired" "fst (UseTokens n x) \<noteq> Inl BudgetsRequired" "fst (UseCost y x) \<noteq> Inl BudgetsRequired" for x n y
    by (simp_all add: UseModelStep_def UseTokens_def UseCost_def)
  then have "fst (charge_text n p x) \<noteq> Inl BudgetsRequired" for n p x
    using never(2) [of n x] never(3) by (auto simp: charge_text_def split: prod.split sum.split) (metis fst_conv)+
  with assms never(1) show ?thesis
    by (auto simp: open_budget_def split: prod.splits sum.splits) (metis fst_conv)+
qed

text \<open>What is read from a file is a number: the cost limit is not NaN.\<close>

definition cost_known :: "limits_config \<Rightarrow> bool" where
  "cost_known l \<longleftrightarrow> lc_cost l \<noteq> NotANumber"

lemma limits_fields_cost: "\<forall>(n, f) \<in> set limits_fields. setter_keeps cost_known f"
  by (simp add: limits_fields_def) (intro conjI keeps_int keeps_float; simp add: cost_known_def)

lemma config_fields_cost: "\<forall>(n, f) \<in> set config_fields. setter_keeps (\<lambda>c. cost_known (cf_limits c)) f"
proof -
  have any: "\<forall>(n, f) \<in> set fs. setter_keeps (\<lambda>x. True) f" for fs :: "(string \<times> 'r setter) list" by (auto simp: setter_keeps_def)
  show ?thesis
    by (simp add: config_fields_def)
      (intro conjI keeps_int keeps_text keeps_struct [OF any] keeps_struct [OF limits_fields_cost]; simp)
qed

lemma Load_cost:
  assumes "decode_text True config_fields s no_config = Some c"
  shows "lc_cost (cf_limits c) \<noteq> NotANumber"
proof -
  obtain v where "decode_struct True config_fields v no_config = Some c" using assms by (auto simp: decode_text_def split: option.splits)
  moreover have "cost_known (cf_limits no_config)" by (simp add: cost_known_def no_config_def)
  ultimately have "cost_known (cf_limits c)" using keeps_decode_struct [OF config_fields_cost] unfolding setter_keeps_def by blast
  then show ?thesis by (simp add: cost_known_def)
qed

lemma validated_limits:
  assumes "Validate_config parse_url c = Inr c'" and "lc_cost (cf_limits c) \<noteq> NotANumber"
  shows "is_ok (guard_of c')" "is_ok (NewBudget (limits_of c'))"
proof -
  note ok = Validate_config_ok [OF assms(1)]
  note l = ok(3) [unfolded limits_checked_def reject_if_ok outside_range_def]
  have same: "cf_limits c' = cf_limits c" by (simp add: ok(1))
  show "is_ok (guard_of c')" using l by (simp add: guard_of_def NewMessageGuard_def Let_def same)
  have "\<not> is_nan (lc_cost (cf_limits c))" "\<not> is_inf (lc_cost (cf_limits c))"
    using l assms(2) by (cases "lc_cost (cf_limits c)"; simp add: is_nan_def is_inf_def)+
  then show "is_ok (NewBudget (limits_of c'))" using l by (simp add: NewBudget_def limits_of_def Let_def same)
qed

lemma Clean_again: "rooted p \<Longrightarrow> Clean (Clean p) = Clean p \<and> rooted (Clean p) \<and> Clean p \<noteq> []"
  using abs_elements_plain [of p] by (simp add: Clean_rooted abs_elements_abs_path) (simp add: abs_path_def)

lemma validated_again: "Validate_config parse_url c = Inr c' \<Longrightarrow> Validate_config parse_url c' = Inr c'"
proof -
  assume v: "Validate_config parse_url c = Inr c'"
  note ok = Validate_config_ok [OF v]
  with v Clean_again [OF ok(5)] show ?thesis by (simp add: Validate_config_def Let_def and_then_ok)
qed

lemma Load_validated:
  assumes "Load_config parse_url fs path = Inr c"
  shows "\<exists>c0. Validate_config parse_url c0 = Inr c \<and> lc_cost (cf_limits c0) \<noteq> NotANumber"
  using assms Load_cost by (fastforce simp: Load_config_def split: sum.splits option.splits)

text \<open>
  C18: A configuration that was loaded lets the program start: it would be accepted again as it is, the message guard
  can be built, the gateway has an owner, a number of attempts and a wait within bounds, and no message fails
  because the budget cannot be opened, but only because it is used up.
\<close>

theorem loaded_config_starts:
  assumes "Load_config parse_url fs path = Inr c"
  shows "Validate_config parse_url c = Inr c \<and> is_ok (guard_of c) \<and> open_budget (configured_agent c a) h \<noteq> Inl BudgetsRequired
    \<and> (let g = wired_gateway (configured_services c v) text_of (configured_agent c a) in
        w_ready g \<and> 0 < w_owner g \<and> 1 \<le> attempts_limit g \<and> attempts_limit g \<le> 20 \<and> 1 \<le> w_poll_timeout g \<and> w_poll_timeout g \<le> 60)"
proof -
  obtain c0 where v: "Validate_config parse_url c0 = Inr c" and cost: "lc_cost (cf_limits c0) \<noteq> NotANumber"
    using Load_validated [OF assms] by blast
  note ok = Validate_config_ok [OF v]
  note l = ok(3) [unfolded limits_checked_def reject_if_ok outside_range_def]
  obtain b where "NewBudget (limits_of c) = Inr b" using validated_limits(2) [OF v cost] by (auto simp: is_ok_iff)
  then have "open_budget (configured_agent c a) h \<noteq> Inl BudgetsRequired" by (intro budget_opens) (simp add: configured_agent_def)
  with validated_again [OF v] validated_limits(1) [OF v cost] ok l show ?thesis
    by (simp add: wired_gateway_def configured_services_def attempts_limit_def outside_range_def Let_def)
qed

section \<open>A configuration\<close>

text \<open>The members of each object with the values they are read as.\<close>

definition plain_fields :: "(string \<times> go_value) list \<Rightarrow> ((string \<times> go_value) \<times> json) list" where
  "plain_fields fs = map (\<lambda>f. (f, field_value (snd f))) fs"

definition object_field :: "string \<Rightarrow> ((string \<times> go_value) \<times> json) list \<Rightarrow> (string \<times> go_value) \<times> json" where
  "object_field k fs = ((k, GoRaw (json_struct (map fst fs))), JObj (map (\<lambda>((k, v), j). (escape_json k, j)) fs))"

definition demo_fields :: "((string \<times> go_value) \<times> json) list" where
  "demo_fields =
     plain_fields [(''data_dir'', GoText ''/d''), (''owner_telegram_id'', GoInt 7)]
     @ [object_field ''telegram'' (plain_fields [(''token_file'', GoText ''/t''), (''poll_timeout_seconds'', GoInt 60)]),
        object_field ''model'' (plain_fields [(''base_url'', GoText ''https://m''), (''api_key_file'', GoText ''/k''), (''name'', GoText ''m''),
          (''timeout_seconds'', GoInt 30), (''input_price_per_1m'', GoInt 1), (''output_price_per_1m'', GoInt 2)]),
        object_field ''limits'' (plain_fields [(''max_message_bytes'', GoInt 4096), (''max_response_bytes'', GoInt 65536), (''max_model_steps'', GoInt 4),
          (''max_tool_calls'', GoInt 4), (''max_tokens'', GoInt 1000), (''max_cost_usd'', GoInt 1), (''max_retries'', GoInt 3),
          (''messages_per_minute'', GoInt 10), (''message_burst'', GoInt 5)])]"

definition demo_config_text :: string where
  "demo_config_text = json_struct (map fst demo_fields)"

definition demo_url :: "string \<Rightarrow> url option" where
  "demo_url s = Some \<lparr>u_scheme = ''https'', u_host = ''m'', u_user = False, u_fragment = [], u_rest = []\<rparr>"

definition demo_disk :: files where
  "demo_disk = [([''c''], RegularFile demo_config_text)]"

definition demo_config :: config where
  "demo_config = \<lparr>cf_data_dir = ''/d'', cf_owner = 7, cf_telegram = \<lparr>tc_token_file = ''/t'', tc_poll_timeout = 60\<rparr>,
     cf_model = \<lparr>mo_base_url = ''https://m'', mo_key_file = ''/k'', mo_name = ''m'', mo_timeout = 30, mo_price_in = Finite 1, mo_price_out = Finite 2\<rparr>,
     cf_limits = \<lparr>lc_message_bytes = 4096, lc_response_bytes = 65536, lc_model_steps = 4, lc_tool_calls = 4, lc_tokens = 1000, lc_cost = Finite 1,
       lc_retries = 3, lc_per_minute = 10, lc_burst = 5\<rparr>\<rparr>"

lemma object_field_reads:
  assumes "utf8_valid k" and "fs \<noteq> []" and "list_all plain_field fs" and "Suc (Suc (length fs)) \<le> n"
  shows "field_reads n 1 (object_field k (plain_fields fs))"
proof -
  have "field_reads 1 (Suc 1) (f, field_value (snd f))" if "plain_field f" for f
    using that reads_plain [of "fst f" "snd f"] by (cases f; cases "snd f") (auto simp: field_reads_def)
  then have "list_all (field_reads 1 (Suc 1)) (plain_fields fs)" using assms(3) by (simp add: plain_fields_def list_all_iff)
  from reads_struct [OF _ this] assms(2) have "reads (Suc (length fs + 1)) 1 (GoRaw (json_struct (map fst (plain_fields fs))))
      (JObj (map (\<lambda>((k, v), j). (escape_json k, j)) (plain_fields fs)))"
    by (simp add: plain_fields_def max_nesting_def)
  from reads_more [OF this, of n] assms(1,4) show ?thesis by (simp add: field_reads_def object_field_def)
qed

lemma demo_parsed: "parse_document demo_config_text = Some (JObj (map (\<lambda>((k, v), j). (escape_json k, j)) demo_fields))"
  unfolding demo_config_text_def
proof (rule parse_struct_of)
  show "demo_fields \<noteq> []" by (simp add: demo_fields_def plain_fields_def)
  have plain: "list_all (field_reads 11 1) (plain_fields fs)" if "list_all plain_field fs" for fs
    using that reads_plain reads_more [of 1 1 _ _ 11] by (fastforce simp: plain_fields_def list_all_iff field_reads_def elim!: plain_field.elims)
  show "list_all (field_reads 11 1) demo_fields"
    unfolding demo_fields_def list_all_append list.pred_inject
    by (intro conjI TrueI plain object_field_reads) (simp_all del: utf8_valid.simps, code_simp+)
  show "11 \<le> length (json_struct (map fst demo_fields))" by (simp add: json_struct_def demo_fields_def plain_fields_def json_quote_def)
qed

text \<open>A whole number in decimal digits is itself as a float.\<close>

lemma ParseFloat_digit:
  assumes "list_all is_digit d" and "d \<noteq> []" and "0 \<le> undec d" and "undec d < 1000"
  shows "ParseFloat d = Finite (of_int (undec d))"
proof -
  obtain c r where d: "d = c # r" "is_digit c" using assms(1,2) by (cases d) auto
  then have "c \<noteq> CHR ''-''" by (auto simp: is_digit_def)
  moreover have "digits_of d = (d, [])" using digits_of_append [of d "[]"] assms(1) by simp
  moreover have "pow10 0 = 1" by (simp add: pow10_def)
  ultimately show ?thesis using assms(3,4) d by (simp add: ParseFloat_def exponent_part_def pow10_def round64_int del: undec.simps)
qed

lemma demo_price: "set_float f (JNum (format_int 1)) r = Some (f (Finite 1) r)" "set_float f (JNum (format_int 2)) r = Some (f (Finite 2) r)"
proof -
  have n: "format_int 1 = ''1''" "format_int 2 = ''2''" "undec ''1'' = 1" "undec ''2'' = 2" by code_simp+
  have "ParseFloat ''1'' = Finite 1" "ParseFloat ''2'' = Finite 2"
    using ParseFloat_digit [of "''1''"] ParseFloat_digit [of "''2''"] n(3,4) by (simp_all add: is_digit_def)
  then show "set_float f (JNum (format_int 1)) r = Some (f (Finite 1) r)" "set_float f (JNum (format_int 2)) r = Some (f (Finite 2) r)"
    by (simp_all add: set_float_def is_inf_def n(1,2))
qed

lemma set_int_format: "min_int64 \<le> n \<Longrightarrow> n \<le> max_int64 \<Longrightarrow> set_int f (JNum (format_int n)) r = Some (f n r)"
  by (simp add: set_int_def Atoi_format)

lemma set_text_escape: "utf8_valid s \<Longrightarrow> set_text f (JStr (escape_json s)) r = Some (f s r)"
  by (simp add: set_text_def escape_unquote)

text \<open>A field of a struct, by its position in the list of names.\<close>

lemma decode_field:
  "map_of fs k' = Some f \<Longrightarrow> fold_name (unquote (escape_json k)) = k' \<Longrightarrow> f v r = Some r' \<Longrightarrow>
   decode_fields strict fs ((escape_json k, v) # ms) r = decode_fields strict fs ms r'"
  by simp

lemma demo_names:
  "fold_name (unquote (escape_json ''data_dir'')) = ''data_dir''"
  "fold_name (unquote (escape_json ''owner_telegram_id'')) = ''owner_telegram_id''"
  "fold_name (unquote (escape_json ''telegram'')) = ''telegram''"
  "fold_name (unquote (escape_json ''model'')) = ''model''"
  "fold_name (unquote (escape_json ''limits'')) = ''limits''"
  "fold_name (unquote (escape_json ''token_file'')) = ''token_file''"
  "fold_name (unquote (escape_json ''poll_timeout_seconds'')) = ''poll_timeout_seconds''"
  "fold_name (unquote (escape_json ''base_url'')) = ''base_url''"
  "fold_name (unquote (escape_json ''api_key_file'')) = ''api_key_file''"
  "fold_name (unquote (escape_json ''name'')) = ''name''"
  "fold_name (unquote (escape_json ''timeout_seconds'')) = ''timeout_seconds''"
  "fold_name (unquote (escape_json ''input_price_per_1m'')) = ''input_price_per_1m''"
  "fold_name (unquote (escape_json ''output_price_per_1m'')) = ''output_price_per_1m''"
  "fold_name (unquote (escape_json ''max_message_bytes'')) = ''max_message_bytes''"
  "fold_name (unquote (escape_json ''max_response_bytes'')) = ''max_response_bytes''"
  "fold_name (unquote (escape_json ''max_model_steps'')) = ''max_model_steps''"
  "fold_name (unquote (escape_json ''max_tool_calls'')) = ''max_tool_calls''"
  "fold_name (unquote (escape_json ''max_tokens'')) = ''max_tokens''"
  "fold_name (unquote (escape_json ''max_cost_usd'')) = ''max_cost_usd''"
  "fold_name (unquote (escape_json ''max_retries'')) = ''max_retries''"
  "fold_name (unquote (escape_json ''messages_per_minute'')) = ''messages_per_minute''"
  "fold_name (unquote (escape_json ''message_burst'')) = ''message_burst''"
  by code_simp+

lemma demo_texts: "utf8_valid ''/d''" "utf8_valid ''/t''" "utf8_valid ''https://m''" "utf8_valid ''/k''" "utf8_valid ''m''"
  by code_simp+

lemma demo_decoded: "decode_text True config_fields demo_config_text no_config = Some demo_config"
proof -
  have "decode_struct True config_fields (JObj (map (\<lambda>((k, v), j). (escape_json k, j)) demo_fields)) no_config = Some demo_config"
    by (simp add: decode_struct_def demo_fields_def plain_fields_def object_field_def demo_names demo_texts set_text_escape set_int_format
        demo_price set_struct_def config_fields_def telegram_fields_def model_fields_def limits_fields_def no_config_def demo_config_def
        max_int64_def min_int64_def del: escape_json.simps unquote.simps fold_name.simps utf8_valid.simps)
  then show ?thesis by (simp add: decode_text_def demo_parsed)
qed

lemma demo_load:
  assumes "ReadFile fs ''/c'' = Inr demo_config_text"
  shows "Load_config demo_url fs ''/c'' = Inr demo_config"
proof -
  have "Validate_config demo_url demo_config = Inr demo_config" by code_simp
  then show ?thesis by (simp add: Load_config_def demo_decoded assms)
qed

lemma demo_loaded: "Load_config demo_url demo_disk ''/c'' = Inr demo_config"
  by (rule demo_load) (simp add: demo_disk_def ReadFile_def Stat_def node_of_def locate_def node_at_def path_elements_name)

lemma loaded_config_starts_witness:
  "\<exists>c. Load_config demo_url demo_disk ''/c'' = Inr c \<and> is_ok (guard_of c) \<and> open_budget (configured_agent c demo_agent) [] \<noteq> Inl BudgetsRequired"
  using loaded_config_starts [OF demo_loaded, of demo_agent "[]"] demo_loaded by blast

text \<open>A wait the configuration allows is longer than the client of the Telegram API waits for an answer, 45 seconds.\<close>

definition client_timeout :: duration where
  "client_timeout = 45 * second"

lemma poll_outlasts_client: "client_timeout < tc_poll_timeout (cf_telegram demo_config) * second"
  by (simp add: client_timeout_def demo_config_def units)

end
