(* ===== verification/FilesIn.thy ===== *)
theory FilesIn
  imports Files
begin

text \<open>
  The calls on the entries of one directory whose path has no link: what they return and what every entry is
  afterwards. The components that keep a file of their own beside a temporary one rest on these.
\<close>

section \<open>Where a path without links leads\<close>

definition real_dir :: "files \<Rightarrow> location \<Rightarrow> bool" where
  "real_dir fs d \<longleftrightarrow> (\<forall>l. prefix l d \<longrightarrow> node_at fs l = Some Folder) \<and> (\<forall>e \<in> set d. plain_name e)"

definition entry :: "location \<Rightarrow> string \<Rightarrow> string" where
  "entry d n = abs_path (d @ [n])"

lemma real_dir_Nil [simp]: "real_dir fs []"
  by (simp add: real_dir_def)

lemma real_dir_snoc: "real_dir fs (d @ [e]) \<longleftrightarrow> real_dir fs d \<and> plain_name e \<and> node_at fs (d @ [e]) = Some Folder"
  by (auto simp: real_dir_def)

lemma real_dir_walk:
  assumes "real_dir fs r" and "prefix l r"
  shows "resolve fs ask fuel l (drop (length l) r @ es) = resolve fs ask fuel r es"
  using assms(2)
proof (induction "length r - length l" arbitrary: l)
  case 0
  then have "l = r" by (auto elim: prefixE)
  then show ?case by simp
next
  case (Suc k)
  obtain ys where "r = l @ ys" using Suc.prems by (auto elim: prefixE)
  then obtain e zs where e: "r = l @ e # zs" using Suc.hyps(2) by (cases ys) auto
  have "plain_name e" "node_at fs l = Some Folder" "node_at fs (l @ [e]) = Some Folder"
    using assms(1) e by (simp_all add: real_dir_def)
  moreover have "resolve fs ask fuel (l @ [e]) (drop (length (l @ [e])) r @ es) = resolve fs ask fuel r es"
    by (rule Suc.hyps(1)) (use Suc.hyps(2) e in simp_all)
  ultimately show ?case by (simp add: e plain_name_def)
qed

lemma resolve_from_top: "real_dir fs d \<Longrightarrow> resolve fs ask fuel [] (d @ es) = resolve fs ask fuel d es"
  using real_dir_walk [of fs d "[]"] by simp

lemma locate_dir: "real_dir fs d \<Longrightarrow> locate fs ask (abs_path d) = Inr d"
  using resolve_from_top [of fs d ask 40 "[]"] by (simp add: locate_def abs_path_elements real_dir_def)

lemma EvalSymlinks_dir: "real_dir fs d \<Longrightarrow> EvalSymlinks fs (abs_path d) = Inr (abs_path d)"
  using resolve_from_top [of fs d Follow 255 "[]"] by (simp add: EvalSymlinks_def abs_path_elements real_dir_def)

lemma Stat_dir: "real_dir fs d \<Longrightarrow> Stat fs (abs_path d) = Inr Folder"
  by (simp add: Stat_def node_of_def locate_dir) (simp add: real_dir_def)

lemma real_dir_node: "real_dir fs d \<Longrightarrow> node_at fs d = Some Folder"
  by (simp add: real_dir_def)

lemma resolve_entry:
  assumes "real_dir fs d" and "plain_name n"
  shows "resolve fs ask fuel [] (d @ [n]) =
    (case node_at fs (d @ [n]) of
       None \<Rightarrow> if ask = Creating \<or> ask = Entry then Inr (d @ [n]) else Inl NotExist
     | Some (Link t) \<Rightarrow> if ask = NoFollow \<or> ask = Entry then Inr (d @ [n]) else resolve fs ask fuel d [n]
     | Some _ \<Rightarrow> Inr (d @ [n]))"
proof -
  have "resolve fs ask fuel [] (d @ [n]) = resolve fs ask fuel d [n]" by (rule resolve_from_top [OF assms(1)])
  with real_dir_node [OF assms(1)] assms(2) show ?thesis by (auto simp: plain_name_def split: option.split node.split)
qed

lemma locate_entry:
  assumes "real_dir fs d" and "plain_name n" and "ask = Entry \<or> ask = NoFollow \<and> node_at fs (d @ [n]) \<noteq> None"
  shows "locate fs ask (entry d n) = Inr (d @ [n])"
proof -
  have "path_elements (entry d n) = d @ [n]" using assms by (simp add: entry_def abs_path_elements real_dir_def)
  with assms resolve_entry [OF assms(1,2), of ask 40] show ?thesis
    by (auto simp: locate_def split: option.split node.split)
qed

lemma locate_plain:
  assumes "real_dir fs d" and "plain_name n" and "\<forall>t. node_at fs (d @ [n]) \<noteq> Some (Link t)"
  shows "locate fs ask (entry d n) =
    (if node_at fs (d @ [n]) = None \<and> ask \<noteq> Creating \<and> ask \<noteq> Entry then Inl NotExist else Inr (d @ [n]))"
proof -
  have "path_elements (entry d n) = d @ [n]" using assms by (simp add: entry_def abs_path_elements real_dir_def)
  with resolve_entry [OF assms(1,2), of ask 40] assms(3) show ?thesis
    by (cases "node_at fs (d @ [n])") (auto simp: locate_def split: node.split)
qed

section \<open>Entries after a change\<close>

lemma node_at_put: "l \<noteq> [] \<Longrightarrow> node_at (put l n fs) k = (if k = l then Some n else node_at fs k)"
  by (simp add: node_at_def put_def update_conv')

lemma node_at_dropped: "l \<noteq> [] \<Longrightarrow> node_at (filter (\<lambda>e. fst e \<noteq> l) fs) k = (if k = l then None else node_at fs k)"
  by (induction fs) (auto simp: node_at_def)

lemma map_of_moved:
  assumes "\<And>l. l \<noteq> b \<Longrightarrow> (if prefix a l then b @ drop (length a) l else l) = k \<longleftrightarrow> l = j" and "j \<noteq> b"
  shows "map_of (move a b fs) k = map_of fs j"
  unfolding move_def
proof (induction fs)
  case (Cons x fs)
  obtain l n where x: "x = (l, n)" by (cases x)
  from assms(1) [of l] assms(2) Cons show ?case by (auto simp: x)
qed simp

lemma node_at_moved:
  assumes "\<not> prefix (d @ [m]) k" "\<not> prefix (d @ [n]) k"
  shows "node_at (move (d @ [m]) (d @ [n]) fs) k = node_at fs k"
proof (cases "k = []")
  case False
  have "(if prefix (d @ [m]) l then (d @ [n]) @ drop (length (d @ [m])) l else l) = k \<longleftrightarrow> l = k" for l
    using assms by auto
  from map_of_moved [OF this, of fs] assms False show ?thesis by (auto simp: node_at_def)
qed simp

lemma node_at_moved_new: "m \<noteq> n \<Longrightarrow> node_at (move (d @ [m]) (d @ [n]) fs) (d @ [n]) = node_at fs (d @ [m])"
proof -
  assume mn: "m \<noteq> n"
  have "map_of (move (d @ [m]) (d @ [n]) fs) (d @ [n]) = map_of fs (d @ [m])"
  proof (rule map_of_moved)
    fix l
    assume ne: "l \<noteq> d @ [n]"
    show "((if prefix (d @ [m]) l then (d @ [n]) @ drop (length (d @ [m])) l else l) = d @ [n]) = (l = d @ [m])"
      using mn ne by (auto elim!: prefixE)
  qed (use mn in simp)
  then show ?thesis by (simp add: node_at_def)
qed

lemma node_at_moved_old: "m \<noteq> n \<Longrightarrow> node_at (move (d @ [m]) (d @ [n]) fs) (d @ [m]) = None"
  by (auto simp: node_at_def move_def map_of_eq_None_iff split: if_splits)

lemma not_below: "prefix l d \<Longrightarrow> \<not> prefix (d @ [n]) l"
  by (auto elim!: prefixE)

lemma real_dir_same: "real_dir fs d \<Longrightarrow> (\<And>k. prefix k d \<Longrightarrow> node_at fs' k = node_at fs k) \<Longrightarrow> real_dir fs' d"
  by (simp add: real_dir_def)

lemma real_dir_put: "real_dir fs d \<Longrightarrow> real_dir (put (d @ [n]) x fs) d"
  by (rule real_dir_same) (auto simp: node_at_put)

lemma real_dir_dropped: "real_dir fs d \<Longrightarrow> real_dir (filter (\<lambda>e. fst e \<noteq> d @ [n]) fs) d"
  by (rule real_dir_same) (auto simp: node_at_dropped)

lemma real_dir_moved: "real_dir fs d \<Longrightarrow> real_dir (move (d @ [m]) (d @ [n]) fs) d"
  by (rule real_dir_same) (simp_all add: node_at_moved not_below)

section \<open>Calls\<close>

text \<open>No entry of this name, or one that is neither a link nor a directory.\<close>

definition is_plain_file :: "node option \<Rightarrow> bool" where
  "is_plain_file x = (case x of None \<Rightarrow> True | Some (RegularFile _) \<Rightarrow> True | _ \<Rightarrow> False)"

lemma not_link: "is_plain_file x \<Longrightarrow> x \<noteq> Some (Link t) \<and> x \<noteq> Some Folder"
  by (auto simp: is_plain_file_def split: option.splits node.splits)

lemma Lstat_entry:
  "real_dir fs d \<Longrightarrow> plain_name n \<Longrightarrow> Lstat fs (entry d n) = (case node_at fs (d @ [n]) of None \<Rightarrow> Inl NotExist | Some x \<Rightarrow> Inr x)"
  using locate_entry [of fs d n NoFollow] locate_plain [of fs d n NoFollow]
  by (cases "node_at fs (d @ [n])") (simp_all add: Lstat_def node_of_def)

lemma EvalSymlinks_entry:
  assumes "real_dir fs d" and "plain_name n" and "node_at fs (d @ [n]) = Some (RegularFile c)"
  shows "EvalSymlinks fs (entry d n) = Inr (entry d n)"
proof -
  have "path_elements (entry d n) = d @ [n]" using assms by (simp add: entry_def abs_path_elements real_dir_def)
  with resolve_entry [OF assms(1,2), of Follow 255] assms(3) show ?thesis by (simp add: EvalSymlinks_def entry_def)
qed

lemma ReadFile_entry:
  "real_dir fs d \<Longrightarrow> plain_name n \<Longrightarrow> is_plain_file (node_at fs (d @ [n])) \<Longrightarrow>
   ReadFile fs (entry d n) = (case node_at fs (d @ [n]) of Some (RegularFile c) \<Rightarrow> Inr c | _ \<Rightarrow> Inl NotExist)"
  using locate_plain [of fs d n Follow]
  by (auto simp: ReadFile_def Stat_def node_of_def is_plain_file_def split: option.splits node.splits)

lemma WriteFile_entry:
  "real_dir fs d \<Longrightarrow> plain_name n \<Longrightarrow> is_plain_file (node_at fs (d @ [n])) \<Longrightarrow>
   WriteFile (entry d n) c fs = (Inr (), put (d @ [n]) (RegularFile c) fs)"
  using locate_plain [of fs d n Creating] not_link [of "node_at fs (d @ [n])"] by (simp add: WriteFile_def)

lemma make_new_entry:
  "real_dir fs d \<Longrightarrow> plain_name n \<Longrightarrow>
   make_new (entry d n) x fs = (if node_at fs (d @ [n]) \<noteq> None then (Inl AlreadyExists, fs) else (Inr (), put (d @ [n]) x fs))"
  using locate_entry [of fs d n Entry] by (simp add: make_new_def)

lemma Remove_entry:
  "real_dir fs d \<Longrightarrow> plain_name n \<Longrightarrow>
   Remove_file (entry d n) fs =
     (if node_at fs (d @ [n]) = None then (Inl NotExist, fs)
      else if node_at fs (d @ [n]) = Some Folder \<and> children fs (d @ [n]) \<noteq> [] then (Inl NotEmpty, fs)
      else (Inr (), filter (\<lambda>e. fst e \<noteq> d @ [n]) fs))"
  using locate_entry [of fs d n Entry] by (simp add: Remove_file_def)

lemma Rename_entry:
  "real_dir fs d \<Longrightarrow> plain_name m \<Longrightarrow> plain_name n \<Longrightarrow> m \<noteq> n \<Longrightarrow> node_at fs (d @ [m]) = Some (RegularFile c) \<Longrightarrow>
   node_at fs (d @ [n]) \<noteq> Some Folder \<Longrightarrow> Rename (entry d m) (entry d n) fs = (Inr (), move (d @ [m]) (d @ [n]) fs)"
  using locate_entry [of fs d m Entry] locate_entry [of fs d n Entry] by (simp add: Rename_def)

section \<open>Where any path leads\<close>

text \<open>What a path leads to is a place whose path has no link.\<close>

definition real_place :: "files \<Rightarrow> location \<Rightarrow> bool" where
  "real_place fs l \<longleftrightarrow> real_dir fs l \<or> (\<exists>d e c. l = d @ [e] \<and> real_dir fs d \<and> plain_name e \<and> node_at fs l = Some (RegularFile c))"

lemma resolve_real:
  assumes "resolve fs Follow fuel here es = Inr l" and "real_dir fs here" and "\<forall>e \<in> set es. e \<noteq> [] \<and> CHR ''/'' \<notin> set e"
  shows "real_place fs l"
  using assms
proof (induction fs Follow fuel here es rule: resolve.induct)
  case (2 fs fuel here e es)
  have here: "node_at fs here = Some Folder" using "2.prems"(2) by (rule real_dir_node)
  have es: "\<forall>e \<in> set es. e \<noteq> [] \<and> CHR ''/'' \<notin> set e" using "2.prems"(3) by simp
  show ?case
  proof (cases "e = ''.''")
    case True
    then show ?thesis using "2.prems"(1) here es "2.hyps"(1) [OF _ _ True _ "2.prems"(2) es] by simp
  next
    case dot: False
    show ?thesis
    proof (cases "e = ''..''")
      case True
      have "real_dir fs (butlast here)" using "2.prems"(2) by (cases here rule: rev_cases) (simp_all add: real_dir_snoc)
      then show ?thesis using "2.prems"(1) here es "2.hyps"(2) [OF _ _ dot True] dot True by simp
    next
      case climb: False
      then have plain: "plain_name e" using dot "2.prems"(3) by (simp add: plain_name_def)
      show ?thesis
      proof (cases "node_at fs (here @ [e])")
        case None
        then show ?thesis using "2.prems"(1) here dot climb by simp
      next
        case (Some n)
        show ?thesis
        proof (cases n)
          case (Link t)
          then obtain k where k: "fuel = Suc k" "resolve fs Follow k (if rooted t then [] else here) (path_elements t @ es) = Inr l"
            using "2.prems"(1) here dot climb Some by (cases fuel) simp_all
          have "\<forall>e \<in> set (path_elements t @ es). e \<noteq> [] \<and> CHR ''/'' \<notin> set e" using es path_elements_parts by auto
          moreover have "real_dir fs (if rooted t then [] else here)" using "2.prems"(2) by simp
          ultimately show ?thesis using "2.hyps"(5) [OF _ _ dot climb Some Link _ k(1) k(2)] here by simp
        next
          case Folder
          then have "real_dir fs (here @ [e])" using "2.prems"(2) plain Some by (simp add: real_dir_snoc)
          then show ?thesis using "2.hyps"(4) [OF _ _ dot climb Some Folder] "2.prems"(1) here dot climb Some Folder es by simp
        next
          case (RegularFile c)
          with "2.prems"(1,2) here dot climb Some plain show ?thesis by (cases es) (auto simp: real_place_def)
        qed
      qed
    qed
  qed
qed (simp add: real_place_def)

text \<open>More links may be followed with the same result; the last element is looked up where the rest leads.\<close>

lemma step_cases:
  obtains (stuck) "node_at fs here \<noteq> Some Folder"
  | (here) "node_at fs here = Some Folder" "e = ''.''"
  | (up) "node_at fs here = Some Folder" "e \<noteq> ''.''" "e = ''..''"
  | (missing) "node_at fs here = Some Folder" "e \<noteq> ''.''" "e \<noteq> ''..''" "node_at fs (here @ [e]) = None"
  | (regular) c where "node_at fs here = Some Folder" "e \<noteq> ''.''" "e \<noteq> ''..''" "node_at fs (here @ [e]) = Some (RegularFile c)"
  | (folder) "node_at fs here = Some Folder" "e \<noteq> ''.''" "e \<noteq> ''..''" "node_at fs (here @ [e]) = Some Folder"
  | (link) t where "node_at fs here = Some Folder" "e \<noteq> ''.''" "e \<noteq> ''..''" "node_at fs (here @ [e]) = Some (Link t)"
  by (metis node.exhaust option.exhaust)

lemma resolve_more: "resolve fs ask k here es = r \<Longrightarrow> r \<noteq> Inl TooManyLinks \<Longrightarrow> k \<le> m \<Longrightarrow> resolve fs ask m here es = r"
proof (induction fs ask k here es arbitrary: m rule: resolve.induct)
  case (2 fs ask k here e es)
  show ?case
  proof (cases rule: step_cases [where fs = fs and here = here and e = e])
    case stuck
    then show ?thesis using "2.prems"(1) by (cases "node_at fs here") simp_all
  next
    case here
    then show ?thesis using "2.prems" "2.IH"(1) [of m] by simp
  next
    case up
    then show ?thesis using "2.prems" "2.IH"(2) [of m] by simp
  next
    case missing
    then show ?thesis using "2.prems"(1) by simp
  next
    case (regular c)
    then show ?thesis using "2.prems" "2.IH"(3) [of _ c m] by simp
  next
    case folder
    then show ?thesis using "2.prems" "2.IH"(4) [of _ m] by simp
  next
    case (link t)
    show ?thesis
    proof (cases "es = [] \<and> (ask = NoFollow \<or> ask = Entry)")
      case True
      then show ?thesis using "2.prems"(1) link by simp
    next
      case False
      then obtain j where j: "k = Suc j" using "2.prems"(1,2) link by (cases k) (auto split: if_splits)
      then obtain i where i: "m = Suc i" "j \<le> i" using "2.prems"(3) by (cases m) auto
      have "resolve fs ask j (if rooted t then [] else here) (path_elements t @ es) = r" using "2.prems"(1) link j False by auto
      then have "resolve fs ask i (if rooted t then [] else here) (path_elements t @ es) = r"
        using "2.IH"(5) [OF _ _ link(2,3,4) refl False j _ "2.prems"(2) i(2)] link(1) by simp
      then show ?thesis using link i False by auto
    qed
  qed
qed simp

lemma resolve_split:
  "resolve fs Follow k here ds = Inr d \<Longrightarrow> \<exists>j. resolve fs ask k here (ds @ [b]) = resolve fs ask j d [b]"
proof (induction fs Follow k here ds rule: resolve.induct)
  case (2 fs k here e es)
  show ?case
  proof (cases rule: step_cases [where fs = fs and here = here and e = e])
    case (link t)
    then obtain j where j: "k = Suc j" using "2.prems" by (cases k) auto
    have "resolve fs Follow j (if rooted t then [] else here) (path_elements t @ es) = Inr d" using "2.prems" link j by simp
    from "2.hyps"(5) [OF _ _ link(2,3,4) refl _ j this] link j show ?thesis by simp
  next
    case stuck
    then show ?thesis using "2.prems" by (cases "node_at fs here") simp_all
  next
    case missing
    then show ?thesis using "2.prems" by simp
  next
    case here
    then show ?thesis using "2.prems" "2.hyps"(1) by simp
  next
    case up
    then show ?thesis using "2.prems" "2.hyps"(2) by simp
  next
    case (regular c)
    then show ?thesis using "2.prems" "2.hyps"(3) [of _ c] by simp
  next
    case folder
    then show ?thesis using "2.prems" "2.hyps"(4) by simp
  qed
qed auto

lemma Join_entry: "real_dir fs d \<Longrightarrow> plain_name b \<Longrightarrow> Join (abs_path d) b = entry d b"
proof -
  assume d: "real_dir fs d" "plain_name b"
  then have "abs_elements (abs_path d @ ''/'' @ b) = d @ [b]"
    by (simp add: abs_elements_def path_elements_append [simplified] abs_path_elements real_dir_def plain_name_def path_elements_name clean_plain)
  then show ?thesis by (simp add: Join_def Clean_rooted rooted_append [simplified] entry_def) (simp add: abs_path_def)
qed

lemma real_Stat: "real_place fs l \<Longrightarrow> Stat fs (abs_path l) = Inr Folder \<Longrightarrow> real_dir fs l"
proof -
  assume l: "real_place fs l" "Stat fs (abs_path l) = Inr Folder"
  { fix d e c
    assume "l = d @ [e]" "real_dir fs d" "plain_name e" "node_at fs l = Some (RegularFile c)"
    then have "Stat fs (abs_path l) = Inr (RegularFile c)"
      using locate_plain [of fs d e Follow] by (simp add: Stat_def node_of_def entry_def) }
  with l show ?thesis unfolding real_place_def by fastforce
qed

lemma MkdirAll_there: "real_dir fs d \<Longrightarrow> MkdirAll (abs_path d) fs = (Inr (), fs)"
proof (cases d rule: rev_cases)
  case (snoc e x)
  assume d: "real_dir fs d"
  then have "path_elements (abs_path d) = d" by (simp add: abs_path_elements real_dir_def)
  with snoc Stat_dir [OF d] show ?thesis by (simp add: MkdirAll_def)
qed (simp add: MkdirAll_def abs_path_def)

lemma Dir_entry: "real_dir fs d \<Longrightarrow> plain_name n \<Longrightarrow> Dir (entry d n) = abs_path d"
  using Dir_abs_path [of "d @ [n]"] by (simp add: entry_def real_dir_def)

lemma entry_suffix: "entry d n @ s = entry d (n @ s)"
proof -
  have "join_path (d @ [n @ s]) = join_path (d @ [n]) @ s"
    by (induction d rule: join_path.induct) simp_all
  then show ?thesis by (simp add: entry_def abs_path_def)
qed

end
