(* ===== verification/Secrets.thy ===== *)
theory Secrets
  imports FilesIn
begin

text \<open>
  Package \<open>internal/secrets\<close>: reading a secret from a file of its own. The permission bits of a file are an
  argument; a value that is destroyed is nil.
\<close>

type_synonym secret = "string option"

definition String_secret :: "secret \<Rightarrow> string" where
  "String_secret v = (case v of None \<Rightarrow> [] | Some s \<Rightarrow> s)"

definition Destroy :: "secret \<Rightarrow> secret" where
  "Destroy v = (case v of None \<Rightarrow> None | Some s \<Rightarrow> Some [])"

definition max_secret_bytes :: int where
  "max_secret_bytes = 64 * 1024"

datatype secret_error = SecretOs os_error | NotARegularFile | TooOpen int | SecretSize | NotOneLine

text \<open>Anyone but the owner of the file may do something with it.\<close>

definition shared_mode :: "int \<Rightarrow> bool" where
  "shared_mode mode \<longleftrightarrow> mode mod 64 \<noteq> 0"

definition Read_secret :: "(string \<Rightarrow> int) \<Rightarrow> string \<Rightarrow> files \<Rightarrow> (secret_error, string) result" where
  "Read_secret mode path fs =
     (case Lstat fs path of
        Inl e \<Rightarrow> Inl (SecretOs e)
      | Inr (RegularFile c) \<Rightarrow>
          reject_if (shared_mode (mode path)) (TooOpen (mode path mod 512))
         (reject_if (length c < 1 \<or> max_secret_bytes < int (length c)) SecretSize
         (case ReadFile fs path of
            Inl e \<Rightarrow> Inl (SecretOs e)
          | Inr b \<Rightarrow>
              (let v = trim_space b in
               if v = [] \<or> has_nul v \<or> CHR 0x0D \<in> set v \<or> CHR 0x0A \<in> set v then Inl NotOneLine else Inr v)))
      | Inr _ \<Rightarrow> Inl NotARegularFile)"

text \<open>A file that is no link is the one that is read.\<close>

lemma resolve_no_link:
  "resolve fs NoFollow k here es = Inr l \<Longrightarrow> \<forall>t. node_at fs l \<noteq> Some (Link t) \<Longrightarrow> resolve fs Follow k here es = Inr l"
proof (induction fs NoFollow k here es rule: resolve.induct)
  case (2 fs k here e es)
  show ?case
  proof (cases rule: step_cases [where fs = fs and here = here and e = e])
    case (link t)
    then have "es \<noteq> []" using "2.prems" by auto
    then obtain j where j: "k = Suc j" using "2.prems" link by (cases k) auto
    then show ?thesis using "2.hyps"(5) [OF _ _ link(2,3,4) refl _ j] "2.prems" link \<open>es \<noteq> []\<close> by simp
  next
    case stuck
    then show ?thesis using "2.prems" by (cases "node_at fs here") simp_all
  next
    case missing
    then show ?thesis using "2.prems" by simp
  next
    case here
    then show ?thesis using "2.prems" "2.hyps"(1) by simp
  next
    case up
    then show ?thesis using "2.prems" "2.hyps"(2) by simp
  next
    case (regular c)
    then show ?thesis using "2.prems" "2.hyps"(3) [of _ c] by simp
  next
    case folder
    then show ?thesis using "2.prems" "2.hyps"(4) by simp
  qed
qed simp

lemma Lstat_read: "Lstat fs p = Inr (RegularFile c) \<Longrightarrow> ReadFile fs p = Inr c"
proof -
  assume "Lstat fs p = Inr (RegularFile c)"
  then obtain l where l: "resolve fs NoFollow 40 [] (path_elements p) = Inr l" "node_at fs l = Some (RegularFile c)"
    by (auto simp: Lstat_def node_of_def locate_def and_then_ok split: option.splits)
  from resolve_no_link [OF l(1)] l(2) show ?thesis by (simp add: ReadFile_def Stat_def node_of_def locate_def)
qed

lemma Read_secret_private: "Read_secret mode path fs = Inr v \<Longrightarrow> \<not> shared_mode (mode path)"
  by (auto simp: Read_secret_def split: sum.splits node.splits)

text \<open>
  A secret is read exactly if its file is a regular file, no link, that nobody else may use, of 1 to 65536
  bytes, and is one line that is not empty without the space around it; the secret is that line.
\<close>

theorem secret_is_private_line:
  "Read_secret mode path fs = Inr v \<longleftrightarrow>
     (\<exists>c. Lstat fs path = Inr (RegularFile c) \<and> \<not> shared_mode (mode path) \<and> 1 \<le> length c \<and> length c \<le> 65536
        \<and> v = trim_space c \<and> v \<noteq> [] \<and> \<not> has_nul v \<and> CHR 0x0D \<notin> set v \<and> CHR 0x0A \<notin> set v)"
  (is "?read \<longleftrightarrow> (\<exists>c. ?file c \<and> ?fits c)")
proof (cases "\<exists>c. ?file c")
  case True
  then obtain c where c: "?file c" by blast
  then have "?read \<longleftrightarrow> ?fits c"
    by (auto simp: Read_secret_def Lstat_read max_secret_bytes_def Let_def not_less Suc_le_eq)
  with c show ?thesis by auto
next
  case False
  then show ?thesis by (auto simp: Read_secret_def split: sum.split node.split)
qed

lemma secret_file_examples:
  "Read_secret (\<lambda>_. 384) ''/t'' [([''t''], RegularFile (''12:abc'' @ [CHR 0x0A]))] = Inr ''12:abc''"
  "Read_secret (\<lambda>_. 420) ''/t'' [([''t''], RegularFile ''12:abc'')] = Inl (TooOpen 420)"
  "Read_secret (\<lambda>_. 384) ''/l'' [([''t''], RegularFile ''12:abc''), ([''l''], Link ''/t'')] = Inl NotARegularFile"
  by code_simp+

end
