(* ===== verification/HealthFile.thy ===== *)
theory HealthFile
  imports Session FilesIn
begin

text \<open>
  Package \<open>internal/health\<close>: the report of the process, kept in memory and written to a file of its own through a
  temporary one. The process may end between two calls of an update.
\<close>

section \<open>The report\<close>

record report =
  hr_started :: time
  hr_updated :: time
  hr_status :: string
  hr_version :: string
  hr_update_id :: int
  hr_messages :: int

record health_writer =
  hw_path :: string
  hw_state :: report

text \<open>\<open>json.MarshalIndent\<close>; its error, for a year of more than four digits, is ignored and leaves no bytes.\<close>

definition report_line :: "string \<times> go_value \<Rightarrow> string" where
  "report_line f = ''  '' @ json_quote (fst f) @ '': '' @ value_json (snd f)"

definition report_text :: "report \<Rightarrow> string" where
  "report_text r =
     (if \<not> time_encodes (hr_started r) \<or> \<not> time_encodes (hr_updated r) then []
      else ''{'' @ [CHR 0x0A]
        @ concat (map (\<lambda>f. report_line f @ '','' @ [CHR 0x0A])
            [(''started_at'', GoText (formatTime (hr_started r))), (''updated_at'', GoText (formatTime (hr_updated r))),
             (''status'', GoText (hr_status r)), (''version'', GoText (hr_version r)), (''last_update_id'', GoInt (hr_update_id r))])
        @ report_line (''messages'', GoInt (hr_messages r)) @ [CHR 0x0A] @ ''}'')"

definition New_health :: "string \<Rightarrow> string \<Rightarrow> time \<Rightarrow> health_writer" where
  "New_health dir version now =
     \<lparr>hw_path = Join dir ''health.json'',
      hw_state = \<lparr>hr_started = now, hr_updated = 0, hr_status = ''starting'', hr_version = version, hr_update_id = 0, hr_messages = 0\<rparr>\<rparr>"

section \<open>Update\<close>

definition temporary :: "string \<Rightarrow> string" where
  "temporary p = p @ ''.tmp''"

text \<open>The calls of an update on the files, of which the first \<open>k\<close> are made before the process ends.\<close>

definition report_calls :: "string \<Rightarrow> string \<Rightarrow> (files \<Rightarrow> (os_error, unit) result \<times> files) list" where
  "report_calls path b = [MkdirAll (Dir path), WriteFile (temporary path) b, Rename (temporary path) path]"

fun calls_in_turn :: "(files \<Rightarrow> (os_error, unit) result \<times> files) list \<Rightarrow> files \<Rightarrow> (os_error, unit) result \<times> files" where
  "calls_in_turn [] fs = (Inr (), fs)"
| "calls_in_turn (c # cs) fs = (case c fs of (Inl e, fs') \<Rightarrow> (Inl e, fs') | (Inr _, fs') \<Rightarrow> calls_in_turn cs fs')"

definition changed_report :: "(report \<Rightarrow> report) \<Rightarrow> time \<Rightarrow> health_writer \<Rightarrow> health_writer" where
  "changed_report f now w = w\<lparr>hw_state := (f (hw_state w))\<lparr>hr_updated := now\<rparr>\<rparr>"

definition Update_health :: "(report \<Rightarrow> report) \<Rightarrow> time \<Rightarrow> health_writer \<times> files \<Rightarrow> (os_error, unit) result \<times> health_writer \<times> files" where
  "Update_health f now x =
     (let w = changed_report f now (fst x) in
      case calls_in_turn (report_calls (hw_path w) (report_text (hw_state w))) (snd x) of (r, fs) \<Rightarrow> (r, w, fs))"

definition Snapshot_health :: "health_writer \<Rightarrow> report" where
  "Snapshot_health w = hw_state w"

section \<open>Runs with ends in between\<close>

text \<open>A process that updates, one that ends within an update, and a new one.\<close>

datatype health_event = Updates "report \<Rightarrow> report" time | EndsIn nat "report \<Rightarrow> report" time | Begins string time

definition health_step :: "string \<Rightarrow> health_event \<Rightarrow> health_writer \<times> files \<Rightarrow> health_writer \<times> files" where
  "health_step dir e x =
     (case e of
        Updates f now \<Rightarrow> snd (Update_health f now x)
      | EndsIn k f now \<Rightarrow>
          (let w = changed_report f now (fst x) in
           (w, snd (calls_in_turn (take k (report_calls (hw_path w) (report_text (hw_state w)))) (snd x))))
      | Begins version now \<Rightarrow> (New_health dir version now, snd x))"

text \<open>The texts that were there to be written.\<close>

fun health_run :: "string \<Rightarrow> health_event list \<Rightarrow> (health_writer \<times> files) \<times> string set \<Rightarrow> (health_writer \<times> files) \<times> string set" where
  "health_run dir [] s = s"
| "health_run dir (e # es) (x, texts) =
     (let y = health_step dir e x in health_run dir es (y, insert (report_text (hw_state (fst y))) texts))"

section \<open>The file is always a whole report\<close>

definition health_ok :: "location \<Rightarrow> (health_writer \<times> files) \<times> string set \<Rightarrow> bool" where
  "health_ok d s \<longleftrightarrow> real_dir (snd (fst s)) d \<and> hw_path (fst (fst s)) = entry d ''health.json''
     \<and> is_plain_file (node_at (snd (fst s)) (d @ [''health.json.tmp'']))
     \<and> (\<forall>n. node_at (snd (fst s)) (d @ [''health.json'']) = Some n \<longrightarrow> (\<exists>t \<in> snd s. n = RegularFile t))"

lemma health_names: "plain_name ''health.json''" "plain_name ''health.json.tmp''"
  by code_simp+

lemma temporary_entry: "temporary (entry d ''health.json'') = entry d ''health.json.tmp''"
  by (simp add: temporary_def entry_suffix)

text \<open>The three calls, where nothing is in the way.\<close>

lemma report_calls_do:
  fixes b :: string
  assumes "real_dir fs d" and "is_plain_file (node_at fs (d @ [''health.json.tmp'']))" and "is_plain_file (node_at fs (d @ [''health.json'']))"
  defines "fs1 \<equiv> put (d @ [''health.json.tmp'']) (RegularFile b) fs"
  defines "fs2 \<equiv> move (d @ [''health.json.tmp'']) (d @ [''health.json'']) fs1"
  shows "calls_in_turn (take k (report_calls (entry d ''health.json'') b)) fs = (Inr (), if k \<le> 1 then fs else if k = 2 then fs1 else fs2)"
    "real_dir fs1 d" "real_dir fs2 d"
    "node_at fs1 (d @ [''health.json.tmp'']) = Some (RegularFile b)" "node_at fs1 (d @ [''health.json'']) = node_at fs (d @ [''health.json''])"
    "node_at fs2 (d @ [''health.json.tmp'']) = None" "node_at fs2 (d @ [''health.json'']) = Some (RegularFile b)"
proof -
  have made: "MkdirAll (Dir (entry d ''health.json'')) fs = (Inr (), fs)"
    using MkdirAll_there [OF assms(1)] Dir_entry [OF assms(1) health_names(1)] by simp
  have written: "WriteFile (entry d ''health.json.tmp'') b fs = (Inr (), fs1)"
    using WriteFile_entry [OF assms(1) health_names(2) assms(2)] by (simp add: fs1_def)
  show fs1: "real_dir fs1 d" "node_at fs1 (d @ [''health.json.tmp'']) = Some (RegularFile b)" "node_at fs1 (d @ [''health.json'']) = node_at fs (d @ [''health.json''])"
    using assms(1) by (simp_all add: fs1_def real_dir_put node_at_put)
  have moved: "Rename (entry d ''health.json.tmp'') (entry d ''health.json'') fs1 = (Inr (), fs2)"
    using Rename_entry [OF fs1(1) health_names(2,1) _ fs1(2)] fs1(3) not_link [OF assms(3)] by (simp add: fs2_def)
  show "real_dir fs2 d" "node_at fs2 (d @ [''health.json.tmp'']) = None" "node_at fs2 (d @ [''health.json'']) = Some (RegularFile b)"
    using fs1 by (simp_all add: fs2_def real_dir_moved node_at_moved_new node_at_moved_old)
  consider "k = 0" | "k = 1" | "k = 2" | m where "k = Suc (Suc (Suc m))" by (metis One_nat_def Suc_1 not0_implies_Suc)
  then show "calls_in_turn (take k (report_calls (entry d ''health.json'') b)) fs = (Inr (), if k \<le> 1 then fs else if k = 2 then fs1 else fs2)"
    by cases (simp_all add: report_calls_def temporary_entry made written moved numeral_2_eq_2)
qed

lemma health_calls_keep:
  assumes "health_ok d ((w, fs), texts)"
  shows "\<exists>fs'. calls_in_turn (take k (report_calls (hw_path w) b)) fs = (Inr (), fs') \<and> health_ok d ((w, fs'), insert b texts)
    \<and> (3 \<le> k \<longrightarrow> node_at fs' (d @ [''health.json'']) = Some (RegularFile b))"
proof -
  have ok: "real_dir fs d" "is_plain_file (node_at fs (d @ [''health.json.tmp'']))" "hw_path w = entry d ''health.json''"
    and old: "\<forall>n. node_at fs (d @ [''health.json'']) = Some n \<longrightarrow> (\<exists>t \<in> texts. n = RegularFile t)"
    using assms by (simp_all add: health_ok_def)
  have plain: "is_plain_file (node_at fs (d @ [''health.json'']))" using old by (auto simp: is_plain_file_def split: option.split)
  note calls = report_calls_do [where b = b, OF ok(1,2) plain]
  let ?fs1 = "put (d @ [''health.json.tmp'']) (RegularFile b) fs"
  let ?fs2 = "move (d @ [''health.json.tmp'']) (d @ [''health.json'']) ?fs1"
  have "health_ok d ((w, fs), insert b texts)" using ok old by (auto simp: health_ok_def)
  moreover have "health_ok d ((w, ?fs1), insert b texts)"
    unfolding health_ok_def fst_conv snd_conv using calls(2,4,5) ok(3) old by (auto simp: is_plain_file_def)
  moreover have "health_ok d ((w, ?fs2), insert b texts)"
    unfolding health_ok_def fst_conv snd_conv using calls(3,6,7) ok(3) by (auto simp: is_plain_file_def)
  ultimately show ?thesis using calls(1,7) ok(3)
    by (intro exI [of _ "if k \<le> 1 then fs else if k = 2 then ?fs1 else ?fs2"]) simp
qed

lemma all_calls: "take 3 (report_calls p b) = report_calls p b"
  by (simp add: report_calls_def)

lemma health_step_keeps:
  assumes "health_ok d (x, texts)" and "real_dir (snd x) d"
  shows "health_ok d (health_step (abs_path d) e x, insert (report_text (hw_state (fst (health_step (abs_path d) e x)))) texts)"
proof (cases e)
  case (Updates f now)
  have "health_ok d ((changed_report f now (fst x), snd x), texts)" using assms(1) by (simp add: health_ok_def changed_report_def)
  from health_calls_keep [OF this, of 3 "report_text (hw_state (changed_report f now (fst x)))"] show ?thesis
    by (auto simp: Updates health_step_def Update_health_def Let_def all_calls)
next
  case (EndsIn k f now)
  have "health_ok d ((changed_report f now (fst x), snd x), texts)" using assms(1) by (simp add: health_ok_def changed_report_def)
  from health_calls_keep [OF this, of k "report_text (hw_state (changed_report f now (fst x)))"] show ?thesis
    by (auto simp: EndsIn health_step_def Let_def)
next
  case (Begins version now)
  then show ?thesis using assms Join_entry [OF assms(2) health_names(1)]
    by (auto simp: health_step_def health_ok_def New_health_def)
qed

lemma health_run_keeps: "health_ok d (x, texts) \<Longrightarrow> health_ok d (health_run (abs_path d) es (x, texts))"
proof (induction es arbitrary: x texts)
  case (Cons e es)
  have "real_dir (snd x) d" using Cons.prems by (simp add: health_ok_def)
  from health_step_keeps [OF Cons.prems this, of e] Cons.IH show ?case by (simp add: Let_def)
qed simp


definition demo_health_events :: "health_event list" where
  "demo_health_events = [Updates (hr_status_update (\<lambda>_. ''running'')) 1, EndsIn 2 (hr_messages_update (\<lambda>n. n + 1)) 2, Begins ''2'' 3]"


lemma health_example:
  "ReadFile (snd (fst (health_run ''/'' demo_health_events ((New_health ''/'' ''1'' 0, []), {})))) ''/health.json''
     = Inr (report_text \<lparr>hr_started = 0, hr_updated = 1, hr_status = ''running'', hr_version = ''1'', hr_update_id = 0, hr_messages = 0\<rparr>)"
  by code_simp

end
