(* ===== verification/Singleton.thy ===== *)
theory Singleton
  imports JsonRead FilesIn
begin

text \<open>
  Package \<open>internal/security\<close>, \<open>singleton.go\<close>: the lock that keeps a second process out, a directory with a
  file that names its holder. Any number of processes share the file system; every call of the system is one
  step of one process, in any order. \<open>os.RemoveAll\<close> is one step, and a signal reaches a process iff it is alive.
\<close>

section \<open>State\<close>

text \<open>Where a process is in \<open>Acquire\<close>: before which of its calls, or after it.\<close>

datatype lock_pc = Idle | MakingData | MakingLock | NamingHolder | ReadingHolder | JudgingHolder int | RemovingLock
  | MakingAgain | NamingAgain | Holding | Refused int | LockFailed | Released

record lock_run =
  lr_files :: files
  lr_alive :: "nat \<Rightarrow> bool"
  lr_at :: "nat \<Rightarrow> lock_pc"

definition RemoveAll :: "string \<Rightarrow> files \<Rightarrow> files" where
  "RemoveAll p fs = (case locate fs Entry p of Inl _ \<Rightarrow> fs | Inr l \<Rightarrow> filter (\<lambda>e. \<not> prefix l (fst e)) fs)"

definition lock_dir :: "string \<Rightarrow> string" where
  "lock_dir data = Join data ''runtime.lock''"

definition holder_file :: "string \<Rightarrow> string" where
  "holder_file data = Join (lock_dir data) ''pid''"

definition Itoa :: "nat \<Rightarrow> string" where
  "Itoa n = format_int (int n)"

section \<open>Steps\<close>

text \<open>The next call of process \<open>p\<close>: the files after it and where the process is then.\<close>

definition holder_in :: "string \<Rightarrow> files \<Rightarrow> int" where
  "holder_in data fs = fst (Atoi (case ReadFile fs (holder_file data) of Inl _ \<Rightarrow> [] | Inr b \<Rightarrow> b))"

definition signalled :: "(nat \<Rightarrow> bool) \<Rightarrow> int \<Rightarrow> bool" where
  "signalled alive pid \<longleftrightarrow> pid > 0 \<and> alive (nat pid)"

definition acquire_step :: "string \<Rightarrow> nat \<Rightarrow> (nat \<Rightarrow> bool) \<Rightarrow> lock_pc \<Rightarrow> files \<Rightarrow> files \<times> lock_pc" where
  "acquire_step data p alive pc fs =
     (case pc of
        MakingData \<Rightarrow> (case MkdirAll data fs of (r, fs') \<Rightarrow> (fs', if is_ok r then MakingLock else LockFailed))
      | MakingLock \<Rightarrow> (case make_new (lock_dir data) Folder fs of (r, fs') \<Rightarrow> (fs', if is_ok r then NamingHolder else ReadingHolder))
      | NamingHolder \<Rightarrow>
          (case WriteFile (holder_file data) (Itoa p) fs of
             (r, fs') \<Rightarrow> if is_ok r then (fs', Holding) else (RemoveAll (lock_dir data) fs', LockFailed))
      | ReadingHolder \<Rightarrow> (fs, JudgingHolder (holder_in data fs))
      | JudgingHolder pid \<Rightarrow> (fs, if signalled alive pid then Refused pid else RemovingLock)
      | RemovingLock \<Rightarrow> (RemoveAll (lock_dir data) fs, MakingAgain)
      | MakingAgain \<Rightarrow> (case make_new (lock_dir data) Folder fs of (r, fs') \<Rightarrow> (fs', if is_ok r then NamingAgain else LockFailed))
      | NamingAgain \<Rightarrow> (snd (WriteFile (holder_file data) (Itoa p) fs), Holding)
      | _ \<Rightarrow> (fs, pc))"

text \<open>
  What can happen: a process starts to acquire the lock, makes its next call, releases the lock it holds, or ends
  without a word.
\<close>

datatype lock_event = Start nat | Call nat | Release nat | Die nat

fun lock_step :: "string \<Rightarrow> lock_event \<Rightarrow> lock_run \<Rightarrow> lock_run" where
  "lock_step data (Start p) s = (if lr_at s p = Idle then s\<lparr>lr_alive := (lr_alive s)(p := True), lr_at := (lr_at s)(p := MakingData)\<rparr> else s)"
| "lock_step data (Call p) s =
     (if lr_alive s p
      then (case acquire_step data p (lr_alive s) (lr_at s p) (lr_files s) of
              (fs, pc) \<Rightarrow> s\<lparr>lr_files := fs, lr_at := (lr_at s)(p := pc)\<rparr>)
      else s)"
| "lock_step data (Release p) s =
     (if lr_alive s p \<and> lr_at s p = Holding
      then s\<lparr>lr_files := RemoveAll (lock_dir data) (lr_files s), lr_at := (lr_at s)(p := Released)\<rparr> else s)"
| "lock_step data (Die p) s = s\<lparr>lr_alive := (lr_alive s)(p := False)\<rparr>"

definition lock_run_of :: "string \<Rightarrow> lock_event list \<Rightarrow> lock_run \<Rightarrow> lock_run" where
  "lock_run_of data es s = fold (lock_step data) es s"

definition fresh_run :: "files \<Rightarrow> lock_run" where
  "fresh_run fs = \<lparr>lr_files = fs, lr_alive = (\<lambda>_. False), lr_at = (\<lambda>_. Idle)\<rparr>"

section \<open>A lock that is held stays held\<close>

lemma lock_names: "plain_name ''runtime.lock''" "plain_name ''pid''"
  by code_simp+

lemma lock_paths:
  assumes "real_dir fs d"
  shows "lock_dir (abs_path d) = entry d ''runtime.lock''" "holder_file (abs_path d) = entry (d @ [''runtime.lock'']) ''pid''"
proof -
  note names = lock_names
  show dir: "lock_dir (abs_path d) = entry d ''runtime.lock''" using Join_entry [OF assms names(1)] by (simp add: lock_dir_def)
  have plain: "\<forall>e \<in> set (d @ [''runtime.lock'']). plain_name e" using assms names(1) by (auto simp: real_dir_def)
  have "\<forall>e \<in> set ((d @ [''runtime.lock'']) @ [''pid'']). plain_name e" using plain names(2) by auto
  have "abs_elements (abs_path (d @ [''runtime.lock'']) @ ''/'' @ ''pid'') = (d @ [''runtime.lock'']) @ [''pid'']"
    using plain names(2) by (simp add: abs_elements_def path_elements_append [simplified] abs_path_elements path_elements_name plain_name_def clean_plain)
  then show "holder_file (abs_path d) = entry (d @ [''runtime.lock'']) ''pid''"
    by (simp add: holder_file_def dir Join_def Clean_rooted rooted_append [simplified] entry_def) (simp add: abs_path_def)
qed

text \<open>The directory is there, and its file names the holder.\<close>

definition held_by :: "location \<Rightarrow> nat \<Rightarrow> files \<Rightarrow> bool" where
  "held_by d h fs \<longleftrightarrow> real_dir fs d \<and> node_at fs (d @ [''runtime.lock'']) = Some Folder
     \<and> node_at fs (d @ [''runtime.lock'', ''pid'']) = Some (RegularFile (Itoa h))"

definition possible_pid :: "nat \<Rightarrow> bool" where
  "possible_pid p \<longleftrightarrow> 0 < p \<and> int p \<le> max_int64"

lemma held_holder: "held_by d h fs \<Longrightarrow> possible_pid h \<Longrightarrow> holder_in (abs_path d) fs = int h"
proof -
  assume h: "held_by d h fs" "possible_pid h"
  then have d: "real_dir fs d" and lock: "real_dir fs (d @ [''runtime.lock''])"
    using lock_names(1) by (simp_all add: held_by_def real_dir_snoc)
  have "ReadFile fs (holder_file (abs_path d)) = Inr (Itoa h)"
    using ReadFile_entry [OF lock lock_names(2)] h(1) lock_paths(2) [OF d] by (simp add: held_by_def is_plain_file_def)
  then show ?thesis using h(2) Atoi_format [of "int h"]
    by (simp add: holder_in_def Itoa_def possible_pid_def min_int64_def)
qed

text \<open>How far a process comes that finds the lock held.\<close>

definition kept_out :: "nat \<Rightarrow> lock_pc \<Rightarrow> bool" where
  "kept_out h pc \<longleftrightarrow> pc \<in> {Idle, MakingData, MakingLock, ReadingHolder, JudgingHolder (int h), Refused (int h), LockFailed, Released}"

lemma kept_out_step:
  assumes "held_by d h fs" and "possible_pid h" and "alive h" and "kept_out h pc"
  shows "fst (acquire_step (abs_path d) p alive pc fs) = fs \<and> kept_out h (snd (acquire_step (abs_path d) p alive pc fs))"
proof -
  have d: "real_dir fs d" using assms(1) by (simp add: held_by_def)
  have "make_new (lock_dir (abs_path d)) Folder fs = (Inl AlreadyExists, fs)"
    using make_new_entry [OF d lock_names(1)] assms(1) lock_paths(1) [OF d] by (simp add: held_by_def)
  moreover have "signalled alive (int h)" using assms(2,3) by (simp add: signalled_def possible_pid_def)
  ultimately show ?thesis using assms(4) MkdirAll_there [OF d] held_holder [OF assms(1,2)]
    by (auto simp: acquire_step_def kept_out_def)
qed

definition excluded :: "location \<Rightarrow> nat \<Rightarrow> lock_run \<Rightarrow> bool" where
  "excluded d h s \<longleftrightarrow> held_by d h (lr_files s) \<and> lr_alive s h \<and> lr_at s h = Holding \<and> (\<forall>p. p \<noteq> h \<longrightarrow> kept_out h (lr_at s p))"

lemma excluded_step:
  assumes "excluded d h s" and "possible_pid h" and "e \<noteq> Release h" and "e \<noteq> Die h"
  shows "excluded d h (lock_step (abs_path d) e s)"
proof (cases e)
  case (Start p)
  then show ?thesis using assms(1) by (auto simp: excluded_def kept_out_def)
next
  case (Call p)
  show ?thesis
  proof (cases "p = h")
    case True
    then show ?thesis using assms(1) Call by (auto simp: excluded_def acquire_step_def)
  next
    case False
    then have "fst (acquire_step (abs_path d) p (lr_alive s) (lr_at s p) (lr_files s)) = lr_files s
        \<and> kept_out h (snd (acquire_step (abs_path d) p (lr_alive s) (lr_at s p) (lr_files s)))"
      using assms(1,2) by (intro kept_out_step) (auto simp: excluded_def)
    then show ?thesis using assms(1) Call False by (auto simp: excluded_def split: prod.split)
  qed
next
  case (Release p)
  then have "lr_at s p \<noteq> Holding" using assms(1,3) by (auto simp: excluded_def kept_out_def)
  then show ?thesis using assms(1) Release by simp
next
  case (Die p)
  then show ?thesis using assms(1,4) by (auto simp: excluded_def)
qed



section \<open>Runs\<close>

text \<open>Alone, a process gets the lock, and one whose holder is dead is taken over.\<close>

definition demo_lock :: lock_run where
  "demo_lock = lock_run_of ''/d'' [Start 7, Call 7, Call 7, Call 7] (fresh_run [])"

text \<open>What a process does changes only its own place.\<close>

fun actor :: "lock_event \<Rightarrow> nat" where
  "actor (Start p) = p"
| "actor (Call p) = p"
| "actor (Release p) = p"
| "actor (Die p) = p"

lemma bystander: "p \<notin> actor ` set es \<Longrightarrow> lr_at (lock_run_of data es s) p = lr_at s p"
  unfolding lock_run_of_def
proof (induction es arbitrary: s)
  case (Cons e es)
  then have "lr_at (lock_step data e s) p = lr_at s p" by (cases e) (auto split: prod.split)
  with Cons show ?case by simp
qed simp

lemma demo_excluded: "excluded [''d''] 7 demo_lock"
proof -
  have "lr_at demo_lock p = Idle" if "p \<noteq> 7" for p
    unfolding demo_lock_def using bystander [of p] that by (simp add: fresh_run_def)
  moreover have "node_at (lr_files demo_lock) [''d''] = Some Folder" "node_at (lr_files demo_lock) [''d'', ''runtime.lock''] = Some Folder"
    "node_at (lr_files demo_lock) [''d'', ''runtime.lock'', ''pid''] = Some (RegularFile (Itoa 7))" "lr_alive demo_lock 7" "lr_at demo_lock 7 = Holding"
    "plain_name ''d''"
    by code_simp+
  ultimately show ?thesis by (simp add: excluded_def held_by_def kept_out_def real_dir_snoc [of _ "[]", simplified])
qed


lemma lock_runs:
  "lr_at demo_lock 7 = Holding"
  "lr_at (lock_run_of ''/d'' (Start 8 # replicate 4 (Call 8)) demo_lock) 8 = Refused 7"
  "lr_at (lock_run_of ''/d'' (Die 7 # Start 8 # replicate 7 (Call 8)) demo_lock) 8 = Holding"
  "lr_at (lock_run_of ''/d'' (Release 7 # Start 8 # replicate 3 (Call 8)) demo_lock) 8 = Holding"
  by code_simp+

section \<open>Alone\<close>

text \<open>Every entry lies in a directory.\<close>

definition tree :: "files \<Rightarrow> bool" where
  "tree fs \<longleftrightarrow> (\<forall>l n. node_at fs (l @ [n]) \<noteq> None \<longrightarrow> node_at fs l = Some Folder)"

lemma tree_absent: "tree fs \<Longrightarrow> node_at fs l = None \<Longrightarrow> node_at fs (l @ [n]) = None"
  unfolding tree_def by fastforce

text \<open>A process on its own makes at most seven calls: it is refused by a live holder, or it has the lock.\<close>

definition acquire_alone :: "string \<Rightarrow> nat \<Rightarrow> (nat \<Rightarrow> bool) \<Rightarrow> files \<Rightarrow> files \<times> lock_pc" where
  "acquire_alone data p alive fs = ((\<lambda>(fs, pc). acquire_step data p alive pc fs) ^^ 7) (fs, MakingData)"

lemma naming_holds:
  fixes p :: nat
  assumes "real_dir fs d" and "node_at fs (d @ [''runtime.lock'']) = None" and "node_at fs (d @ [''runtime.lock'', ''pid'']) = None"
  defines "fs1 \<equiv> put (d @ [''runtime.lock'']) Folder fs"
  defines "fs2 \<equiv> put (d @ [''runtime.lock'', ''pid'']) (RegularFile (Itoa p)) fs1"
  shows "make_new (lock_dir (abs_path d)) Folder fs = (Inr (), fs1)" "WriteFile (holder_file (abs_path d)) (Itoa p) fs1 = (Inr (), fs2)" "held_by d p fs2"
    "\<forall>k. \<not> prefix (d @ [''runtime.lock'']) k \<longrightarrow> node_at fs2 k = node_at fs k"
proof -
  show "\<forall>k. \<not> prefix (d @ [''runtime.lock'']) k \<longrightarrow> node_at fs2 k = node_at fs k" by (auto simp: fs2_def fs1_def node_at_put)
  note paths = lock_paths [OF assms(1)]
  show "make_new (lock_dir (abs_path d)) Folder fs = (Inr (), fs1)"
    using make_new_entry [OF assms(1) lock_names(1)] assms(2) by (simp add: paths fs1_def)
  have dir: "real_dir fs1 d" "real_dir fs1 (d @ [''runtime.lock''])"
    using assms(1) lock_names(1) by (simp_all add: fs1_def real_dir_put real_dir_snoc node_at_put)
  have "node_at fs1 ((d @ [''runtime.lock'']) @ [''pid'']) = None" using assms(3) by (simp add: fs1_def node_at_put)
  with WriteFile_entry [OF dir(2) lock_names(2)] show "WriteFile (holder_file (abs_path d)) (Itoa p) fs1 = (Inr (), fs2)"
    by (simp add: paths fs2_def is_plain_file_def)
  have "real_dir fs2 d" using dir(1) by (rule real_dir_same) (auto simp: fs2_def node_at_put)
  then show "held_by d p fs2" by (simp add: held_by_def fs2_def fs1_def node_at_put)
qed

lemma node_at_RemoveAll:
  assumes "real_dir fs d" and "plain_name n"
  shows "node_at (RemoveAll (entry d n) fs) k = (if prefix (d @ [n]) k then None else node_at fs k)"
proof -
  have "RemoveAll (entry d n) fs = filter (\<lambda>e. \<not> prefix (d @ [n]) (fst e)) fs"
    using locate_entry [OF assms, of Entry] by (simp add: RemoveAll_def)
  moreover have "node_at (filter (\<lambda>e. \<not> prefix (d @ [n]) (fst e)) fs) k = (if prefix (d @ [n]) k then None else node_at fs k)"
    by (induction fs) (auto simp: node_at_def)
  ultimately show ?thesis by simp
qed

lemma acquire_alone_result:
  assumes "real_dir fs d" and "tree fs" and "acquire_alone (abs_path d) p alive fs = (fs', pc)"
  shows "pc = Holding \<and> held_by d p fs' \<and> (\<forall>k. \<not> prefix (d @ [''runtime.lock'']) k \<longrightarrow> node_at fs' k = node_at fs k) \<or> (\<exists>n. pc = Refused n \<and> signalled alive n \<and> fs' = fs)"
proof -
  have seven: "(f ^^ 7) x = f (f (f (f (f (f (f x))))))" for f :: "'x \<Rightarrow> 'x" and x by (simp add: numeral_eq_Suc)
  note paths = lock_paths [OF assms(1)]
  show ?thesis
  proof (cases "node_at fs (d @ [''runtime.lock''])")
    case None
    then have "node_at fs (d @ [''runtime.lock'', ''pid'']) = None" using tree_absent [OF assms(2) None, of "''pid''"] by simp
    note alone = naming_holds(1) [OF assms(1) None this] naming_holds(2,3,4) [where p = p, OF assms(1) None this]
    with assms(3) MkdirAll_there [OF assms(1)] show ?thesis by (auto simp: acquire_alone_def seven acquire_step_def)
  next
    case (Some n)
    let ?fs1 = "RemoveAll (lock_dir (abs_path d)) fs"
    have made: "make_new (lock_dir (abs_path d)) Folder fs = (Inl AlreadyExists, fs)"
      using make_new_entry [OF assms(1) lock_names(1)] Some by (simp add: paths)
    have gone: "real_dir ?fs1 d" "node_at ?fs1 (d @ [''runtime.lock'']) = None" "node_at ?fs1 (d @ [''runtime.lock'', ''pid'']) = None"
      using real_dir_same [OF assms(1), of ?fs1] node_at_RemoveAll [OF assms(1) lock_names(1)] by (simp_all add: paths not_below)
    have same: "\<forall>k. \<not> prefix (d @ [''runtime.lock'']) k \<longrightarrow> node_at ?fs1 k = node_at fs k"
      using node_at_RemoveAll [OF assms(1) lock_names(1)] by (simp add: paths)
    note again = naming_holds(1) [OF gone] naming_holds(2,3,4) [where p = p, OF gone]
    show ?thesis
    proof (cases "signalled alive (holder_in (abs_path d) fs)")
      case True
      with assms(3) MkdirAll_there [OF assms(1)] made show ?thesis by (auto simp: acquire_alone_def seven acquire_step_def)
    next
      case False
      with assms(3) MkdirAll_there [OF assms(1)] made again(1,2)
      have "pc = Holding" "fs' = put (d @ [''runtime.lock'', ''pid'']) (RegularFile (Itoa p)) (put (d @ [''runtime.lock'']) Folder ?fs1)"
        by (auto simp: acquire_alone_def seven acquire_step_def)
      with again(3,4) same show ?thesis by simp
    qed
  qed
qed

end
