(* ===== verification/Backup.thy ===== *)
theory Backup
  imports FilesIn
begin

text \<open>
  Package \<open>internal/storage\<close>, \<open>maintenance.go\<close>: the backup of the database into a new file and its way back.
  What SQLite makes of a file (\<open>PRAGMA integrity_check\<close>, the rows of \<open>schema_migrations\<close>) is an argument, and so
  is what \<open>VACUUM INTO\<close> writes. Modes and \<open>fsync\<close> are left out.
\<close>

section \<open>State and errors\<close>

record sqlite =
  sq_check :: "string \<Rightarrow> string option"
  sq_version :: "string \<Rightarrow> int \<Rightarrow> nat option"

record live_db =
  lv_check :: "string option"
  lv_checkpoint :: bool
  lv_dump :: string
  lv_dumped :: bool

datatype backup_error = DestinationNotAbsolute | DestinationExists node | ParentNotDirectory | NotRegularFile | InvalidPath
  | BackupOs os_error | DatabaseFailed | IntegrityFailed | MigrationMissing int | BackupTooLarge

definition IntegrityCheck :: "live_db \<Rightarrow> (backup_error, unit) result" where
  "IntegrityCheck lv =
     (case lv_check lv of None \<Rightarrow> Inl DatabaseFailed | Some r \<Rightarrow> if r \<noteq> ''ok'' then Inl IntegrityFailed else Inr ())"

section \<open>Paths\<close>

definition safeNewDestination :: "files \<Rightarrow> string \<Rightarrow> (backup_error, string) result" where
  "safeNewDestination fs path =
     (if path = [] \<or> \<not> rooted path then Inl DestinationNotAbsolute
      else
        (let absolute = Clean path in
         case Lstat fs absolute of
           Inr n \<Rightarrow> Inl (DestinationExists n)
         | Inl e \<Rightarrow>
             if e \<noteq> NotExist then Inl (BackupOs e)
             else (case EvalSymlinks fs (Dir absolute) of
                     Inl e \<Rightarrow> Inl (BackupOs e)
                   | Inr parent \<Rightarrow>
                       if Stat fs parent = Inr Folder then Inr (Join parent (Base absolute)) else Inl ParentNotDirectory)))"

definition regularFile :: "files \<Rightarrow> string \<Rightarrow> (backup_error, string) result" where
  "regularFile fs path =
     (let absolute = Abs path in
      case Lstat fs absolute of
        Inr (RegularFile _) \<Rightarrow>
          (case EvalSymlinks fs absolute of
             Inl e \<Rightarrow> Inl (BackupOs e)
           | Inr resolved \<Rightarrow> if has_nul resolved then Inl InvalidPath else Inr resolved)
      | _ \<Rightarrow> Inl NotRegularFile)"

section \<open>Verification\<close>

definition check_content :: "sqlite \<Rightarrow> string \<Rightarrow> (backup_error, unit) result" where
  "check_content sq c =
     (case sq_check sq c of
        None \<Rightarrow> Inl DatabaseFailed
      | Some r \<Rightarrow>
          if r \<noteq> ''ok'' then Inl IntegrityFailed
          else (case find (\<lambda>v. sq_version sq c v \<noteq> Some 1) [1, 2, 3, 4, 5] of
                  None \<Rightarrow> Inr ()
                | Some v \<Rightarrow> Inl (MigrationMissing v)))"

definition VerifyBackup :: "sqlite \<Rightarrow> string \<Rightarrow> files \<Rightarrow> (backup_error, unit) result" where
  "VerifyBackup sq path fs =
     and_then (regularFile fs path) (\<lambda>p.
       case ReadFile fs p of Inl _ \<Rightarrow> Inl DatabaseFailed | Inr c \<Rightarrow> check_content sq c)"

section \<open>Backup\<close>

text \<open>SQLite writes into a file only if it is new or empty; an error may leave a part of it there.\<close>

definition vacuum_into :: "live_db \<Rightarrow> string \<Rightarrow> files \<Rightarrow> bool \<times> files" where
  "vacuum_into lv p fs =
     (case ReadFile fs p of
        Inr (c # r) \<Rightarrow> (False, fs)
      | _ \<Rightarrow> (case WriteFile p (lv_dump lv) fs of (r, fs') \<Rightarrow> (is_ok r \<and> lv_dumped lv, fs')))"

definition partial :: "string \<Rightarrow> string" where
  "partial p = p @ ''.partial''"

definition os_result :: "(os_error, 'a) result \<times> files \<Rightarrow> (backup_error, 'a) result \<times> files" where
  "os_result r = (case r of (Inl e, fs) \<Rightarrow> (Inl (BackupOs e), fs) | (Inr x, fs) \<Rightarrow> (Inr x, fs))"

definition fill_backup :: "sqlite \<Rightarrow> live_db \<Rightarrow> string \<Rightarrow> files \<Rightarrow> (backup_error, unit) result \<times> files" where
  "fill_backup sq lv p fs =
     (if \<not> lv_checkpoint lv then (Inl DatabaseFailed, fs)
      else case vacuum_into lv (partial p) fs of
             (done', fs1) \<Rightarrow>
               if \<not> done' then (Inl DatabaseFailed, fs1)
               else (case VerifyBackup sq (partial p) fs1 of
                       Inl e \<Rightarrow> (Inl e, fs1)
                     | Inr _ \<Rightarrow> os_result (Rename (partial p) p fs1)))"

definition Backup :: "sqlite \<Rightarrow> live_db \<Rightarrow> string \<Rightarrow> files \<Rightarrow> (backup_error, unit) result \<times> files" where
  "Backup sq lv destination fs =
     (case safeNewDestination fs destination of
        Inl e \<Rightarrow> (Inl e, fs)
      | Inr p \<Rightarrow>
          (case fill_backup sq lv p (snd (Remove_file (partial p) fs)) of
             (r, fs1) \<Rightarrow> (r, snd (Remove_file (partial p) fs1))))"

section \<open>Restore\<close>

definition restore_limit :: int where
  "restore_limit = 2 * 1024 * 1024 * 1024"

definition copy_limited :: "string \<Rightarrow> string" where
  "copy_limited c = (if int (length c) > restore_limit + 1 then take (nat (restore_limit + 1)) c else c)"

definition fill_restore :: "sqlite \<Rightarrow> string \<Rightarrow> string \<Rightarrow> files \<Rightarrow> (backup_error, unit) result \<times> files" where
  "fill_restore sq c p fs =
     (case WriteFile (partial p) (copy_limited c) fs of
        (_, fs1) \<Rightarrow>
          if int (length (copy_limited c)) > restore_limit then (Inl BackupTooLarge, fs1)
          else (case VerifyBackup sq (partial p) fs1 of
                  Inl e \<Rightarrow> (Inl e, fs1)
                | Inr _ \<Rightarrow> os_result (Rename (partial p) p fs1)))"

definition RestoreBackup :: "sqlite \<Rightarrow> string \<Rightarrow> string \<Rightarrow> files \<Rightarrow> (backup_error, unit) result \<times> files" where
  "RestoreBackup sq backup destination fs =
     (case VerifyBackup sq backup fs of
        Inl e \<Rightarrow> (Inl e, fs)
      | Inr _ \<Rightarrow>
          (case regularFile fs backup of
             Inl e \<Rightarrow> (Inl e, fs)
           | Inr source \<Rightarrow>
               (case safeNewDestination fs destination of
                  Inl e \<Rightarrow> (Inl e, fs)
                | Inr p \<Rightarrow>
                    (case ReadFile fs source of
                       Inl e \<Rightarrow> (Inl (BackupOs e), fs)
                     | Inr c \<Rightarrow>
                         (case make_new (partial p) (RegularFile []) fs of
                            (Inl e, fs1) \<Rightarrow> (Inl (BackupOs e), fs1)
                          | (Inr _, fs1) \<Rightarrow>
                              (case fill_restore sq c p fs1 of
                                 (Inr x, fs2) \<Rightarrow> (Inr x, fs2)
                               | (Inl e, fs2) \<Rightarrow> (Inl e, snd (Remove_file (partial p) fs2))))))))"

section \<open>A new destination\<close>

lemma partial_entry: "partial (entry d b) = entry d (partial b)"
  by (simp add: partial_def entry_suffix)

lemma partial_plain: "plain_name b \<Longrightarrow> plain_name (partial b) \<and> partial b \<noteq> b"
proof -
  assume b: "plain_name b"
  have "length (partial b) = length b + 8" by (simp add: partial_def)
  then have "partial b \<noteq> ''.''" "partial b \<noteq> ''..''" "partial b \<noteq> b" by (auto dest!: arg_cong [where f = length])
  with b show ?thesis by (simp add: plain_name_def) (simp add: partial_def)
qed

section \<open>A new destination is new\<close>

lemma new_destination:
  assumes "safeNewDestination fs path = Inr p"
  shows "\<exists>d b. p = entry d b \<and> real_dir fs d \<and> plain_name b \<and> node_at fs (d @ [b]) = None"
proof -
  let ?es = "abs_elements path"
  have rooted: "rooted path" and absent: "Lstat fs (abs_path ?es) = Inl NotExist"
    and parent: "\<exists>q. EvalSymlinks fs (Dir (abs_path ?es)) = Inr q \<and> Stat fs q = Inr Folder \<and> p = Join q (Base (abs_path ?es))"
    using assms by (auto simp: safeNewDestination_def Let_def Clean_rooted split: if_splits sum.splits)
  have plain: "\<forall>e \<in> set ?es. plain_name e" by (rule abs_elements_plain)
  have "?es \<noteq> []" using absent by (auto simp: Lstat_def node_of_def locate_def abs_path_def)
  then obtain ds b where es: "?es = ds @ [b]" by (metis rev_exhaust)
  have b: "plain_name b" "\<forall>e \<in> set ds. plain_name e" using plain es by simp_all
  have names: "path_elements (abs_path ?es) = ds @ [b]" "path_elements (abs_path ds) = ds"
    using plain b(2) es abs_path_elements by simp_all
  obtain d where d: "resolve fs Follow 255 [] ds = Inr d" "Stat fs (abs_path d) = Inr Folder" "p = Join (abs_path d) b"
    using parent es plain names by (auto simp: Dir_abs_path EvalSymlinks_def and_then_ok Base_def) (simp add: abs_path_def)
  have real: "real_dir fs d" using real_Stat [OF resolve_real [OF d(1)] d(2)] b(2) by (simp add: plain_name_def)
  have "node_at fs (d @ [b]) = None"
  proof (rule ccontr)
    assume there: "node_at fs (d @ [b]) \<noteq> None"
    obtain j where "resolve fs NoFollow 255 [] (ds @ [b]) = resolve fs NoFollow j d [b]" using resolve_split [OF d(1)] by blast
    also have "\<dots> = Inr (d @ [b])" using there real_dir_node [OF real] b(1) by (auto simp: plain_name_def split: node.split)
    finally have 255: "resolve fs NoFollow 255 [] (ds @ [b]) = Inr (d @ [b])" .
    show False
    proof (cases "resolve fs NoFollow 40 [] (ds @ [b]) = Inl TooManyLinks")
      case True
      with absent names show False by (simp add: Lstat_def node_of_def locate_def)
    next
      case False
      from resolve_more [OF refl False, of 255] 255 have "resolve fs NoFollow 40 [] (ds @ [b]) = Inr (d @ [b])" by simp
      with absent names there show False by (auto simp: Lstat_def node_of_def locate_def)
    qed
  qed
  with d(3) real b(1) Join_entry [OF real b(1)] show ?thesis by blast
qed

section \<open>What changes\<close>

text \<open>Two places may differ: the destination and the partial file beside it.\<close>

definition beside :: "location \<Rightarrow> string \<Rightarrow> files \<Rightarrow> files \<Rightarrow> bool" where
  "beside d b fs fs' \<longleftrightarrow> real_dir fs' d \<and> (\<forall>l. \<not> prefix (d @ [b]) l \<and> \<not> prefix (d @ [partial b]) l \<longrightarrow> node_at fs' l = node_at fs l)"

lemma beside_refl: "real_dir fs d \<Longrightarrow> beside d b fs fs"
  by (simp add: beside_def)

lemma beside_trans: "beside d b fs fs1 \<Longrightarrow> beside d b fs1 fs2 \<Longrightarrow> beside d b fs fs2"
  by (simp add: beside_def)

lemma beside_put: "real_dir fs d \<Longrightarrow> beside d b fs (put (d @ [partial b]) n fs)"
  by (auto simp: beside_def real_dir_put node_at_put)

lemma beside_move: "real_dir fs d \<Longrightarrow> beside d b fs (move (d @ [partial b]) (d @ [b]) fs)"
  by (simp add: beside_def real_dir_moved node_at_moved)

lemma siblings [simp]: "partial b \<noteq> b" "b \<noteq> partial b" "plain_name b \<Longrightarrow> plain_name (partial b)"
  using partial_plain [of b] by (auto simp: partial_def)

lemma remove_partial:
  assumes "real_dir fs d" and "plain_name b"
  defines "fs1 \<equiv> snd (Remove_file (entry d (partial b)) fs)"
  shows "beside d b fs fs1" "node_at fs1 (d @ [b]) = node_at fs (d @ [b])"
    "node_at fs1 (d @ [partial b]) = None \<or> node_at fs1 (d @ [partial b]) = Some Folder \<and> node_at fs (d @ [partial b]) = Some Folder"
  using assms(1,2) Remove_entry [OF assms(1), of "partial b"]
  by (auto simp: fs1_def beside_def node_at_dropped real_dir_dropped)

lemma WriteFile_partial:
  assumes "real_dir fs d" and "plain_name n" and "\<forall>t. node_at fs (d @ [n]) \<noteq> Some (Link t)"
  shows "WriteFile (entry d n) c fs =
    (if node_at fs (d @ [n]) = Some Folder then (Inl IsDirectory, fs) else (Inr (), put (d @ [n]) (RegularFile c) fs))"
  using locate_plain [OF assms, of Creating] by (simp add: WriteFile_def)

lemma Verify_entry:
  assumes "real_dir fs d" and "plain_name n" and "node_at fs (d @ [n]) = Some (RegularFile c)"
  shows "VerifyBackup sq (entry d n) fs = (if has_nul (entry d n) then Inl InvalidPath else check_content sq c)"
    "regularFile fs (entry d n) = (if has_nul (entry d n) then Inl InvalidPath else Inr (entry d n))"
proof -
  have "\<forall>e \<in> set (d @ [n]). plain_name e" using assms(1,2) by (auto simp: real_dir_def)
  then have "Abs (entry d n) = entry d n" by (simp add: Abs_def entry_def Clean_rooted abs_elements_abs_path)
  with assms show reg: "regularFile fs (entry d n) = (if has_nul (entry d n) then Inl InvalidPath else Inr (entry d n))"
    by (simp add: regularFile_def Lstat_entry EvalSymlinks_entry)
  show "VerifyBackup sq (entry d n) fs = (if has_nul (entry d n) then Inl InvalidPath else check_content sq c)"
    using assms by (simp add: VerifyBackup_def reg ReadFile_entry is_plain_file_def)
qed

text \<open>The partial file, once verified, becomes the destination.\<close>

lemma rename_partial:
  assumes "real_dir fs d" and "plain_name b" and "node_at fs (d @ [b]) = None" and "node_at fs (d @ [partial b]) = Some (RegularFile c)"
  defines "fs1 \<equiv> move (d @ [partial b]) (d @ [b]) fs"
  shows "os_result (Rename (entry d (partial b)) (entry d b) fs) = (Inr (), fs1)" "beside d b fs fs1"
    "node_at fs1 (d @ [b]) = Some (RegularFile c)" "node_at fs1 (d @ [partial b]) = None"
  using assms(1-4) Rename_entry [OF assms(1), of "partial b" b c]
  by (simp_all add: fs1_def os_result_def beside_move node_at_moved_new node_at_moved_old)

definition settled :: "sqlite \<Rightarrow> location \<Rightarrow> string \<Rightarrow> string \<Rightarrow> files \<Rightarrow> (backup_error, unit) result \<times> files \<Rightarrow> bool" where
  "settled sq d b c fs x \<longleftrightarrow>
     beside d b fs (snd x)
     \<and> (if is_ok (fst x) then node_at (snd x) (d @ [b]) = Some (RegularFile c) \<and> node_at (snd x) (d @ [partial b]) = None \<and> check_content sq c = Inr ()
        else node_at (snd x) (d @ [b]) = None)"

lemma verified_then_renamed:
  assumes "real_dir fs d" and "plain_name b" and "node_at fs (d @ [b]) = None" and "node_at fs (d @ [partial b]) = Some (RegularFile c)"
  shows "settled sq d b c fs
    (case VerifyBackup sq (entry d (partial b)) fs of Inl e \<Rightarrow> (Inl e, fs) | Inr _ \<Rightarrow> os_result (Rename (entry d (partial b)) (entry d b) fs))"
  using Verify_entry(1) [OF assms(1) _ assms(4), of sq] rename_partial [OF assms] assms
  by (auto simp: settled_def beside_refl split: sum.split if_splits)

lemma settled_before: "beside d b fs0 fs \<Longrightarrow> settled sq d b c fs x \<Longrightarrow> settled sq d b c fs0 x"
  using beside_trans by (auto simp: settled_def)

lemma fill_backup_settled:
  assumes "real_dir fs d" and "plain_name b" and "node_at fs (d @ [b]) = None"
    and "node_at fs (d @ [partial b]) = None \<or> node_at fs (d @ [partial b]) = Some Folder"
  shows "settled sq d b (lv_dump lv) fs (fill_backup sq lv (entry d b) fs)"
proof -
  let ?a = "d @ [partial b]" and ?fs1 = "put (d @ [partial b]) (RegularFile (lv_dump lv)) fs"
  have read: "\<And>x. ReadFile fs (entry d (partial b)) \<noteq> Inr x"
    using assms locate_plain [of fs d "partial b" Follow] by (auto simp: ReadFile_def Stat_def node_of_def)
  have vacuum: "vacuum_into lv (entry d (partial b)) fs = (if node_at fs ?a = None then (lv_dumped lv, ?fs1) else (False, fs))"
    using read WriteFile_partial [of fs d "partial b" "lv_dump lv"] assms by (auto simp: vacuum_into_def split: sum.split)
  have "real_dir ?fs1 d" "node_at ?fs1 (d @ [b]) = None" "node_at ?fs1 ?a = Some (RegularFile (lv_dump lv))"
    using assms by (simp_all add: real_dir_put node_at_put)
  note whole = settled_before [OF beside_put [OF assms(1)] verified_then_renamed [OF this(1) assms(2) this(2,3), of sq]]
  have unfilled: "settled sq d b (lv_dump lv) fs (Inl e, fs)" "settled sq d b (lv_dump lv) fs (Inl e, ?fs1)" for e :: backup_error
    using assms beside_put [OF assms(1), of b] by (simp_all add: settled_def beside_refl node_at_put)
  show ?thesis
  proof (cases "lv_checkpoint lv \<and> node_at fs ?a = None \<and> lv_dumped lv")
    case True
    with whole show ?thesis unfolding fill_backup_def partial_entry by (simp add: vacuum)
  next
    case False
    then show ?thesis by (auto simp: fill_backup_def partial_entry vacuum unfilled)
  qed
qed

lemma settled_removed:
  assumes "settled sq d b c fs (r, fs1)" and "plain_name b"
  shows "settled sq d b c fs (r, snd (Remove_file (entry d (partial b)) fs1))"
  using assms remove_partial [of fs1 d b] by (auto simp: settled_def beside_def)

lemma Backup_settled:
  assumes "safeNewDestination fs destination = Inr (entry d b)" and "real_dir fs d" and "plain_name b" and "node_at fs (d @ [b]) = None"
  shows "settled sq d b (lv_dump lv) fs (Backup sq lv destination fs)"
proof -
  let ?fs1 = "snd (Remove_file (entry d (partial b)) fs)"
  note r = remove_partial [OF assms(2,3)]
  have "real_dir ?fs1 d" using r(1) by (simp add: beside_def)
  with r(2,3) assms have "settled sq d b (lv_dump lv) ?fs1 (fill_backup sq lv (entry d b) ?fs1)"
    by (intro fill_backup_settled) auto
  then have "settled sq d b (lv_dump lv) fs (fill_backup sq lv (entry d b) ?fs1)" using r(1) by (rule settled_before [rotated])
  then show ?thesis using assms(1,3) settled_removed
    by (auto simp: Backup_def partial_entry split: prod.split)
qed

text \<open>What a backup is read as: the content of the file its path leads to.\<close>

definition backup_content :: "files \<Rightarrow> string \<Rightarrow> string" where
  "backup_content fs path = (case regularFile fs path of Inl _ \<Rightarrow> [] | Inr p \<Rightarrow> (case ReadFile fs p of Inl _ \<Rightarrow> [] | Inr c \<Rightarrow> c))"

lemma copied: "\<not> restore_limit < int (length (copy_limited c)) \<Longrightarrow> copy_limited c = c"
  by (auto simp: copy_limited_def restore_limit_def split: if_splits)

lemma fill_restore_settled:
  assumes "real_dir fs d" and "plain_name b" and "node_at fs (d @ [b]) = None" and "node_at fs (d @ [partial b]) = Some (RegularFile [])"
  shows "settled sq d b c fs (fill_restore sq c (entry d b) fs)"
proof -
  let ?a = "d @ [partial b]" and ?fs1 = "put (d @ [partial b]) (RegularFile (copy_limited c)) fs"
  have written: "WriteFile (entry d (partial b)) (copy_limited c) fs = (Inr (), ?fs1)"
    using WriteFile_partial [of fs d "partial b"] assms by simp
  have there: "real_dir ?fs1 d" "node_at ?fs1 (d @ [b]) = None" "node_at ?fs1 ?a = Some (RegularFile (copy_limited c))"
    using assms by (simp_all add: real_dir_put node_at_put)
  note near = beside_put [OF assms(1), of b "RegularFile (copy_limited c)"]
  show ?thesis
  proof (cases "restore_limit < int (length (copy_limited c))")
    case True
    then show ?thesis using near there by (simp add: fill_restore_def partial_entry written settled_def)
  next
    case False
    from settled_before [OF near verified_then_renamed [OF there(1) assms(2) there(2,3), of sq]] False
    have "settled sq d b (copy_limited c) fs (fill_restore sq c (entry d b) fs)"
      unfolding fill_restore_def partial_entry by (simp add: written)
    then show ?thesis by (simp only: copied [OF False])
  qed
qed

lemma RestoreBackup_settled:
  assumes "safeNewDestination fs destination = Inr (entry d b)" and "real_dir fs d" and "plain_name b" and "node_at fs (d @ [b]) = None"
  shows "settled sq d b (backup_content fs backup) fs (RestoreBackup sq backup destination fs)"
proof -
  let ?fs1 = "put (d @ [partial b]) (RegularFile []) fs"
  have unchanged: "settled sq d b c fs (Inl e, fs)" for c and e :: backup_error
    using assms by (simp add: settled_def beside_refl)
  have there: "real_dir ?fs1 d" "node_at ?fs1 (d @ [b]) = None" "node_at ?fs1 (d @ [partial b]) = Some (RegularFile [])"
    using assms by (simp_all add: real_dir_put node_at_put)
  have filled: "settled sq d b c fs (fill_restore sq c (entry d b) ?fs1)" for c
    using settled_before [OF beside_put [OF assms(2)] fill_restore_settled [OF there(1) assms(3) there(2,3)]] .
  then have removed: "fill_restore sq c (entry d b) ?fs1 = (Inl e, fs2) \<Longrightarrow> settled sq d b c fs (Inl e, snd (Remove_file (entry d (partial b)) fs2))" for c e fs2
    using settled_removed assms(3) by metis
  have kept: "fill_restore sq c (entry d b) ?fs1 = (Inr u, fs2) \<Longrightarrow> settled sq d b c fs (Inr u, fs2)" for c u fs2
    using filled [of c] by simp
  from make_new_entry [OF assms(2), of "partial b" "RegularFile []"] assms(1,3) removed kept show ?thesis
    by (auto simp: RestoreBackup_def partial_entry backup_content_def unchanged split: sum.split prod.split)
qed


section \<open>A backup can be restored\<close>

text \<open>A file that SQLite finds whole, with the five migrations.\<close>

definition valid_backup :: "sqlite \<Rightarrow> string \<Rightarrow> bool" where
  "valid_backup sq c \<longleftrightarrow> check_content sq c = Inr ()"

text \<open>A place for a new file: a name in a directory whose path has no link, free, and its partial name too.\<close>

definition free_place :: "files \<Rightarrow> location \<Rightarrow> string \<Rightarrow> bool" where
  "free_place fs d b \<longleftrightarrow> real_dir fs d \<and> plain_name b \<and> \<not> has_nul (entry d (partial b)) \<and> node_at fs (d @ [b]) = None \<and> node_at fs (d @ [partial b]) = None"

lemma free_destination:
  assumes "real_dir fs d" and "plain_name b" and "node_at fs (d @ [b]) = None"
  shows "safeNewDestination fs (entry d b) = Inr (entry d b)"
proof -
  have plain: "\<forall>e \<in> set (d @ [b]). plain_name e" using assms by (auto simp: real_dir_def)
  then have clean: "Clean (entry d b) = entry d b" "rooted (entry d b)" "entry d b \<noteq> []"
    by (simp_all add: entry_def Clean_rooted abs_elements_abs_path) (simp add: abs_path_def)
  have "Base (entry d b) = b" "Dir (entry d b) = abs_path d"
    using plain Dir_abs_path [OF plain] clean(3) by (simp_all add: Base_def entry_def abs_path_elements)
  with clean assms show ?thesis
    by (simp add: safeNewDestination_def Lstat_entry EvalSymlinks_dir Stat_dir Join_entry)
qed

lemma nul_partial: "\<not> has_nul (entry d (partial b)) \<Longrightarrow> \<not> has_nul (entry d b)"
  unfolding partial_entry [symmetric] by (simp add: partial_def has_nul_def)

lemma Backup_works:
  assumes "free_place fs d b" and "lv_checkpoint lv" "lv_dumped lv" "valid_backup sq (lv_dump lv)"
  shows "is_ok (fst (Backup sq lv (entry d b) fs))"
proof -
  let ?fs1 = "put (d @ [partial b]) (RegularFile (lv_dump lv)) fs"
  have f: "real_dir fs d" "plain_name b" "node_at fs (d @ [b]) = None" "node_at fs (d @ [partial b]) = None" "\<not> has_nul (entry d (partial b))"
    using assms(1) by (simp_all add: free_place_def)
  have removed: "snd (Remove_file (entry d (partial b)) fs) = fs" using Remove_entry [OF f(1), of "partial b"] f by simp
  have vacuum: "vacuum_into lv (entry d (partial b)) fs = (True, ?fs1)"
    using ReadFile_entry [OF f(1), of "partial b"] WriteFile_partial [OF f(1), of "partial b" "lv_dump lv"] f assms(3)
    by (simp add: vacuum_into_def is_plain_file_def)
  have there: "real_dir ?fs1 d" "node_at ?fs1 (d @ [b]) = None" "node_at ?fs1 (d @ [partial b]) = Some (RegularFile (lv_dump lv))"
    using f by (simp_all add: real_dir_put node_at_put)
  then have "VerifyBackup sq (entry d (partial b)) ?fs1 = Inr ()"
    using Verify_entry(1) [OF there(1) _ there(3), of sq] f assms(4) by (simp add: valid_backup_def)
  then have "is_ok (fst (fill_backup sq lv (entry d b) fs))"
    unfolding fill_backup_def partial_entry using assms(2) vacuum rename_partial(1) [OF there(1) f(2) there(2,3)] by simp
  then show ?thesis unfolding Backup_def free_destination [OF f(1-3)] sum.case partial_entry removed by (simp add: case_prod_beta)
qed

lemma Restore_works:
  assumes "free_place fs d b" and "real_dir fs e" "plain_name n" "node_at fs (e @ [n]) = Some (RegularFile c)" "\<not> has_nul (entry e n)"
    and "valid_backup sq c" "int (length c) \<le> restore_limit"
  shows "is_ok (fst (RestoreBackup sq (entry e n) (entry d b) fs))" "backup_content fs (entry e n) = c"
proof -
  let ?fs1 = "put (d @ [partial b]) (RegularFile []) fs"
  let ?fs2 = "put (d @ [partial b]) (RegularFile c) ?fs1"
  have f: "real_dir fs d" "plain_name b" "node_at fs (d @ [b]) = None" "node_at fs (d @ [partial b]) = None" "\<not> has_nul (entry d (partial b))"
    using assms(1) by (simp_all add: free_place_def)
  have source: "VerifyBackup sq (entry e n) fs = Inr ()" "regularFile fs (entry e n) = Inr (entry e n)" "ReadFile fs (entry e n) = Inr c"
    using Verify_entry(1) [OF assms(2-4), of sq] Verify_entry(2) [OF assms(2-4)] ReadFile_entry [OF assms(2,3)] assms(4-6) by (simp_all add: valid_backup_def is_plain_file_def)
  have made: "make_new (entry d (partial b)) (RegularFile []) fs = (Inr (), ?fs1)"
    using make_new_entry [OF f(1), of "partial b"] f by simp
  have there1: "real_dir ?fs1 d" "node_at ?fs1 (d @ [partial b]) = Some (RegularFile [])" "node_at ?fs1 (d @ [b]) = None"
    using f by (simp_all add: real_dir_put node_at_put)
  have there2: "real_dir ?fs2 d" "node_at ?fs2 (d @ [b]) = None" "node_at ?fs2 (d @ [partial b]) = Some (RegularFile c)"
    using there1 by (simp_all add: real_dir_put node_at_put)
  have copy: "copy_limited c = c" using assms(7) by (simp add: copy_limited_def)
  have written: "WriteFile (entry d (partial b)) c ?fs1 = (Inr (), ?fs2)"
    using WriteFile_partial [OF there1(1), of "partial b" c] there1 f(2) by simp
  have "VerifyBackup sq (entry d (partial b)) ?fs2 = Inr ()"
    using Verify_entry(1) [OF there2(1) _ there2(3), of sq] f assms(6) by (simp add: valid_backup_def)
  then have "is_ok (fst (fill_restore sq c (entry d b) ?fs1))"
    unfolding fill_restore_def partial_entry using assms(7) copy written rename_partial(1) [OF there2(1) f(2) there2(2,3)] by simp
  then obtain fs3 where "fill_restore sq c (entry d b) ?fs1 = (Inr (), fs3)" by (metis is_ok_iff prod.collapse old.unit.exhaust)
  then show "is_ok (fst (RestoreBackup sq (entry e n) (entry d b) fs))"
    unfolding RestoreBackup_def using source free_destination [OF f(1-3)] made by (simp add: partial_entry)
  show "backup_content fs (entry e n) = c" by (simp add: backup_content_def source)
qed

text \<open>
  C22: A backup is made and restored: if SQLite writes the database out and finds what it wrote whole, the places are
  free and the file is at most 2 GiB, then both calls succeed, and the restored file is byte for byte the dump of the
  database.
\<close>

theorem backup_is_restored:
  assumes "free_place fs d b" and "lv_checkpoint lv" "lv_dumped lv" "valid_backup sq (lv_dump lv)" "int (length (lv_dump lv)) \<le> restore_limit"
    and "(r, fs1) = Backup sq lv (entry d b) fs" and "free_place fs1 d2 b2" and "(q, fs2) = RestoreBackup sq (entry d b) (entry d2 b2) fs1"
  shows "r = Inr () \<and> q = Inr () \<and> node_at fs1 (d @ [b]) = Some (RegularFile (lv_dump lv)) \<and> node_at fs2 (d2 @ [b2]) = Some (RegularFile (lv_dump lv))"
proof -
  have f: "real_dir fs d" "plain_name b" "node_at fs (d @ [b]) = None" "\<not> has_nul (entry d b)"
    using assms(1) nul_partial by (simp_all add: free_place_def)
  have r: "is_ok r" using Backup_works [OF assms(1-4)] assms(6) by (metis fst_conv)
  have "settled sq d b (lv_dump lv) fs (r, fs1)" unfolding assms(6) using Backup_settled [OF free_destination [OF f(1-3)] f(1-3)] .
  then have backup: "real_dir fs1 d" "node_at fs1 (d @ [b]) = Some (RegularFile (lv_dump lv))" using r by (simp_all add: settled_def beside_def)
  note works = Restore_works [OF assms(7) backup(1) f(2) backup(2) f(4) assms(4,5)]
  have q: "is_ok q" using works(1) assms(8) by (metis fst_conv)
  have f2: "real_dir fs1 d2" "plain_name b2" "node_at fs1 (d2 @ [b2]) = None" using assms(7) by (simp_all add: free_place_def)
  have "settled sq d2 b2 (lv_dump lv) fs1 (q, fs2)"
    unfolding assms(8) using RestoreBackup_settled [OF free_destination [OF f2] f2, of sq "entry d b"] works(2) by simp
  then show ?thesis using r q backup by (simp add: settled_def is_ok_iff)
qed

section \<open>A run\<close>

definition demo_sqlite :: sqlite where
  "demo_sqlite = \<lparr>sq_check = (\<lambda>c. if c = ''db'' then Some ''ok'' else Some ''malformed''), sq_version = (\<lambda>c v. Some 1)\<rparr>"

definition demo_live :: live_db where
  "demo_live = \<lparr>lv_check = Some ''ok'', lv_checkpoint = True, lv_dump = ''db'', lv_dumped = True\<rparr>"

definition demo_backups :: files where
  "demo_backups = [([''b''], Folder), ([''b'', ''old.partial''], RegularFile ''notes''), ([''b'', ''x''], RegularFile ''db'')]"

lemma backup_is_restored_witness:
  "Backup demo_sqlite demo_live (entry [''b''] ''new'') demo_backups = (Inr (), snd (Backup demo_sqlite demo_live (entry [''b''] ''new'') demo_backups))
   \<and> node_at (snd (RestoreBackup demo_sqlite (entry [''b''] ''new'') (entry [''b''] ''back'') (snd (Backup demo_sqlite demo_live (entry [''b''] ''new'') demo_backups)))) [''b'', ''back'']
     = Some (RegularFile ''db'')"
proof -
  let ?x = "Backup demo_sqlite demo_live (entry [''b''] ''new'') demo_backups"
  let ?y = "RestoreBackup demo_sqlite (entry [''b''] ''new'') (entry [''b''] ''back'') (snd ?x)"
  have dir: "prefix l [''b''] \<longleftrightarrow> l = [] \<or> l = [''b'']" for l :: location by (cases l) auto
  have x: "?x = (Inr (), snd ?x)" by code_simp
  have y: "?y = (fst ?y, snd ?y)" by simp
  have nodes: "node_at demo_backups [''b''] = Some Folder" "node_at demo_backups [''b'', ''new''] = None" "node_at demo_backups [''b'', ''new.partial''] = None"
    "node_at (snd ?x) [''b''] = Some Folder" "node_at (snd ?x) [''b'', ''back''] = None" "node_at (snd ?x) [''b'', ''back.partial''] = None"
    "plain_name ''b''" "plain_name ''new''" "plain_name ''back''" "\<not> has_nul (entry [''b''] ''new.partial'')" "\<not> has_nul (entry [''b''] ''back.partial'')"
    "partial ''new'' = ''new.partial''" "partial ''back'' = ''back.partial''"
    by code_simp+
  then have "free_place demo_backups [''b''] ''new''" "free_place (snd ?x) [''b''] ''back''"
    by (auto simp: free_place_def real_dir_def dir)
  moreover have "valid_backup demo_sqlite (lv_dump demo_live)" by code_simp
  ultimately have "snd (Inr () :: (backup_error, unit) result, snd ?y) = snd ?y \<and> node_at (snd ?y) ([''b''] @ [''back'']) = Some (RegularFile (lv_dump demo_live))"
    using backup_is_restored [of demo_backups "[''b'']" "''new''" demo_live demo_sqlite "Inr ()" "snd ?x" "[''b'']" "''back''" "fst ?y" "snd ?y"] x y
    by (simp add: demo_live_def restore_limit_def)
  then show ?thesis using x by (simp add: demo_live_def)
qed


text \<open>A file that happens to have the name of the partial file is lost to a backup, and in the way of a restore.\<close>

lemma partial_name_taken:
  "Backup demo_sqlite demo_live ''/b/old'' demo_backups = (Inr (), snd (Backup demo_sqlite demo_live ''/b/old'' demo_backups))"
  "node_at (snd (Backup demo_sqlite demo_live ''/b/old'' demo_backups)) [''b'', ''old.partial''] = None"
  "RestoreBackup demo_sqlite ''/b/x'' ''/b/old'' demo_backups = (Inl (BackupOs AlreadyExists), demo_backups)"
  by code_simp+

end
