(* ===== verification/Start.thy ===== *)
theory Start
  imports Config Secrets HealthFile Singleton Backup
begin

text \<open>
  \<open>cmd/mosaid/main.go\<close>: how the program starts, on the components it is built from, and what an exit leaves
  behind. The flags, the permission bits, the processes that are alive, the tables in the database and what
  SQLite says of it are arguments. \<open>os.Exit\<close> ends the process without its deferred calls.
\<close>

section \<open>Start\<close>

record machine =
  mc_mode :: "string \<Rightarrow> int"
  mc_alive :: "nat \<Rightarrow> bool"
  mc_pid :: nat
  mc_url :: "string \<Rightarrow> url option"
  mc_version :: string
  mc_started :: time
  mc_running :: time
  mc_stopped :: time
  mc_stamp :: string
  mc_tables :: store
  mc_live :: live_db

datatype exit_reason = ShowsVersion | ConfigRequired | BadConfig config_error | TelegramSecret secret_error | ModelSecret secret_error
  | LockUnavailable lock_pc | DatabaseUnopened store_error | DatabaseDamaged backup_error | GuardRefused guard_error | GatewayStopped gateway_error | Ended

fun exit_code :: "exit_reason \<Rightarrow> int" where
  "exit_code ShowsVersion = 0"
| "exit_code ConfigRequired = 2"
| "exit_code (LockUnavailable pc) = 73"
| "exit_code Ended = 0"
| "exit_code _ = 1"

text \<open>What the started program holds.\<close>

record ready =
  rd_config :: config
  rd_token :: string
  rd_key :: string
  rd_health :: health_writer
  rd_store :: store
  rd_guard :: message_guard

definition open_and_guard :: "machine \<Rightarrow> config \<Rightarrow> (exit_reason, store \<times> message_guard) result" where
  "open_and_guard m c =
     (case Open_store (mc_stamp m) (mc_tables m) of
        (Inl e, _) \<Rightarrow> Inl (DatabaseUnopened e)
      | (Inr db, _) \<Rightarrow>
          (case IntegrityCheck (mc_live m) of
             Inl e \<Rightarrow> Inl (DatabaseDamaged e)
           | Inr _ \<Rightarrow> (case guard_of c of Inl e \<Rightarrow> Inl (GuardRefused e) | Inr g \<Rightarrow> Inr (db, g))))"

definition start_program :: "bool \<Rightarrow> string \<Rightarrow> machine \<Rightarrow> files \<Rightarrow> (exit_reason, ready) result \<times> files" where
  "start_program show_version config_path m fs =
     (if show_version then (Inl ShowsVersion, fs)
      else if config_path = [] then (Inl ConfigRequired, fs)
      else case Load_config (mc_url m) fs config_path of
        Inl e \<Rightarrow> (Inl (BadConfig e), fs)
      | Inr c \<Rightarrow>
          (case Read_secret (mc_mode m) (tc_token_file (cf_telegram c)) fs of
             Inl e \<Rightarrow> (Inl (TelegramSecret e), fs)
           | Inr token \<Rightarrow>
               (case Read_secret (mc_mode m) (mo_key_file (cf_model c)) fs of
                  Inl e \<Rightarrow> (Inl (ModelSecret e), fs)
                | Inr key \<Rightarrow>
                    (case acquire_alone (cf_data_dir c) (mc_pid m) (mc_alive m) fs of
                       (fs1, pc) \<Rightarrow>
                         if pc \<noteq> Holding then (Inl (LockUnavailable pc), fs1)
                         else (case Update_health (hr_status_update (\<lambda>_. ''running'')) (mc_running m)
                                      (New_health (cf_data_dir c) (mc_version m) (mc_started m), fs1) of
                                 (_, h, fs2) \<Rightarrow>
                                   (case open_and_guard m c of
                                      Inl e \<Rightarrow> (Inl e, fs2)
                                    | Inr (db, g) \<Rightarrow>
                                        (Inr \<lparr>rd_config = c, rd_token = token, rd_key = key, rd_health = h, rd_store = db, rd_guard = g\<rparr>, fs2)))))))"

section \<open>The end\<close>

text \<open>
  The gateway returns: with an error the process exits at once, else the deferred calls are made. While it served,
  the files and the report that the agent and the gateway share may have changed.
\<close>

definition end_program :: "machine \<Rightarrow> config \<Rightarrow> (gateway_error, 'g) result \<times> health_writer \<times> files \<Rightarrow> exit_reason \<times> files" where
  "end_program m c =
     (\<lambda>(Inl e, _, fs) \<Rightarrow> (GatewayStopped e, fs)
      | (Inr _, h, fs) \<Rightarrow>
          (case Update_health (hr_status_update (\<lambda>_. ''stopped'')) (mc_stopped m) (h, fs) of
             (_, _, fs1) \<Rightarrow> (Ended, RemoveAll (lock_dir (cf_data_dir c)) fs1)))"

definition run_main ::
  "bool \<Rightarrow> string \<Rightarrow> machine \<Rightarrow> (ready \<Rightarrow> files \<Rightarrow> (gateway_error, 'g) result \<times> health_writer \<times> files) \<Rightarrow> files \<Rightarrow> exit_reason \<times> files" where
  "run_main show_version config_path m serve fs =
     (case start_program show_version config_path m fs of
        (Inl e, fs1) \<Rightarrow> (e, fs1)
      | (Inr r, fs1) \<Rightarrow> end_program m (rd_config r) (serve r fs1))"

section \<open>A program that starts\<close>

lemma start_program_ok:
  assumes "start_program v p m fs = (Inr r, fs2)"
  shows "Load_config (mc_url m) fs p = Inr (rd_config r)" "Read_secret (mc_mode m) (tc_token_file (cf_telegram (rd_config r))) fs = Inr (rd_token r)"
    "Read_secret (mc_mode m) (mo_key_file (cf_model (rd_config r))) fs = Inr (rd_key r)"
    "snd (acquire_alone (cf_data_dir (rd_config r)) (mc_pid m) (mc_alive m) fs) = Holding" "open_and_guard m (rd_config r) = Inr (rd_store r, rd_guard r)"
  using assms by (auto simp: start_program_def split: if_splits sum.splits prod.splits)

section \<open>The lock and the report of a start\<close>

text \<open>The data directory is there, with nothing in the way of the report.\<close>

definition data_ready :: "location \<Rightarrow> files \<Rightarrow> bool" where
  "data_ready d fs \<longleftrightarrow> real_dir fs d \<and> tree fs \<and> is_plain_file (node_at fs (d @ [''health.json.tmp''])) \<and> is_plain_file (node_at fs (d @ [''health.json'']))"

text \<open>This process holds the lock, and the report says that it runs.\<close>

definition says_running :: "location \<Rightarrow> machine \<Rightarrow> files \<Rightarrow> bool" where
  "says_running d m fs \<longleftrightarrow> held_by d (mc_pid m) fs
     \<and> ReadFile fs (entry d ''health.json'')
       = Inr (report_text \<lparr>hr_started = mc_started m, hr_updated = mc_running m, hr_status = ''running'', hr_version = mc_version m, hr_update_id = 0, hr_messages = 0\<rparr>)"

lemma held_same: "held_by d p fs \<Longrightarrow> (\<And>k. \<not> prefix (d @ [''health.json'']) k \<Longrightarrow> \<not> prefix (d @ [''health.json.tmp'']) k \<Longrightarrow> node_at fs' k = node_at fs k) \<Longrightarrow> held_by d p fs'"
  using real_dir_same [of fs d fs'] by (auto simp: held_by_def not_below)

text \<open>An update in a directory that is there writes the whole report and touches nothing else.\<close>

lemma update_writes:
  assumes dir: "real_dir fs d"
    and plain: "is_plain_file (node_at fs (d @ [''health.json.tmp'']))" "is_plain_file (node_at fs (d @ [''health.json'']))"
    and path: "hw_path h0 = entry d ''health.json''" and run: "Update_health f t (h0, fs) = (r, h, fs2)"
  shows "h = changed_report f t h0" "real_dir fs2 d" "node_at fs2 (d @ [''health.json'']) = Some (RegularFile (report_text (hw_state h)))"
    "\<And>k. \<not> prefix (d @ [''health.json'']) k \<Longrightarrow> \<not> prefix (d @ [''health.json.tmp'']) k \<Longrightarrow> node_at fs2 k = node_at fs k"
proof -
  show h: "h = changed_report f t h0" using run by (auto simp: Update_health_def Let_def split: prod.splits)
  let ?b = "report_text (hw_state h)"
  let ?fs2 = "put (d @ [''health.json.tmp'']) (RegularFile ?b) fs"
  note calls = report_calls_do [where b = ?b, OF dir plain]
  have hpath: "hw_path h = entry d ''health.json''" using path by (simp add: h changed_report_def)
  have fs2: "fs2 = move (d @ [''health.json.tmp'']) (d @ [''health.json'']) ?fs2"
    using run calls(1) [of 3] hpath unfolding all_calls Update_health_def Let_def h [symmetric] fst_conv snd_conv by simp
  show "real_dir fs2 d" using calls(3) by (simp add: fs2)
  show "node_at fs2 (d @ [''health.json'']) = Some (RegularFile ?b)" using calls(7) by (simp add: fs2)
  show "node_at fs2 k = node_at fs k" if "\<not> prefix (d @ [''health.json'']) k" "\<not> prefix (d @ [''health.json.tmp'']) k" for k
    unfolding fs2 using that by (subst node_at_moved) (auto simp: node_at_put)
qed

lemma started_says_running:
  assumes "data_ready d fs" and "acquire_alone (abs_path d) (mc_pid m) (mc_alive m) fs = (fs1, Holding)"
    and run: "Update_health (hr_status_update (\<lambda>_. ''running'')) (mc_running m) (New_health (abs_path d) (mc_version m) (mc_started m), fs1) = (r, h, fs2)"
  shows "says_running d m fs2"
proof -
  have d: "real_dir fs d" "tree fs" using assms(1) by (simp_all add: data_ready_def)
  have held: "held_by d (mc_pid m) fs1" and same: "\<And>k. \<not> prefix (d @ [''runtime.lock'']) k \<Longrightarrow> node_at fs1 k = node_at fs k"
    using acquire_alone_result [OF d assms(2)] by auto
  have dir: "real_dir fs1 d" using held by (simp add: held_by_def)
  have plain: "is_plain_file (node_at fs1 (d @ [''health.json.tmp'']))" "is_plain_file (node_at fs1 (d @ [''health.json'']))"
    using assms(1) same by (simp_all add: data_ready_def)
  have path: "hw_path (New_health (abs_path d) (mc_version m) (mc_started m)) = entry d ''health.json''"
    using Join_entry [OF dir health_names(1)] by (simp add: New_health_def)
  note written = update_writes [OF dir plain path run]
  have "held_by d (mc_pid m) fs2" using held_same [OF held written(4)] by blast
  then show ?thesis using written(3) ReadFile_entry [OF written(2) health_names(1)]
    by (simp add: is_plain_file_def says_running_def written(1) changed_report_def New_health_def)
qed

text \<open>The deferred calls of a clean end remove the lock and report the end.\<close>

lemma ended_main_released:
  assumes dir: "real_dir fs d" and plain: "is_plain_file (node_at fs (d @ [''health.json.tmp'']))" "is_plain_file (node_at fs (d @ [''health.json'']))"
    and path: "hw_path h = entry d ''health.json''" and c: "cf_data_dir c = abs_path d"
    and run: "end_program m c (Inr g, h, fs) = (e, fs2)"
  shows "e = Ended" "node_at fs2 (d @ [''runtime.lock'']) = None"
    "ReadFile fs2 (entry d ''health.json'') = Inr (report_text ((hw_state h)\<lparr>hr_status := ''stopped'', hr_updated := mc_stopped m\<rparr>))"
proof -
  obtain r h1 fs1 where upd: "Update_health (hr_status_update (\<lambda>_. ''stopped'')) (mc_stopped m) (h, fs) = (r, h1, fs1)" by (metis prod_cases3)
  note written = update_writes [OF dir plain path upd]
  have lock: "lock_dir (abs_path d) = entry d ''runtime.lock''" using Join_entry [OF dir lock_names(1)] by (simp add: lock_dir_def)
  have out: "e = Ended" "fs2 = RemoveAll (entry d ''runtime.lock'') fs1" using run upd c lock by (simp_all add: end_program_def)
  show "e = Ended" by (rule out)
  note gone = node_at_RemoveAll [OF written(2) lock_names(1)]
  show "node_at fs2 (d @ [''runtime.lock'']) = None" by (simp add: out(2) gone)
  have rest: "node_at fs2 k = node_at fs1 k" if "\<not> prefix (d @ [''runtime.lock'']) k" for k using that by (simp add: out(2) gone)
  have "real_dir fs2 d" by (rule real_dir_same [OF written(2)]) (simp add: rest not_below)
  then show "ReadFile fs2 (entry d ''health.json'') = Inr (report_text ((hw_state h)\<lparr>hr_status := ''stopped'', hr_updated := mc_stopped m\<rparr>))"
    using ReadFile_entry [OF _ health_names(1)] written(3) by (simp add: rest is_plain_file_def written(1) changed_report_def)
qed

lemma loaded_guard: "Load_config u fs p = Inr c \<Longrightarrow> is_ok (guard_of c) \<and> 0 < cf_owner c"
proof -
  assume "Load_config u fs p = Inr c"
  then obtain c0 where v: "Validate_config u c0 = Inr c" "lc_cost (cf_limits c0) \<noteq> NotANumber" using Load_validated by blast
  from validated_limits(1) [OF v] Validate_config_ok(1,2) [OF v(1)] show ?thesis by simp
qed

lemma open_and_guard_ok:
  assumes "open_and_guard m c = Inr (db, g)"
  shows "IntegrityCheck (mc_live m) = Inr ()" "guard_of c = Inr g" "{1, 2, 3, 4, 5} \<subseteq> set (versions db)"
proof -
  obtain db' where opened: "Open_store (mc_stamp m) (mc_tables m) = (Inr db, db')"
    using assms by (auto simp: open_and_guard_def split: prod.splits sum.splits)
  then show "{1, 2, 3, 4, 5} \<subseteq> set (versions db)" using Open_recovers by blast
  show "IntegrityCheck (mc_live m) = Inr ()" "guard_of c = Inr g"
    using assms opened by (auto simp: open_and_guard_def split: sum.splits)
qed


text \<open>
  C30: A start that fails on the database ends the process with the deferred calls left out: the lock with the
  number of the dead process stays, and the report still says that it runs.
\<close>

theorem failed_start_says_running:
  assumes "start_program v p m fs = (Inl e, fs2)" and "(\<exists>s. e = DatabaseUnopened s) \<or> (\<exists>b. e = DatabaseDamaged b)"
    and "\<And>c. Load_config (mc_url m) fs p = Inr c \<Longrightarrow> cf_data_dir c = abs_path d" and "data_ready d fs"
  shows "run_main v p m serve fs = (e, fs2) \<and> exit_code e = 1 \<and> says_running d m fs2"
proof -
  obtain c fs1 u h where "Load_config (mc_url m) fs p = Inr c" "acquire_alone (cf_data_dir c) (mc_pid m) (mc_alive m) fs = (fs1, Holding)"
      "Update_health (hr_status_update (\<lambda>_. ''running'')) (mc_running m) (New_health (cf_data_dir c) (mc_version m) (mc_started m), fs1) = (u, h, fs2)"
    using assms(1,2) by (auto simp: start_program_def split: if_splits sum.splits prod.splits)
  then have "says_running d m fs2" using started_says_running [OF assms(4)] assms(3) by metis
  moreover have "exit_code e = 1" using assms(2) by auto
  ultimately show ?thesis by (simp add: run_main_def assms(1))
qed

section \<open>A machine\<close>

definition demo_root :: files where
  "demo_root = [([''c''], RegularFile demo_config_text), ([''t''], RegularFile ''tok''), ([''k''], RegularFile ''key''), ([''d''], Folder)]"

definition demo_machine :: "string \<Rightarrow> machine" where
  "demo_machine health = \<lparr>mc_mode = \<lambda>_. 384, mc_alive = \<lambda>_. False, mc_pid = 7, mc_url = demo_url, mc_version = ''1'', mc_started = 0, mc_running = 1,
     mc_stopped = 2, mc_stamp = ''s'', mc_tables = empty_store, mc_live = \<lparr>lv_check = Some health, lv_checkpoint = True, lv_dump = [], lv_dumped = True\<rparr>\<rparr>"

lemma start_names: "plain_name ''c''" "plain_name ''t''" "plain_name ''k''" "plain_name ''d''"
  "''/c'' = entry [] ''c''" "''/t'' = entry [] ''t''" "''/k'' = entry [] ''k''" "''/d'' = abs_path [''d'']"
  by code_simp+

lemma demo_data: "data_ready [''d''] demo_root"
proof -
  have "tree demo_root" by (auto simp: tree_def demo_root_def node_at_def append_eq_Cons_conv split: if_splits)
  then show ?thesis
    using start_names by (simp add: data_ready_def real_dir_snoc [of _ "[]", simplified] demo_root_def node_at_def is_plain_file_def)
qed

lemma start_read:
  "ReadFile demo_root ''/c'' = Inr demo_config_text" "Lstat demo_root ''/t'' = Inr (RegularFile ''tok'')" "Lstat demo_root ''/k'' = Inr (RegularFile ''key'')"
  using ReadFile_entry [OF real_dir_Nil start_names(1), of demo_root] Lstat_entry [OF real_dir_Nil start_names(2), of demo_root]
    Lstat_entry [OF real_dir_Nil start_names(3), of demo_root]
  unfolding start_names(5-7) by (simp_all add: demo_root_def node_at_def is_plain_file_def)

lemma demo_secrets: "Read_secret (mc_mode (demo_machine x)) ''/t'' demo_root = Inr ''tok''" "Read_secret (mc_mode (demo_machine x)) ''/k'' demo_root = Inr ''key''"
proof -
  have "trim_space ''tok'' = ''tok''" "trim_space ''key'' = ''key''" "\<not> has_nul ''tok''" "\<not> has_nul ''key''" "\<not> shared_mode 384" by code_simp+
  then show "Read_secret (mc_mode (demo_machine x)) ''/t'' demo_root = Inr ''tok''" "Read_secret (mc_mode (demo_machine x)) ''/k'' demo_root = Inr ''key''"
    by (simp_all add: Read_secret_def start_read Lstat_read max_secret_bytes_def demo_machine_def)
qed

lemma demo_started:
  "\<exists>h fs2. start_program False ''/c'' (demo_machine x) demo_root =
     (case open_and_guard (demo_machine x) demo_config of
        Inl e \<Rightarrow> (Inl e, fs2)
      | Inr (db, g) \<Rightarrow> (Inr \<lparr>rd_config = demo_config, rd_token = ''tok'', rd_key = ''key'', rd_health = h, rd_store = db, rd_guard = g\<rparr>, fs2))"
proof -
  have "cf_data_dir demo_config = abs_path [''d'']" using start_names(8) by (simp add: demo_config_def)
  moreover obtain fs1 where "acquire_alone (abs_path [''d'']) (mc_pid (demo_machine x)) (mc_alive (demo_machine x)) demo_root = (fs1, Holding)"
  proof -
    obtain fs1 pc where got: "acquire_alone (abs_path [''d'']) (mc_pid (demo_machine x)) (mc_alive (demo_machine x)) demo_root = (fs1, pc)" by fastforce
    have "pc = Holding"
      using acquire_alone_result [OF _ _ got] demo_data by (auto simp: data_ready_def signalled_def demo_machine_def)
    with got that show ?thesis by blast
  qed
  moreover have "Load_config (mc_url (demo_machine x)) demo_root ''/c'' = Inr demo_config" using demo_load [OF start_read(1)] by (simp add: demo_machine_def)
  moreover have "tc_token_file (cf_telegram demo_config) = ''/t''" "mo_key_file (cf_model demo_config) = ''/k''" by (simp_all add: demo_config_def)
  ultimately show ?thesis using demo_secrets [of x]
    by (cases "Update_health (hr_status_update (\<lambda>_. ''running'')) (mc_running (demo_machine x))
        (New_health (abs_path [''d'']) (mc_version (demo_machine x)) (mc_started (demo_machine x)), fs1)")
      (auto simp: start_program_def split: sum.split)
qed

lemma demo_opened:
  "is_ok (open_and_guard (demo_machine ''ok'') demo_config)" "open_and_guard (demo_machine ''rot'') demo_config = Inl (DatabaseDamaged IntegrityFailed)"
proof -
  obtain db where db: "Open_store ''s'' empty_store = (Inr db, db)" using fresh_open [of "''s''"] by blast
  obtain g where g: "guard_of demo_config = Inr g" using loaded_guard [OF demo_load [OF start_read(1)]] by (auto simp: is_ok_iff)
  show "is_ok (open_and_guard (demo_machine ''ok'') demo_config)" "open_and_guard (demo_machine ''rot'') demo_config = Inl (DatabaseDamaged IntegrityFailed)"
    using db g by (simp_all add: open_and_guard_def demo_machine_def IntegrityCheck_def)
qed


lemma failed_start_says_running_witness:
  "\<exists>fs2. run_main False ''/c'' (demo_machine ''rot'') (\<lambda>r fs. (Inr (), rd_health r, fs)) demo_root = (DatabaseDamaged IntegrityFailed, fs2)
     \<and> says_running [''d''] (demo_machine ''rot'') fs2"
proof -
  obtain fs2 where run: "start_program False ''/c'' (demo_machine ''rot'') demo_root = (Inl (DatabaseDamaged IntegrityFailed), fs2)"
    using demo_started [of "''rot''"] demo_opened(2) by auto
  have "Load_config (mc_url (demo_machine ''rot'')) demo_root ''/c'' = Inr demo_config" using demo_load [OF start_read(1)] by (simp add: demo_machine_def)
  then have "cf_data_dir c = abs_path [''d'']" if "Load_config (mc_url (demo_machine ''rot'')) demo_root ''/c'' = Inr c" for c
    using that start_names(8) by (simp add: demo_config_def)
  from failed_start_says_running [OF run _ this demo_data] show ?thesis by fast
qed

end
