(* ===== verification/Redact.thy ===== *)
theory Redact
  imports GoJson "HOL-Library.Sublist"
begin

text \<open>
  Package \<open>internal/observability\<close>: the redactor of secrets and the handler that sends every record of the log
  through it. The regular expressions the package uses are sequences of groups of atoms, matched as \<open>regexp\<close>
  of Go does: the leftmost match, of these the first that a search with greedy repetition finds. A text is its
  bytes, a position an index into it. \<open>sort.Slice\<close> keeps values of the same length in order, as it does for
  up to twelve.
\<close>

section \<open>Regular expressions\<close>

text \<open>A class says how many bytes of a text its first rune takes, if it is in the class, or else 0.\<close>

type_synonym char_class = "string \<Rightarrow> nat"

definition ascii_class :: "(char \<Rightarrow> bool) \<Rightarrow> char_class" where
  "ascii_class f s = (case s of [] \<Rightarrow> 0 | c # r \<Rightarrow> if f c then 1 else 0)"

text \<open>A class that is given by what is not in it; an invalid byte is a rune of its own.\<close>

definition negated_class :: "(char \<Rightarrow> bool) \<Rightarrow> char_class" where
  "negated_class f s =
     (case s of [] \<Rightarrow> 0 | c # r \<Rightarrow> if (of_char c :: int) < 128 then (if f c then 0 else 1) else max 1 (rune_len s))"

text \<open>Without regard to case the long s and the Kelvin sign are letters too.\<close>

definition folded_letter :: "char \<Rightarrow> char_class" where
  "folded_letter l s =
     (if s = [] then 0
      else if lower_char (hd s) = l then 1
      else if l = CHR ''s'' \<and> take 2 s = [CHR 0xC5, CHR 0xBF] then 2
      else if l = CHR ''k'' \<and> take 3 s = [CHR 0xE2, CHR 0x84, CHR 0xAA] then 3 else 0)"

definition folded_class :: "(char \<Rightarrow> bool) \<Rightarrow> char_class" where
  "folded_class f s = (if ascii_class f s = 1 then 1 else max (folded_letter (CHR ''s'') s) (folded_letter (CHR ''k'') s))"

datatype atom = One char_class | Many nat char_class | Upto nat nat char_class | WordEdge | Words "char_class list list"

definition word_char :: "char \<Rightarrow> bool" where
  "word_char c \<longleftrightarrow> in_bytes 65 90 c \<or> in_bytes 97 122 c \<or> is_digit c \<or> c = CHR ''_''"

definition word_at :: "string \<Rightarrow> nat \<Rightarrow> bool" where
  "word_at s i \<longleftrightarrow> i < length s \<and> word_char (s ! i)"

text \<open>The ends of a repetition, the shortest first.\<close>

function run_ends :: "char_class \<Rightarrow> string \<Rightarrow> nat \<Rightarrow> nat list" where
  "run_ends m s i = (if m (drop i s) = 0 \<or> length s < i + m (drop i s) then [i] else i # run_ends m s (i + m (drop i s)))"
  by auto
termination by (relation "measure (\<lambda>(m, s, i). length s - i)") auto

declare run_ends.simps [simp del]

fun word_ends :: "char_class list \<Rightarrow> string \<Rightarrow> nat \<Rightarrow> nat list" where
  "word_ends [] s i = [i]"
| "word_ends (m # ms) s i = (let k = m (drop i s) in if k = 0 \<or> length s < i + k then [] else word_ends ms s (i + k))"

fun atom_ends :: "string \<Rightarrow> atom \<Rightarrow> nat \<Rightarrow> nat list" where
  "atom_ends s (One m) i = word_ends [m] s i"
| "atom_ends s (Many n m) i = rev (drop n (run_ends m s i))"
| "atom_ends s (Upto n k m) i = rev (drop n (take (Suc k) (run_ends m s i)))"
| "atom_ends s WordEdge i = (if (0 < i \<and> word_at s (i - 1)) \<noteq> word_at s i then [i] else [])"
| "atom_ends s (Words ws) i = concat (map (\<lambda>w. word_ends w s i) ws)"

fun group_ends :: "string \<Rightarrow> atom list \<Rightarrow> nat \<Rightarrow> nat list" where
  "group_ends s [] i = [i]"
| "group_ends s (a # as) i = concat (map (group_ends s as) (atom_ends s a i))"

text \<open>Where each group ends.\<close>

fun all_ends :: "string \<Rightarrow> atom list list \<Rightarrow> nat \<Rightarrow> nat list list" where
  "all_ends s [] i = [[]]"
| "all_ends s (g # gs) i = concat (map (\<lambda>j. map (Cons j) (all_ends s gs j)) (group_ends s g i))"

definition match_at :: "string \<Rightarrow> atom list list \<Rightarrow> nat \<Rightarrow> nat list option" where
  "match_at s gs i = (case all_ends s gs i of [] \<Rightarrow> None | e # es \<Rightarrow> Some e)"

definition between :: "string \<Rightarrow> nat \<Rightarrow> nat \<Rightarrow> string" where
  "between s i j = drop i (take j s)"

text \<open>The texts of the groups.\<close>

fun group_texts :: "string \<Rightarrow> nat \<Rightarrow> nat list \<Rightarrow> string list" where
  "group_texts s i [] = []"
| "group_texts s i (j # js) = between s i j # group_texts s j js"

text \<open>\<open>ReplaceAllString\<close>, of expressions that match no empty text.\<close>

function replace_matches :: "atom list list \<Rightarrow> (string list \<Rightarrow> string) \<Rightarrow> string \<Rightarrow> nat \<Rightarrow> string" where
  "replace_matches gs t s i =
     (if length s \<le> i then []
      else case match_at s gs i of
             None \<Rightarrow> s ! i # replace_matches gs t s (Suc i)
           | Some es \<Rightarrow>
               if es = [] \<or> last es \<le> i then s ! i # replace_matches gs t s (Suc i)
               else t (group_texts s i es) @ replace_matches gs t s (last es))"
  by auto
termination by (relation "measure (\<lambda>(gs, t, s, i). length s - i)") auto

declare replace_matches.simps [simp del]

section \<open>The redactor\<close>

definition exactly :: "char \<Rightarrow> atom" where
  "exactly c = One (ascii_class (\<lambda>d. d = c))"

definition exact_text :: "string \<Rightarrow> atom list" where
  "exact_text s = map exactly s"

definition folded_word :: "string \<Rightarrow> char_class list" where
  "folded_word w = map folded_letter w"

definition folded_text :: "string \<Rightarrow> atom list" where
  "folded_text w = map One (folded_word w)"

definition re_space :: "char \<Rightarrow> bool" where
  "re_space c \<longleftrightarrow> c \<in> set [CHR 0x09, CHR 0x0A, CHR 0x0C, CHR 0x0D, CHR '' '']"

definition alnum :: "char \<Rightarrow> bool" where
  "alnum c \<longleftrightarrow> in_bytes 65 90 c \<or> in_bytes 97 122 c \<or> is_digit c"

definition secret_names :: "char_class list list" where
  "secret_names = map folded_word [''access_token'', ''api_key'', ''apikey'', ''token'', ''secret'', ''password'']"

definition mark :: string where "mark = ''[REDACTED]''"

text \<open>The expressions with what they are replaced by.\<close>

definition bearer_re :: "atom list list" where
  "bearer_re = [[WordEdge] @ folded_text ''bearer'' @ [Many 1 (ascii_class re_space), Many 8 (folded_class (\<lambda>c. alnum c \<or> c \<in> set ''._~+/=-''))]]"

definition github_pat_re :: "atom list list" where
  "github_pat_re = [[WordEdge] @ exact_text ''github_pat_'' @ [Many 20 (ascii_class (\<lambda>c. alnum c \<or> c = CHR ''_'')), WordEdge]]"

definition github_re :: "atom list list" where
  "github_re = [[WordEdge] @ exact_text ''gh'' @ [One (ascii_class (\<lambda>c. c \<in> set ''pousr'')), exactly (CHR ''_''), Many 20 (ascii_class alnum), WordEdge]]"

definition telegram_re :: "atom list list" where
  "telegram_re = [[WordEdge, Upto 6 12 (ascii_class is_digit), exactly (CHR '':''), Many 20 (ascii_class (\<lambda>c. alnum c \<or> c = CHR ''_'' \<or> c = CHR ''-'')), WordEdge]]"

definition parameter_re :: "atom list list" where
  "parameter_re = [[Words secret_names], [exactly (CHR ''=''), Many 1 (negated_class (\<lambda>c. c = CHR ''&'' \<or> re_space c))]]"

definition credentials_re :: "atom list list" where
  "credentials_re = [folded_text ''https'' @ exact_text ''://'' @ [Many 1 (negated_class (\<lambda>c. c \<in> set ''/@:'' \<or> re_space c)), exactly (CHR '':''),
     Many 1 (negated_class (\<lambda>c. c \<in> set ''/@'' \<or> re_space c)), exactly (CHR ''@'')]]"

definition member_re :: "atom list list" where
  "member_re = [[exactly (CHR 0x22), Words secret_names, exactly (CHR 0x22), Many 0 (ascii_class re_space), exactly (CHR '':''), Many 0 (ascii_class re_space),
     exactly (CHR 0x22)], [Many 1 (negated_class (\<lambda>c. c = CHR 0x22))], [exactly (CHR 0x22)]]"

text \<open>What a match is replaced by, from the texts of its groups.\<close>

definition whole_mark :: "string list \<Rightarrow> string" where
  "whole_mark gs = mark"

definition parameter_mark :: "string list \<Rightarrow> string" where
  "parameter_mark gs = hd gs @ ''='' @ mark"

definition credentials_mark :: "string list \<Rightarrow> string" where
  "credentials_mark gs = ''https://'' @ mark @ ''@''"

definition member_mark :: "string list \<Rightarrow> string" where
  "member_mark gs = hd gs @ mark @ last gs"

definition patterns :: "(atom list list \<times> (string list \<Rightarrow> string)) list" where
  "patterns = [(bearer_re, whole_mark), (github_pat_re, whole_mark), (github_re, whole_mark), (telegram_re, whole_mark),
     (parameter_re, parameter_mark), (credentials_re, credentials_mark), (member_re, member_mark)]"

text \<open>\<open>strings.ReplaceAll\<close> of a text that is not empty.\<close>

function replace_text :: "string \<Rightarrow> string \<Rightarrow> string" where
  "replace_text v s =
     (if s = [] then [] else if v \<noteq> [] \<and> prefix v s then mark @ replace_text v (drop (length v) s) else hd s # replace_text v (tl s))"
  by auto
termination by (relation "measure (\<lambda>(v, s). length s)") auto

declare replace_text.simps [simp del]

definition NewRedactor :: "string list \<Rightarrow> string list" where
  "NewRedactor values = sort_key (\<lambda>v. - int (length v)) (filter (\<lambda>v. v \<noteq> []) values)"

definition redact_values :: "string list \<Rightarrow> string \<Rightarrow> string" where
  "redact_values values s = fold replace_text values s"

definition redact_patterns :: "(atom list list \<times> (string list \<Rightarrow> string)) list \<Rightarrow> string \<Rightarrow> string" where
  "redact_patterns ps s = fold (\<lambda>(gs, t) s. replace_matches gs t s 0) ps s"

definition Redact :: "string list option \<Rightarrow> string \<Rightarrow> string" where
  "Redact r s = (case r of None \<Rightarrow> mark | Some values \<Rightarrow> redact_patterns patterns (redact_values values s))"

lemma redact_examples:
  "Redact (Some (NewRedactor [''ab'', [], ''abc''])) ''xabcxab'' = ''x[REDACTED]x[REDACTED]''"
  "Redact (Some []) ''Authorization: Bearer  abcdefgh.ij x'' = ''Authorization: [REDACTED] x''"
  "Redact (Some []) ''a=1&Token=zz&b=2'' = ''a=1&Token=[REDACTED]&b=2''"
  "Redact (Some []) ''GET HTTPS://u:p@h/'' = ''GET https://[REDACTED]@h/''"
  "Redact (Some []) (CHR 0x22 # ''api_key'' @ [CHR 0x22] @ '' : '' @ [CHR 0x22] @ ''k'' @ [CHR 0x22]) = CHR 0x22 # ''api_key'' @ [CHR 0x22] @ '' : '' @ [CHR 0x22] @ ''[REDACTED]'' @ [CHR 0x22]"
  "Redact (Some []) ''bot123456:abcdefghijklmnopqrst'' = ''bot123456:abcdefghijklmnopqrst''"
  "Redact (Some []) ''/123456:abcdefghijklmnopqrst'' = ''/[REDACTED]''"
  by code_simp+

section \<open>The log\<close>

datatype any_value = AnyNil | AnyText string | AnyBytes string | AnyError string | AnyStringer string | AnyOther "string option" | RawJson string

datatype log_value = LText string | LGroup "(string \<times> log_value) list" | LAny any_value | LPlain string

definition unencodable :: string where
  "unencodable = ''[UNSERIALIZABLE_REDACTED]''"

definition json_or_text :: "string \<Rightarrow> any_value" where
  "json_or_text t = (if json_valid t then RawJson t else AnyText t)"

fun redactAny :: "string list option \<Rightarrow> any_value \<Rightarrow> any_value" where
  "redactAny r AnyNil = AnyNil"
| "redactAny r (AnyText s) = AnyText (Redact r s)"
| "redactAny r (AnyBytes s) = AnyText (Redact r s)"
| "redactAny r (AnyError s) = AnyText (Redact r s)"
| "redactAny r (AnyStringer s) = AnyText (Redact r s)"
| "redactAny r (AnyOther encoded) = (case encoded of None \<Rightarrow> AnyText unencodable | Some e \<Rightarrow> json_or_text (Redact r e))"
| "redactAny r (RawJson e) = json_or_text (Redact r e)"

fun redactAttr :: "string list option \<Rightarrow> log_value \<Rightarrow> log_value" where
  "redactAttr r (LText s) = LText (Redact r s)"
| "redactAttr r (LGroup vs) = LGroup (map (\<lambda>(k, v). (k, redactAttr r v)) vs)"
| "redactAttr r (LAny a) = LAny (redactAny r a)"
| "redactAttr r (LPlain t) = LPlain t"

definition redact_attrs :: "string list option \<Rightarrow> (string \<times> log_value) list \<Rightarrow> (string \<times> log_value) list" where
  "redact_attrs r as = map (\<lambda>(k, v). (k, redactAttr r v)) as"

text \<open>A handler is its redactor, with the attributes and groups the next handler was given.\<close>

datatype log_part = WithAttrs "(string \<times> log_value) list" | WithGroup string

record redacting_handler =
  rh_redactor :: "string list option"
  rh_parts :: "log_part list"

definition with_attrs :: "(string \<times> log_value) list \<Rightarrow> redacting_handler \<Rightarrow> redacting_handler" where
  "with_attrs as h = h\<lparr>rh_parts := rh_parts h @ [WithAttrs (redact_attrs (rh_redactor h) as)]\<rparr>"

definition with_group :: "string \<Rightarrow> redacting_handler \<Rightarrow> redacting_handler" where
  "with_group name h = h\<lparr>rh_parts := rh_parts h @ [WithGroup name]\<rparr>"

text \<open>The record that is passed on, behind the parts of the handler.\<close>

definition Handle_record :: "redacting_handler \<Rightarrow> string \<Rightarrow> (string \<times> log_value) list \<Rightarrow> log_part list \<times> string \<times> (string \<times> log_value) list" where
  "Handle_record h message as = (rh_parts h, Redact (rh_redactor h) message, redact_attrs (rh_redactor h) as)"

definition New_logger :: "string list option \<Rightarrow> redacting_handler" where
  "New_logger r = \<lparr>rh_redactor = r, rh_parts = []\<rparr>"

section \<open>Where matches end\<close>

lemma run_ends_range: "i \<le> length s \<Longrightarrow> j \<in> set (run_ends m s i) \<Longrightarrow> i \<le> j \<and> j \<le> length s"
proof (induction m s i rule: run_ends.induct)
  case (1 m s i)
  show ?case
  proof (cases "m (drop i s) = 0 \<or> length s < i + m (drop i s)")
    case True
    with "1.prems" show ?thesis by (subst (asm) run_ends.simps) simp
  next
    case False
    then have "run_ends m s i = i # run_ends m s (i + m (drop i s))" by (subst run_ends.simps) simp
    with "1.prems" "1.IH" [OF False] False show ?thesis by auto
  qed
qed

lemma word_ends_range: "i \<le> length s \<Longrightarrow> j \<in> set (word_ends ms s i) \<Longrightarrow> i \<le> j \<and> j \<le> length s"
proof (induction ms arbitrary: i)
  case (Cons m ms)
  have "i + m (drop i s) \<le> length s" "j \<in> set (word_ends ms s (i + m (drop i s)))"
    using Cons.prems(2) by (auto simp: Let_def split: if_splits)
  with Cons.IH show ?case by fastforce
qed simp

lemma atom_ends_range: "i \<le> length s \<Longrightarrow> j \<in> set (atom_ends s a i) \<Longrightarrow> i \<le> j \<and> j \<le> length s"
  by (cases a) (auto simp del: word_ends.simps split: if_splits dest: in_set_dropD in_set_takeD run_ends_range word_ends_range)

lemma group_ends_range: "i \<le> length s \<Longrightarrow> j \<in> set (group_ends s as i) \<Longrightarrow> i \<le> j \<and> j \<le> length s"
proof (induction as arbitrary: i)
  case (Cons a as)
  then obtain k where k: "k \<in> set (atom_ends s a i)" "j \<in> set (group_ends s as k)" by auto
  from atom_ends_range [OF Cons.prems(1) k(1)] Cons.IH [of k] k(2) show ?case by auto
qed simp

lemma group_ends_append: "set (group_ends s (as @ bs) i) = (\<Union>j \<in> set (group_ends s as i). set (group_ends s bs j))"
  by (induction as arbitrary: i) auto

lemma exactly_ends: "j \<in> set (atom_ends s (exactly c) i) \<Longrightarrow> j = Suc i \<and> i < length s \<and> s ! i = c"
  by (cases "drop i s") (auto simp: exactly_def ascii_class_def Let_def split: if_splits dest: nth_via_drop)

lemma match_at_ends: "match_at s gs i = Some es \<Longrightarrow> es \<in> set (all_ends s gs i)"
  by (auto simp: match_at_def split: list.splits)

section \<open>Secrets between the marks\<close>

text \<open>
  A text that a mark cannot make: it has no bracket, is not part of the mark or of the scheme a match is rewritten
  with, and does not end as the scheme does.
\<close>

definition hidden :: "string \<Rightarrow> bool" where
  "hidden v \<longleftrightarrow> v \<noteq> [] \<and> CHR ''['' \<notin> set v \<and> CHR '']'' \<notin> set v \<and> \<not> sublist v ''REDACTED'' \<and> last v \<notin> set ''https://''"

lemma sublist_cut: "c \<notin> set v \<Longrightarrow> sublist v (a @ c # b) \<longleftrightarrow> sublist v a \<or> sublist v b"
proof
  assume c: "c \<notin> set v" and "sublist v (a @ c # b)"
  then consider "sublist v a" | "sublist v (c # b)" | x y where "v = x @ y" "suffix x a" "prefix y (c # b)" unfolding sublist_append by blast
  then show "sublist v a \<or> sublist v b"
  proof cases
    case 2
    then show ?thesis using c by (cases v) (auto simp: sublist_Cons_right)
  next
    case 3
    then have "y = []" using c by (cases y) auto
    with 3 show ?thesis by simp
  qed simp
qed (auto simp: sublist_append sublist_Cons_right)

lemma sublist_mark: "hidden v \<Longrightarrow> sublist v (a @ mark @ b) \<longleftrightarrow> sublist v a \<or> sublist v b"
proof -
  assume v: "hidden v"
  have "a @ mark @ b = a @ CHR ''['' # (''REDACTED'' @ CHR '']'' # b)" by (simp add: mark_def)
  moreover have "sublist v (a @ CHR ''['' # (''REDACTED'' @ CHR '']'' # b)) \<longleftrightarrow> sublist v a \<or> sublist v (''REDACTED'' @ CHR '']'' # b)"
    using v by (intro sublist_cut) (simp add: hidden_def)
  moreover have "sublist v (''REDACTED'' @ CHR '']'' # b) \<longleftrightarrow> sublist v ''REDACTED'' \<or> sublist v b"
    using v by (intro sublist_cut) (simp add: hidden_def)
  ultimately show ?thesis using v by (simp only: hidden_def simp_thms)
qed

lemma sublist_front: "\<not> sublist v (a @ s) \<Longrightarrow> \<not> sublist v a \<and> \<not> sublist v s"
  by (auto simp: sublist_append)

lemma sublist_part: "sublist a s \<Longrightarrow> \<not> sublist v s \<Longrightarrow> \<not> sublist v a"
  using sublist_order.order_trans by blast

text \<open>Replacing a value takes it away and brings no other one.\<close>

lemma replace_text_keeps: "hidden v \<Longrightarrow> \<not> sublist v (a @ s) \<Longrightarrow> \<not> sublist v (a @ replace_text w s)"
proof (induction w s arbitrary: a rule: replace_text.induct)
  case (1 w s)
  show ?case
  proof (cases s)
    case Nil
    with 1 show ?thesis by (simp add: replace_text.simps)
  next
    case (Cons c r)
    show ?thesis
    proof (cases "w \<noteq> [] \<and> prefix w s")
      case True
      have "\<not> sublist v (drop (length w) s)" using sublist_front [OF 1(4)] sublist_part [OF sublist_drop] by blast
      then have "\<not> sublist v (replace_text w (drop (length w) s))" using 1(1) [OF _ True 1(3), of "[]"] Cons by simp
      then show ?thesis using True Cons sublist_mark [OF 1(3)] sublist_front [OF 1(4)] by (simp add: replace_text.simps [of w "c # r"])
    next
      case False
      have "\<not> sublist v ((a @ [c]) @ replace_text w (tl s))" using 1(2) [OF _ False 1(3), of "a @ [c]"] 1(4) Cons by simp
      then show ?thesis using False Cons by (auto simp: replace_text.simps [of w "c # r"])
    qed
  qed
qed

lemma sublist_at: "sublist v s \<Longrightarrow> v \<noteq> [] \<Longrightarrow> \<exists>k < length s. prefix v (drop k s)"
  unfolding sublist_def by (metis append_eq_conv_conj length_append length_greater_0_conv less_add_same_cancel1 append_is_Nil_conv length_drop drop_all not_le prefixI prefix_Nil)

lemma replace_text_removes:
  "hidden v \<Longrightarrow> \<forall>k < length a. \<not> prefix v (drop k (a @ s)) \<Longrightarrow> \<not> sublist v (a @ replace_text v s)"
proof (induction v s arbitrary: a rule: replace_text.induct)
  case (1 v s)
  have ne: "v \<noteq> []" using 1(3) by (simp add: hidden_def)
  have front: "\<not> sublist v a"
  proof
    assume "sublist v a"
    from sublist_at [OF this ne] obtain k where k: "k < length a" "prefix v (drop k a)" by blast
    then have "prefix v (drop k (a @ s))" by (auto intro: prefix_prefix)
    with 1(4) k(1) show False by blast
  qed
  show ?case
  proof (cases s)
    case Nil
    with front show ?thesis by (simp add: replace_text.simps)
  next
    case (Cons c r)
    show ?thesis
    proof (cases "prefix v s")
      case True
      have "\<not> sublist v (replace_text v (drop (length v) s))" using 1(1) [OF _ _ 1(3), of "[]"] Cons True ne by simp
      then show ?thesis using True Cons ne sublist_mark [OF 1(3)] front by (simp add: replace_text.simps [of v "c # r"])
    next
      case False
      have "\<not> sublist v ((a @ [c]) @ replace_text v (tl s))"
      proof (rule 1(2) [OF _ _ 1(3)])
        show "\<forall>k < length (a @ [c]). \<not> prefix v (drop k ((a @ [c]) @ tl s))"
          using 1(4) False Cons by (auto simp: less_Suc_eq)
      qed (use Cons False in simp_all)
      then show ?thesis using False Cons ne by (auto simp: replace_text.simps [of v "c # r"])
    qed
  qed
qed

lemma redact_values_hide:
  assumes "hidden v" and "v \<in> set vs \<or> \<not> sublist v s"
  shows "\<not> sublist v (redact_values vs s)"
  unfolding redact_values_def using assms(2)
proof (induction vs arbitrary: s)
  case (Cons w vs)
  have "v = w \<or> \<not> sublist v s \<Longrightarrow> \<not> sublist v (replace_text w s)"
    using replace_text_removes [OF assms(1), of "[]" s] replace_text_keeps [OF assms(1), of "[]" s w] by auto
  with Cons show ?case by auto
qed simp

section \<open>What the patterns keep\<close>

text \<open>
  What a match is replaced by is a mark, with a text before it that continues what is in front of the match and a
  text behind it that ends where the match ends.
\<close>

definition keeps_hidden :: "string \<Rightarrow> atom list list \<Rightarrow> (string list \<Rightarrow> string) \<Rightarrow> bool" where
  "keeps_hidden v gs t \<longleftrightarrow>
     (\<forall>s i es a. i < length s \<longrightarrow> es \<in> set (all_ends s gs i) \<longrightarrow> es \<noteq> [] \<longrightarrow> suffix a (take i s) \<longrightarrow> \<not> sublist v s \<longrightarrow>
        last es \<le> length s \<and>
        (\<exists>p q. t (group_texts s i es) = p @ mark @ q \<and> \<not> sublist v (a @ p) \<and> suffix q (take (last es) s)))"

lemma suffix_take: "i < length s \<Longrightarrow> suffix a (take i s) \<Longrightarrow> suffix (a @ [s ! i]) (take (Suc i) s)"
  by (simp add: take_Suc_conv_app_nth suffix_def)

lemma suffix_sublist: "suffix a (take i s) \<Longrightarrow> sublist a s"
  by (meson sublist_order.order_trans sublist_take suffix_imp_sublist)


lemma replace_matches_keeps:
  "hidden v \<Longrightarrow> keeps_hidden v gs t \<Longrightarrow> suffix a (take i s) \<Longrightarrow> \<not> sublist v s \<Longrightarrow> \<not> sublist v (a @ replace_matches gs t s i)"
proof (induction gs t s i arbitrary: a rule: replace_matches.induct)
  case (1 gs t s i)
  note hid = "1.prems"(1) and keeps = "1.prems"(2) and front = "1.prems"(3) and clean = "1.prems"(4)
  show ?case
  proof (cases "length s \<le> i")
    case True
    then show ?thesis using sublist_part [OF suffix_sublist [OF front] clean] by (simp add: replace_matches.simps)
  next
    case False
    then have here: "suffix (a @ [s ! i]) (take (Suc i) s)" using suffix_take [OF _ front] by simp
    show ?thesis
    proof (cases "match_at s gs i")
      case None
      have "\<not> sublist v ((a @ [s ! i]) @ replace_matches gs t s (Suc i))" by (rule "1.IH"(1) [OF False None hid keeps here clean])
      then show ?thesis using False None by (subst replace_matches.simps) simp
    next
      case (Some es)
      show ?thesis
      proof (cases "es = [] \<or> last es \<le> i")
        case True
        have "\<not> sublist v ((a @ [s ! i]) @ replace_matches gs t s (Suc i))" by (rule "1.IH"(2) [OF False Some True hid keeps here clean])
        then show ?thesis using False Some True by (subst replace_matches.simps) simp
      next
        case match: False
        obtain p q where pq: "t (group_texts s i es) = p @ mark @ q" "\<not> sublist v (a @ p)" "suffix q (take (last es) s)"
          using keeps [unfolded keeps_hidden_def, rule_format, of i s es a] match_at_ends [OF Some] False match front clean by auto
        have "\<not> sublist v (q @ replace_matches gs t s (last es))" by (rule "1.IH"(3) [OF False Some match hid keeps pq(3) clean])
        then have "\<not> sublist v ((a @ p) @ mark @ (q @ replace_matches gs t s (last es)))" using sublist_mark [OF hid] pq(2) by blast
        then show ?thesis using False Some match pq(1) by (subst replace_matches.simps) simp
      qed
    qed
  qed
qed

lemma between_suffix: "i \<le> j \<Longrightarrow> j \<le> length s \<Longrightarrow> suffix a (take i s) \<Longrightarrow> suffix (a @ between s i j) (take j s)"
proof -
  assume ij: "i \<le> j" "j \<le> length s" and a: "suffix a (take i s)"
  have "take j s = take i s @ between s i j" using ij by (simp add: between_def) (metis append_take_drop_id min.absorb1 take_take)
  with a show ?thesis by (auto simp: suffix_def)
qed

lemma between_suffix_last: "i \<le> j \<Longrightarrow> suffix (between s i j) (take j s)"
  by (simp add: between_def suffix_drop)

lemma keeps_whole: "keeps_hidden v [g] whole_mark"
  unfolding keeps_hidden_def
proof (intro allI impI)
  fix s i es a
  assume i: "i < length s" and es: "es \<in> set (all_ends s [g] i)" and a: "suffix a (take i s)" and clean: "\<not> sublist v s"
  obtain j where j: "es = [j]" "j \<in> set (group_ends s g i)" using es by auto
  have "j \<le> length s" using group_ends_range [OF _ j(2)] i by simp
  moreover have "\<not> sublist v a" using sublist_part [OF suffix_sublist [OF a] clean] .
  ultimately show "last es \<le> length s \<and> (\<exists>p q. whole_mark (group_texts s i es) = p @ mark @ q \<and> \<not> sublist v (a @ p) \<and> suffix q (take (last es) s))"
    using j(1) by (intro conjI exI [of _ "[]"]) (simp_all add: whole_mark_def)
qed

lemma keeps_parameter: "keeps_hidden v [g, exactly (CHR ''='') # h] parameter_mark"
  unfolding keeps_hidden_def
proof (intro allI impI)
  fix s i es a
  assume i: "i < length s" and es: "es \<in> set (all_ends s [g, exactly (CHR ''='') # h] i)" and a: "suffix a (take i s)" and clean: "\<not> sublist v s"
  obtain j k where jk: "es = [j, k]" "j \<in> set (group_ends s g i)" "k \<in> set (group_ends s (exactly (CHR ''='') # h) j)" using es by auto
  have j: "i \<le> j" "j \<le> length s" using group_ends_range [OF _ jk(2)] i by auto
  have k: "k \<le> length s" using group_ends_range [OF j(2) jk(3)] by simp
  obtain m where "m \<in> set (atom_ends s (exactly (CHR ''='')) j)" using jk(3) by auto
  then have sign: "j < length s" "s ! j = CHR ''=''" using exactly_ends by blast+
  have "suffix ((a @ between s i j) @ [CHR ''='']) (take (Suc j) s)"
    using suffix_take [OF sign(1) between_suffix [OF j a]] sign(2) by simp
  then have "\<not> sublist v (a @ between s i j @ ''='')" using sublist_part [OF suffix_sublist clean] by simp
  then show "last es \<le> length s \<and> (\<exists>p q. parameter_mark (group_texts s i es) = p @ mark @ q \<and> \<not> sublist v (a @ p) \<and> suffix q (take (last es) s))"
    using jk(1) k by (intro conjI exI [of _ "between s i j @ ''=''"] exI [of _ "[]"]) (simp_all add: parameter_mark_def)
qed

lemma keeps_member: "keeps_hidden v [g, h, k] member_mark"
  unfolding keeps_hidden_def
proof (intro allI impI)
  fix s i es a
  assume i: "i < length s" and es: "es \<in> set (all_ends s [g, h, k] i)" and a: "suffix a (take i s)" and clean: "\<not> sublist v s"
  obtain x y z where xyz: "es = [x, y, z]" "x \<in> set (group_ends s g i)" "y \<in> set (group_ends s h x)" "z \<in> set (group_ends s k y)" using es by auto
  have x: "i \<le> x" "x \<le> length s" using group_ends_range [OF _ xyz(2)] i by auto
  have y: "y \<le> length s" using group_ends_range [OF x(2) xyz(3)] by simp
  have z: "y \<le> z" "z \<le> length s" using group_ends_range [OF y xyz(4)] by simp_all
  have "\<not> sublist v (a @ between s i x)" using sublist_part [OF suffix_sublist [OF between_suffix [OF x a]] clean] .
  then show "last es \<le> length s \<and> (\<exists>p q. member_mark (group_texts s i es) = p @ mark @ q \<and> \<not> sublist v (a @ p) \<and> suffix q (take (last es) s))"
    using xyz(1) z between_suffix_last [OF z(1)]
    by (intro conjI exI [of _ "between s i x"] exI [of _ "between s y z"]) (simp_all add: member_mark_def)
qed

lemma scheme_hidden: "hidden v \<Longrightarrow> \<not> sublist v a \<Longrightarrow> \<not> sublist v (a @ ''https://'')"
proof
  assume v: "hidden v" "\<not> sublist v a" and "sublist v (a @ ''https://'')"
  then obtain x y where xy: "v = x @ y" "sublist y ''https://''" "y \<noteq> []"
    unfolding sublist_append using v by (metis append_Nil append_Nil2 hidden_def prefix_imp_sublist suffix_imp_sublist)
  then have "last v \<in> set ''https://''" using subsetD [OF set_mono_sublist [OF xy(2)] last_in_set [OF xy(3)]] by (simp only: last_append if_False)
  with v(1) show False unfolding hidden_def by blast
qed

lemma keeps_credentials: "hidden v \<Longrightarrow> keeps_hidden v [g @ [exactly (CHR ''@'')]] credentials_mark"
  unfolding keeps_hidden_def
proof (intro allI impI)
  fix s i es a
  assume v: "hidden v" and i: "i < length s" and es: "es \<in> set (all_ends s [g @ [exactly (CHR ''@'')]] i)" and a: "suffix a (take i s)" and clean: "\<not> sublist v s"
  obtain j where j: "es = [j]" "j \<in> set (group_ends s (g @ [exactly (CHR ''@'')]) i)" using es by auto
  obtain k where k: "k \<in> set (group_ends s g i)" "j \<in> set (atom_ends s (exactly (CHR ''@'')) k)"
    using j(2) unfolding group_ends_append by auto
  then have at: "j = Suc k" "k < length s" "s ! k = CHR ''@''" using exactly_ends by blast+
  then have "suffix ''@'' (take j s)" using suffix_take [OF at(2), of "[]"] by simp
  moreover have "\<not> sublist v (a @ ''https://'')" using scheme_hidden [OF v] sublist_part [OF suffix_sublist [OF a] clean] by blast
  ultimately show "last es \<le> length s \<and> (\<exists>p q. credentials_mark (group_texts s i es) = p @ mark @ q \<and> \<not> sublist v (a @ p) \<and> suffix q (take (last es) s))"
    using j(1) at by (intro conjI exI [of _ "''https://''"] exI [of _ "''@''"]) (simp_all add: credentials_mark_def)
qed

lemma patterns_keep: "hidden v \<Longrightarrow> (gs, t) \<in> set patterns \<Longrightarrow> keeps_hidden v gs t"
proof -
  assume v: "hidden v" and p: "(gs, t) \<in> set patterns"
  have "keeps_hidden v credentials_re credentials_mark"
    using keeps_credentials [OF v, of "folded_text ''https'' @ exact_text ''://'' @ [Many 1 (negated_class (\<lambda>c. c \<in> set ''/@:'' \<or> re_space c)), exactly (CHR '':''),
      Many 1 (negated_class (\<lambda>c. c \<in> set ''/@'' \<or> re_space c))]"] by (simp add: credentials_re_def)
  moreover have "keeps_hidden v parameter_re parameter_mark" unfolding parameter_re_def by (rule keeps_parameter)
  moreover have "keeps_hidden v member_re member_mark" unfolding member_re_def by (rule keeps_member)
  moreover have "keeps_hidden v gs whole_mark" if "gs \<in> {bearer_re, github_pat_re, github_re, telegram_re}"
    using that keeps_whole by (auto simp: bearer_re_def github_pat_re_def github_re_def telegram_re_def)
  ultimately show ?thesis using p by (auto simp: patterns_def)
qed

lemma redact_patterns_keep:
  assumes "hidden v" and "\<forall>(gs, t) \<in> set ps. keeps_hidden v gs t"
  shows "\<not> sublist v s \<Longrightarrow> \<not> sublist v (redact_patterns ps s)"
  unfolding redact_patterns_def using assms(2)
proof (induction ps arbitrary: s)
  case (Cons p ps)
  have "\<not> sublist v (replace_matches (fst p) (snd p) s 0)"
    using replace_matches_keeps [OF assms(1), of "fst p" "snd p" "[]" 0 s] Cons.prems by (cases p) auto
  with Cons show ?case by (cases p) auto
qed simp

lemma Redact_hides: "hidden v \<Longrightarrow> v \<in> set values \<Longrightarrow> \<not> sublist v (Redact (Some (NewRedactor values)) s)"
proof -
  assume v: "hidden v" "v \<in> set values"
  then have "v \<in> set (NewRedactor values)" by (simp add: NewRedactor_def hidden_def)
  then have "\<not> sublist v (redact_values (NewRedactor values) s)" using redact_values_hide [OF v(1)] by blast
  then show ?thesis using redact_patterns_keep [OF v(1), of patterns] patterns_keep [OF v(1)] by (auto simp: Redact_def)
qed

section \<open>What the log shows\<close>

text \<open>The texts of a value; those of the plain kinds are numbers, durations and times.\<close>

fun any_texts :: "any_value \<Rightarrow> string list" where
  "any_texts AnyNil = []"
| "any_texts (AnyText s) = [s]"
| "any_texts (AnyBytes s) = [s]"
| "any_texts (AnyError s) = [s]"
| "any_texts (AnyStringer s) = [s]"
| "any_texts (AnyOther e) = (case e of None \<Rightarrow> [] | Some t \<Rightarrow> [t])"
| "any_texts (RawJson e) = [e]"

fun value_texts :: "log_value \<Rightarrow> string list" where
  "value_texts (LText s) = [s]"
| "value_texts (LGroup vs) = concat (map (\<lambda>(k, v). value_texts v) vs)"
| "value_texts (LAny a) = any_texts a"
| "value_texts (LPlain t) = []"

definition attr_texts :: "(string \<times> log_value) list \<Rightarrow> string list" where
  "attr_texts as = concat (map (\<lambda>(k, v). value_texts v) as)"

fun part_texts :: "log_part \<Rightarrow> string list" where
  "part_texts (WithAttrs as) = attr_texts as"
| "part_texts (WithGroup name) = []"

text \<open>The handlers a program can have: derived from a new one by attributes and groups.\<close>

inductive derived :: "string list option \<Rightarrow> redacting_handler \<Rightarrow> bool" for r where
  new: "derived r (New_logger r)"
| attrs: "derived r h \<Longrightarrow> derived r (with_attrs as h)"
| group: "derived r h \<Longrightarrow> derived r (with_group name h)"

definition redacted :: "string list option \<Rightarrow> string \<Rightarrow> bool" where
  "redacted r t \<longleftrightarrow> (\<exists>s. t = Redact r s) \<or> t = unencodable"

lemma redactedI [simp]: "redacted r (Redact r s)" "redacted r unencodable"
  by (auto simp: redacted_def)

lemma any_redacted: "t \<in> set (any_texts (redactAny r a)) \<Longrightarrow> redacted r t"
  by (cases a) (auto simp: json_or_text_def split: option.splits if_splits)

lemma value_redacted: "t \<in> set (value_texts (redactAttr r v)) \<Longrightarrow> redacted r t"
proof (induction r v rule: redactAttr.induct)
  case (2 r vs)
  then show ?case by (auto simp: case_prod_beta)
qed (auto simp: any_redacted)

lemma attrs_redacted: "t \<in> set (attr_texts (redact_attrs r as)) \<Longrightarrow> redacted r t"
  using value_redacted by (fastforce simp: attr_texts_def redact_attrs_def)

lemma derived_redacted: "derived r h \<Longrightarrow> rh_redactor h = r \<and> (\<forall>p \<in> set (rh_parts h). \<forall>t \<in> set (part_texts p). redacted r t)"
  by (induction rule: derived.induct) (auto simp: New_logger_def with_attrs_def with_group_def dest: attrs_redacted)



text \<open>The token of a bot is not found by its form where the program uses it, behind the word \<open>bot\<close> in a URL.\<close>

lemma token_in_url_unmarked:
  "Redact (Some []) ''/bot123456:abcdefghijklmnopqrst/getMe'' = ''/bot123456:abcdefghijklmnopqrst/getMe''"
  by code_simp

text \<open>Names are not redacted.\<close>

lemma names_shown: "redact_attrs r [(k, v)] = [(k, redactAttr r v)]"
  by (simp add: redact_attrs_def)

end
