(* ===== verification/Tools.thy ===== *)
theory Tools
  imports Policy Approval SecLimits
begin

text \<open>
  Package \<open>internal/tools\<close>, \<open>registry.go\<close>: the registry through which every tool is run, behind
  the budget of the request, the policy of the tool and the approval of the owner. A handler is a
  parameter: it sees the metadata the context carries and the arguments, and acts on a world of its own.
  The trace \<open>ts_runs\<close> is ghost state: it records every call of a handler.
\<close>

section \<open>State\<close>

record execution_metadata =
  x_name :: string
  x_mode :: mode
  x_user :: int
  x_resource :: string
  x_args_hash :: string
  x_approval :: "receipt option"

type_synonym ('w, 'v) handler = "execution_metadata \<Rightarrow> string \<Rightarrow> 'w \<Rightarrow> (string, 'v) result \<times> 'w"

record ('w, 'v) registered =
  r_spec :: tool
  r_run :: "('w, 'v) handler option"

record tool_request =
  q_name :: string
  q_arguments :: string
  q_mode :: mode
  q_user_id :: int
  q_target :: string
  q_approval_token :: string

datatype 'v tool_result = ToolValue 'v | ApprovalAsked appr_request

datatype tool_error = ToolInvalid policy_error | HandlerRequired | DuplicateTool | ToolNotRegistered
  | OverBudget budget_error | PolicyDenied string | ApprovalUnavailable | ApprovalFailed appr_error | ToolFailed string

record ('w, 'v) tools_state =
  ts_tools :: "string \<rightharpoonup> ('w, 'v) registered"
  ts_approvals :: "appr_db option"
  ts_budget :: "budget option"
  ts_world :: 'w
  ts_runs :: "execution_metadata list"

text \<open>What one call reads from its surroundings: the random bytes of a token and the clock.\<close>

record call_env =
  en_bytes :: string
  en_now :: time
  en_stored :: time
  en_logged :: time

section \<open>Operations\<close>

definition NewRegistry :: "appr_db option \<Rightarrow> budget option \<Rightarrow> 'w \<Rightarrow> ('w, 'v) tools_state" where
  "NewRegistry a b w = \<lparr>ts_tools = Map.empty, ts_approvals = a, ts_budget = b, ts_world = w, ts_runs = []\<rparr>"

definition Register_tool ::
  "('w, 'v) registered \<Rightarrow> ('w, 'v) tools_state \<Rightarrow> (tool_error, unit) result \<times> ('w, 'v) tools_state" where
  "Register_tool x s =
     (case Validate (r_spec x) of
        Inl e \<Rightarrow> (Inl (ToolInvalid e), s)
      | Inr _ \<Rightarrow>
          if r_run x = None then (Inl HandlerRequired, s)
          else if ts_tools s (t_name (r_spec x)) \<noteq> None then (Inl DuplicateTool, s)
          else (Inr (), s\<lparr>ts_tools := (ts_tools s)(t_name (r_spec x) \<mapsto> x)\<rparr>))"

definition charge_tool :: "('w, 'v) tools_state \<Rightarrow> (budget_error, unit) result \<times> ('w, 'v) tools_state" where
  "charge_tool s =
     (case ts_budget s of
        None \<Rightarrow> (Inr (), s)
      | Some b \<Rightarrow> (case UseTool b of (r, b') \<Rightarrow> (r, s\<lparr>ts_budget := Some b'\<rparr>)))"

definition args_hash :: "string \<Rightarrow> string" where
  "args_hash arguments = sha256_hex arguments"

definition run_handler ::
  "('w, 'v) registered \<Rightarrow> execution_metadata \<Rightarrow> string \<Rightarrow> ('w, 'v) tools_state \<Rightarrow>
   (tool_error, 'v tool_result) result \<times> ('w, 'v) tools_state" where
  "run_handler x m arguments s =
     (case r_run x of
        None \<Rightarrow> (Inl HandlerRequired, s)
      | Some h \<Rightarrow>
          (case h m arguments (ts_world s) of
             (Inl e, w) \<Rightarrow> (Inl (ToolFailed e), s\<lparr>ts_world := w, ts_runs := ts_runs s @ [m]\<rparr>)
           | (Inr v, w) \<Rightarrow> (Inr (ToolValue v), s\<lparr>ts_world := w, ts_runs := ts_runs s @ [m]\<rparr>)))"

definition metadata_for :: "tool_request \<Rightarrow> execution_metadata" where
  "metadata_for q =
     \<lparr>x_name = q_name q, x_mode = q_mode q, x_user = q_user_id q, x_resource = q_target q,
      x_args_hash = args_hash (q_arguments q), x_approval = None\<rparr>"

text \<open>The branch for an invocation that needs an approval.\<close>

definition execute_approved ::
  "call_env \<Rightarrow> ('w, 'v) registered \<Rightarrow> tool_request \<Rightarrow> ('w, 'v) tools_state \<Rightarrow>
   (tool_error, 'v tool_result) result \<times> ('w, 'v) tools_state" where
  "execute_approved en x q s =
     (case ts_approvals s of
        None \<Rightarrow> (Inl ApprovalUnavailable, s)
      | Some db \<Rightarrow>
          if q_approval_token q = []
          then (case Create_request (en_bytes en) (q_user_id q) (q_name q) (args_hash (q_arguments q)) (q_target q)
                  (5 * minute) (en_now en) (en_stored en) (en_logged en) db of
                  (Inl e, db') \<Rightarrow> (Inl (ApprovalFailed e), s\<lparr>ts_approvals := Some db'\<rparr>)
                | (Inr a, db') \<Rightarrow> (Inr (ApprovalAsked a), s\<lparr>ts_approvals := Some db'\<rparr>))
          else (case AuthorizeReceipt (q_approval_token q) (q_user_id q) (q_name q) (args_hash (q_arguments q))
                  (q_target q) (en_now en) (en_stored en) db of
                  (Inl e, db') \<Rightarrow> (Inl (ApprovalFailed e), s\<lparr>ts_approvals := Some db'\<rparr>)
                | (Inr c, db') \<Rightarrow>
                    run_handler x ((metadata_for q)\<lparr>x_approval := Some c\<rparr>) (q_arguments q) (s\<lparr>ts_approvals := Some db'\<rparr>)))"

definition Execute_tool ::
  "call_env \<Rightarrow> tool_request \<Rightarrow> ('w, 'v) tools_state \<Rightarrow> (tool_error, 'v tool_result) result \<times> ('w, 'v) tools_state" where
  "Execute_tool en q s =
     (case ts_tools s (q_name q) of
        None \<Rightarrow> (Inl ToolNotRegistered, s)
      | Some x \<Rightarrow>
          (case charge_tool s of
             (Inl e, s1) \<Rightarrow> (Inl (OverBudget e), s1)
           | (Inr _, s1) \<Rightarrow>
               (let d = Evaluate (r_spec x) (q_mode q) in
                if \<not> d_allowed d \<and> \<not> d_needs_approval d then (Inl (PolicyDenied (d_reason d)), s1)
                else if d_needs_approval d then execute_approved en x q s1
                else run_handler x (metadata_for q) (q_arguments q) s1)))"

section \<open>Histories\<close>

text \<open>
  A history mixes registrations, tool calls, fresh budgets (one per request of the agent) and the
  operations on approvals that other parts of the program perform, the verdicts of the owner among them.
\<close>

datatype ('w, 'v) tool_event =
    TRegister "('w, 'v) registered"
  | TExecute call_env tool_request
  | TBudget "budget option"
  | TApproval appr_op

fun tool_step :: "('w, 'v) tool_event \<Rightarrow> ('w, 'v) tools_state \<Rightarrow> ('w, 'v) tools_state" where
  "tool_step (TRegister x) s = snd (Register_tool x s)"
| "tool_step (TExecute en q) s = snd (Execute_tool en q s)"
| "tool_step (TBudget b) s = s\<lparr>ts_budget := b\<rparr>"
| "tool_step (TApproval e) s = s\<lparr>ts_approvals := map_option (appr_step e) (ts_approvals s)\<rparr>"

definition tool_run :: "('w, 'v) tool_event list \<Rightarrow> budget option \<Rightarrow> 'w \<Rightarrow> ('w, 'v) tools_state" where
  "tool_run es b w = fold tool_step es (NewRegistry (Some no_approvals) b w)"

section \<open>What a step does to the trace\<close>

text \<open>
  Either no handler runs, or one does: without an approval where the policy allows the mode, or with
  the receipt just redeemed for this request.
\<close>

definition free_run :: "tool \<Rightarrow> execution_metadata \<Rightarrow> bool" where
  "free_run t m \<longleftrightarrow> x_approval m = None \<and> d_allowed (Evaluate t (x_mode m))"

definition receipt_fits :: "receipt \<Rightarrow> execution_metadata \<Rightarrow> bool" where
  "receipt_fits c m \<longleftrightarrow> c_user c = x_user m \<and> c_tool c = x_name m \<and> c_args_hash c = x_args_hash m \<and> c_resource c = x_resource m"

definition covered_run :: "tool \<Rightarrow> execution_metadata \<Rightarrow> bool" where
  "covered_run t m \<longleftrightarrow> d_needs_approval (Evaluate t (x_mode m)) \<and> (\<exists>c. x_approval m = Some c \<and> receipt_fits c m)"

lemma charge_tool_frame [simp]:
  "ts_tools (snd (charge_tool s)) = ts_tools s" "ts_approvals (snd (charge_tool s)) = ts_approvals s"
  "ts_world (snd (charge_tool s)) = ts_world s" "ts_runs (snd (charge_tool s)) = ts_runs s"
  by (simp_all add: charge_tool_def split: option.splits prod.splits)

lemma run_handler_frame [simp]:
  "ts_tools (snd (run_handler x m a s)) = ts_tools s" "ts_approvals (snd (run_handler x m a s)) = ts_approvals s"
  "ts_budget (snd (run_handler x m a s)) = ts_budget s"
  by (simp_all add: run_handler_def split: option.splits prod.splits sum.splits)

lemma run_handler_runs: "ts_runs (snd (run_handler x m a s)) = ts_runs s \<or> ts_runs (snd (run_handler x m a s)) = ts_runs s @ [m]"
  by (simp add: run_handler_def split: option.splits prod.splits sum.splits)

inductive tool_effect :: "('w, 'v) tools_state \<Rightarrow> call_env \<Rightarrow> tool_request \<Rightarrow> ('w, 'v) tools_state \<Rightarrow> bool" for s en q where
  quiet: "ts_tools s' = ts_tools s \<Longrightarrow> ts_runs s' = ts_runs s \<Longrightarrow>
    ts_approvals s' = ts_approvals s
    \<or> ts_approvals s' = map_option (appr_step (OpRequest (en_bytes en) (q_user_id q) (q_name q) (args_hash (q_arguments q))
        (q_target q) (5 * minute) (en_now en) (en_stored en) (en_logged en))) (ts_approvals s)
    \<or> ts_approvals s' = map_option (appr_step (OpRedeem (q_approval_token q) (q_user_id q) (q_name q)
        (args_hash (q_arguments q)) (q_target q) (en_now en) (en_stored en))) (ts_approvals s) \<Longrightarrow> tool_effect s en q s'"
| free: "ts_tools s' = ts_tools s \<Longrightarrow> ts_approvals s' = ts_approvals s \<Longrightarrow> ts_runs s' = ts_runs s @ [metadata_for q] \<Longrightarrow>
    ts_tools s (q_name q) = Some x \<Longrightarrow> d_allowed (Evaluate (r_spec x) (q_mode q)) \<Longrightarrow> tool_effect s en q s'"
| covered: "ts_tools s' = ts_tools s \<Longrightarrow> ts_approvals s = Some db \<Longrightarrow> ts_tools s (q_name q) = Some x \<Longrightarrow>
    d_needs_approval (Evaluate (r_spec x) (q_mode q)) \<Longrightarrow>
    AuthorizeReceipt (q_approval_token q) (q_user_id q) (q_name q) (args_hash (q_arguments q)) (q_target q)
      (en_now en) (en_stored en) db = (Inr c, db') \<Longrightarrow> ts_approvals s' = Some db' \<Longrightarrow>
    ts_runs s' = ts_runs s @ [(metadata_for q)\<lparr>x_approval := Some c\<rparr>] \<Longrightarrow> tool_effect s en q s'"

lemma execute_approved_effect:
  assumes "ts_tools s (q_name q) = Some x" and "d_needs_approval (Evaluate (r_spec x) (q_mode q))"
  shows "tool_effect s en q (snd (execute_approved en x q s))"
proof (cases "ts_approvals s")
  case None
  then show ?thesis by (intro quiet) (simp_all add: execute_approved_def)
next
  case (Some db)
  show ?thesis
  proof (cases "q_approval_token q = []")
    case True
    then show ?thesis using Some by (intro quiet) (simp_all add: execute_approved_def split: prod.splits sum.splits)
  next
    case False
    obtain r db' where res: "AuthorizeReceipt (q_approval_token q) (q_user_id q) (q_name q) (args_hash (q_arguments q))
      (q_target q) (en_now en) (en_stored en) db = (r, db')" by (cases rule: prod.exhaust)
    show ?thesis
    proof (cases r)
      case (Inl e)
      with res Some False show ?thesis by (intro quiet) (simp_all add: execute_approved_def)
    next
      case (Inr c)
      let ?s1 = "s\<lparr>ts_approvals := Some db'\<rparr>" and ?m = "(metadata_for q)\<lparr>x_approval := Some c\<rparr>"
      have eq: "execute_approved en x q s = run_handler x ?m (q_arguments q) ?s1"
        using res Some False Inr by (simp add: execute_approved_def)
      from run_handler_runs [of x ?m "q_arguments q" ?s1] show ?thesis
      proof
        assume "ts_runs (snd (run_handler x ?m (q_arguments q) ?s1)) = ts_runs ?s1"
        then show ?thesis unfolding eq by (intro quiet) (simp_all add: Some res)
      next
        assume "ts_runs (snd (run_handler x ?m (q_arguments q) ?s1)) = ts_runs ?s1 @ [?m]"
        then show ?thesis unfolding eq using assms Some res Inr by (intro covered [where db' = db' and c = c]) simp_all
      qed
    qed
  qed
qed

lemma tool_effect_charged: "tool_effect (snd (charge_tool s)) en q s' \<Longrightarrow> tool_effect s en q s'"
  by (erule tool_effect.cases) (auto intro: tool_effect.intros)

lemma Execute_tool_effect: "tool_effect s en q (snd (Execute_tool en q s))"
proof (cases "ts_tools s (q_name q)")
  case None
  then show ?thesis by (intro quiet) (simp_all add: Execute_tool_def)
next
  case (Some x)
  obtain r s1 where ch: "charge_tool s = (r, s1)" by (cases "charge_tool s")
  then have fr: "ts_tools s1 = ts_tools s" "ts_approvals s1 = ts_approvals s" "ts_runs s1 = ts_runs s"
    using charge_tool_frame [of s] by simp_all
  let ?d = "Evaluate (r_spec x) (q_mode q)"
  consider (over) e where "r = Inl e" | (deny) "r = Inr ()" "\<not> d_allowed ?d" "\<not> d_needs_approval ?d"
    | (need) "r = Inr ()" "d_needs_approval ?d" | (allow) "r = Inr ()" "d_allowed ?d" "\<not> d_needs_approval ?d"
    by (cases r) auto
  then show ?thesis
  proof cases
    case need
    then have "Execute_tool en q s = execute_approved en x q s1" using Some ch by (simp add: Execute_tool_def Let_def)
    then show ?thesis
      using execute_approved_effect [of s1 q x en] need Some fr ch tool_effect_charged [of s en q] by simp
  next
    case allow
    then have eq: "Execute_tool en q s = run_handler x (metadata_for q) (q_arguments q) s1"
      using Some ch by (simp add: Execute_tool_def Let_def)
    from run_handler_runs [of x "metadata_for q" "q_arguments q" s1] show ?thesis
    proof
      assume "ts_runs (snd (run_handler x (metadata_for q) (q_arguments q) s1)) = ts_runs s1"
      then show ?thesis unfolding eq by (intro quiet) (simp_all add: fr)
    next
      assume "ts_runs (snd (run_handler x (metadata_for q) (q_arguments q) s1)) = ts_runs s1 @ [metadata_for q]"
      then show ?thesis unfolding eq using Some allow by (intro free) (simp_all add: fr)
    qed
  qed (use Some ch in \<open>auto intro!: quiet simp: Execute_tool_def Let_def fr\<close>)
qed

section \<open>The invariant\<close>

definition run_receipts :: "execution_metadata list \<Rightarrow> string list" where
  "run_receipts ms = concat (map (\<lambda>m. case x_approval m of None \<Rightarrow> [] | Some c \<Rightarrow> [c_id c]) ms)"

text \<open>
  The run carries the receipt of a row of the approvals database, which names its user, its tool, its arguments and
  its resource, and which an event of the history approved: with the token of the row, before it expired.
\<close>

definition owner_approved :: "('w, 'v) tool_event list \<Rightarrow> ('w, 'v) tools_state \<Rightarrow> execution_metadata \<Rightarrow> bool" where
  "owner_approved es s m \<longleftrightarrow> (\<exists>db c e. \<exists>r \<in> set (requests db). ts_approvals s = Some db \<and> x_approval m = Some c \<and> c_id c = a_id r
     \<and> a_state r = AApproved \<and> a_user r = x_user m \<and> a_tool r = x_name m
     \<and> a_args_hash r = x_args_hash m \<and> a_resource r = x_resource m \<and> TApproval e \<in> set es \<and> approves e r)"

text \<open>What a step keeps of the tools and of the approved rows.\<close>

definition state_grows :: "('w, 'v) tools_state \<Rightarrow> ('w, 'v) tools_state \<Rightarrow> bool" where
  "state_grows s s' \<longleftrightarrow> (\<forall>n x. ts_tools s n = Some x \<longrightarrow> ts_tools s' n = Some x)
     \<and> (\<forall>db. ts_approvals s = Some db \<longrightarrow> (\<exists>db'. ts_approvals s' = Some db' \<and> approvals_stay db db'))"

lemma state_grows_same [simp]: "ts_tools s' = ts_tools s \<Longrightarrow> ts_approvals s' = ts_approvals s \<Longrightarrow> state_grows s s'"
  by (simp add: state_grows_def)

definition run_allowed :: "('w, 'v) tool_event list \<Rightarrow> ('w, 'v) tools_state \<Rightarrow> execution_metadata \<Rightarrow> bool" where
  "run_allowed es s m \<longleftrightarrow> (\<exists>x. ts_tools s (x_name m) = Some x
     \<and> (free_run (r_spec x) m \<or> covered_run (r_spec x) m \<and> owner_approved es s m))"

definition tools_known :: "('w, 'v) tool_event list \<Rightarrow> ('w, 'v) tools_state \<Rightarrow> bool" where
  "tools_known es s \<longleftrightarrow> (\<forall>n x. ts_tools s n = Some x \<longrightarrow>
     TRegister x \<in> set es \<and> t_name (r_spec x) = n \<and> Validate (r_spec x) = Inr ())"

definition ops_known :: "('w, 'v) tool_event list \<Rightarrow> appr_op list \<Rightarrow> bool" where
  "ops_known es ops \<longleftrightarrow> (\<forall>e \<in> set ops. TApproval e \<in> set es \<or> (\<forall>r. \<not> approves e r))"

definition receipts_spent :: "execution_metadata list \<Rightarrow> appr_db \<Rightarrow> bool" where
  "receipts_spent ms db \<longleftrightarrow> distinct (run_receipts ms) \<and> set (run_receipts ms) \<subseteq> fst ` set (uses db)"

definition tool_inv :: "('w, 'v) tool_event list \<Rightarrow> ('w, 'v) tools_state \<Rightarrow> appr_op list \<Rightarrow> bool" where
  "tool_inv es s ops \<longleftrightarrow> ts_approvals s = Some (appr_run ops) \<and> ops_known es ops \<and> tools_known es s
     \<and> (\<forall>m \<in> set (ts_runs s). run_allowed es s m) \<and> receipts_spent (ts_runs s) (appr_run ops)"

lemma run_receipts_append [simp]:
  "run_receipts (ms @ [m]) = run_receipts ms @ (case x_approval m of None \<Rightarrow> [] | Some c \<Rightarrow> [c_id c])"
  by (simp add: run_receipts_def)

lemma uses_grow: "appr_inv db \<Longrightarrow> fst ` set (uses db) \<subseteq> fst ` set (uses (appr_step e db))"
  using appr_step_effect [of db e] by (auto elim!: appr_effect.cases)

lemma receipts_spent_step: "receipts_spent ms (appr_run ops) \<Longrightarrow> receipts_spent ms (appr_run (ops @ [e]))"
  using uses_grow [OF appr_run_inv, of ops e] by (auto simp: receipts_spent_def appr_run_def)

lemma owner_approved_mono:
  assumes "owner_approved es s m" and "state_grows s s'"
  shows "owner_approved (es @ [e]) s' m"
proof -
  obtain db c v r where r: "r \<in> set (requests db)" "ts_approvals s = Some db" "x_approval m = Some c" "c_id c = a_id r"
     "a_state r = AApproved" "a_user r = x_user m" "a_tool r = x_name m" "a_args_hash r = x_args_hash m" "a_resource r = x_resource m"
     "TApproval v \<in> set es" "approves v r"
    using assms(1) unfolding owner_approved_def by blast
  from assms(2) r(2) obtain db' where db': "ts_approvals s' = Some db'" "approvals_stay db db'" by (auto simp: state_grows_def)
  then have "r \<in> set (requests db')" using r(1,5) by (simp add: approvals_stay_def)
  then show ?thesis unfolding owner_approved_def
    by (intro exI [of _ db'] exI [of _ c] exI [of _ v] bexI [of _ r]) (simp_all add: r db')
qed

lemma run_allowed_mono:
  assumes "run_allowed es s m" and "state_grows s s'"
  shows "run_allowed (es @ [e]) s' m"
proof -
  obtain x where x: "ts_tools s (x_name m) = Some x"
    "free_run (r_spec x) m \<or> covered_run (r_spec x) m \<and> owner_approved es s m"
    using assms(1) by (auto simp: run_allowed_def)
  then show ?thesis using assms(2) owner_approved_mono [OF _ assms(2)] unfolding run_allowed_def state_grows_def by blast
qed

lemma tools_known_same: "tools_known es s \<Longrightarrow> ts_tools s' = ts_tools s \<Longrightarrow> tools_known (es @ [e]) s'"
  by (auto simp: tools_known_def)

lemma ops_known_mono: "ops_known es ops \<Longrightarrow> ops_known (es @ [e]) ops"
  by (auto simp: ops_known_def)

lemma ops_known_snoc:
  "ops_known es ops \<Longrightarrow> TApproval op = e \<or> (\<forall>r. \<not> approves op r) \<Longrightarrow> ops_known (es @ [e]) (ops @ [op])"
  by (auto simp: ops_known_def)

lemma tool_inv_quiet:
  assumes "tool_inv es s ops" and "ts_tools s' = ts_tools s" and "ts_runs s' = ts_runs s" and "ts_approvals s' = ts_approvals s"
  shows "tool_inv (es @ [e]) s' ops"
  using assms by (auto simp: tool_inv_def intro: ops_known_mono tools_known_same run_allowed_mono)

lemma tool_inv_op:
  assumes "tool_inv es s ops" and "ts_tools s' = ts_tools s" and "ts_runs s' = ts_runs s"
    and "ts_approvals s' = map_option (appr_step op) (ts_approvals s)" and "TApproval op = e \<or> (\<forall>r. \<not> approves op r)"
  shows "tool_inv (es @ [e]) s' (ops @ [op])"
proof -
  have "ts_approvals s' = Some (appr_run (ops @ [op]))" using assms(1,4) by (simp add: tool_inv_def appr_run_def)
  moreover have "receipts_spent (ts_runs s) (appr_run (ops @ [op]))"
    using assms(1) by (intro receipts_spent_step) (simp add: tool_inv_def)
  moreover have "state_grows s s'"
    using assms(1,2,4) appr_step_stays [OF appr_run_inv, of ops op] by (simp add: state_grows_def tool_inv_def)
  ultimately show ?thesis using assms(1-3,5)
    by (auto simp: tool_inv_def intro: ops_known_snoc tools_known_same run_allowed_mono)
qed

lemma tool_inv_free:
  assumes "tool_inv es s ops" and "ts_tools s' = ts_tools s" and "ts_approvals s' = ts_approvals s"
    and "ts_runs s' = ts_runs s @ [m]" and "ts_tools s (x_name m) = Some x" and "free_run (r_spec x) m"
  shows "tool_inv (es @ [e]) s' ops"
proof -
  have "run_allowed (es @ [e]) s' m" using assms(2,5,6) by (auto simp: run_allowed_def)
  moreover have "x_approval m = None" using assms(6) by (simp add: free_run_def)
  ultimately show ?thesis using assms(1-4)
    by (auto simp: tool_inv_def receipts_spent_def intro: ops_known_mono tools_known_same run_allowed_mono)
qed

lemma tool_inv_covered:
  fixes q :: tool_request and c :: receipt and t u :: time
  defines "m \<equiv> (metadata_for q)\<lparr>x_approval := Some c\<rparr>"
    and "op \<equiv> OpRedeem (q_approval_token q) (q_user_id q) (q_name q) (args_hash (q_arguments q)) (q_target q) t u"
  assumes inv: "tool_inv es s ops" and same: "ts_tools s' = ts_tools s" and x: "ts_tools s (q_name q) = Some x"
    and need: "d_needs_approval (Evaluate (r_spec x) (q_mode q))"
    and redeem: "AuthorizeReceipt (q_approval_token q) (q_user_id q) (q_name q) (args_hash (q_arguments q)) (q_target q) t u
      (appr_run ops) = (Inr c, db')"
    and "ts_approvals s' = Some db'" and runs: "ts_runs s' = ts_runs s @ [m]"
  shows "tool_inv (es @ [e]) s' (ops @ [op])"
proof -
  have db': "db' = appr_run (ops @ [op])" using redeem by (simp add: op_def appr_run_def)
  obtain r where r: "r \<in> set (requests (appr_run ops))" "a_state r = AApproved" "a_user r = q_user_id q" "a_tool r = q_name q"
      "a_args_hash r = args_hash (q_arguments q)" "a_resource r = q_target q" "a_id r \<notin> fst ` set (uses (appr_run ops))"
      "c_id c = a_id r" "c_user c = a_user r" "c_tool c = a_tool r" "c_args_hash c = a_args_hash r" "c_resource c = a_resource r"
      "uses db' = uses (appr_run ops) @ [(a_id r, u)]"
    using redeem by (auto simp: AuthorizeReceipt_def dest!: by_tokenD split: option.splits if_splits)
  have fits: "receipt_fits c m" by (simp add: receipt_fits_def m_def metadata_for_def r)
  obtain v where v: "v \<in> set ops" "approves v r" using approved_by_someone [OF r(1,2)] by blast
  with inv have "TApproval v \<in> set es" by (auto simp: tool_inv_def ops_known_def)
  have rows: "requests db' = requests (appr_run ops)" using redeem by (auto simp: AuthorizeReceipt_def split: option.splits if_splits)
  then have "owner_approved (es @ [e]) s' m"
    unfolding owner_approved_def
    by (intro exI [of _ db'] exI [of _ c] exI [of _ v] bexI [of _ r])
       (use v(2) r assms(8) \<open>TApproval v \<in> set es\<close> in \<open>simp_all add: m_def metadata_for_def\<close>)
  moreover have "covered_run (r_spec x) m" using need fits by (simp add: covered_run_def m_def metadata_for_def)
  ultimately have "run_allowed (es @ [e]) s' m"
    unfolding run_allowed_def using x by (intro exI [of _ x]) (simp add: same m_def metadata_for_def)
  moreover have "receipts_spent (ts_runs s') (appr_run (ops @ [op]))"
    using inv r(7,8,13) by (auto simp: tool_inv_def receipts_spent_def runs m_def db' [symmetric])
  moreover have "ops_known (es @ [e]) (ops @ [op])" using inv by (auto simp: tool_inv_def op_def intro: ops_known_snoc)
  moreover have "state_grows s s'"
    using inv same assms(8) rows by (simp add: state_grows_def tool_inv_def approvals_stay_def)
  ultimately show ?thesis using inv same runs assms(8) db'
    by (auto simp: tool_inv_def intro: tools_known_same run_allowed_mono)
qed

lemma Register_keeps:
  assumes "tool_inv es s ops"
  shows "tool_inv (es @ [TRegister x]) (snd (Register_tool x s)) ops"
proof (cases "Validate (r_spec x) = Inr () \<and> r_run x \<noteq> None \<and> ts_tools s (t_name (r_spec x)) = None")
  case True
  then have eq: "snd (Register_tool x s) = s\<lparr>ts_tools := (ts_tools s)(t_name (r_spec x) \<mapsto> x)\<rparr>"
    by (auto simp: Register_tool_def)
  have "run_allowed (es @ [TRegister x]) (snd (Register_tool x s)) m" if "run_allowed es s m" for m
    using that by (rule run_allowed_mono) (use True in \<open>auto simp: eq state_grows_def\<close>)
  moreover have "tools_known (es @ [TRegister x]) (snd (Register_tool x s))"
    using assms True by (auto simp: tool_inv_def tools_known_def eq)
  ultimately show ?thesis using assms by (auto simp: tool_inv_def eq intro: ops_known_mono)
next
  case False
  then have "snd (Register_tool x s) = s" by (auto simp: Register_tool_def split: sum.split)
  with assms show ?thesis by (auto intro: tool_inv_quiet)
qed

lemma Execute_keeps:
  assumes "tool_inv es s ops"
  shows "\<exists>ops'. tool_inv (es @ [TExecute en q]) (snd (Execute_tool en q s)) ops'"
  using Execute_tool_effect [of s en q]
proof cases
  case quiet
  from quiet(3) show ?thesis
  proof (elim disjE)
    assume "ts_approvals (snd (Execute_tool en q s)) = ts_approvals s"
    with assms quiet show ?thesis by (blast intro: tool_inv_quiet)
  qed (rule exI, rule tool_inv_op [OF assms quiet(1,2)], assumption, simp)+
next
  case (free x)
  then have "tool_inv (es @ [TExecute en q]) (snd (Execute_tool en q s)) ops"
    by (intro tool_inv_free [OF assms free(1-3), of x]) (simp_all add: free_run_def metadata_for_def)
  then show ?thesis ..
next
  case (covered db x c db')
  then have "db = appr_run ops" using assms by (simp add: tool_inv_def)
  with covered(5) have "tool_inv (es @ [TExecute en q]) (snd (Execute_tool en q s))
      (ops @ [OpRedeem (q_approval_token q) (q_user_id q) (q_name q) (args_hash (q_arguments q)) (q_target q) (en_now en) (en_stored en)])"
    by (intro tool_inv_covered [OF assms covered(1,3,4) _ covered(6,7)]) simp
  then show ?thesis ..
qed

lemma tool_run_inv: "\<exists>ops. tool_inv es (tool_run es b w) ops"
proof (induction es rule: rev_induct)
  case Nil
  have "tool_inv [] (tool_run [] b w) []"
    by (simp add: tool_inv_def tool_run_def NewRegistry_def appr_run_def ops_known_def tools_known_def receipts_spent_def run_receipts_def)
  then show ?case ..
next
  case (snoc e es)
  then obtain ops where inv: "tool_inv es (tool_run es b w) ops" ..
  have eq: "tool_run (es @ [e]) b w = tool_step e (tool_run es b w)" by (simp add: tool_run_def)
  show ?case
  proof (cases e)
    case (TRegister x)
    have "tool_inv (es @ [e]) (tool_step e (tool_run es b w)) ops" using Register_keeps [OF inv, of x] by (simp add: TRegister)
    then show ?thesis unfolding eq ..
  next
    case (TExecute en q)
    have "\<exists>ops. tool_inv (es @ [e]) (tool_step e (tool_run es b w)) ops" using Execute_keeps [OF inv] by (simp add: TExecute)
    then show ?thesis unfolding eq .
  next
    case (TBudget b')
    have "tool_inv (es @ [e]) (tool_step e (tool_run es b w)) ops" by (rule tool_inv_quiet [OF inv]) (simp_all add: TBudget)
    then show ?thesis unfolding eq ..
  next
    case (TApproval op)
    have "tool_inv (es @ [e]) (tool_step e (tool_run es b w)) (ops @ [op])"
      by (rule tool_inv_op [OF inv]) (simp_all add: TApproval)
    then show ?thesis unfolding eq ..
  qed
qed

section \<open>The theorems\<close>

text \<open>
  C5: No tool runs outside the policy. Whatever is registered, asked for and decided, in whatever order,
  every run of a handler is a run of a registered tool in a mode it declares, and it either needed no approval
  (so the mode is not Publish, nor the risk High or Critical) or it carries the receipt of a row of the approvals
  database that names exactly its user, its tool, its arguments (by their hash) and its resource, and that was approved in this
  history by its own user with the token of the row, before the row expired. As this holds of every history, also of the one that
  ends with the run, the approval came before it.
\<close>

theorem tools_run_within_policy:
  assumes "m \<in> set (ts_runs (tool_run es b w))"
  shows "\<exists>x. TRegister x \<in> set es \<and> t_name (r_spec x) = x_name m \<and> x_mode m \<in> set (t_modes (r_spec x))
    \<and> (x_mode m \<noteq> Publish \<and> t_risk (r_spec x) \<noteq> High \<and> t_risk (r_spec x) \<noteq> Critical \<and> \<not> t_approval (r_spec x)
       \<or> (\<exists>db c e. \<exists>r \<in> set (requests db). ts_approvals (tool_run es b w) = Some db \<and> x_approval m = Some c \<and> c_id c = a_id r
            \<and> a_state r = AApproved \<and> a_user r = x_user m \<and> a_tool r = x_name m
            \<and> a_args_hash r = x_args_hash m \<and> a_resource r = x_resource m \<and> TApproval e \<in> set es \<and> approves e r))"
proof -
  obtain ops where inv: "tool_inv es (tool_run es b w) ops" using tool_run_inv ..
  with assms obtain x where x: "ts_tools (tool_run es b w) (x_name m) = Some x"
    and run: "free_run (r_spec x) m \<or> covered_run (r_spec x) m \<and> owner_approved es (tool_run es b w) m"
    by (auto simp: tool_inv_def run_allowed_def)
  have known: "TRegister x \<in> set es" "t_name (r_spec x) = x_name m" using inv x by (auto simp: tool_inv_def tools_known_def)
  from run have "x_mode m \<in> set (t_modes (r_spec x)) \<and> (x_mode m \<noteq> Publish \<and> t_risk (r_spec x) \<noteq> High
      \<and> t_risk (r_spec x) \<noteq> Critical \<and> \<not> t_approval (r_spec x) \<or> owner_approved es (tool_run es b w) m)"
    by (auto simp: free_run_def covered_run_def Evaluate_allowed_iff Evaluate_needs_iff)
  with known show ?thesis unfolding owner_approved_def by blast
qed

text \<open>
  An approval serves one run: over a whole history, no two runs of handlers carry the same receipt.
\<close>

theorem receipts_serve_one_run: "distinct (run_receipts (ts_runs (tool_run es b w)))"
  using tool_run_inv [of es b w] by (auto simp: tool_inv_def receipts_spent_def)

text \<open>
  With a budget that is used up, no tool runs: the call fails before policy and approval are looked
  at, and an approval token presented with it is not spent.
\<close>

theorem exhausted_budget_stops_tools:
  assumes "ts_budget s = Some b" and "bl_tool_calls (bu_used b) = bl_tool_calls (bu_limits b)"
    and "bl_tool_calls (bu_limits b) < max_int64" and "0 \<le> bl_tool_calls (bu_used b)"
  shows "\<not> is_ok (fst (Execute_tool en q s)) \<and> ts_runs (snd (Execute_tool en q s)) = ts_runs s
    \<and> ts_approvals (snd (Execute_tool en q s)) = ts_approvals s"
proof -
  have "wrap64 (bl_tool_calls (bu_used b) + 1) = bl_tool_calls (bu_used b) + 1"
    using assms by (intro wrap64_id) (simp_all add: min_int64_def)
  then have "UseTool b = (Inl BudgetExceeded, b)" using assms by (simp add: UseTool_def consume_def Let_def no_use_def)
  then have "charge_tool s = (Inl BudgetExceeded, s\<lparr>ts_budget := Some b\<rparr>)" using assms by (simp add: charge_tool_def)
  then show ?thesis by (simp add: Execute_tool_def split: option.split)
qed

section \<open>The theorems at one tool\<close>

definition demo_push :: "(nat, string) registered" where
  "demo_push = \<lparr>r_spec = \<lparr>t_name = ''git.push'', t_version = ''1'', t_input_schema = [], t_risk = High, t_modes = [Write],
     t_approval = True, t_timeout = second, t_output_limit = 100, t_path_scope = [], t_network_scope = [],
     t_idempotency = NonRepeatable\<rparr>, r_run = Some (\<lambda>m a w. (Inr ''pushed'', Suc w))\<rparr>"

definition demo_push_request :: tool_request where
  "demo_push_request = \<lparr>q_name = ''git.push'', q_arguments = ''{}'', q_mode = Write, q_user_id = 7, q_target = ''repo'',
     q_approval_token = demo_token\<rparr>"

definition demo_env :: call_env where
  "demo_env = \<lparr>en_bytes = demo_bytes, en_now = 0, en_stored = 0, en_logged = 0\<rparr>"

definition demo_tool_events :: "(nat, string) tool_event list" where
  "demo_tool_events =
     [TRegister demo_push, TExecute demo_env (demo_push_request\<lparr>q_approval_token := []\<rparr>),
      TApproval (OpResolveToken demo_token 7 ''approved'' second second second),
      TExecute (demo_env\<lparr>en_now := minute\<rparr>) demo_push_request]"

lemma demo_push_runs: "ts_world (tool_run demo_tool_events None 0) = 1 \<and> length (ts_runs (tool_run demo_tool_events None 0)) = 1"
  by (simp add: tool_run_def demo_tool_events_def NewRegistry_def Register_tool_def demo_push_def Validate_def
      Execute_tool_def charge_tool_def Evaluate_def Let_def execute_approved_def demo_push_request_def demo_env_def
      Create_request_def no_approvals_def ResolveToken_def Resolve_request_def by_token_def select_one_def demo_token_def
      decision_state_def expiry_of_def parse_stored_def in_range_def max_seconds_def units rows_affected_def update_where_def
      AuthorizeReceipt_def run_handler_def demo_bytes_def)

lemma tools_run_within_policy_witness:
  "\<exists>m db c e r. m \<in> set (ts_runs (tool_run demo_tool_events None 0)) \<and> ts_approvals (tool_run demo_tool_events None 0) = Some db
     \<and> r \<in> set (requests db) \<and> x_approval m = Some c \<and> c_id c = a_id r \<and> TApproval e \<in> set demo_tool_events \<and> approves e r
     \<and> a_user r = x_user m \<and> a_tool r = ''git.push''"
proof -
  obtain m where m: "m \<in> set (ts_runs (tool_run demo_tool_events None 0))"
    using demo_push_runs by (cases "ts_runs (tool_run demo_tool_events None 0)") auto
  from tools_run_within_policy [OF m] obtain x where x: "TRegister x \<in> set demo_tool_events" "t_name (r_spec x) = x_name m"
    "\<not> t_approval (r_spec x) \<or> owner_approved demo_tool_events (tool_run demo_tool_events None 0) m"
    unfolding owner_approved_def by blast
  from x(1) have "x = demo_push" by (simp add: demo_tool_events_def)
  with x(2,3) have "x_name m = ''git.push'' \<and> owner_approved demo_tool_events (tool_run demo_tool_events None 0) m" by (simp add: demo_push_def)
  with m show ?thesis unfolding owner_approved_def by (elim conjE exE bexE) (intro exI conjI; simp)
qed

lemma exhausted_budget_stops_tools_witness:
  "ts_runs (snd (Execute_tool demo_env demo_push_request
     ((NewRegistry None (Some demo_budget) (0 :: nat))\<lparr>ts_tools := [''git.push'' \<mapsto> demo_push],
        ts_budget := Some (demo_budget\<lparr>bu_used := demo_limits\<rparr>)\<rparr>))) = []"
  (is "ts_runs (snd (Execute_tool _ _ ?s)) = []")
proof -
  have "ts_runs (snd (Execute_tool demo_env demo_push_request ?s)) = ts_runs ?s"
    using exhausted_budget_stops_tools [of ?s "demo_budget\<lparr>bu_used := demo_limits\<rparr>" demo_env demo_push_request]
    by (simp add: demo_budget_def demo_limits_def max_int64_def)
  then show ?thesis by (simp add: NewRegistry_def)
qed

end
