(* ===== verification/Workspace.thy ===== *)
theory Workspace
  imports Tools
begin

text \<open>
  \<open>builtin.go\<close> of \<open>internal/tools\<close>: the tools on the workspace and the process runner, as they are
  declared to the registry. What their handlers do is a parameter here.
\<close>

definition workspace_spec :: "string \<Rightarrow> string \<Rightarrow> risk \<Rightarrow> mode list \<Rightarrow> bool \<Rightarrow> duration \<Rightarrow> int \<Rightarrow> idempotency \<Rightarrow> tool" where
  "workspace_spec dir name r ms appr timeout limit idem =
     \<lparr>t_name = name, t_version = ''1'', t_input_schema = [], t_risk = r, t_modes = ms, t_approval = appr, t_timeout = timeout,
      t_output_limit = limit, t_path_scope = [dir], t_network_scope = [], t_idempotency = idem\<rparr>"

definition workspace_specs :: "string \<Rightarrow> int \<Rightarrow> tool list" where
  "workspace_specs dir max_output =
     [workspace_spec dir ''workspace.list'' Safe [Read, Write, Admin] False (5 * second) 1048576 Idempotent,
      workspace_spec dir ''workspace.read'' Safe [Read, Write, Admin] False (5 * second) 1048576 Idempotent,
      workspace_spec dir ''workspace.search'' Low [Read, Write, Admin] False (10 * second) 1048576 Idempotent,
      workspace_spec dir ''workspace.write'' Medium [Write, Admin] True (5 * second) 1048576 AtLeastOnce,
      workspace_spec dir ''workspace.patch'' Medium [Write, Admin] True (5 * second) 1048576 AtLeastOnce,
      workspace_spec dir ''workspace.mkdir'' Medium [Write, Admin] True (5 * second) 4096 Idempotent,
      workspace_spec dir ''workspace.move_to_trash'' High [Write, Admin] True (5 * second) 4096 NonRepeatable,
      workspace_spec dir ''process.run'' Medium [Write, Admin] True (5 * minute) max_output AtLeastOnce]"

definition workspace_tools :: "string \<Rightarrow> int \<Rightarrow> (string \<Rightarrow> ('w, 'v) handler) \<Rightarrow> ('w, 'v) registered list" where
  "workspace_tools dir max_output h = map (\<lambda>t. \<lparr>r_spec = t, r_run = Some (h (t_name t))\<rparr>) (workspace_specs dir max_output)"

fun register_all :: "('w, 'v) registered list \<Rightarrow> ('w, 'v) tools_state \<Rightarrow> (tool_error, unit) result \<times> ('w, 'v) tools_state" where
  "register_all [] s = (Inr (), s)"
| "register_all (x # xs) s =
     (case Register_tool x s of (Inl e, s') \<Rightarrow> (Inl e, s') | (Inr _, s') \<Rightarrow> register_all xs s')"

definition RegisterWorkspace ::
  "string \<Rightarrow> int \<Rightarrow> (string \<Rightarrow> ('w, 'v) handler) \<Rightarrow> ('w, 'v) tools_state \<Rightarrow> (tool_error, unit) result \<times> ('w, 'v) tools_state" where
  "RegisterWorkspace dir max_output h s = register_all (workspace_tools dir max_output h) s"

section \<open>A registered tool stays\<close>

lemma Register_tool_grows: "ts_tools s n = Some x \<Longrightarrow> ts_tools (snd (Register_tool y s)) n = Some x"
  by (auto simp: Register_tool_def split: sum.split)

lemma Execute_tool_tools: "ts_tools (snd (Execute_tool en q s)) = ts_tools s"
  using Execute_tool_effect [of s en q] by (auto elim: tool_effect.cases)

lemma tool_step_grows: "ts_tools s n = Some x \<Longrightarrow> ts_tools (tool_step e s) n = Some x"
  by (cases e) (simp_all add: Register_tool_grows Execute_tool_tools)

interpretation registry: final_machine tool_step "\<lambda>s. True" ts_tools "\<lambda>x. True"
  by unfold_locales (simp_all add: tool_step_grows)

lemma register_all_run: "\<exists>es. set es \<subseteq> TRegister ` set xs \<and> snd (register_all xs s) = fold tool_step es s"
proof (induction xs arbitrary: s)
  case Nil
  show ?case by (intro exI [of _ "[]"]) simp
next
  case (Cons x xs)
  obtain r s' where reg: "Register_tool x s = (r, s')" by (cases "Register_tool x s")
  show ?case
  proof (cases r)
    case (Inl e)
    with reg show ?thesis by (intro exI [of _ "[TRegister x]"]) simp
  next
    case (Inr u)
    obtain es where "set es \<subseteq> TRegister ` set xs" "snd (register_all xs s') = fold tool_step es s'" using Cons.IH by blast
    with reg Inr show ?thesis by (intro exI [of _ "TRegister x # es"]) auto
  qed
qed

lemma register_all_grows: "ts_tools s n = Some x \<Longrightarrow> ts_tools (snd (register_all xs s)) n = Some x"
proof (induction xs arbitrary: s)
  case (Cons y ys)
  obtain r s' where reg: "Register_tool y s = (r, s')" by (cases "Register_tool y s")
  with Register_tool_grows [OF Cons.prems, of y] have "ts_tools s' n = Some x" by simp
  with reg Cons.IH [of s'] show ?case by (cases r) simp_all
qed simp

lemma register_all_prefix:
  assumes "distinct (map (\<lambda>x. t_name (r_spec x)) xs)" and "\<And>x. x \<in> set xs \<Longrightarrow> Validate (r_spec x) = Inr () \<and> r_run x \<noteq> None"
    and "\<And>x. x \<in> set xs \<Longrightarrow> ts_tools s (t_name (r_spec x)) = None" and "x \<in> set xs"
  shows "ts_tools (snd (register_all (xs @ ys) s)) (t_name (r_spec x)) = Some x"
  using assms
proof (induction xs arbitrary: s)
  case (Cons y xs)
  define s' where "s' = s\<lparr>ts_tools := (ts_tools s)(t_name (r_spec y) \<mapsto> y)\<rparr>"
  have reg: "Register_tool y s = (Inr (), s')" using Cons.prems(2,3) [of y] by (auto simp: Register_tool_def s'_def)
  show ?case
  proof (cases "x = y")
    case True
    have "ts_tools (snd (register_all (xs @ ys) s')) (t_name (r_spec y)) = Some y"
      by (rule register_all_grows) (simp add: s'_def)
    with True reg show ?thesis by simp
  next
    case False
    have "ts_tools s' (t_name (r_spec z)) = None" if "z \<in> set xs" for z
    proof -
      have "t_name (r_spec y) \<notin> (\<lambda>x. t_name (r_spec x)) ` set xs" using Cons.prems(1) by simp
      with that have "t_name (r_spec z) \<noteq> t_name (r_spec y)" by (metis imageI)
      with Cons.prems(3) [of z] that show ?thesis by (simp add: s'_def)
    qed
    then have "ts_tools (snd (register_all (xs @ ys) s')) (t_name (r_spec x)) = Some x"
      using Cons.prems False by (intro Cons.IH) auto
    with reg show ?thesis by simp
  qed
qed simp

lemma workspace_names [simp]:
  "map t_name (butlast (workspace_specs dir mx)) = [''workspace.list'', ''workspace.read'', ''workspace.search'', ''workspace.write'',
     ''workspace.patch'', ''workspace.mkdir'', ''workspace.move_to_trash'']"
  by (simp add: workspace_specs_def workspace_spec_def)

lemma workspace_changing:
  "map t_name (filter t_approval (butlast (workspace_specs dir mx))) =
     [''workspace.write'', ''workspace.patch'', ''workspace.mkdir'', ''workspace.move_to_trash'']"
  by (simp add: workspace_specs_def workspace_spec_def)

lemma workspace_valid: "t \<in> set (butlast (workspace_specs dir mx)) \<Longrightarrow> Validate t = Inr ()"
  by (auto simp: workspace_specs_def workspace_spec_def Validate_def units)

lemma workspace_registered:
  assumes "t \<in> set (butlast (workspace_specs dir mx))"
  shows "ts_tools (snd (RegisterWorkspace dir mx h (NewRegistry a b w))) (t_name t) = Some \<lparr>r_spec = t, r_run = Some (h (t_name t))\<rparr>"
proof -
  let ?f = "\<lambda>t. \<lparr>r_spec = t, r_run = Some (h (t_name t))\<rparr>"
  let ?xs = "map ?f (butlast (workspace_specs dir mx))"
  have split: "workspace_tools dir mx h = ?xs @ [?f (last (workspace_specs dir mx))]"
    unfolding workspace_tools_def by (subst append_butlast_last_id [symmetric]) (simp_all add: workspace_specs_def)
  have names: "map (\<lambda>x. t_name (r_spec x)) ?xs = map t_name (butlast (workspace_specs dir mx))"
    by (simp only: map_map comp_def registered.simps)
  have "distinct (map (\<lambda>x. t_name (r_spec x)) ?xs)" unfolding names workspace_names by simp
  moreover have "Validate (r_spec x) = Inr () \<and> r_run x \<noteq> None" if "x \<in> set ?xs" for x
    using that workspace_valid by auto
  moreover have "ts_tools (NewRegistry a b w) n = None" for n by (simp add: NewRegistry_def)
  moreover have "?f t \<in> set ?xs" using assms by simp
  ultimately have "ts_tools (snd (register_all (?xs @ [?f (last (workspace_specs dir mx))]) (NewRegistry a b w))) (t_name (r_spec (?f t)))
      = Some (?f t)"
    by (intro register_all_prefix)
  then show ?thesis by (simp add: RegisterWorkspace_def split)
qed

section \<open>The theorem\<close>

text \<open>
  Nothing changes the workspace without the owner. Once the workspace tools are registered, then whatever
  else is registered, asked for and decided, every run of a tool that writes, patches, makes a directory
  or moves to the trash is one that its user approved for exactly these arguments; no later registration
  takes the place of such a tool.
\<close>

theorem workspace_changes_are_approved:
  assumes "s = fold tool_step es (snd (RegisterWorkspace dir mx h (NewRegistry (Some no_approvals) b w)))"
    and "m \<in> set (ts_runs s)"
    and "x_name m \<in> {''workspace.write'', ''workspace.patch'', ''workspace.mkdir'', ''workspace.move_to_trash''}"
  shows "owner_approved es s m"
proof -
  let ?s0 = "snd (RegisterWorkspace dir mx h (NewRegistry (Some no_approvals) b w))"
  obtain rs where rs: "set rs \<subseteq> TRegister ` set (workspace_tools dir mx h)"
    and s0: "?s0 = fold tool_step rs (NewRegistry (Some no_approvals) b w)"
    unfolding RegisterWorkspace_def using register_all_run by blast
  then have run: "s = tool_run (rs @ es) b w" by (simp add: assms(1) tool_run_def)
  obtain ops where inv: "tool_inv (rs @ es) s ops" unfolding run using tool_run_inv ..
  with assms(2) obtain x where x: "ts_tools s (x_name m) = Some x"
    and ok: "free_run (r_spec x) m \<or> covered_run (r_spec x) m \<and> owner_approved (rs @ es) s m"
    by (auto simp: tool_inv_def run_allowed_def)
  obtain t where t: "t \<in> set (butlast (workspace_specs dir mx))" "t_name t = x_name m" "t_approval t"
  proof -
    have "x_name m \<in> set (map t_name (filter t_approval (butlast (workspace_specs dir mx))))"
      unfolding workspace_changing using assms(3) by simp
    with that show ?thesis by auto
  qed
  have "ts_tools ?s0 (x_name m) = Some \<lparr>r_spec = t, r_run = Some (h (x_name m))\<rparr>"
    using workspace_registered [of t dir mx h "Some no_approvals" b w] t by simp
  then have "ts_tools s (x_name m) = Some \<lparr>r_spec = t, r_run = Some (h (x_name m))\<rparr>"
    unfolding assms(1) by (intro registry.final_run) simp_all
  with x have "r_spec x = t" by auto
  then have "\<not> free_run (r_spec x) m" using t(3) by (simp add: free_run_def Evaluate_allowed_iff)
  with ok have "owner_approved (rs @ es) s m" by blast
  moreover have "TApproval e \<notin> set rs" for e using rs by auto
  ultimately show ?thesis unfolding owner_approved_def by (metis UnE set_append)
qed

definition demo_write :: tool_request where
  "demo_write = \<lparr>q_name = ''workspace.write'', q_arguments = ''{}'', q_mode = Write, q_user_id = 7, q_target = ''f'', q_approval_token = demo_token\<rparr>"

definition demo_write_events :: "(nat, string) tool_event list" where
  "demo_write_events =
     [TExecute demo_env (demo_write\<lparr>q_approval_token := []\<rparr>),
      TApproval (OpResolveToken demo_token 7 ''approved'' second second second),
      TExecute (demo_env\<lparr>en_now := minute\<rparr>) demo_write]"

definition demo_workspace :: "(nat, string) tools_state" where
  "demo_workspace = fold tool_step demo_write_events
     (snd (RegisterWorkspace ''/w'' 1 (\<lambda>n m a w. (Inr ''ok'', Suc w)) (NewRegistry (Some no_approvals) None 0)))"

lemma demo_workspace_runs: "map x_name (ts_runs demo_workspace) = [''workspace.write'']"
proof -
  have t: "workspace_spec ''/w'' ''workspace.write'' Medium [Write, Admin] True (5 * second) 1048576 AtLeastOnce
      \<in> set (butlast (workspace_specs ''/w'' 1))" by (simp add: workspace_specs_def)
  let ?s = "snd (RegisterWorkspace ''/w'' 1 (\<lambda>n m a w. (Inr ''ok'', Suc w)) (NewRegistry (Some no_approvals) None (0 :: nat)))"
  have frame: "ts_approvals ?s = Some no_approvals" "ts_budget ?s = None" "ts_runs ?s = []"
    by (simp_all add: RegisterWorkspace_def workspace_tools_def workspace_specs_def workspace_spec_def Register_tool_def
        NewRegistry_def Validate_def units)
  define s where "s = ?s"
  have eq: "demo_workspace = fold tool_step demo_write_events s" by (simp only: demo_workspace_def s_def)
  have reg: "ts_tools s ''workspace.write'' = Some \<lparr>r_spec = workspace_spec ''/w'' ''workspace.write'' Medium [Write, Admin] True
      (5 * second) 1048576 AtLeastOnce, r_run = Some (\<lambda>m a w. (Inr ''ok'', Suc w))\<rparr>"
    using workspace_registered [OF t, of "\<lambda>n m a w. (Inr ''ok'', Suc w)" "Some no_approvals" None "0 :: nat"]
    by (simp add: s_def workspace_spec_def)
  show ?thesis
    unfolding eq using frame [folded s_def]
    by (simp add: demo_write_events_def demo_write_def reg workspace_spec_def
        Execute_tool_def charge_tool_def Evaluate_def Let_def execute_approved_def demo_env_def
        Create_request_def no_approvals_def ResolveToken_def Resolve_request_def by_token_def select_one_def demo_token_def
        decision_state_def expiry_of_def parse_stored_def in_range_def max_seconds_def units rows_affected_def update_where_def
        AuthorizeReceipt_def run_handler_def demo_bytes_def metadata_for_def)
qed

lemma workspace_changes_are_approved_witness: "\<exists>m. m \<in> set (ts_runs demo_workspace) \<and> owner_approved demo_write_events demo_workspace m"
proof -
  obtain m where m: "m \<in> set (ts_runs demo_workspace)" "x_name m = ''workspace.write''"
    using demo_workspace_runs by (cases "ts_runs demo_workspace") auto
  from workspace_changes_are_approved [OF demo_workspace_def m(1)] m show ?thesis by auto
qed

end
