(* ===== verification/WorkspaceFiles.thy ===== *)
theory WorkspaceFiles
  imports Files GoScan Workspace GoMarshal
begin

text \<open>
  \<open>workspace.go\<close> of \<open>internal/tools\<close>: the handlers of the workspace tools, on the file system of \<open>Files\<close>. The
  numbers in the names of temporary files and the clock are arguments, the case mapping outside ASCII, the size
  of a directory and what \<open>%q\<close> writes for a rune outside ASCII too.
\<close>

section \<open>The workspace\<close>

record workspace =
  ws_root :: string
  ws_trash :: string
  ws_max_file :: int
  ws_lower :: "string \<Rightarrow> string"
  ws_dir_size :: nat
  ws_quote :: "string \<Rightarrow> string"

definition NewWorkspace :: "(string \<Rightarrow> string) \<Rightarrow> nat \<Rightarrow> (string \<Rightarrow> string) \<Rightarrow> string \<Rightarrow> workspace" where
  "NewWorkspace lower dir_size quote top_dir =
     \<lparr>ws_root = Clean top_dir, ws_trash = Join top_dir ''.mosaid-trash'', ws_max_file = 1048576, ws_lower = lower,
      ws_dir_size = dir_size, ws_quote = quote\<rparr>"

datatype ws_error = RelativeRequired | PathTraversal | SecretPath | Escape | SymlinkDenied | BadArgs | FileTooLarge | ContentTooLarge
  | BinaryPatch | OneMatchRequired | OsError os_error

datatype ws_value = FileText string | BinaryFile nat | Listing "(string \<times> bool \<times> nat) list" | Written string nat | MadeDir string
  | Trashed string | Matches "string list"

definition secret_part :: "(string \<Rightarrow> string) \<Rightarrow> string \<Rightarrow> bool" where
  "secret_part lower part =
     (let l = to_lower lower part
      in l = ''.env'' \<or> starts_with l ''.env.'' \<or> l = ''.security.yml'' \<or> l = ''credentials'' \<or> l = ''secrets'')"

text \<open>The place the check of the links looks at; a parent that is not there is taken as it is written.\<close>

definition resolved_parent :: "files \<Rightarrow> string \<Rightarrow> bool \<Rightarrow> (ws_error, string) result" where
  "resolved_parent fs p for_write =
     (let parent = (if for_write then Dir p else p) in
      case EvalSymlinks fs parent of
        Inr r \<Rightarrow> Inr r
      | Inl e \<Rightarrow> if for_write \<and> e = NotExist then Inr parent else Inl (OsError e))"

definition real_root :: "workspace \<Rightarrow> files \<Rightarrow> string" where
  "real_root w fs = (case EvalSymlinks fs (ws_root w) of Inr r \<Rightarrow> r | Inl _ \<Rightarrow> ws_root w)"

definition workspace_path :: "workspace \<Rightarrow> files \<Rightarrow> string \<Rightarrow> bool \<Rightarrow> (ws_error, string) result" where
  "workspace_path w fs rel for_write =
     (let clean = Clean rel; p = Join (ws_root w) clean in
      reject_if (rooted rel \<or> rel = []) RelativeRequired
     (reject_if (climbs clean) PathTraversal
     (reject_if (list_ex (secret_part (ws_lower w)) (split_at (CHR ''/'') clean)) SecretPath
     (and_then (resolved_parent fs p for_write) (\<lambda>resolved.
      reject_if (case Rel (real_root w fs) resolved of None \<Rightarrow> True | Some r \<Rightarrow> climbs r) Escape
     (reject_if (case Lstat fs p of Inr (Link t) \<Rightarrow> True | _ \<Rightarrow> False) SymlinkDenied
     (Inr p)))))))"

section \<open>Arguments\<close>

text \<open>
  \<open>json.Unmarshal\<close> into a struct of texts: names match without case, \<open>null\<close> sets nothing, a value of another type is
  an error that does not stop the rest from being set, a text that is no JSON sets nothing.
\<close>

fun text_fields :: "string list \<Rightarrow> (string \<times> json) list \<Rightarrow> (string \<rightharpoonup> string) \<times> bool \<Rightarrow> (string \<rightharpoonup> string) \<times> bool" where
  "text_fields names [] r = r"
| "text_fields names ((k, v) # ms) r =
     text_fields names ms
       (let n = lower_ascii (unquote k) in
        if n \<notin> set names then r
        else case v of JStr l \<Rightarrow> ((fst r)(n \<mapsto> unquote l), snd r) | JNull \<Rightarrow> r | _ \<Rightarrow> (fst r, False))"

definition text_args :: "string list \<Rightarrow> string \<Rightarrow> (string \<rightharpoonup> string) \<times> bool" where
  "text_args names args =
     (case parse_document args of
        None \<Rightarrow> (Map.empty, False)
      | Some v \<Rightarrow> (case v of JNull \<Rightarrow> (Map.empty, True) | JObj ms \<Rightarrow> text_fields names ms (Map.empty, True) | _ \<Rightarrow> (Map.empty, False)))"

definition arg :: "(string \<rightharpoonup> string) \<times> bool \<Rightarrow> string \<Rightarrow> string" where
  "arg a n = (case fst a n of None \<Rightarrow> [] | Some v \<Rightarrow> v)"

section \<open>Reading\<close>

definition Read_workspace :: "workspace \<Rightarrow> string \<Rightarrow> files \<Rightarrow> (ws_error, ws_value) result" where
  "Read_workspace w args fs =
     (let a = text_args [''path''] args in
      reject_if (\<not> snd a) BadArgs
     (and_then (workspace_path w fs (arg a ''path'') False) (\<lambda>p.
        case ReadFile fs p of
          Inl e \<Rightarrow> Inl (OsError e)
        | Inr b \<Rightarrow>
            reject_if (int (length b) > ws_max_file w) FileTooLarge
              (if has_nul b then Inr (BinaryFile (length b)) else Inr (FileText b)))))"

definition dir_entry :: "workspace \<Rightarrow> string \<times> node \<Rightarrow> string \<times> bool \<times> nat" where
  "dir_entry w e =
     (fst e, snd e = Folder, (case snd e of RegularFile c \<Rightarrow> length c | Folder \<Rightarrow> ws_dir_size w | Link t \<Rightarrow> length t))"

definition or_dot :: "string \<Rightarrow> string" where
  "or_dot p = (if p = [] then ''.'' else p)"

definition List_workspace :: "workspace \<Rightarrow> string \<Rightarrow> files \<Rightarrow> (ws_error, ws_value) result" where
  "List_workspace w args fs =
     and_then (workspace_path w fs (or_dot (arg (text_args [''path''] args) ''path'')) False) (\<lambda>p.
       case ReadDir fs p of
         Inl e \<Rightarrow> Inl (OsError e)
       | Inr es \<Rightarrow> Inr (Listing (map (dir_entry w) es)))"

text \<open>\<open>filepath.WalkDir\<close>: the files in and below a place, by the path they are reached at; links are not followed.\<close>

fun walk_files :: "nat \<Rightarrow> files \<Rightarrow> location \<Rightarrow> string list \<Rightarrow> string list list" where
  "walk_files 0 fs l path = []"
| "walk_files (Suc k) fs l path =
     (if node_at fs l = Some Folder then concat (map (\<lambda>e. walk_files k fs (l @ [e]) (path @ [e])) (children fs l))
      else [path])"

definition matches_in :: "workspace \<Rightarrow> string \<Rightarrow> files \<Rightarrow> string list \<Rightarrow> string list" where
  "matches_in w query fs path =
     (let p = abs_path path; rel = (case Rel (ws_root w) p of None \<Rightarrow> [] | Some r \<Rightarrow> r) in
      case ReadFile fs p of
        Inl _ \<Rightarrow> []
      | Inr c \<Rightarrow>
          map (\<lambda>(n, l). rel @ '':'' @ dec n @ '':'' @ l)
            (filter (\<lambda>(n, l). contains l query)
              (enumerate 1 (fst (scan_up_to 65536 (take (nat (ws_max_file w)) c))))))"

definition Search_workspace :: "workspace \<Rightarrow> string \<Rightarrow> files \<Rightarrow> (ws_error, ws_value) result" where
  "Search_workspace w args fs =
     (let a = text_args [''path'', ''query''] args in
      and_then (workspace_path w fs (or_dot (arg a ''path'')) False) (\<lambda>p.
        Inr (Matches (take 100
          (case locate fs NoFollow p of
             Inl _ \<Rightarrow> []
           | Inr l \<Rightarrow> concat (map (matches_in w (arg a ''query'') fs) (walk_files (Suc (length fs)) fs l (path_elements p))))))))"

section \<open>Changing\<close>

text \<open>\<open>os.CreateTemp\<close>: the first of the random names that is free.\<close>

fun create_temp :: "string \<Rightarrow> string \<Rightarrow> nat list \<Rightarrow> files \<Rightarrow> (os_error, string) result \<times> files" where
  "create_temp dir pattern [] fs = (Inl AlreadyExists, fs)"
| "create_temp dir pattern (r # rs) fs =
     (let name = Join dir (pattern @ dec r) in
      case make_new name (RegularFile []) fs of
        (Inr _, fs1) \<Rightarrow> (Inr name, fs1)
      | (Inl e, fs1) \<Rightarrow> if e = AlreadyExists then create_temp dir pattern rs fs1 else (Inl e, fs1))"

definition keep_backup :: "string \<Rightarrow> files \<Rightarrow> files" where
  "keep_backup p fs = (case ReadFile fs p of Inl _ \<Rightarrow> fs | Inr old \<Rightarrow> snd (WriteFile (p @ ''.mosaid-backup'') old fs))"

definition replace_file :: "string \<Rightarrow> string \<Rightarrow> nat list \<Rightarrow> files \<Rightarrow> (os_error, unit) result \<times> files" where
  "replace_file p content rands fs =
     (case create_temp (Dir p) ''.mosaid-write-'' rands fs of
        (Inl e, fs1) \<Rightarrow> (Inl e, fs1)
      | (Inr name, fs1) \<Rightarrow>
          (case Rename name p (keep_backup p (snd (WriteFile name content fs1))) of
             (Inl e, fs2) \<Rightarrow> (Inl e, snd (Remove_file name fs2))
           | (Inr _, fs2) \<Rightarrow> (Inr (), snd (Remove_file name fs2))))"

definition Write_workspace :: "workspace \<Rightarrow> nat list \<Rightarrow> string \<Rightarrow> files \<Rightarrow> (ws_error, ws_value) result \<times> files" where
  "Write_workspace w rands args fs =
     (let a = text_args [''path'', ''content''] args; content = arg a ''content'' in
      if \<not> snd a then (Inl BadArgs, fs)
      else if int (length content) > ws_max_file w then (Inl ContentTooLarge, fs)
      else case workspace_path w fs (arg a ''path'') True of
             Inl e \<Rightarrow> (Inl e, fs)
           | Inr p \<Rightarrow>
               (case MkdirAll (Dir p) fs of
                  (Inl e, fs1) \<Rightarrow> (Inl (OsError e), fs1)
                | (Inr _, fs1) \<Rightarrow>
                    (case replace_file p content rands fs1 of
                       (Inl e, fs2) \<Rightarrow> (Inl (OsError e), fs2)
                     | (Inr _, fs2) \<Rightarrow> (Inr (Written (arg a ''path'') (length content)), fs2))))"

text \<open>\<open>%q\<close>: \<open>strconv.Quote\<close>, with the runes outside ASCII left to an argument.\<close>

definition quote_ascii :: "char \<Rightarrow> string" where
  "quote_ascii c =
     (if c = CHR 0x22 \<or> c = CHR 0x5C then [CHR 0x5C, c]
      else if c = CHR 0x07 then [CHR 0x5C, CHR ''a''] else if c = CHR 0x08 then [CHR 0x5C, CHR ''b'']
      else if c = CHR 0x0C then [CHR 0x5C, CHR ''f''] else if c = CHR 0x0A then [CHR 0x5C, CHR ''n'']
      else if c = CHR 0x0D then [CHR 0x5C, CHR ''r''] else if c = CHR 0x09 then [CHR 0x5C, CHR ''t'']
      else if c = CHR 0x0B then [CHR 0x5C, CHR ''v'']
      else if of_char c < (32 :: int) \<or> c = CHR 0x7F
      then [CHR 0x5C, CHR ''x'', hex4 (of_char c div 16), hex4 (of_char c mod 16)]
      else [c])"

fun quote_runes :: "(string \<Rightarrow> string) \<Rightarrow> string \<Rightarrow> string" where
  "quote_runes other [] = []"
| "quote_runes other (c # s) =
     (if is_ascii c then quote_ascii c @ quote_runes other s
      else if rune_len (c # s) = 0
      then [CHR 0x5C, CHR ''x'', hex4 (of_char c div 16), hex4 (of_char c mod 16)] @ quote_runes other s
      else other (take (rune_len (c # s)) (c # s)) @ quote_runes other (drop (rune_len (c # s) - 1) s))"

definition Quote :: "(string \<Rightarrow> string) \<Rightarrow> string \<Rightarrow> string" where
  "Quote other s = [CHR 0x22] @ quote_runes other s @ [CHR 0x22]"

definition read_args :: "workspace \<Rightarrow> string \<Rightarrow> string" where
  "read_args w path = ''{'' @ json_quote ''path'' @ '':'' @ Quote (ws_quote w) path @ ''}''"

definition write_args :: "string \<Rightarrow> string \<Rightarrow> string" where
  "write_args path content = json_struct [(''Content'', GoText content), (''Path'', GoText path)]"

definition Patch_workspace :: "workspace \<Rightarrow> nat list \<Rightarrow> string \<Rightarrow> files \<Rightarrow> (ws_error, ws_value) result \<times> files" where
  "Patch_workspace w rands args fs =
     (let a = text_args [''path'', ''old'', ''new''] args; old = arg a ''old'' in
      if \<not> snd a \<or> old = [] then (Inl BadArgs, fs)
      else case Read_workspace w (read_args w (arg a ''path'')) fs of
             Inl e \<Rightarrow> (Inl e, fs)
           | Inr (FileText s) \<Rightarrow>
               if Count s old \<noteq> 1 then (Inl OneMatchRequired, fs)
               else Write_workspace w rands (write_args (arg a ''path'') (replace_first old (arg a ''new'') s)) fs
           | Inr _ \<Rightarrow> (Inl BinaryPatch, fs))"

definition Mkdir_workspace :: "workspace \<Rightarrow> string \<Rightarrow> files \<Rightarrow> (ws_error, ws_value) result \<times> files" where
  "Mkdir_workspace w args fs =
     (let path = arg (text_args [''path''] args) ''path'' in
      case workspace_path w fs path True of
        Inl e \<Rightarrow> (Inl e, fs)
      | Inr p \<Rightarrow>
          (case MkdirAll p fs of
             (Inl e, fs1) \<Rightarrow> (Inl (OsError e), fs1)
           | (Inr _, fs1) \<Rightarrow> (Inr (MadeDir path), fs1)))"

definition Trash_workspace :: "workspace \<Rightarrow> int \<Rightarrow> string \<Rightarrow> files \<Rightarrow> (ws_error, ws_value) result \<times> files" where
  "Trash_workspace w nanos args fs =
     (case workspace_path w fs (arg (text_args [''path''] args) ''path'') True of
        Inl e \<Rightarrow> (Inl e, fs)
      | Inr p \<Rightarrow>
          (case MkdirAll (ws_trash w) fs of
             (Inl e, fs1) \<Rightarrow> (Inl (OsError e), fs1)
           | (Inr _, fs1) \<Rightarrow>
               (let dst = Join (ws_trash w) (format_int nanos @ ''-'' @ Base p) in
                case Rename p dst fs1 of
                  (Inl e, fs2) \<Rightarrow> (Inl (OsError e), fs2)
                | (Inr _, fs2) \<Rightarrow> (Inr (Trashed (Base dst)), fs2))))"

end
