(* ===== verification/WorkspaceProofs.thy ===== *)
theory WorkspaceProofs
  imports WorkspaceFiles FilesIn
begin

text \<open>
  Confinement: in a workspace without links no tool changes anything outside, or reads what it should keep
  secret through its path; what links and the search make of it is shown by runs the kernel evaluates.
\<close>

section \<open>Files without links below a directory\<close>

text \<open>The directory is there, with all above it, and no link is at or below it.\<close>

definition tidy :: "location \<Rightarrow> files \<Rightarrow> bool" where
  "tidy r fs \<longleftrightarrow> (\<forall>l. prefix l r \<longrightarrow> node_at fs l = Some Folder) \<and> (\<forall>l t. (l, Link t) \<in> set fs \<longrightarrow> \<not> prefix r l)"

lemma tidy_chain: "tidy r fs \<Longrightarrow> \<forall>l. prefix l r \<longrightarrow> node_at fs l = Some Folder"
  by (simp add: tidy_def)

lemma tidy_no_link: "tidy r fs \<Longrightarrow> prefix r l \<Longrightarrow> node_at fs l \<noteq> Some (Link t)"
  by (auto simp: tidy_def node_at_def dest: map_of_SomeD)

text \<open>The parts of the file system that are not below the directory.\<close>

definition outside :: "location \<Rightarrow> files \<Rightarrow> location \<Rightarrow> node option" where
  "outside r fs l = (if prefix r l then None else node_at fs l)"

lemma tidy_dir: "tidy r fs \<Longrightarrow> node_at fs r = Some Folder"
  by (simp add: tidy_def)

text \<open>A path of plain names below the directory can only lead to where it is written.\<close>

lemma resolve_inside:
  assumes "tidy r fs" and "prefix r l" and "\<forall>e \<in> set es. plain_name e" and "resolve fs ask fuel l es = Inr x"
  shows "x = l @ es"
  using assms(2-)
proof (induction es arbitrary: l)
  case (Cons e es)
  have e: "e \<noteq> ''.''" "e \<noteq> ''..''" using Cons.prems(2) by (simp_all add: plain_name_def)
  have pre: "prefix r (l @ [e])" using Cons.prems(1) by simp
  have "node_at fs (l @ [e]) \<noteq> Some (Link t)" for t using tidy_no_link [OF assms(1) pre] .
  with Cons.prems e Cons.IH [OF pre] show ?case
    by (auto split: option.splits node.splits if_splits)
qed simp

lemma resolve_to_dir:
  assumes "\<forall>l. prefix l r \<longrightarrow> node_at fs l = Some Folder" and "prefix l r" and "\<forall>e \<in> set r. plain_name e"
  shows "resolve fs ask fuel l (drop (length l) r @ es) = resolve fs ask fuel r es"
  using real_dir_walk [of fs r l] assms by (simp add: real_dir_def)

text \<open>The elements of a root, and a path below it.\<close>

locale rooted_tree =
  fixes r :: location
  assumes plain_root: "\<forall>e \<in> set r. plain_name e"
begin

lemma locate_inside:
  assumes "tidy r fs" and "\<forall>e \<in> set es. plain_name e" and "locate fs ask (abs_path (r @ es)) = Inr x"
  shows "x = r @ es"
proof -
  have "resolve fs ask 40 [] (r @ es) = resolve fs ask 40 r es" using resolve_to_dir [OF tidy_chain [OF assms(1)] _ plain_root, of "[]" ask 40 es] by simp
  with assms plain_root resolve_inside [OF assms(1), of r es ask 40 x] show ?thesis
    by (simp add: locate_def abs_path_elements ball_Un)
qed

lemma real_inside:
  assumes "tidy r fs" and "\<forall>e \<in> set es. plain_name e" and "EvalSymlinks fs (abs_path (r @ es)) = Inr x"
  shows "x = abs_path (r @ es)"
proof -
  have "resolve fs Follow 255 [] (r @ es) = resolve fs Follow 255 r es" using resolve_to_dir [OF tidy_chain [OF assms(1)] _ plain_root, of "[]" Follow 255 es] by simp
  with assms plain_root resolve_inside [OF assms(1), of r es Follow 255] show ?thesis
    by (auto simp: EvalSymlinks_def abs_path_elements ball_Un and_then_ok)
qed

lemma EvalSymlinks_root: "tidy r fs \<Longrightarrow> EvalSymlinks fs (abs_path r) = Inr (abs_path r)"
  using resolve_to_dir [OF tidy_chain _ plain_root, of fs "[]" Follow 255 "[]"] by (simp add: EvalSymlinks_def abs_path_elements plain_root)

text \<open>What the calls keep: the tree is tidy and the rest is as it was.\<close>

definition kept :: "(location \<Rightarrow> node option) \<Rightarrow> files \<Rightarrow> bool" where
  "kept out fs \<longleftrightarrow> tidy r fs \<and> outside r fs = out"

lemma kept_put:
  assumes "kept out fs" and "prefix r l" and "\<And>t. n \<noteq> Link t" and "l \<noteq> r"
  shows "kept out (put l n fs)"
proof -
  have at: "node_at (put l n fs) k = (if k = [] then Some Folder else if k = l then Some n else node_at fs k)" for k
    by (simp add: node_at_def put_def update_conv')
  have sub: "set (AList.update l n xs) \<subseteq> insert (l, n) (set xs)" for xs :: files
    by (induction xs) auto
  have "outside r (put l n fs) = outside r fs" using assms(2) by (auto simp: outside_def at fun_eq_iff)
  moreover have "tidy r (put l n fs)"
    unfolding tidy_def
  proof (intro conjI allI impI)
    fix k
    assume "prefix k r"
    moreover have "k \<noteq> l" using calculation assms(2,4) by (metis prefix_order.antisym)
    ultimately show "node_at (put l n fs) k = Some Folder" using assms(1) by (simp add: at kept_def tidy_def)
  next
    fix k t
    assume "(k, Link t) \<in> set (put l n fs)"
    then have "(k, Link t) \<in> set fs" using sub [of fs] assms(3) [of t] by (auto simp: put_def)
    then show "\<not> prefix r k" using assms(1) by (auto simp: kept_def tidy_def)
  qed
  ultimately show ?thesis using assms(1) by (simp add: kept_def)
qed

text \<open>A change of the keys that leaves some alone.\<close>

lemma map_of_renamed:
  assumes "\<And>l. f l = k \<longleftrightarrow> l = k"
  shows "map_of (map (\<lambda>(l, n). (f l, n)) xs) k = map_of xs k"
proof (induction xs)
  case (Cons x xs)
  obtain l n where x: "x = (l, n)" by (cases x)
  show ?case
  proof (cases "l = k")
    case True
    with assms [of l] x show ?thesis by simp
  next
    case False
    with assms [of l] x Cons show ?thesis by simp
  qed
qed simp

lemma kept_move:
  assumes "kept out fs" and "prefix r a" and "prefix r b" and "\<not> prefix a b" and "b \<noteq> r"
  shows "kept out (move a b fs)"
proof -
  let ?f = "\<lambda>l. if prefix a l then b @ drop (length a) l else l"
  have same: "node_at (move a b fs) k = node_at fs k" if k: "\<not> prefix r k \<or> prefix k r" for k
  proof -
    have "b \<noteq> k" using k assms(3,5) by (metis prefix_order.antisym)
    then have 1: "map_of (filter (\<lambda>e. fst e \<noteq> b) fs) k = map_of fs k" by (induction fs) auto
    have "?f l = k \<longleftrightarrow> l = k" for l
    proof -
      have "b @ x \<noteq> k" for x using k assms(3,5) by (metis prefix_order.antisym prefix_order.trans prefixI)
      moreover have "\<not> prefix a k" using k assms(2-4) by (metis prefix_order.antisym prefix_order.trans)
      ultimately show ?thesis by auto
    qed
    from map_of_renamed [OF this, of "filter (\<lambda>e. fst e \<noteq> b) fs"] 1 show ?thesis
      by (simp add: node_at_def move_def)
  qed
  have "outside r (move a b fs) = outside r fs" by (auto simp: outside_def same fun_eq_iff)
  moreover have "tidy r (move a b fs)"
    unfolding tidy_def
  proof (intro conjI allI impI)
    fix k
    assume "prefix k r"
    then show "node_at (move a b fs) k = Some Folder" using assms(1) same [of k] by (simp add: kept_def tidy_def)
  next
    fix k t
    assume "(k, Link t) \<in> set (move a b fs)"
    then obtain l where l: "(l, Link t) \<in> set fs" "k = ?f l" by (auto simp: move_def)
    then have "\<not> prefix r l" using assms(1) by (auto simp: kept_def tidy_def)
    moreover have "prefix a l \<Longrightarrow> prefix r l" using assms(2) by (rule prefix_order.trans)
    ultimately show "\<not> prefix r k" using l(2) by auto
  qed
  ultimately show ?thesis using assms(1) by (simp add: kept_def)
qed

lemma kept_drop:
  assumes "kept out fs" and "prefix r l" and "l \<noteq> r"
  shows "kept out (filter (\<lambda>e. fst e \<noteq> l) fs)"
proof -
  have at: "node_at (filter (\<lambda>e. fst e \<noteq> l) fs) k = node_at fs k" if "k \<noteq> l" for k
    using that by (induction fs) (auto simp: node_at_def)
  have "outside r (filter (\<lambda>e. fst e \<noteq> l) fs) = outside r fs" using assms(2) at by (auto simp: outside_def fun_eq_iff)
  moreover have "tidy r (filter (\<lambda>e. fst e \<noteq> l) fs)"
    using assms at by (auto simp: tidy_def kept_def)
  ultimately show ?thesis using assms(1) by (simp add: kept_def)
qed

section \<open>Calls below the directory\<close>

definition inside :: "string \<Rightarrow> bool" where
  "inside p \<longleftrightarrow> (\<exists>es. (\<forall>e \<in> set es. plain_name e) \<and> p = abs_path (r @ es))"

lemma locate_in: "kept out fs \<Longrightarrow> inside p \<Longrightarrow> locate fs ask p = Inr l \<Longrightarrow> prefix r l \<and> p = abs_path l"
  using locate_inside by (fastforce simp: kept_def inside_def)

lemma kept_dir: "kept out fs \<Longrightarrow> node_at fs r = Some Folder"
  by (simp add: kept_def tidy_dir)

lemma kept_WriteFile: "kept out fs \<Longrightarrow> inside p \<Longrightarrow> kept out (snd (WriteFile p c fs))"
  using locate_in [of out fs p Creating] kept_dir [of out fs]
  by (auto simp: WriteFile_def intro!: kept_put split: sum.split)

lemma kept_make_new: "kept out fs \<Longrightarrow> inside p \<Longrightarrow> (\<And>t. n \<noteq> Link t) \<Longrightarrow> kept out (snd (make_new p n fs))"
  using locate_in [of out fs p Entry] kept_dir [of out fs]
  by (auto simp: make_new_def intro!: kept_put split: sum.split)

lemma kept_Remove: "kept out fs \<Longrightarrow> inside p \<Longrightarrow> p \<noteq> abs_path r \<Longrightarrow> kept out (snd (Remove_file p fs))"
  using locate_in [of out fs p Entry]
  by (auto simp: Remove_file_def intro!: kept_drop split: sum.split)

lemma kept_Rename: "kept out fs \<Longrightarrow> inside p \<Longrightarrow> inside q \<Longrightarrow> kept out (snd (Rename p q fs))"
  using locate_in [of out fs p Entry] locate_in [of out fs q Entry] kept_dir [of out fs]
  by (auto simp: Rename_def intro!: kept_move split: sum.split)

lemma Stat_root: "tidy r fs \<Longrightarrow> Stat fs (abs_path r) = Inr Folder"
  using resolve_to_dir [OF tidy_chain _ plain_root, of fs "[]" Follow 40 "[]"] tidy_dir [of r fs]
  by (simp add: Stat_def node_of_def locate_def abs_path_elements plain_root)

lemma kept_mkdir_all:
  "kept out fs \<Longrightarrow> \<forall>e \<in> set es. plain_name e \<Longrightarrow> kept out (snd (mkdir_all (rev (r @ es)) fs))"
proof (induction es rule: rev_induct)
  case Nil
  show ?case
  proof (cases "rev r")
    case (Cons e up)
    then have "abs_path (rev (e # up)) = abs_path r" by (metis rev_rev_ident)
    then have "Stat fs (abs_path (rev (e # up))) = Inr Folder" using Nil(1) Stat_root [of fs] by (simp only: kept_def)
    then have "snd (mkdir_all (e # up) fs) = fs" by simp
    with Nil(1) Cons show ?thesis by simp
  qed (use Nil in simp)
next
  case (snoc e es)
  have up: "kept out (snd (mkdir_all (rev (r @ es)) fs))" using snoc by simp
  have "inside (abs_path (r @ es @ [e]))" using snoc.prems(2) unfolding inside_def by blast
  then have "kept out (snd (make_new (abs_path (r @ es @ [e])) Folder (snd (mkdir_all (rev (r @ es)) fs))))"
    by (intro kept_make_new up) simp_all
  with up snoc.prems(1) show ?case
    by (auto simp: Let_def split: sum.split prod.split)
qed

lemma kept_MkdirAll: "kept out fs \<Longrightarrow> inside p \<Longrightarrow> kept out (snd (MkdirAll p fs))"
  using kept_mkdir_all plain_root by (auto simp: inside_def MkdirAll_def abs_path_elements ball_Un)

lemma inside_Join:
  assumes "inside d" and n: "path_elements x = [n]" "plain_name n"
  shows "inside (Join d x) \<and> Join d x \<noteq> abs_path r"
proof -
  obtain es where es: "\<forall>e \<in> set es. plain_name e" "d = abs_path (r @ es)" using assms(1) by (auto simp: inside_def)
  have "abs_elements (d @ ''/'' @ x) = r @ es @ [n]"
    using es n plain_root path_elements_append [of d x] by (simp add: abs_elements_def abs_path_elements clean_plain ball_Un)
  moreover have "rooted (d @ ''/'' @ x)" using es(2) rooted_append [of d x] by simp
  moreover have "d \<noteq> []" using es(2) by (simp add: abs_path_def)
  ultimately have j: "Join d x = abs_path (r @ es @ [n])" by (simp add: Join_def Clean_rooted)
  have "path_elements (abs_path (r @ es @ [n])) \<noteq> path_elements (abs_path r)"
    using es n plain_root by (simp add: abs_path_elements ball_Un)
  with j have "Join d x \<noteq> abs_path r" by metis
  with j es n show ?thesis unfolding inside_def by (intro conjI exI [of _ "es @ [n]"]) auto
qed

end

section \<open>The tools\<close>

locale confined_workspace = rooted_tree r for r :: location +
  fixes w :: workspace
  assumes root_is: "ws_root w = abs_path r"
    and trash_is: "ws_trash w = abs_path (r @ [''.mosaid-trash''])"
begin

lemma elements_root [simp]: "abs_elements (abs_path r) = r"
  by (simp add: abs_elements_abs_path plain_root)

lemma real_root_is: "tidy r fs \<Longrightarrow> real_root w fs = abs_path r"
  by (simp add: real_root_def root_is EvalSymlinks_root)

lemma parent_above:
  assumes "tidy r fs" and "r \<noteq> []"
  shows "EvalSymlinks fs (Dir (abs_path r)) = Inr (abs_path (butlast r))"
proof -
  have q: "\<forall>e \<in> set (butlast r). plain_name e" using plain_root by (auto dest: in_set_butlastD)
  have "prefix (butlast r) r" by (simp add: prefixeq_butlast)
  then have "\<forall>l. prefix l (butlast r) \<longrightarrow> node_at fs l = Some Folder" using assms(1) tidy_chain prefix_order.trans by blast
  from resolve_to_dir [OF this _ q, of "[]" Follow 255 "[]"] q show ?thesis
    by (simp add: EvalSymlinks_def Dir_abs_path plain_root abs_path_elements)
qed

lemma path_in:
  assumes t: "tidy r fs" and p: "workspace_path w fs rel for_write = Inr p"
  shows "\<exists>cs. p = abs_path (r @ cs) \<and> (\<forall>e \<in> set cs. plain_name e \<and> \<not> secret_part (ws_lower w) e) \<and> (for_write \<longrightarrow> inside (Dir p))"
proof -
  let ?cs = "below rel"
  have rel: "\<not> rooted rel" "\<not> climbs (Clean rel)" "\<not> list_ex (secret_part (ws_lower w)) (split_at (CHR ''/'') (Clean rel))"
    and p': "p = Join (ws_root w) (Clean rel)" using p by (simp_all add: workspace_path_def Let_def and_then_ok) blast
  obtain q where q: "resolved_parent fs p for_write = Inr q" "\<not> (case Rel (real_root w fs) q of None \<Rightarrow> True | Some r \<Rightarrow> climbs r)"
    using p p' by (auto simp: workspace_path_def Let_def and_then_ok)
  note plain = below_plain [OF rel(2,1)]
  have at: "p = abs_path (r @ ?cs)" using Join_below [OF _ rel(2,1), of "abs_path r"] p' by (simp add: root_is)
  have public: "\<not> secret_part (ws_lower w) e" if "e \<in> set ?cs" for e
  proof -
    have "Clean rel = join_path ?cs" using that rel(1) by (auto simp: Clean_below)
    then have "path_elements (Clean rel) = ?cs" using plain by (simp add: path_elements_join plain_names_parts)
    with that have "e \<in> set (split_at (CHR ''/'') (Clean rel))" unfolding path_elements_def by (metis filter_is_subset subsetD)
    with rel(3) show ?thesis by (auto simp: list_ex_iff)
  qed
  have "inside (Dir p)" if "for_write"
  proof (cases "?cs = []")
    case False
    then have "Dir p = abs_path (r @ butlast ?cs)" using plain plain_root at by (simp add: Dir_abs_path ball_Un butlast_append)
    moreover have "\<forall>e \<in> set (butlast ?cs). plain_name e" using plain by (auto dest: in_set_butlastD)
    ultimately show ?thesis unfolding inside_def by blast
  next
    case True
    have "r = []"
    proof (rule ccontr)
      assume r: "r \<noteq> []"
      have "q = abs_path (butlast r)" using parent_above [OF t r] q(1) that True at by (simp add: resolved_parent_def)
      then have "\<exists>cs. butlast r = r @ cs"
        using q(2) Rel_climbs [of r "butlast r"] plain_root by (auto simp: real_root_is [OF t] dest: in_set_butlastD)
      then have "length r \<le> length (butlast r)" by (metis le_add1 length_append)
      with r show False by (cases r rule: rev_cases) simp_all
    qed
    then show ?thesis using at True Dir_abs_path [of "[]"] unfolding inside_def by (intro exI [of _ "[]"]) simp
  qed
  with at plain public show ?thesis by blast
qed

lemma path_inside: "tidy r fs \<Longrightarrow> workspace_path w fs rel for_write = Inr p \<Longrightarrow> inside p"
  using path_in unfolding inside_def by blast

lemma inside_backup: "tidy r fs \<Longrightarrow> inside p \<Longrightarrow> ReadFile fs p = Inr c \<Longrightarrow> inside (p @ ''.mosaid-backup'')"
proof -
  assume t: "tidy r fs" and "inside p" and c: "ReadFile fs p = Inr c"
  then obtain es where es: "\<forall>e \<in> set es. plain_name e" "p = abs_path (r @ es)" by (auto simp: inside_def)
  have "es \<noteq> []" using Stat_root [OF t] c es(2) by (auto simp: ReadFile_def)
  then obtain ds d where d: "es = ds @ [d]" by (metis rev_exhaust)
  have "join_path (xs @ [x]) @ y = join_path (xs @ [x @ y])" for xs x y
    by (induction xs rule: join_path.induct) simp_all
  then have "p @ ''.mosaid-backup'' = abs_path (r @ ds @ [d @ ''.mosaid-backup''])"
    using es(2) d append_assoc [of r ds "[d]"] by (simp add: abs_path_def) (metis append_assoc)
  moreover have "plain_name (d @ ''.mosaid-backup'')" using es(1) d by (auto simp: plain_name_def)
  ultimately show ?thesis unfolding inside_def using es(1) d by (intro exI [of _ "ds @ [d @ ''.mosaid-backup'']"]) auto
qed

lemma kept_backup: "kept out fs \<Longrightarrow> inside p \<Longrightarrow> kept out (keep_backup p fs)"
  using inside_backup [of fs p] kept_WriteFile [of out fs "p @ ''.mosaid-backup''"]
  by (auto simp: keep_backup_def kept_def split: sum.split)

lemma temp_name: "path_elements (''.mosaid-write-'' @ dec n) = [''.mosaid-write-'' @ dec n]" "plain_name (''.mosaid-write-'' @ dec n)"
proof -
  have "CHR ''/'' \<notin> set (dec n)" using dec_digits [of "CHR ''/''" n] by (auto simp: is_digit_def)
  then show "plain_name (''.mosaid-write-'' @ dec n)" by (simp add: plain_name_def)
  then show "path_elements (''.mosaid-write-'' @ dec n) = [''.mosaid-write-'' @ dec n]"
    unfolding plain_name_def by (intro path_elements_name) simp_all
qed

lemma kept_create_temp:
  "kept out fs \<Longrightarrow> inside d \<Longrightarrow> create_temp d ''.mosaid-write-'' rs fs = (res, fs') \<Longrightarrow>
   kept out fs' \<and> (\<forall>name. res = Inr name \<longrightarrow> inside name \<and> name \<noteq> abs_path r)"
proof (induction rs arbitrary: fs)
  case (Cons n rs)
  let ?name = "Join d (''.mosaid-write-'' @ dec n)"
  have name: "inside ?name" "?name \<noteq> abs_path r" using inside_Join [OF Cons.prems(2) temp_name] by simp_all
  obtain m fs1 where m: "make_new ?name (RegularFile []) fs = (m, fs1)" by (cases rule: prod.exhaust)
  have "kept out fs1" using kept_make_new [OF Cons.prems(1) name(1), of "RegularFile []"] m by simp
  with Cons m name show ?case by (cases m) (auto simp: Let_def split: if_splits)
qed auto

lemma kept_replace_file: "kept out fs \<Longrightarrow> inside p \<Longrightarrow> inside (Dir p) \<Longrightarrow> kept out (snd (replace_file p content rs fs))"
proof -
  assume fs: "kept out fs" and p: "inside p" "inside (Dir p)"
  obtain res fs1 where t: "create_temp (Dir p) ''.mosaid-write-'' rs fs = (res, fs1)" by (cases rule: prod.exhaust)
  note tmp = kept_create_temp [OF fs p(2) t]
  show ?thesis
  proof (cases res)
    case (Inr name)
    with tmp have n: "inside name" "name \<noteq> abs_path r" "kept out fs1" by simp_all
    note 1 = kept_Rename [OF kept_backup [OF kept_WriteFile [OF n(3,1)] p(1)] n(1) p(1), of content]
    from 1 kept_Remove [OF 1 n(1,2)] t Inr show ?thesis
      by (simp add: replace_file_def split: sum.split prod.split) (metis snd_conv)
  qed (use t tmp in \<open>simp add: replace_file_def\<close>)
qed

lemma kept_Write: "kept out fs \<Longrightarrow> kept out (snd (Write_workspace w rs args fs))"
proof -
  assume fs: "kept out fs"
  show ?thesis
  proof (cases "workspace_path w fs (arg (text_args [''path'', ''content''] args) ''path'') True")
    case (Inr p)
    have p: "inside p" "inside (Dir p)" using fs path_inside [OF _ Inr] path_in [OF _ Inr] by (auto simp: kept_def)
    have 1: "kept out (snd (MkdirAll (Dir p) fs))" using kept_MkdirAll [OF fs p(2)] .
    from kept_replace_file [OF 1 p] 1 fs Inr show ?thesis
      by (auto simp: Write_workspace_def Let_def split: sum.split prod.split) (metis snd_conv)+
  qed (use fs in \<open>simp add: Write_workspace_def Let_def\<close>)
qed

lemma kept_Patch: "kept out fs \<Longrightarrow> kept out (snd (Patch_workspace w rs args fs))"
  using kept_Write by (simp add: Patch_workspace_def Let_def split: sum.split ws_value.split)

lemma kept_Mkdir: "kept out fs \<Longrightarrow> kept out (snd (Mkdir_workspace w args fs))"
proof -
  assume fs: "kept out fs"
  show ?thesis
  proof (cases "workspace_path w fs (arg (text_args [''path''] args) ''path'') True")
    case (Inr p)
    have "inside p" using fs path_inside [OF _ Inr] by (simp add: kept_def)
    from kept_MkdirAll [OF fs this] fs Inr show ?thesis
      by (simp add: Mkdir_workspace_def Let_def split: sum.split prod.split) (metis snd_conv)
  qed (use fs in \<open>simp add: Mkdir_workspace_def Let_def\<close>)
qed

lemma trash_in: "inside (ws_trash w)"
  unfolding inside_def trash_is by (intro exI [of _ "[''.mosaid-trash'']"]) (simp add: plain_name_def)

lemma trash_name:
  assumes "inside p"
  shows "\<exists>n. path_elements (format_int k @ ''-'' @ Base p) = [n] \<and> plain_name n"
proof -
  obtain es where es: "\<forall>e \<in> set (r @ es). plain_name e" "p = abs_path (r @ es)" using assms plain_root by (auto simp: inside_def)
  have k: "CHR ''/'' \<notin> set (format_int k)" "format_int k \<noteq> []"
    using format_int_chars [of "CHR ''/''" k] dec_nonempty by (auto simp: is_digit_def format_int_def)
  have plain: "plain_name (format_int k @ ''-'' @ e)" if "CHR ''/'' \<notin> set e" for e
  proof -
    let ?x = "format_int k @ ''-'' @ e"
    have dash: "CHR ''-'' \<in> set ?x" by simp
    have "CHR ''-'' \<notin> set []" "CHR ''-'' \<notin> set ''.''" "CHR ''-'' \<notin> set ''..''" by simp_all
    with dash have "?x \<noteq> []" "?x \<noteq> ''.''" "?x \<noteq> ''..''" by metis+
    moreover have "CHR ''/'' \<notin> set ?x" using k(1) that by simp
    ultimately show ?thesis unfolding plain_name_def by blast
  qed
  show ?thesis
  proof (cases "r @ es = []")
    case True
    then have "Base p = ''/''" using es by (simp add: Base_def abs_path_def)
    moreover have "path_elements ((format_int k @ ''-'') @ ''/'' @ []) = [format_int k @ ''-'']"
      unfolding path_elements_append using plain [of "[]"] by (simp add: path_elements_name plain_name_def)
    ultimately show ?thesis using plain [of "[]"] by auto
  next
    case False
    then have "Base p = last (r @ es)" "plain_name (last (r @ es))" using es abs_path_elements [OF es(1)] last_in_set [OF False]
      by (auto simp: Base_def abs_path_def)
    then show ?thesis using plain [of "Base p"] by (intro exI [of _ "format_int k @ ''-'' @ Base p"]) (simp add: path_elements_name plain_name_def)
  qed
qed

lemma kept_Trash: "kept out fs \<Longrightarrow> kept out (snd (Trash_workspace w k args fs))"
proof -
  assume fs: "kept out fs"
  show ?thesis
  proof (cases "workspace_path w fs (arg (text_args [''path''] args) ''path'') True")
    case (Inr p)
    have p: "inside p" using fs path_inside [OF _ Inr] by (simp add: kept_def)
    have 1: "kept out (snd (MkdirAll (ws_trash w) fs))" using kept_MkdirAll [OF fs trash_in] .
    obtain n where "path_elements (format_int k @ ''-'' @ Base p) = [n]" "plain_name n" using trash_name [OF p] by blast
    note 2 = inside_Join [OF trash_in this]
    from kept_Rename [OF 1 p] 2 1 fs Inr show ?thesis
      by (auto simp: Trash_workspace_def Let_def split: sum.split prod.split) (metis snd_conv)+
  qed (use fs in \<open>simp add: Trash_workspace_def Let_def\<close>)
qed

text \<open>What \<open>Read\<close> answers is in the file at the path, which has no secret part.\<close>

lemma Read_in:
  assumes t: "tidy r fs" and "Read_workspace w args fs = Inr (FileText c)"
  shows "\<exists>cs. node_at fs (r @ cs) = Some (RegularFile c) \<and> (\<forall>e \<in> set cs. \<not> secret_part (ws_lower w) e)"
proof -
  obtain p where p: "workspace_path w fs (arg (text_args [''path''] args) ''path'') False = Inr p" "ReadFile fs p = Inr c"
  proof -
    obtain p where p: "workspace_path w fs (arg (text_args [''path''] args) ''path'') False = Inr p"
      "(case ReadFile fs p of Inl e \<Rightarrow> Inl (OsError e)
        | Inr b \<Rightarrow> reject_if (int (length b) > ws_max_file w) FileTooLarge
            (if has_nul b then Inr (BinaryFile (length b)) else Inr (FileText b))) = Inr (FileText c)"
      using assms(2) by (auto simp: Read_workspace_def Let_def and_then_ok)
    then have "ReadFile fs p = Inr c" by (cases "ReadFile fs p") (simp_all split: if_splits)
    with p that show ?thesis by blast
  qed
  obtain cs where cs: "p = abs_path (r @ cs)" "\<forall>e \<in> set cs. plain_name e \<and> \<not> secret_part (ws_lower w) e" using path_in [OF t p(1)] by blast
  obtain l where l: "locate fs Follow p = Inr l" "node_at fs l = Some (RegularFile c)"
    using p(2) by (auto simp: ReadFile_def Stat_def node_of_def and_then_ok split: option.splits node.splits)
  have "l = r @ cs" using locate_inside [OF t _ l(1) [unfolded cs(1)]] cs(2) by blast
  with l(2) cs(2) show ?thesis by blast
qed

end

section \<open>Histories\<close>

datatype ws_op = OpWrite "nat list" string | OpPatch "nat list" string | OpMkdir string | OpTrash int string

fun ws_step :: "workspace \<Rightarrow> ws_op \<Rightarrow> files \<Rightarrow> files" where
  "ws_step w (OpWrite rs args) fs = snd (Write_workspace w rs args fs)"
| "ws_step w (OpPatch rs args) fs = snd (Patch_workspace w rs args fs)"
| "ws_step w (OpMkdir args) fs = snd (Mkdir_workspace w args fs)"
| "ws_step w (OpTrash k args) fs = snd (Trash_workspace w k args fs)"

definition top_of :: "string \<Rightarrow> location" where
  "top_of d = abs_elements (CHR ''/'' # d)"

interpretation home: confined_workspace "top_of d" "NewWorkspace lower dir_size quote (CHR ''/'' # d)"
proof
  show "\<forall>e \<in> set (top_of d). plain_name e" by (simp add: top_of_def abs_elements_plain)
  show "ws_root (NewWorkspace lower dir_size quote (CHR ''/'' # d)) = abs_path (top_of d)"
    by (simp add: NewWorkspace_def top_of_def Clean_rooted rooted_iff)
  have "plain_name ''.mosaid-trash''" "below ''.mosaid-trash'' = [''.mosaid-trash'']" "\<not> climbs (Clean ''.mosaid-trash'')" "Clean ''.mosaid-trash'' = ''.mosaid-trash''" "\<not> rooted ''.mosaid-trash''"
    by code_simp+
  then show "ws_trash (NewWorkspace lower dir_size quote (CHR ''/'' # d)) = abs_path (top_of d @ [''.mosaid-trash''])"
    using Join_below [of "CHR ''/'' # d" "''.mosaid-trash''"] by (simp add: NewWorkspace_def top_of_def rooted_iff)
qed

interpretation workspace: machine "ws_step (NewWorkspace lower dir_size quote (CHR ''/'' # d))" "rooted_tree.kept (top_of d) out"
proof
  fix fs e
  assume "rooted_tree.kept (top_of d) out fs"
  then show "rooted_tree.kept (top_of d) out (ws_step (NewWorkspace lower dir_size quote (CHR ''/'' # d)) e fs)"
    by (cases e) (simp_all add: home.kept_Write home.kept_Patch home.kept_Mkdir home.kept_Trash)
qed

text \<open>
  C14: In a workspace whose directory is there and has no link in it, the tools stay inside: whatever is
  written, patched, made or moved to the trash, with whatever arguments, everything outside the directory is
  as it was before; and then a file that can be read is one of the directory, none of the names on the way
  to it being that of a secret.
\<close>

theorem workspace_confined:
  assumes "tidy (top_of d) fs" and "w = NewWorkspace lower dir_size quote (CHR ''/'' # d)" and "fs' = fold (ws_step w) ops fs"
  shows "(\<forall>l. \<not> prefix (top_of d) l \<longrightarrow> node_at fs' l = node_at fs l)
    \<and> (\<forall>args c. Read_workspace w args fs' = Inr (FileText c) \<longrightarrow>
          (\<exists>cs. node_at fs' (top_of d @ cs) = Some (RegularFile c) \<and> (\<forall>e \<in> set cs. \<not> secret_part lower e)))"
proof -
  have "home.kept d (outside (top_of d) fs) fs" using assms(1) by (simp add: home.kept_def)
  then have kept: "home.kept d (outside (top_of d) fs) fs'" unfolding assms(2,3) by (rule workspace.run_keeps)
  have "node_at fs' l = node_at fs l" if "\<not> prefix (top_of d) l" for l
    using kept that unfolding home.kept_def outside_def fun_eq_iff by metis
  moreover have "tidy (top_of d) fs'" using kept by (simp add: home.kept_def)
  ultimately show ?thesis using home.Read_in [of d fs' lower dir_size quote] by (auto simp: assms(2) NewWorkspace_def)
qed

section \<open>Runs\<close>

definition demo_ws :: workspace where
  "demo_ws = NewWorkspace id 0 id ''/w''"

definition demo_tidy :: files where
  "demo_tidy = [([''w''], Folder), ([''w'', ''.env''], RegularFile ''KEY=1''), ([''out''], Folder)]"

lemma demo_written:
  "Write_workspace demo_ws [1] (write_args ''a/x'' ''hello'') demo_tidy = (Inr (Written ''a/x'' 5), snd (Write_workspace demo_ws [1] (write_args ''a/x'' ''hello'') demo_tidy))"
  "Read_workspace demo_ws (write_args ''a/x'' []) (snd (Write_workspace demo_ws [1] (write_args ''a/x'' ''hello'') demo_tidy)) = Inr (FileText ''hello'')"
  by code_simp+


lemma secret_scanned:
  assumes "w = NewWorkspace id 0 id ''/w''" and "fs = [([''w''], Folder), ([''w'', ''.env''], RegularFile ''KEY=1'')]"
  shows "Search_workspace w (write_args [] []) fs = Inr (Matches [''.env:1:KEY=1''])"
proof -
  have key: "takeWhile (\<lambda>c. c \<noteq> CHR 0x0A) ''KEY=1'' = ''KEY=1''" "dropWhile (\<lambda>c. c \<noteq> CHR 0x0A) ''KEY=1'' = []"
    "strip_cr ''KEY=1'' = ''KEY=1''" "dec 1 = ''1''" "contains ''KEY=1'' []" by code_simp+
  have at: "ReadFile fs (abs_path [''w'', ''.env'']) = Inr ''KEY=1''" "ws_root w = ''/w''" "Rel ''/w'' (abs_path [''w'', ''.env'']) = Some ''.env''"
    unfolding assms by code_simp+
  have "scan_up_to 65536 ''KEY=1'' = ([''KEY=1''], False)"
    by (subst scan_up_to.simps) (simp add: key)
  moreover have "ws_max_file w = 1048576" by (simp add: assms(1) NewWorkspace_def)
  ultimately have one: "matches_in w [] fs [''w'', ''.env''] = [''.env:1:KEY=1'']" using key(4,5) at by (simp add: matches_in_def)
  have walk: "workspace_path w fs (or_dot (arg (text_args [''path'', ''query''] (write_args [] [])) ''path'')) False = Inr ''/w''"
    "locate fs NoFollow ''/w'' = Inr [''w'']" "walk_files (Suc (length fs)) fs [''w''] (path_elements ''/w'') = [[''w'', ''.env'']]"
    "arg (text_args [''path'', ''query''] (write_args [] [])) ''query'' = []"
    unfolding assms by code_simp+
  show ?thesis unfolding Search_workspace_def Let_def walk(1) and_then_simps by (simp only: walk sum.case) (simp add: one)
qed


lemma workspace_confined_witness:
  "\<exists>cs. node_at (snd (Write_workspace demo_ws [1] (write_args ''a/x'' ''hello'') demo_tidy)) (top_of ''w'' @ cs) = Some (RegularFile ''hello'')"
proof -
  have "tidy (top_of ''w'') demo_tidy"
  proof -
    have "top_of ''w'' = [''w'']" by code_simp
    moreover have "node_at demo_tidy [''w''] = Some Folder" by code_simp
    ultimately show ?thesis by (auto simp: tidy_def demo_tidy_def prefix_Cons node_at_def)
  qed
  moreover have "snd (Write_workspace demo_ws [1] (write_args ''a/x'' ''hello'') demo_tidy)
      = fold (ws_step demo_ws) [OpWrite [1] (write_args ''a/x'' ''hello'')] demo_tidy" by simp
  ultimately show ?thesis using workspace_confined [OF _ demo_ws_def] demo_written(2) by blast
qed

end
