(* ===== verification/Process.thy ===== *)
theory Process
  imports WorkspaceFiles
begin

text \<open>
  \<open>process.go\<close> of \<open>internal/tools\<close>: which commands the process runner starts, and the buffer that keeps the
  front of their output. Starting a command and waiting for it is an argument: it yields the writes to the
  output in their order and the way the command ended; killing it when the context ends is one of them.
\<close>

section \<open>Profiles\<close>

record command_profile =
  cp_executable :: string
  cp_first :: "string list"
  cp_network :: "string list"

definition allow_profile :: "string \<Rightarrow> string list \<Rightarrow> string \<times> command_profile" where
  "allow_profile name first = (name, \<lparr>cp_executable = name, cp_first = first, cp_network = []\<rparr>)"

definition DefaultProfiles :: "string \<rightharpoonup> command_profile" where
  "DefaultProfiles = map_of
     [allow_profile ''go'' [''test'', ''build'', ''vet'', ''fmt'', ''version'', ''list''],
      allow_profile ''git'' [''status'', ''diff'', ''log'', ''show'', ''branch'', ''worktree'', ''fetch'', ''commit'', ''push''],
      allow_profile ''node'' [''--version''],
      allow_profile ''npm'' [''test'', ''run'', ''--version''],
      allow_profile ''pnpm'' [''test'', ''run'', ''--version''],
      allow_profile ''python'' [''--version'', ''-m''],
      allow_profile ''pytest'' [''--version'', ''-q''],
      allow_profile ''cargo'' [''test'', ''build'', ''check'', ''fmt'', ''--version'']]"

record process_runner =
  pr_workspace :: string
  pr_profiles :: "string \<rightharpoonup> command_profile"
  pr_max_output :: int
  pr_path :: string

section \<open>The output buffer\<close>

record limited_buffer =
  lb_text :: string
  lb_max :: int
  lb_truncated :: bool

definition Write_buffer :: "string \<Rightarrow> limited_buffer \<Rightarrow> limited_buffer" where
  "Write_buffer p b =
     (let remaining = lb_max b - int (length (lb_text b)) in
      if remaining > 0
      then if int (length p) > remaining then b\<lparr>lb_text := lb_text b @ take (nat remaining) p, lb_truncated := True\<rparr>
           else b\<lparr>lb_text := lb_text b @ p\<rparr>
      else b\<lparr>lb_truncated := True\<rparr>)"

definition new_buffer :: "int \<Rightarrow> limited_buffer" where
  "new_buffer n = \<lparr>lb_text = [], lb_max = n, lb_truncated = False\<rparr>"

section \<open>Run\<close>

record process_call =
  pc_executable :: string
  pc_argv :: "string list"
  pc_dir :: string
  pc_env :: "string list"

record process_result =
  ps_code :: int
  ps_output :: string
  ps_truncated :: bool

datatype process_end = NotStarted string | Exited int | Lost string
datatype process_error = BadProcessArgs | ProfileDenied | SubcommandDenied | InvalidArgument | DirectoryEscape | ProcessFailed string

text \<open>\<open>json.Unmarshal\<close> into the three fields; every error of it refuses the call. A null among the arguments is an empty text.\<close>

definition text_item :: "json \<Rightarrow> string option" where
  "text_item v = (case v of JStr l \<Rightarrow> Some (unquote l) | JNull \<Rightarrow> Some [] | _ \<Rightarrow> None)"

definition process_field :: "string \<times> json \<Rightarrow> string \<times> string list \<times> string \<Rightarrow> (string \<times> string list \<times> string) option" where
  "process_field kv r =
     (case (kv, r) of ((k, v), (profile, argv, cwd)) \<Rightarrow>
        (let n = lower_ascii (unquote k) in
         if n = ''profile'' then (case v of JStr l \<Rightarrow> Some (unquote l, argv, cwd) | JNull \<Rightarrow> Some r | _ \<Rightarrow> None)
         else if n = ''cwd'' then (case v of JStr l \<Rightarrow> Some (profile, argv, unquote l) | JNull \<Rightarrow> Some r | _ \<Rightarrow> None)
         else if n = ''argv''
         then (case v of
                 JArr vs \<Rightarrow> map_option (\<lambda>xs. (profile, xs, cwd)) (all_some (map text_item vs))
               | JNull \<Rightarrow> Some (profile, [], cwd) | _ \<Rightarrow> None)
         else Some r))"

fun process_fields :: "(string \<times> json) list \<Rightarrow> string \<times> string list \<times> string \<Rightarrow> (string \<times> string list \<times> string) option" where
  "process_fields [] r = Some r"
| "process_fields (m # ms) r = (case process_field m r of None \<Rightarrow> None | Some r' \<Rightarrow> process_fields ms r')"

definition process_args :: "string \<Rightarrow> (string \<times> string list \<times> string) option" where
  "process_args args =
     (case parse_document args of
        None \<Rightarrow> None
      | Some v \<Rightarrow> (case v of JNull \<Rightarrow> Some ([], [], []) | JObj ms \<Rightarrow> process_fields ms ([], [], []) | _ \<Rightarrow> None))"

definition line_break :: "char \<Rightarrow> bool" where
  "line_break c \<longleftrightarrow> c = CHR 0x00 \<or> c = CHR 0x0A \<or> c = CHR 0x0D"

definition escapes :: "string \<Rightarrow> string \<Rightarrow> bool" where
  "escapes top_dir p = (case Rel top_dir p of None \<Rightarrow> True | Some r \<Rightarrow> climbs r)"

definition process_env :: "process_runner \<Rightarrow> string \<Rightarrow> string list" where
  "process_env p top_dir =
     [''PATH='' @ pr_path p, ''HOME='' @ Join top_dir ''.mosaid-home'', ''TMPDIR='' @ Join top_dir ''.mosaid-tmp'', ''LANG=C.UTF-8'']"

definition process_call_of :: "process_runner \<Rightarrow> string \<Rightarrow> (process_error, process_call) result" where
  "process_call_of p args =
     (case process_args args of
        None \<Rightarrow> Inl BadProcessArgs
      | Some (profile, argv, cwd) \<Rightarrow>
          (case pr_profiles p profile of
             None \<Rightarrow> Inl ProfileDenied
           | Some prof \<Rightarrow>
               reject_if (argv = [] \<or> hd argv \<notin> set (cp_first prof)) SubcommandDenied
              (reject_if (list_ex (list_ex line_break) argv) InvalidArgument
              (let top_dir = Abs (pr_workspace p); dir = (if cwd = [] then top_dir else Join top_dir (Clean cwd)) in
               reject_if (escapes top_dir dir) DirectoryEscape
                 (Inr \<lparr>pc_executable = cp_executable prof, pc_argv = argv, pc_dir = dir, pc_env = process_env p top_dir\<rparr>)))))"

definition Run_process ::
  "process_runner \<Rightarrow> (process_call \<Rightarrow> 'w \<Rightarrow> string list \<times> process_end \<times> 'w) \<Rightarrow> string \<Rightarrow> 'w \<Rightarrow> (process_error, process_result) result \<times> 'w" where
  "Run_process p start args w =
     (case process_call_of p args of
        Inl e \<Rightarrow> (Inl e, w)
      | Inr c \<Rightarrow>
          (case start c w of
             (writes, end', w') \<Rightarrow>
               (let b = fold Write_buffer writes (new_buffer (pr_max_output p)) in
                case end' of
                  NotStarted e \<Rightarrow> (Inl (ProcessFailed e), w')
                | Lost e \<Rightarrow> (Inl (ProcessFailed e), w')
                | Exited code \<Rightarrow> (Inr \<lparr>ps_code = code, ps_output = lb_text b, ps_truncated = lb_truncated b\<rparr>, w'))))"

section \<open>What is started\<close>

text \<open>What a checked call looks like.\<close>

definition as_declared :: "process_runner \<Rightarrow> string \<Rightarrow> process_call \<Rightarrow> bool" where
  "as_declared p args c \<longleftrightarrow> (\<exists>name prof cwd. process_args args = Some (name, pc_argv c, cwd)
    \<and> pr_profiles p name = Some prof \<and> pc_executable c = cp_executable prof
    \<and> pc_argv c \<noteq> [] \<and> hd (pc_argv c) \<in> set (cp_first prof)
    \<and> (\<forall>v \<in> set (pc_argv c). \<forall>x \<in> set v. x \<noteq> CHR 0x00 \<and> x \<noteq> CHR 0x0A \<and> x \<noteq> CHR 0x0D)
    \<and> pc_env c = [''PATH='' @ pr_path p, ''HOME='' @ Join (Abs (pr_workspace p)) ''.mosaid-home'',
         ''TMPDIR='' @ Join (Abs (pr_workspace p)) ''.mosaid-tmp'', ''LANG=C.UTF-8'']
    \<and> prefix (abs_elements (Abs (pr_workspace p))) (abs_elements (pc_dir c)))"

lemma process_call_declared:
  assumes "process_call_of p args = Inr c"
  shows "as_declared p args c"
proof -
  obtain name argv cwd where a: "process_args args = Some (name, argv, cwd)"
    using assms by (auto simp: process_call_of_def split: option.splits)
  then obtain prof where prof: "pr_profiles p name = Some prof" using assms by (auto simp: process_call_of_def split: option.splits)
  let ?top = "Abs (pr_workspace p)"
  let ?dir = "if cwd = [] then ?top else Join ?top (Clean cwd)"
  have c: "c = \<lparr>pc_executable = cp_executable prof, pc_argv = argv, pc_dir = ?dir, pc_env = process_env p ?top\<rparr>"
    and ok: "argv \<noteq> []" "hd argv \<in> set (cp_first prof)" "\<not> list_ex (list_ex line_break) argv" "\<not> escapes ?top ?dir"
    using assms by (simp_all add: process_call_of_def a prof Let_def)
  have top: "?top = abs_path (abs_elements ?top)" "rooted ?top" using Abs_rooted by blast+
  have dir: "?dir = abs_path (abs_elements ?dir)"
  proof (cases "cwd = []")
    case False
    have ne: "?top \<noteq> []" using top(2) by (auto simp: rooted_iff)
    have "rooted (?top @ ''/'' @ Clean cwd)" using top(2) rooted_append [of ?top "Clean cwd"] by simp
    then have "Join ?top (Clean cwd) = abs_path (abs_elements (?top @ ''/'' @ Clean cwd))" using ne by (simp add: Join_def Clean_rooted)
    with False show ?thesis by (simp add: abs_elements_abs_path abs_elements_plain)
  qed (use top in simp)
  have "\<exists>cs. abs_elements ?dir = abs_elements ?top @ cs"
    using ok(4) Rel_climbs [OF abs_elements_plain abs_elements_plain, of ?top ?dir] top(1) dir by (simp add: escapes_def)
  then have "prefix (abs_elements ?top) (abs_elements ?dir)" by (auto simp: prefix_def)
  with a prof ok c show ?thesis by (auto simp: as_declared_def process_env_def list_ex_iff line_break_def)
qed

text \<open>An operating system that also keeps a list of what was started on it.\<close>

definition recording ::
  "(process_call \<Rightarrow> 'w \<Rightarrow> string list \<times> process_end \<times> 'w) \<Rightarrow> process_call \<Rightarrow> 'w \<times> process_call list \<Rightarrow> string list \<times> process_end \<times> 'w \<times> process_call list" where
  "recording start c s = (case start c (fst s) of (writes, end', w) \<Rightarrow> (writes, end', w, snd s @ [c]))"

text \<open>
  C16: The process runner starts nothing but what a profile declares, and only once. On an operating system that
  keeps a list of what was started, either a call of \<open>Run\<close> is refused and nothing was started and nothing changed; or exactly one
  process was started, and this one is declared: the profile is the one the arguments name, the executable is that of the
  profile, the arguments are those of the call, the first is one the profile allows and none has a line break or a NUL, the
  directory is written below the workspace, and the environment is the fixed list of four variables. The result is then the exit
  code and the buffer over the writes of that process; if it could not be started or its end was lost, an error.
\<close>

theorem process_as_declared:
  assumes "Run_process p (recording start) args (w, []) = (r, w', started)"
  shows "(started = [] \<and> w' = w \<and> \<not> is_ok r)
    \<or> (\<exists>c writes end'. started = [c] \<and> start c w = (writes, end', w')
        \<and> (\<exists>name prof cwd. process_args args = Some (name, pc_argv c, cwd)
             \<and> pr_profiles p name = Some prof \<and> pc_executable c = cp_executable prof
             \<and> pc_argv c \<noteq> [] \<and> hd (pc_argv c) \<in> set (cp_first prof)
             \<and> (\<forall>v \<in> set (pc_argv c). \<forall>x \<in> set v. x \<noteq> CHR 0x00 \<and> x \<noteq> CHR 0x0A \<and> x \<noteq> CHR 0x0D)
             \<and> pc_env c = [''PATH='' @ pr_path p, ''HOME='' @ Join (Abs (pr_workspace p)) ''.mosaid-home'',
                  ''TMPDIR='' @ Join (Abs (pr_workspace p)) ''.mosaid-tmp'', ''LANG=C.UTF-8'']
             \<and> prefix (abs_elements (Abs (pr_workspace p))) (abs_elements (pc_dir c)))
        \<and> (case end' of
             Exited code \<Rightarrow> r = Inr \<lparr>ps_code = code, ps_output = lb_text (fold Write_buffer writes (new_buffer (pr_max_output p))),
                                    ps_truncated = lb_truncated (fold Write_buffer writes (new_buffer (pr_max_output p)))\<rparr>
           | NotStarted e \<Rightarrow> r = Inl (ProcessFailed e) | Lost e \<Rightarrow> r = Inl (ProcessFailed e)))"
proof (cases "process_call_of p args")
  case (Inl e)
  with assms show ?thesis by (auto simp: Run_process_def)
next
  case (Inr c)
  obtain writes end' v where s: "start c w = (writes, end', v)" by (cases rule: prod.exhaust [of "start c w"]) auto
  have run: "started = [c]" "w' = v" "case end' of
             Exited code \<Rightarrow> r = Inr \<lparr>ps_code = code, ps_output = lb_text (fold Write_buffer writes (new_buffer (pr_max_output p))),
                                    ps_truncated = lb_truncated (fold Write_buffer writes (new_buffer (pr_max_output p)))\<rparr>
           | NotStarted e \<Rightarrow> r = Inl (ProcessFailed e) | Lost e \<Rightarrow> r = Inl (ProcessFailed e)"
    using assms by (auto simp: Run_process_def Inr recording_def s Let_def split: process_end.splits)
  from process_call_declared [OF Inr] run s show ?thesis unfolding as_declared_def by blast
qed

section \<open>The buffer keeps the front\<close>

definition holds_front :: "int \<Rightarrow> string \<Rightarrow> limited_buffer \<Rightarrow> bool" where
  "holds_front n t b \<longleftrightarrow> lb_text b = take (nat n) t \<and> (lb_truncated b \<longleftrightarrow> n < int (length t)) \<and> lb_max b = n"

lemma front_step:
  assumes "holds_front n t b" and "0 \<le> n" and "p \<noteq> []"
  shows "holds_front n (t @ p) (Write_buffer p b)"
proof (cases "int (length t) < n")
  case True
  then have "lb_text b = t" "lb_max b - int (length (lb_text b)) = n - int (length t)" "nat (n - int (length t)) = nat n - length t"
    "take (nat n) (t @ p) = t @ take (nat n - length t) p"
    using assms(1) by (simp_all add: holds_front_def)
  with True assms show ?thesis by (auto simp: holds_front_def Write_buffer_def Let_def)
next
  case False
  moreover have "int (length (lb_text b)) = n" using False assms(1,2) by (simp add: holds_front_def)
  moreover have "0 < length p" using assms(3) by simp
  then have "n < int (length t) + int (length p)" using False by linarith
  ultimately show ?thesis using assms(1) by (simp add: holds_front_def Write_buffer_def Let_def)
qed

text \<open>
  The output of a command is the front of what it wrote, as long as the limit allows and no longer, and it is
  marked as truncated exactly if something is missing.
\<close>

theorem output_is_the_front:
  assumes "0 \<le> n" and "\<forall>p \<in> set ps. p \<noteq> []" and "b = fold Write_buffer ps (new_buffer n)"
  shows "lb_text b = take (nat n) (concat ps) \<and> (lb_truncated b \<longleftrightarrow> n < int (length (concat ps)))"
proof -
  have "holds_front n (concat ps) (fold Write_buffer ps (new_buffer n))"
    using assms(2)
  proof (induction ps rule: rev_induct)
    case Nil
    show ?case using assms(1) by (simp add: new_buffer_def holds_front_def)
  next
    case (snoc p ps)
    with front_step [OF _ assms(1), of "concat ps" _ p] show ?case by simp
  qed
  with assms(3) show ?thesis by (simp add: holds_front_def)
qed

lemma output_is_the_front_witness: "lb_text (fold Write_buffer [''abc'', ''de''] (new_buffer 4)) = ''abcd''"
  using output_is_the_front [of 4 "[''abc'', ''de'']", OF _ _ refl] by simp

definition demo_runner :: process_runner where
  "demo_runner = \<lparr>pr_workspace = ''/w'', pr_profiles = DefaultProfiles, pr_max_output = 100, pr_path = ''/bin''\<rparr>"

definition demo_process_args :: string where
  "demo_process_args = ''{'' @ json_quote ''profile'' @ '':'' @ json_quote ''go'' @ '','' @ json_quote ''argv'' @ '':['' @ json_quote ''vet'' @ '']}''"

lemma process_as_declared_witness:
  "\<exists>r c w. Run_process demo_runner (recording (\<lambda>c w. ([''ok''], Exited 0, Suc w))) demo_process_args (0, []) = (r, w, [c])
     \<and> w = 1 \<and> pc_argv c = [''vet''] \<and> prefix (abs_elements (Abs (pr_workspace demo_runner))) (abs_elements (pc_dir c))"
proof -
  let ?c = "\<lparr>pc_executable = ''go'', pc_argv = [''vet''], pc_dir = ''/w'', pc_env = [''PATH=/bin'', ''HOME=/w/.mosaid-home'', ''TMPDIR=/w/.mosaid-tmp'', ''LANG=C.UTF-8'']\<rparr>"
  have call: "process_call_of demo_runner demo_process_args = Inr ?c" by code_simp
  obtain r where run: "Run_process demo_runner (recording (\<lambda>c w. ([''ok''], Exited 0, Suc w))) demo_process_args (0, []) = (r, 1, [?c])"
    by (simp add: Run_process_def call recording_def Let_def)
  from process_as_declared [OF run] have "prefix (abs_elements (Abs (pr_workspace demo_runner))) (abs_elements (pc_dir ?c))"
    by (elim disjE exE conjE) simp_all
  with run show ?thesis by (intro exI [of _ r] exI [of _ ?c] exI [of _ 1]) simp
qed

end
