(* ===== verification/Git.thy ===== *)
theory Git
  imports Process
begin

text \<open>
  Package \<open>internal/gitops\<close>: git on the repositories below one directory. The program \<open>git\<close>, making
  directories and \<open>url.Parse\<close> are arguments; the state records every call of \<open>git\<close> with the world it found.
\<close>

section \<open>Calls\<close>

record git_service =
  gs_root :: string
  gs_prefixes :: "string list"
  gs_max_output :: int

record 'w git_env =
  ge_git :: "string \<Rightarrow> string list \<Rightarrow> 'w \<Rightarrow> (string \<times> bool) \<times> 'w"
  ge_mkdir :: "string \<Rightarrow> 'w \<Rightarrow> string option \<times> 'w"
  ge_scheme :: "string \<Rightarrow> string option"

record 'w git_state =
  gw_world :: 'w
  gw_calls :: "(string \<times> string list \<times> 'w) list"

datatype git_error = RepoEscape | OutputTooLarge | GitFailed string | HttpsRequired | CloneDenied | MkdirFailed string
  | ProtectedBranch | BranchDenied | StageDenied | MessageRequired

type_synonym ('w, 'a) git_op = "'w git_state \<Rightarrow> (git_error, 'a) result \<times> 'w git_state"

text \<open>\<open>x, e := f(); if e != nil { return e }\<close> and the rest, with the state.\<close>

definition git_then :: "('w, 'a) git_op \<Rightarrow> ('a \<Rightarrow> ('w, 'b) git_op) \<Rightarrow> ('w, 'b) git_op" where
  "git_then f g s = (case f s of (Inl e, s1) \<Rightarrow> (Inl e, s1) | (Inr x, s1) \<Rightarrow> g x s1)"

definition git_pure :: "(git_error, 'a) result \<Rightarrow> ('w, 'a) git_op" where
  "git_pure r s = (r, s)"

definition repo_path :: "git_service \<Rightarrow> string \<Rightarrow> (git_error, string) result" where
  "repo_path g path =
     (let p = Join (gs_root g) (Clean path) in if escapes (gs_root g) p then Inl RepoEscape else Inr p)"

definition run_git :: "'w git_env \<Rightarrow> git_service \<Rightarrow> string \<Rightarrow> string list \<Rightarrow> ('w, string) git_op" where
  "run_git en g dir args s =
     (case ge_git en dir args (gw_world s) of
        ((out, ok), w) \<Rightarrow>
          (let s1 = s\<lparr>gw_world := w, gw_calls := gw_calls s @ [(dir, args, gw_world s)]\<rparr> in
           if int (length out) > gs_max_output g \<and> gs_max_output g > 0 then (Inl OutputTooLarge, s1)
           else if \<not> ok then (Inl (GitFailed (trim_space out)), s1)
           else (Inr (trim_space out), s1)))"

section \<open>Operations\<close>

definition git_mkdir :: "'w git_env \<Rightarrow> string \<Rightarrow> ('w, unit) git_op" where
  "git_mkdir en d s =
     (case ge_mkdir en d (gw_world s) of
        (Some e, w) \<Rightarrow> (Inl (MkdirFailed e), s\<lparr>gw_world := w\<rparr>) | (None, w) \<Rightarrow> (Inr (), s\<lparr>gw_world := w\<rparr>))"

definition Clone :: "'w git_env \<Rightarrow> git_service \<Rightarrow> string \<Rightarrow> string \<Rightarrow> ('w, unit) git_op" where
  "Clone en g remote dest s =
     (if ge_scheme en remote \<noteq> Some ''https'' then (Inl HttpsRequired, s)
      else if \<not> list_ex (starts_with remote) (gs_prefixes g) then (Inl CloneDenied, s)
      else git_then (git_pure (repo_path g dest)) (\<lambda>d.
           git_then (git_mkdir en (Dir d)) (\<lambda>_.
           git_then (run_git en g (gs_root g) [''clone'', ''--'', remote, d]) (\<lambda>_. git_pure (Inr ())))) s)"

definition CurrentBranch :: "'w git_env \<Rightarrow> git_service \<Rightarrow> string \<Rightarrow> ('w, string) git_op" where
  "CurrentBranch en g repo =
     git_then (git_pure (repo_path g repo)) (\<lambda>p. run_git en g p [''branch'', ''--show-current''])"

definition protected_branch :: "string \<Rightarrow> bool" where
  "protected_branch b \<longleftrightarrow> b = ''main'' \<or> b = ''master'' \<or> b = []"

definition ensureTask :: "'w git_env \<Rightarrow> git_service \<Rightarrow> string \<Rightarrow> ('w, unit) git_op" where
  "ensureTask en g repo =
     git_then (CurrentBranch en g repo) (\<lambda>b. git_pure (if protected_branch b then Inl ProtectedBranch else Inr ()))"

definition Status_git :: "'w git_env \<Rightarrow> git_service \<Rightarrow> string \<Rightarrow> ('w, string) git_op" where
  "Status_git en g repo = git_then (git_pure (repo_path g repo)) (\<lambda>p. run_git en g p [''status'', ''--short'', ''--branch''])"

definition Diff_git :: "'w git_env \<Rightarrow> git_service \<Rightarrow> string \<Rightarrow> bool \<Rightarrow> ('w, string) git_op" where
  "Diff_git en g repo staged =
     git_then (git_pure (repo_path g repo)) (\<lambda>p.
       run_git en g p ([''diff'', ''--no-ext-diff''] @ (if staged then [''--cached''] else [])))"

definition Log_git :: "'w git_env \<Rightarrow> git_service \<Rightarrow> string \<Rightarrow> ('w, string) git_op" where
  "Log_git en g repo =
     git_then (git_pure (repo_path g repo)) (\<lambda>p. run_git en g p [''log'', ''--oneline'', ''--decorate'', ''-n'', ''50''])"

definition CreateBranch :: "'w git_env \<Rightarrow> git_service \<Rightarrow> string \<Rightarrow> string \<Rightarrow> ('w, unit) git_op" where
  "CreateBranch en g repo branch s =
     (if \<not> starts_with branch ''agent/'' then (Inl BranchDenied, s)
      else git_then (git_pure (repo_path g repo)) (\<lambda>p.
           git_then (run_git en g p [''switch'', ''-c'', branch]) (\<lambda>_. git_pure (Inr ()))) s)"

definition Worktree :: "'w git_env \<Rightarrow> git_service \<Rightarrow> string \<Rightarrow> string \<Rightarrow> string \<Rightarrow> ('w, unit) git_op" where
  "Worktree en g repo branch dest s =
     (if \<not> starts_with branch ''agent/'' then (Inl BranchDenied, s)
      else git_then (git_pure (repo_path g repo)) (\<lambda>p.
           git_then (git_pure (repo_path g dest)) (\<lambda>d.
           git_then (run_git en g p [''worktree'', ''add'', ''-b'', branch, d]) (\<lambda>_. git_pure (Inr ())))) s)"

text \<open>\<open>p, _ := s.repo(repo)\<close> after a check that has asked for the same path.\<close>

definition repo_or_empty :: "git_service \<Rightarrow> string \<Rightarrow> string" where
  "repo_or_empty g repo = (case repo_path g repo of Inl _ \<Rightarrow> [] | Inr p \<Rightarrow> p)"

definition stage_denied :: "string \<Rightarrow> bool" where
  "stage_denied x \<longleftrightarrow> rooted x \<or> starts_with (Clean x) ''..''"

definition Stage :: "'w git_env \<Rightarrow> git_service \<Rightarrow> string \<Rightarrow> string list \<Rightarrow> ('w, unit) git_op" where
  "Stage en g repo paths =
     git_then (ensureTask en g repo) (\<lambda>_.
     git_then (git_pure (if list_ex stage_denied paths then Inl StageDenied else Inr ())) (\<lambda>_.
     git_then (run_git en g (repo_or_empty g repo) ([''add'', ''--''] @ paths)) (\<lambda>_. git_pure (Inr ()))))"

definition Commit :: "'w git_env \<Rightarrow> git_service \<Rightarrow> string \<Rightarrow> string \<Rightarrow> ('w, string) git_op" where
  "Commit en g repo msg =
     git_then (ensureTask en g repo) (\<lambda>_.
     git_then (git_pure (if trim_space msg = [] then Inl MessageRequired else Inr ())) (\<lambda>_.
       run_git en g (repo_or_empty g repo) [''commit'', ''-m'', msg]))"

definition Push :: "'w git_env \<Rightarrow> git_service \<Rightarrow> string \<Rightarrow> ('w, string) git_op" where
  "Push en g repo =
     git_then (ensureTask en g repo) (\<lambda>_.
     git_then (CurrentBranch en g repo) (\<lambda>b.
       run_git en g (repo_or_empty g repo) [''push'', ''--set-upstream'', ''origin'', b]))"

section \<open>What an operation calls\<close>

datatype git_request = AskClone string string | AskBranch string | AskStatus string | AskDiff string bool | AskLog string
  | AskCreate string string | AskWorktree string string string | AskStage string "string list" | AskCommit string string | AskPush string

fun git_step :: "'w git_env \<Rightarrow> git_service \<Rightarrow> git_request \<Rightarrow> 'w git_state \<Rightarrow> 'w git_state" where
  "git_step en g (AskClone remote dest) s = snd (Clone en g remote dest s)"
| "git_step en g (AskBranch repo) s = snd (CurrentBranch en g repo s)"
| "git_step en g (AskStatus repo) s = snd (Status_git en g repo s)"
| "git_step en g (AskDiff repo staged) s = snd (Diff_git en g repo staged s)"
| "git_step en g (AskLog repo) s = snd (Log_git en g repo s)"
| "git_step en g (AskCreate repo branch) s = snd (CreateBranch en g repo branch s)"
| "git_step en g (AskWorktree repo branch dest) s = snd (Worktree en g repo branch dest s)"
| "git_step en g (AskStage repo paths) s = snd (Stage en g repo paths s)"
| "git_step en g (AskCommit repo msg) s = snd (Commit en g repo msg s)"
| "git_step en g (AskPush repo) s = snd (Push en g repo s)"

text \<open>
  What is promised of a call: it is made below the root, and one that changes the repository's history is
  made only on a branch that is not protected; what is pushed is that branch.
\<close>

definition writing :: "string list \<Rightarrow> bool" where
  "writing args \<longleftrightarrow> args \<noteq> [] \<and> hd args \<in> set [''add'', ''commit'', ''push'']"

definition call_kept :: "git_service \<Rightarrow> (string \<Rightarrow> 'w \<Rightarrow> string) \<Rightarrow> string \<times> string list \<times> 'w \<Rightarrow> bool" where
  "call_kept g branch_at c =
     (case c of (dir, args, w) \<Rightarrow>
        prefix (abs_elements (gs_root g)) (abs_elements dir)
        \<and> (writing args \<longrightarrow> \<not> protected_branch (branch_at dir w))
        \<and> (args \<noteq> [] \<and> hd args = ''push'' \<longrightarrow> args = [''push'', ''--set-upstream'', ''origin'', branch_at dir w]))"

text \<open>What \<open>git branch --show-current\<close> is documented to do: it prints the branch and changes nothing.\<close>

definition tells_branch :: "'w git_env \<Rightarrow> (string \<Rightarrow> 'w \<Rightarrow> string) \<Rightarrow> bool" where
  "tells_branch en branch_at \<longleftrightarrow>
     (\<forall>dir w out ok w'. ge_git en dir [''branch'', ''--show-current''] w = ((out, ok), w') \<longrightarrow>
        w' = w \<and> (ok \<longrightarrow> trim_space out = branch_at dir w))"

locale git_runner =
  fixes en :: "'w git_env" and g :: git_service and branch_at :: "string \<Rightarrow> 'w \<Rightarrow> string"
  assumes root_rooted: "rooted (gs_root g)"
    and honest: "tells_branch en branch_at"
begin

definition kept :: "'w git_state \<Rightarrow> bool" where
  "kept s \<longleftrightarrow> (\<forall>c \<in> set (gw_calls s). call_kept g branch_at c)"

lemma repo_below: "repo_path g path = Inr p \<Longrightarrow> prefix (abs_elements (gs_root g)) (abs_elements p)"
proof -
  assume p: "repo_path g path = Inr p"
  have ne: "gs_root g \<noteq> []" using root_rooted by (auto simp: rooted_iff)
  have "rooted (gs_root g @ ''/'' @ Clean path)" using root_rooted rooted_append [of "gs_root g" "Clean path"] by simp
  then have "Join (gs_root g) (Clean path) = abs_path (abs_elements (gs_root g @ ''/'' @ Clean path))" using ne by (simp add: Join_def Clean_rooted)
  then have "p = abs_path (abs_elements (gs_root g @ ''/'' @ Clean path))" using p by (simp add: repo_path_def Let_def split: if_splits)
  then obtain es where es: "p = abs_path es" "\<forall>e \<in> set es. plain_name e" using abs_elements_plain by blast
  have "Rel (gs_root g) p = Rel (abs_path (abs_elements (gs_root g))) p"
    using root_rooted abs_elements_plain by (simp add: Rel_def Clean_rooted abs_elements_abs_path)
  then have "\<exists>cs. es = abs_elements (gs_root g) @ cs"
    using p es Rel_climbs [OF abs_elements_plain es(2), of "gs_root g"] by (simp add: repo_path_def escapes_def Let_def split: if_splits)
  with es show ?thesis by (auto simp: abs_elements_abs_path)
qed

lemma kept_run:
  "kept s \<Longrightarrow> call_kept g branch_at (dir, args, gw_world s) \<Longrightarrow> kept (snd (run_git en g dir args s))"
  by (auto simp: run_git_def kept_def Let_def split: prod.split)

lemma reading_kept: "prefix (abs_elements (gs_root g)) (abs_elements dir) \<Longrightarrow> \<not> writing args \<Longrightarrow> call_kept g branch_at (dir, args, w)"
  by (auto simp: call_kept_def writing_def)

lemma kept_read: "kept s \<Longrightarrow> \<not> writing args \<Longrightarrow> kept (snd (git_then (git_pure (repo_path g repo)) (\<lambda>p. run_git en g p args) s))"
  using kept_run reading_kept repo_below by (auto simp: git_then_def git_pure_def split: sum.split)

text \<open>Asking for the branch: the world stays, and the answer is the branch.\<close>

lemma branch_asked:
  assumes "kept s" and "CurrentBranch en g repo s = (r, s')"
  shows "kept s' \<and> gw_world s' = gw_world s \<and> (\<forall>b. r = Inr b \<longrightarrow> (\<exists>p. repo_path g repo = Inr p \<and> b = branch_at p (gw_world s)))"
proof (cases "repo_path g repo")
  case (Inr p)
  obtain out ok w where o: "ge_git en p [''branch'', ''--show-current''] (gw_world s) = ((out, ok), w)" by (metis prod.exhaust)
  then have h: "w = gw_world s" "ok \<Longrightarrow> trim_space out = branch_at p (gw_world s)" using honest by (auto simp: tells_branch_def)
  have "kept (snd (CurrentBranch en g repo s))" unfolding CurrentBranch_def by (rule kept_read [OF assms(1)]) (simp add: writing_def)
  with assms(2) o h Inr show ?thesis
    by (auto simp: CurrentBranch_def git_then_def git_pure_def run_git_def Let_def split: if_splits)
next
  case (Inl e)
  then have "r = Inl e \<and> s' = s" using assms(2) by (simp add: CurrentBranch_def git_then_def git_pure_def)
  with assms(1) show ?thesis by simp
qed

lemma task_ensured:
  assumes "kept s" and "ensureTask en g repo s = (r, s')"
  shows "kept s' \<and> gw_world s' = gw_world s
    \<and> (r = Inr () \<longrightarrow> (\<exists>p. repo_path g repo = Inr p \<and> \<not> protected_branch (branch_at p (gw_world s))))"
proof -
  obtain q s1 where q: "CurrentBranch en g repo s = (q, s1)" by (cases rule: prod.exhaust)
  from branch_asked [OF assms(1) q] assms(2) q show ?thesis
    by (cases q) (auto simp: ensureTask_def git_then_def git_pure_def split: if_splits)
qed

text \<open>After the check of the branch, in the state it leaves.\<close>

lemma kept_task:
  assumes "kept s" and "\<And>s1 p. kept s1 \<Longrightarrow> repo_path g repo = Inr p \<Longrightarrow> \<not> protected_branch (branch_at p (gw_world s1)) \<Longrightarrow> kept (snd (k () s1))"
  shows "kept (snd (git_then (ensureTask en g repo) k s))"
proof -
  obtain r s1 where r: "ensureTask en g repo s = (r, s1)" by (cases rule: prod.exhaust)
  from task_ensured [OF assms(1) r] assms(2) [of s1] r show ?thesis by (cases r) (auto simp: git_then_def)
qed

lemma kept_change:
  assumes "kept s" and "repo_path g repo = Inr p" and "\<not> protected_branch (branch_at p (gw_world s))"
    and "hd args = ''push'' \<Longrightarrow> args = [''push'', ''--set-upstream'', ''origin'', branch_at p (gw_world s)]"
  shows "kept (snd (run_git en g (repo_or_empty g repo) args s))"
proof -
  have "call_kept g branch_at (p, args, gw_world s)" using assms repo_below [OF assms(2)] by (auto simp: call_kept_def)
  with kept_run [OF assms(1)] assms(2) show ?thesis by (simp add: repo_or_empty_def)
qed

lemma kept_Stage: "kept s \<Longrightarrow> kept (snd (Stage en g repo paths s))"
  unfolding Stage_def
proof (rule kept_task)
  fix s1 p
  assume s1: "kept s1" "repo_path g repo = Inr p" "\<not> protected_branch (branch_at p (gw_world s1))"
  have "kept (snd (run_git en g (repo_or_empty g repo) ([''add'', ''--''] @ paths) s1))" by (rule kept_change [OF s1]) simp
  with s1(1) show "kept (snd (git_then (git_pure (if list_ex stage_denied paths then Inl StageDenied else Inr ()))
      (\<lambda>_. git_then (run_git en g (repo_or_empty g repo) ([''add'', ''--''] @ paths)) (\<lambda>_. git_pure (Inr ()))) s1))"
    by (auto simp: git_then_def git_pure_def split: sum.split prod.split)
qed

lemma kept_Commit: "kept s \<Longrightarrow> kept (snd (Commit en g repo msg s))"
  unfolding Commit_def
proof (rule kept_task)
  fix s1 p
  assume s1: "kept s1" "repo_path g repo = Inr p" "\<not> protected_branch (branch_at p (gw_world s1))"
  have "kept (snd (run_git en g (repo_or_empty g repo) [''commit'', ''-m'', msg] s1))" by (rule kept_change [OF s1]) simp
  with s1(1) show "kept (snd (git_then (git_pure (if trim_space msg = [] then Inl MessageRequired else Inr ()))
      (\<lambda>_. run_git en g (repo_or_empty g repo) [''commit'', ''-m'', msg]) s1))"
    by (simp add: git_then_def git_pure_def)
qed

lemma kept_Push: "kept s \<Longrightarrow> kept (snd (Push en g repo s))"
  unfolding Push_def
proof (rule kept_task)
  fix s1 p
  assume s1: "kept s1" "repo_path g repo = Inr p" "\<not> protected_branch (branch_at p (gw_world s1))"
  obtain r s2 where r: "CurrentBranch en g repo s1 = (r, s2)" by (cases rule: prod.exhaust)
  note b = branch_asked [OF s1(1) r]
  show "kept (snd (git_then (CurrentBranch en g repo) (\<lambda>b. run_git en g (repo_or_empty g repo) [''push'', ''--set-upstream'', ''origin'', b]) s1))"
  proof (cases r)
    case (Inr x)
    have "kept (snd (run_git en g (repo_or_empty g repo) [''push'', ''--set-upstream'', ''origin'', x] s2))"
      by (rule kept_change [of _ _ p]) (use b s1 Inr in auto)
    with r Inr show ?thesis by (simp add: git_then_def)
  qed (use b r in \<open>simp add: git_then_def\<close>)
qed

lemma kept_git_step: "kept s \<Longrightarrow> kept (git_step en g q s)"
proof (cases q)
  case (AskClone remote dest)
  assume s: "kept s"
  have "kept (snd (git_then (git_pure (repo_path g dest)) (\<lambda>d. git_then (git_mkdir en (Dir d)) (\<lambda>_.
      git_then (run_git en g (gs_root g) [''clone'', ''--'', remote, d]) (\<lambda>_. git_pure (Inr ())))) s))"
  proof (cases "repo_path g dest")
    case (Inr d)
    obtain m s1 where m: "git_mkdir en (Dir d) s = (m, s1)" by (cases rule: prod.exhaust)
    then have s1: "kept s1" using s by (auto simp: git_mkdir_def kept_def split: prod.splits option.splits)
    have "call_kept g branch_at (gs_root g, [''clone'', ''--'', remote, d], gw_world s1)" by (rule reading_kept) (simp_all add: writing_def)
    from kept_run [OF s1 this] Inr m s1 show ?thesis
      by (cases m) (auto simp: git_then_def git_pure_def split: sum.split prod.split)
  qed (use s in \<open>simp add: git_then_def git_pure_def\<close>)
  with s AskClone show ?thesis by (simp add: Clone_def)
next
  case (AskCreate repo branch)
  assume s: "kept s"
  have "kept (snd (git_then (git_pure (repo_path g repo)) (\<lambda>p. run_git en g p [''switch'', ''-c'', branch]) s))"
    by (rule kept_read [OF s]) (simp add: writing_def)
  with s AskCreate show ?thesis
    by (auto simp: CreateBranch_def git_then_def git_pure_def split: sum.split prod.split sum.splits)
next
  case (AskWorktree repo branch dest)
  assume s: "kept s"
  have "kept (snd (git_then (git_pure (repo_path g repo)) (\<lambda>p. run_git en g p [''worktree'', ''add'', ''-b'', branch, d]) s))" for d
    by (rule kept_read [OF s]) (simp add: writing_def)
  with s AskWorktree show ?thesis
    by (auto simp: Worktree_def git_then_def git_pure_def split: sum.split prod.split sum.splits) (metis snd_conv)+
qed (simp_all add: CurrentBranch_def Status_git_def Diff_git_def Log_git_def kept_read writing_def kept_Stage kept_Commit kept_Push)

lemma kept_session: "gw_calls s = [] \<Longrightarrow> kept (fold (git_step en g) qs s)"
proof -
  assume "gw_calls s = []"
  then have "kept s" by (simp add: kept_def)
  then show ?thesis by (induction qs arbitrary: s) (simp_all add: kept_git_step)
qed

end

section \<open>A repository in memory\<close>

text \<open>A git that knows branches: the current one, and what \<open>switch\<close> makes of it.\<close>

definition mem_git :: "string \<Rightarrow> string list \<Rightarrow> string \<Rightarrow> (string \<times> bool) \<times> string" where
  "mem_git dir args b =
     (if args = [''branch'', ''--show-current''] then ((b, True), b)
      else if length args = 3 \<and> hd args = ''switch'' then (([], True), args ! 2)
      else (([], True), b))"

definition mem_env :: "string git_env" where
  "mem_env = \<lparr>ge_git = mem_git, ge_mkdir = \<lambda>d w. (None, w), ge_scheme = \<lambda>u. Some ''https''\<rparr>"

definition git_below :: "string \<Rightarrow> string list \<Rightarrow> int \<Rightarrow> git_service" where
  "git_below d sources limit = \<lparr>gs_root = CHR ''/'' # d, gs_prefixes = sources, gs_max_output = limit\<rparr>"

interpretation mem: git_runner mem_env "git_below d sources limit" "\<lambda>dir b. trim_space b"
  by unfold_locales (simp_all add: git_below_def rooted_iff tells_branch_def mem_env_def mem_git_def)

text \<open>
  C17: With a git that tells the current branch, whatever is asked of the service, every call of git is made
  below the root, and files are staged, committed and pushed only while the current branch is neither
  \<open>main\<close> nor \<open>master\<close> nor absent; what is pushed is the current branch.
\<close>

theorem protected_branches_untouched:
  assumes "rooted (gs_root g)" and "tells_branch en branch_at" and "gw_calls s = []"
    and "(dir, args, w) \<in> set (gw_calls (fold (git_step en g) qs s))"
  shows "prefix (abs_elements (gs_root g)) (abs_elements dir)
    \<and> (args \<noteq> [] \<and> hd args \<in> set [''add'', ''commit'', ''push''] \<longrightarrow> branch_at dir w \<notin> set [''main'', ''master'', []])
    \<and> (args \<noteq> [] \<and> hd args = ''push'' \<longrightarrow> args = [''push'', ''--set-upstream'', ''origin'', branch_at dir w])"
proof -
  have "git_runner en g branch_at" using assms(1,2) by unfold_locales
  from git_runner.kept_session [OF this assms(3), of qs] assms(4) have "call_kept g branch_at (dir, args, w)"
    using git_runner.kept_def [OF \<open>git_runner en g branch_at\<close>] by blast
  then show ?thesis unfolding call_kept_def writing_def protected_branch_def by simp
qed

definition demo_git :: git_service where
  "demo_git = git_below ''r'' [] 0"

definition demo_git_run :: "string git_state" where
  "demo_git_run = fold (git_step mem_env demo_git) [AskCommit ''a'' ''m'', AskCreate ''a'' ''agent/x'', AskCommit ''a'' ''m'', AskPush ''a'']
     \<lparr>gw_world = ''main'', gw_calls = []\<rparr>"

lemma protected_branches_untouched_witness:
  "\<exists>w. (''/r/a'', [''push'', ''--set-upstream'', ''origin'', ''agent/x''], w) \<in> set (gw_calls demo_git_run) \<and> w \<noteq> ''main''"
proof -
  let ?c = "(''/r/a'', [''push'', ''--set-upstream'', ''origin'', ''agent/x''], ''agent/x'')"
  have "List.member (gw_calls demo_git_run) ?c" by code_simp
  then have c: "?c \<in> set (gw_calls demo_git_run)" by simp
  have "tells_branch mem_env (\<lambda>dir b. trim_space b)" "rooted (gs_root demo_git)"
    by (simp_all add: tells_branch_def mem_env_def mem_git_def demo_git_def git_below_def rooted_iff)
  from protected_branches_untouched [OF this(2,1) _ c [unfolded demo_git_run_def]] c show ?thesis by (intro exI [of _ "''agent/x''"]) simp
qed

end
