(* ===== verification/ApprovalSpec.thy ===== *)
theory ApprovalSpec
  imports Approval
begin

text \<open>
  What package \<open>internal/approval\<close> promises, without its tables: an office that keeps one ticket per
  token. A ticket is bound to a user, a tool, arguments and a resource, and its status only moves from
  waiting to granted, refused or lapsed, and from granted to spent. The tables of the code implement the
  office: every operation gives the answer the office gives.
\<close>

section \<open>The office\<close>

datatype ticket_status = Waiting | Granted | Refused | Lapsed | Spent

record ticket =
  k_id :: string
  k_user :: int
  k_tool :: string
  k_args_hash :: string
  k_resource :: string
  k_expires :: time
  k_status :: ticket_status

type_synonym office = "string \<rightharpoonup> ticket"

datatype appr_answer = Issued appr_request | Decided | Redeemed receipt

definition bound_to :: "ticket \<Rightarrow> int \<Rightarrow> string \<Rightarrow> string \<Rightarrow> string \<Rightarrow> bool" where
  "bound_to t user tool args resource \<longleftrightarrow> k_user t = user \<and> k_tool t = tool \<and> k_args_hash t = args \<and> k_resource t = resource"

text \<open>An expiry that is not written as a year of four digits counts as the zero time.\<close>

definition due :: "ticket \<Rightarrow> time" where
  "due t = (if in_range (k_expires t) then k_expires t else 0)"

definition office_issue ::
  "string \<Rightarrow> int \<Rightarrow> string \<Rightarrow> string \<Rightarrow> string \<Rightarrow> time \<Rightarrow> office \<Rightarrow> (appr_error, appr_answer) result \<times> office" where
  "office_issue b user tool args resource expires off =
     (let tok = base64url b; h = token_hash tok; i = request_id b in
      if off h \<noteq> None \<or> i \<in> k_id ` ran off then (Inl ConstraintFailed, off)
      else (Inr (Issued \<lparr>q_id = i, q_token = tok, q_user = user, q_tool = tool, q_args_hash = args, q_resource = resource, q_expires = expires\<rparr>),
            off(h \<mapsto> \<lparr>k_id = i, k_user = user, k_tool = tool, k_args_hash = args, k_resource = resource, k_expires = expires,
                      k_status = Waiting\<rparr>)))"

definition office_decide ::
  "string \<Rightarrow> int \<Rightarrow> string \<Rightarrow> string \<Rightarrow> string \<Rightarrow> string \<Rightarrow> time \<Rightarrow> office \<Rightarrow> (appr_error, appr_answer) result \<times> office" where
  "office_decide tok user tool args resource decision now off =
     (if decision \<notin> {''approved'', ''denied''} then (Inl InvalidDecision, off)
      else case off (token_hash tok) of
        None \<Rightarrow> (Inl NotFound, off)
      | Some t \<Rightarrow>
          if k_status t \<noteq> Waiting then (Inl AlreadyResolved, off)
          else if now > due t then (Inl ExpiredApproval, off(token_hash tok \<mapsto> t\<lparr>k_status := Lapsed\<rparr>))
          else if \<not> bound_to t user tool args resource then (Inl BindingMismatch, off)
          else (Inr Decided, off(token_hash tok \<mapsto> t\<lparr>k_status := if decision = ''approved'' then Granted else Refused\<rparr>)))"

definition office_redeem ::
  "string \<Rightarrow> int \<Rightarrow> string \<Rightarrow> string \<Rightarrow> string \<Rightarrow> time \<Rightarrow> office \<Rightarrow> (appr_error, appr_answer) result \<times> office" where
  "office_redeem tok user tool args resource now off =
     (case off (token_hash tok) of
        None \<Rightarrow> (Inl NotFound, off)
      | Some t \<Rightarrow>
          if \<not> in_range (k_expires t) \<or> k_expires t \<le> now then (Inl ExpiredApproval, off)
          else if k_status t \<notin> {Granted, Spent} \<or> \<not> bound_to t user tool args resource then (Inl NotAuthorized, off)
          else if k_status t = Spent then (Inl AlreadyUsed, off)
          else (Inr (Redeemed \<lparr>c_id = k_id t, c_user = user, c_tool = tool, c_args_hash = args, c_resource = resource, c_expires = k_expires t\<rparr>),
                off(token_hash tok \<mapsto> t\<lparr>k_status := Spent\<rparr>)))"

fun office_step :: "appr_op \<Rightarrow> office \<Rightarrow> (appr_error, appr_answer) result \<times> office" where
  "office_step (OpRequest b u t a r ttl n1 n2 n3) off = office_issue b u t a r (n1 + ttl) off"
| "office_step (OpResolve tok u t a r d n1 n2 n3) off = office_decide tok u t a r d n1 off"
| "office_step (OpResolveToken tok u d n1 n2 n3) off =
     (case off (token_hash tok) of
        None \<Rightarrow> (Inl NotFound, off)
      | Some t \<Rightarrow>
          if k_user t \<noteq> u then (Inl BindingMismatch, off)
          else office_decide tok u (k_tool t) (k_args_hash t) (k_resource t) d n1 off)"
| "office_step (OpRedeem tok u t a r n1 n2) off = office_redeem tok u t a r n1 off"

definition office_run :: "appr_op list \<Rightarrow> office" where
  "office_run es = fold (\<lambda>e. snd \<circ> office_step e) es Map.empty"

section \<open>The tables as an office\<close>

definition status_of :: "(string \<times> time) list \<Rightarrow> request_row \<Rightarrow> ticket_status" where
  "status_of us r =
     (case a_state r of
        APending \<Rightarrow> Waiting | ADenied \<Rightarrow> Refused | AExpired \<Rightarrow> Lapsed
      | AApproved \<Rightarrow> if a_id r \<in> fst ` set us then Spent else Granted)"

definition ticket_of :: "(string \<times> time) list \<Rightarrow> request_row \<Rightarrow> ticket" where
  "ticket_of us r = \<lparr>k_id = a_id r, k_user = a_user r, k_tool = a_tool r, k_args_hash = a_args_hash r, k_resource = a_resource r,
     k_expires = a_expires r, k_status = status_of us r\<rparr>"

definition office_of :: "appr_db \<Rightarrow> office" where
  "office_of db h = map_option (ticket_of (uses db)) (select_one (\<lambda>r. a_token_hash r = h) (requests db))"

fun appr_answer_of :: "appr_op \<Rightarrow> appr_db \<Rightarrow> (appr_error, appr_answer) result" where
  "appr_answer_of (OpRequest b u t a r ttl n1 n2 n3) db = map_sum id Issued (fst (Create_request b u t a r ttl n1 n2 n3 db))"
| "appr_answer_of (OpResolve tok u t a r d n1 n2 n3) db = map_sum id (\<lambda>x. Decided) (fst (Resolve_request tok u t a r d n1 n2 n3 db))"
| "appr_answer_of (OpResolveToken tok u d n1 n2 n3) db = map_sum id (\<lambda>x. Decided) (fst (ResolveToken tok u d n1 n2 n3 db))"
| "appr_answer_of (OpRedeem tok u t a r n1 n2) db = map_sum id Redeemed (fst (AuthorizeReceipt tok u t a r n1 n2 db))"

text \<open>A functional refinement: the step of the code, read through the abstraction, is the step of the specification.\<close>

locale simulation = machine step inv
  for step :: "'e \<Rightarrow> 's \<Rightarrow> 's" and inv :: "'s \<Rightarrow> bool" +
  fixes answer :: "'e \<Rightarrow> 's \<Rightarrow> 'r"
    and abs :: "'s \<Rightarrow> 'a"
    and spec :: "'e \<Rightarrow> 'a \<Rightarrow> 'r \<times> 'a"
  assumes simulates: "inv s \<Longrightarrow> spec e (abs s) = (answer e s, abs (step e s))"
begin

lemma run_simulates: "inv s \<Longrightarrow> abs (fold step es s) = fold (\<lambda>e. snd \<circ> spec e) es (abs s)"
  by (induction es arbitrary: s) (simp_all add: step_keeps simulates)

lemma answers: "inv s \<Longrightarrow> answer e (fold step es s) = fst (spec e (fold (\<lambda>e. snd \<circ> spec e) es (abs s)))"
  using simulates [OF run_keeps] by (simp add: run_simulates [symmetric])

end

section \<open>The simulation\<close>

lemma office_of_row: "appr_inv db \<Longrightarrow> r \<in> set (requests db) \<Longrightarrow> office_of db (a_token_hash r) = Some (ticket_of (uses db) r)"
  using select_one_key [of a_token_hash "requests db" r] by (simp add: office_of_def appr_inv_def)

lemma office_of_None: "office_of db h = None \<longleftrightarrow> (\<forall>r \<in> set (requests db). a_token_hash r \<noteq> h)"
  by (simp add: office_of_def select_one_None)

lemma office_of_log [simp]: "office_of (log_event k u r d now db) = office_of db"
  by (simp add: office_of_def fun_eq_iff)

lemma ran_office: "appr_inv db \<Longrightarrow> k_id ` ran (office_of db) = a_id ` set (requests db)"
proof -
  assume inv: "appr_inv db"
  have "t \<in> ran (office_of db) \<longleftrightarrow> t \<in> ticket_of (uses db) ` set (requests db)" for t
  proof
    assume "t \<in> ran (office_of db)"
    then obtain h where "office_of db h = Some t" by (auto simp: ran_def)
    then show "t \<in> ticket_of (uses db) ` set (requests db)" by (auto simp: office_of_def dest: select_oneD)
  next
    assume "t \<in> ticket_of (uses db) ` set (requests db)"
    then obtain r where "r \<in> set (requests db)" "t = ticket_of (uses db) r" by blast
    with office_of_row [OF inv] show "t \<in> ran (office_of db)" by (metis ranI)
  qed
  then have "ran (office_of db) = ticket_of (uses db) ` set (requests db)" by blast
  then show ?thesis by (simp add: image_image ticket_of_def)
qed

text \<open>Settling the request of a token changes its ticket and no other.\<close>

lemma office_of_settled:
  assumes "appr_inv db" and "r \<in> set (requests db)" and "settling f st"
    and "requests db' = update_where (\<lambda>q. a_id q = a_id r) f (requests db)" and "uses db' = uses db"
  shows "office_of db' = (office_of db)(a_token_hash r \<mapsto> ticket_of (uses db) (f r))"
proof
  fix h
  have upd: "select_one (\<lambda>q. a_token_hash q = h) (requests db') =
      map_option (\<lambda>q. if a_id q = a_id r then f q else q) (select_one (\<lambda>q. a_token_hash q = h) (requests db))"
    unfolding assms(4) by (rule select_one_update) (use assms(3) in \<open>simp add: settling_def\<close>)
  show "office_of db' h = ((office_of db)(a_token_hash r \<mapsto> ticket_of (uses db) (f r))) h"
  proof (cases "select_one (\<lambda>q. a_token_hash q = h) (requests db)")
    case None
    then have "h \<noteq> a_token_hash r" using assms(2) by (auto simp: select_one_None)
    with upd None show ?thesis by (simp add: office_of_def)
  next
    case (Some q)
    note q = select_oneD [OF Some]
    have "a_id q = a_id r \<longleftrightarrow> q = r" using same_request [OF assms(1) conjunct1 [OF q] assms(2)] by blast
    moreover have "q = r \<longleftrightarrow> h = a_token_hash r"
      using q assms(1,2) distinct_map_eq [of a_token_hash "requests db" q r] by (auto simp: appr_inv_def)
    ultimately show ?thesis using upd Some assms(5) by (cases "q = r") (simp_all add: office_of_def)
  qed
qed

lemma office_of_added:
  assumes "office_of db (a_token_hash row) = None"
  shows "office_of (db\<lparr>requests := requests db @ [row]\<rparr>) = (office_of db)(a_token_hash row \<mapsto> ticket_of (uses db) row)"
proof
  fix h
  have "select_one (\<lambda>r. a_token_hash r = h) [row] = (if h = a_token_hash row then Some row else None)" by (auto simp: select_one_def)
  with assms show "office_of (db\<lparr>requests := requests db @ [row]\<rparr>) h = ((office_of db)(a_token_hash row \<mapsto> ticket_of (uses db) row)) h"
    by (auto simp: office_of_def select_one_append split: option.split)
qed

lemma Create_simulates:
  assumes "appr_inv db"
  shows "office_issue b u t a r (n1 + ttl) (office_of db) =
    (map_sum id Issued (fst (Create_request b u t a r ttl n1 n2 n3 db)), office_of (snd (Create_request b u t a r ttl n1 n2 n3 db)))"
proof (cases "\<exists>q \<in> set (requests db). a_id q = request_id b \<or> a_token_hash q = token_hash (base64url b)")
  case True
  then have "office_of db (token_hash (base64url b)) \<noteq> None \<or> request_id b \<in> k_id ` ran (office_of db)"
    unfolding ran_office [OF assms] office_of_None image_iff by metis
  then have "office_issue b u t a r (n1 + ttl) (office_of db) = (Inl ConstraintFailed, office_of db)"
    unfolding office_issue_def Let_def by (rule if_P)
  moreover have "Create_request b u t a r ttl n1 n2 n3 db = (Inl ConstraintFailed, db)"
    using True by (simp add: Create_request_def Let_def)
  ultimately show ?thesis by simp
next
  case False
  then have free: "office_of db (token_hash (base64url b)) = None" "request_id b \<notin> k_id ` ran (office_of db)"
    unfolding ran_office [OF assms] office_of_None image_iff by metis+
  let ?row = "\<lparr>a_id = request_id b, a_token_hash = token_hash (base64url b), a_user = u, a_tool = t, a_args_hash = a, a_resource = r,
    a_expires = n1 + ttl, a_state = APending, a_created_at = n2, a_resolved_at = None\<rparr>"
  have "office_of (db\<lparr>requests := requests db @ [?row]\<rparr>) = (office_of db)(token_hash (base64url b) \<mapsto> ticket_of (uses db) ?row)"
    using office_of_added [of db ?row] free(1) by simp
  with False free show ?thesis
    by (auto simp: office_issue_def Create_request_def Let_def ticket_of_def status_of_def)
qed

lemma ticket_of_simps [simp]:
  "k_id (ticket_of us r) = a_id r" "k_user (ticket_of us r) = a_user r" "k_tool (ticket_of us r) = a_tool r"
  "k_args_hash (ticket_of us r) = a_args_hash r" "k_resource (ticket_of us r) = a_resource r" "k_expires (ticket_of us r) = a_expires r"
  "k_status (ticket_of us r) = status_of us r"
  by (simp_all add: ticket_of_def)

lemma due_ticket [simp]: "due (ticket_of us r) = expiry_of r"
  by (simp add: due_def expiry_of_def parse_stored_def)

lemma waiting_iff [simp]: "status_of us r = Waiting \<longleftrightarrow> a_state r = APending"
  by (simp add: status_of_def split: appr_state.split)

lemma office_of_token: "office_of db (token_hash tok) = map_option (ticket_of (uses db)) (by_token tok db)"
  by (simp add: office_of_def by_token_def)

lemma Resolve_simulates:
  assumes "appr_inv db"
  shows "office_decide tok u t a r d n1 (office_of db) =
    (map_sum id (\<lambda>x. Decided) (fst (Resolve_request tok u t a r d n1 n2 n3 db)), office_of (snd (Resolve_request tok u t a r d n1 n2 n3 db)))"
proof (cases "(d = ''approved'' \<or> d = ''denied'') \<and> (\<exists>q. by_token tok db = Some q \<and> a_state q = APending)")
  case False
  then show ?thesis
    by (auto simp: office_decide_def Resolve_request_def office_of_token split: option.split)
next
  case True
  then obtain q where q: "by_token tok db = Some q" "a_state q = APending" and d: "d = ''approved'' \<or> d = ''denied''" by blast
  note row = by_tokenD [OF q(1)]
  have unspent: "a_id q \<notin> fst ` set (uses db)" using assms row q(2) same_request [OF assms] by (fastforce simp: appr_inv_def)
  show ?thesis
  proof (cases "n1 > expiry_of q")
    case late: True
    let ?db = "db\<lparr>requests := update_where (\<lambda>x. a_id x = a_id q) (\<lambda>x. x\<lparr>a_state := AExpired\<rparr>) (requests db)\<rparr>"
    have "office_of ?db = (office_of db)(a_token_hash q \<mapsto> ticket_of (uses db) (q\<lparr>a_state := AExpired\<rparr>))"
      by (rule office_of_settled [OF assms conjunct1 [OF row], where st = AExpired]) (simp_all add: settling_def)
    moreover have "ticket_of (uses db) (q\<lparr>a_state := AExpired\<rparr>) = (ticket_of (uses db) q)\<lparr>k_status := Lapsed\<rparr>"
      by (simp add: ticket_of_def status_of_def)
    ultimately show ?thesis using late q d row
      by (auto simp: office_decide_def Resolve_request_def office_of_token)
  next
    case live: False
    show ?thesis
    proof (cases "bound_to (ticket_of (uses db) q) u t a r")
      case False
      then show ?thesis using live q d by (auto simp: office_decide_def Resolve_request_def office_of_token bound_to_def)
    next
      case bound: True
      let ?f = "\<lambda>x. x\<lparr>a_state := decision_state d, a_resolved_at := Some n2\<rparr>"
      have "update_where (\<lambda>x. a_id x = a_id q \<and> a_state x = APending) ?f (requests db)
          = update_where (\<lambda>x. a_id x = a_id q) ?f (requests db)"
        by (rule update_where_cong) (use same_request [OF assms] row q(2) in auto)
      moreover have "rows_affected (\<lambda>x. a_id x = a_id q \<and> a_state x = APending) (requests db) = 1"
        by (rule rows_affected_distinct [of a_id _ q]) (use assms row q(2) in \<open>auto simp: appr_inv_def\<close>)
      ultimately have res: "Resolve_request tok u t a r d n1 n2 n3 db =
          (Inr (), log_event ''approval_resolved'' u r d n3 (db\<lparr>requests := update_where (\<lambda>x. a_id x = a_id q) ?f (requests db)\<rparr>))"
        using bound live q d by (auto simp: Resolve_request_def Let_def bound_to_def)
      have "office_of (db\<lparr>requests := update_where (\<lambda>x. a_id x = a_id q) ?f (requests db)\<rparr>)
          = (office_of db)(a_token_hash q \<mapsto> ticket_of (uses db) (?f q))"
        by (rule office_of_settled [OF assms conjunct1 [OF row], where st = "decision_state d"]) (simp_all add: settling_def decision_state_def)
      moreover have "ticket_of (uses db) (?f q) = (ticket_of (uses db) q)\<lparr>k_status := if d = ''approved'' then Granted else Refused\<rparr>"
        using d unspent by (auto simp: ticket_of_def status_of_def decision_state_def)
      ultimately show ?thesis using bound live q d row by (auto simp: office_decide_def res office_of_token)
    qed
  qed
qed

lemma Redeem_simulates:
  assumes "appr_inv db"
  shows "office_redeem tok u t a r n1 (office_of db) =
    (map_sum id Redeemed (fst (AuthorizeReceipt tok u t a r n1 n2 db)), office_of (snd (AuthorizeReceipt tok u t a r n1 n2 db)))"
proof (cases "is_ok (fst (AuthorizeReceipt tok u t a r n1 n2 db))")
  case False
  then show ?thesis
    by (auto simp: office_redeem_def AuthorizeReceipt_def office_of_token parse_stored_def bound_to_def status_of_def
        split: option.splits appr_state.splits if_splits)
next
  case True
  then obtain q where q: "by_token tok db = Some q" "a_state q = AApproved" "a_id q \<notin> fst ` set (uses db)" "in_range (a_expires q)"
    "n1 < a_expires q" "a_user q = u" "a_tool q = t" "a_args_hash q = a" "a_resource q = r"
    by (auto simp: AuthorizeReceipt_def parse_stored_def split: option.splits if_splits)
  note row = by_tokenD [OF q(1)]
  let ?db = "db\<lparr>uses := uses db @ [(a_id q, n2)]\<rparr>"
  have "office_of ?db h = ((office_of db)(a_token_hash q \<mapsto> (ticket_of (uses db) q)\<lparr>k_status := Spent\<rparr>)) h" for h
  proof (cases "select_one (\<lambda>x. a_token_hash x = h) (requests db)")
    case None
    then have "h \<noteq> a_token_hash q" using row by (auto simp: select_one_None)
    with None show ?thesis by (simp add: office_of_def)
  next
    case (Some x)
    note x = select_oneD [OF Some]
    have same: "a_id x = a_id q \<longleftrightarrow> h = a_token_hash q"
      using x row assms distinct_map_eq [of a_token_hash "requests db" x q] same_request [OF assms, of x q] by (auto simp: appr_inv_def)
    then have "a_id x = a_id q \<Longrightarrow> x = q" using same_request [OF assms] x row by blast
    then have "ticket_of (uses ?db) x = (if a_id x = a_id q then (ticket_of (uses db) q)\<lparr>k_status := Spent\<rparr> else ticket_of (uses db) x)"
      using q(2) by (auto simp: ticket_of_def status_of_def split: appr_state.split)
    with Some same show ?thesis by (simp add: office_of_def)
  qed
  then have "office_of ?db = (office_of db)(a_token_hash q \<mapsto> (ticket_of (uses db) q)\<lparr>k_status := Spent\<rparr>)" by blast
  moreover have "AuthorizeReceipt tok u t a r n1 n2 db = (Inr \<lparr>c_id = a_id q, c_user = u, c_tool = t, c_args_hash = a, c_resource = r,
      c_expires = a_expires q\<rparr>, ?db)"
    using q by (simp add: AuthorizeReceipt_def parse_stored_def)
  ultimately show ?thesis using q row
    by (simp add: office_redeem_def office_of_token bound_to_def status_of_def)
qed

lemma appr_step_simulates:
  assumes "appr_inv db"
  shows "office_step e (office_of db) = (appr_answer_of e db, office_of (appr_step e db))"
proof (cases e)
  case (OpResolveToken tok u d n1 n2 n3)
  show ?thesis
  proof (cases "by_token tok db")
    case (Some q)
    then show ?thesis
      using OpResolveToken Resolve_simulates [OF assms, of tok u "a_tool q" "a_args_hash q" "a_resource q" d n1 n2 n3]
      by (simp add: office_of_token ResolveToken_def)
  qed (simp add: OpResolveToken office_of_token ResolveToken_def)
qed (simp_all add: Create_simulates [OF assms] Resolve_simulates [OF assms] Redeem_simulates [OF assms])

interpretation office: simulation appr_step appr_inv appr_answer_of office_of office_step
  by unfold_locales (rule appr_step_simulates)

text \<open>
  C7: The tables of requests and uses implement the office of one-time tickets: after every sequence of
  operations they hold what the office holds, and the next operation is answered as the office answers it,
  errors included.
\<close>

theorem approvals_refine_office:
  "office_of (appr_run es) = office_run es \<and> appr_answer_of e (appr_run es) = fst (office_step e (office_run es))"
proof -
  have "office_of no_approvals = Map.empty" by (simp add: office_of_def no_approvals_def select_one_def fun_eq_iff)
  with office.run_simulates [OF appr_inv_empty, of es] office.answers [OF appr_inv_empty, of e es] show ?thesis
    by (simp add: appr_run_def office_run_def)
qed

end
