(* ===== verification/JsonFuel.thy ===== *)
theory JsonFuel
  imports Json
begin

text \<open>
  The fuel of the JSON parser: every call leaves less text than it was given, so no more calls are
  made than twice the length of the text, and more fuel never changes the result.
\<close>

section \<open>What is left of the text\<close>

lemma skip_ws_shorter: "length (skip_ws s) \<le> length s"
  by (induction s) auto

lemma skip_ws_Cons: "skip_ws s = c # r \<Longrightarrow> length r < length s"
  using skip_ws_shorter [of s] by simp

lemma scan_string_shorter: "scan_string s = Some (l, r) \<Longrightarrow> length r < length s"
  by (induction s arbitrary: l r rule: scan_string.induct)
     (fastforce split: if_splits list.splits)+

lemma digits_of_shorter: "digits_of s = (d, r) \<Longrightarrow> length r \<le> length s"
  by (induction s arbitrary: d) (auto simp: Let_def split: if_splits prod.splits)

lemma scan_int_shorter: "scan_int s = Some (d, r) \<Longrightarrow> length r < length s"
  by (auto simp: scan_int_def Let_def split: list.splits if_splits prod.splits dest: digits_of_shorter)

lemma scan_frac_shorter: "scan_frac s = Some (d, r) \<Longrightarrow> length r \<le> length s"
  by (auto simp: scan_frac_def Let_def split: list.splits if_splits prod.splits dest: digits_of_shorter)

lemma scan_exp_shorter: "scan_exp s = Some (d, r) \<Longrightarrow> length r \<le> length s"
  by (auto simp: scan_exp_def Let_def split: list.splits if_splits prod.splits dest!: digits_of_shorter)

lemma scan_number_shorter: "scan_number s = Some (d, r) \<Longrightarrow> length r < length s"
  by (fastforce simp: scan_number_def Let_def split: list.splits if_splits option.splits prod.splits
      dest: scan_int_shorter scan_frac_shorter scan_exp_shorter)

lemma scan_word_shorter: "scan_word w s = Some r \<Longrightarrow> length r \<le> length s"
  by (induction w s rule: scan_word.induct) (auto split: if_splits)

lemma parse_shorter:
  "parse_value fuel depth s = Some (v, r) \<Longrightarrow> length r < length s"
  "parse_elems fuel depth s = Some (vs, r) \<Longrightarrow> length r < length s"
  "parse_members fuel depth s = Some (ms, r) \<Longrightarrow> length r < length s"
proof (induction fuel arbitrary: depth s v r vs ms)
  case (Suc fuel)
  note shorter = skip_ws_Cons scan_string_shorter scan_number_shorter scan_word_shorter Suc.IH
  {
    case 1
    then show ?case by (auto split: list.splits if_splits option.splits dest!: shorter)
  next
    case 2
    then show ?case by (auto split: list.splits if_splits option.splits prod.splits dest!: shorter)
  next
    case 3
    then show ?case by (auto split: list.splits if_splits option.splits prod.splits dest!: shorter)
  }
qed simp_all

section \<open>Enough fuel\<close>

lemma parse_value_more:
  assumes "\<And>r d. length r < length s \<Longrightarrow> parse_members f d r = parse_members g d r"
    and "\<And>r d. length r < length s \<Longrightarrow> parse_elems f d r = parse_elems g d r"
  shows "parse_value (Suc f) depth s = parse_value (Suc g) depth s"
proof (cases "skip_ws s")
  case (Cons c r)
  have "parse_members f (Suc depth) r = parse_members g (Suc depth) r" "parse_elems f (Suc depth) r = parse_elems g (Suc depth) r"
    using assms skip_ws_Cons [OF Cons] by blast+
  with Cons show ?thesis by (simp split: list.split)
qed simp

lemma parse_elems_more:
  assumes "parse_value f depth s = parse_value g depth s"
    and "\<And>r d. length r + 2 \<le> length s \<Longrightarrow> parse_elems f d r = parse_elems g d r"
  shows "parse_elems (Suc f) depth s = parse_elems (Suc g) depth s"
proof (cases "parse_value g depth s")
  case (Some x)
  obtain v r where x: "x = (v, r)" by (cases rule: prod.exhaust)
  show ?thesis
  proof (cases "skip_ws r")
    case (Cons c r')
    have "length r' + 2 \<le> length s" using skip_ws_Cons [OF Cons] parse_shorter(1) Some x by fastforce
    with assms(2) have "parse_elems f depth r' = parse_elems g depth r'" by blast
    then show ?thesis using assms(1) Some x Cons by simp
  qed (use assms(1) Some x in simp)
qed (use assms(1) in simp)

lemma parse_members_more:
  assumes "\<And>r d. length r + 2 \<le> length s \<Longrightarrow> parse_value f d r = parse_value g d r"
    and "\<And>r d. length r + 2 \<le> length s \<Longrightarrow> parse_members f d r = parse_members g d r"
  shows "parse_members (Suc f) depth s = parse_members (Suc g) depth s"
proof -
  have member: "parse_value f depth r2 = parse_value g depth r2"
    if "skip_ws s = c # r" "scan_string r = Some (k, r1)" "skip_ws r1 = c1 # r2" for c r k r1 c1 r2
    using skip_ws_Cons [OF that(1)] scan_string_shorter [OF that(2)] skip_ws_Cons [OF that(3)] by (intro assms(1)) simp
  have rest: "parse_members f depth r4 = parse_members g depth r4"
    if "skip_ws s = c # r" "scan_string r = Some (k, r1)" "skip_ws r1 = c1 # r2" "parse_value g depth r2 = Some (v, r3)"
      "skip_ws r3 = c2 # r4" for c r k r1 c1 r2 v r3 c2 r4
    using skip_ws_Cons [OF that(1)] scan_string_shorter [OF that(2)] skip_ws_Cons [OF that(3)] parse_shorter(1) [OF that(4)]
      skip_ws_Cons [OF that(5)] by (intro assms(2)) simp
  show ?thesis by (simp split: list.splits option.splits prod.splits) (auto simp: member rest)
qed

lemma enough_fuel:
  "2 * length s + 1 \<le> f \<Longrightarrow> 2 * length s + 1 \<le> g \<Longrightarrow> parse_value f depth s = parse_value g depth s"
  "2 * length s + 2 \<le> f \<Longrightarrow> 2 * length s + 2 \<le> g \<Longrightarrow> parse_elems f depth s = parse_elems g depth s"
  "2 * length s + 2 \<le> f \<Longrightarrow> 2 * length s + 2 \<le> g \<Longrightarrow> parse_members f depth s = parse_members g depth s"
proof (induction s arbitrary: f g depth rule: measure_induct_rule [where f = length])
  case (less s)
  show v: "parse_value f depth s = parse_value g depth s"
    if "2 * length s + 1 \<le> f" "2 * length s + 1 \<le> g" for f g depth
  proof -
    obtain f' g' where fg: "f = Suc f'" "g = Suc g'" using \<open>2 * length s + 1 \<le> f\<close> \<open>2 * length s + 1 \<le> g\<close> by (cases f; cases g) auto
    show ?thesis unfolding fg by (rule parse_value_more; rule less(3) less(2)) (use that fg in simp_all)
  qed
  show "parse_elems f depth s = parse_elems g depth s" if "2 * length s + 2 \<le> f" "2 * length s + 2 \<le> g" for f g depth
  proof -
    obtain f' g' where fg: "f = Suc f'" "g = Suc g'" using \<open>2 * length s + 2 \<le> f\<close> \<open>2 * length s + 2 \<le> g\<close> by (cases f; cases g) auto
    have "parse_value f' depth s = parse_value g' depth s" using that fg by (intro v) simp_all
    then show ?thesis unfolding fg by (rule parse_elems_more) (rule less(2), use that fg in simp_all)
  qed
  show "parse_members f depth s = parse_members g depth s" if "2 * length s + 2 \<le> f" "2 * length s + 2 \<le> g" for f g depth
  proof -
    obtain f' g' where fg: "f = Suc f'" "g = Suc g'" using \<open>2 * length s + 2 \<le> f\<close> \<open>2 * length s + 2 \<le> g\<close> by (cases f; cases g) auto
    show ?thesis unfolding fg by (rule parse_members_more; rule less(1) less(3)) (use that fg in simp_all)
  qed
qed

text \<open>The fuel of \<open>parse_document\<close> is enough: no fuel gives another result.\<close>

lemma parse_value_fuel:
  "2 * length s < fuel \<Longrightarrow> parse_document s
    = (case parse_value fuel 0 s of None \<Rightarrow> None | Some (v, r) \<Rightarrow> if skip_ws r = [] then Some v else None)"
  using enough_fuel(1) [of s fuel "Suc (2 * length s)" 0] by (simp add: parse_document_def)

end
