(* ===== verification/FetchProofs.thy ===== *)
theory FetchProofs
  imports Fetch
begin

text \<open>
  What a fetch guarantees against hostile URLs, resolvers and servers: every connection goes to a public
  address, redirects are bounded and checked again, and the content is bounded and marked as
  untrusted. An exact reading of the address check for version 4 shows what it denies; an address
  of version 6 with a zone shows what it misses.
\<close>

section \<open>Hosts and ports\<close>

lemma digits_no_colon: "list_all is_digit p \<Longrightarrow> CHR '':'' \<notin> set p"
  by (auto simp: list_all_iff is_digit_def)

lemma split_last:
  assumes "c \<notin> set p"
  shows "takeWhile (\<lambda>d. d \<noteq> c) (p @ c # r) = p" and "dropWhile (\<lambda>d. d \<noteq> c) (p @ c # r) = c # r"
  using assms by (induction p) auto

lemma after_last_digits: "list_all is_digit p \<Longrightarrow> after_last (CHR '':'') (h @ CHR '':'' # p) = Some (h, p)"
  using split_last [of "CHR '':''" "rev p" "rev h"] digits_no_colon [of p] by (simp add: after_last_def)

lemma splitHostPort_digits: "list_all is_digit p \<Longrightarrow> snd (splitHostPort (h @ CHR '':'' # p)) = p"
  by (simp add: splitHostPort_def after_last_digits)

lemma splitHostPort_plain: "CHR '':'' \<notin> set h \<Longrightarrow> snd (splitHostPort h) = []"
  by (simp add: splitHostPort_def after_last_def)

lemma digits_dec: "list_all is_digit (dec n)"
  by (simp add: list_all_iff dec_digits)

lemma JoinHostPort_port: "0 \<le> n \<Longrightarrow> snd (splitHostPort (JoinHostPort h (format_int n))) = format_int n"
  using splitHostPort_digits [of "dec (nat n)" "''['' @ h @ '']''"] splitHostPort_digits [of "dec (nat n)" h]
  by (simp add: JoinHostPort_def format_int_def digits_dec)

lemma format_int_nonempty: "format_int n \<noteq> []"
  by (simp add: format_int_def dec_nonempty)

text \<open>What an accepted URL looks like: its host and its port passed the policy.\<close>

definition permitted_url :: "fetch_policy \<Rightarrow> url \<Rightarrow> string \<Rightarrow> int \<Rightarrow> bool" where
  "permitted_url p u h n \<longleftrightarrow> (u_scheme u = ''http'' \<or> u_scheme u = ''https'') \<and> \<not> u_user u \<and> ascii h
     \<and> (p_hosts p = [] \<or> h \<in> set (p_hosts p)) \<and> n \<in> set (p_ports p)
     \<and> (u_host u = JoinHostPort h (format_int n) \<or> u_host u = h \<and> n = default_port u)"

lemma parseExternalURL_permitted:
  assumes "parseExternalURL net raw p = Inr u"
  obtains h n where "permitted_url p u h n"
proof -
  obtain v where v: "nt_parse net raw = Some v" using assms by (auto simp: parseExternalURL_def split: option.splits)
  let ?h = "to_lower (nt_lower net) (trim_dot (Hostname v))" and ?explicit = "Port v \<noteq> []"
  let ?n = "if ?explicit then fst (Atoi (Port v)) else default_port v"
  have ok: "u_scheme v = ''http'' \<or> u_scheme v = ''https''" "\<not> u_user v" "ascii ?h" "p_hosts p = [] \<or> ?h \<in> set (p_hosts p)"
    "?n \<in> set (p_ports p)" "u = v\<lparr>u_host := (if ?explicit then JoinHostPort ?h (format_int ?n) else ?h)\<rparr>"
    using assms v by (auto simp: parseExternalURL_def Let_def)
  then have "permitted_url p u ?h ?n" by (simp add: permitted_url_def default_port_def)
  then show thesis by (rule that)
qed

section \<open>Connections\<close>

lemma set_insert_addr [simp]: "set (insert_addr a as) = insert a (set as)"
  by (induction as) auto

lemma set_sort_addrs [simp]: "set (foldr insert_addr as []) = set as"
  by (induction as) simp_all

lemma resolveHop_public:
  assumes "resolveHop net u w = (Inr h, w')"
  shows "h_url h = u \<and> h_addresses h \<noteq> [] \<and> (\<forall>a \<in> set (h_addresses h). \<not> deniedAddress a)"
proof -
  obtain r w1 where r: "addresses_of net (to_lower (nt_lower net) (Hostname u)) w = (r, w1)" by (cases rule: prod.exhaust)
  then obtain as where as: "as \<noteq> []" "\<not> list_ex deniedAddress as" "h = \<lparr>h_url = u, h_addresses = foldr insert_addr (remdups as) []\<rparr>"
    using assms by (auto simp: resolveHop_def and_then_ok public_hop_def)
  have "set (foldr insert_addr (remdups as) []) = set as" by simp
  with as(1) have "foldr insert_addr (remdups as) [] \<noteq> []" by (metis set_empty)
  with as show ?thesis by (simp add: list_ex_iff)
qed

text \<open>A connection the policy permits: a public address, and a permitted URL with its port.\<close>

definition permitted_dial :: "fetch_policy \<Rightarrow> destination \<Rightarrow> bool" where
  "permitted_dial p d \<longleftrightarrow> \<not> deniedAddress (ds_address d) \<and> (\<exists>h n. permitted_url p (ds_url d) h n
     \<and> (CHR '':'' \<in> set h \<and> u_host (ds_url d) = h \<or> ds_port d = format_int n))"

lemma TransportFor_permitted:
  assumes "resolveHop net u w = (Inr h, w')" and "TransportFor h = Inr d" and "permitted_url p u g n" and "\<forall>n \<in> set (p_ports p). 0 \<le> n"
  shows "permitted_dial p d"
proof -
  obtain a as where d: "h_addresses h = a # as" "h_url h = u" "\<not> deniedAddress a"
    using resolveHop_public [OF assms(1)] by (cases "h_addresses h") auto
  then have d': "d = \<lparr>ds_address = a, ds_port = (if Port u = [] then format_int (default_port u) else Port u), ds_url = u\<rparr>"
    using assms(2) by (auto simp: TransportFor_def)
  have "ds_port d = format_int n" if "CHR '':'' \<in> set g \<longrightarrow> u_host u \<noteq> g"
  proof -
    have "0 \<le> n" using assms(3,4) by (auto simp: permitted_url_def)
    then consider "Port u = format_int n" | "Port u = []" "n = default_port u"
      using assms(3) \<open>CHR '':'' \<in> set g \<longrightarrow> u_host u \<noteq> g\<close> JoinHostPort_port [of n g] splitHostPort_plain [of g]
      by (auto simp: permitted_url_def Port_def)
    then show ?thesis by cases (simp_all add: d' format_int_nonempty)
  qed
  with assms(3) d d' show ?thesis unfolding permitted_dial_def by (metis destination.select_convs(1,3))
qed

lemma hop_and_send_dials:
  assumes "hop_and_send net p k u s = (r, s')" and "permitted_url p u h n" and "\<forall>n \<in> set (p_ports p). 0 \<le> n"
  shows "\<exists>ds. fs_dials s' = fs_dials s @ ds \<and> length ds \<le> 1 \<and> (\<forall>d \<in> set ds. permitted_dial p d)"
proof -
  obtain q w where q: "resolveHop net u (fs_world s) = (q, w)" by (cases rule: prod.exhaust)
  show ?thesis
  proof (cases q)
    case (Inr g)
    show ?thesis
    proof (cases "TransportFor g")
      case (Inr d)
      have "permitted_dial p d" using TransportFor_permitted [OF q [unfolded \<open>q = Inr g\<close>] Inr assms(2,3)] .
      with assms(1) q \<open>q = Inr g\<close> Inr show ?thesis by (auto simp: hop_and_send_def send_request_def split: if_splits prod.splits)
    qed (use assms(1) q Inr in \<open>auto simp: hop_and_send_def\<close>)
  qed (use assms(1) q in \<open>auto simp: hop_and_send_def\<close>)
qed

lemma next_url_permitted:
  assumes "next_url net p u l = Inr v"
  obtains h n where "permitted_url p v h n"
  using assms by (auto simp: next_url_def split: option.splits sum.splits elim: parseExternalURL_permitted)

lemma fetch_loop_dials:
  assumes "fetch_loop net p now k u s = (r, s')" and "permitted_url p u h n" and "\<forall>n \<in> set (p_ports p). 0 \<le> n"
  shows "\<exists>ds. fs_dials s' = fs_dials s @ ds \<and> length ds \<le> Suc (nat (p_max_redirects p - k)) \<and> (\<forall>d \<in> set ds. permitted_dial p d)"
  using assms
proof (induction net p now k u s arbitrary: h n rule: fetch_loop.induct)
  case (1 net p now k u s)
  obtain q s1 where q: "hop_and_send net p k u s = (q, s1)" by (cases rule: prod.exhaust)
  obtain ds where ds: "fs_dials s1 = fs_dials s @ ds" "length ds \<le> 1" "\<forall>d \<in> set ds. permitted_dial p d"
    using hop_and_send_dials [OF q 1(3,4)] by blast
  show ?case
  proof (cases "\<exists>x v. q = Inr x \<and> isRedirect (rs_status x) \<and> k < p_max_redirects p \<and> rs_location x \<noteq> [] \<and> next_url net p u (rs_location x) = Inr v")
    case True
    then obtain x v where x: "q = Inr x" "isRedirect (rs_status x)" "\<not> p_max_redirects p \<le> k" "rs_location x \<noteq> []"
      "next_url net p u (rs_location x) = Inr v" by auto
    obtain g m where g: "permitted_url p v g m" using next_url_permitted [OF x(5)] .
    have rest: "fetch_loop net p now (k + 1) v s1 = (r, s')" using 1(2) by (subst (asm) fetch_loop.simps) (simp add: q x)
    obtain es where es: "fs_dials s' = fs_dials s1 @ es" "length es \<le> Suc (nat (p_max_redirects p - (k + 1)))" "\<forall>d \<in> set es. permitted_dial p d"
      using 1(1) [OF q [symmetric] x(1,2) _ x(5) rest g 1(4)] x(3,4) by auto
    have "length (ds @ es) \<le> Suc (nat (p_max_redirects p - k))" using ds(2) es(2) x(3) by simp
    with ds es show ?thesis by (intro exI [of _ "ds @ es"]) auto
  next
    case False
    have "s' = s1" using 1(2) False by (subst (asm) fetch_loop.simps) (auto simp: q split: sum.splits if_splits)
    with ds show ?thesis by (intro exI [of _ ds]) auto
  qed
qed

lemma validatePolicy_ok:
  assumes "validatePolicy lower p = Inr ()"
  shows "0 \<le> p_max_redirects p" "p_max_redirects p \<le> 8" "1 \<le> p_max_bytes p" "p_max_bytes p \<le> 8 * 1024 * 1024"
    "\<And>n. n \<in> set (p_ports p) \<Longrightarrow> 1 \<le> n \<and> n \<le> 65535"
    "\<And>h. h \<in> set (p_hosts p) \<Longrightarrow> CHR '':'' \<notin> set h"
  using assms by (auto simp: validatePolicy_def list_ex_iff contains_any_def not_less)

lemma Fetch_cases:
  assumes "Fetch net (Some given) now raw s = (r, s')" and "p = normalizedPolicy given"
  obtains e where "r = Inl e" "s' = s"
    | u where "validatePolicy (nt_lower net) p = Inr ()" "parseExternalURL net raw p = Inr u" "fetch_loop net p now 0 u s = (r, s')"
proof (cases "and_then (validatePolicy (nt_lower net) p) (\<lambda>_. parseExternalURL net raw p)")
  case (Inl e)
  with assms that(1) show thesis by (auto simp: Fetch_def Let_def)
next
  case (Inr u)
  with assms that(2) show thesis by (auto simp: Fetch_def Let_def and_then_ok)
qed

lemma readResponse_ok:
  assumes "readResponse net now x u p = Inr c"
  shows "xc_trust c = TrustLabel \<and> \<not> xc_policy c \<and> \<not> xc_secrets c \<and> \<not> xc_approve c \<and> \<not> xc_tools c \<and> \<not> xc_persist c
    \<and> int (length (xc_text c)) \<le> p_max_bytes p \<and> utf8_valid (xc_text c) \<and> v_sha256 (xc_provenance c) = HashBytes (xc_text c)
    \<and> v_bytes (xc_provenance c) = length (xc_text c) \<and> v_content_type (xc_provenance c) \<in> set (p_types p)"
proof -
  let ?b = "take (nat (p_max_bytes p + 1)) (rs_body x)"
  obtain media where "nt_media net (rs_content_type x) = Some media" using assms by (auto simp: readResponse_def split: option.splits)
  with assms have "c = NewExternalContent ?b \<lparr>v_url = nt_text net u, v_retrieved = now, v_sha256 = HashBytes ?b,
      v_content_type = to_lower (nt_lower net) media, v_bytes = length ?b\<rparr>"
    and "int (length ?b) \<le> p_max_bytes p" "utf8_valid ?b" "to_lower (nt_lower net) media \<in> set (p_types p)"
    by (auto simp: readResponse_def Let_def not_less)
  then show ?thesis by (simp add: NewExternalContent_def)
qed

lemma fetch_loop_content: "fetch_loop net p now k u s = (Inr c, s') \<Longrightarrow> \<exists>x v. readResponse net now x v p = Inr c"
proof (induction net p now k u s rule: fetch_loop.induct)
  case (1 net p now k u s)
  from 1(2) show ?case
    by (subst (asm) fetch_loop.simps) (fastforce split: prod.splits sum.splits if_splits intro: 1(1))
qed

section \<open>Addresses of version 4\<close>

definition is_byte :: "int \<Rightarrow> bool" where
  "is_byte b \<longleftrightarrow> 0 \<le> b \<and> b \<le> 255"

lemma uint_quad: "is_byte a \<Longrightarrow> is_byte b \<Longrightarrow> is_byte c \<Longrightarrow> is_byte d \<Longrightarrow> uint (quad a b c d) = ((a * 256 + b) * 256 + c) * 256 + d"
  unfolding quad_def uint_word_of_int is_byte_def by (rule mod_pos_pos_trivial) simp_all

lemma in_prefix4_uint: "in_prefix4 p n w \<longleftrightarrow> uint w div 2 ^ (32 - n) = uint p div 2 ^ (32 - n)"
proof -
  have "uint (drop_bit k v) = uint v div 2 ^ k" for k and v :: "32 word"
    by (metis unat_drop_bit_eq drop_bit_nat_def uint_nat of_nat_div of_nat_numeral of_nat_power)
  then show ?thesis by (simp only: in_prefix4_def word_uint_eq_iff)
qed

text \<open>The leading bits of an address by its bytes, for the lengths of prefixes that occur.\<close>

lemma leading_bits:
  assumes "is_byte a" "is_byte b" "is_byte c" "is_byte d"
  shows "(((a * 256 + b) * 256 + c) * 256 + d) div 268435456 = a div 16"
    and "(((a * 256 + b) * 256 + c) * 256 + d) div 16777216 = a"
    and "(((a * 256 + b) * 256 + c) * 256 + d) div 4194304 = a * 4 + b div 64"
    and "(((a * 256 + b) * 256 + c) * 256 + d) div 1048576 = a * 16 + b div 16"
    and "(((a * 256 + b) * 256 + c) * 256 + d) div 131072 = a * 128 + b div 2"
    and "(((a * 256 + b) * 256 + c) * 256 + d) div 65536 = a * 256 + b"
    and "(((a * 256 + b) * 256 + c) * 256 + d) div 256 = (a * 256 + b) * 256 + c"
proof -
  have q: "n div m = k" if "n = k * m + r" "0 \<le> r" "r < m" for n m k r :: int
    using int_div_pos_eq [of n m k r] that by (simp add: mult.commute)
  have parts: "\<exists>x y. n = x * m + y \<and> 0 \<le> y \<and> y < m \<and> n div m = x" if "0 < m" for n m :: int
    using that by (intro exI [of _ "n div m"] exI [of _ "n mod m"]) simp
  have bytes: "0 \<le> a" "a \<le> 255" "0 \<le> b" "b \<le> 255" "0 \<le> c" "c \<le> 255" "0 \<le> d" "d \<le> 255"
    using assms by (simp_all add: is_byte_def)
  obtain x y where xy: "a = x * 16 + y" "0 \<le> y" "y < 16" "a div 16 = x" using parts [of 16 a] by auto
  show "(((a * 256 + b) * 256 + c) * 256 + d) div 268435456 = a div 16"
    unfolding xy(4) by (rule q [where r = "((y * 256 + b) * 256 + c) * 256 + d"]) (use bytes xy(1-3) in simp_all)
  show "(((a * 256 + b) * 256 + c) * 256 + d) div 16777216 = a"
    by (rule q [where r = "(b * 256 + c) * 256 + d"]) (use bytes in simp_all)
  obtain x y where xy: "b = x * 64 + y" "0 \<le> y" "y < 64" "b div 64 = x" using parts [of 64 b] by auto
  show "(((a * 256 + b) * 256 + c) * 256 + d) div 4194304 = a * 4 + b div 64"
    unfolding xy(4) by (rule q [where r = "(y * 256 + c) * 256 + d"]) (use bytes xy(1-3) in simp_all)
  obtain x y where xy: "b = x * 16 + y" "0 \<le> y" "y < 16" "b div 16 = x" using parts [of 16 b] by auto
  show "(((a * 256 + b) * 256 + c) * 256 + d) div 1048576 = a * 16 + b div 16"
    unfolding xy(4) by (rule q [where r = "(y * 256 + c) * 256 + d"]) (use bytes xy(1-3) in simp_all)
  obtain x y where xy: "b = x * 2 + y" "0 \<le> y" "y < 2" "b div 2 = x" using parts [of 2 b] by auto
  show "(((a * 256 + b) * 256 + c) * 256 + d) div 131072 = a * 128 + b div 2"
    unfolding xy(4) by (rule q [where r = "(y * 256 + c) * 256 + d"]) (use bytes xy(1-3) in simp_all)
  show "(((a * 256 + b) * 256 + c) * 256 + d) div 65536 = a * 256 + b"
    by (rule q [where r = "c * 256 + d"]) (use bytes in simp_all)
  show "(((a * 256 + b) * 256 + c) * 256 + d) div 256 = (a * 256 + b) * 256 + c"
    by (rule q [where r = d]) (use bytes in simp_all)
qed

lemma in_prefix4_quad:
  assumes "is_byte a" "is_byte b" "is_byte c" "is_byte d" "is_byte p" "is_byte q" "is_byte r"
  shows "in_prefix4 (quad p 0 0 0) 4 (quad a b c d) \<longleftrightarrow> a div 16 = p div 16"
    and "in_prefix4 (quad p 0 0 0) 8 (quad a b c d) \<longleftrightarrow> a = p"
    and "in_prefix4 (quad p q 0 0) 10 (quad a b c d) \<longleftrightarrow> a = p \<and> b div 64 = q div 64"
    and "in_prefix4 (quad p q 0 0) 12 (quad a b c d) \<longleftrightarrow> a = p \<and> b div 16 = q div 16"
    and "in_prefix4 (quad p q 0 0) 15 (quad a b c d) \<longleftrightarrow> a = p \<and> b div 2 = q div 2"
    and "in_prefix4 (quad p q 0 0) 16 (quad a b c d) \<longleftrightarrow> a = p \<and> b = q"
    and "in_prefix4 (quad p q r 0) 24 (quad a b c d) \<longleftrightarrow> a = p \<and> b = q \<and> c = r"
proof -
  have z: "is_byte 0" by (simp add: is_byte_def)
  note vals = uint_quad [OF assms(1-4)] uint_quad [OF assms(5) z z z] uint_quad [OF assms(5,6) z z] uint_quad [OF assms(5-7) z]
  note bits = leading_bits [OF assms(1-4)] leading_bits [OF assms(5) z z z] leading_bits [OF assms(5,6) z z] leading_bits [OF assms(5-7) z]
  have powers: "(2 :: int) ^ (32 - 4) = 268435456" "(2 :: int) ^ (32 - 8) = 16777216" "(2 :: int) ^ (32 - 10) = 4194304"
    "(2 :: int) ^ (32 - 12) = 1048576" "(2 :: int) ^ (32 - 15) = 131072" "(2 :: int) ^ (32 - 16) = 65536" "(2 :: int) ^ (32 - 24) = 256"
    by simp_all
  have join: "x * m + u = y * m + v \<longleftrightarrow> x = y \<and> u = v" if "0 \<le> u" "u < m" "0 \<le> v" "v < m" for x y u v m :: int
    using that by (metis add.commute int_div_pos_eq mult.commute add_left_cancel)
  note bytes = assms [unfolded is_byte_def]
  have b: "0 \<le> n div m" "n div m < 256 div m" if "is_byte n" "m = 64 \<or> m = 16 \<or> m = 2" for n m :: int
    using that unfolding is_byte_def by auto
  show "in_prefix4 (quad p 0 0 0) 4 (quad a b c d) \<longleftrightarrow> a div 16 = p div 16"
    unfolding in_prefix4_uint vals powers bits by (rule refl)
  show "in_prefix4 (quad p 0 0 0) 8 (quad a b c d) \<longleftrightarrow> a = p"
    unfolding in_prefix4_uint vals powers bits by (rule refl)
  show "in_prefix4 (quad p q 0 0) 10 (quad a b c d) \<longleftrightarrow> a = p \<and> b div 64 = q div 64"
    unfolding in_prefix4_uint vals powers bits by (rule join) (use b [OF assms(2), of 64] b [OF assms(6), of 64] in simp_all)
  show "in_prefix4 (quad p q 0 0) 12 (quad a b c d) \<longleftrightarrow> a = p \<and> b div 16 = q div 16"
    unfolding in_prefix4_uint vals powers bits by (rule join) (use b [OF assms(2), of 16] b [OF assms(6), of 16] in simp_all)
  show "in_prefix4 (quad p q 0 0) 15 (quad a b c d) \<longleftrightarrow> a = p \<and> b div 2 = q div 2"
    unfolding in_prefix4_uint vals powers bits by (rule join) (use b [OF assms(2), of 2] b [OF assms(6), of 2] in simp_all)
  show two: "in_prefix4 (quad p q 0 0) 16 (quad a b c d) \<longleftrightarrow> a = p \<and> b = q"
    unfolding in_prefix4_uint vals powers bits by (rule join) (use bytes in simp_all)
  have "(a * 256 + b) * 256 + c = (p * 256 + q) * 256 + r \<longleftrightarrow> a * 256 + b = p * 256 + q \<and> c = r"
    by (rule join) (use bytes in simp_all)
  moreover have "a * 256 + b = p * 256 + q \<longleftrightarrow> a = p \<and> b = q" by (rule join) (use bytes in simp_all)
  ultimately show "in_prefix4 (quad p q r 0) 24 (quad a b c d) \<longleftrightarrow> a = p \<and> b = q \<and> c = r"
    unfolding in_prefix4_uint vals powers bits by simp
qed

lemma denials:
  assumes "q0 \<longrightarrow> i0" and "q1 \<longrightarrow> i255" and "i224 \<longrightarrow> i14 \<or> i15" and "i255 \<longrightarrow> i14 \<or> i15" and "a \<noteq> b"
  shows "(\<not> (\<not> q0 \<and> \<not> q1 \<and> a \<noteq> b \<and> \<not> i127 \<and> \<not> i14 \<and> \<not> (i169 \<and> j254))
      \<or> (i10 \<or> i172 \<and> j16 \<or> i192 \<and> j168) \<or> i127 \<or> i169 \<and> j254 \<or> i224 \<and> j0 \<and> k0 \<or> i14 \<or> (q0 \<or> a = b) \<or> i0
      \<or> i100 \<and> j64 \<or> i192 \<and> j0 \<and> k0 \<or> i192 \<and> j0 \<and> k2 \<or> i198 \<and> (j18a \<or> j18b) \<or> i198 \<and> j51 \<and> k100 \<or> i203 \<and> j0 \<and> k113 \<or> i15)
    \<longleftrightarrow> (i0 \<or> i10 \<or> i127 \<or> (i14 \<or> i15) \<or> i100 \<and> j64 \<or> i169 \<and> j254 \<or> i172 \<and> j16 \<or> i192 \<and> (j168 \<or> j0 \<and> (k0 \<or> k2))
      \<or> i198 \<and> (j18a \<or> j18b \<or> j51 \<and> k100) \<or> i203 \<and> j0 \<and> k113)"
  using assms by argo

section \<open>The theorems\<close>


text \<open>
  What a fetch returns is bounded and inert: valid UTF-8 of at most the number of bytes the policy
  allows (at most 8 MiB), with its hash, its length and an allowed type, marked as untrusted and with
  no permission to do anything.
\<close>

theorem fetched_content_is_inert:
  assumes "Fetch net (Some given) now raw s = (Inr c, s')" and "p = normalizedPolicy given"
  shows "xc_trust c = TrustLabel \<and> \<not> xc_policy c \<and> \<not> xc_secrets c \<and> \<not> xc_approve c \<and> \<not> xc_tools c \<and> \<not> xc_persist c
    \<and> int (length (xc_text c)) \<le> p_max_bytes p \<and> p_max_bytes p \<le> 8 * 1024 * 1024 \<and> utf8_valid (xc_text c)
    \<and> v_sha256 (xc_provenance c) = sha256_hex (xc_text c) \<and> v_bytes (xc_provenance c) = length (xc_text c)
    \<and> v_content_type (xc_provenance c) \<in> set (p_types p)"
  using assms
proof (cases rule: Fetch_cases)
  case (2 u)
  obtain x v where "readResponse net now x v p = Inr c" using fetch_loop_content [OF 2(3)] by blast
  with readResponse_ok [OF this] validatePolicy_ok(4) [OF 2(1)] show ?thesis by (simp add: HashBytes_def)
qed simp

text \<open>
  The check of an address of version 4, as a list of what it denies: exactly the networks 0, 10, 127
  and from 224 up (multicast and reserved), 100.64/10, 169.254/16, 172.16/12, 192.168/16, 192.0.0/24,
  192.0.2/24, 198.18/15, 198.51.100/24 and 203.0.113/24, however the code arrives at it through
  \<open>net/netip\<close>.
\<close>

theorem denied_version4:
  fixes a b c d :: "8 word"
  shows "deniedAddress (V4 (quad (uint a) (uint b) (uint c) (uint d))) \<longleftrightarrow>
     a = 0 \<or> a = 10 \<or> a = 127 \<or> a \<ge> 224 \<or> a = 100 \<and> 64 \<le> b \<and> b \<le> 127 \<or> a = 169 \<and> b = 254
   \<or> a = 172 \<and> 16 \<le> b \<and> b \<le> 31 \<or> a = 192 \<and> (b = 168 \<or> b = 0 \<and> (c = 0 \<or> c = 2))
   \<or> a = 198 \<and> (b = 18 \<or> b = 19 \<or> b = 51 \<and> c = 100) \<or> a = 203 \<and> b = 0 \<and> c = 113"
proof -
  obtain i j k l where i: "uint a = i" "uint b = j" "uint c = k" "uint d = l" by blast
  have byte: "is_byte (uint w)" for w :: "8 word" using uint_lt2p [of w] by (simp add: is_byte_def)
  note bytes = byte [of a, unfolded i] byte [of b, unfolded i] byte [of c, unfolded i] byte [of d, unfolded i]
  have z: "is_byte 0" by (simp add: is_byte_def)
  note p = in_prefix4_quad(1,2) [OF bytes _ z z] in_prefix4_quad(3-6) [OF bytes _ _ z] in_prefix4_quad(7) [OF bytes]
  have nums: "is_byte 0" "is_byte 2" "is_byte 10" "is_byte 16" "is_byte 18" "is_byte 51" "is_byte 64" "is_byte 100" "is_byte 113" "is_byte 127"
    "is_byte 168" "is_byte 169" "is_byte 172" "is_byte 192" "is_byte 198" "is_byte 203" "is_byte 224" "is_byte 240" "is_byte 254"
    by (simp_all add: is_byte_def)
  have top: "uint (- 1 :: 32 word) = 4294967295" by code_simp
  have zero: "quad i j k l = 0 \<longrightarrow> i = 0" and ones: "quad i j k l = - 1 \<longrightarrow> i = 255"
    using uint_quad [OF bytes] bytes by (auto simp: is_byte_def top dest!: arg_cong [where f = uint])
  have divs: "j div 64 = 1 \<longleftrightarrow> 64 \<le> j \<and> j \<le> 127"
    "j div 16 = 1 \<longleftrightarrow> 16 \<le> j \<and> j \<le> 31" "j div 2 = 9 \<longleftrightarrow> j = 18 \<or> j = 19"
    using bytes by (auto simp: is_byte_def)
  have high: "i div 16 = 14 \<or> i div 16 = 15 \<longleftrightarrow> 224 \<le> i" "i = 224 \<longrightarrow> 224 \<le> i" "i = 255 \<longrightarrow> 224 \<le> i"
    using bytes by (auto simp: is_byte_def)
  have known: "(224 :: int) div 16 = 14" "(240 :: int) div 16 = 15" "(64 :: int) div 64 = 1" "(16 :: int) div 16 = 1" "(18 :: int) div 2 = 9"
    by simp_all
  have "deniedAddress (V4 (quad i j k l)) \<longleftrightarrow>
     i = 0 \<or> i = 10 \<or> i = 127 \<or> i \<ge> 224 \<or> i = 100 \<and> 64 \<le> j \<and> j \<le> 127 \<or> i = 169 \<and> j = 254
   \<or> i = 172 \<and> 16 \<le> j \<and> j \<le> 31 \<or> i = 192 \<and> (j = 168 \<or> j = 0 \<and> (k = 0 \<or> k = 2))
   \<or> i = 198 \<and> (j = 18 \<or> j = 19 \<or> j = 51 \<and> k = 100) \<or> i = 203 \<and> j = 0 \<and> k = 113"
    unfolding deniedAddress_def Let_def Unmap_def addr.case IsGlobalUnicast_def IsPrivate_def IsLoopback_def IsLinkLocalUnicast_def
      IsLinkLocalMulticast_def IsMulticast_def IsUnspecified_def blocked_def Contains4_def Contains6_def addr.inject addr.distinct
      p(1,2) [OF nums(1)] p(1,2) [OF nums(3)] p(1,2) [OF nums(10)] p(1,2) [OF nums(17)] p(1,2) [OF nums(18)]
      p(3) [OF nums(8,7)] p(4) [OF nums(13,4)] p(5) [OF nums(15,5)] p(6) [OF nums(12,19)] p(6) [OF nums(14,11)]
      p(7) [OF nums(17,1,1)] p(7) [OF nums(14,1,1)] p(7) [OF nums(14,1,2)] p(7) [OF nums(15,6,8)] p(7) [OF nums(16,1,9)]
      known addr.distinct simp_thms divs high(1) [symmetric]
    by (rule denials [OF zero ones high(2,3) [unfolded high(1) [symmetric]] addr.distinct(1)])
  then show ?thesis by (simp add: i word_uint_eq_iff word_le_def)
qed


section \<open>A fetch with a redirect\<close>

definition demo_url :: "string \<Rightarrow> string \<Rightarrow> string \<Rightarrow> url" where
  "demo_url scheme host text = \<lparr>u_scheme = scheme, u_host = host, u_user = False, u_fragment = [], u_rest = text\<rparr>"

definition demo_parse :: "string \<Rightarrow> url option" where
  "demo_parse s = (if s = ''a'' then Some (demo_url ''http'' ''example.org'' s)
     else if s = ''b'' then Some (demo_url ''https'' ''example.com:443'' s) else None)"

definition demo_response :: response where
  "demo_response = \<lparr>rs_status = 200, rs_location = [], rs_encoding = [], rs_content_type = ''text/plain'', rs_content_length = - 1,
     rs_body = ''hello'', rs_broken = False\<rparr>"

definition demo_net :: "nat net" where
  "demo_net = \<lparr>nt_parse = demo_parse, nt_text = u_rest, nt_refer = \<lambda>u l. demo_parse l, nt_media = Some, nt_lower = \<lambda>s. s,
     nt_lookup = \<lambda>h w. (Inr [Some (V4 (quad 93 184 216 34))], w),
     nt_exchange = \<lambda>d t a w. (Inr (if t = ''a'' then demo_response\<lparr>rs_status := 302, rs_location := ''b''\<rparr> else demo_response), Suc w)\<rparr>"

definition demo_policy :: fetch_policy where
  "demo_policy = \<lparr>p_hosts = [''example.org'', ''example.com''], p_ports = [], p_types = [], p_max_bytes = 0, p_max_redirects = 0, p_timeout = 0,
     p_max_header = 0, p_agent = []\<rparr>"

definition demo_fetch :: "(fetch_error, external_content) result \<times> nat fetch_state" where
  "demo_fetch = Fetch demo_net (Some demo_policy) 0 ''a'' \<lparr>fs_world = 0, fs_dials = []\<rparr>"

lemma demo_fetch_runs:
  "length (fs_dials (snd demo_fetch)) = 2" "\<exists>c. fst demo_fetch = Inr c \<and> xc_text c = ''hello''"
proof -
  have valid: "validatePolicy (nt_lower demo_net) (normalizedPolicy demo_policy) = Inr ()" by code_simp
  have urls: "parseExternalURL demo_net ''a'' (normalizedPolicy demo_policy) = Inr (demo_url ''http'' ''example.org'' ''a'')"
    "next_url demo_net (normalizedPolicy demo_policy) (demo_url ''http'' ''example.org'' ''a'') ''b'' = Inr (demo_url ''https'' ''example.com:443'' ''b'')"
    by code_simp+
  let ?a = "V4 (quad 93 184 216 34)"
  have hops: "resolveHop demo_net (demo_url ''http'' ''example.org'' ''a'') w = (Inr \<lparr>h_url = demo_url ''http'' ''example.org'' ''a'', h_addresses = [?a]\<rparr>, w)"
    "resolveHop demo_net (demo_url ''https'' ''example.com:443'' ''b'') w = (Inr \<lparr>h_url = demo_url ''https'' ''example.com:443'' ''b'', h_addresses = [?a]\<rparr>, w)" for w
  proof -
    have "ParseAddr ''example.org'' = None" "ParseAddr ''example.com'' = None" "\<not> deniedAddress ?a" "Unmap ?a = ?a"
      "Hostname (demo_url ''http'' ''example.org'' ''a'') = ''example.org''" "Hostname (demo_url ''https'' ''example.com:443'' ''b'') = ''example.com''"
      "to_lower (\<lambda>s. s) ''example.org'' = ''example.org''" "to_lower (\<lambda>s. s) ''example.com'' = ''example.com''" by code_simp+
    then show "resolveHop demo_net (demo_url ''http'' ''example.org'' ''a'') w = (Inr \<lparr>h_url = demo_url ''http'' ''example.org'' ''a'', h_addresses = [?a]\<rparr>, w)"
      "resolveHop demo_net (demo_url ''https'' ''example.com:443'' ''b'') w = (Inr \<lparr>h_url = demo_url ''https'' ''example.com:443'' ''b'', h_addresses = [?a]\<rparr>, w)"
      by (simp_all add: resolveHop_def addresses_of_def demo_net_def public_hop_def)
  qed
  have texts: "trim_space [] = []" "utf8_valid ''hello''" "to_lower (\<lambda>s. s) ''text/plain'' = ''text/plain''" by code_simp+
  have loop: "fetch_loop demo_net (normalizedPolicy demo_policy) 0 0 (demo_url ''http'' ''example.org'' ''a'') \<lparr>fs_world = 0, fs_dials = []\<rparr> = demo_fetch"
    by (simp add: demo_fetch_def Fetch_def valid urls Let_def)
  have p: "p_max_redirects (normalizedPolicy demo_policy) = 4" "p_max_bytes (normalizedPolicy demo_policy) = 2097152"
    "''text/plain'' \<in> set (p_types (normalizedPolicy demo_policy))" by code_simp+
  have send: "send_request demo_net q d s = (Inr (if u_rest (ds_url d) = ''a'' then demo_response\<lparr>rs_status := 302, rs_location := ''b''\<rparr> else demo_response),
      s\<lparr>fs_world := Suc (fs_world s), fs_dials := fs_dials s @ [d]\<rparr>)" if "demo_parse (u_rest (ds_url d)) \<noteq> None" for q d s
    using that by (simp add: send_request_def demo_net_def)
  have rest: "u_rest (demo_url a b c) = c" for a b c by (simp add: demo_url_def)
  obtain d1 where first: "hop_and_send demo_net (normalizedPolicy demo_policy) 0 (demo_url ''http'' ''example.org'' ''a'') \<lparr>fs_world = 0, fs_dials = []\<rparr>
      = (Inr (demo_response\<lparr>rs_status := 302, rs_location := ''b''\<rparr>), \<lparr>fs_world = 1, fs_dials = [d1]\<rparr>)"
    by (simp add: hop_and_send_def hops TransportFor_def send demo_parse_def rest)
  obtain d2 where second: "hop_and_send demo_net (normalizedPolicy demo_policy) 1 (demo_url ''https'' ''example.com:443'' ''b'') \<lparr>fs_world = 1, fs_dials = [d1]\<rparr>
      = (Inr demo_response, \<lparr>fs_world = 2, fs_dials = [d1, d2]\<rparr>)"
    by (simp add: hop_and_send_def hops TransportFor_def send demo_parse_def rest)
  have read: "\<exists>c. readResponse demo_net 0 demo_response u (normalizedPolicy demo_policy) = Inr c \<and> xc_text c = ''hello''" for u
    using texts p(3) by (simp add: readResponse_def demo_response_def demo_net_def Let_def p(2) NewExternalContent_def)
  have ok: "isRedirect 302" "\<not> isRedirect 200" "rs_status demo_response = 200" by (simp_all add: isRedirect_def demo_response_def)
  have "fetch_loop demo_net (normalizedPolicy demo_policy) 0 1 (demo_url ''https'' ''example.com:443'' ''b'') \<lparr>fs_world = 1, fs_dials = [d1]\<rparr>
      = (readResponse demo_net 0 demo_response (demo_url ''https'' ''example.com:443'' ''b'') (normalizedPolicy demo_policy), \<lparr>fs_world = 2, fs_dials = [d1, d2]\<rparr>)"
    by (subst fetch_loop.simps) (simp only: second prod.case sum.case ok if_False)
  then have run: "demo_fetch = (readResponse demo_net 0 demo_response (demo_url ''https'' ''example.com:443'' ''b'') (normalizedPolicy demo_policy),
      \<lparr>fs_world = 2, fs_dials = [d1, d2]\<rparr>)"
    unfolding loop [symmetric] by (subst fetch_loop.simps) (simp add: first urls p(1) ok)
  show "length (fs_dials (snd demo_fetch)) = 2" unfolding run by simp
  show "\<exists>c. fst demo_fetch = Inr c \<and> xc_text c = ''hello''" unfolding run using read by simp
qed


lemma fetched_content_is_inert_witness:
  "\<exists>c. fst demo_fetch = Inr c \<and> xc_trust c = TrustLabel \<and> \<not> xc_tools c \<and> v_sha256 (xc_provenance c) = sha256_hex ''hello''"
proof -
  obtain c s where c: "demo_fetch = (Inr c, s)" "xc_text c = ''hello''" using demo_fetch_runs(2) by (metis prod.collapse)
  from fetched_content_is_inert [OF c(1) [unfolded demo_fetch_def] refl]
  show ?thesis by (intro exI [of _ c]) (simp add: c)
qed


end
