(* ===== verification/Search.thy ===== *)
theory Search
  imports FetchProofs
begin

text \<open>
  Package \<open>internal/research\<close>, \<open>search.go\<close>: the search adapter. The provider is an argument; it sees
  the query after trimming and answers with results or an error. The clock is a sequence of readings.
\<close>

record search_query =
  sq_text :: string
  sq_limit :: int

record search_item =
  si_title :: string
  si_url :: string
  si_snippet :: string

record search_result =
  sr_title :: string
  sr_url :: string
  sr_snippet :: external_content
  sr_provider :: string

record 'w search_service =
  ss_provider :: "(search_query \<Rightarrow> (string, search_item list) result) option"
  ss_provider_id :: string
  ss_policy :: fetch_policy
  ss_clock :: "(nat \<Rightarrow> time) option"
  ss_net :: "'w net"

datatype search_error = SearchUnavailable | InvalidQuery | ProviderFailed string | TooManyResults | TextLimits | BadResultURL fetch_error

definition search_result_of :: "'w search_service \<Rightarrow> time \<Rightarrow> search_item \<Rightarrow> (search_error, search_result) result" where
  "search_result_of s now x =
     reject_if (length (si_title x) > 500 \<or> length (si_snippet x) > 4000) TextLimits
     (case parseExternalURL (ss_net s) (si_url x) (normalizedPolicy (ss_policy s)) of
        Inl e \<Rightarrow> Inl (BadResultURL e)
      | Inr u \<Rightarrow>
          Inr \<lparr>sr_title = si_title x, sr_url = nt_text (ss_net s) u,
               sr_snippet = NewExternalContent (si_snippet x) \<lparr>v_url = nt_text (ss_net s) u, v_retrieved = now,
                 v_sha256 = HashBytes (si_snippet x), v_content_type = ''text/plain'', v_bytes = length (si_snippet x)\<rparr>,
               sr_provider = ss_provider_id s\<rparr>)"

fun search_results :: "'w search_service \<Rightarrow> (nat \<Rightarrow> time) \<Rightarrow> nat \<Rightarrow> search_item list \<Rightarrow> (search_error, search_result list) result" where
  "search_results s clock n [] = Inr []"
| "search_results s clock n (x # xs) =
     and_then (search_result_of s (clock n) x) (\<lambda>r. and_then (search_results s clock (Suc n) xs) (\<lambda>rs. Inr (r # rs)))"

definition Search :: "'w search_service \<Rightarrow> search_query \<Rightarrow> (search_error, search_result list) result" where
  "Search s q =
     (case (ss_provider s, ss_clock s) of
        (Some provider, Some clock) \<Rightarrow>
          reject_if (trim_space (ss_provider_id s) = []) SearchUnavailable
          (let q' = q\<lparr>sq_text := trim_space (sq_text q)\<rparr> in
           reject_if (sq_text q' = [] \<or> length (sq_text q') > 1000 \<or> sq_limit q' < 1 \<or> sq_limit q' > 20) InvalidQuery
           (case provider q' of
              Inl e \<Rightarrow> Inl (ProviderFailed e)
            | Inr xs \<Rightarrow> reject_if (int (length xs) > sq_limit q') TooManyResults (search_results s clock 0 xs)))
      | _ \<Rightarrow> Inl SearchUnavailable)"

lemma search_results_inert:
  "search_results s clock n xs = Inr rs \<Longrightarrow>
   length rs = length xs \<and> (\<forall>r \<in> set rs. xc_trust (sr_snippet r) = TrustLabel \<and> \<not> xc_tools (sr_snippet r) \<and> length (xc_text (sr_snippet r)) \<le> 4000)"
proof (induction xs arbitrary: n rs)
  case (Cons x xs)
  then obtain r qs where r: "search_result_of s (clock n) x = Inr r" "search_results s clock (Suc n) xs = Inr qs" "rs = r # qs"
    by (auto simp: and_then_ok)
  from r(1) have "xc_trust (sr_snippet r) = TrustLabel \<and> \<not> xc_tools (sr_snippet r) \<and> length (xc_text (sr_snippet r)) \<le> 4000"
    by (auto simp: search_result_of_def NewExternalContent_def split: sum.splits)
  with Cons.IH [OF r(2)] r(3) show ?case by simp
qed simp

text \<open>A search returns no more results than were asked for, at most twenty, each bounded and untrusted.\<close>

lemma Search_bounded:
  assumes "Search s q = Inr rs"
  shows "int (length rs) \<le> sq_limit q \<and> length rs \<le> 20
    \<and> (\<forall>r \<in> set rs. xc_trust (sr_snippet r) = TrustLabel \<and> \<not> xc_tools (sr_snippet r) \<and> length (xc_text (sr_snippet r)) \<le> 4000)"
proof -
  obtain clock n xs where "search_results s clock n xs = Inr rs" "int (length xs) \<le> sq_limit q" "sq_limit q \<le> 20"
    using assms by (auto simp: Search_def Let_def not_less split: option.splits sum.splits)
  with search_results_inert [of s clock n xs rs] show ?thesis by auto
qed

end
