(* ===== verification/McpConfig.thy ===== *)
theory McpConfig
  imports FetchProofs GoPath
begin

text \<open>
  Package \<open>internal/mcpclient\<close>, \<open>config.go\<close>: the configuration of an MCP server and its validation. The file system (what a path denotes, with its links
  resolved) is an argument; \<open>url.Parse\<close> and the case mapping outside ASCII are too.
\<close>

section \<open>Configurations\<close>

datatype transport = Stdio | StreamableHTTP | Transport_Other string

record stdio_config =
  sc_executable :: string
  sc_arguments :: "string list"
  sc_checksum :: string
  sc_working_dir :: string
  sc_environment :: "(string \<times> string) list"

record http_config =
  hc_endpoint :: string
  hc_identity :: string
  hc_allow_loopback :: bool
  hc_disable_sse :: bool

record server_config =
  sv_id :: string
  sv_source :: string
  sv_version :: string
  sv_transport :: transport
  sv_tools :: "string list"
  sv_policies :: "(string \<times> tool) list"
  sv_root :: string
  sv_networks :: "string list"
  sv_timeout :: duration
  sv_output_limit :: int
  sv_attempts :: int
  sv_stdio :: "stdio_config option"
  sv_http :: "http_config option"

datatype mcp_error = InvalidConfig string | ToolDenied | SchemaRejected string | OutputLimit | McpPolicyDenied string
  | McpApprovalRequired | McpArguments string | McpAudit | McpFailed string

record file_info =
  fi_regular :: bool
  fi_symlink :: bool
  fi_executable :: bool

text \<open>The host: \<open>Lstat\<close>, reading a file, \<open>Abs\<close> with \<open>EvalSymlinks\<close>, whether that is a directory, URLs and case.\<close>

record mcp_host =
  mh_lstat :: "string \<Rightarrow> file_info option"
  mh_read :: "string \<Rightarrow> string option"
  mh_resolve :: "string \<Rightarrow> string option"
  mh_is_dir :: "string \<Rightarrow> bool"
  mh_url :: "string \<Rightarrow> url option"
  mh_lower :: "string \<Rightarrow> string"

definition version_ok :: "string \<Rightarrow> bool" where
  "version_ok s = semantic_version_ok (if starts_with s ''v'' then tl s else s)"

definition validSHA256 :: "string \<Rightarrow> bool" where
  "validSHA256 v \<longleftrightarrow> length v = 64 \<and> list_all is_hex v"

definition equal_fold :: "string \<Rightarrow> string \<Rightarrow> bool" where
  "equal_fold a b \<longleftrightarrow> lower_ascii a = lower_ascii b"

definition fileSHA256 :: "mcp_host \<Rightarrow> string \<Rightarrow> string option" where
  "fileSHA256 h path = map_option sha256_hex (mh_read h path)"

definition canonicalDirectory :: "mcp_host \<Rightarrow> string \<Rightarrow> string option" where
  "canonicalDirectory h path =
     (case mh_resolve h path of None \<Rightarrow> None | Some r \<Rightarrow> if mh_is_dir h r then Some (Clean r) else None)"

fun validateNetworks_mcp :: "(string \<Rightarrow> string) \<Rightarrow> string list \<Rightarrow> string set \<Rightarrow> (mcp_error, unit) result" where
  "validateNetworks_mcp lower [] seen = Inr ()"
| "validateNetworks_mcp lower (h # hs) seen =
     reject_if (h = [] \<or> to_lower lower h \<noteq> h \<or> contains_any h ''/*:@'' \<or> ends_with h ''.'')
       (InvalidConfig ''network policy uses exact lowercase hosts'')
     (reject_if (h \<in> seen) (InvalidConfig ''duplicate network host'')
     (validateNetworks_mcp lower hs (insert h seen)))"

definition forbidden_launchers :: "string list" where
  "forbidden_launchers = [''sh'', ''bash'', ''zsh'', ''dash'', ''npx'', ''npm'', ''pnpm'', ''curl'', ''wget'', ''powershell'', ''cmd.exe'']"

definition forbidden_environment :: "string list" where
  "forbidden_environment = [''LD_PRELOAD'', ''DYLD_INSERT_LIBRARIES'', ''GODEBUG'', ''GOTRACEBACK'']"

definition argument_ok :: "string \<Rightarrow> bool" where
  "argument_ok a \<longleftrightarrow> a \<noteq> [] \<and> length a \<le> 4096 \<and> \<not> has_nul a"

definition environment_ok :: "string \<times> string \<Rightarrow> bool" where
  "environment_ok kv \<longleftrightarrow> secret_name_ok (fst kv) \<and> length (snd kv) \<le> 8192 \<and> \<not> has_nul (snd kv)
     \<and> fst kv \<notin> set forbidden_environment"

definition checksum_matches :: "mcp_host \<Rightarrow> stdio_config \<Rightarrow> bool" where
  "checksum_matches h c = (case fileSHA256 h (sc_executable c) of None \<Rightarrow> False | Some d \<Rightarrow> equal_fold d (sc_checksum c))"

definition launchable :: "file_info option \<Rightarrow> bool" where
  "launchable i = (case i of None \<Rightarrow> False | Some x \<Rightarrow> fi_regular x \<and> \<not> fi_symlink x \<and> fi_executable x)"

definition validateStdio :: "mcp_host \<Rightarrow> server_config \<Rightarrow> stdio_config \<Rightarrow> (mcp_error, unit) result" where
  "validateStdio h cfg c =
     reject_if (\<not> rooted (sc_executable c) \<or> sc_working_dir c = [] \<or> sv_root cfg = [])
       (InvalidConfig ''absolute executable and bounded working directory required'')
     (reject_if (to_lower (mh_lower h) (Base (sc_executable c)) \<in> set forbidden_launchers)
       (InvalidConfig ''shell and download launchers are forbidden'')
     (reject_if (\<not> launchable (mh_lstat h (sc_executable c))) (InvalidConfig ''executable must be an executable regular non-symlink file'')
     (reject_if (\<not> validSHA256 (sc_checksum c)) (InvalidConfig ''executable checksum required'')
     (reject_if (\<not> checksum_matches h c) (InvalidConfig ''executable checksum mismatch'')
     (case canonicalDirectory h (sv_root cfg) of
        None \<Rightarrow> Inl (InvalidConfig ''working root'')
      | Some top_dir \<Rightarrow>
          (case canonicalDirectory h (sc_working_dir c) of
             None \<Rightarrow> Inl (InvalidConfig ''working directory'')
           | Some working \<Rightarrow>
               reject_if (\<not> within_root top_dir working) (InvalidConfig ''working directory escapes root'')
               (reject_if (\<not> list_all argument_ok (sc_arguments c)) (InvalidConfig ''malformed fixed argument'')
               (reject_if (\<not> list_all environment_ok (sc_environment c)) (InvalidConfig ''environment'')
               (reject_if (sv_networks cfg \<noteq> []) (InvalidConfig ''stdio subprocess network access cannot be strongly confined'')
               (Inr ()))))))))))"

definition private_host :: "string \<Rightarrow> bool" where
  "private_host host = (case ParseIP host of None \<Rightarrow> False | Some a \<Rightarrow> IsLoopback a \<or> IsPrivate a \<or> IsLinkLocalUnicast a)"

definition validateHTTP :: "mcp_host \<Rightarrow> server_config \<Rightarrow> http_config \<Rightarrow> (mcp_error, unit) result" where
  "validateHTTP h cfg c =
     (case mh_url h (hc_endpoint c) of
        None \<Rightarrow> Inl (InvalidConfig ''endpoint'')
      | Some u \<Rightarrow>
          reject_if (u_scheme u \<noteq> ''https'' \<or> Hostname u = [] \<or> u_user u \<or> u_fragment u \<noteq> []) (InvalidConfig ''endpoint'')
          (reject_if (\<not> validSHA256 (hc_identity c)) (InvalidConfig ''pinned TLS identity required'')
          (let host = to_lower (mh_lower h) (Hostname u) in
           reject_if (host \<notin> set (sv_networks cfg)) (InvalidConfig ''endpoint host is outside network allowlist'')
           (reject_if (private_host host \<and> \<not> hc_allow_loopback c)
             (InvalidConfig ''private endpoint requires an explicit local-server exception'')
           (reject_if ((host = ''localhost'' \<or> ends_with host ''.localhost'') \<and> \<not> hc_allow_loopback c)
             (InvalidConfig ''loopback endpoint denied'') (Inr ()))))))"

fun check_tools :: "server_config \<Rightarrow> string list \<Rightarrow> string set \<Rightarrow> (mcp_error, unit) result" where
  "check_tools cfg [] seen = Inr ()"
| "check_tools cfg (t # ts) seen =
     reject_if (\<not> manifest_id_ok t) (InvalidConfig ''invalid tool name'')
     (reject_if (t \<in> seen) (InvalidConfig ''duplicate tool'')
     (case map_of (sv_policies cfg) t of
        None \<Rightarrow> Inl (InvalidConfig ''every tool needs an exact core policy'')
      | Some spec \<Rightarrow>
          reject_if (t_name spec \<noteq> ''mcp.'' @ sv_id cfg @ ''.'' @ t) (InvalidConfig ''every tool needs an exact core policy'')
          (reject_if (Validate spec \<noteq> Inr ()) (InvalidConfig ''tool policy'')
          (check_tools cfg ts (insert t seen)))))"

definition Validate_server :: "mcp_host \<Rightarrow> server_config \<Rightarrow> (mcp_error, unit) result" where
  "Validate_server h cfg =
     reject_if (\<not> manifest_id_ok (sv_id cfg) \<or> trim_space (sv_source cfg) = [] \<or> \<not> version_ok (sv_version cfg))
       (InvalidConfig ''pinned id, source, and semantic version required'')
     (reject_if (sv_timeout cfg \<le> 0 \<or> sv_timeout cfg > 10 * minute \<or> sv_output_limit cfg < 1 \<or> sv_output_limit cfg > 16 * 1024 * 1024
         \<or> sv_attempts cfg < 1 \<or> sv_attempts cfg > 2) (InvalidConfig ''limits out of bounds'')
     (reject_if (sv_tools cfg = [] \<or> length (sv_tools cfg) > 128) (InvalidConfig ''bounded tool allowlist required'')
     (and_then (check_tools cfg (sv_tools cfg) {}) (\<lambda>_.
      reject_if (\<not> list_all (\<lambda>p. fst p \<in> set (sv_tools cfg)) (sv_policies cfg)) (InvalidConfig ''policy exists outside allowlist'')
     (and_then (validateNetworks_mcp (mh_lower h) (sv_networks cfg) {}) (\<lambda>_.
      case sv_transport cfg of
        Stdio \<Rightarrow> (case (sv_stdio cfg, sv_http cfg) of
                    (Some c, None) \<Rightarrow> validateStdio h cfg c | _ \<Rightarrow> Inl (InvalidConfig ''exactly one stdio transport required''))
      | StreamableHTTP \<Rightarrow> (case (sv_stdio cfg, sv_http cfg) of
                    (None, Some c) \<Rightarrow> validateHTTP h cfg c | _ \<Rightarrow> Inl (InvalidConfig ''exactly one HTTP transport required''))
      | Transport_Other t \<Rightarrow> Inl (InvalidConfig ''unsupported transport'')))))))"

section \<open>What a valid configuration promises\<close>

lemma check_tools_ok:
  "check_tools cfg ts seen = Inr () \<Longrightarrow>
   (\<forall>t \<in> set ts. manifest_id_ok t \<and> (\<exists>spec. map_of (sv_policies cfg) t = Some spec \<and> t_name spec = ''mcp.'' @ sv_id cfg @ ''.'' @ t
      \<and> Validate spec = Inr ())) \<and> distinct ts \<and> set ts \<inter> seen = {}"
  by (induction ts arbitrary: seen) (auto split: option.splits)

lemma Validate_server_ok:
  assumes "Validate_server h cfg = Inr ()"
  shows "1 \<le> sv_attempts cfg" "sv_attempts cfg \<le> 2" "sv_output_limit cfg \<le> 16 * 1024 * 1024"
    "\<And>t. t \<in> set (sv_tools cfg) \<Longrightarrow> \<exists>spec. map_of (sv_policies cfg) t = Some spec \<and> t_name spec = ''mcp.'' @ sv_id cfg @ ''.'' @ t \<and> Validate spec = Inr ()"
    "sv_transport cfg = Stdio \<Longrightarrow> sv_networks cfg = []"
proof -
  have c: "check_tools cfg (sv_tools cfg) {} = Inr ()" and l: "1 \<le> sv_attempts cfg \<and> sv_attempts cfg \<le> 2 \<and> sv_output_limit cfg \<le> 16 * 1024 * 1024"
    using assms by (auto simp: Validate_server_def and_then_ok)
  from l show "1 \<le> sv_attempts cfg" "sv_attempts cfg \<le> 2" "sv_output_limit cfg \<le> 16 * 1024 * 1024" by simp_all
  show "\<exists>spec. map_of (sv_policies cfg) t = Some spec \<and> t_name spec = ''mcp.'' @ sv_id cfg @ ''.'' @ t \<and> Validate spec = Inr ()"
    if "t \<in> set (sv_tools cfg)" for t using check_tools_ok [OF c] that by blast
  show "sv_networks cfg = []" if "sv_transport cfg = Stdio"
    using assms that by (auto simp: Validate_server_def and_then_ok validateStdio_def split: option.splits)
qed

end
