(* ===== verification/McpSchema.thy ===== *)
theory McpSchema
  imports McpConfig
begin

text \<open>
  Package \<open>internal/mcpclient\<close>, \<open>schema.go\<close>: the bounds on the schema of a tool that a server offers. What
  \<open>json.Marshal\<close> returned for the schema is the input; \<open>json.Unmarshal\<close> reads it back, with
  numbers as \<open>float64\<close>, so a number that overflows is an error. The walk counts nodes across the
  whole document. It is shown to decide a declarative reading of the bounds.
\<close>

section \<open>The code\<close>

definition max_schema_bytes :: nat where "max_schema_bytes = 64 * 1024"

fun numbers_fit :: "json \<Rightarrow> bool" and all_numbers_fit :: "json list \<Rightarrow> bool" and member_numbers_fit :: "(string \<times> json) list \<Rightarrow> bool" where
  "numbers_fit (JNum l) \<longleftrightarrow> \<not> is_inf (ParseFloat l)"
| "numbers_fit (JArr vs) \<longleftrightarrow> all_numbers_fit vs"
| "numbers_fit (JObj ms) \<longleftrightarrow> member_numbers_fit ms"
| "numbers_fit JNull \<longleftrightarrow> True"
| "numbers_fit (JBool b) \<longleftrightarrow> True"
| "numbers_fit (JStr s) \<longleftrightarrow> True"
| "all_numbers_fit [] \<longleftrightarrow> True"
| "all_numbers_fit (v # vs) \<longleftrightarrow> numbers_fit v \<and> all_numbers_fit vs"
| "member_numbers_fit [] \<longleftrightarrow> True"
| "member_numbers_fit ((k, v) # ms) \<longleftrightarrow> numbers_fit v \<and> member_numbers_fit ms"

definition unmarshal_any :: "string \<Rightarrow> any option" where
  "unmarshal_any s = (case parse_document s of None \<Rightarrow> None | Some j \<Rightarrow> if numbers_fit j then Some (decode_any j) else None)"

definition forbidden_key :: "(string \<Rightarrow> string) \<Rightarrow> string \<Rightarrow> bool" where
  "forbidden_key lower k \<longleftrightarrow> k = ''$ref'' \<or> k = ''$dynamicRef'' \<or> to_lower lower k = ''contentencoding'' \<or> to_lower lower k = ''contentmediatype''"

fun inspectSchema :: "(string \<Rightarrow> string) \<Rightarrow> any \<Rightarrow> nat \<Rightarrow> nat \<Rightarrow> (mcp_error, nat) result"
  and inspect_items :: "(string \<Rightarrow> string) \<Rightarrow> any list \<Rightarrow> nat \<Rightarrow> nat \<Rightarrow> (mcp_error, nat) result"
  and inspect_members :: "(string \<Rightarrow> string) \<Rightarrow> (string \<times> any) list \<Rightarrow> nat \<Rightarrow> nat \<Rightarrow> (mcp_error, nat) result" where
  "inspectSchema lower v depth nodes =
     reject_if (depth > 16 \<or> nodes + 1 > 1024) (SchemaRejected ''schema complexity limit'')
     (case v of
        GObject ms \<Rightarrow> inspect_members lower ms (depth + 1) (nodes + 1)
      | GArray vs \<Rightarrow> reject_if (length vs > 256) (SchemaRejected ''array length'') (inspect_items lower vs (depth + 1) (nodes + 1))
      | GString s \<Rightarrow> reject_if (length s > 8192) (SchemaRejected ''string length'') (Inr (nodes + 1))
      | _ \<Rightarrow> Inr (nodes + 1))"
| "inspect_items lower [] depth nodes = Inr nodes"
| "inspect_items lower (v # vs) depth nodes =
     and_then (inspectSchema lower v depth nodes) (\<lambda>n. inspect_items lower vs depth n)"
| "inspect_members lower [] depth nodes = Inr nodes"
| "inspect_members lower ((k, v) # ms) depth nodes =
     reject_if (forbidden_key lower k) (SchemaRejected ''references and encoded content are forbidden'')
     (reject_if (length k > 256) (SchemaRejected ''key length'')
     (and_then (inspectSchema lower v depth nodes) (\<lambda>n. inspect_members lower ms depth n)))"

definition validateToolSchema :: "(string \<Rightarrow> string) \<Rightarrow> string option \<Rightarrow> (mcp_error, unit) result" where
  "validateToolSchema lower encoded =
     (case encoded of
        None \<Rightarrow> Inl (SchemaRejected ''schema encoding or size'')
      | Some e \<Rightarrow>
          reject_if (e = [] \<or> length e > max_schema_bytes) (SchemaRejected ''schema encoding or size'')
          (case unmarshal_any e of
             None \<Rightarrow> Inl (SchemaRejected ''invalid JSON'')
           | Some v \<Rightarrow>
               (case v of
                  GObject ms \<Rightarrow>
                    reject_if (map_of ms ''type'' \<noteq> Some (GString ''object'')) (SchemaRejected ''root type must be object'')
                    (reject_if (map_of ms ''additionalProperties'' \<noteq> None \<and> map_of ms ''additionalProperties'' \<noteq> Some (GBool False))
                      (SchemaRejected ''open-ended properties denied'')
                    (case map_of ms ''properties'' of
                       None \<Rightarrow> Inl (SchemaRejected ''explicit properties required'')
                     | Some (GObject ps) \<Rightarrow>
                         reject_if (length ps > 128) (SchemaRejected ''properties malformed or excessive'')
                         (and_then (inspectSchema lower v 0 0) (\<lambda>n. Inr ()))
                     | Some _ \<Rightarrow> Inl (SchemaRejected ''properties malformed or excessive'')))
                | _ \<Rightarrow> Inl (SchemaRejected ''root type must be object''))))"

section \<open>The bounds, read declaratively\<close>

fun node_count :: "any \<Rightarrow> nat" where
  "node_count (GObject ms) = Suc (sum_list (map (\<lambda>(k, v). node_count v) ms))"
| "node_count (GArray vs) = Suc (sum_list (map node_count vs))"
| "node_count _ = 1"

fun nesting :: "any \<Rightarrow> nat" where
  "nesting (GObject ms) = (if ms = [] then 0 else Suc (Max (set (map (\<lambda>(k, v). nesting v) ms))))"
| "nesting (GArray vs) = (if vs = [] then 0 else Suc (Max (set (map nesting vs))))"
| "nesting _ = 0"

inductive part_of :: "any \<Rightarrow> any \<Rightarrow> bool" where
  part_self: "part_of v v"
| part_member: "(k, u) \<in> set ms \<Longrightarrow> part_of w u \<Longrightarrow> part_of w (GObject ms)"
| part_item: "u \<in> set vs \<Longrightarrow> part_of w u \<Longrightarrow> part_of w (GArray vs)"

inductive_cases part_of_objectE: "part_of w (GObject ms)"
inductive_cases part_of_arrayE: "part_of w (GArray vs)"
inductive_simps part_of_leaf [simp]: "part_of w GNull" "part_of w (GBool b)" "part_of w (GNumber l)" "part_of w (GString s)"

text \<open>What a single node may look like.\<close>

fun tame_node :: "(string \<Rightarrow> string) \<Rightarrow> any \<Rightarrow> bool" where
  "tame_node lower (GObject ms) \<longleftrightarrow> (\<forall>k \<in> set (map fst ms). \<not> forbidden_key lower k \<and> length k \<le> 256)"
| "tame_node lower (GArray vs) \<longleftrightarrow> length vs \<le> 256"
| "tame_node lower (GString s) \<longleftrightarrow> length s \<le> 8192"
| "tame_node lower _ \<longleftrightarrow> True"

definition tame :: "(string \<Rightarrow> string) \<Rightarrow> any \<Rightarrow> bool" where
  "tame lower v \<longleftrightarrow> (\<forall>w. part_of w v \<longrightarrow> tame_node lower w)"

lemma part_of_object: "part_of w (GObject ms) \<longleftrightarrow> w = GObject ms \<or> (\<exists>(k, u) \<in> set ms. part_of w u)"
  by (auto elim: part_of_objectE intro: part_of.intros)

lemma part_of_array: "part_of w (GArray vs) \<longleftrightarrow> w = GArray vs \<or> (\<exists>u \<in> set vs. part_of w u)"
  by (auto elim: part_of_arrayE intro: part_of.intros)

lemma tame_object: "tame lower (GObject ms) \<longleftrightarrow> (\<forall>(k, v) \<in> set ms. \<not> forbidden_key lower k \<and> length k \<le> 256 \<and> tame lower v)"
proof -
  have "tame lower (GObject ms) \<longleftrightarrow> tame_node lower (GObject ms) \<and> (\<forall>(k, v) \<in> set ms. tame lower v)"
    unfolding tame_def part_of_object by blast
  then show ?thesis by auto
qed

lemma tame_array: "tame lower (GArray vs) \<longleftrightarrow> length vs \<le> 256 \<and> (\<forall>v \<in> set vs. tame lower v)"
proof -
  have "tame lower (GArray vs) \<longleftrightarrow> tame_node lower (GArray vs) \<and> (\<forall>v \<in> set vs. tame lower v)"
    unfolding tame_def part_of_array by blast
  then show ?thesis by simp
qed

lemma tame_leaf [simp]: "tame lower GNull" "tame lower (GBool b)" "tame lower (GNumber l)" "tame lower (GString s) \<longleftrightarrow> length s \<le> 8192"
  by (simp_all add: tame_def)

lemma deep_object: "depth + nesting (GObject ms) \<le> 16 \<longleftrightarrow> depth \<le> 16 \<and> (\<forall>(k, v) \<in> set ms. Suc depth + nesting v \<le> 16)"
proof (cases "ms = []")
  case False
  then have "nesting (GObject ms) \<le> n \<longleftrightarrow> n > 0 \<and> (\<forall>(k, v) \<in> set ms. Suc (nesting v) \<le> n)" for n by (cases n) auto
  from this [of "16 - depth"] False show ?thesis by (cases ms) auto
qed simp

lemma deep_array: "depth + nesting (GArray vs) \<le> 16 \<longleftrightarrow> depth \<le> 16 \<and> (\<forall>v \<in> set vs. Suc depth + nesting v \<le> 16)"
proof (cases "vs = []")
  case False
  then have "nesting (GArray vs) \<le> n \<longleftrightarrow> n > 0 \<and> (\<forall>v \<in> set vs. Suc (nesting v) \<le> n)" for n by (cases n) auto
  from this [of "16 - depth"] False show ?thesis by (cases vs) auto
qed simp

declare inspectSchema.simps(1) [simp del] nesting.simps(1,2) [simp del]

lemma inspect_iff:
  "inspectSchema lower v depth nodes = Inr m \<longleftrightarrow>
     tame lower v \<and> depth + nesting v \<le> 16 \<and> nodes + node_count v \<le> 1024 \<and> m = nodes + node_count v"
  "inspect_items lower vs depth nodes = Inr m \<longleftrightarrow>
     (\<forall>v \<in> set vs. tame lower v \<and> depth + nesting v \<le> 16) \<and> (vs = [] \<or> nodes + sum_list (map node_count vs) \<le> 1024) \<and> m = nodes + sum_list (map node_count vs)"
  "inspect_members lower ms depth nodes = Inr m \<longleftrightarrow>
     (\<forall>(k, v) \<in> set ms. \<not> forbidden_key lower k \<and> length k \<le> 256 \<and> tame lower v \<and> depth + nesting v \<le> 16)
     \<and> (ms = [] \<or> nodes + sum_list (map (\<lambda>(k, v). node_count v) ms) \<le> 1024) \<and> m = nodes + sum_list (map (\<lambda>(k, v). node_count v) ms)"
proof (induction lower v depth nodes and lower vs depth nodes and lower ms depth nodes arbitrary: m and m and m
    rule: inspectSchema_inspect_items_inspect_members.induct)
  case (1 lower v depth nodes)
  show ?case
  proof (cases v)
    case (GObject ms)
    have "inspectSchema lower v depth nodes = Inr m \<longleftrightarrow> depth \<le> 16 \<and> nodes + 1 \<le> 1024 \<and> inspect_members lower ms (depth + 1) (nodes + 1) = Inr m"
      by (auto simp: inspectSchema.simps GObject not_less)
    also have "\<dots> \<longleftrightarrow> tame lower v \<and> depth + nesting v \<le> 16 \<and> nodes + node_count v \<le> 1024 \<and> m = nodes + node_count v"
      unfolding 1(2) [OF GObject] GObject tame_object deep_object by (cases ms) auto
    finally show ?thesis .
  next
    case (GArray vs)
    have "inspectSchema lower v depth nodes = Inr m \<longleftrightarrow>
        depth \<le> 16 \<and> nodes + 1 \<le> 1024 \<and> length vs \<le> 256 \<and> inspect_items lower vs (depth + 1) (nodes + 1) = Inr m"
      by (auto simp: inspectSchema.simps GArray not_less)
    also have "\<dots> \<longleftrightarrow> tame lower v \<and> depth + nesting v \<le> 16 \<and> nodes + node_count v \<le> 1024 \<and> m = nodes + node_count v"
      unfolding 1(1) [OF GArray] GArray tame_array deep_array by (cases vs) auto
    finally show ?thesis .
  qed (auto simp: inspectSchema.simps not_less)
next
  case (3 lower v vs depth nodes)
  then show ?case by (auto simp: and_then_ok)
next
  case (5 lower k v ms depth nodes)
  then show ?case by (auto simp: and_then_ok)
qed auto

section \<open>The theorem\<close>

text \<open>
  C35: The schema of an MCP tool is accepted exactly if it is within its bounds: at most 64 KiB of JSON, an
  object of type object with closed and explicit properties, at most 128 of them, no more than 1024
  nodes and 16 levels, and nowhere in it a reference, encoded content, a key over 256 bytes, an array
  over 256 items or a string over 8192 bytes, in whatever order the map is walked.
\<close>

theorem validateToolSchema_iff:
  "validateToolSchema lower (Some e) = Inr () \<longleftrightarrow>
     0 < length e \<and> length e \<le> 64 * 1024 \<and>
     (\<exists>ms ps. unmarshal_any e = Some (GObject ms) \<and> map_of ms ''type'' = Some (GString ''object'')
        \<and> (\<forall>a. map_of ms ''additionalProperties'' = Some a \<longrightarrow> a = GBool False)
        \<and> map_of ms ''properties'' = Some (GObject ps) \<and> length ps \<le> 128
        \<and> node_count (GObject ms) \<le> 1024 \<and> nesting (GObject ms) \<le> 16
        \<and> (\<forall>w. part_of w (GObject ms) \<longrightarrow> tame_node lower w))"
  (is "_ \<longleftrightarrow> ?bounds")
proof
  assume ok: "validateToolSchema lower (Some e) = Inr ()"
  then obtain ms ps n where v: "unmarshal_any e = Some (GObject ms)" "map_of ms ''properties'' = Some (GObject ps)"
    "inspectSchema lower (GObject ms) 0 0 = Inr n"
    by (auto simp: validateToolSchema_def and_then_ok split: option.splits any.splits)
  then have "tame lower (GObject ms) \<and> nesting (GObject ms) \<le> 16 \<and> node_count (GObject ms) \<le> 1024" by (simp add: inspect_iff)
  moreover have "a = GBool False" if "map_of ms ''additionalProperties'' = Some a" for a
    using ok v that by (auto simp: validateToolSchema_def)
  moreover have "0 < length e" "length e \<le> 64 * 1024" "map_of ms ''type'' = Some (GString ''object'')" "length ps \<le> 128"
    using ok v by (auto simp: validateToolSchema_def max_schema_bytes_def not_less)
  ultimately show ?bounds using v unfolding tame_def by blast
next
  assume ?bounds
  then obtain ms ps where e: "0 < length e" "length e \<le> 64 * 1024" "unmarshal_any e = Some (GObject ms)"
    "map_of ms ''type'' = Some (GString ''object'')" "\<forall>a. map_of ms ''additionalProperties'' = Some a \<longrightarrow> a = GBool False"
    "map_of ms ''properties'' = Some (GObject ps)" "length ps \<le> 128" "node_count (GObject ms) \<le> 1024" "nesting (GObject ms) \<le> 16"
    "tame lower (GObject ms)" unfolding tame_def by blast
  then have "inspectSchema lower (GObject ms) 0 0 = Inr (node_count (GObject ms))" by (simp add: inspect_iff)
  with e show "validateToolSchema lower (Some e) = Inr ()"
    by (cases "map_of ms ''additionalProperties''") (simp_all add: validateToolSchema_def max_schema_bytes_def)
qed

text \<open>The schema \<open>{"type":"object","properties":{}}\<close>.\<close>

definition demo_tool_schema :: string where
  "demo_tool_schema = (let q = [CHR 0x22] in
     ''{'' @ q @ ''type'' @ q @ '':'' @ q @ ''object'' @ q @ '','' @ q @ ''properties'' @ q @ '':{}}'')"

lemma demo_tool_schema_valid: "validateToolSchema (\<lambda>s. s) (Some demo_tool_schema) = Inr ()"
proof -
  let ?v = "GObject [(''properties'', GObject []), (''type'', GString ''object'')]"
  have parsed: "parse_document demo_tool_schema = Some (JObj [(''type'', JStr ''object''), (''properties'', JObj [])])"
    by code_simp
  have "decode_any (JObj [(''type'', JStr ''object''), (''properties'', JObj [])]) = ?v" by code_simp
  then have decoded: "unmarshal_any demo_tool_schema = Some ?v" by (simp add: unmarshal_any_def parsed)
  have inspected: "inspectSchema (\<lambda>s. s) ?v 0 0 = Inr 3" by code_simp
  have "demo_tool_schema \<noteq> []" "length demo_tool_schema \<le> max_schema_bytes" by (simp_all add: demo_tool_schema_def max_schema_bytes_def)
  with decoded inspected show ?thesis by (simp add: validateToolSchema_def)
qed

lemma validateToolSchema_iff_witness:
  "\<exists>ms. unmarshal_any demo_tool_schema = Some (GObject ms) \<and> node_count (GObject ms) \<le> 1024"
  using demo_tool_schema_valid unfolding validateToolSchema_iff by blast

end
