(* ===== verification/Skills.thy ===== *)
theory Skills
  imports Tools SkillManifest
begin

text \<open>
  Package \<open>internal/skills\<close>: the registry of skills (\<open>registry.go\<close>) over the registry of tools
  (\<open>tools_adapter.go\<close>). A skill compiled into the program is a tree of tool calls: all it can do
  with its context is call a tool and go on with the answer. The order in which a map is walked is a
  parameter, as is the server behind an MCP skill. \<open>sk_calls\<close> and \<open>sk_mcp_calls\<close> are ghost
  state: the calls a skill made.
\<close>

section \<open>State\<close>

record tool_call =
  tc_name :: string
  tc_arguments :: string
  tc_mode :: mode
  tc_user :: int
  tc_resource :: string
  tc_token :: string

record mcp_call =
  mc_server :: string
  mc_tool :: string
  mc_arguments :: string
  mc_mode :: mode
  mc_user :: int
  mc_resource :: string
  mc_token :: string
  mc_networks :: "string list"

record skill_request =
  e_id :: string
  e_version :: string
  e_input :: string
  e_user :: int
  e_resource :: string
  e_token :: string

datatype 'v skill_program =
    Finish "(string, 'v) result"
  | CallThen string mode string "(skill_error, 'v) result \<Rightarrow> 'v skill_program"

datatype ('w, 'v) tool_invoker = NoInvoker | NoCoreRegistry | CoreTools "('w, 'v) tools_state"

datatype 'v skill_value = Outputs "'v list" | Value 'v

record ('w, 'v) skills_state =
  sk_manifests :: "string \<rightharpoonup> (string \<times> manifest) list"
  sk_builtins :: "string \<rightharpoonup> (string \<Rightarrow> 'v skill_program)"
  sk_tools :: "('w, 'v) tool_invoker"
  sk_mcp :: "(nat \<Rightarrow> mcp_call \<Rightarrow> (string, 'v) result) option"
  sk_calls :: "tool_call list"
  sk_mcp_calls :: "mcp_call list"

definition NewSkills ::
  "('w, 'v) tool_invoker \<Rightarrow> (nat \<Rightarrow> mcp_call \<Rightarrow> (string, 'v) result) option \<Rightarrow> ('w, 'v) skills_state" where
  "NewSkills t mcp = \<lparr>sk_manifests = Map.empty, sk_builtins = Map.empty, sk_tools = t, sk_mcp = mcp, sk_calls = [], sk_mcp_calls = []\<rparr>"

section \<open>Registration\<close>

definition versions_of :: "('w, 'v) skills_state \<Rightarrow> string \<Rightarrow> (string \<times> manifest) list" where
  "versions_of s i = (case sk_manifests s i of None \<Rightarrow> [] | Some vs \<Rightarrow> vs)"

definition Add_skill ::
  "(string \<Rightarrow> string) \<Rightarrow> manifest \<Rightarrow> ('w, 'v) skills_state \<Rightarrow> (skill_error, unit) result \<times> ('w, 'v) skills_state" where
  "Add_skill lower m s =
     (case and_then (Validate_manifest lower m no_capabilities) (\<lambda>_. VerifyIntegrity m) of
        Inl e \<Rightarrow> (Inl e, s)
      | Inr _ \<Rightarrow>
          if map_of (versions_of s (m_id m)) (m_version m) \<noteq> None
          then (Inl Conflict, s)
          else (Inr (), s\<lparr>sk_manifests := (sk_manifests s)(m_id m \<mapsto> versions_of s (m_id m) @ [(m_version m, m)])\<rparr>))"

definition builtin_key :: "string \<Rightarrow> string \<Rightarrow> string" where
  "builtin_key i v = i @ ''@'' @ v"

definition RegisterBuiltin ::
  "string \<Rightarrow> string \<Rightarrow> (string \<Rightarrow> 'v skill_program) option \<Rightarrow> ('w, 'v) skills_state \<Rightarrow>
   (skill_error, unit) result \<times> ('w, 'v) skills_state" where
  "RegisterBuiltin i v h s =
     (case h of
        None \<Rightarrow> (Inl BuiltinRequired, s)
      | Some f \<Rightarrow>
          if sk_builtins s (builtin_key i v) \<noteq> None then (Inl Conflict, s)
          else (Inr (), s\<lparr>sk_builtins := (sk_builtins s)(builtin_key i v \<mapsto> f)\<rparr>))"

text \<open>\<open>sort.Slice\<close> by descending version, from the order in which the map was walked.\<close>

fun insert_version :: "string \<Rightarrow> string list \<Rightarrow> string list" where
  "insert_version v [] = [v]"
| "insert_version v (w # ws) = (if compareVersions w v > 0 then w # insert_version v ws else v # w # ws)"

definition sortedVersions :: "(string list \<Rightarrow> string list) \<Rightarrow> (string \<times> manifest) list \<Rightarrow> string list" where
  "sortedVersions walk vs = foldr insert_version (walk (map fst vs)) []"

definition Resolve_skill ::
  "(string list \<Rightarrow> string list) \<Rightarrow> string \<Rightarrow> string \<Rightarrow> ('w, 'v) skills_state \<Rightarrow> (skill_error, manifest) result" where
  "Resolve_skill walk i v s =
     (let vs = versions_of s i in
      if vs = [] then Inl SkillNotFound
      else case map_of vs (if v \<noteq> [] then v else hd (sortedVersions walk vs)) of
             None \<Rightarrow> Inl SkillNotFound | Some m \<Rightarrow> Inr m)"

section \<open>Calls\<close>

definition call_text :: "tool_error \<Rightarrow> string" where
  "call_text e = (case e of ToolFailed t \<Rightarrow> t | PolicyDenied t \<Rightarrow> ''policy denied: '' @ t | _ \<Rightarrow> ''tool'')"

definition InvokeTool ::
  "(nat \<Rightarrow> call_env) \<Rightarrow> tool_call \<Rightarrow> ('w, 'v) skills_state \<Rightarrow> (skill_error, 'v) result \<times> ('w, 'v) skills_state" where
  "InvokeTool env c s =
     (let s1 = s\<lparr>sk_calls := sk_calls s @ [c]\<rparr> in
      case sk_tools s of
        NoInvoker \<Rightarrow> (Inl RuntimeMissing, s)
      | NoCoreRegistry \<Rightarrow> (Inl (CallFailed ''core tool registry unavailable''), s1)
      | CoreTools t \<Rightarrow>
          (case Execute_tool (env (length (sk_calls s)))
                  \<lparr>q_name = tc_name c, q_arguments = tc_arguments c, q_mode = tc_mode c, q_user_id = tc_user c,
                   q_target = tc_resource c, q_approval_token = tc_token c\<rparr> t of
             (Inl e, t') \<Rightarrow> (Inl (CallFailed (call_text e)), s1\<lparr>sk_tools := CoreTools t'\<rparr>)
           | (Inr (ApprovalAsked a), t') \<Rightarrow> (Inl SkillApprovalRequired, s1\<lparr>sk_tools := CoreTools t'\<rparr>)
           | (Inr (ToolValue x), t') \<Rightarrow> (Inr x, s1\<lparr>sk_tools := CoreTools t'\<rparr>)))"

definition CallTool ::
  "(nat \<Rightarrow> call_env) \<Rightarrow> manifest \<Rightarrow> skill_request \<Rightarrow> string \<Rightarrow> mode \<Rightarrow> string \<Rightarrow> ('w, 'v) skills_state \<Rightarrow>
   (skill_error, 'v) result \<times> ('w, 'v) skills_state" where
  "CallTool env m q name p arguments s =
     (if sk_tools s = NoInvoker then (Inl RuntimeMissing, s)
      else if name \<notin> set (elems (m_tools m)) \<or> p \<notin> set (elems (m_permissions m))
      then (Inl (InvalidManifest ''skill attempted to widen tool or permission scope''), s)
      else InvokeTool env \<lparr>tc_name = name, tc_arguments = arguments, tc_mode = p, tc_user = e_user q, tc_resource = e_resource q,
                           tc_token = e_token q\<rparr> s)"

fun run_steps ::
  "(nat \<Rightarrow> call_env) \<Rightarrow> manifest \<Rightarrow> skill_request \<Rightarrow> skill_step list \<Rightarrow> ('w, 'v) skills_state \<Rightarrow>
   (skill_error, 'v list) result \<times> ('w, 'v) skills_state" where
  "run_steps env m q [] s = (Inr [], s)"
| "run_steps env m q (p # ps) s =
     (case CallTool env m q (st_tool p) (st_mode p) (if st_arguments p = [] then e_input q else st_arguments p) s of
        (Inl e, s1) \<Rightarrow> (Inl e, s1)
      | (Inr x, s1) \<Rightarrow>
          (case run_steps env m q ps s1 of (Inl e, s2) \<Rightarrow> (Inl e, s2) | (Inr xs, s2) \<Rightarrow> (Inr (x # xs), s2)))"

primrec run_program ::
  "(nat \<Rightarrow> call_env) \<Rightarrow> manifest \<Rightarrow> skill_request \<Rightarrow> 'v skill_program \<Rightarrow> ('w, 'v) skills_state \<Rightarrow>
   (skill_error, 'v) result \<times> ('w, 'v) skills_state" where
  "run_program env m q (Finish r) = (\<lambda>s. (case r of Inl e \<Rightarrow> Inl (CallFailed e) | Inr x \<Rightarrow> Inr x, s))"
| "run_program env m q (CallThen name p a k) =
     (\<lambda>s. case CallTool env m q name p a s of (r, s1) \<Rightarrow> run_program env m q (k r) s1)"

definition highestPermission :: "mode list \<Rightarrow> mode" where
  "highestPermission ps = (if Publish \<in> set ps then Publish else if Write \<in> set ps then Write else Read)"

definition InvokeMCP ::
  "manifest \<Rightarrow> skill_request \<Rightarrow> ('w, 'v) skills_state \<Rightarrow> (skill_error, 'v) result \<times> ('w, 'v) skills_state" where
  "InvokeMCP m q s =
     (case (sk_mcp s, m_mcp m) of
        (Some f, Some b) \<Rightarrow>
          (let c = \<lparr>mc_server = mb_server b, mc_tool = mb_tool b, mc_arguments = e_input q,
                    mc_mode = highestPermission (elems (m_permissions m)), mc_user = e_user q, mc_resource = e_resource q,
                    mc_token = e_token q, mc_networks = elems (m_networks m)\<rparr>
           in (case f (length (sk_mcp_calls s)) c of Inl e \<Rightarrow> Inl (CallFailed e) | Inr x \<Rightarrow> Inr x,
               s\<lparr>sk_mcp_calls := sk_mcp_calls s @ [c]\<rparr>))
      | _ \<Rightarrow> (Inl RuntimeMissing, s))"

definition run_skill ::
  "(nat \<Rightarrow> call_env) \<Rightarrow> manifest \<Rightarrow> skill_request \<Rightarrow> ('w, 'v) skills_state \<Rightarrow>
   (skill_error, 'v skill_value) result \<times> ('w, 'v) skills_state" where
  "run_skill env m q s =
     (case m_type m of
        Declarative \<Rightarrow>
          (case run_steps env m q (m_steps m) s of (Inl e, s') \<Rightarrow> (Inl e, s') | (Inr xs, s') \<Rightarrow> (Inr (Outputs xs), s'))
      | Builtin \<Rightarrow>
          (case sk_builtins s (builtin_key (m_id m) (m_version m)) of
             None \<Rightarrow> (Inl RuntimeMissing, s)
           | Some h \<Rightarrow>
               (case run_program env m q (h (e_input q)) s of (Inl e, s') \<Rightarrow> (Inl e, s') | (Inr x, s') \<Rightarrow> (Inr (Value x), s')))
      | MCP \<Rightarrow> (case InvokeMCP m q s of (Inl e, s') \<Rightarrow> (Inl e, s') | (Inr x, s') \<Rightarrow> (Inr (Value x), s'))
      | Type_Other t \<Rightarrow> (Inl RuntimeMissing, s))"

definition Execute_skill ::
  "(string list \<Rightarrow> string list) \<Rightarrow> (nat \<Rightarrow> call_env) \<Rightarrow> skill_request \<Rightarrow> ('w, 'v) skills_state \<Rightarrow>
   (skill_error, manifest \<times> 'v skill_value) result \<times> ('w, 'v) skills_state" where
  "Execute_skill walk env q s =
     (case Resolve_skill walk (e_id q) (e_version q) s of
        Inl e \<Rightarrow> (Inl e, s)
      | Inr m \<Rightarrow>
          (case VerifyIntegrity m of
             Inl e \<Rightarrow> (Inl e, s)
           | Inr _ \<Rightarrow>
               (case ValidateInput (m_input_schema m) (e_input q) of
                  Inl e \<Rightarrow> (Inl (InputRejected e), s)
                | Inr _ \<Rightarrow>
                    if m_approval m = ApprovalAlways \<and> e_token q = [] then (Inl SkillApprovalRequired, s)
                    else (case run_skill env m q s of (Inl e, s') \<Rightarrow> (Inl e, s') | (Inr x, s') \<Rightarrow> (Inr (m, x), s')))))"

section \<open>Scope\<close>

definition call_in_scope :: "manifest \<Rightarrow> skill_request \<Rightarrow> tool_call \<Rightarrow> bool" where
  "call_in_scope m q c \<longleftrightarrow> tc_name c \<in> set (elems (m_tools m)) \<and> tc_mode c \<in> set (elems (m_permissions m))
     \<and> tc_user c = e_user q \<and> tc_resource c = e_resource q \<and> tc_token c = e_token q"

definition run_in_scope :: "manifest \<Rightarrow> skill_request \<Rightarrow> execution_metadata \<Rightarrow> bool" where
  "run_in_scope m q x \<longleftrightarrow> x_name x \<in> set (elems (m_tools m)) \<and> x_mode x \<in> set (elems (m_permissions m))
     \<and> x_user x = e_user q \<and> x_resource x = e_resource q"

definition tool_runs :: "('w, 'v) skills_state \<Rightarrow> execution_metadata list" where
  "tool_runs s = (case sk_tools s of CoreTools t \<Rightarrow> ts_runs t | _ \<Rightarrow> [])"

text \<open>What happened between two states stayed within the scope of a manifest, for a request.\<close>

definition in_scope :: "manifest \<Rightarrow> skill_request \<Rightarrow> ('w, 'v) skills_state \<Rightarrow> ('w, 'v) skills_state \<Rightarrow> bool" where
  "in_scope m q s s' \<longleftrightarrow> (\<exists>cs. sk_calls s' = sk_calls s @ cs \<and> (\<forall>c \<in> set cs. call_in_scope m q c))
     \<and> (\<exists>xs. tool_runs s' = tool_runs s @ xs \<and> (\<forall>x \<in> set xs. run_in_scope m q x))"

lemma in_scope_refl [simp]: "in_scope m q s s"
  by (simp add: in_scope_def)

lemma in_scope_trans:
  assumes "in_scope m q s s'" and "in_scope m q s' s''"
  shows "in_scope m q s s''"
proof -
  obtain cs xs where 1: "sk_calls s' = sk_calls s @ cs" "\<forall>c \<in> set cs. call_in_scope m q c"
    "tool_runs s' = tool_runs s @ xs" "\<forall>x \<in> set xs. run_in_scope m q x" using assms(1) by (auto simp: in_scope_def)
  obtain ds ys where 2: "sk_calls s'' = sk_calls s' @ ds" "\<forall>c \<in> set ds. call_in_scope m q c"
    "tool_runs s'' = tool_runs s' @ ys" "\<forall>x \<in> set ys. run_in_scope m q x" using assms(2) by (auto simp: in_scope_def)
  show ?thesis
    unfolding in_scope_def using 1 2 by (intro conjI exI [of _ "cs @ ds"] exI [of _ "xs @ ys"]) auto
qed

lemma Execute_tool_runs:
  "\<exists>xs. ts_runs (snd (Execute_tool en q t)) = ts_runs t @ xs
     \<and> (\<forall>x \<in> set xs. x_name x = q_name q \<and> x_mode x = q_mode q \<and> x_user x = q_user_id q \<and> x_resource x = q_target q)"
  using Execute_tool_effect [of t en q]
  by cases (auto simp: metadata_for_def)

lemma InvokeTool_in_scope:
  assumes "call_in_scope m q c"
  shows "in_scope m q s (snd (InvokeTool env c s))"
proof (cases "sk_tools s")
  case (CoreTools t)
  let ?q = "\<lparr>q_name = tc_name c, q_arguments = tc_arguments c, q_mode = tc_mode c, q_user_id = tc_user c,
    q_target = tc_resource c, q_approval_token = tc_token c\<rparr>"
  obtain r t' where ex: "Execute_tool (env (length (sk_calls s))) ?q t = (r, t')" by (cases rule: prod.exhaust)
  have "snd (InvokeTool env c s) = s\<lparr>sk_calls := sk_calls s @ [c], sk_tools := CoreTools t'\<rparr>"
    using ex CoreTools by (auto simp: InvokeTool_def Let_def split: sum.split tool_result.split)
  moreover obtain xs where "ts_runs t' = ts_runs t @ xs" "\<forall>x \<in> set xs. run_in_scope m q x"
    using Execute_tool_runs [of "env (length (sk_calls s))" ?q t] assms ex by (auto simp: run_in_scope_def call_in_scope_def)
  ultimately show ?thesis using assms CoreTools by (simp add: in_scope_def tool_runs_def)
qed (use assms in \<open>simp_all add: InvokeTool_def in_scope_def tool_runs_def Let_def\<close>)

lemma CallTool_in_scope: "in_scope m q s (snd (CallTool env m q name p a s))"
  by (simp add: CallTool_def InvokeTool_in_scope call_in_scope_def)

lemma run_steps_in_scope: "in_scope m q s (snd (run_steps env m q ps s))"
proof (induction ps arbitrary: s)
  case (Cons p ps)
  obtain r s1 where c: "CallTool env m q (st_tool p) (st_mode p) (if st_arguments p = [] then e_input q else st_arguments p) s = (r, s1)"
    by (cases rule: prod.exhaust)
  then have one: "in_scope m q s s1" using CallTool_in_scope [of m q s env "st_tool p" "st_mode p"] by (metis snd_conv)
  show ?case
  proof (cases r)
    case (Inl e)
    with c one show ?thesis by simp
  next
    case (Inr x)
    have "snd (run_steps env m q (p # ps) s) = snd (run_steps env m q ps s1)"
      using c Inr by (simp split: prod.split sum.split)
    with in_scope_trans [OF one Cons.IH [of s1]] show ?thesis by simp
  qed
qed simp

lemma run_program_in_scope: "in_scope m q s (snd (run_program env m q h s))"
proof (induction h arbitrary: s)
  case (CallThen name p a k)
  obtain r s1 where c: "CallTool env m q name p a s = (r, s1)" by (cases rule: prod.exhaust)
  then have one: "in_scope m q s s1" using CallTool_in_scope [of m q s env name p a] by simp
  have "in_scope m q s1 (snd (run_program env m q (k r) s1))" by (rule CallThen) simp
  with in_scope_trans [OF one] c show ?case by simp
qed simp

lemma InvokeMCP_in_scope: "in_scope m q s (snd (InvokeMCP m q s))"
  by (simp add: InvokeMCP_def in_scope_def tool_runs_def Let_def split: option.split)

text \<open>What an execution does to the state, by the kind of skill.\<close>

lemma run_skill_state:
  obtains "snd (run_skill env m q s) = s" | "snd (run_skill env m q s) = snd (run_steps env m q (m_steps m) s)"
    | h where "snd (run_skill env m q s) = snd (run_program env m q h s)" | "snd (run_skill env m q s) = snd (InvokeMCP m q s)"
proof (cases "m_type m")
  case Declarative
  then have "snd (run_skill env m q s) = snd (run_steps env m q (m_steps m) s)"
    by (simp add: run_skill_def split: prod.split sum.split)
  then show ?thesis by (rule that(2))
next
  case Builtin
  show ?thesis
  proof (cases "sk_builtins s (builtin_key (m_id m) (m_version m))")
    case (Some h)
    with Builtin have "snd (run_skill env m q s) = snd (run_program env m q (h (e_input q)) s)"
      by (simp add: run_skill_def split: prod.split sum.split)
    then show ?thesis by (rule that(3))
  qed (use Builtin that(1) in \<open>simp add: run_skill_def\<close>)
next
  case MCP
  then have "snd (run_skill env m q s) = snd (InvokeMCP m q s)" by (simp add: run_skill_def split: prod.split sum.split)
  then show ?thesis by (rule that(4))
qed (use that(1) in \<open>simp add: run_skill_def\<close>)

lemma Execute_skill_state:
  obtains "snd (Execute_skill walk env q s) = s"
    | m where "Resolve_skill walk (e_id q) (e_version q) s = Inr m" and "snd (Execute_skill walk env q s) = snd (run_skill env m q s)"
proof (cases "snd (Execute_skill walk env q s) = s")
  case False
  then obtain m where "Resolve_skill walk (e_id q) (e_version q) s = Inr m" "snd (Execute_skill walk env q s) = snd (run_skill env m q s)"
    by (auto simp: Execute_skill_def split: sum.splits prod.splits if_splits)
  then show ?thesis by (rule that(2))
qed (rule that(1))

lemma run_skill_in_scope: "in_scope m q s (snd (run_skill env m q s))"
  by (cases rule: run_skill_state [of env m q s]) (simp_all add: run_steps_in_scope run_program_in_scope InvokeMCP_in_scope)

lemma Execute_skill_in_scope:
  assumes "Resolve_skill walk (e_id q) (e_version q) s = Inr m"
  shows "in_scope m q s (snd (Execute_skill walk env q s))"
  by (cases rule: Execute_skill_state [of walk env q s]) (use assms in \<open>simp_all add: run_skill_in_scope\<close>)

lemma Execute_skill_unresolved:
  "Resolve_skill walk (e_id q) (e_version q) s = Inl e \<Longrightarrow> Execute_skill walk env q s = (Inl e, s)"
  by (simp add: Execute_skill_def)

section \<open>Histories\<close>

text \<open>Registrations, executions, and what else happens to the registry of tools.\<close>

datatype ('w, 'v) skill_event =
    SAdd manifest
  | SBuiltin string string "(string \<Rightarrow> 'v skill_program) option"
  | SExecute "string list \<Rightarrow> string list" "nat \<Rightarrow> call_env" skill_request
  | STools "('w, 'v) tool_event"

fun skills_step :: "(string \<Rightarrow> string) \<Rightarrow> ('w, 'v) skill_event \<Rightarrow> ('w, 'v) skills_state \<Rightarrow> ('w, 'v) skills_state" where
  "skills_step lower (SAdd m) s = snd (Add_skill lower m s)"
| "skills_step lower (SBuiltin i v h) s = snd (RegisterBuiltin i v h s)"
| "skills_step lower (SExecute walk env q) s = snd (Execute_skill walk env q s)"
| "skills_step lower (STools e) s =
     (case sk_tools s of CoreTools t \<Rightarrow> s\<lparr>sk_tools := CoreTools (tool_step e t)\<rparr> | _ \<Rightarrow> s)"

definition skill_run ::
  "(string \<Rightarrow> string) \<Rightarrow> ('w, 'v) skill_event list \<Rightarrow> (nat \<Rightarrow> mcp_call \<Rightarrow> (string, 'v) result) option \<Rightarrow> 'w \<Rightarrow> ('w, 'v) skills_state" where
  "skill_run lower es mcp w = fold (skills_step lower) es (NewSkills (CoreTools (NewRegistry (Some no_approvals) None w)) mcp)"

section \<open>Manifests in the registry\<close>

definition versions_ok :: "(string \<Rightarrow> string) \<Rightarrow> string \<Rightarrow> (string \<times> manifest) list \<Rightarrow> bool" where
  "versions_ok lower i vs \<longleftrightarrow> distinct (map fst vs) \<and> (\<forall>x \<in> set vs. m_id (snd x) = i \<and> m_version (snd x) = fst x
     \<and> Validate_manifest lower (snd x) no_capabilities = Inr () \<and> VerifyIntegrity (snd x) = Inr ())"

definition manifests_ok :: "(string \<Rightarrow> string) \<Rightarrow> ('w, 'v) skills_state \<Rightarrow> bool" where
  "manifests_ok lower s \<longleftrightarrow> (\<forall>i. versions_ok lower i (versions_of s i))"

definition manifest_at :: "('w, 'v) skills_state \<Rightarrow> string \<times> string \<Rightarrow> manifest option" where
  "manifest_at s k = map_of (versions_of s (fst k)) (snd k)"

lemma InvokeTool_manifests [simp]: "sk_manifests (snd (InvokeTool env c s)) = sk_manifests s"
  by (simp add: InvokeTool_def Let_def split: tool_invoker.split prod.split sum.split tool_result.split)

lemma CallTool_manifests [simp]: "sk_manifests (snd (CallTool env m q n p a s)) = sk_manifests s"
  by (simp add: CallTool_def)

lemma run_steps_manifests [simp]: "sk_manifests (snd (run_steps env m q ps s)) = sk_manifests s"
proof (induction ps arbitrary: s)
  case (Cons p ps)
  obtain r s1 where c: "CallTool env m q (st_tool p) (st_mode p) (if st_arguments p = [] then e_input q else st_arguments p) s = (r, s1)"
    by (cases rule: prod.exhaust)
  then have "sk_manifests s1 = sk_manifests s"
    using CallTool_manifests [of env m q "st_tool p" "st_mode p" "if st_arguments p = [] then e_input q else st_arguments p" s] by simp
  moreover obtain r2 s2 where "run_steps env m q ps s1 = (r2, s2)" by (cases rule: prod.exhaust)
  ultimately show ?case using c Cons.IH [of s1] by (cases r; cases r2) simp_all
qed simp

lemma run_program_manifests [simp]: "sk_manifests (snd (run_program env m q h s)) = sk_manifests s"
proof (induction h arbitrary: s)
  case (CallThen name p a k)
  obtain r s1 where c: "CallTool env m q name p a s = (r, s1)" by (cases rule: prod.exhaust)
  then have "sk_manifests s1 = sk_manifests s" using CallTool_manifests [of env m q name p a s] by simp
  with c CallThen [of "k r" s1] show ?case by simp
qed simp

lemma run_skill_manifests [simp]: "sk_manifests (snd (run_skill env m q s)) = sk_manifests s"
  by (cases rule: run_skill_state [of env m q s]) (simp_all add: InvokeMCP_def Let_def split: option.split)

lemma Execute_skill_manifests [simp]: "sk_manifests (snd (Execute_skill walk env q s)) = sk_manifests s"
  by (cases rule: Execute_skill_state [of walk env q s]) simp_all

lemma Add_skill_cases:
  obtains "snd (Add_skill lower m s) = s"
    | "Validate_manifest lower m no_capabilities = Inr ()" and "VerifyIntegrity m = Inr ()"
      and "map_of (versions_of s (m_id m)) (m_version m) = None"
      and "snd (Add_skill lower m s) = s\<lparr>sk_manifests := (sk_manifests s)(m_id m \<mapsto> versions_of s (m_id m) @ [(m_version m, m)])\<rparr>"
proof (cases "Validate_manifest lower m no_capabilities = Inr () \<and> VerifyIntegrity m = Inr () \<and> map_of (versions_of s (m_id m)) (m_version m) = None")
  case True
  then show ?thesis using that(2) by (simp add: Add_skill_def)
next
  case False
  then have "snd (Add_skill lower m s) = s"
    by (cases "and_then (Validate_manifest lower m no_capabilities) (\<lambda>_. VerifyIntegrity m)") (auto simp: Add_skill_def)
  then show ?thesis by (rule that(1))
qed

lemma skill_step_manifests:
  assumes "manifests_ok lower s"
  shows "manifests_ok lower (skills_step lower e s)"
proof (cases e)
  case (SAdd m)
  show ?thesis
  proof (cases rule: Add_skill_cases [of lower m s])
    case 1
    with SAdd assms show ?thesis by simp
  next
    case 2
    have "m_version m \<notin> fst ` set (versions_of s (m_id m))" using 2(3) by (simp add: map_of_eq_None_iff)
    with assms 2(1,2) have "versions_ok lower (m_id m) (versions_of s (m_id m) @ [(m_version m, m)])"
      by (auto simp: manifests_ok_def versions_ok_def)
    with assms 2(4) show ?thesis by (simp add: SAdd manifests_ok_def versions_of_def)
  qed
next
  case (SBuiltin i v h)
  then show ?thesis using assms by (auto simp: RegisterBuiltin_def manifests_ok_def versions_of_def split: option.split)
next
  case (SExecute walk env q)
  then show ?thesis using assms by (simp add: manifests_ok_def versions_of_def)
next
  case (STools t)
  then show ?thesis using assms by (simp add: manifests_ok_def versions_of_def split: tool_invoker.split)
qed

lemma manifest_stays:
  assumes "manifests_ok lower s" and "manifest_at s k = Some m"
  shows "manifest_at (skills_step lower e s) k = Some m"
proof (cases e)
  case (SAdd n)
  show ?thesis
    by (cases rule: Add_skill_cases [of lower n s])
       (use assms(2) SAdd in \<open>auto simp: manifest_at_def versions_of_def map_add_def split: option.splits\<close>)
next
  case (SBuiltin i v h)
  then have "sk_manifests (skills_step lower e s) = sk_manifests s" by (simp add: RegisterBuiltin_def split: option.split)
  with assms(2) show ?thesis by (simp add: manifest_at_def versions_of_def)
next
  case (SExecute walk env q)
  then show ?thesis using assms by (simp add: manifest_at_def versions_of_def)
next
  case (STools t)
  then have "sk_manifests (skills_step lower e s) = sk_manifests s" by (simp split: tool_invoker.split)
  with assms(2) show ?thesis by (simp add: manifest_at_def versions_of_def)
qed

interpretation skills: final_machine "skills_step lower" "manifests_ok lower" manifest_at "\<lambda>m. True"
  by unfold_locales (auto intro: skill_step_manifests manifest_stays)

lemma skill_run_manifests: "manifests_ok lower (skill_run lower es mcp w)"
  unfolding skill_run_def by (rule skills.run_keeps) (simp add: manifests_ok_def versions_ok_def versions_of_def NewSkills_def)

section \<open>The history of the tool registry\<close>

definition owner_events :: "('w, 'v) skill_event list \<Rightarrow> appr_op set" where
  "owner_events es = {e. STools (TApproval e) \<in> set es}"

text \<open>The registry of tools has been through a history of its own, with no verdicts but those of the history of the skills.\<close>

definition tools_history :: "('w, 'v) skill_event list \<Rightarrow> ('w, 'v) skills_state \<Rightarrow> bool" where
  "tools_history es s \<longleftrightarrow> (\<exists>t tes w. sk_tools s = CoreTools t \<and> t = tool_run tes None w
     \<and> (\<forall>e. TApproval e \<in> set tes \<longrightarrow> e \<in> owner_events es))"

lemma tools_history_mono: "tools_history es s \<Longrightarrow> tools_history (es @ [e]) s"
  by (auto simp: tools_history_def owner_events_def)

lemma tools_history_same: "tools_history es s \<Longrightarrow> sk_tools s' = sk_tools s \<Longrightarrow> tools_history es s'"
  by (simp add: tools_history_def)

lemma tools_history_execute:
  assumes "tools_history es s" and "sk_tools s = CoreTools t" and "sk_tools s' = CoreTools (snd (Execute_tool en q t))"
  shows "tools_history es s'"
proof -
  obtain tes w where t: "t = tool_run tes None w" "\<forall>e. TApproval e \<in> set tes \<longrightarrow> e \<in> owner_events es"
    using assms(1,2) by (auto simp: tools_history_def)
  have "snd (Execute_tool en q t) = tool_run (tes @ [TExecute en q]) None w" by (simp add: tool_run_def t(1))
  with t(2) assms(3) show ?thesis
    unfolding tools_history_def
    by (intro exI [of _ "snd (Execute_tool en q t)"] exI [of _ "tes @ [TExecute en q]"] exI [of _ w]) simp
qed

lemma InvokeTool_history:
  assumes "tools_history es s"
  shows "tools_history es (snd (InvokeTool env c s))"
proof -
  obtain t where t: "sk_tools s = CoreTools t" using assms by (auto simp: tools_history_def)
  let ?q = "\<lparr>q_name = tc_name c, q_arguments = tc_arguments c, q_mode = tc_mode c, q_user_id = tc_user c,
    q_target = tc_resource c, q_approval_token = tc_token c\<rparr>"
  obtain r t' where ex: "Execute_tool (env (length (sk_calls s))) ?q t = (r, t')" by (cases rule: prod.exhaust)
  then have "sk_tools (snd (InvokeTool env c s)) = CoreTools (snd (Execute_tool (env (length (sk_calls s))) ?q t))"
    using t by (auto simp: InvokeTool_def Let_def split: sum.split tool_result.split)
  then show ?thesis by (rule tools_history_execute [OF assms t])
qed

lemma CallTool_history: "tools_history es s \<Longrightarrow> tools_history es (snd (CallTool env m q n p a s))"
  by (simp add: CallTool_def InvokeTool_history)

lemma run_steps_history: "tools_history es s \<Longrightarrow> tools_history es (snd (run_steps env m q ps s))"
proof (induction ps arbitrary: s)
  case (Cons p ps)
  obtain r s1 where c: "CallTool env m q (st_tool p) (st_mode p) (if st_arguments p = [] then e_input q else st_arguments p) s = (r, s1)"
    by (cases rule: prod.exhaust)
  then have "tools_history es s1" using CallTool_history [OF Cons.prems] by (metis snd_conv)
  moreover obtain r2 s2 where "run_steps env m q ps s1 = (r2, s2)" by (cases rule: prod.exhaust)
  ultimately show ?case using c Cons.IH [of s1] by (cases r; cases r2) simp_all
qed simp

lemma run_program_history: "tools_history es s \<Longrightarrow> tools_history es (snd (run_program env m q h s))"
proof (induction h arbitrary: s)
  case (CallThen name p a k)
  obtain r s1 where c: "CallTool env m q name p a s = (r, s1)" by (cases rule: prod.exhaust)
  then have "tools_history es s1" using CallTool_history [OF CallThen.prems] by (metis snd_conv)
  then have "tools_history es (snd (run_program env m q (k r) s1))" by (intro CallThen) simp_all
  with c show ?case by simp
qed simp

lemma run_skill_history: "tools_history es s \<Longrightarrow> tools_history es (snd (run_skill env m q s))"
  by (cases rule: run_skill_state [of env m q s])
     (auto simp: run_steps_history run_program_history InvokeMCP_def Let_def intro: tools_history_same split: option.split)

lemma skill_step_history:
  assumes "tools_history es s"
  shows "tools_history (es @ [e]) (skills_step lower e s)"
proof (cases e)
  case (SAdd m)
  have "sk_tools (snd (Add_skill lower m s)) = sk_tools s" by (cases rule: Add_skill_cases [of lower m s]) simp_all
  with tools_history_same [OF tools_history_mono [OF assms]] show ?thesis by (simp add: SAdd)
next
  case (SBuiltin i v h)
  have "sk_tools (snd (RegisterBuiltin i v h s)) = sk_tools s" by (simp add: RegisterBuiltin_def split: option.split)
  with tools_history_same [OF tools_history_mono [OF assms]] show ?thesis by (simp add: SBuiltin)
next
  case (SExecute walk env q)
  have "tools_history (es @ [e]) (snd (Execute_skill walk env q s))"
    by (cases rule: Execute_skill_state [of walk env q s]) (simp_all add: run_skill_history tools_history_mono [OF assms])
  then show ?thesis by (simp add: SExecute)
next
  case (STools te)
  obtain tes w where t: "sk_tools s = CoreTools (tool_run tes None w)" "\<forall>e. TApproval e \<in> set tes \<longrightarrow> e \<in> owner_events es"
    using assms by (auto simp: tools_history_def)
  then have "sk_tools (skills_step lower e s) = CoreTools (tool_run (tes @ [te]) None w)" by (simp add: STools tool_run_def)
  moreover have "\<forall>a. TApproval a \<in> set (tes @ [te]) \<longrightarrow> a \<in> owner_events (es @ [e])"
    using t(2) by (auto simp: owner_events_def STools)
  ultimately show ?thesis unfolding tools_history_def by blast
qed

lemma skill_run_history: "tools_history es (skill_run lower es mcp w)"
proof (induction es rule: rev_induct)
  case Nil
  have "tools_history [] (NewSkills (CoreTools (tool_run [] None w)) mcp)"
    unfolding tools_history_def by (intro exI [of _ "tool_run [] None w"] exI [of _ "[]"] exI [of _ w]) (simp add: NewSkills_def)
  then show ?case by (simp add: skill_run_def tool_run_def)
next
  case (snoc e es)
  from skill_step_history [OF this, of e lower] show ?case by (simp add: skill_run_def)
qed

section \<open>Versions\<close>

lemma compare_ints_refl: "compare_ints a a = 0"
  by (induction a) simp_all

lemma compare_ints_flip: "length a = length b \<Longrightarrow> compare_ints b a = - compare_ints a b"
  by (induction a b rule: compare_ints.induct) auto

lemma compare_ints_trans:
  "length a = length b \<Longrightarrow> length b = length c \<Longrightarrow> compare_ints a b \<ge> 0 \<Longrightarrow> compare_ints b c \<ge> 0 \<Longrightarrow> compare_ints a c \<ge> 0"
proof (induction a b arbitrary: c rule: compare_ints.induct)
  case (1 x xs y ys)
  then obtain z zs where c: "c = z # zs" by (cases c) auto
  have "y \<le> x" "z \<le> y" using 1(4,5) c by (simp_all split: if_splits)
  then consider "z < x" | "x = y" "y = z" by linarith
  then show ?case
  proof cases
    case 2
    with 1(1) [of zs] 1(2-5) c show ?thesis by simp
  qed (simp add: c)
qed simp_all

lemma parse_version_length [simp]: "length (parse_version v) = 3"
  by (simp add: parse_version_def Let_def)

lemma compareVersions_flip: "compareVersions b a = - compareVersions a b"
  unfolding compareVersions_def by (rule compare_ints_flip) simp

lemma compareVersions_trans: "compareVersions a b \<ge> 0 \<Longrightarrow> compareVersions b c \<ge> 0 \<Longrightarrow> compareVersions a c \<ge> 0"
  unfolding compareVersions_def by (rule compare_ints_trans) simp_all

lemma set_insert_version [simp]: "set (insert_version v ws) = insert v (set ws)"
  by (induction ws) auto

lemma insert_version_sorted:
  "sorted_wrt (\<lambda>a b. compareVersions a b \<ge> 0) ws \<Longrightarrow> sorted_wrt (\<lambda>a b. compareVersions a b \<ge> 0) (insert_version v ws)"
proof (induction ws)
  case (Cons w ws)
  show ?case
  proof (cases "compareVersions w v > 0")
    case True
    with Cons show ?thesis by auto
  next
    case False
    then have "compareVersions v w \<ge> 0" using compareVersions_flip [of v w] by simp
    with Cons.prems False show ?thesis by (auto intro: compareVersions_trans)
  qed
qed simp

lemma sortedVersions_sorted: "sorted_wrt (\<lambda>a b. compareVersions a b \<ge> 0) (sortedVersions walk vs)"
proof -
  have "sorted_wrt (\<lambda>a b. compareVersions a b \<ge> 0) (foldr insert_version xs [])" for xs
    by (induction xs) (simp_all add: insert_version_sorted)
  then show ?thesis by (simp add: sortedVersions_def)
qed

lemma set_sortedVersions: "set (sortedVersions walk vs) = set (walk (map fst vs))"
proof -
  have "set (foldr insert_version xs []) = set xs" for xs by (induction xs) simp_all
  then show ?thesis by (simp add: sortedVersions_def)
qed

lemma newest:
  assumes "set (walk (map fst vs)) = set (map fst vs)" and "v \<in> fst ` set vs"
  shows "compareVersions (hd (sortedVersions walk vs)) v \<ge> 0" and "hd (sortedVersions walk vs) \<in> fst ` set vs"
proof -
  have mem: "set (sortedVersions walk vs) = fst ` set vs" using assms(1) by (simp add: set_sortedVersions)
  with assms(2) obtain x xs where xs: "sortedVersions walk vs = x # xs" by (cases "sortedVersions walk vs") auto
  have self: "compareVersions x x \<ge> 0" by (simp add: compareVersions_def compare_ints_refl)
  show "compareVersions (hd (sortedVersions walk vs)) v \<ge> 0"
    using sortedVersions_sorted [of walk vs] mem assms(2) self by (auto simp: xs)
  show "hd (sortedVersions walk vs) \<in> fst ` set vs" using mem by (auto simp: xs)
qed

section \<open>The theorems\<close>

text \<open>
  C11: A skill stays in its scope. Whatever was registered and executed before, and whatever program,
  steps or answers drive the skill, an execution calls only tools its manifest requires, only in modes
  the manifest lists (never Admin, and Publish only under bound approval), and always for the user, the
  resource and the token of the request; and every handler that runs meanwhile in the tool registry
  is a run of such a tool in such a mode for that user.
\<close>

theorem skill_stays_in_scope:
  assumes "s = skill_run lower es mcp w" and "Resolve_skill walk (e_id q) (e_version q) s = Inr m"
    and "s' = snd (Execute_skill walk env q s)"
  shows "(\<exists>cs. sk_calls s' = sk_calls s @ cs \<and> (\<forall>c \<in> set cs. call_in_scope m q c))
    \<and> (\<exists>xs. tool_runs s' = tool_runs s @ xs \<and> (\<forall>x \<in> set xs. run_in_scope m q x \<and> x_mode x \<noteq> Admin))
    \<and> (Publish \<in> set (elems (m_permissions m)) \<longrightarrow> m_approval m = ApprovalBound)"
proof -
  have scope: "in_scope m q s s'" unfolding assms(3) by (rule Execute_skill_in_scope [OF assms(2)])
  obtain v where "(v, m) \<in> set (versions_of s (e_id q))"
    using assms(2) map_of_SomeD by (fastforce simp: Resolve_skill_def Let_def split: if_splits option.splits)
  then have valid: "Validate_manifest lower m no_capabilities = Inr ()"
    using skill_run_manifests [of lower es mcp w] unfolding assms(1) manifests_ok_def versions_ok_def by fastforce
  have "x_mode x \<noteq> Admin" if "run_in_scope m q x" for x
    using that permissions_grantable [OF valid, of Admin] by (auto simp: run_in_scope_def grantable_def)
  with scope Validate_manifest_ok(5) [OF valid] show ?thesis unfolding in_scope_def by blast
qed

text \<open>
  A skill publishes nothing its user did not approve: over any history of registrations and
  executions, each run of a handler in mode Publish is one that the owner approved, with the token, for
  this tool, these arguments and this resource.
\<close>

theorem skills_publish_approved:
  assumes "x \<in> set (tool_runs (skill_run lower es mcp w))" and "x_mode x = Publish"
  shows "\<exists>e r. STools (TApproval e) \<in> set es \<and> approves e r \<and> a_user r = x_user x \<and> a_tool r = x_name x
    \<and> a_args_hash r = x_args_hash x \<and> a_resource r = x_resource x"
proof -
  obtain tes v where t: "sk_tools (skill_run lower es mcp w) = CoreTools (tool_run tes None v)"
    "\<forall>e. TApproval e \<in> set tes \<longrightarrow> e \<in> owner_events es"
    using skill_run_history [of es lower mcp w] by (auto simp: tools_history_def)
  obtain ops where "tool_inv tes (tool_run tes None v) ops" using tool_run_inv ..
  moreover have "x \<in> set (ts_runs (tool_run tes None v))" using assms(1) by (simp add: tool_runs_def t(1))
  ultimately have "run_allowed tes (tool_run tes None v) x" by (simp add: tool_inv_def)
  then obtain y where "ts_tools (tool_run tes None v) (x_name x) = Some y"
    and "free_run (r_spec y) x \<or> covered_run (r_spec y) x \<and> owner_approved tes (tool_run tes None v) x"
    unfolding run_allowed_def by blast
  then have "owner_approved tes (tool_run tes None v) x" using assms(2) by (auto simp: free_run_def Evaluate_allowed_iff)
  with t(2) show ?thesis unfolding owner_approved_def owner_events_def by blast
qed

text \<open>
  A registered version never changes: once a manifest is registered under an id and a version, every
  later history resolves that id and version to the same manifest, which is valid and has its hash.
\<close>

theorem registered_skill_is_final:
  assumes "Resolve_skill walk i v (skill_run lower es mcp w) = Inr m" and "v \<noteq> []"
  shows "Resolve_skill walk' i v (fold (skills_step lower) fs (skill_run lower es mcp w)) = Inr m
    \<and> m_id m = i \<and> m_version m = v \<and> Validate_manifest lower m no_capabilities = Inr () \<and> VerifyIntegrity m = Inr ()"
proof -
  let ?s = "skill_run lower es mcp w"
  have m: "map_of (versions_of ?s i) v = Some m"
    using assms by (auto simp: Resolve_skill_def Let_def split: if_splits option.splits)
  then have "manifest_at ?s (i, v) = Some m" by (simp add: manifest_at_def)
  then have "manifest_at (fold (skills_step lower) fs ?s) (i, v) = Some m"
    by (rule skills.final_run [OF skill_run_manifests]) simp
  then have "Resolve_skill walk' i v (fold (skills_step lower) fs ?s) = Inr m"
    using assms(2) by (auto simp: Resolve_skill_def manifest_at_def Let_def)
  moreover have "versions_ok lower i (versions_of ?s i)" using skill_run_manifests [of lower es mcp w] by (simp add: manifests_ok_def)
  ultimately show ?thesis using map_of_SomeD [OF m] by (fastforce simp: versions_ok_def)
qed

text \<open>
  Without a version, a skill resolves to its newest one: no registered version of the id compares
  above it, in whatever order the map is walked.
\<close>

theorem Resolve_newest:
  assumes "s = skill_run lower es mcp w" and "Resolve_skill walk i [] s = Inr m" and "\<And>xs. set (walk xs) = set xs"
    and "manifest_at s (i, v) = Some n"
  shows "m_id m = i \<and> compareVersions (m_version m) v \<ge> 0"
proof -
  let ?vs = "versions_of s i" and ?v = "hd (sortedVersions walk (versions_of s i))"
  have m: "map_of ?vs ?v = Some m" using assms(2) by (auto simp: Resolve_skill_def Let_def split: if_splits option.splits)
  have ok: "versions_ok lower i ?vs" unfolding assms(1) using skill_run_manifests [of lower es mcp w] by (simp add: manifests_ok_def)
  have "m_id m = i" "m_version m = ?v" using ok map_of_SomeD [OF m] by (fastforce simp: versions_ok_def)+
  moreover have "v \<in> fst ` set ?vs" using assms(4) map_of_SomeD by (force simp: manifest_at_def)
  ultimately show ?thesis using newest(1) [of walk ?vs v] assms(3) by simp
qed

end
