(* ===== verification/Mcp.thy ===== *)
theory Mcp
  imports McpSchema Skills
begin

text \<open>
  Package \<open>internal/mcpclient\<close>, \<open>client.go\<close>: the manager of MCP servers. What the SDK does (connecting,
  listing tools, calling one, closing), the file system and the clock are arguments that act on or read
  the state \<open>'w\<close> of the world. The manager keeps the registered configurations, the open sessions, the tables of
  approvals and audit; the state also records every call that is sent to a server, with the tool as the
  session discovered it. Contexts that expire are answers of the world: \<open>me_expired\<close> is \<open>ctx.Err()\<close>,
  \<open>me_timed_out\<close> says that the timer of \<open>connect\<close> fired. \<open>me_close\<close> is the error of closing a session, with
  the two that \<open>Reset\<close> forgives (the process has exited, the context was cancelled) already taken for none.
  Operations run one at a time, so the second look at the table in \<open>getSession\<close> never finds a session.
\<close>

section \<open>State\<close>

record mcp_tool =
  mt_name :: string
  mt_schema :: "string option"

record tool_page =
  tp_tools :: "mcp_tool option list"
  tp_cursor :: string

record call_result =
  cr_is_error :: bool
  cr_error :: string
  cr_encoded :: "string option"

datatype launch = Process string "string list" string "string list" | Endpoint string string bool

record 'w mcp_env =
  me_host :: "'w \<Rightarrow> mcp_host"
  me_connect :: "launch \<Rightarrow> 'w \<Rightarrow> (string, nat) result \<times> 'w"
  me_list :: "nat \<Rightarrow> string \<Rightarrow> 'w \<Rightarrow> (string, tool_page) result \<times> 'w"
  me_call :: "nat \<Rightarrow> string \<Rightarrow> any \<Rightarrow> 'w \<Rightarrow> (string, call_result) result \<times> 'w"
  me_close :: "nat \<Rightarrow> 'w \<Rightarrow> string option \<times> 'w"
  me_timed_out :: "'w \<Rightarrow> bool"
  me_expired :: "'w \<Rightarrow> string option"
  me_now :: "'w \<Rightarrow> time"
  me_lower :: "string \<Rightarrow> string"

record mcp_session =
  se_handle :: nat
  se_tools :: "(string \<times> mcp_tool) list"

record 'w mcp_state =
  ms_configs :: "string \<rightharpoonup> server_config"
  ms_sessions :: "(string \<times> mcp_session) list"
  ms_approvals :: bool
  ms_auditing :: bool
  ms_db :: appr_db
  ms_world :: 'w
  ms_sent :: "(mcp_call \<times> mcp_tool) list"

definition NewManager :: "bool \<Rightarrow> bool \<Rightarrow> appr_db \<Rightarrow> 'w \<Rightarrow> 'w mcp_state" where
  "NewManager approvals auditing db w = \<lparr>ms_configs = Map.empty, ms_sessions = [], ms_approvals = approvals, ms_auditing = auditing,
     ms_db = db, ms_world = w, ms_sent = []\<rparr>"

definition Register_server :: "'w mcp_env \<Rightarrow> server_config \<Rightarrow> 'w mcp_state \<Rightarrow> (mcp_error, unit) result \<times> 'w mcp_state" where
  "Register_server env cfg s =
     (case Validate_server (me_host env (ms_world s)) cfg of
        Inl e \<Rightarrow> (Inl e, s)
      | Inr _ \<Rightarrow>
          if ms_configs s (sv_id cfg) \<noteq> None then (Inl (InvalidConfig ''duplicate server id''), s)
          else (Inr (), s\<lparr>ms_configs := (ms_configs s)(sv_id cfg \<mapsto> cfg)\<rparr>))"

text \<open>\<open>record\<close>: an entry in the audit log, if there is a logger.\<close>

definition record_mcp :: "'w mcp_env \<Rightarrow> int \<Rightarrow> string \<Rightarrow> string \<Rightarrow> 'w mcp_state \<Rightarrow> (mcp_error, unit) result \<times> 'w mcp_state" where
  "record_mcp env user resource decision s =
     (if \<not> ms_auditing s then (Inr (), s)
      else (case Append_audit \<lparr>u_seq = 0, u_at = [], u_kind = ''mcp_call'', u_user = user, u_resource = resource, u_decision = decision,
                   u_prev = [], u_hash = []\<rparr> (me_now env (ms_world s)) (audit (ms_db s)) of
              (Inl e, log') \<Rightarrow> (Inl McpAudit, s)
            | (Inr x, log') \<Rightarrow> (Inr (), s\<lparr>ms_db := (ms_db s)\<lparr>audit := log'\<rparr>\<rparr>)))"

section \<open>Sessions\<close>

text \<open>\<open>sort.Strings\<close> on the names of the variables.\<close>

fun insert_variable :: "string \<times> string \<Rightarrow> (string \<times> string) list \<Rightarrow> (string \<times> string) list" where
  "insert_variable v [] = [v]"
| "insert_variable v (x # xs) = (if bytes_le (fst v) (fst x) then v # x # xs else x # insert_variable v xs)"

definition filteredEnvironment :: "stdio_config \<Rightarrow> string list" where
  "filteredEnvironment c =
     [''PATH='' @ Dir (sc_executable c), ''HOME='' @ sc_working_dir c, ''TMPDIR='' @ sc_working_dir c, ''LANG=C.UTF-8'']
     @ map (\<lambda>(k, v). k @ ''='' @ v) (foldr insert_variable (sc_environment c) [])"

text \<open>\<open>pinningRoundTripper\<close>: the identity is the hash of the certificate the server showed.\<close>

definition RoundTrip_pinned :: "string \<Rightarrow> (string, string option) result \<Rightarrow> (string, unit) result" where
  "RoundTrip_pinned identity r =
     (case r of
        Inl e \<Rightarrow> Inl e
      | Inr None \<Rightarrow> Inl ''MCP TLS identity unavailable''
      | Inr (Some certificate) \<Rightarrow> if equal_fold (sha256_hex certificate) identity then Inr () else Inl ''MCP TLS identity mismatch'')"

definition launch_of :: "mcp_host \<Rightarrow> server_config \<Rightarrow> (mcp_error, launch) result" where
  "launch_of h cfg =
     (case sv_transport cfg of
        Stdio \<Rightarrow>
          (case sv_stdio cfg of
             None \<Rightarrow> Inl (InvalidConfig ''stdio'')
           | Some c \<Rightarrow> reject_if (\<not> checksum_matches h c) (InvalidConfig ''executable changed before launch'')
               (Inr (Process (sc_executable c) (sc_arguments c) (sc_working_dir c) (filteredEnvironment c))))
      | StreamableHTTP \<Rightarrow>
          (case sv_http cfg of
             None \<Rightarrow> Inl (InvalidConfig ''http'')
           | Some c \<Rightarrow> Inr (Endpoint (hc_endpoint c) (lower_ascii (hc_identity c)) (hc_disable_sse c)))
      | Transport_Other t \<Rightarrow> Inl (InvalidConfig ''transport''))"

fun check_page ::
  "(string \<Rightarrow> string) \<Rightarrow> string list \<Rightarrow> mcp_tool option list \<Rightarrow> (string \<times> mcp_tool) list \<Rightarrow> (mcp_error, (string \<times> mcp_tool) list) result" where
  "check_page lower allowed [] found = Inr found"
| "check_page lower allowed (None # ts) found = Inl (SchemaRejected ''malformed tool identity'')"
| "check_page lower allowed (Some t # ts) found =
     reject_if (\<not> manifest_id_ok (mt_name t)) (SchemaRejected ''malformed tool identity'')
     (if mt_name t \<notin> set allowed then check_page lower allowed ts found
      else reject_if (mt_name t \<in> fst ` set found) (SchemaRejected ''duplicate tool identity'')
        (and_then (validateToolSchema lower (mt_schema t)) (\<lambda>_. check_page lower allowed ts (found @ [(mt_name t, t)]))))"

definition all_found :: "string list \<Rightarrow> (string \<times> mcp_tool) list \<Rightarrow> (mcp_error, (string \<times> mcp_tool) list) result" where
  "all_found allowed found = reject_if (\<not> set allowed \<subseteq> fst ` set found) ToolDenied (Inr found)"

text \<open>The pages that may still be read; the code reads at most eight.\<close>

fun discover_pages ::
  "'w mcp_env \<Rightarrow> nat \<Rightarrow> string list \<Rightarrow> nat \<Rightarrow> string \<Rightarrow> (string \<times> mcp_tool) list \<Rightarrow> 'w \<Rightarrow> (mcp_error, (string \<times> mcp_tool) list) result \<times> 'w"
where
  "discover_pages env ses allowed 0 cursor found w = (all_found allowed found, w)"
| "discover_pages env ses allowed (Suc pages) cursor found w =
     (case me_list env ses cursor w of
        (Inl e, w') \<Rightarrow> (Inl (McpFailed e), w')
      | (Inr p, w') \<Rightarrow>
          (if length (tp_tools p) > 256 then (Inl (SchemaRejected ''excessive tool list''), w')
           else (case check_page (me_lower env) allowed (tp_tools p) found of
                   Inl e \<Rightarrow> (Inl e, w')
                 | Inr found' \<Rightarrow>
                     if tp_cursor p = [] then (all_found allowed found', w')
                     else if pages = 0 then (Inl (SchemaRejected ''pagination limit''), w')
                     else discover_pages env ses allowed pages (tp_cursor p) found' w')))"

definition discoverAllowedTools :: "'w mcp_env \<Rightarrow> nat \<Rightarrow> string list \<Rightarrow> 'w \<Rightarrow> (mcp_error, (string \<times> mcp_tool) list) result \<times> 'w" where
  "discoverAllowedTools env ses allowed w = discover_pages env ses allowed 8 [] [] w"

definition connect_server :: "'w mcp_env \<Rightarrow> server_config \<Rightarrow> 'w \<Rightarrow> (mcp_error, mcp_session) result \<times> 'w" where
  "connect_server env cfg w =
     (case launch_of (me_host env w) cfg of
        Inl e \<Rightarrow> (Inl e, w)
      | Inr l \<Rightarrow>
          (case me_connect env l w of
             (Inl e, w1) \<Rightarrow> (Inl (McpFailed e), w1)
           | (Inr ses, w1) \<Rightarrow>
               (case discoverAllowedTools env ses (sv_tools cfg) w1 of
                  (r, w2) \<Rightarrow>
                    if me_timed_out env w2 then (Inl (McpFailed ''deadline exceeded''), snd (me_close env ses w2))
                    else (case r of
                            Inl e \<Rightarrow> (Inl e, snd (me_close env ses w2))
                          | Inr ts \<Rightarrow> (Inr \<lparr>se_handle = ses, se_tools = ts\<rparr>, w2)))))"

definition getSession :: "'w mcp_env \<Rightarrow> server_config \<Rightarrow> 'w mcp_state \<Rightarrow> (mcp_error, mcp_session) result \<times> 'w mcp_state" where
  "getSession env cfg s =
     (case me_expired env (ms_world s) of
        Some e \<Rightarrow> (Inl (McpFailed e), s)
      | None \<Rightarrow>
          (case map_of (ms_sessions s) (sv_id cfg) of
             Some ses \<Rightarrow> (Inr ses, s)
           | None \<Rightarrow>
               (case connect_server env cfg (ms_world s) of
                  (Inl e, w) \<Rightarrow> (Inl e, s\<lparr>ms_world := w\<rparr>)
                | (Inr ses, w) \<Rightarrow> (Inr ses, s\<lparr>ms_world := w, ms_sessions := (sv_id cfg, ses) # ms_sessions s\<rparr>))))"

definition Reset :: "'w mcp_env \<Rightarrow> string \<Rightarrow> 'w mcp_state \<Rightarrow> string option \<times> 'w mcp_state" where
  "Reset env i s =
     (let s1 = s\<lparr>ms_sessions := filter (\<lambda>x. fst x \<noteq> i) (ms_sessions s)\<rparr> in
      case map_of (ms_sessions s) i of
        None \<Rightarrow> (None, s1)
      | Some ses \<Rightarrow> (case me_close env (se_handle ses) (ms_world s) of (e, w) \<Rightarrow> (e, s1\<lparr>ms_world := w\<rparr>)))"

fun insert_id :: "string \<Rightarrow> string list \<Rightarrow> string list" where
  "insert_id i [] = [i]"
| "insert_id i (j # js) = (if bytes_le i j then i # j # js else j # insert_id i js)"

definition Close_manager :: "'w mcp_env \<Rightarrow> 'w mcp_state \<Rightarrow> string option list \<times> 'w mcp_state" where
  "Close_manager env s =
     fold (\<lambda>i (es, t). case Reset env i t of (e, t') \<Rightarrow> (es @ [e], t')) (foldr insert_id (map fst (ms_sessions s)) []) ([], s)"

section \<open>Calls\<close>

definition mode_of_call :: "mcp_call \<Rightarrow> mode" where
  "mode_of_call c = (if mc_mode c = Mode_Unset then Read else mc_mode c)"

definition authorize_mcp :: "'w mcp_env \<Rightarrow> server_config \<Rightarrow> mcp_call \<Rightarrow> 'w mcp_state \<Rightarrow> (mcp_error, unit) result \<times> 'w mcp_state" where
  "authorize_mcp env cfg c s =
     (case map_of (sv_policies cfg) (mc_tool c) of
        None \<Rightarrow> (Inl (McpPolicyDenied ''mode denied''), s)
      | Some spec \<Rightarrow>
          (let d = Evaluate spec (mode_of_call c) in
           if d_allowed d then (Inr (), s)
           else if \<not> d_needs_approval d then (Inl (McpPolicyDenied (d_reason d)), s)
           else if mc_token c = [] then (Inl McpApprovalRequired, s)
           else if \<not> ms_approvals s then (Inl (McpPolicyDenied ''approval service unavailable''), s)
           else (case Authorize_request (mc_token c) (mc_user c) (t_name spec) (sha256_hex (mc_arguments c)) (mc_resource c)
                        (me_now env (ms_world s)) (me_now env (ms_world s)) (ms_db s) of
                   (Inl e, db) \<Rightarrow> (Inl (McpPolicyDenied ''approval rejected''), s\<lparr>ms_db := db\<rparr>)
                 | (Inr _, db) \<Rightarrow> (Inr (), s\<lparr>ms_db := db\<rparr>))))"

definition read_result :: "'w mcp_env \<Rightarrow> server_config \<Rightarrow> call_result \<Rightarrow> 'w mcp_state \<Rightarrow> (mcp_error, any) result \<times> 'w mcp_state" where
  "read_result env cfg r s =
     (if cr_is_error r then (Inl (McpFailed (cr_error r)), s)
      else (case cr_encoded r of
              None \<Rightarrow> (Inl (McpFailed ''encoding''), s)
            | Some e \<Rightarrow>
                if int (length e) > sv_output_limit cfg then (Inl OutputLimit, snd (Reset env (sv_id cfg) s))
                else (case unmarshal_any e of None \<Rightarrow> (Inl (McpFailed ''decoding''), s) | Some v \<Rightarrow> (Inr v, s))))"

fun invoke_attempts ::
  "'w mcp_env \<Rightarrow> server_config \<Rightarrow> mcp_call \<Rightarrow> any \<Rightarrow> nat \<Rightarrow> mcp_error \<Rightarrow> 'w mcp_state \<Rightarrow> (mcp_error, any) result \<times> 'w mcp_state" where
  "invoke_attempts env cfg c args 0 err s = (Inl err, snd (record_mcp env (mc_user c) (mc_resource c) ''transport_error'' s))"
| "invoke_attempts env cfg c args (Suc n) err s =
     (case getSession env cfg s of
        (Inl e, s1) \<Rightarrow> invoke_attempts env cfg c args n e (snd (Reset env (sv_id cfg) s1))
      | (Inr ses, s1) \<Rightarrow>
          (case map_of (se_tools ses) (mc_tool c) of
             None \<Rightarrow> (Inl ToolDenied, s1)
           | Some t \<Rightarrow>
               (case me_call env (se_handle ses) (mc_tool c) args (ms_world s1) of
                  (r, w) \<Rightarrow>
                    (let s2 = s1\<lparr>ms_world := w, ms_sent := ms_sent s1 @ [(c, t)]\<rparr> in
                     case r of
                       Inl e \<Rightarrow> invoke_attempts env cfg c args n (McpFailed e) (snd (Reset env (sv_id cfg) s2))
                     | Inr x \<Rightarrow> read_result env cfg x s2))))"

definition decode_arguments :: "string \<Rightarrow> (mcp_error, any) result" where
  "decode_arguments a =
     reject_if (a = [] \<or> length a > 1024 * 1024 \<or> \<not> json_valid a) (McpArguments ''MCP arguments must be bounded JSON'')
     (case parse_document a of
        Some (JObj ms) \<Rightarrow> Inr (decode_any (JObj ms))
      | _ \<Rightarrow> Inl (McpArguments ''MCP arguments must be a JSON object''))"

text \<open>The checks that need no state; on a refusal the decision to record, if any.\<close>

definition check_call :: "server_config \<Rightarrow> mcp_call \<Rightarrow> (mcp_error \<times> string option, any) result" where
  "check_call cfg c =
     reject_if (mc_tool c \<notin> set (sv_tools cfg)) (ToolDenied, Some ''denied_unallowlisted'')
     (reject_if (mc_networks c \<noteq> [] \<and> \<not> set (mc_networks c) \<subseteq> set (sv_networks cfg))
        (McpPolicyDenied ''skill attempted to widen network scope'', Some ''denied_network_scope'')
     (case decode_arguments (mc_arguments c) of Inl e \<Rightarrow> Inl (e, None) | Inr v \<Rightarrow> Inr v))"

definition record_refusal :: "'w mcp_env \<Rightarrow> mcp_call \<Rightarrow> string option \<Rightarrow> 'w mcp_state \<Rightarrow> 'w mcp_state" where
  "record_refusal env c d s = (case d of None \<Rightarrow> s | Some t \<Rightarrow> snd (record_mcp env (mc_user c) (mc_resource c) t s))"

definition InvokeMCP_server :: "'w mcp_env \<Rightarrow> mcp_call \<Rightarrow> 'w mcp_state \<Rightarrow> (mcp_error, any) result \<times> 'w mcp_state" where
  "InvokeMCP_server env c s =
     (case ms_configs s (mc_server c) of
        None \<Rightarrow> (Inl (InvalidConfig ''server not registered''), s)
      | Some cfg \<Rightarrow>
          (case check_call cfg c of
             Inl (e, d) \<Rightarrow> (Inl e, record_refusal env c d s)
           | Inr args \<Rightarrow>
               (case authorize_mcp env cfg c s of
                  (Inl e, s1) \<Rightarrow> (Inl e, record_refusal env c (Some ''denied_policy'') s1)
                | (Inr _, s1) \<Rightarrow>
                    (case record_mcp env (mc_user c) (mc_resource c) ''allowed'' s1 of
                       (Inl e, s2) \<Rightarrow> (Inl e, s2)
                     | (Inr _, s2) \<Rightarrow> invoke_attempts env cfg c args (nat (sv_attempts cfg)) (McpFailed ''MCP invocation failed'') s2))))"

end
