(* ===== verification/McpProofs.thy ===== *)
theory McpProofs
  imports Mcp
begin

text \<open>
  What the manager of MCP servers guarantees over every history of registrations, calls, resets, verdicts
  of the owner and changes of the world: no server is sent a call that its configuration, the policy and the
  owner do not cover, and no call goes out that is not in the audit log.
\<close>

section \<open>What stays\<close>

text \<open>Everything but sessions, world, the calls sent, and entries added to the audit log.\<close>

definition calm_step :: "'w mcp_state \<Rightarrow> 'w mcp_state \<Rightarrow> bool" where
  "calm_step s s' \<longleftrightarrow> ms_configs s' = ms_configs s \<and> ms_auditing s' = ms_auditing s \<and> ms_approvals s' = ms_approvals s
     \<and> requests (ms_db s') = requests (ms_db s) \<and> uses (ms_db s') = uses (ms_db s) \<and> set (audit (ms_db s)) \<subseteq> set (audit (ms_db s'))"

lemma calm_refl [simp]: "calm_step s s"
  by (simp add: calm_step_def)

lemma calm_trans: "calm_step s t \<Longrightarrow> calm_step t u \<Longrightarrow> calm_step s u"
  unfolding calm_step_def by auto

text \<open>Sessions belong to registered servers and hold only tools that were checked.\<close>

definition session_ok :: "('w mcp_env) \<Rightarrow> server_config \<Rightarrow> mcp_session \<Rightarrow> bool" where
  "session_ok env cfg ses \<longleftrightarrow> (\<forall>(n, t) \<in> set (se_tools ses). n \<in> set (sv_tools cfg) \<and> mt_name t = n
     \<and> validateToolSchema (me_lower env) (mt_schema t) = Inr ())"

definition sessions_ok :: "'w mcp_env \<Rightarrow> 'w mcp_state \<Rightarrow> bool" where
  "sessions_ok env s \<longleftrightarrow> (\<forall>(i, ses) \<in> set (ms_sessions s). \<exists>cfg. ms_configs s i = Some cfg \<and> session_ok env cfg ses)"

lemma check_page_ok:
  "check_page lower allowed ts found = Inr found' \<Longrightarrow>
   (\<forall>(n, t) \<in> set found. n \<in> set allowed \<and> mt_name t = n \<and> validateToolSchema lower (mt_schema t) = Inr ()) \<Longrightarrow>
   (\<forall>(n, t) \<in> set found'. n \<in> set allowed \<and> mt_name t = n \<and> validateToolSchema lower (mt_schema t) = Inr ())"
proof (induction lower allowed ts found rule: check_page.induct)
  case (3 lower allowed t ts found)
  then show ?case by (cases "mt_name t \<in> set allowed") (auto simp: and_then_ok)
qed auto

lemma discover_pages_ok:
  "discover_pages env ses allowed k cursor found w = (Inr found', w') \<Longrightarrow>
   (\<forall>(n, t) \<in> set found. n \<in> set allowed \<and> mt_name t = n \<and> validateToolSchema (me_lower env) (mt_schema t) = Inr ()) \<Longrightarrow>
   (\<forall>(n, t) \<in> set found'. n \<in> set allowed \<and> mt_name t = n \<and> validateToolSchema (me_lower env) (mt_schema t) = Inr ())"
proof (induction env ses allowed k cursor found w rule: discover_pages.induct)
  case (2 env ses allowed pages cursor found w)
  obtain p w1 found1 where p: "me_list env ses cursor w = (Inr p, w1)" "check_page (me_lower env) allowed (tp_tools p) found = Inr found1"
    "length (tp_tools p) \<le> 256" using 2(2) by (auto split: prod.splits sum.splits if_splits)
  have f1: "\<forall>(n, t) \<in> set found1. n \<in> set allowed \<and> mt_name t = n \<and> validateToolSchema (me_lower env) (mt_schema t) = Inr ()"
    using check_page_ok [OF p(2) 2(3)] .
  show ?case
  proof (cases "tp_cursor p = []")
    case True
    then have "found' = found1" using 2(2) p by (simp add: all_found_def)
    with f1 show ?thesis by simp
  next
    case False
    then have k: "pages \<noteq> 0" "discover_pages env ses allowed pages (tp_cursor p) found1 w1 = (Inr found', w')"
      using 2(2) p by (simp_all split: if_splits)
    show ?thesis by (rule 2(1) [OF p(1) [symmetric] refl _ p(2) False k(1) k(2) f1]) (use p(3) in simp)
  qed
qed (simp add: all_found_def)

lemma connect_server_ok: "connect_server env cfg w = (Inr ses, w') \<Longrightarrow> session_ok env cfg ses"
  using discover_pages_ok [of env _ "sv_tools cfg" 8 "[]" "[]"]
  by (fastforce simp: connect_server_def discoverAllowedTools_def session_ok_def split: prod.splits sum.splits if_splits)

lemma Reset_calm: "calm_step s (snd (Reset env i s)) \<and> ms_sent (snd (Reset env i s)) = ms_sent s"
  by (simp add: Reset_def Let_def calm_step_def split: option.splits prod.splits)

lemma Reset_sessions: "sessions_ok env s \<Longrightarrow> sessions_ok env (snd (Reset env i s))"
  by (auto simp: Reset_def Let_def sessions_ok_def split: option.splits prod.splits)

lemma getSession_ok:
  assumes "getSession env cfg s = (r, s')" and "sessions_ok env s" and "ms_configs s (sv_id cfg) = Some cfg"
  shows "calm_step s s' \<and> ms_sent s' = ms_sent s \<and> sessions_ok env s' \<and> (\<forall>ses. r = Inr ses \<longrightarrow> session_ok env cfg ses)"
proof (cases "me_expired env (ms_world s)")
  case None
  show ?thesis
  proof (cases "map_of (ms_sessions s) (sv_id cfg)")
    case (Some ses)
    then have "session_ok env cfg ses" using assms(2,3) map_of_SomeD [OF Some] by (fastforce simp: sessions_ok_def)
    with assms None Some show ?thesis by (auto simp: getSession_def)
  next
    case no: None
    obtain q w where q: "connect_server env cfg (ms_world s) = (q, w)" by (cases rule: prod.exhaust)
    show ?thesis
    proof (cases q)
      case (Inr ses)
      with q have "session_ok env cfg ses" by (auto intro: connect_server_ok)
      with assms None no q Inr show ?thesis by (auto simp: getSession_def calm_step_def sessions_ok_def)
    qed (use assms None no q in \<open>auto simp: getSession_def calm_step_def sessions_ok_def\<close>)
  qed
qed (use assms in \<open>auto simp: getSession_def\<close>)

lemma record_mcp_calm: "calm_step s (snd (record_mcp env u r d s)) \<and> ms_sent (snd (record_mcp env u r d s)) = ms_sent s
   \<and> ms_sessions (snd (record_mcp env u r d s)) = ms_sessions s"
  by (auto simp: record_mcp_def calm_step_def Append_audit_def Let_def split: sum.splits prod.splits option.splits if_splits)

lemma calm_sessions: "calm_step s s' \<Longrightarrow> ms_sessions s' = ms_sessions s \<Longrightarrow> sessions_ok env s \<Longrightarrow> sessions_ok env s'"
  by (auto simp: calm_step_def sessions_ok_def)

text \<open>The attempts send the same call, at most as often as they may.\<close>

lemma read_result_calm:
  "calm_step s (snd (read_result env cfg x s)) \<and> ms_sent (snd (read_result env cfg x s)) = ms_sent s
   \<and> (sessions_ok env s \<longrightarrow> sessions_ok env (snd (read_result env cfg x s)))"
  using Reset_calm Reset_sessions by (auto simp: read_result_def split: option.splits)

lemma invoke_attempts_ok:
  assumes "sessions_ok env s" and "ms_configs s (sv_id cfg) = Some cfg"
  shows "\<exists>ts. ms_sent (snd (invoke_attempts env cfg c args n err s)) = ms_sent s @ map (Pair c) ts \<and> length ts \<le> n
    \<and> (\<forall>t \<in> set ts. mt_name t = mc_tool c \<and> validateToolSchema (me_lower env) (mt_schema t) = Inr ())
    \<and> calm_step s (snd (invoke_attempts env cfg c args n err s)) \<and> sessions_ok env (snd (invoke_attempts env cfg c args n err s))"
  using assms
proof (induction n arbitrary: err s)
  case 0
  show ?case using record_mcp_calm [of s env "mc_user c" "mc_resource c" "''transport_error''"] calm_sessions 0(1)
    by (intro exI [of _ "[]"]) auto
next
  case (Suc n)
  obtain r s1 where g: "getSession env cfg s = (r, s1)" by (cases rule: prod.exhaust)
  have s1: "calm_step s s1" "ms_sent s1 = ms_sent s" "sessions_ok env s1" "\<And>ses. r = Inr ses \<Longrightarrow> session_ok env cfg ses"
    using getSession_ok [OF g Suc.prems] by blast+
  show ?case
  proof (cases r)
    case (Inl e)
    let ?s2 = "snd (Reset env (sv_id cfg) s1)"
    have s2: "calm_step s ?s2" "ms_sent ?s2 = ms_sent s" "sessions_ok env ?s2"
      using Reset_calm [of s1 env "sv_id cfg"] Reset_sessions s1 calm_trans by metis+
    then have "ms_configs ?s2 (sv_id cfg) = Some cfg" using Suc.prems(2) by (simp add: calm_step_def)
    from Suc.IH [OF s2(3) this, of e] obtain ts where
      "ms_sent (snd (invoke_attempts env cfg c args n e ?s2)) = ms_sent ?s2 @ map (Pair c) ts" "length ts \<le> n"
      "\<forall>t \<in> set ts. mt_name t = mc_tool c \<and> validateToolSchema (me_lower env) (mt_schema t) = Inr ()"
      "calm_step ?s2 (snd (invoke_attempts env cfg c args n e ?s2))" "sessions_ok env (snd (invoke_attempts env cfg c args n e ?s2))" by blast
    with g Inl s2 show ?thesis by (intro exI [of _ ts]) (auto intro: calm_trans)
  next
    case (Inr ses)
    show ?thesis
    proof (cases "map_of (se_tools ses) (mc_tool c)")
      case None
      with g Inr s1 show ?thesis by (intro exI [of _ "[]"]) simp
    next
      case (Some t)
      have t: "mt_name t = mc_tool c" "validateToolSchema (me_lower env) (mt_schema t) = Inr ()"
        using s1(4) [OF Inr] map_of_SomeD [OF Some] by (auto simp: session_ok_def)
      obtain q w where q: "me_call env (se_handle ses) (mc_tool c) args (ms_world s1) = (q, w)" by (cases rule: prod.exhaust)
      let ?s2 = "s1\<lparr>ms_world := w, ms_sent := ms_sent s1 @ [(c, t)]\<rparr>"
      have s2: "calm_step s ?s2" "sessions_ok env ?s2" using s1 by (auto simp: calm_step_def sessions_ok_def)
      show ?thesis
      proof (cases q)
        case (Inl e)
        let ?s3 = "snd (Reset env (sv_id cfg) ?s2)"
        have s3: "calm_step s ?s3" "ms_sent ?s3 = ms_sent s @ [(c, t)]" "sessions_ok env ?s3"
          using Reset_calm [of ?s2 env "sv_id cfg"] Reset_sessions [OF s2(2)] s2(1) s1(2) calm_trans by auto
        then have "ms_configs ?s3 (sv_id cfg) = Some cfg" using Suc.prems(2) by (simp add: calm_step_def)
        from Suc.IH [OF s3(3) this, of "McpFailed e"] obtain ts where
          "ms_sent (snd (invoke_attempts env cfg c args n (McpFailed e) ?s3)) = ms_sent ?s3 @ map (Pair c) ts" "length ts \<le> n"
          "\<forall>t \<in> set ts. mt_name t = mc_tool c \<and> validateToolSchema (me_lower env) (mt_schema t) = Inr ()"
          "calm_step ?s3 (snd (invoke_attempts env cfg c args n (McpFailed e) ?s3))"
          "sessions_ok env (snd (invoke_attempts env cfg c args n (McpFailed e) ?s3))" by blast
        with g \<open>r = Inr ses\<close> Some q Inl s3 t show ?thesis by (intro exI [of _ "t # ts"]) (auto simp: Let_def intro: calm_trans)
      next
        case (Inr x)
        with g \<open>r = Inr ses\<close> Some q s2 t s1(2) read_result_calm [of ?s2 env cfg x] show ?thesis
          by (intro exI [of _ "[t]"]) (auto simp: Let_def intro: calm_trans)
      qed
    qed
  qed
qed

section \<open>Histories\<close>

text \<open>
  A history mixes registrations, calls, resets, the operations on approvals of other parts of the program
  (the verdicts of the owner among them), and whatever happens in the world.
\<close>

datatype 'w mcp_event =
    McpRegister server_config
  | McpInvoke mcp_call
  | McpReset string
  | McpApproval appr_op
  | McpWorld 'w

fun mcp_step :: "'w mcp_env \<Rightarrow> 'w mcp_event \<Rightarrow> 'w mcp_state \<Rightarrow> 'w mcp_state" where
  "mcp_step env (McpRegister cfg) s = snd (Register_server env cfg s)"
| "mcp_step env (McpInvoke c) s = snd (InvokeMCP_server env c s)"
| "mcp_step env (McpReset i) s = snd (Reset env i s)"
| "mcp_step env (McpApproval e) s = s\<lparr>ms_db := appr_step e (ms_db s)\<rparr>"
| "mcp_step env (McpWorld w) s = s\<lparr>ms_world := w\<rparr>"

definition mcp_run :: "'w mcp_env \<Rightarrow> 'w mcp_event list \<Rightarrow> bool \<Rightarrow> bool \<Rightarrow> 'w \<Rightarrow> 'w mcp_state" where
  "mcp_run env es approvals auditing w = fold (mcp_step env) es (NewManager approvals auditing no_approvals w)"

text \<open>A row of the table, named by the token of the call, is for this call and was approved.\<close>

definition owner_allows :: "appr_op set \<Rightarrow> appr_db \<Rightarrow> mcp_call \<Rightarrow> string \<Rightarrow> bool" where
  "owner_allows verdicts db c name \<longleftrightarrow> (\<exists>e \<in> verdicts. \<exists>r \<in> set (requests db). a_state r = AApproved \<and> a_token_hash r = token_hash (mc_token c)
     \<and> approves e r \<and> a_user r = mc_user c \<and> a_tool r = name
     \<and> a_args_hash r = sha256_hex (mc_arguments c) \<and> a_resource r = mc_resource c)"

text \<open>A call that its server's configuration, the policy and, where it asks for one, an approval cover.\<close>

definition call_covered :: "appr_op set \<Rightarrow> appr_db \<Rightarrow> server_config \<Rightarrow> mcp_call \<Rightarrow> bool" where
  "call_covered verdicts db cfg c \<longleftrightarrow> mc_tool c \<in> set (sv_tools cfg) \<and> set (mc_networks c) \<subseteq> set (sv_networks cfg)
     \<and> (\<exists>spec. map_of (sv_policies cfg) (mc_tool c) = Some spec
          \<and> (d_allowed (Evaluate spec (mode_of_call c))
             \<or> d_needs_approval (Evaluate spec (mode_of_call c)) \<and> owner_allows verdicts db c (t_name spec)))"

definition call_audited :: "audit_row set \<Rightarrow> mcp_call \<Rightarrow> bool" where
  "call_audited trail c \<longleftrightarrow> (\<exists>x \<in> trail. u_kind (u_entry x) = ''mcp_call'' \<and> u_decision (u_entry x) = ''allowed''
     \<and> u_user (u_entry x) = mc_user c \<and> u_resource (u_entry x) = mc_resource c)"

definition approvals_known :: "appr_op set \<Rightarrow> appr_db \<Rightarrow> bool" where
  "approvals_known verdicts db \<longleftrightarrow> appr_inv db \<and> (\<forall>r \<in> set (requests db). a_state r = AApproved \<longrightarrow> (\<exists>e \<in> verdicts. approves e r))"

definition configs_ok :: "'w mcp_state \<Rightarrow> bool" where
  "configs_ok s \<longleftrightarrow> (\<forall>i cfg. ms_configs s i = Some cfg \<longrightarrow> sv_id cfg = i \<and> (\<exists>h. Validate_server h cfg = Inr ()))"

definition sent_ok :: "'w mcp_env \<Rightarrow> appr_op set \<Rightarrow> 'w mcp_state \<Rightarrow> bool" where
  "sent_ok env verdicts s \<longleftrightarrow> (\<forall>(c, t) \<in> set (ms_sent s). (\<exists>cfg. ms_configs s (mc_server c) = Some cfg \<and> call_covered verdicts (ms_db s) cfg c)
     \<and> (ms_auditing s \<longrightarrow> call_audited (set (audit (ms_db s))) c)
     \<and> mt_name t = mc_tool c \<and> validateToolSchema (me_lower env) (mt_schema t) = Inr ())"

definition mcp_inv :: "'w mcp_env \<Rightarrow> appr_op set \<Rightarrow> 'w mcp_state \<Rightarrow> bool" where
  "mcp_inv env verdicts s \<longleftrightarrow> approvals_known verdicts (ms_db s) \<and> configs_ok s \<and> sessions_ok env s \<and> sent_ok env verdicts s"

lemma approvals_known_effect:
  assumes "approvals_known vs db" and "appr_effect e db db'"
  shows "approvals_known (insert e vs) db'"
proof -
  have inv: "appr_inv db" and known: "\<And>r. r \<in> set (requests db) \<Longrightarrow> a_state r = AApproved \<Longrightarrow> \<exists>e \<in> vs. approves e r"
    using assms(1) by (simp_all add: approvals_known_def)
  have "\<exists>d \<in> insert e vs. approves d r" if r: "r \<in> set (requests db')" "a_state r = AApproved" for r
    using assms(2)
  proof cases
    case (settled q f st)
    from r(1) have "r \<in> set (update_where (\<lambda>x. a_id x = a_id q) f (requests db))" by (simp add: settled(1))
    then show ?thesis
    proof (cases rule: update_whereE)
      case (changed q0)
      then have "q0 = q" using same_request [OF inv _ settled(3)] by simp
      moreover have "st = AApproved" using changed r(2) settled(5) by (simp add: settling_def)
      ultimately show ?thesis using changed settled(5,6) approves_settling by auto
    qed (use known r in auto)
  qed (use known r in auto)
  with appr_effect_keeps [OF inv assms(2)] show ?thesis by (simp add: approvals_known_def)
qed

lemma approvals_known_mono: "approvals_known vs db \<Longrightarrow> vs \<subseteq> ws \<Longrightarrow> approvals_known ws db"
  unfolding approvals_known_def by blast

lemma approvals_known_same: "approvals_known vs db \<Longrightarrow> requests db' = requests db \<Longrightarrow> uses db' = uses db \<Longrightarrow> approvals_known vs db'"
  by (simp add: approvals_known_def appr_inv_def)

lemma owner_allows_mono: "owner_allows vs db c n \<Longrightarrow> vs \<subseteq> ws \<Longrightarrow> approvals_stay db db' \<Longrightarrow> owner_allows ws db' c n"
  unfolding owner_allows_def approvals_stay_def by blast

lemma call_covered_mono: "call_covered vs db cfg c \<Longrightarrow> vs \<subseteq> ws \<Longrightarrow> approvals_stay db db' \<Longrightarrow> call_covered ws db' cfg c"
  unfolding call_covered_def using owner_allows_mono by blast

lemma stay_same: "requests db' = requests db \<Longrightarrow> approvals_stay db db'"
  by (simp add: approvals_stay_def)

text \<open>One call that was sent, with the tool it was sent to.\<close>

lemma sent_okD:
  assumes "sent_ok env vs s" and "(c, t) \<in> set (ms_sent s)"
  obtains cfg where "ms_configs s (mc_server c) = Some cfg" and "call_covered vs (ms_db s) cfg c"
    and "ms_auditing s \<longrightarrow> call_audited (set (audit (ms_db s))) c"
    and "mt_name t = mc_tool c" and "validateToolSchema (me_lower env) (mt_schema t) = Inr ()"
  using bspec [OF assms(1) [unfolded sent_ok_def] assms(2)] that by (simp only: prod.case) metis

lemma call_audited_mono: "call_audited xs c \<Longrightarrow> xs \<subseteq> ys \<Longrightarrow> call_audited ys c"
  unfolding call_audited_def by blast

lemma sent_ok_mono:
  assumes "sent_ok env vs s" and "vs \<subseteq> ws" and "ms_sent s' = ms_sent s" and "ms_auditing s' = ms_auditing s"
    and "\<And>i cfg. ms_configs s i = Some cfg \<Longrightarrow> ms_configs s' i = Some cfg" and "set (audit (ms_db s)) \<subseteq> set (audit (ms_db s'))"
    and "approvals_stay (ms_db s) (ms_db s')"
  shows "sent_ok env ws s'"
proof -
  have "(\<exists>cfg. ms_configs s' (mc_server c) = Some cfg \<and> call_covered ws (ms_db s') cfg c)
     \<and> (ms_auditing s' \<longrightarrow> call_audited (set (audit (ms_db s'))) c)
     \<and> mt_name t = mc_tool c \<and> validateToolSchema (me_lower env) (mt_schema t) = Inr ()"
    if sent: "(c, t) \<in> set (ms_sent s)" for c t
  proof -
    obtain cfg where cfg: "ms_configs s (mc_server c) = Some cfg" "call_covered vs (ms_db s) cfg c"
      and log: "ms_auditing s \<longrightarrow> call_audited (set (audit (ms_db s))) c"
      and t: "mt_name t = mc_tool c" "validateToolSchema (me_lower env) (mt_schema t) = Inr ()"
      by (rule sent_okD [OF assms(1) sent])
    have "ms_configs s' (mc_server c) = Some cfg" by (rule assms(5)) (rule cfg(1))
    moreover have "call_covered ws (ms_db s') cfg c" by (rule call_covered_mono [OF cfg(2) assms(2,7)])
    moreover have "call_audited (set (audit (ms_db s'))) c" if "ms_auditing s'"
      using log that assms(4) call_audited_mono [OF _ assms(6)] by simp
    ultimately show ?thesis using t by blast
  qed
  then show ?thesis unfolding sent_ok_def assms(3) Ball_def split_paired_All prod.case by (intro allI impI)
qed

lemma Append_audit_grows: "set rows \<subseteq> set (snd (Append_audit e now rows))"
  by (auto simp: Append_audit_def Let_def split: option.splits prod.splits)

lemma log_event_grows: "set (audit db) \<subseteq> set (audit (log_event k u r d now db))"
  using Append_audit_grows by (simp add: log_event_def)

lemma appr_step_audit: "set (audit db) \<subseteq> set (audit (appr_step e db))"
proof -
  have resolve: "set (audit db) \<subseteq> set (audit (snd (Resolve_request tok u t a r d n1 n2 n3 db)))" for tok u t a r d n1 n2 n3
    using log_event_grows [of "db\<lparr>requests := x\<rparr>" for x]
    by (auto simp: Resolve_request_def Let_def split: option.splits)
  show ?thesis
  proof (cases e)
    case (OpRequest b u t a r ttl n1 n2 n3)
    then show ?thesis using log_event_grows [of "db\<lparr>requests := x\<rparr>" for x] by (auto simp: Create_request_def Let_def)
  next
    case (OpResolve tok u t a r d n1 n2 n3)
    with resolve show ?thesis by simp
  next
    case (OpResolveToken tok u d n1 n2 n3)
    with resolve show ?thesis by (auto simp: ResolveToken_def split: option.splits)
  next
    case (OpRedeem tok u t a r n1 n2)
    then show ?thesis by (auto simp: AuthorizeReceipt_def split: option.splits)
  qed
qed

lemma approvals_step:
  assumes "mcp_inv env vs s" and "appr_effect e (ms_db s) db" and "set (audit (ms_db s)) \<subseteq> set (audit db)"
  shows "mcp_inv env (insert e vs) (s\<lparr>ms_db := db\<rparr>)"
  using assms approvals_known_effect [of vs "ms_db s" e db] appr_effect_stays [of "ms_db s" e db] sent_ok_mono [of env vs s "insert e vs" "s\<lparr>ms_db := db\<rparr>"]
  by (auto simp: mcp_inv_def configs_ok_def sessions_ok_def approvals_known_def)

lemma calm_inv:
  assumes "mcp_inv env vs s" and "calm_step s s'" and "ms_sent s' = ms_sent s" and "sessions_ok env s'" and "vs \<subseteq> ws"
  shows "mcp_inv env ws s'"
  using assms approvals_known_mono [OF approvals_known_same [of vs "ms_db s" "ms_db s'"]] sent_ok_mono [of env vs s ws s'] stay_same [of "ms_db s'" "ms_db s"]
  by (auto simp: mcp_inv_def configs_ok_def calm_step_def)

section \<open>One step\<close>

lemma mcp_invD:
  assumes "mcp_inv env vs s"
  shows "approvals_known vs (ms_db s)" and "configs_ok s" and "sessions_ok env s" and "sent_ok env vs s"
  using assms by (simp_all only: mcp_inv_def)

lemma Register_server_inv:
  assumes "mcp_inv env vs s"
  shows "mcp_inv env vs (snd (Register_server env cfg s))"
proof (cases "Validate_server (me_host env (ms_world s)) cfg = Inr () \<and> ms_configs s (sv_id cfg) = None")
  case True
  note inv = mcp_invD [OF assms]
  let ?s' = "s\<lparr>ms_configs := (ms_configs s)(sv_id cfg \<mapsto> cfg)\<rparr>"
  have grow: "ms_configs ?s' i = Some c" if "ms_configs s i = Some c" for i c using that True by auto
  have "\<exists>cfg'. ms_configs ?s' i = Some cfg' \<and> session_ok env cfg' ses" if opened: "(i, ses) \<in> set (ms_sessions s)" for i ses
    using bspec [OF inv(3) [unfolded sessions_ok_def] opened] grow by (simp only: prod.case) blast
  then have ses: "sessions_ok env ?s'" by (simp add: sessions_ok_def case_prod_unfold)
  have snt: "sent_ok env vs ?s'" by (rule sent_ok_mono [OF inv(4) subset_refl _ _ grow]) simp_all
  have cfgs: "configs_ok ?s'" using inv(2) True by (auto simp: configs_ok_def)
  have "snd (Register_server env cfg s) = ?s'" using True by (simp add: Register_server_def)
  with inv(1) ses snt cfgs show ?thesis by (simp add: mcp_inv_def)
next
  case False
  then have "snd (Register_server env cfg s) = s" by (auto simp: Register_server_def split: sum.splits)
  with assms show ?thesis by simp
qed

lemma Reset_inv: "mcp_inv env vs s \<Longrightarrow> mcp_inv env vs (snd (Reset env i s))"
  by (rule calm_inv [OF _ conjunct1 [OF Reset_calm] conjunct2 [OF Reset_calm] Reset_sessions [OF mcp_invD(3)] subset_refl])

lemma record_inv:
  assumes "mcp_inv env vs s"
  shows "mcp_inv env vs (snd (record_mcp env u r d s))"
proof -
  note calm = record_mcp_calm [of s env u r d]
  have "sessions_ok env (snd (record_mcp env u r d s))"
    by (rule calm_sessions [OF conjunct1 [OF calm] _ mcp_invD(3) [OF assms]]) (simp add: calm)
  with calm show ?thesis by (intro calm_inv [OF assms _ _ _ subset_refl]) simp_all
qed

lemma record_refusal_sent [simp]: "ms_sent (record_refusal env c d s) = ms_sent s"
  by (simp add: record_refusal_def record_mcp_calm split: option.split)

lemma record_refusal_inv: "mcp_inv env vs s \<Longrightarrow> mcp_inv env vs (record_refusal env c d s)"
  by (auto simp: record_refusal_def record_inv split: option.split)

lemma record_allowed:
  assumes "record_mcp env (mc_user c) (mc_resource c) ''allowed'' s = (Inr (), s')" and "ms_auditing s"
  shows "call_audited (set (audit (ms_db s'))) c"
  using assms by (auto simp: record_mcp_def Append_audit_def Let_def call_audited_def split: sum.splits prod.splits option.splits if_splits)

definition redeeming :: "'w mcp_env \<Rightarrow> mcp_call \<Rightarrow> string \<Rightarrow> 'w mcp_state \<Rightarrow> appr_op" where
  "redeeming env c name s = OpRedeem (mc_token c) (mc_user c) name (sha256_hex (mc_arguments c)) (mc_resource c)
     (me_now env (ms_world s)) (me_now env (ms_world s))"

lemma authorize_ok:
  assumes inv: "mcp_inv env vs s" and "\<And>name. redeeming env c name s \<in> vs" and auth: "authorize_mcp env cfg c s = (r, s1)"
  shows "mcp_inv env vs s1 \<and> ms_configs s1 = ms_configs s \<and> ms_sent s1 = ms_sent s \<and> ms_auditing s1 = ms_auditing s
    \<and> (r = Inr () \<longrightarrow> (\<exists>spec. map_of (sv_policies cfg) (mc_tool c) = Some spec \<and> (d_allowed (Evaluate spec (mode_of_call c))
          \<or> d_needs_approval (Evaluate spec (mode_of_call c)) \<and> owner_allows vs (ms_db s1) c (t_name spec))))"
proof (cases "\<exists>spec. map_of (sv_policies cfg) (mc_tool c) = Some spec \<and> \<not> d_allowed (Evaluate spec (mode_of_call c))
    \<and> d_needs_approval (Evaluate spec (mode_of_call c)) \<and> mc_token c \<noteq> [] \<and> ms_approvals s")
  case True
  then obtain spec where spec: "map_of (sv_policies cfg) (mc_tool c) = Some spec" "\<not> d_allowed (Evaluate spec (mode_of_call c))"
    "d_needs_approval (Evaluate spec (mode_of_call c))" "mc_token c \<noteq> []" "ms_approvals s" by blast
  let ?op = "redeeming env c (t_name spec) s"
  obtain q db where q: "AuthorizeReceipt (mc_token c) (mc_user c) (t_name spec) (sha256_hex (mc_arguments c)) (mc_resource c)
      (me_now env (ms_world s)) (me_now env (ms_world s)) (ms_db s) = (q, db)" by (cases rule: prod.exhaust)
  then have db: "db = appr_step ?op (ms_db s)" by (simp add: redeeming_def)
  have "mcp_inv env (insert ?op vs) (s\<lparr>ms_db := db\<rparr>)"
    using approvals_step [OF inv, of ?op db] appr_step_effect [of "ms_db s" ?op] appr_step_audit [of "ms_db s" ?op] inv
    by (simp add: db mcp_inv_def approvals_known_def)
  then have inv1: "mcp_inv env vs (s\<lparr>ms_db := db\<rparr>)" using assms(2) by (simp add: insert_absorb)
  have s1: "s1 = s\<lparr>ms_db := db\<rparr>" and r: "r = Inr () \<longleftrightarrow> is_ok q"
    using auth spec q by (auto simp: authorize_mcp_def Let_def Authorize_request_def split: sum.splits)
  have "owner_allows vs db c (t_name spec)" if "is_ok q"
  proof -
    obtain x where x: "by_token (mc_token c) (ms_db s) = Some x" "a_state x = AApproved" "a_user x = mc_user c" "a_tool x = t_name spec"
      "a_args_hash x = sha256_hex (mc_arguments c)" "a_resource x = mc_resource c" "requests db = requests (ms_db s)"
      using q \<open>is_ok q\<close> by (auto simp: AuthorizeReceipt_def split: option.splits if_splits)
    then show ?thesis using inv by_tokenD [OF x(1)] by (fastforce simp: mcp_inv_def approvals_known_def owner_allows_def)
  qed
  with inv1 spec s1 r show ?thesis by auto
next
  case False
  then have "s1 = s" "r = Inr () \<Longrightarrow> \<exists>spec. map_of (sv_policies cfg) (mc_tool c) = Some spec \<and> d_allowed (Evaluate spec (mode_of_call c))"
    using auth by (auto simp: authorize_mcp_def Let_def split: option.splits if_splits)
  with inv show ?thesis by blast
qed

lemma InvokeMCP_server_inv:
  assumes inv: "mcp_inv env vs s" and ops: "\<And>name. redeeming env c name s \<in> vs"
  shows "mcp_inv env vs (snd (InvokeMCP_server env c s)) \<and>
    (\<exists>ts. ms_sent (snd (InvokeMCP_server env c s)) = ms_sent s @ map (Pair c) ts \<and> length ts \<le> 2)"
proof (cases "ms_configs s (mc_server c)")
  case (Some cfg)
  have cfg: "sv_id cfg = mc_server c" "sv_attempts cfg \<le> 2"
    using inv Some Validate_server_ok(2) by (fastforce simp: mcp_inv_def configs_ok_def)+
  show ?thesis
  proof (cases "check_call cfg c")
    case (Inl ed)
    obtain e d where ed: "ed = (e, d)" by (cases ed)
    then have "snd (InvokeMCP_server env c s) = record_refusal env c d s" using Some Inl by (simp add: InvokeMCP_server_def)
    then show ?thesis using record_refusal_inv [OF inv] by (simp add: exI [of _ "[]"])
  next
    case (Inr args)
    then have checked: "mc_tool c \<in> set (sv_tools cfg)" "set (mc_networks c) \<subseteq> set (sv_networks cfg)" by (auto simp: check_call_def)
    obtain r s1 where auth: "authorize_mcp env cfg c s = (r, s1)" by (cases rule: prod.exhaust)
    note s1 = authorize_ok [OF inv ops auth]
    show ?thesis
    proof (cases r)
      case (Inl e)
      then have "snd (InvokeMCP_server env c s) = record_refusal env c (Some ''denied_policy'') s1"
        using Some \<open>check_call cfg c = Inr args\<close> auth by (simp add: InvokeMCP_server_def)
      then show ?thesis using record_refusal_inv [OF conjunct1 [OF s1]] s1 by (simp add: exI [of _ "[]"])
    next
      case ok: (Inr u)
      obtain q s2 where rec: "record_mcp env (mc_user c) (mc_resource c) ''allowed'' s1 = (q, s2)" by (cases rule: prod.exhaust)
      have s2: "mcp_inv env vs s2" "calm_step s1 s2" "ms_sent s2 = ms_sent s" "ms_configs s2 = ms_configs s"
        using record_inv [of env vs s1 "mc_user c" "mc_resource c" "''allowed''"] record_mcp_calm [of s1 env "mc_user c" "mc_resource c" "''allowed''"]
          rec s1 by (auto simp: calm_step_def)
      show ?thesis
      proof (cases q)
        case (Inl e)
        then show ?thesis using Some \<open>check_call cfg c = Inr args\<close> auth ok rec s2 by (auto simp: InvokeMCP_server_def intro!: exI [of _ "[]"])
      next
        case (Inr v)
        let ?s3 = "snd (invoke_attempts env cfg c args (nat (sv_attempts cfg)) (McpFailed ''MCP invocation failed'') s2)"
        have step: "snd (InvokeMCP_server env c s) = ?s3"
          using Some \<open>check_call cfg c = Inr args\<close> auth ok rec Inr by (simp add: InvokeMCP_server_def)
        have cov1: "call_covered vs (ms_db s1) cfg c" using checked s1 ok by (simp add: call_covered_def)
        have aud: "ms_auditing s2 \<longrightarrow> call_audited (set (audit (ms_db s2))) c"
          using record_allowed [OF rec [unfolded Inr, simplified]] s2(2) by (auto simp: calm_step_def)
        have "ms_configs s2 (sv_id cfg) = Some cfg" using Some cfg s2(4) by simp
        then obtain ts where ts: "ms_sent ?s3 = ms_sent s2 @ map (Pair c) ts" "length ts \<le> nat (sv_attempts cfg)"
          "\<forall>t \<in> set ts. mt_name t = mc_tool c \<and> validateToolSchema (me_lower env) (mt_schema t) = Inr ()" "calm_step s2 ?s3" "sessions_ok env ?s3"
          using invoke_attempts_ok [of env s2 cfg c args "nat (sv_attempts cfg)" "McpFailed ''MCP invocation failed''"] s2(1)
          unfolding mcp_inv_def by blast
        have old: "mcp_inv env vs (?s3\<lparr>ms_sent := ms_sent s2\<rparr>)"
          by (rule calm_inv [OF s2(1)]) (use ts(4,5) in \<open>auto simp: calm_step_def sessions_ok_def\<close>)
        have cov: "call_covered vs (ms_db ?s3) cfg c"
          by (rule call_covered_mono [OF cov1 subset_refl stay_same]) (use s2(2) ts(4) in \<open>simp add: calm_step_def\<close>)
        have new: "ms_configs ?s3 (mc_server c) = Some cfg" "ms_auditing ?s3 \<longrightarrow> call_audited (set (audit (ms_db ?s3))) c"
          using ts(4) Some s2(4) aud call_audited_mono by (auto simp: calm_step_def)
        have "sent_ok env vs ?s3"
          using old new cov ts(1,3) unfolding mcp_inv_def sent_ok_def by auto
        with old ts(5) have "mcp_inv env vs ?s3" by (simp add: mcp_inv_def configs_ok_def)
        moreover have "length ts \<le> 2" using ts(2) cfg(2) by simp
        ultimately show ?thesis using ts(1) s2(3) unfolding step by auto
      qed
    qed
  qed
qed (use inv in \<open>auto simp: InvokeMCP_server_def intro!: exI [of _ "[]"]\<close>)

section \<open>Every history\<close>

lemma mcp_run_simps [simp]:
  "mcp_run env [] approvals auditing w = NewManager approvals auditing no_approvals w"
  "mcp_run env (es @ [e]) approvals auditing w = mcp_step env e (mcp_run env es approvals auditing w)"
  by (simp_all add: mcp_run_def)

text \<open>The operations on approvals so far, and those that approve nothing anyway.\<close>

definition verdicts_of :: "'w mcp_event list \<Rightarrow> appr_op set" where
  "verdicts_of es = {e. McpApproval e \<in> set es \<or> (\<forall>r. \<not> approves e r)}"

lemma verdicts_grow: "verdicts_of es \<subseteq> verdicts_of (es @ [e])"
  by (auto simp: verdicts_of_def)

lemma redeeming_free: "redeeming env c name s \<in> verdicts_of es"
  by (simp add: verdicts_of_def redeeming_def)

lemma mcp_inv_mono: "mcp_inv env vs s \<Longrightarrow> vs \<subseteq> ws \<Longrightarrow> mcp_inv env ws s"
  by (rule calm_inv [OF _ calm_refl refl mcp_invD(3)])

lemma mcp_inv_new: "mcp_inv env vs (NewManager approvals auditing no_approvals w)"
  using appr_inv_empty
  by (simp add: mcp_inv_def NewManager_def approvals_known_def configs_ok_def sessions_ok_def sent_ok_def no_approvals_def)

lemma mcp_step_sent:
  assumes "mcp_inv env (verdicts_of es) s"
  shows "count_list (map fst (ms_sent (mcp_step env e s))) c \<le> count_list (map fst (ms_sent s)) c + (if e = McpInvoke c then 2 else 0)"
proof (cases e)
  case (McpInvoke d)
  obtain ts where "ms_sent (snd (InvokeMCP_server env d s)) = ms_sent s @ map (Pair d) ts" "length ts \<le> 2"
    using InvokeMCP_server_inv [OF assms redeeming_free] by blast
  moreover have "count_list (map (\<lambda>x. d) ts) c \<le> (if d = c then length ts else 0)" by (induction ts) auto
  ultimately show ?thesis using McpInvoke by (auto simp: comp_def)
next
  case (McpRegister cfg)
  then show ?thesis by (auto simp: Register_server_def split: sum.splits)
qed (simp_all add: Reset_calm)

lemma mcp_run_inv: "mcp_inv env (verdicts_of es) (mcp_run env es approvals auditing w)"
proof (induction es rule: rev_induct)
  case Nil
  then show ?case by (simp add: mcp_inv_new)
next
  case (snoc e es)
  let ?s = "mcp_run env es approvals auditing w"
  note grown = mcp_inv_mono [OF snoc.IH verdicts_grow [of es e]]
  show ?case
  proof (cases e)
    case (McpApproval a)
    have db: "appr_inv (ms_db ?s)" using mcp_invD(1) [OF snoc.IH] by (simp add: approvals_known_def)
    have "a \<in> verdicts_of (es @ [e])" using McpApproval by (simp add: verdicts_of_def)
    then have absorb: "insert a (verdicts_of (es @ [e])) = verdicts_of (es @ [e])" by (rule insert_absorb)
    have "mcp_inv env (verdicts_of (es @ [e])) (?s\<lparr>ms_db := appr_step a (ms_db ?s)\<rparr>)"
      using approvals_step [OF grown appr_step_effect [OF db] appr_step_audit, of a] unfolding absorb .
    with McpApproval show ?thesis by simp
  next
    case (McpWorld x)
    have "mcp_inv env (verdicts_of (es @ [e])) (?s\<lparr>ms_world := x\<rparr>)"
      by (rule calm_inv [OF grown _ _ _ subset_refl])
        (use mcp_invD(3) [OF grown] in \<open>simp_all add: calm_step_def sessions_ok_def\<close>)
    with McpWorld show ?thesis by simp
  qed (use grown Register_server_inv Reset_inv conjunct1 [OF InvokeMCP_server_inv [OF grown redeeming_free]] in simp_all)
qed

lemma mcp_run_count: "count_list (map fst (ms_sent (mcp_run env es approvals auditing w))) c \<le> 2 * count_list es (McpInvoke c)"
proof (induction es rule: rev_induct)
  case Nil
  then show ?case by (simp add: NewManager_def)
next
  case (snoc e es)
  with mcp_step_sent [OF mcp_run_inv [of env es approvals auditing w], of e c] show ?case by (auto split: if_splits)
qed

lemma record_mcp_auditing: "record_mcp env u r d s = (x, s') \<Longrightarrow> ms_auditing s' = ms_auditing s"
  using record_mcp_calm [of s env u r d] by (simp add: calm_step_def)

lemma keeps_auditing [simp]:
  "ms_auditing (snd (record_mcp env u r d s)) = ms_auditing s" "ms_auditing (snd (Reset env i s)) = ms_auditing s"
  using record_mcp_calm [of s env u r d] Reset_calm [of s env i] by (simp_all add: calm_step_def)

lemma invoke_attempts_auditing:
  "ms_auditing (snd (invoke_attempts env cfg c args n err s)) = ms_auditing s"
proof (induction n arbitrary: err s)
  case 0
  show ?case by simp
next
  case (Suc n)
  have read: "ms_auditing (snd (read_result env cfg y x)) = ms_auditing x" for y x
    using read_result_calm [of x env cfg y] by (simp add: calm_step_def)
  have get: "ms_auditing (snd (getSession env cfg s)) = ms_auditing s"
    by (simp add: getSession_def split: option.split sum.split prod.split)
  with Suc show ?case by (auto simp: read Let_def split: prod.splits sum.splits option.splits)
qed

lemma authorize_auditing: "authorize_mcp env cfg c s = (r, s') \<Longrightarrow> ms_auditing s' = ms_auditing s"
  by (auto simp: authorize_mcp_def Let_def split: option.splits if_splits sum.splits prod.splits)

lemma mcp_step_auditing: "ms_auditing (mcp_step env e s) = ms_auditing s"
proof (cases e)
  case (McpInvoke c)
  have "ms_auditing (record_refusal env c d x) = ms_auditing x" for d x
    by (simp add: record_refusal_def split: option.split)
  then show ?thesis unfolding McpInvoke
    by (auto simp: InvokeMCP_server_def invoke_attempts_auditing split: option.splits sum.splits prod.splits
        dest!: authorize_auditing record_mcp_auditing)
next
  case (McpRegister cfg)
  then show ?thesis by (auto simp: Register_server_def split: sum.splits)
qed simp_all

lemma mcp_run_auditing: "ms_auditing (mcp_run env es approvals auditing w) = auditing"
  by (induction es rule: rev_induct) (simp_all add: mcp_step_auditing NewManager_def)

text \<open>
  C10: Over every history of registrations, calls, resets, operations on approvals and changes of the
  world, a call that was sent to an MCP server names a registered, valid configuration; its tool is on the
  allowlist of that configuration and was discovered with a schema within the bounds; it asks for no
  network outside the configured ones; the policy of the tool allows its mode, or asks for an approval: then the
  approvals table has a row with the token of the call, for the calling user, this very tool, resource and hash of the arguments, and that
  row was approved in the history, by that user, before it expired; if
  there is an audit log, the log has its entry; and it was sent at most twice for each time it was invoked.
\<close>

theorem mcp_calls_covered:
  assumes "s = mcp_run env es approvals auditing w" and "(c, t) \<in> set (ms_sent s)"
  shows "(\<exists>cfg h spec. ms_configs s (mc_server c) = Some cfg \<and> Validate_server h cfg = Inr ()
       \<and> mc_tool c \<in> set (sv_tools cfg) \<and> set (mc_networks c) \<subseteq> set (sv_networks cfg)
       \<and> map_of (sv_policies cfg) (mc_tool c) = Some spec
       \<and> (d_allowed (Evaluate spec (mode_of_call c))
          \<or> d_needs_approval (Evaluate spec (mode_of_call c))
            \<and> (\<exists>e. \<exists>r \<in> set (requests (ms_db s)). McpApproval e \<in> set es \<and> approves e r \<and> a_state r = AApproved
                 \<and> a_token_hash r = token_hash (mc_token c) \<and> a_user r = mc_user c \<and> a_tool r = t_name spec
                 \<and> a_args_hash r = sha256_hex (mc_arguments c) \<and> a_resource r = mc_resource c)))
    \<and> mt_name t = mc_tool c \<and> validateToolSchema (me_lower env) (mt_schema t) = Inr ()
    \<and> (auditing \<longrightarrow> call_audited (set (audit (ms_db s))) c)
    \<and> count_list (map fst (ms_sent s)) c \<le> 2 * count_list es (McpInvoke c)"
proof -
  note inv = mcp_run_inv [of env es approvals auditing w, folded assms(1)]
  obtain cfg where cfg: "ms_configs s (mc_server c) = Some cfg" "call_covered (verdicts_of es) (ms_db s) cfg c"
    and log: "ms_auditing s \<longrightarrow> call_audited (set (audit (ms_db s))) c"
    and t: "mt_name t = mc_tool c" "validateToolSchema (me_lower env) (mt_schema t) = Inr ()"
    by (rule sent_okD [OF mcp_invD(4) [OF inv] assms(2)])
  obtain h where h: "Validate_server h cfg = Inr ()"
    using mcp_invD(2) [OF inv] cfg(1) unfolding configs_ok_def by blast
  obtain spec where spec: "mc_tool c \<in> set (sv_tools cfg)" "set (mc_networks c) \<subseteq> set (sv_networks cfg)"
    "map_of (sv_policies cfg) (mc_tool c) = Some spec"
    "d_allowed (Evaluate spec (mode_of_call c)) \<or> d_needs_approval (Evaluate spec (mode_of_call c)) \<and> owner_allows (verdicts_of es) (ms_db s) c (t_name spec)"
    using cfg(2) unfolding call_covered_def by blast
  have "\<exists>e. \<exists>r \<in> set (requests (ms_db s)). McpApproval e \<in> set es \<and> approves e r \<and> a_state r = AApproved
      \<and> a_token_hash r = token_hash (mc_token c) \<and> a_user r = mc_user c \<and> a_tool r = t_name spec
      \<and> a_args_hash r = sha256_hex (mc_arguments c) \<and> a_resource r = mc_resource c" if "owner_allows (verdicts_of es) (ms_db s) c (t_name spec)"
    using that unfolding owner_allows_def verdicts_of_def by blast
  moreover have "ms_auditing s = auditing"
    unfolding assms(1) by (rule mcp_run_auditing)
  moreover have "count_list (map fst (ms_sent s)) c \<le> 2 * count_list es (McpInvoke c)"
    unfolding assms(1) by (rule mcp_run_count)
  ultimately show ?thesis using cfg(1) h spec log t by blast
qed

end
