(* ===== verification/McpDemo.thy ===== *)
theory McpDemo
  imports McpProofs
begin

text \<open>The theorem on MCP calls at one history: a server with one tool that needs an approval is registered,
  the approval is asked for and given, and the tool is called.\<close>

definition demo_policy :: tool where
  "demo_policy = \<lparr>t_name = ''mcp.notes.search'', t_version = ''1'', t_input_schema = [], t_risk = Low, t_modes = [Read],
     t_approval = True, t_timeout = second, t_output_limit = 100, t_path_scope = [], t_network_scope = [], t_idempotency = Idempotent\<rparr>"

definition demo_server :: server_config where
  "demo_server = \<lparr>sv_id = ''notes'', sv_source = ''vendor'', sv_version = ''v1.0.0'', sv_transport = StreamableHTTP, sv_tools = [''search''],
     sv_policies = [(''search'', demo_policy)], sv_root = [], sv_networks = [''notes.example''], sv_timeout = second, sv_output_limit = 1000,
     sv_attempts = 2, sv_stdio = None,
     sv_http = Some \<lparr>hc_endpoint = ''https://notes.example'', hc_identity = replicate 64 (CHR ''a''), hc_allow_loopback = False, hc_disable_sse = True\<rparr>\<rparr>"

definition demo_host :: mcp_host where
  "demo_host = \<lparr>mh_lstat = (\<lambda>p. None), mh_read = (\<lambda>p. None), mh_resolve = (\<lambda>p. None), mh_is_dir = (\<lambda>p. False),
     mh_url = (\<lambda>u. Some \<lparr>u_scheme = ''https'', u_host = ''notes.example'', u_user = False, u_fragment = [], u_rest = []\<rparr>), mh_lower = (\<lambda>s. s)\<rparr>"

lemma demo_server_valid: "Validate_server demo_host demo_server = Inr ()"
  by code_simp

text \<open>A world that counts the exchanges with the server.\<close>

definition demo_tool :: mcp_tool where
  "demo_tool = \<lparr>mt_name = ''search'', mt_schema = Some demo_tool_schema\<rparr>"

definition demo_mcp_env :: "nat mcp_env" where
  "demo_mcp_env = \<lparr>me_host = (\<lambda>w. demo_host), me_connect = (\<lambda>l w. (Inr 1, Suc w)),
     me_list = (\<lambda>n p w. (Inr \<lparr>tp_tools = [Some demo_tool], tp_cursor = []\<rparr>, Suc w)),
     me_call = (\<lambda>n t a w. (Inr \<lparr>cr_is_error = False, cr_error = [], cr_encoded = Some ''{}''\<rparr>, Suc w)),
     me_close = (\<lambda>n w. (None, Suc w)), me_timed_out = (\<lambda>w. False), me_expired = (\<lambda>w. None), me_now = (\<lambda>w. 0), me_lower = (\<lambda>s. s)\<rparr>"

definition demo_mcp_call :: mcp_call where
  "demo_mcp_call = \<lparr>mc_server = ''notes'', mc_tool = ''search'', mc_arguments = ''{}'', mc_mode = Mode_Unset, mc_user = 7,
     mc_resource = ''notebook'', mc_token = demo_token, mc_networks = [''notes.example'']\<rparr>"

lemma empty_object_parsed: "parse_document ''{}'' = Some (JObj [])"
  by code_simp

lemma empty_object_decoded: "decode_any (JObj []) = GObject []"
  by code_simp

lemma demo_mcp_checked: "check_call demo_server demo_mcp_call = Inr (GObject [])"
proof -
  have "decode_arguments ''{}'' = Inr (GObject [])" by (simp add: decode_arguments_def json_valid_def empty_object_parsed empty_object_decoded)
  then show ?thesis by (simp add: check_call_def demo_server_def demo_mcp_call_def)
qed

lemma demo_mcp_answer: "read_result demo_mcp_env demo_server \<lparr>cr_is_error = False, cr_error = [], cr_encoded = Some ''{}''\<rparr> s = (Inr (GObject []), s)"
proof -
  have "unmarshal_any ''{}'' = Some (GObject [])" by (simp add: unmarshal_any_def empty_object_parsed empty_object_decoded)
  then show ?thesis by (simp add: read_result_def demo_server_def)
qed

lemma demo_mcp_discovered:
  "connect_server demo_mcp_env demo_server w = (Inr \<lparr>se_handle = 1, se_tools = [(''search'', demo_tool)]\<rparr>, w + 2)"
proof -
  have "manifest_id_ok ''search''" by code_simp
  then have page: "check_page (\<lambda>s. s) [''search''] [Some demo_tool] [] = Inr [(''search'', demo_tool)]"
    using demo_tool_schema_valid by (simp add: demo_tool_def)
  have listed: "me_list demo_mcp_env n p w = (Inr \<lparr>tp_tools = [Some demo_tool], tp_cursor = []\<rparr>, Suc w)" "me_lower demo_mcp_env = (\<lambda>s. s)" for n p w
    by (simp_all add: demo_mcp_env_def)
  have "discoverAllowedTools demo_mcp_env 1 [''search''] v = (Inr [(''search'', demo_tool)], Suc v)" for v
    by (simp add: discoverAllowedTools_def numeral_eq_Suc listed page all_found_def del: check_page.simps)
  then show ?thesis
    by (simp add: connect_server_def launch_of_def demo_server_def) (simp add: demo_mcp_env_def)
qed

text \<open>The approval: asked for, given by its user, and redeemed by the call.\<close>

definition demo_mcp_ask :: appr_op where
  "demo_mcp_ask = OpRequest demo_bytes 7 ''mcp.notes.search'' (sha256_hex ''{}'') ''notebook'' (5 * minute) 0 0 0"

definition demo_mcp_verdict :: appr_op where
  "demo_mcp_verdict = OpResolveToken demo_token 7 ''approved'' 0 0 0"

definition demo_mcp_row :: request_row where
  "demo_mcp_row = \<lparr>a_id = request_id demo_bytes, a_token_hash = token_hash demo_token, a_user = 7, a_tool = ''mcp.notes.search'',
     a_args_hash = sha256_hex ''{}'', a_resource = ''notebook'', a_expires = 5 * minute, a_state = AApproved, a_created_at = 0, a_resolved_at = Some 0\<rparr>"

definition demo_mcp_db :: appr_db where
  "demo_mcp_db = appr_step demo_mcp_verdict (appr_step demo_mcp_ask no_approvals)"

lemma demo_mcp_rows: "requests demo_mcp_db = [demo_mcp_row]" "uses demo_mcp_db = []"
  by (simp_all add: demo_mcp_db_def demo_mcp_ask_def demo_mcp_verdict_def demo_mcp_row_def no_approvals_def Create_request_def ResolveToken_def
      Resolve_request_def Let_def by_token_def select_one_def demo_token_def expiry_of_def parse_stored_def in_range_def
      max_seconds_def units rows_affected_def update_where_def decision_state_def)

lemma demo_mcp_redeemed:
  "\<exists>db. Authorize_request demo_token 7 ''mcp.notes.search'' (sha256_hex ''{}'') ''notebook'' 0 0 demo_mcp_db = (Inr (), db)"
proof -
  have "by_token demo_token demo_mcp_db = Some demo_mcp_row"
    by (simp add: by_token_def select_one_def demo_mcp_rows) (simp add: demo_mcp_row_def)
  then show ?thesis
    by (simp add: Authorize_request_def AuthorizeReceipt_def demo_mcp_rows demo_mcp_row_def parse_stored_def in_range_def max_seconds_def units)
qed

definition demo_mcp_events :: "nat mcp_event list" where
  "demo_mcp_events = [McpRegister demo_server, McpApproval demo_mcp_ask, McpApproval demo_mcp_verdict, McpInvoke demo_mcp_call]"

lemma demo_mcp_sent: "ms_sent (mcp_run demo_mcp_env demo_mcp_events True False 0) = [(demo_mcp_call, demo_tool)]
    \<and> ms_configs (mcp_run demo_mcp_env demo_mcp_events True False 0) = [''notes'' \<mapsto> demo_server]"
proof -
  let ?new = "NewManager True False no_approvals (0 :: nat)"
  let ?reg = "?new\<lparr>ms_configs := [''notes'' \<mapsto> demo_server]\<rparr>"
  define s where "s = ?reg\<lparr>ms_db := demo_mcp_db\<rparr>"
  have reg: "Register_server demo_mcp_env demo_server ?new = (Inr (), ?reg)"
  proof -
    have "me_host demo_mcp_env w = demo_host" "sv_id demo_server = ''notes''" for w by (simp_all add: demo_mcp_env_def demo_server_def)
    then show ?thesis by (simp add: Register_server_def demo_server_valid) (simp add: NewManager_def)
  qed
  have parts: "ms_configs s = [''notes'' \<mapsto> demo_server]" "ms_auditing s = False" "ms_sessions s = []" "ms_world s = 0" "ms_sent s = []"
    "ms_approvals s" "ms_db s = demo_mcp_db" by (simp_all add: s_def NewManager_def)
  obtain db where db: "Authorize_request demo_token 7 ''mcp.notes.search'' (sha256_hex ''{}'') ''notebook'' 0 0 demo_mcp_db = (Inr (), db)"
    using demo_mcp_redeemed by blast
  define s1 where "s1 = s\<lparr>ms_db := db\<rparr>"
  have auth: "authorize_mcp demo_mcp_env demo_server demo_mcp_call s = (Inr (), s1)"
  proof -
    have "me_now demo_mcp_env w = 0" for w by (simp add: demo_mcp_env_def)
    moreover have "demo_token \<noteq> []" by code_simp
    ultimately show ?thesis using db
      by (simp add: authorize_mcp_def demo_server_def demo_mcp_call_def mode_of_call_def demo_policy_def Evaluate_def second_def parts s1_def)
  qed
  have log: "record_mcp demo_mcp_env u r d s1 = (Inr (), s1)" for u r d
    by (simp add: record_mcp_def s1_def parts)
  have fields: "mc_server demo_mcp_call = ''notes''" "mc_tool demo_mcp_call = ''search''" "sv_attempts demo_server = 2"
    "sv_id demo_server = ''notes''" by (simp_all add: demo_mcp_call_def demo_server_def)
  have get: "getSession demo_mcp_env demo_server s1 =
      (Inr \<lparr>se_handle = 1, se_tools = [(''search'', demo_tool)]\<rparr>, s1\<lparr>ms_world := 2, ms_sessions := [(''notes'', \<lparr>se_handle = 1, se_tools = [(''search'', demo_tool)]\<rparr>)]\<rparr>)"
  proof -
    have "me_expired demo_mcp_env w = None" for w by (simp add: demo_mcp_env_def)
    with demo_mcp_discovered [of 0] show ?thesis by (simp add: getSession_def fields s1_def parts)
  qed
  have called: "me_call demo_mcp_env n t a w = (Inr \<lparr>cr_is_error = False, cr_error = [], cr_encoded = Some ''{}''\<rparr>, Suc w)" for n t a w
    by (simp add: demo_mcp_env_def)
  have "snd (InvokeMCP_server demo_mcp_env demo_mcp_call s) = s1\<lparr>ms_world := 3, ms_sessions := [(''notes'', \<lparr>se_handle = 1, se_tools = [(''search'', demo_tool)]\<rparr>)],
      ms_sent := [(demo_mcp_call, demo_tool)]\<rparr>"
    by (simp add: InvokeMCP_server_def parts fields demo_mcp_checked auth log numeral_eq_Suc get [simplified numeral_eq_Suc] called demo_mcp_answer Let_def)
       (simp add: s1_def parts)
  moreover have "mcp_run demo_mcp_env demo_mcp_events True False 0 = snd (InvokeMCP_server demo_mcp_env demo_mcp_call s)"
  proof -
    have "?reg\<lparr>ms_db := appr_step demo_mcp_verdict (ms_db (?reg\<lparr>ms_db := appr_step demo_mcp_ask (ms_db ?reg)\<rparr>))\<rparr> = s"
      by (simp add: s_def demo_mcp_db_def NewManager_def)
    then show ?thesis by (simp add: mcp_run_def demo_mcp_events_def reg)
  qed
  ultimately show ?thesis by (simp add: s1_def parts)
qed

lemma mcp_calls_covered_witness:
  "\<exists>e. \<exists>r \<in> set (requests (ms_db (mcp_run demo_mcp_env demo_mcp_events True False 0))). McpApproval e \<in> set demo_mcp_events
     \<and> approves e r \<and> a_state r = AApproved \<and> a_user r = 7 \<and> a_args_hash r = sha256_hex ''{}'' \<and> a_resource r = ''notebook''"
proof -
  have c: "mc_server demo_mcp_call = ''notes''" "mc_tool demo_mcp_call = ''search''" "mc_user demo_mcp_call = 7" "mc_arguments demo_mcp_call = ''{}''"
    "mc_resource demo_mcp_call = ''notebook''" "mode_of_call demo_mcp_call = Read" by (simp_all add: demo_mcp_call_def mode_of_call_def)
  have "(demo_mcp_call, demo_tool) \<in> set (ms_sent (mcp_run demo_mcp_env demo_mcp_events True False 0))" by (simp add: demo_mcp_sent)
  from mcp_calls_covered [OF refl this] obtain cfg h spec where cfg: "ms_configs (mcp_run demo_mcp_env demo_mcp_events True False 0) ''notes'' = Some cfg"
    "map_of (sv_policies cfg) ''search'' = Some spec" and alt: "d_allowed (Evaluate spec Read)
      \<or> (\<exists>e. \<exists>r \<in> set (requests (ms_db (mcp_run demo_mcp_env demo_mcp_events True False 0))). McpApproval e \<in> set demo_mcp_events
     \<and> approves e r \<and> a_state r = AApproved \<and> a_user r = 7 \<and> a_args_hash r = sha256_hex ''{}'' \<and> a_resource r = ''notebook'')"
    unfolding c by blast
  have "cfg = demo_server"
    using cfg(1) by (simp add: demo_mcp_sent)
  with cfg(2) have "spec = demo_policy" by (simp add: demo_server_def)
  then have "\<not> d_allowed (Evaluate spec Read)" by (simp add: Evaluate_allowed_iff demo_policy_def)
  with alt show ?thesis by blast
qed

end
