(* ===== verification/SchedJob.thy ===== *)
theory SchedJob
  imports Policy Json
begin

text \<open>
  Package \<open>internal/scheduler\<close>, the data: \<open>Job\<close>, \<open>Run\<close> and \<open>Invocation\<close> of
  \<open>types.go\<close>, and \<open>normalizeJob\<close> of \<open>store.go\<close>, which turns the request of a
  caller into a job that satisfies every CHECK constraint of the table \<open>scheduled_jobs\<close>.
  The time zone database of the host is the argument \<open>tz\<close>: whether
  \<open>time.LoadLocation\<close> knows a name.
\<close>

section \<open>Types\<close>

datatype kind = Kind_Unset | OneTime | Recurring | Kind_Other string
datatype job_class = Class_Unset | Reminder | ReadOnly | ClassWrite | ClassPublish | Class_Other string
datatype missed_policy = Missed_Unset | Skip | RunOnce | Missed_Other string

datatype sched_error =
    InvalidJob string
  | DuplicateCreationKey
  | PolicyDenied string
  | NoRows
  | OwnerRequired
  | NotRunning
  | DependenciesRequired

record job =
  j_id :: string
  j_skill_id :: string
  j_input :: string
  j_kind :: kind
  j_class :: job_class
  j_risk :: risk
  j_timezone :: string
  j_every :: duration
  j_next_run :: time
  j_enabled :: bool
  j_missed :: missed_policy
  j_max_attempts :: int
  j_retry_backoff :: duration
  j_timeout :: duration
  j_creation_key :: string
  j_approval_ref :: string
  j_cancelled_at :: "time option"
  j_created_at :: time
  j_updated_at :: time

section \<open>Identifiers\<close>

definition is_alnum :: "char \<Rightarrow> bool" where
  "is_alnum c \<longleftrightarrow> is_digit c \<or> 65 \<le> (of_char c :: int) \<and> (of_char c :: int) \<le> 90
     \<or> 97 \<le> (of_char c :: int) \<and> (of_char c :: int) \<le> 122"

definition ident_char :: "char \<Rightarrow> bool" where
  "ident_char c \<longleftrightarrow> is_alnum c \<or> c = CHR ''_'' \<or> c = CHR ''.'' \<or> c = CHR ''-''"

text \<open>The regular expression \<open>identifierPattern\<close>.\<close>

definition is_identifier :: "string \<Rightarrow> bool" where
  "is_identifier s \<longleftrightarrow>
     (case s of
        [] \<Rightarrow> False
      | c # r \<Rightarrow> is_alnum c \<and> list_all ident_char r \<and> length r \<le> 127)"

lemma is_identifier_char:
  assumes "is_identifier s" and "c \<in> set s"
  shows "ident_char c"
  using assms by (auto simp: is_identifier_def ident_char_def list_all_iff split: list.splits)

lemma is_identifier_no_colon: "is_identifier s \<Longrightarrow> CHR '':'' \<notin> set s"
  using is_identifier_char [of s "CHR '':''"] by (auto simp: ident_char_def is_alnum_def is_digit_def)

lemma is_identifier_length: "is_identifier s \<Longrightarrow> 1 \<le> length s \<and> length s \<le> 128"
  by (auto simp: is_identifier_def split: list.splits)

section \<open>normalizeJob\<close>

definition default_risk :: "job_class \<Rightarrow> risk" where
  "default_risk c =
     (case c of Reminder \<Rightarrow> Safe | ReadOnly \<Rightarrow> Safe | ClassWrite \<Rightarrow> Medium | ClassPublish \<Rightarrow> High
      | _ \<Rightarrow> Risk_Unset)"

definition known_class :: "job_class \<Rightarrow> bool" where
  "known_class c \<longleftrightarrow> c = Reminder \<or> c = ReadOnly \<or> c = ClassWrite \<or> c = ClassPublish"

definition known_risk :: "risk \<Rightarrow> bool" where
  "known_risk r \<longleftrightarrow> r = Safe \<or> r = Low \<or> r = Medium \<or> r = High \<or> r = Critical"

text \<open>
  \<open>normalizeJob\<close> fills one field after another and rejects what is out of bounds. Each
  block of the function is a definition here, from the job so far to the job with the block's
  fields filled; \<open>normalizeJob\<close> runs them in the order of the code.
\<close>

definition norm_input :: "job \<Rightarrow> (sched_error, job) result" where
  "norm_input j =
     (let j = (if j_input j = [] then j\<lparr>j_input := ''{}''\<rparr> else j) in
      reject_if (\<not> json_object (j_input j)) (InvalidJob ''input must be a JSON object'')
        (case json_compact (j_input j) of
           None \<Rightarrow> Inl (InvalidJob ''malformed input'')
         | Some compact \<Rightarrow> Inr (j\<lparr>j_input := compact\<rparr>)))"

definition norm_time :: "(string \<Rightarrow> bool) \<Rightarrow> job \<Rightarrow> (sched_error, job) result" where
  "norm_time tz j =
     (let j = (if j_timezone j = [] then j\<lparr>j_timezone := ''UTC''\<rparr> else j) in
      reject_if (\<not> tz (j_timezone j)) (InvalidJob ''invalid timezone'')
        (reject_if (IsZero (j_next_run j)) (InvalidJob ''next run is required'') (Inr j)))"

definition norm_kind :: "job \<Rightarrow> (sched_error, job) result" where
  "norm_kind j =
     (let j = (if j_kind j = Kind_Unset then j\<lparr>j_kind := OneTime\<rparr> else j) in
      case j_kind j of
        OneTime \<Rightarrow>
          reject_if (j_every j \<noteq> 0) (InvalidJob ''one-time job cannot have an interval'') (Inr j)
      | Recurring \<Rightarrow>
          reject_if (j_every j \<le> 0 \<or> j_every j > 366 * 24 * hour)
            (InvalidJob ''invalid recurring interval'') (Inr j)
      | _ \<Rightarrow> Inl (InvalidJob ''invalid kind''))"

definition norm_class :: "job \<Rightarrow> (sched_error, job) result" where
  "norm_class j =
     (let j = (if j_class j = Class_Unset then j\<lparr>j_class := ReadOnly\<rparr> else j) in
      reject_if (\<not> known_class (j_class j)) (InvalidJob ''invalid class'')
        (let j = (if j_risk j = Risk_Unset then j\<lparr>j_risk := default_risk (j_class j)\<rparr> else j) in
         reject_if (\<not> known_risk (j_risk j)) (InvalidJob ''invalid risk'') (Inr j)))"

definition norm_limits :: "job \<Rightarrow> (sched_error, job) result" where
  "norm_limits j =
     (let j = (if j_missed j = Missed_Unset then j\<lparr>j_missed := RunOnce\<rparr> else j) in
      reject_if (j_missed j \<noteq> Skip \<and> j_missed j \<noteq> RunOnce) (InvalidJob ''invalid missed-run policy'')
        (let j = (if j_max_attempts j = 0 then j\<lparr>j_max_attempts := 3\<rparr> else j) in
         reject_if (j_max_attempts j < 1 \<or> j_max_attempts j > 20)
           (InvalidJob ''max attempts out of bounds'') (Inr j)))"

definition norm_durations :: "job \<Rightarrow> (sched_error, job) result" where
  "norm_durations j =
     (let j = (if j_retry_backoff j = 0 then j\<lparr>j_retry_backoff := second\<rparr> else j) in
      reject_if (j_retry_backoff j < 0 \<or> j_retry_backoff j > 24 * hour)
        (InvalidJob ''retry backoff out of bounds'')
        (let j = (if j_timeout j = 0 then j\<lparr>j_timeout := minute\<rparr> else j) in
         reject_if (j_timeout j \<le> 0 \<or> j_timeout j > 24 * hour)
           (InvalidJob ''timeout out of bounds'') (Inr j)))"

definition norm_key :: "job \<Rightarrow> (sched_error, job) result" where
  "norm_key j =
     (let j = (if j_creation_key j = [] then j\<lparr>j_creation_key := ''create:'' @ j_id j\<rparr> else j) in
      reject_if (length (j_creation_key j) > 256) (InvalidJob ''creation key too long'')
        (reject_if (j_class j = ClassPublish \<and> j_approval_ref j = [])
          (InvalidJob ''publishing requires a bound approval reference'') (Inr j)))"

definition norm_stamp :: "time \<Rightarrow> job \<Rightarrow> job" where
  "norm_stamp now j =
     (let j = (if IsZero (j_created_at j) then j\<lparr>j_created_at := now\<rparr> else j)
      in j\<lparr>j_updated_at := now\<rparr>)"

definition normalizeJob :: "(string \<Rightarrow> bool) \<Rightarrow> job \<Rightarrow> time \<Rightarrow> (sched_error, job) result" where
  "normalizeJob tz input now =
     reject_if (\<not> is_identifier (j_id input) \<or> \<not> is_identifier (j_skill_id input))
       (InvalidJob ''id and skill id must be bounded identifiers'')
       (and_then (norm_input input) (\<lambda>j.
        and_then (norm_time tz j) (\<lambda>j.
        and_then (norm_kind j) (\<lambda>j.
        and_then (norm_class j) (\<lambda>j.
        and_then (norm_limits j) (\<lambda>j.
        and_then (norm_durations j) (\<lambda>j.
        and_then (norm_key j) (\<lambda>j.
        Inr (norm_stamp now j)))))))))"

section \<open>What a normalized job satisfies\<close>

text \<open>
  What each block establishes, together with the fields it may have changed; the second part
  lets the facts of the earlier blocks survive the later ones.
\<close>

definition kind_ok :: "job \<Rightarrow> bool" where
  "kind_ok j \<longleftrightarrow> j_kind j = OneTime \<and> j_every j = 0
     \<or> j_kind j = Recurring \<and> 0 < j_every j \<and> j_every j \<le> 366 * 24 * hour"

text \<open>The CHECK constraints of \<open>scheduled_jobs\<close>, and the bounds they do not state.\<close>

definition job_ok :: "job \<Rightarrow> bool" where
  "job_ok j \<longleftrightarrow> is_identifier (j_id j) \<and> is_identifier (j_skill_id j)
     \<and> kind_ok j
     \<and> known_class (j_class j) \<and> known_risk (j_risk j)
     \<and> (j_missed j = Skip \<or> j_missed j = RunOnce)
     \<and> 1 \<le> j_max_attempts j \<and> j_max_attempts j \<le> 20
     \<and> 0 < j_retry_backoff j \<and> j_retry_backoff j \<le> 24 * hour
     \<and> 0 < j_timeout j \<and> j_timeout j \<le> 24 * hour
     \<and> j_creation_key j \<noteq> [] \<and> length (j_creation_key j) \<le> 256
     \<and> (j_class j = ClassPublish \<longrightarrow> j_approval_ref j \<noteq> [])"

lemma norm_inputD: "norm_input j = Inr j' \<Longrightarrow> \<exists>i. j' = j\<lparr>j_input := i\<rparr>"
  by (auto simp: norm_input_def Let_def split: option.splits if_splits)

lemma norm_timeD:
  assumes "norm_time tz j = Inr j'"
  shows "\<exists>z. j' = j\<lparr>j_timezone := z\<rparr> \<and> j_next_run j \<noteq> 0 \<and> tz z"
  by (rule exI [of _ "j_timezone j'"])
     (use assms in \<open>auto simp: norm_time_def Let_def IsZero_def split: if_splits\<close>)

lemma norm_kindD:
  assumes "norm_kind j = Inr j'"
  shows "\<exists>k. j' = j\<lparr>j_kind := k\<rparr> \<and> kind_ok (j\<lparr>j_kind := k\<rparr>)"
  by (rule exI [of _ "j_kind j'"])
     (use assms in \<open>auto simp: norm_kind_def Let_def kind_ok_def split: if_splits kind.splits\<close>)

lemma norm_classD:
  assumes "norm_class j = Inr j'"
  shows "\<exists>c r. j' = j\<lparr>j_class := c, j_risk := r\<rparr> \<and> known_class c \<and> known_risk r"
  by (rule exI [of _ "j_class j'"], rule exI [of _ "j_risk j'"])
     (use assms in \<open>auto simp: norm_class_def Let_def split: if_splits\<close>)

lemma norm_limitsD:
  assumes "norm_limits j = Inr j'"
  shows "\<exists>m a. j' = j\<lparr>j_missed := m, j_max_attempts := a\<rparr> \<and> (m = Skip \<or> m = RunOnce) \<and> 1 \<le> a \<and> a \<le> 20"
  by (rule exI [of _ "j_missed j'"], rule exI [of _ "j_max_attempts j'"])
     (use assms in \<open>auto simp: norm_limits_def Let_def split: if_splits\<close>)

lemma norm_durationsD:
  assumes "norm_durations j = Inr j'"
  shows "\<exists>b t. j' = j\<lparr>j_retry_backoff := b, j_timeout := t\<rparr>
    \<and> 0 < b \<and> b \<le> 24 * hour \<and> 0 < t \<and> t \<le> 24 * hour"
  by (rule exI [of _ "j_retry_backoff j'"], rule exI [of _ "j_timeout j'"])
     (use assms in \<open>auto simp: norm_durations_def Let_def units split: if_splits\<close>)

lemma norm_keyD:
  assumes "norm_key j = Inr j'"
  shows "\<exists>k. j' = j\<lparr>j_creation_key := k\<rparr> \<and> k \<noteq> [] \<and> length k \<le> 256
    \<and> (j_class j = ClassPublish \<longrightarrow> j_approval_ref j \<noteq> [])"
  by (rule exI [of _ "j_creation_key j'"])
     (use assms in \<open>auto simp: norm_key_def Let_def split: if_splits\<close>)

lemma norm_stampD: "\<exists>c. norm_stamp now j = j\<lparr>j_created_at := c, j_updated_at := now\<rparr>"
  by (rule exI [of _ "j_created_at (norm_stamp now j)"]) (simp add: norm_stamp_def Let_def)

text \<open>
  The blocks compose to a description of the whole function: which fields it may have changed,
  and that the outcome is within all the bounds.
\<close>

lemma normalizeJobD:
  assumes "normalizeJob tz input now = Inr j"
  obtains i z k c r m a b t y w where
    "j = input\<lparr>j_input := i, j_timezone := z, j_kind := k, j_class := c, j_risk := r, j_missed := m,
       j_max_attempts := a, j_retry_backoff := b, j_timeout := t, j_creation_key := y,
       j_created_at := w, j_updated_at := now\<rparr>"
    and "job_ok j" and "tz z" and "j_next_run input \<noteq> 0"
proof -
  from assms obtain j1 j2 j3 j4 j5 j6 j7 where
    ident: "is_identifier (j_id input)" "is_identifier (j_skill_id input)"
    and b1: "norm_input input = Inr j1" and b2: "norm_time tz j1 = Inr j2"
    and b3: "norm_kind j2 = Inr j3" and b4: "norm_class j3 = Inr j4"
    and b5: "norm_limits j4 = Inr j5" and b6: "norm_durations j5 = Inr j6"
    and b7: "norm_key j6 = Inr j7" and j: "j = norm_stamp now j7"
    by (auto simp: normalizeJob_def and_then_ok)
  from norm_inputD [OF b1] obtain i where 1: "j1 = input\<lparr>j_input := i\<rparr>" by blast
  from norm_timeD [OF b2] obtain z where 2: "j2 = j1\<lparr>j_timezone := z\<rparr>" "j_next_run j1 \<noteq> 0" "tz z" by blast
  from norm_kindD [OF b3] obtain k where 3: "j3 = j2\<lparr>j_kind := k\<rparr>" "kind_ok (j2\<lparr>j_kind := k\<rparr>)" by blast
  from norm_classD [OF b4] obtain c r where
    4: "j4 = j3\<lparr>j_class := c, j_risk := r\<rparr>" "known_class c" "known_risk r" by blast
  from norm_limitsD [OF b5] obtain m a where
    5: "j5 = j4\<lparr>j_missed := m, j_max_attempts := a\<rparr>" "m = Skip \<or> m = RunOnce" "1 \<le> a" "a \<le> 20" by blast
  from norm_durationsD [OF b6] obtain b t where
    6: "j6 = j5\<lparr>j_retry_backoff := b, j_timeout := t\<rparr>" "0 < b" "b \<le> 24 * hour" "0 < t" "t \<le> 24 * hour"
    by blast
  from norm_keyD [OF b7] obtain y where
    7: "j7 = j6\<lparr>j_creation_key := y\<rparr>" "y \<noteq> []" "length y \<le> 256"
      "j_class j6 = ClassPublish \<longrightarrow> j_approval_ref j6 \<noteq> []" by blast
  from norm_stampD [of now j7] obtain w where
    8: "j = j7\<lparr>j_created_at := w, j_updated_at := now\<rparr>" using j by blast
  note eqs = 1 2(1) 3(1) 4(1) 5(1) 6(1) 7(1)
  have "job_ok j"
    using ident 2 3(2) 4(2,3) 5(2-) 6(2-) 7(2-) unfolding job_ok_def kind_ok_def 8 eqs by simp
  moreover have "j = input\<lparr>j_input := i, j_timezone := z, j_kind := k, j_class := c, j_risk := r,
      j_missed := m, j_max_attempts := a, j_retry_backoff := b, j_timeout := t, j_creation_key := y,
      j_created_at := w, j_updated_at := now\<rparr>"
    unfolding 8 eqs by simp
  moreover have "j_next_run input \<noteq> 0" using 2(2) by (simp add: 1)
  ultimately show ?thesis using that 2(3) by blast
qed

lemma normalizeJob_job_ok: "normalizeJob tz input now = Inr j \<Longrightarrow> job_ok j"
  by (erule normalizeJobD)

lemma normalizeJob_frame:
  "normalizeJob tz input now = Inr j \<Longrightarrow>
   j_id j = j_id input \<and> j_skill_id j = j_skill_id input \<and> j_next_run j = j_next_run input
   \<and> j_enabled j = j_enabled input \<and> j_approval_ref j = j_approval_ref input \<and> j_every j = j_every input"
  by (erule normalizeJobD) simp

end
