(* ===== verification/SchedStore.thy ===== *)
theory SchedStore
  imports SchedJob SqlTable
begin

text \<open>
  Package \<open>internal/scheduler\<close>, \<open>store.go\<close>: the tables \<open>scheduled_jobs\<close>,
  \<open>scheduled_runs\<close> and \<open>job_locks\<close>, and every operation of \<open>Store\<close> on them. An
  operation takes the clock reading \<open>now\<close> the code takes from \<open>s.clock\<close>, and returns
  the result with the new tables; on an error return the tables are those of before, as the
  deferred rollback leaves them. I/O errors of SQLite are not modelled.

  The constants have the names of the methods with a suffix where another store has a method of
  the same name. The statements of \<open>Claim\<close> are a definition each.
\<close>

section \<open>Tables\<close>

datatype run_state = Pending | Running | Completed | Failed | Dead | Denied | Cancelled | Skipped

record run_row =
  r_id :: int
  r_job_id :: string
  r_scheduled_for :: time
  r_key :: string
  r_state :: run_state
  r_attempts :: int
  r_available_at :: time
  r_started_at :: "time option"
  r_finished_at :: "time option"
  r_last_error :: string
  r_created_at :: time
  r_updated_at :: time

record lock_row =
  l_job_id :: string
  l_owner :: string
  l_acquired_at :: time
  l_expires_at :: time

record sched_db =
  jobs :: "job list"
  runs :: "run_row list"
  locks :: "lock_row list"
  run_seq :: int

text \<open>The struct \<open>Run\<close> that \<open>Claim\<close> and \<open>History\<close> return: a run with its job.\<close>

record run =
  x_id :: int
  x_job :: job
  x_scheduled_for :: time
  x_key :: string
  x_state :: run_state
  x_attempts :: int
  x_available_at :: time
  x_started_at :: "time option"
  x_finished_at :: "time option"
  x_last_error :: string

definition empty_db :: sched_db where
  "empty_db = \<lparr>jobs = [], runs = [], locks = [], run_seq = 0\<rparr>"

section \<open>Helpers\<close>

definition runKey :: "string \<Rightarrow> time \<Rightarrow> string" where
  "runKey jobID scheduled = ''job:'' @ jobID @ '':'' @ formatTime scheduled"

definition NextRecurring :: "time \<Rightarrow> duration \<Rightarrow> time \<Rightarrow> time" where
  "NextRecurring anchor every now =
     (if every \<le> 0 \<or> anchor > now then anchor
      else (let steps = wrap64 (time_sub now anchor div every + 1)
            in anchor + wrap64 (steps * every)))"

definition boundedBackoff :: "duration \<Rightarrow> int \<Rightarrow> duration" where
  "boundedBackoff base attempts =
     (if base \<le> 0 then 0
      else (let shift = attempts - 1;
                shift = (if shift < 0 then 0 else shift);
                shift = (if shift > 10 then 10 else shift);
                delay = wrap64 (base * wrap64 (2 ^ nat shift))
            in if delay > 24 * hour \<or> delay < 0 then 24 * hour else delay))"

text \<open>\<open>safeSummary\<close>: newlines become blanks, at most 500 bytes are kept.\<close>

definition safeSummary :: "string option \<Rightarrow> string" where
  "safeSummary err =
     (case err of
        None \<Rightarrow> []
      | Some s \<Rightarrow> take 500 (map (\<lambda>c. if c = CHR 0x0A then CHR '' '' else c) s))"

definition job_by_id :: "string \<Rightarrow> sched_db \<Rightarrow> job option" where
  "job_by_id i db = select_one (\<lambda>j. j_id j = i) (jobs db)"

definition run_by_id :: "int \<Rightarrow> sched_db \<Rightarrow> run_row option" where
  "run_by_id i db = select_one (\<lambda>r. r_id r = i) (runs db)"

definition locked :: "string \<Rightarrow> sched_db \<Rightarrow> bool" where
  "locked i db \<longleftrightarrow> exists_where (\<lambda>l. l_job_id l = i) (locks db)"

text \<open>The scan of a joined row into the struct \<open>Run\<close>.\<close>

definition scanRun :: "run_row \<Rightarrow> job \<Rightarrow> run" where
  "scanRun r j =
     \<lparr>x_id = r_id r, x_job = j, x_scheduled_for = r_scheduled_for r, x_key = r_key r,
      x_state = r_state r, x_attempts = r_attempts r, x_available_at = r_available_at r,
      x_started_at = r_started_at r, x_finished_at = r_finished_at r, x_last_error = r_last_error r\<rparr>"

section \<open>Jobs\<close>

definition Create_job ::
  "(string \<Rightarrow> bool) \<Rightarrow> job \<Rightarrow> time \<Rightarrow> sched_db \<Rightarrow> (sched_error, job) result \<times> sched_db" where
  "Create_job tz input now db =
     (case normalizeJob tz input now of
        Inl e \<Rightarrow> (Inl e, db)
      | Inr job \<Rightarrow>
          if exists_where (\<lambda>j. j_creation_key j = j_creation_key job) (jobs db)
          then (Inl DuplicateCreationKey, db)
          else if exists_where (\<lambda>j. j_id j = j_id job) (jobs db)
          then (Inl DuplicateCreationKey, db)
          else (Inr job, db\<lparr>jobs := jobs db @ [job\<lparr>j_cancelled_at := None\<rparr>]\<rparr>))"

definition Get_job :: "string \<Rightarrow> sched_db \<Rightarrow> (sched_error, job) result" where
  "Get_job i db = (case job_by_id i db of None \<Rightarrow> Inl NoRows | Some j \<Rightarrow> Inr j)"

definition SetEnabled :: "string \<Rightarrow> bool \<Rightarrow> time \<Rightarrow> sched_db \<Rightarrow> (sched_error, unit) result \<times> sched_db" where
  "SetEnabled i enabled now db =
     (let p = (\<lambda>j. j_id j = i \<and> j_cancelled_at j = None)
      in (if rows_affected p (jobs db) \<noteq> 1 then Inl NoRows else Inr (),
          db\<lparr>jobs := update_where p (\<lambda>j. j\<lparr>j_enabled := enabled, j_updated_at := now\<rparr>) (jobs db)\<rparr>))"

definition coalesce :: "'a option \<Rightarrow> 'a \<Rightarrow> 'a option" where
  "coalesce x y = (case x of None \<Rightarrow> Some y | Some z \<Rightarrow> Some z)"

definition Cancel_job :: "string \<Rightarrow> time \<Rightarrow> sched_db \<Rightarrow> (sched_error, unit) result \<times> sched_db" where
  "Cancel_job i now db =
     (let p = (\<lambda>j. j_id j = i);
          cancel = (\<lambda>j. j\<lparr>j_enabled := False, j_cancelled_at := coalesce (j_cancelled_at j) now,
                          j_updated_at := now\<rparr>);
          q = (\<lambda>r. r_job_id r = i \<and> r_state r = Pending);
          drop = (\<lambda>r. r\<lparr>r_state := Cancelled, r_finished_at := Some now,
                        r_last_error := ''job cancelled'', r_updated_at := now\<rparr>)
      in if rows_affected p (jobs db) \<noteq> 1 then (Inl NoRows, db)
         else (Inr (), db\<lparr>jobs := update_where p cancel (jobs db), runs := update_where q drop (runs db)\<rparr>))"

definition IsCancelled :: "string \<Rightarrow> sched_db \<Rightarrow> (sched_error, bool) result" where
  "IsCancelled i db =
     (case job_by_id i db of None \<Rightarrow> Inl NoRows | Some j \<Rightarrow> Inr (j_cancelled_at j \<noteq> None))"

section \<open>Claim\<close>

definition expire_locks :: "time \<Rightarrow> sched_db \<Rightarrow> sched_db" where
  "expire_locks now db = db\<lparr>locks := delete_where (\<lambda>l. sql_le (l_expires_at l) now) (locks db)\<rparr>"

definition recover_runs :: "time \<Rightarrow> sched_db \<Rightarrow> sched_db" where
  "recover_runs now db =
     db\<lparr>runs := update_where (\<lambda>r. r_state r = Running \<and> \<not> locked (r_job_id r) db)
       (\<lambda>r. r\<lparr>r_state := Pending, r_available_at := now,
              r_last_error := ''recovered after stale lock'', r_updated_at := now\<rparr>) (runs db)\<rparr>"

definition exhausted :: "sched_db \<Rightarrow> run_row \<Rightarrow> bool" where
  "exhausted db r \<longleftrightarrow>
     (case job_by_id (r_job_id r) db of None \<Rightarrow> False | Some j \<Rightarrow> r_attempts r \<ge> j_max_attempts j)"

definition bury_runs :: "time \<Rightarrow> sched_db \<Rightarrow> sched_db" where
  "bury_runs now db =
     db\<lparr>runs := update_where (\<lambda>r. r_state r = Pending \<and> exhausted db r)
       (\<lambda>r. r\<lparr>r_state := Dead, r_finished_at := Some now,
              r_last_error := ''retry budget exhausted during recovery'', r_updated_at := now\<rparr>) (runs db)\<rparr>"

definition acquireLock ::
  "job \<Rightarrow> string \<Rightarrow> time \<Rightarrow> duration \<Rightarrow> sched_db \<Rightarrow> sched_db \<times> bool" where
  "acquireLock j owner now lockTTL db =
     (let ttl = (if wrap64 (j_timeout j + second) > lockTTL then wrap64 (j_timeout j + second) else lockTTL);
          row = \<lparr>l_job_id = j_id j, l_owner = owner, l_acquired_at = now, l_expires_at = now + ttl\<rparr>;
          (ls, ok) = insert_or_ignore l_job_id row (locks db)
      in (db\<lparr>locks := ls\<rparr>, ok))"

definition release_lock :: "string \<Rightarrow> string \<Rightarrow> sched_db \<Rightarrow> sched_db" where
  "release_lock i owner db =
     db\<lparr>locks := delete_where (\<lambda>l. l_job_id l = i \<and> l_owner l = owner) (locks db)\<rparr>"

text \<open>ORDER BY available_at, id and ORDER BY next_run, id.\<close>

definition run_order :: "run_row \<Rightarrow> run_row \<Rightarrow> bool" where
  "run_order r q \<longleftrightarrow> bytes_less (formatTime (r_available_at r)) (formatTime (r_available_at q))
     \<or> formatTime (r_available_at r) = formatTime (r_available_at q) \<and> r_id r \<le> r_id q"

definition job_order :: "job \<Rightarrow> job \<Rightarrow> bool" where
  "job_order j k \<longleftrightarrow> bytes_less (formatTime (j_next_run j)) (formatTime (j_next_run k))
     \<or> formatTime (j_next_run j) = formatTime (j_next_run k) \<and> bytes_le (j_id j) (j_id k)"

definition run_ready :: "time \<Rightarrow> sched_db \<Rightarrow> run_row \<Rightarrow> bool" where
  "run_ready now db r \<longleftrightarrow> r_state r = Pending \<and> sql_le (r_available_at r) now
     \<and> (case job_by_id (r_job_id r) db of None \<Rightarrow> False | Some j \<Rightarrow> j_cancelled_at j = None)
     \<and> \<not> locked (r_job_id r) db"

definition job_due :: "time \<Rightarrow> sched_db \<Rightarrow> job \<Rightarrow> bool" where
  "job_due now db j \<longleftrightarrow> j_enabled j \<and> j_cancelled_at j = None \<and> sql_le (j_next_run j) now
     \<and> \<not> locked (j_id j) db"

definition claimPendingRun ::
  "string \<Rightarrow> time \<Rightarrow> duration \<Rightarrow> sched_db \<Rightarrow> run option \<times> sched_db" where
  "claimPendingRun owner now lockTTL db =
     (case first_by run_order (filter (run_ready now db) (runs db)) of
        None \<Rightarrow> (None, db)
      | Some r \<Rightarrow>
          (case job_by_id (r_job_id r) db of
             None \<Rightarrow> (None, db)
           | Some j \<Rightarrow>
               let (db', ok) = acquireLock j owner now lockTTL db
               in if \<not> ok then (None, db')
                  else let p = (\<lambda>q. r_id q = r_id r \<and> r_state q = Pending);
                           start = (\<lambda>q. q\<lparr>r_state := Running, r_attempts := r_attempts q + 1,
                                          r_started_at := Some now, r_updated_at := now\<rparr>)
                       in if rows_affected p (runs db') \<noteq> 1
                          then (None, db'\<lparr>runs := update_where p start (runs db')\<rparr>)
                          else (Some ((scanRun r j)\<lparr>x_state := Running, x_attempts := r_attempts r + 1,
                                        x_started_at := Some now\<rparr>),
                                db'\<lparr>runs := update_where p start (runs db')\<rparr>)))"

text \<open>\<open>INSERT OR IGNORE INTO scheduled_runs\<close>: the rowid is the next of the sequence.\<close>

definition insert_run :: "run_row \<Rightarrow> sched_db \<Rightarrow> sched_db \<times> bool" where
  "insert_run r db =
     (let (rs, ok) = insert_or_ignore r_key (r\<lparr>r_id := run_seq db + 1\<rparr>) (runs db)
      in (db\<lparr>runs := rs, run_seq := if ok then run_seq db + 1 else run_seq db\<rparr>, ok))"

definition skipped_run :: "job \<Rightarrow> time \<Rightarrow> run_row" where
  "skipped_run j now =
     \<lparr>r_id = 0, r_job_id = j_id j, r_scheduled_for = j_next_run j, r_key = runKey (j_id j) (j_next_run j),
      r_state = Skipped, r_attempts = 0, r_available_at = now, r_started_at = None,
      r_finished_at = Some now, r_last_error = ''missed run skipped'', r_created_at = now,
      r_updated_at = now\<rparr>"

definition started_run :: "job \<Rightarrow> time \<Rightarrow> run_row" where
  "started_run j now =
     \<lparr>r_id = 0, r_job_id = j_id j, r_scheduled_for = j_next_run j, r_key = runKey (j_id j) (j_next_run j),
      r_state = Running, r_attempts = 1, r_available_at = now, r_started_at = Some now,
      r_finished_at = None, r_last_error = [], r_created_at = now, r_updated_at = now\<rparr>"

definition update_job :: "string \<Rightarrow> (job \<Rightarrow> job) \<Rightarrow> sched_db \<Rightarrow> sched_db" where
  "update_job i f db = db\<lparr>jobs := update_where (\<lambda>j. j_id j = i) f (jobs db)\<rparr>"

definition claimDueJob ::
  "string \<Rightarrow> time \<Rightarrow> duration \<Rightarrow> sched_db \<Rightarrow> run option \<times> sched_db" where
  "claimDueJob owner now lockTTL db =
     (case first_by job_order (filter (job_due now db) (jobs db)) of
        None \<Rightarrow> (None, db)
      | Some j \<Rightarrow>
          let (db1, ok) = acquireLock j owner now lockTTL db
          in if \<not> ok then (None, db1)
             else
               let scheduled = j_next_run j;
                   next = NextRecurring scheduled (j_every j) now;
                   advance = update_job (j_id j) (\<lambda>k. k\<lparr>j_next_run := next, j_updated_at := now\<rparr>);
                   disable = update_job (j_id j) (\<lambda>k. k\<lparr>j_enabled := False, j_updated_at := now\<rparr>)
               in if j_kind j = Recurring \<and> j_missed j = Skip \<and> \<not> scheduled + j_every j > now
                  then (None, release_lock (j_id j) owner (advance (fst (insert_run (skipped_run j now) db1))))
                  else
                    let db2 = (if j_kind j = Recurring then advance db1 else disable db1);
                        (db3, inserted) = insert_run (started_run j now) db2
                    in if \<not> inserted then (None, release_lock (j_id j) owner db3)
                       else (Some \<lparr>x_id = run_seq db3, x_job = j, x_scheduled_for = scheduled,
                                   x_key = runKey (j_id j) scheduled, x_state = Running, x_attempts = 1,
                                   x_available_at = now, x_started_at = Some now,
                                   x_finished_at = None, x_last_error = []\<rparr>, db3))"

definition Claim_run ::
  "string \<Rightarrow> duration \<Rightarrow> time \<Rightarrow> sched_db \<Rightarrow> (sched_error, run option) result \<times> sched_db" where
  "Claim_run owner lockTTL now db =
     (if owner = [] \<or> lockTTL \<le> 0 then (Inl OwnerRequired, db)
      else
        let db0 = bury_runs now (recover_runs now (expire_locks now db));
            (run, db1) = claimPendingRun owner now lockTTL db0
        in case run of
             Some x \<Rightarrow> (Inr (Some x), db1)
           | None \<Rightarrow> (let (run', db2) = claimDueJob owner now lockTTL db1 in (Inr run', db2)))"

section \<open>The end of a run\<close>

text \<open>\<open>DELETE FROM job_locks WHERE job_id=(SELECT job_id FROM scheduled_runs WHERE id=?) AND owner=?\<close>\<close>

definition release_of_run :: "int \<Rightarrow> string \<Rightarrow> sched_db \<Rightarrow> sched_db" where
  "release_of_run runID owner db =
     (case run_by_id runID db of None \<Rightarrow> db | Some r \<Rightarrow> release_lock (r_job_id r) owner db)"

definition finish_run ::
  "int \<Rightarrow> string \<Rightarrow> run_state \<Rightarrow> string \<Rightarrow> time \<Rightarrow> sched_db \<Rightarrow> (sched_error, unit) result \<times> sched_db" where
  "finish_run runID owner state summary now db =
     (let p = (\<lambda>r. r_id r = runID \<and> r_state r = Running);
          close = (\<lambda>r. r\<lparr>r_state := state, r_finished_at := Some now, r_last_error := summary,
                         r_updated_at := now\<rparr>)
      in if rows_affected p (runs db) \<noteq> 1 then (Inl NotRunning, db)
         else (Inr (), release_of_run runID owner (db\<lparr>runs := update_where p close (runs db)\<rparr>)))"

definition Complete_run :: "int \<Rightarrow> string \<Rightarrow> time \<Rightarrow> sched_db \<Rightarrow> (sched_error, unit) result \<times> sched_db" where
  "Complete_run runID owner now db = finish_run runID owner Completed [] now db"

definition Deny_run ::
  "int \<Rightarrow> string \<Rightarrow> string option \<Rightarrow> time \<Rightarrow> sched_db \<Rightarrow> (sched_error, unit) result \<times> sched_db" where
  "Deny_run runID owner cause now db = finish_run runID owner Denied (safeSummary cause) now db"

definition MarkCancelled_run ::
  "int \<Rightarrow> string \<Rightarrow> time \<Rightarrow> sched_db \<Rightarrow> (sched_error, unit) result \<times> sched_db" where
  "MarkCancelled_run runID owner now db = finish_run runID owner Cancelled ''job cancelled'' now db"

definition Fail_run ::
  "int \<Rightarrow> string \<Rightarrow> string option \<Rightarrow> time \<Rightarrow> sched_db \<Rightarrow> (sched_error, unit) result \<times> sched_db" where
  "Fail_run runID owner cause now db =
     (case select_one (\<lambda>r. r_id r = runID \<and> r_state r = Running) (runs db) of
        None \<Rightarrow> (Inl NoRows, db)
      | Some r \<Rightarrow>
          (case job_by_id (r_job_id r) db of
             None \<Rightarrow> (Inl NoRows, db)
           | Some j \<Rightarrow>
               let dead = r_attempts r \<ge> j_max_attempts j;
                   available = (if dead then now
                                else now + boundedBackoff (j_retry_backoff j) (r_attempts r));
                   p = (\<lambda>q. r_id q = runID \<and> r_state q = Running);
                   retry = (\<lambda>q. q\<lparr>r_state := if dead then Dead else Pending, r_available_at := available,
                                  r_finished_at := if dead then Some now else None,
                                  r_last_error := safeSummary cause, r_updated_at := now\<rparr>)
               in (Inr (), release_of_run runID owner (db\<lparr>runs := update_where p retry (runs db)\<rparr>))))"

definition Requeue_run ::
  "int \<Rightarrow> string \<Rightarrow> string \<Rightarrow> time \<Rightarrow> sched_db \<Rightarrow> (sched_error, unit) result \<times> sched_db" where
  "Requeue_run runID owner summary now db =
     (let p = (\<lambda>r. r_id r = runID \<and> r_state r = Running);
          back = (\<lambda>r. r\<lparr>r_state := Pending, r_attempts := if r_attempts r > 0 then r_attempts r - 1 else 0,
                        r_available_at := now, r_started_at := None,
                        r_last_error := safeSummary (Some summary), r_updated_at := now\<rparr>)
      in (Inr (), release_of_run runID owner (db\<lparr>runs := update_where p back (runs db)\<rparr>)))"

definition job_cancelled :: "sched_db \<Rightarrow> string \<Rightarrow> bool" where
  "job_cancelled db i \<longleftrightarrow> exists_where (\<lambda>j. j_id j = i \<and> j_cancelled_at j \<noteq> None) (jobs db)"

definition RecoverStale :: "time \<Rightarrow> sched_db \<Rightarrow> int \<times> sched_db" where
  "RecoverStale now db =
     (let db1 = expire_locks now db;
          p = (\<lambda>r. r_state r = Running \<and> \<not> locked (r_job_id r) db1);
          recover = (\<lambda>r. r\<lparr>r_state := if job_cancelled db1 (r_job_id r) then Cancelled else Pending,
                           r_available_at := now,
                           r_finished_at := if job_cancelled db1 (r_job_id r) then Some now else None,
                           r_last_error := ''recovered after stale lock'', r_updated_at := now\<rparr>)
      in (int (rows_affected p (runs db1)), db1\<lparr>runs := update_where p recover (runs db1)\<rparr>))"

text \<open>\<open>History\<close>: the joined rows of a job, ORDER BY r.id.\<close>

definition History :: "string \<Rightarrow> sched_db \<Rightarrow> run list" where
  "History i db =
     (case job_by_id i db of
        None \<Rightarrow> []
      | Some j \<Rightarrow> map (\<lambda>r. scanRun r j) (sort_key r_id (filter (\<lambda>r. r_job_id r = i) (runs db))))"

end
