(* ===== verification/SchedInv.thy ===== *)
theory SchedInv
  imports SchedStore
begin

text \<open>
  The invariant of the scheduler's tables and its preservation: keys are unique, every run and
  every lock belongs to a job, the idempotency key of a run is the one of its job and instant,
  and no run has more attempts than its job allows.
\<close>

section \<open>The invariant\<close>

definition attempts_allowed :: "job list \<Rightarrow> run_row \<Rightarrow> bool" where
  "attempts_allowed js r \<longleftrightarrow>
     (\<exists>j \<in> set js. j_id j = r_job_id r \<and> 0 \<le> r_attempts r \<and> r_attempts r \<le> j_max_attempts j)"

definition run_ok :: "job list \<Rightarrow> int \<Rightarrow> run_row \<Rightarrow> bool" where
  "run_ok js seq r \<longleftrightarrow> 0 < r_id r \<and> r_id r \<le> seq
     \<and> r_key r = runKey (r_job_id r) (r_scheduled_for r) \<and> attempts_allowed js r"

definition sched_inv :: "sched_db \<Rightarrow> bool" where
  "sched_inv db \<longleftrightarrow> 0 \<le> run_seq db
     \<and> distinct (map j_id (jobs db)) \<and> distinct (map j_creation_key (jobs db))
     \<and> (\<forall>j \<in> set (jobs db). job_ok j)
     \<and> distinct (map r_id (runs db)) \<and> distinct (map r_key (runs db))
     \<and> (\<forall>r \<in> set (runs db). run_ok (jobs db) (run_seq db) r)
     \<and> distinct (map l_job_id (locks db))
     \<and> (\<forall>l \<in> set (locks db). l_job_id l \<in> j_id ` set (jobs db))"

lemma sched_inv_empty: "sched_inv empty_db"
  by (simp add: sched_inv_def empty_db_def)

lemma sched_invD:
  assumes "sched_inv db"
  shows "distinct (map j_id (jobs db))" "distinct (map r_id (runs db))"
    "distinct (map r_key (runs db))" "distinct (map l_job_id (locks db))"
    "\<And>j. j \<in> set (jobs db) \<Longrightarrow> job_ok j"
    "\<And>r. r \<in> set (runs db) \<Longrightarrow> run_ok (jobs db) (run_seq db) r"
  using assms by (simp_all add: sched_inv_def)

section \<open>Looking rows up\<close>

lemma job_by_idD: "job_by_id i db = Some j \<Longrightarrow> j \<in> set (jobs db) \<and> j_id j = i"
  unfolding job_by_id_def by (drule select_oneD) simp

lemma run_by_idD: "run_by_id i db = Some r \<Longrightarrow> r \<in> set (runs db) \<and> r_id r = i"
  unfolding run_by_id_def by (drule select_oneD) simp

lemma job_by_id_self: "sched_inv db \<Longrightarrow> j \<in> set (jobs db) \<Longrightarrow> job_by_id (j_id j) db = Some j"
  unfolding job_by_id_def by (rule select_one_key) (auto dest: sched_invD)

lemma run_by_id_self: "sched_inv db \<Longrightarrow> r \<in> set (runs db) \<Longrightarrow> run_by_id (r_id r) db = Some r"
  unfolding run_by_id_def by (rule select_one_key) (auto dest: sched_invD)

lemma run_has_job:
  assumes "sched_inv db" and "r \<in> set (runs db)"
  obtains j where "job_by_id (r_job_id r) db = Some j" and "j \<in> set (jobs db)"
    and "0 \<le> r_attempts r" and "r_attempts r \<le> j_max_attempts j"
proof -
  from assms obtain j where "j \<in> set (jobs db)" "j_id j = r_job_id r" "0 \<le> r_attempts r"
    "r_attempts r \<le> j_max_attempts j"
    by (auto dest!: sched_invD(6) simp: run_ok_def attempts_allowed_def)
  with assms(1) that job_by_id_self show ?thesis by metis
qed

lemma locked_iff: "locked i db \<longleftrightarrow> (\<exists>l \<in> set (locks db). l_job_id l = i)"
  by (simp add: locked_def)

lemma same_run: "sched_inv db \<Longrightarrow> r \<in> set (runs db) \<Longrightarrow> q \<in> set (runs db) \<Longrightarrow> r_id r = r_id q \<Longrightarrow> r = q"
  by (rule distinct_map_eq [OF sched_invD(2)])

section \<open>The statements preserve it\<close>

text \<open>An update of jobs that leaves the key, the creation key and the attempt budget alone.\<close>

definition job_keeping :: "(job \<Rightarrow> job) \<Rightarrow> bool" where
  "job_keeping f \<longleftrightarrow> (\<forall>j. j_id (f j) = j_id j \<and> j_creation_key (f j) = j_creation_key j
     \<and> j_max_attempts (f j) = j_max_attempts j \<and> (job_ok j \<longrightarrow> job_ok (f j)))"

lemma attempts_allowed_update:
  assumes "job_keeping f"
  shows "attempts_allowed (update_where p f js) r = attempts_allowed js r"
  using assms unfolding attempts_allowed_def job_keeping_def Bex_def set_update_where
  by (metis (no_types, lifting))

lemma job_ids_update: "job_keeping f \<Longrightarrow> map j_id (update_where p f js) = map j_id js"
  by (rule map_update_where) (simp add: job_keeping_def)

lemma job_id_set_update: "job_keeping f \<Longrightarrow> j_id ` set (update_where p f js) = j_id ` set js"
  using job_ids_update [of f p js] by (metis list.set_map)

lemma update_jobs_keeps [keeps]:
  assumes "sched_inv db" and f: "job_keeping f"
  shows "sched_inv (db\<lparr>jobs := update_where p f (jobs db)\<rparr>)"
proof -
  have "map j_creation_key (update_where p f (jobs db)) = map j_creation_key (jobs db)"
    by (rule map_update_where) (use f in \<open>simp add: job_keeping_def\<close>)
  moreover have "job_ok j" if "j \<in> set (update_where p f (jobs db))" for j
    using that assms by (auto simp: set_update_where job_keeping_def dest: sched_invD(5) split: if_splits)
  moreover have "run_ok (update_where p f (jobs db)) (run_seq db) r" if "r \<in> set (runs db)" for r
    using sched_invD(6) [OF assms(1) that] by (simp add: run_ok_def attempts_allowed_update [OF f])
  ultimately show ?thesis
    using assms(1) by (simp add: sched_inv_def job_ids_update [OF f] job_id_set_update [OF f])
qed

lemma update_job_keeps [keeps]: "sched_inv db \<Longrightarrow> job_keeping f \<Longrightarrow> sched_inv (update_job i f db)"
  unfolding update_job_def by (rule update_jobs_keeps)

text \<open>An update of runs that leaves identity alone and respects the attempt budget.\<close>

definition run_keeping :: "(run_row \<Rightarrow> run_row) \<Rightarrow> bool" where
  "run_keeping f \<longleftrightarrow> (\<forall>r. r_id (f r) = r_id r \<and> r_key (f r) = r_key r \<and> r_job_id (f r) = r_job_id r
     \<and> r_scheduled_for (f r) = r_scheduled_for r)"

lemma update_runs_keeps [keeps]:
  assumes "sched_inv db" and f: "run_keeping f"
    and att: "\<And>r. r \<in> set (runs db) \<Longrightarrow> p r \<Longrightarrow> attempts_allowed (jobs db) (f r)"
  shows "sched_inv (db\<lparr>runs := update_where p f (runs db)\<rparr>)"
proof -
  have "map r_id (update_where p f (runs db)) = map r_id (runs db)"
    and "map r_key (update_where p f (runs db)) = map r_key (runs db)"
    by (rule map_update_where; use f in \<open>simp add: run_keeping_def\<close>)+
  moreover have "run_ok (jobs db) (run_seq db) r" if "r \<in> set (update_where p f (runs db))" for r
    using that att f sched_invD(6) [OF assms(1)]
    by (auto simp: set_update_where run_ok_def run_keeping_def split: if_splits)
  ultimately show ?thesis using assms(1) by (simp add: sched_inv_def)
qed

lemma attempts_same:
  "attempts_allowed js r \<Longrightarrow> r_job_id q = r_job_id r \<Longrightarrow> r_attempts q = r_attempts r \<Longrightarrow> attempts_allowed js q"
  by (simp add: attempts_allowed_def)

lemma run_attempts: "sched_inv db \<Longrightarrow> r \<in> set (runs db) \<Longrightarrow> attempts_allowed (jobs db) r"
  by (drule (1) sched_invD(6)) (simp add: run_ok_def)

lemma delete_locks_keeps [keeps]:
  "sched_inv db \<Longrightarrow> sched_inv (db\<lparr>locks := delete_where p (locks db)\<rparr>)"
  by (auto simp: sched_inv_def)

lemma expire_locks_keeps [keeps]: "sched_inv db \<Longrightarrow> sched_inv (expire_locks now db)"
  unfolding expire_locks_def by (rule delete_locks_keeps)

lemma release_lock_keeps [keeps]: "sched_inv db \<Longrightarrow> sched_inv (release_lock i owner db)"
  unfolding release_lock_def by (rule delete_locks_keeps)

lemma release_of_run_keeps [keeps]: "sched_inv db \<Longrightarrow> sched_inv (release_of_run i owner db)"
  by (simp add: release_of_run_def release_lock_keeps split: option.split)

lemma acquireLock_eq:
  "acquireLock j owner now ttl db =
     (if locked (j_id j) db then (db, False)
      else (db\<lparr>locks := locks db @ [\<lparr>l_job_id = j_id j, l_owner = owner, l_acquired_at = now,
              l_expires_at = now + max (wrap64 (j_timeout j + second)) ttl\<rparr>]\<rparr>, True))"
  by (auto simp: acquireLock_def insert_or_ignore_def Let_def locked_iff max_def)

lemma acquireLock_keeps [keeps]:
  assumes "sched_inv db" and "j \<in> set (jobs db)" and "acquireLock j owner now ttl db = (db', ok)"
  shows "sched_inv db'"
  using assms by (fastforce simp: acquireLock_eq sched_inv_def locked_iff split: if_splits)

lemma acquireLock_frame [frame]:
  "acquireLock j owner now ttl db = (db', ok) \<Longrightarrow>
   jobs db' = jobs db \<and> runs db' = runs db \<and> run_seq db' = run_seq db"
  by (auto simp: acquireLock_eq split: if_splits)

lemma insert_run_eq:
  "insert_run r db =
     (if \<exists>q \<in> set (runs db). r_key q = r_key r then (db, False)
      else (db\<lparr>runs := runs db @ [r\<lparr>r_id := run_seq db + 1\<rparr>], run_seq := run_seq db + 1\<rparr>, True))"
  by (simp add: insert_run_def insert_or_ignore_def)

lemma insert_run_keeps [keeps]:
  assumes "sched_inv db" and "insert_run r db = (db', ok)"
    and "attempts_allowed (jobs db) r" and "r_key r = runKey (r_job_id r) (r_scheduled_for r)"
  shows "sched_inv db'"
proof -
  have "r_id q \<le> run_seq db" if "q \<in> set (runs db)" for q
    using sched_invD(6) [OF assms(1) that] by (simp add: run_ok_def)
  moreover have "attempts_allowed (jobs db) (r\<lparr>r_id := k\<rparr>)" for k
    using assms(3) by (simp add: attempts_allowed_def)
  ultimately show ?thesis
    using assms by (fastforce simp: insert_run_eq sched_inv_def run_ok_def split: if_splits)
qed

section \<open>The operations preserve it\<close>

lemmas run_updates = run_keeping_def job_keeping_def

lemma job_ok_stamp [simp]:
  "job_ok (j\<lparr>j_next_run := t\<rparr>) = job_ok j" "job_ok (j\<lparr>j_updated_at := t\<rparr>) = job_ok j"
  "job_ok (j\<lparr>j_enabled := b\<rparr>) = job_ok j" "job_ok (j\<lparr>j_cancelled_at := c\<rparr>) = job_ok j"
  by (simp_all add: job_ok_def kind_ok_def)

lemma recover_runs_keeps [keeps]: "sched_inv db \<Longrightarrow> sched_inv (recover_runs now db)"
  unfolding recover_runs_def
  by (rule update_runs_keeps) (auto simp: run_updates attempts_allowed_def dest: run_attempts)

lemma bury_runs_keeps [keeps]: "sched_inv db \<Longrightarrow> sched_inv (bury_runs now db)"
  unfolding bury_runs_def
  by (rule update_runs_keeps) (auto simp: run_updates attempts_allowed_def dest: run_attempts)

lemma Create_job_keeps [keeps]:
  assumes "sched_inv db"
  shows "sched_inv (snd (Create_job tz input now db))"
proof (cases "normalizeJob tz input now")
  case (Inr j)
  then have "job_ok j" by (rule normalizeJob_job_ok)
  with assms Inr show ?thesis
    by (auto simp: Create_job_def sched_inv_def run_ok_def attempts_allowed_def)
qed (use assms in \<open>simp add: Create_job_def\<close>)

lemma SetEnabled_keeps [keeps]: "sched_inv db \<Longrightarrow> sched_inv (snd (SetEnabled i b now db))"
  by (simp add: SetEnabled_def Let_def update_jobs_keeps run_updates)

lemma cancel_job_keeping:
  "job_keeping (\<lambda>j. j\<lparr>j_enabled := b, j_cancelled_at := c j, j_updated_at := now\<rparr>)"
  by (simp add: job_keeping_def)

lemma Cancel_job_keeps [keeps]:
  assumes "sched_inv db"
  shows "sched_inv (snd (Cancel_job i now db))"
proof -
  let ?db1 = "db\<lparr>jobs := update_where (\<lambda>j. j_id j = i) (\<lambda>j. j\<lparr>j_enabled := False,
      j_cancelled_at := coalesce (j_cancelled_at j) now, j_updated_at := now\<rparr>) (jobs db)\<rparr>"
  have inv1: "sched_inv ?db1"
    using assms cancel_job_keeping by (rule update_jobs_keeps)
  have "sched_inv (?db1\<lparr>runs := update_where (\<lambda>r. r_job_id r = i \<and> r_state r = Pending)
      (\<lambda>r. r\<lparr>r_state := Cancelled, r_finished_at := Some now, r_last_error := ''job cancelled'',
             r_updated_at := now\<rparr>) (runs ?db1)\<rparr>)"
    by (rule update_runs_keeps [OF inv1])
       (use run_attempts [OF inv1] in \<open>auto simp: run_updates attempts_allowed_def\<close>)
  with assms show ?thesis by (simp add: Cancel_job_def Let_def)
qed

lemma exhausted_false:
  assumes "sched_inv db" and "r \<in> set (runs db)" and "\<not> exhausted db r"
  shows "attempts_allowed (jobs db) (r\<lparr>r_attempts := r_attempts r + 1\<rparr>)"
  using assms by (auto simp: exhausted_def attempts_allowed_def dest: job_by_idD elim!: run_has_job)

text \<open>After the burial no pending run is out of attempts, so that starting one respects the budget.\<close>

lemma exhausted_jobs: "jobs db = jobs db' \<Longrightarrow> exhausted db r = exhausted db' r"
  by (simp add: exhausted_def job_by_id_def)

lemma bury_runs_left:
  assumes "r \<in> set (runs (bury_runs now db))" and "r_state r = Pending"
  shows "\<not> exhausted (bury_runs now db) r"
proof -
  from assms(1) have "r \<in> set (update_where (\<lambda>r. r_state r = Pending \<and> exhausted db r)
      (\<lambda>r. r\<lparr>r_state := Dead, r_finished_at := Some now,
             r_last_error := ''retry budget exhausted during recovery'', r_updated_at := now\<rparr>) (runs db))"
    by (simp add: bury_runs_def)
  then have "\<not> exhausted db r"
    using assms(2) by (cases rule: update_whereE) simp_all
  then show ?thesis using exhausted_jobs [of "bury_runs now db" db r] by (simp add: bury_runs_def)
qed

definition budgeted :: "sched_db \<Rightarrow> bool" where
  "budgeted db \<longleftrightarrow> (\<forall>r \<in> set (runs db). r_state r = Pending \<longrightarrow> \<not> exhausted db r)"

lemma claimPendingRun_keeps [keeps]:
  assumes "sched_inv db" and "budgeted db"
  shows "sched_inv (snd (claimPendingRun owner now ttl db))"
proof (cases "first_by run_order (filter (run_ready now db) (runs db))")
  case (Some r)
  then have r: "r \<in> set (runs db)" "run_ready now db r" by (auto dest: first_by_in)
  obtain j where j: "job_by_id (r_job_id r) db = Some j" "j \<in> set (jobs db)"
    using assms(1) r(1) by (rule run_has_job)
  obtain db1 ok where a: "acquireLock j owner now ttl db = (db1, ok)" by fastforce
  have inv1: "sched_inv db1" by (rule acquireLock_keeps [OF assms(1) j(2) a])
  have "attempts_allowed (jobs db1) (q\<lparr>r_attempts := r_attempts q + 1\<rparr>)"
    if "q \<in> set (runs db1)" "r_state q = Pending" for q
    using exhausted_false [OF assms(1)] assms(2) that acquireLock_frame [OF a]
    by (simp add: budgeted_def)
  then have "sched_inv (db1\<lparr>runs := update_where (\<lambda>q. r_id q = r_id r \<and> r_state q = Pending)
      (\<lambda>q. q\<lparr>r_state := Running, r_attempts := r_attempts q + 1, r_started_at := Some now,
             r_updated_at := now\<rparr>) (runs db1)\<rparr>)"
    by (intro update_runs_keeps inv1) (auto simp: run_updates attempts_allowed_def)
  with inv1 a Some j show ?thesis by (simp add: claimPendingRun_def Let_def)
qed (use assms in \<open>simp add: claimPendingRun_def\<close>)

lemma job_of_keeping: "job_keeping f \<Longrightarrow> attempts_allowed (jobs (update_job i f db)) r = attempts_allowed (jobs db) r"
  by (simp add: update_job_def attempts_allowed_update)

lemma claimDueJob_keeps [keeps]:
  assumes "sched_inv db"
  shows "sched_inv (snd (claimDueJob owner now ttl db))"
proof (cases "first_by job_order (filter (job_due now db) (jobs db))")
  case (Some j)
  then have j: "j \<in> set (jobs db)" by (auto dest: first_by_in)
  then have ok: "job_ok j" using assms by (auto dest: sched_invD)
  obtain db1 got where a: "acquireLock j owner now ttl db = (db1, got)" by fastforce
  have inv1: "sched_inv db1" by (rule acquireLock_keeps [OF assms j a])
  have frame1: "jobs db1 = jobs db" using acquireLock_frame [OF a] by simp
  have skip: "attempts_allowed (jobs db) (skipped_run j now)"
    and start: "attempts_allowed (jobs db) (started_run j now)"
    using j ok by (auto simp: attempts_allowed_def skipped_run_def started_run_def job_ok_def)
  let ?adv = "\<lambda>k. k\<lparr>j_next_run := NextRecurring (j_next_run j) (j_every j) now, j_updated_at := now\<rparr>"
  let ?dis = "\<lambda>k. k\<lparr>j_enabled := False, j_updated_at := now\<rparr>"
  have kp: "job_keeping ?adv" "job_keeping ?dis" by (simp_all add: run_updates)
  define db2 where "db2 = (if j_kind j = Recurring then update_job (j_id j) ?adv db1 else update_job (j_id j) ?dis db1)"
  have inv2: "sched_inv db2" using inv1 kp by (simp add: db2_def update_job_keeps)
  obtain db3 ins where i3: "insert_run (started_run j now) db2 = (db3, ins)" by fastforce
  have "attempts_allowed (jobs db2) (started_run j now)"
    using start frame1 kp by (simp add: db2_def job_of_keeping)
  then have inv3: "sched_inv db3"
    by (rule insert_run_keeps [OF inv2 i3]) (simp add: started_run_def)
  obtain db4 ins4 where i4: "insert_run (skipped_run j now) db1 = (db4, ins4)" by fastforce
  have inv4: "sched_inv db4"
    by (rule insert_run_keeps [OF inv1 i4]) (use skip frame1 in \<open>simp_all add: skipped_run_def\<close>)
  show ?thesis
    using assms Some a inv1 inv3 inv4 i3 i4 kp
    by (auto simp: claimDueJob_def Let_def db2_def release_lock_keeps update_job_keeps)
qed (use assms in \<open>simp add: claimDueJob_def\<close>)

lemma budgeted_bury: "budgeted (bury_runs now db)"
  by (simp add: budgeted_def bury_runs_left)

definition claim_ready :: "time \<Rightarrow> sched_db \<Rightarrow> sched_db" where
  "claim_ready now db = bury_runs now (recover_runs now (expire_locks now db))"

lemma claim_ready_keeps [keeps]: "sched_inv db \<Longrightarrow> sched_inv (claim_ready now db)"
  by (simp add: claim_ready_def bury_runs_keeps recover_runs_keeps expire_locks_keeps)

lemma Claim_run_eq:
  "Claim_run owner ttl now db =
     (if owner = [] \<or> ttl \<le> 0 then (Inl OwnerRequired, db)
      else case claimPendingRun owner now ttl (claim_ready now db) of
             (Some x, db1) \<Rightarrow> (Inr (Some x), db1)
           | (None, db1) \<Rightarrow> (Inr (fst (claimDueJob owner now ttl db1)), snd (claimDueJob owner now ttl db1)))"
  by (simp add: Claim_run_def claim_ready_def Let_def split: prod.split option.split)

lemma Claim_run_keeps [keeps]:
  assumes "sched_inv db"
  shows "sched_inv (snd (Claim_run owner ttl now db))"
proof -
  obtain x db1 where c: "claimPendingRun owner now ttl (claim_ready now db) = (x, db1)" by fastforce
  have "sched_inv (snd (claimPendingRun owner now ttl (claim_ready now db)))"
    by (rule claimPendingRun_keeps [OF claim_ready_keeps [OF assms]]) (simp add: claim_ready_def budgeted_bury)
  with c have "sched_inv db1" by simp
  with assms c show ?thesis
    by (cases x) (simp_all add: Claim_run_eq claimDueJob_keeps)
qed

lemma finish_run_keeps [keeps]: "sched_inv db \<Longrightarrow> sched_inv (snd (finish_run i owner st msg now db))"
  by (auto simp: finish_run_def Let_def run_updates attempts_allowed_def
      intro!: release_of_run_keeps update_runs_keeps dest: run_attempts)

lemma Fail_run_keeps [keeps]: "sched_inv db \<Longrightarrow> sched_inv (snd (Fail_run i owner cause now db))"
  by (auto simp: Fail_run_def Let_def run_updates attempts_allowed_def
      intro!: release_of_run_keeps update_runs_keeps dest: run_attempts split: option.split)

lemma Requeue_run_keeps [keeps]: "sched_inv db \<Longrightarrow> sched_inv (snd (Requeue_run i owner msg now db))"
  by (fastforce simp: Requeue_run_def Let_def run_updates attempts_allowed_def
      intro!: release_of_run_keeps update_runs_keeps dest: run_attempts)

lemma RecoverStale_keeps [keeps]: "sched_inv db \<Longrightarrow> sched_inv (snd (RecoverStale now db))"
  unfolding RecoverStale_def Let_def snd_conv
  by (rule update_runs_keeps)
     (auto simp: run_updates attempts_allowed_def expire_locks_keeps dest: run_attempts [OF expire_locks_keeps])

section \<open>The store as a machine\<close>

text \<open>The operations a client or a worker calls, with the clock reading they take.\<close>

datatype sched_op =
    OpCreate job
  | OpSetEnabled string bool
  | OpCancel string
  | OpClaim string duration
  | OpComplete int string
  | OpDeny int string "string option"
  | OpMarkCancelled int string
  | OpFail int string "string option"
  | OpRequeue int string string
  | OpRecover

fun sched_step :: "(string \<Rightarrow> bool) \<Rightarrow> sched_op \<times> time \<Rightarrow> sched_db \<Rightarrow> sched_db" where
  "sched_step tz (OpCreate j, now) db = snd (Create_job tz j now db)"
| "sched_step tz (OpSetEnabled i b, now) db = snd (SetEnabled i b now db)"
| "sched_step tz (OpCancel i, now) db = snd (Cancel_job i now db)"
| "sched_step tz (OpClaim w ttl, now) db = snd (Claim_run w ttl now db)"
| "sched_step tz (OpComplete i w, now) db = snd (Complete_run i w now db)"
| "sched_step tz (OpDeny i w c, now) db = snd (Deny_run i w c now db)"
| "sched_step tz (OpMarkCancelled i w, now) db = snd (MarkCancelled_run i w now db)"
| "sched_step tz (OpFail i w c, now) db = snd (Fail_run i w c now db)"
| "sched_step tz (OpRequeue i w m, now) db = snd (Requeue_run i w m now db)"
| "sched_step tz (OpRecover, now) db = snd (RecoverStale now db)"

definition sched_run :: "(string \<Rightarrow> bool) \<Rightarrow> (sched_op \<times> time) list \<Rightarrow> sched_db" where
  "sched_run tz es = fold (sched_step tz) es empty_db"

lemmas op_keeps = Create_job_keeps SetEnabled_keeps Cancel_job_keeps Claim_run_keeps finish_run_keeps
  Fail_run_keeps Requeue_run_keeps RecoverStale_keeps

lemma sched_step_keeps: "sched_inv db \<Longrightarrow> sched_inv (sched_step tz e db)"
proof (cases e)
  case (Pair oper now)
  then show "sched_inv db \<Longrightarrow> ?thesis"
    by (cases oper) (simp_all add: op_keeps Complete_run_def Deny_run_def MarkCancelled_run_def)
qed

interpretation store: machine "sched_step tz" sched_inv
  by unfold_locales (rule sched_step_keeps)

lemma sched_run_inv: "sched_inv (sched_run tz es)"
  unfolding sched_run_def by (rule store.run_keeps) (rule sched_inv_empty)

section \<open>Final states stay\<close>

definition final_state :: "run_state \<Rightarrow> bool" where
  "final_state st \<longleftrightarrow> st \<noteq> Pending \<and> st \<noteq> Running"

definition state_of :: "sched_db \<Rightarrow> int \<Rightarrow> run_state option" where
  "state_of db i = map_option r_state (run_by_id i db)"

text \<open>An update of runs that only touches runs in a state that is not final.\<close>

definition live_update :: "(run_row \<Rightarrow> bool) \<Rightarrow> (run_row \<Rightarrow> run_row) \<Rightarrow> bool" where
  "live_update p f \<longleftrightarrow> (\<forall>r. p r \<longrightarrow> \<not> final_state (r_state r) \<and> r_id (f r) = r_id r)"

lemma state_of_update:
  assumes "live_update p f" and "state_of db i = Some st" and "final_state st"
    and "runs db' = update_where p f (runs db)"
  shows "state_of db' i = Some st"
proof -
  have "run_by_id i db' = map_option (\<lambda>r. if p r then f r else r) (run_by_id i db)"
    unfolding run_by_id_def assms(4) by (rule select_one_update) (use assms(1) in \<open>simp add: live_update_def\<close>)
  with assms(1-3) show ?thesis by (auto simp: state_of_def live_update_def)
qed

lemma state_of_same: "runs db' = runs db \<Longrightarrow> state_of db' i = state_of db i"
  by (simp add: state_of_def run_by_id_def)

lemma state_of_jobs [simp]: "state_of (db\<lparr>jobs := js\<rparr>) i = state_of db i"
  by (rule state_of_same) simp

lemma state_of_append:
  "state_of db i = Some st \<Longrightarrow> runs db' = runs db @ rs \<Longrightarrow> state_of db' i = Some st"
  by (auto simp: state_of_def run_by_id_def select_one_append)

lemma release_frame [frame]:
  "runs (release_lock i owner db) = runs db" "runs (release_of_run k owner db) = runs db"
  "jobs (release_lock i owner db) = jobs db" "jobs (release_of_run k owner db) = jobs db"
  "runs (update_job i f db) = runs db" "runs (expire_locks now db) = runs db"
  "jobs (expire_locks now db) = jobs db" "locks (update_job i f db) = locks db"
  by (simp_all add: release_lock_def release_of_run_def update_job_def expire_locks_def split: option.split)

lemma state_of_insert:
  "state_of db i = Some st \<Longrightarrow> state_of (fst (insert_run r db)) i = Some st"
  by (auto simp: insert_run_eq intro: state_of_append)

lemma state_of_update_job [simp]: "state_of (update_job k f db) i = state_of db i"
  by (rule state_of_same) (simp add: frame)

lemma state_of_release [simp]:
  "state_of (release_lock k w db) i = state_of db i" "state_of (release_of_run n w db) i = state_of db i"
  "state_of (expire_locks now db) i = state_of db i"
  by (rule state_of_same, simp add: frame)+

lemma state_of_acquire: "acquireLock j w now ttl db = (db', ok) \<Longrightarrow> state_of db' i = state_of db i"
  by (rule state_of_same) (simp add: frame)

lemma final_recover: "state_of db i = Some st \<Longrightarrow> final_state st \<Longrightarrow> state_of (recover_runs now db) i = Some st"
  by (rule state_of_update) (auto simp: recover_runs_def live_update_def final_state_def)

lemma final_bury: "state_of db i = Some st \<Longrightarrow> final_state st \<Longrightarrow> state_of (bury_runs now db) i = Some st"
  by (rule state_of_update) (auto simp: bury_runs_def live_update_def final_state_def)

lemma final_claimPending:
  assumes "state_of db i = Some st" and "final_state st"
  shows "state_of (snd (claimPendingRun w now ttl db)) i = Some st"
proof -
  have "state_of (db1\<lparr>runs := update_where (\<lambda>q. r_id q = k \<and> r_state q = Pending) f (runs db1)\<rparr>) i = Some st"
    if "state_of db1 i = Some st" "\<And>q. r_id (f q) = r_id q" for db1 k f
    by (rule state_of_update [OF _ that(1) assms(2)])
       (use that(2) in \<open>auto simp: live_update_def final_state_def\<close>)
  then show ?thesis
    using assms(1)
    by (auto simp: claimPendingRun_def Let_def state_of_acquire split: option.split prod.split)
qed

lemma final_claimDue:
  assumes "state_of db i = Some st"
  shows "state_of (snd (claimDueJob w now ttl db)) i = Some st"
proof (cases "first_by job_order (filter (job_due now db) (jobs db))")
  case (Some j)
  obtain db1 ok where a: "acquireLock j w now ttl db = (db1, ok)" by fastforce
  then have s1: "state_of db1 i = Some st" using assms by (simp add: state_of_acquire)
  have ins: "state_of db' i = Some st"
    if "insert_run r db2 = (db', b)" "state_of db2 i = Some st" for r db2 db' b
    using state_of_insert [OF that(2), of r] that(1) by simp
  show ?thesis
    using Some a s1
    by (auto simp: claimDueJob_def Let_def state_of_insert intro: ins split: prod.split)
qed (use assms in \<open>simp add: claimDueJob_def\<close>)

lemma final_Claim:
  assumes "state_of db i = Some st" and "final_state st"
  shows "state_of (snd (Claim_run w ttl now db)) i = Some st"
proof -
  have r: "state_of (claim_ready now db) i = Some st"
    using assms by (simp add: claim_ready_def final_bury final_recover)
  obtain x db1 where c: "claimPendingRun w now ttl (claim_ready now db) = (x, db1)" by fastforce
  with final_claimPending [OF r assms(2), of w now ttl] have "state_of db1 i = Some st" by simp
  with assms(1) c show ?thesis by (cases x) (simp_all add: Claim_run_eq final_claimDue)
qed

lemma final_running_update:
  "state_of db i = Some st \<Longrightarrow> final_state st \<Longrightarrow> (\<And>r. r_id (f r) = r_id r) \<Longrightarrow>
   (\<And>r. p r \<Longrightarrow> r_state r = Running \<or> r_state r = Pending) \<Longrightarrow>
   state_of (db\<lparr>runs := update_where p f (runs db)\<rparr>) i = Some st
   \<and> state_of (db\<lparr>jobs := js, runs := update_where p f (runs db)\<rparr>) i = Some st"
  by (intro conjI; rule state_of_update [where p = p and f = f]) (auto simp: live_update_def final_state_def)

lemma final_sched_step:
  assumes "state_of db i = Some st" and "final_state st"
  shows "state_of (sched_step tz e db) i = Some st"
proof -
  obtain oper now where e: "e = (oper, now)" by (cases e)
  have finish: "state_of (snd (finish_run k w s m now db)) i = Some st" for k w s m
    using assms by (simp add: finish_run_def Let_def final_running_update)
  have fail: "state_of (snd (Fail_run k w c now db)) i = Some st" for k w c
    using assms by (simp add: Fail_run_def Let_def final_running_update split: option.split)
  have requeue: "state_of (snd (Requeue_run k w m now db)) i = Some st" for k w m
    using assms by (simp add: Requeue_run_def Let_def final_running_update)
  have recover: "state_of (snd (RecoverStale now db)) i = Some st"
    unfolding RecoverStale_def Let_def snd_conv using assms by (simp add: final_running_update)
  have cancel: "state_of (snd (Cancel_job k now db)) i = Some st" for k
    using assms by (simp add: Cancel_job_def Let_def final_running_update)
  have create: "state_of (snd (Create_job tz j now db)) i = Some st" for j
    using assms(1) by (simp add: Create_job_def split: sum.split)
  have enable: "state_of (snd (SetEnabled k b now db)) i = Some st" for k b
    using assms(1) by (simp add: SetEnabled_def Let_def)
  show ?thesis
    unfolding e using assms finish fail requeue recover cancel create enable final_Claim
    by (cases oper) (simp_all add: Complete_run_def Deny_run_def MarkCancelled_run_def)
qed

interpretation final_runs: final_machine "sched_step tz" sched_inv state_of final_state
  by unfold_locales (rule final_sched_step)

end
