(* ===== verification/SchedLocks.thy ===== *)
theory SchedLocks
  imports SchedInv
begin

text \<open>
  What the table \<open>job_locks\<close> is for: two workers never execute runs of one job at the same
  time. \<open>running\<close> is the set of runs in progress with their jobs, \<open>held\<close> the set of
  locked jobs; each operation is described by what it does to these two sets.
\<close>

section \<open>Runs in progress and locks\<close>

definition running :: "sched_db \<Rightarrow> (int \<times> string) set" where
  "running db = (\<lambda>r. (r_id r, r_job_id r)) ` {r \<in> set (runs db). r_state r = Running}"

definition held :: "sched_db \<Rightarrow> string set" where
  "held db = l_job_id ` set (locks db)"

definition one_per_job :: "sched_db \<Rightarrow> bool" where
  "one_per_job db \<longleftrightarrow> inj_on snd (running db)"

definition exclusive :: "sched_db \<Rightarrow> bool" where
  "exclusive db \<longleftrightarrow> snd ` running db \<subseteq> held db \<and> one_per_job db"

lemma exclusive_empty: "exclusive empty_db"
  by (simp add: exclusive_def one_per_job_def running_def empty_db_def)

lemma locked_held: "locked i db \<longleftrightarrow> i \<in> held db"
  by (auto simp: locked_iff held_def)

lemma runningI: "r \<in> set (runs db) \<Longrightarrow> r_state r = Running \<Longrightarrow> (r_id r, r_job_id r) \<in> running db"
  by (auto simp: running_def)

lemma runningE:
  assumes "x \<in> running db"
  obtains r where "r \<in> set (runs db)" and "r_state r = Running" and "x = (r_id r, r_job_id r)"
  using assms by (auto simp: running_def)

lemma running_cong: "runs db = runs db' \<Longrightarrow> running db = running db'"
  by (simp add: running_def)

lemma held_cong: "locks db = locks db' \<Longrightarrow> held db = held db'"
  by (simp add: held_def)

lemma exclusive_mono:
  assumes "exclusive db" and "running db' \<subseteq> running db" and "held db \<subseteq> held db'"
  shows "exclusive db'"
  using assms by (auto simp: exclusive_def one_per_job_def intro: inj_on_subset)

text \<open>An update after which the touched runs are not in progress takes runs out of the set.\<close>

lemma running_stop:
  assumes "\<And>r. r_state (f r) \<noteq> Running" and "runs db' = update_where p f (runs db)"
  shows "running db' \<subseteq> running db"
proof
  fix x assume "x \<in> running db'"
  then obtain r where r: "r \<in> set (update_where p f (runs db))" "r_state r = Running"
    "x = (r_id r, r_job_id r)" by (auto elim!: runningE simp: assms(2))
  from r(1,2) have "r \<in> set (runs db)" by (cases rule: update_whereE) (use assms(1) in auto)
  with r show "x \<in> running db" by (auto intro: runningI)
qed

lemma running_stop_one:
  assumes "\<And>r. r_state (f r) \<noteq> Running"
    and "runs db' = update_where (\<lambda>r. r_id r = k \<and> r_state r = Running) f (runs db)"
  shows "running db' \<subseteq> {x \<in> running db. fst x \<noteq> k}"
proof
  fix x assume "x \<in> running db'"
  then obtain r where r: "r \<in> set (update_where (\<lambda>r. r_id r = k \<and> r_state r = Running) f (runs db))"
    "r_state r = Running" "x = (r_id r, r_job_id r)" by (auto elim!: runningE simp: assms(2))
  from r(1,2) have "r \<in> set (runs db) \<and> r_id r \<noteq> k"
    by (cases rule: update_whereE) (use assms(1) in auto)
  with r show "x \<in> {x \<in> running db. fst x \<noteq> k}" by (auto intro: runningI)
qed

lemma held_release: "held (release_lock i w db) \<subseteq> held db" "held db - {i} \<subseteq> held (release_lock i w db)"
  by (auto simp: held_def release_lock_def)

section \<open>Claiming\<close>

lemma one_per_job_mono: "one_per_job db \<Longrightarrow> running db' \<subseteq> running db \<Longrightarrow> one_per_job db'"
  unfolding one_per_job_def by (rule inj_on_subset)

text \<open>After the recovery every run in progress has a lock, whatever expired before.\<close>

lemma recover_locked:
  assumes "r \<in> set (runs (recover_runs now db))" and "r_state r = Running"
  shows "r_job_id r \<in> held (recover_runs now db)"
proof -
  have "held (recover_runs now db) = held db" by (rule held_cong) (simp add: recover_runs_def)
  moreover have "locked (r_job_id r) db"
    using assms unfolding recover_runs_def by (auto elim!: update_whereE)
  ultimately show ?thesis by (simp add: locked_held)
qed

lemma claim_ready_exclusive:
  assumes "one_per_job db"
  shows "exclusive (claim_ready now db)"
proof -
  let ?e = "expire_locks now db" and ?r = "recover_runs now (expire_locks now db)"
  have "running ?e = running db" by (rule running_cong) (simp add: frame)
  moreover have "running ?r \<subseteq> running ?e"
    by (rule running_stop [of _ ?r]) (simp_all add: recover_runs_def)
  ultimately have "one_per_job ?r" using assms one_per_job_mono by metis
  moreover have "snd ` running ?r \<subseteq> held ?r" using recover_locked by (auto elim!: runningE)
  ultimately have "exclusive ?r" by (simp add: exclusive_def)
  moreover have "running (bury_runs now ?r) \<subseteq> running ?r"
    by (rule running_stop [of _ "bury_runs now ?r"]) (simp_all add: bury_runs_def)
  moreover have "held (bury_runs now ?r) = held ?r" by (rule held_cong) (simp add: bury_runs_def)
  ultimately show ?thesis unfolding claim_ready_def by (auto intro: exclusive_mono)
qed

lemma acquire_held:
  assumes "acquireLock j w now ttl db = (db', True)"
  shows "held db' = insert (j_id j) (held db)" and "j_id j \<notin> held db"
  using assms by (auto simp: acquireLock_eq held_def locked_iff split: if_splits)

lemma running_start:
  assumes "runs db' = update_where (\<lambda>q. r_id q = k \<and> r_state q = Pending) f (runs db)"
    and "\<And>q. r_id (f q) = r_id q \<and> r_job_id (f q) = r_job_id q"
    and "sched_inv db" and "r \<in> set (runs db)" and "r_id r = k"
  shows "running db' \<subseteq> insert (k, r_job_id r) (running db)"
proof
  fix x assume "x \<in> running db'"
  then obtain q where q: "q \<in> set (update_where (\<lambda>q. r_id q = k \<and> r_state q = Pending) f (runs db))"
    "r_state q = Running" "x = (r_id q, r_job_id q)" by (auto elim!: runningE simp: assms(1))
  from q(1) show "x \<in> insert (k, r_job_id r) (running db)"
  proof (cases rule: update_whereE)
    case kept
    with q show ?thesis by (auto intro: runningI)
  next
    case (changed q0)
    then have "q0 = r" using same_run [OF assms(3) _ assms(4)] assms(5) by simp
    with changed q assms(2,5) show ?thesis by simp
  qed
qed

lemma exclusive_add:
  assumes "exclusive db" and "i \<notin> held db" and "running db' \<subseteq> insert (k, i) (running db)"
    and "held db' = insert i (held db)"
  shows "exclusive db'"
proof -
  have "\<forall>x \<in> running db. snd x \<noteq> i" using assms(1,2) by (auto simp: exclusive_def)
  then have "inj_on snd (insert (k, i) (running db))"
    using assms(1) by (auto simp: exclusive_def one_per_job_def )
  then have "one_per_job db'" using assms(3) unfolding one_per_job_def by (rule inj_on_subset)
  moreover have "snd ` running db' \<subseteq> held db'"
    using assms(1,3,4) by (force simp: exclusive_def)
  ultimately show ?thesis by (simp add: exclusive_def)
qed

lemma exclusive_release_idle:
  assumes "exclusive db" and "\<And>x. x \<in> running db \<Longrightarrow> snd x \<noteq> i"
  shows "exclusive (release_lock i w db)"
proof -
  have "running (release_lock i w db) = running db" by (rule running_cong) (simp add: frame)
  moreover have "snd ` running db \<subseteq> held (release_lock i w db)"
    using assms held_release(2) [of db i w] by (fastforce simp: exclusive_def)
  ultimately show ?thesis using assms(1) by (simp add: exclusive_def one_per_job_def)
qed


lemma acquire_not: "acquireLock j w now ttl db = (db', False) \<Longrightarrow> db' = db"
  by (auto simp: acquireLock_eq split: if_splits)

lemma idle_unheld: "exclusive db \<Longrightarrow> i \<notin> held db \<Longrightarrow> x \<in> running db \<Longrightarrow> snd x \<noteq> i"
  by (auto simp: exclusive_def)

lemma claimPendingRun_exclusive:
  assumes "sched_inv db" and "exclusive db"
  shows "exclusive (snd (claimPendingRun w now ttl db))"
proof (cases "first_by run_order (filter (run_ready now db) (runs db))")
  case (Some r)
  then have r: "r \<in> set (runs db)" by (auto dest: first_by_in)
  obtain j where j: "job_by_id (r_job_id r) db = Some j" "j \<in> set (jobs db)"
    using assms(1) r by (rule run_has_job)
  then have jid: "j_id j = r_job_id r" by (simp add: job_by_idD)
  obtain db1 ok where a: "acquireLock j w now ttl db = (db1, ok)" by fastforce
  show ?thesis
  proof (cases ok)
    case True
    with a have "acquireLock j w now ttl db = (db1, True)" by simp
    note h = acquire_held [OF this]
    define start where "start = (\<lambda>q :: run_row. q\<lparr>r_state := Running, r_attempts := r_attempts q + 1,
        r_started_at := Some now, r_updated_at := now\<rparr>)"
    define db2 where "db2 = db1\<lparr>runs := update_where (\<lambda>q. r_id q = r_id r \<and> r_state q = Pending) start (runs db1)\<rparr>"
    have "running db2 \<subseteq> insert (r_id r, r_job_id r) (running db)"
      by (rule running_start [where f = start, OF _ _ assms(1) r])
         (use acquireLock_frame [OF a] in \<open>simp_all add: db2_def start_def\<close>)
    moreover have "held db2 = insert (r_job_id r) (held db)"
      using h(1) jid held_cong [of db2 db1] by (simp add: db2_def)
    ultimately have "exclusive db2"
      using assms(2) h(2) jid by (intro exclusive_add [of db "r_job_id r" db2 "r_id r"]) simp_all
    then show ?thesis using Some j a True by (simp add: claimPendingRun_def Let_def db2_def start_def)
  next
    case False
    with a have "db1 = db" using acquire_not by simp
    with a False Some j assms(2) show ?thesis by (simp add: claimPendingRun_def Let_def)
  qed
qed (use assms in \<open>simp add: claimPendingRun_def\<close>)

lemma running_insert:
  assumes "insert_run r db = (db', ok)"
  shows "running db' \<subseteq> (if r_state r = Running \<and> ok then insert (run_seq db + 1, r_job_id r) (running db)
                        else running db)"
    and "locks db' = locks db" and "ok \<Longrightarrow> run_seq db' = run_seq db + 1"
  using assms by (auto simp: insert_run_eq running_def split: if_splits)

lemma claimDueJob_exclusive:
  assumes "exclusive db"
  shows "exclusive (snd (claimDueJob w now ttl db))"
proof (cases "first_by job_order (filter (job_due now db) (jobs db))")
  case (Some j)
  obtain db1 ok where a: "acquireLock j w now ttl db = (db1, ok)" by fastforce
  show ?thesis
  proof (cases ok)
    case True
    with a have "acquireLock j w now ttl db = (db1, True)" by simp
    note h = acquire_held [OF this]
    have run1: "running db1 = running db" by (rule running_cong) (use acquireLock_frame [OF a] in simp)
    have idle: "snd x \<noteq> j_id j" if "x \<in> running db" for x
      by (rule idle_unheld [OF assms h(2) that])
    text \<open>A state that has gained the lock and no run gives the lock back without loss.\<close>
    have giveback: "exclusive (release_lock (j_id j) w s)"
      if "running s \<subseteq> running db" "held s = held db1" for s
    proof (rule exclusive_release_idle)
      show "exclusive s" by (rule exclusive_mono [OF assms that(1)]) (use that(2) h(1) in auto)
    qed (use that(1) idle in auto)
    let ?adv = "\<lambda>k. k\<lparr>j_next_run := NextRecurring (j_next_run j) (j_every j) now, j_updated_at := now\<rparr>"
    let ?dis = "\<lambda>k. k\<lparr>j_enabled := False, j_updated_at := now\<rparr>"
    define db2 where "db2 = (if j_kind j = Recurring then update_job (j_id j) ?adv db1 else update_job (j_id j) ?dis db1)"
    have frame2: "running db2 = running db" "held db2 = held db1"
      using run1 by (auto simp: db2_def frame intro!: held_cong trans [OF running_cong run1])
    obtain db3 ins where i3: "insert_run (started_run j now) db2 = (db3, ins)" by fastforce
    obtain db4 ins4 where i4: "insert_run (skipped_run j now) db1 = (db4, ins4)" by fastforce
    have "running (update_job (j_id j) ?adv db4) \<subseteq> running db"
      using running_insert(1) [OF i4] run1 running_cong [of "update_job (j_id j) ?adv db4" db4]
      by (simp add: skipped_run_def frame)
    moreover have "held (update_job (j_id j) ?adv db4) = held db1"
      by (rule held_cong) (simp add: frame running_insert(2) [OF i4])
    ultimately have skip: "exclusive (release_lock (j_id j) w (update_job (j_id j) ?adv db4))" by (rule giveback)
    have held3: "held db3 = held db1" using frame2(2) held_cong [OF running_insert(2) [OF i3]] by simp
    have start: "exclusive db3" if "ins"
      by (rule exclusive_add [OF assms h(2)])
         (use running_insert(1) [OF i3] frame2 held3 h(1) that in \<open>auto simp: started_run_def\<close>)
    have lost: "exclusive (release_lock (j_id j) w db3)" if "\<not> ins"
      by (rule giveback) (use running_insert(1) [OF i3] that frame2 held3 in auto)
    show ?thesis
      using Some a True i3 i4 skip start lost by (cases ins) (auto simp: claimDueJob_def Let_def db2_def)
  next
    case False
    with a have "db1 = db" using acquire_not by simp
    with a False Some assms show ?thesis by (simp add: claimDueJob_def Let_def)
  qed
qed (use assms in \<open>simp add: claimDueJob_def\<close>)

lemma Claim_run_exclusive:
  assumes "sched_inv db" and "exclusive db"
  shows "exclusive (snd (Claim_run w ttl now db))"
proof -
  have r: "exclusive (claim_ready now db)"
    by (rule claim_ready_exclusive) (use assms(2) in \<open>simp add: exclusive_def\<close>)
  obtain x db1 where c: "claimPendingRun w now ttl (claim_ready now db) = (x, db1)" by fastforce
  with claimPendingRun_exclusive [OF claim_ready_keeps [OF assms(1)] r, of w now ttl]
  have "exclusive db1" by simp
  with assms(2) c show ?thesis by (cases x) (simp_all add: Claim_run_eq claimDueJob_exclusive)
qed

section \<open>Ending a run\<close>

text \<open>
  Whoever takes the one running run of a job out of progress may release the lock of the job.
\<close>

lemma exclusive_stop_release:
  assumes "sched_inv db" and "exclusive db" and "r \<in> set (runs db)" and "r_id r = k" and "r_state r = Running"
    and f: "\<And>q. r_state (f q) \<noteq> Running" "\<And>q. r_id (f q) = r_id q \<and> r_job_id (f q) = r_job_id q"
    and db': "db' = db\<lparr>runs := update_where (\<lambda>q. r_id q = k \<and> r_state q = Running) f (runs db)\<rparr>"
  shows "exclusive (release_of_run k w db')"
proof -
  have sub: "running db' \<subseteq> {x \<in> running db. fst x \<noteq> k}"
    by (rule running_stop_one) (use f(1) db' in simp_all)
  then have ex: "exclusive db'"
    by (intro exclusive_mono [OF assms(2)]) (auto simp: db' held_def)
  have "run_by_id k db' = map_option (\<lambda>q. if r_id q = k \<and> r_state q = Running then f q else q) (run_by_id k db)"
    unfolding run_by_id_def db' by (simp add: select_one_update f(2))
  then have row: "run_by_id k db' = Some (f r)"
    using run_by_id_self [OF assms(1,3)] assms(4,5) by simp
  have mine: "(k, r_job_id r) \<in> running db" using runningI [OF assms(3,5)] assms(4) by simp
  have "snd x \<noteq> r_job_id r" if "x \<in> running db'" for x
  proof
    assume "snd x = r_job_id r"
    moreover have "x \<in> running db" "fst x \<noteq> k" using sub that by auto
    ultimately have "x = (k, r_job_id r)"
      using assms(2) mine inj_onD [of snd "running db" x "(k, r_job_id r)"]
      by (simp add: exclusive_def one_per_job_def)
    with \<open>fst x \<noteq> k\<close> show False by simp
  qed
  then have "exclusive (release_lock (r_job_id r) w db')" by (rule exclusive_release_idle [OF ex])
  then show ?thesis by (simp add: release_of_run_def row f(2))
qed

lemma finish_run_exclusive:
  assumes "sched_inv db" and "exclusive db" and "st \<noteq> Running"
  shows "exclusive (snd (finish_run k w st msg now db))"
proof (cases "rows_affected (\<lambda>r. r_id r = k \<and> r_state r = Running) (runs db) = 1")
  case True
  from rows_affected_oneD [OF this] obtain r where
    "r \<in> set (runs db)" "r_id r = k" "r_state r = Running" by blast
  from exclusive_stop_release [OF assms(1,2) this]
  show ?thesis using True assms(3) by (simp add: finish_run_def Let_def)
qed (use assms in \<open>simp add: finish_run_def Let_def\<close>)

lemma Fail_run_exclusive:
  assumes "sched_inv db" and "exclusive db"
  shows "exclusive (snd (Fail_run k w c now db))"
proof (cases "select_one (\<lambda>r. r_id r = k \<and> r_state r = Running) (runs db)")
  case (Some r)
  then have "r \<in> set (runs db)" "r_id r = k" "r_state r = Running" by (auto dest: select_oneD)
  from exclusive_stop_release [OF assms this]
  show ?thesis using Some assms(2) by (simp add: Fail_run_def Let_def split: option.split)
qed (use assms in \<open>simp add: Fail_run_def\<close>)

text \<open>\<open>Requeue\<close> deletes the lock whether or not its UPDATE changed a row, so it is safe
  only on a run that is in progress (or on none at all).\<close>

definition requeue_safe :: "int \<Rightarrow> sched_db \<Rightarrow> bool" where
  "requeue_safe k db \<longleftrightarrow> (case state_of db k of None \<Rightarrow> True | Some st \<Rightarrow> st = Running)"

lemma Requeue_run_exclusive:
  assumes "sched_inv db" and "exclusive db" and "requeue_safe k db"
  shows "exclusive (snd (Requeue_run k w msg now db))"
proof (cases "run_by_id k db")
  case None
  then have none: "\<forall>r \<in> set (runs db). r_id r \<noteq> k" by (simp add: run_by_id_def select_one_None)
  then have "update_where (\<lambda>r. r_id r = k \<and> r_state r = Running) f (runs db) = runs db" for f
    by (intro update_where_none) simp
  with None assms(2) show ?thesis by (simp add: Requeue_run_def Let_def release_of_run_def)
next
  case (Some r)
  with assms(3) have "r \<in> set (runs db)" "r_id r = k" "r_state r = Running"
    by (auto simp: requeue_safe_def state_of_def dest: run_by_idD)
  from exclusive_stop_release [OF assms(1,2) this]
  show ?thesis by (simp add: Requeue_run_def Let_def)
qed

section \<open>The other operations\<close>

lemma exclusive_same: "exclusive db \<Longrightarrow> runs db' = runs db \<Longrightarrow> locks db' = locks db \<Longrightarrow> exclusive db'"
  by (simp add: exclusive_def one_per_job_def running_def held_def)

lemma Create_job_exclusive: "exclusive db \<Longrightarrow> exclusive (snd (Create_job tz j now db))"
  by (auto simp: Create_job_def elim: exclusive_same split: sum.split)

lemma SetEnabled_exclusive: "exclusive db \<Longrightarrow> exclusive (snd (SetEnabled i b now db))"
  by (auto simp: SetEnabled_def Let_def elim: exclusive_same)

lemma Cancel_job_exclusive:
  assumes "exclusive db"
  shows "exclusive (snd (Cancel_job i now db))"
proof -
  have "exclusive (db\<lparr>jobs := js, runs := update_where p (\<lambda>r. r\<lparr>r_state := Cancelled,
      r_finished_at := Some now, r_last_error := msg, r_updated_at := now\<rparr>) (runs db)\<rparr>)" for js p msg
    by (rule exclusive_mono [OF assms running_stop [OF _ refl [THEN trans]]]) (auto simp: held_def)
  with assms show ?thesis by (simp add: Cancel_job_def Let_def)
qed

lemma RecoverStale_exclusive:
  assumes "exclusive db"
  shows "exclusive (snd (RecoverStale now db))"
proof -
  define db1 where "db1 = expire_locks now db"
  define f where "f = (\<lambda>r :: run_row. r\<lparr>r_state := if job_cancelled db1 (r_job_id r) then Cancelled else Pending,
      r_available_at := now, r_finished_at := if job_cancelled db1 (r_job_id r) then Some now else None,
      r_last_error := ''recovered after stale lock'', r_updated_at := now\<rparr>)"
  define db2 where "db2 = db1\<lparr>runs := update_where (\<lambda>r. r_state r = Running \<and> \<not> locked (r_job_id r) db1) f (runs db1)\<rparr>"
  have f: "r_state (f r) \<noteq> Running" for r by (simp add: f_def)
  have "running db2 \<subseteq> running db1" by (rule running_stop [OF f]) (simp add: db2_def)
  moreover have "running db1 = running db" by (rule running_cong) (simp add: db1_def frame)
  ultimately have one: "one_per_job db2" using assms one_per_job_mono by (metis exclusive_def)
  have held: "held db2 = held db1" by (rule held_cong) (simp add: db2_def)
  have "snd x \<in> held db2" if x: "x \<in> running db2" for x
  proof -
    obtain r where r: "r \<in> set (runs db2)" "r_state r = Running" "x = (r_id r, r_job_id r)"
      using x by (rule runningE)
    have "r \<in> set (update_where (\<lambda>r. r_state r = Running \<and> \<not> locked (r_job_id r) db1) f (runs db1))"
      using r(1) by (simp add: db2_def)
    then have "locked (r_job_id r) db1" by (cases rule: update_whereE) (use r f in auto)
    then show ?thesis by (simp add: r(3) held locked_held)
  qed
  with one have "exclusive db2" by (auto simp: exclusive_def)
  then show ?thesis by (simp add: RecoverStale_def Let_def db1_def db2_def f_def)
qed

section \<open>Reachable states\<close>

fun guarded :: "sched_op \<Rightarrow> sched_db \<Rightarrow> bool" where
  "guarded (OpRequeue k w msg) db = requeue_safe k db"
| "guarded _ db = True"

text \<open>
  The states the store reaches from empty tables by any interleaving of the operations of any
  number of workers and clients, at any clock readings, \<open>Requeue\<close> being called on runs in
  progress only.
\<close>

inductive sched_reach :: "(string \<Rightarrow> bool) \<Rightarrow> sched_db \<Rightarrow> bool" for tz where
  reach_empty: "sched_reach tz empty_db"
| reach_step: "sched_reach tz db \<Longrightarrow> guarded oper db \<Longrightarrow> sched_reach tz (sched_step tz (oper, now) db)"

lemma sched_step_exclusive:
  assumes "sched_inv db" and "exclusive db" and "guarded oper db"
  shows "exclusive (sched_step tz (oper, now) db)"
  using assms
  by (cases oper)
     (simp_all add: Create_job_exclusive SetEnabled_exclusive Cancel_job_exclusive Claim_run_exclusive
       finish_run_exclusive Fail_run_exclusive Requeue_run_exclusive RecoverStale_exclusive
       Complete_run_def Deny_run_def MarkCancelled_run_def)

lemma sched_reach_inv: "sched_reach tz db \<Longrightarrow> sched_inv db \<and> exclusive db"
  by (induction rule: sched_reach.induct)
     (simp_all add: sched_inv_empty exclusive_empty sched_step_keeps sched_step_exclusive)

end
