(* ===== verification/SchedSpec.thy ===== *)
theory SchedSpec
  imports SchedLocks
begin

text \<open>
  What the scheduler's tables promise to their clients: who may run what and when. The order of
  the queues, the keys of runs, the retry delay and the next occurrence of a recurring job, the
  outcome of \<open>Claim\<close>, of \<open>RecoverStale\<close> and of \<open>Cancel\<close>.
\<close>

section \<open>The order of the queues\<close>

lemma text_lex_total:
  "P \<or> Q \<Longrightarrow> (bytes_less a b \<or> a = b \<and> P) \<or> (bytes_less b a \<or> b = a \<and> Q)"
  using bytes_less_linear [of a b] by blast

lemma text_lex_trans:
  "bytes_less a b \<or> a = b \<and> P \<Longrightarrow> bytes_less b c \<or> b = c \<and> Q \<Longrightarrow> (P \<Longrightarrow> Q \<Longrightarrow> R) \<Longrightarrow>
   bytes_less a c \<or> a = c \<and> R"
  by (auto intro: bytes_less_trans)

lemma run_order_total: "run_order r q \<or> run_order q r"
  unfolding run_order_def by (rule text_lex_total) (rule linear)

lemma run_order_trans: "run_order r q \<Longrightarrow> run_order q s \<Longrightarrow> run_order r s"
  unfolding run_order_def by (erule (1) text_lex_trans) (rule order_trans)

lemma job_order_total: "job_order j k \<or> job_order k j"
  unfolding job_order_def by (rule text_lex_total) (rule bytes_le_total)

lemma job_order_trans: "job_order j k \<Longrightarrow> job_order k l \<Longrightarrow> job_order j l"
  unfolding job_order_def by (erule (1) text_lex_trans) (rule bytes_le_trans)

interpretation run_queue: row_order run_order
  by unfold_locales (rule run_order_total, erule (1) run_order_trans)

interpretation job_queue: row_order job_order
  by unfold_locales (rule job_order_total, erule (1) job_order_trans)

section \<open>The keys of runs\<close>

lemma split_at_colon:
  assumes "CHR '':'' \<notin> set a" and "CHR '':'' \<notin> set b" and "a @ CHR '':'' # s = b @ CHR '':'' # t"
  shows "a = b \<and> s = t"
  using assms
proof (induction a arbitrary: b)
  case Nil
  then show ?case by (cases b) auto
next
  case (Cons c a)
  then show ?case by (cases b) auto
qed

lemma runKey_eq:
  assumes "is_identifier i" and "is_identifier k" and "in_range t" and "in_range s"
    and "runKey i t = runKey k s"
  shows "i = k \<and> t = s"
proof -
  have "i @ CHR '':'' # formatTime t = k @ CHR '':'' # formatTime s" using assms(5) by (simp add: runKey_def)
  then have "i = k \<and> formatTime t = formatTime s"
    using assms(1,2) by (intro split_at_colon) (simp_all add: is_identifier_no_colon)
  with formatTime_inj [OF assms(3,4)] show ?thesis by simp
qed

section \<open>Delays\<close>

lemma hour_nat: "24 * hour = 86400000000000"
  by (simp add: units)

lemma boundedBackoff_eq:
  assumes "0 < base" and "base \<le> 24 * hour" and "1 \<le> attempts"
  shows "boundedBackoff base attempts = min (24 * hour) (base * 2 ^ nat (min 10 (attempts - 1)))"
proof -
  define n where "n = nat (min 10 (attempts - 1))"
  have "n \<le> 10" by (simp add: n_def)
  then have "(2::int) ^ n \<le> 2 ^ 10" by (intro power_increasing) simp_all
  moreover have pos: "(1::int) \<le> 2 ^ n" by simp
  ultimately have p: "(2::int) ^ n \<le> 1024" "1 \<le> (2::int) ^ n" by simp_all
  have "base * 2 ^ n \<le> (24 * hour) * 1024"
    using assms p by (intro mult_mono) simp_all
  then have up: "base * 2 ^ n \<le> max_int64" by (simp add: units max_int64_def)
  have lo: "0 \<le> base * 2 ^ n" using assms(1) by simp
  have w1: "wrap64 (2 ^ n) = 2 ^ n"
    by (rule wrap64_id; unfold min_int64_def max_int64_def; use p in linarith)
  have w2: "wrap64 (base * 2 ^ n) = base * 2 ^ n"
    by (rule wrap64_id [OF _ up]) (use lo in \<open>simp add: min_int64_def\<close>)
  have shift: "(if (if attempts - 1 < 0 then 0 else attempts - 1) > 10 then 10
      else (if attempts - 1 < 0 then 0 else attempts - 1)) = min 10 (attempts - 1)"
    using assms(3) by (simp add: min_def)
  have "boundedBackoff base attempts =
      (if base * 2 ^ n > 24 * hour \<or> base * 2 ^ n < 0 then 24 * hour else base * 2 ^ n)"
    using assms(1) unfolding boundedBackoff_def Let_def shift n_def [symmetric] w1 w2 by simp
  with lo show ?thesis by (simp add: n_def min_def)
qed

lemma NextRecurring_eq:
  assumes "0 < every" and "anchor \<le> now" and "now - anchor \<le> max_int64 - every"
  shows "NextRecurring anchor every now = anchor + ((now - anchor) div every + 1) * every"
proof -
  define d where "d = now - anchor"
  have d: "0 \<le> d" "d \<le> max_int64 - every" using assms by (simp_all add: d_def)
  have sub: "time_sub now anchor = d"
    using d assms(1) by (simp add: time_sub_def d_def min_int64_def max_int64_def)
  have m: "d div every * every + d mod every = d" by simp
  have "0 \<le> d mod every" and q0: "0 \<le> d div every"
    using d(1) assms(1) by (simp_all add: pos_imp_zdiv_nonneg_iff)
  with m have q: "d div every * every \<le> d" "0 \<le> d div every" by linarith+
  have "d div every * 1 \<le> d div every * every" using q(2) assms(1) by (intro mult_left_mono) simp_all
  with q(1) have "d div every \<le> d" by simp
  then have s: "wrap64 (d div every + 1) = d div every + 1"
    using q d assms(1) by (intro wrap64_id) (simp_all add: min_int64_def max_int64_def)
  have "(d div every + 1) * every \<le> d + every" using q(1) by (simp add: distrib_right)
  moreover have "0 \<le> (d div every + 1) * every" using q(2) assms(1) by simp
  ultimately have "wrap64 ((d div every + 1) * every) = (d div every + 1) * every"
    using d(2) by (intro wrap64_id) (simp_all add: min_int64_def)
  with assms(1,2) sub s show ?thesis by (simp add: NextRecurring_def Let_def d_def)
qed


section \<open>What Claim returns\<close>

lemma claim_ready_jobs [frame]: "jobs (claim_ready now db) = jobs db"
  by (simp add: claim_ready_def bury_runs_def recover_runs_def frame)

text \<open>The state in which a worker executes a run it was handed.\<close>

definition executing :: "string \<Rightarrow> time \<Rightarrow> duration \<Rightarrow> run \<Rightarrow> sched_db \<Rightarrow> bool" where
  "executing w now ttl x db \<longleftrightarrow>
     (\<exists>r \<in> set (runs db). r_id r = x_id x \<and> r_job_id r = j_id (x_job x) \<and> r_state r = Running
        \<and> r_attempts r = x_attempts x \<and> r_key r = x_key x \<and> r_scheduled_for r = x_scheduled_for x
        \<and> r_started_at r = Some now)
     \<and> (\<exists>l \<in> set (locks db). l_job_id l = j_id (x_job x) \<and> l_owner l = w
        \<and> l_expires_at l \<ge> now + ttl \<and> l_expires_at l \<ge> now + wrap64 (j_timeout (x_job x) + second))"

lemma executingI:
  assumes "r \<in> set (runs db)" "r_id r = x_id x" "r_job_id r = j_id (x_job x)" "r_state r = Running"
    "r_attempts r = x_attempts x" "r_key r = x_key x" "r_scheduled_for r = x_scheduled_for x"
    "r_started_at r = Some now"
    and "l \<in> set (locks db)" "l_job_id l = j_id (x_job x)" "l_owner l = w"
    "l_expires_at l = now + max (wrap64 (j_timeout (x_job x) + second)) ttl"
  shows "executing w now ttl x db"
  using assms by (auto simp: executing_def)

lemma claimPendingRun_Some:
  assumes inv: "sched_inv db" and c: "claimPendingRun w now ttl db = (Some x, db')"
  obtains r j where "first_by run_order (filter (run_ready now db) (runs db)) = Some r"
    and "r \<in> set (runs db)" and "run_ready now db r" and "job_by_id (r_job_id r) db = Some j"
    and "x = (scanRun r j)\<lparr>x_state := Running, x_attempts := r_attempts r + 1, x_started_at := Some now\<rparr>"
    and "executing w now ttl x db'"
proof -
  from c obtain r where f: "first_by run_order (filter (run_ready now db) (runs db)) = Some r"
    by (auto simp: claimPendingRun_def split: option.splits)
  then have r: "r \<in> set (runs db)" "run_ready now db r" by (auto dest: first_by_in)
  obtain j where j: "job_by_id (r_job_id r) db = Some j" using inv r(1) by (rule run_has_job)
  have free: "\<not> locked (j_id j) db" using r(2) job_by_idD [OF j] by (simp add: run_ready_def)
  define db1 where "db1 = fst (acquireLock j w now ttl db)"
  have a: "acquireLock j w now ttl db = (db1, True)"
    using free by (simp add: acquireLock_eq db1_def)
  define start where "start = (\<lambda>q :: run_row. q\<lparr>r_state := Running, r_attempts := r_attempts q + 1,
      r_started_at := Some now, r_updated_at := now\<rparr>)"
  have pend: "r_state r = Pending" using r(2) by (simp add: run_ready_def)
  have x: "x = (scanRun r j)\<lparr>x_state := Running, x_attempts := r_attempts r + 1, x_started_at := Some now\<rparr>"
    and db': "db' = db1\<lparr>runs := update_where (\<lambda>q. r_id q = r_id r \<and> r_state q = Pending) start (runs db1)\<rparr>"
    using c f j a by (auto simp: claimPendingRun_def Let_def start_def split: if_splits)
  have row: "start r \<in> set (runs db')"
    using r(1) pend acquireLock_frame [OF a] by (auto simp: db' set_update_where intro!: bexI [of _ r])
  have lock: "\<lparr>l_job_id = j_id j, l_owner = w, l_acquired_at = now,
      l_expires_at = now + max (wrap64 (j_timeout j + second)) ttl\<rparr> \<in> set (locks db')"
    using free a by (auto simp: db' acquireLock_eq)
  have "executing w now ttl x db'"
    by (rule executingI [OF row _ _ _ _ _ _ _ lock])
       (use job_by_idD [OF j] in \<open>simp_all add: x start_def scanRun_def\<close>)
  with that f r j x show ?thesis by blast
qed

lemma claimDueJob_Some:
  assumes c: "claimDueJob w now ttl db = (Some x, db')"
  obtains j where "first_by job_order (filter (job_due now db) (jobs db)) = Some j"
    and "j \<in> set (jobs db)" and "job_due now db j" and "x_job x = j" and "x_scheduled_for x = j_next_run j"
    and "x_attempts x = 1" and "x_key x \<notin> r_key ` set (runs db)" and "executing w now ttl x db'"
proof -
  from c obtain j where f: "first_by job_order (filter (job_due now db) (jobs db)) = Some j"
    by (auto simp: claimDueJob_def split: option.splits)
  then have j: "j \<in> set (jobs db)" "job_due now db j" by (auto dest: first_by_in)
  define row where "row = \<lparr>l_job_id = j_id j, l_owner = w, l_acquired_at = now,
      l_expires_at = now + max (wrap64 (j_timeout j + second)) ttl\<rparr>"
  define db1 where "db1 = db\<lparr>locks := locks db @ [row]\<rparr>"
  have a: "acquireLock j w now ttl db = (db1, True)"
    using j(2) by (simp add: acquireLock_eq job_due_def db1_def row_def)
  define db2 where "db2 = (if j_kind j = Recurring
      then update_job (j_id j) (\<lambda>k. k\<lparr>j_next_run := NextRecurring (j_next_run j) (j_every j) now, j_updated_at := now\<rparr>) db1
      else update_job (j_id j) (\<lambda>k. k\<lparr>j_enabled := False, j_updated_at := now\<rparr>) db1)"
  have same: "runs db2 = runs db" "locks db2 = locks db @ [row]"
    by (simp_all add: db2_def frame db1_def)
  obtain db3 ins where i3: "insert_run (started_run j now) db2 = (db3, ins)" by fastforce
  have c': "ins \<and> db' = db3 \<and> x = \<lparr>x_id = run_seq db3, x_job = j, x_scheduled_for = j_next_run j,
      x_key = runKey (j_id j) (j_next_run j), x_state = Running, x_attempts = 1, x_available_at = now,
      x_started_at = Some now, x_finished_at = None, x_last_error = []\<rparr>"
    using c f a i3 by (auto simp: claimDueJob_def Let_def db2_def split: if_splits)
  then have ins: "ins" and db': "db' = db3" by simp_all
  have db3: "db3 = db2\<lparr>runs := runs db2 @ [(started_run j now)\<lparr>r_id := run_seq db2 + 1\<rparr>], run_seq := run_seq db2 + 1\<rparr>"
    and fresh: "x_key x \<notin> r_key ` set (runs db)"
    using i3 ins c' same by (auto simp: insert_run_eq started_run_def split: if_splits)
  have "executing w now ttl x db'"
    by (rule executingI [of "(started_run j now)\<lparr>r_id := run_seq db2 + 1\<rparr>" _ _ _ row])
       (use c' same in \<open>simp_all add: db3 started_run_def row_def\<close>)
  with that f j c' fresh show ?thesis by simp
qed

lemma Claim_run_Some:
  assumes "sched_inv db" and "Claim_run w ttl now db = (Inr (Some x), db')"
  obtains (again) r j db0 where "db0 = claim_ready now db" and "r \<in> set (runs db0)"
      and "first_by run_order (filter (run_ready now db0) (runs db0)) = Some r"
      and "run_ready now db0 r" and "job_by_id (r_job_id r) db0 = Some j" and "x_job x = j"
      and "x_id x = r_id r" and "x_attempts x = r_attempts r + 1" and "executing w now ttl x db'"
    | (first) db1 where "claimPendingRun w now ttl (claim_ready now db) = (None, db1)"
      and "first_by job_order (filter (job_due now db1) (jobs db1)) = Some (x_job x)"
      and "x_job x \<in> set (jobs db1)" and "job_due now db1 (x_job x)" and "x_attempts x = 1"
      and "x_scheduled_for x = j_next_run (x_job x)"
      and "x_key x \<notin> r_key ` set (runs db1)" and "executing w now ttl x db'"
proof -
  obtain y db1 where c: "claimPendingRun w now ttl (claim_ready now db) = (y, db1)" by fastforce
  have ok: "\<not> (w = [] \<or> ttl \<le> 0)" using assms(2) by (auto simp: Claim_run_eq)
  show ?thesis
  proof (cases y)
    case (Some z)
    with c ok assms(2) have "z = x" "db1 = db'" by (simp_all add: Claim_run_eq)
    with c Some have "claimPendingRun w now ttl (claim_ready now db) = (Some x, db')" by simp
    from claimPendingRun_Some [OF claim_ready_keeps [OF assms(1)] this]
    obtain r j where *: "first_by run_order (filter (run_ready now (claim_ready now db)) (runs (claim_ready now db))) = Some r"
      "r \<in> set (runs (claim_ready now db))" "run_ready now (claim_ready now db) r"
      "job_by_id (r_job_id r) (claim_ready now db) = Some j"
      "x = (scanRun r j)\<lparr>x_state := Running, x_attempts := r_attempts r + 1, x_started_at := Some now\<rparr>"
      "executing w now ttl x db'" .
    then show ?thesis by (intro again [OF refl *(2,1,3,4) _ _ _ *(6)]) (simp_all add: scanRun_def)
  next
    case None
    with c ok assms(2) have "claimDueJob w now ttl db1 = (Some x, db')"
      by (auto simp: Claim_run_eq intro: prod_eqI)
    then show ?thesis by (rule claimDueJob_Some) (use c None first in blast)
  qed
qed

end
