(* ===== verification/SchedProps.thy ===== *)
theory SchedProps
  imports SchedSpec
begin

text \<open>
  The theorems of the scheduler's store, over every sequence of operations that any number of
  clients and workers may issue, with the lemmas about \<open>Claim\<close>, \<open>Cancel\<close> and
  \<open>RecoverStale\<close> they rest on.
\<close>

section \<open>One run in progress per job, whatever is called\<close>

lemma one_per_job_stop:
  "one_per_job db \<Longrightarrow> (\<And>r. r_state (f r) \<noteq> Running) \<Longrightarrow> runs db' = update_where p f (runs db) \<Longrightarrow> one_per_job db'"
  by (erule one_per_job_mono) (rule running_stop)

lemma one_per_job_same: "one_per_job db \<Longrightarrow> runs db' = runs db \<Longrightarrow> one_per_job db'"
  by (erule one_per_job_mono) (simp add: running_def)

lemma one_per_job_finish: "one_per_job db \<Longrightarrow> st \<noteq> Running \<Longrightarrow> one_per_job (snd (finish_run k w st msg now db))"
  by (auto simp: finish_run_def Let_def frame elim!: one_per_job_stop)

lemma one_per_job_Fail: "one_per_job db \<Longrightarrow> one_per_job (snd (Fail_run k w c now db))"
  by (auto simp: Fail_run_def Let_def frame elim!: one_per_job_stop split: option.split)

lemma one_per_job_Requeue: "one_per_job db \<Longrightarrow> one_per_job (snd (Requeue_run k w msg now db))"
  by (auto simp: Requeue_run_def Let_def frame elim!: one_per_job_stop)

lemma one_per_job_Recover: "one_per_job db \<Longrightarrow> one_per_job (snd (RecoverStale now db))"
  by (auto simp: RecoverStale_def Let_def frame elim!: one_per_job_stop split: if_splits)

lemma one_per_job_Cancel: "one_per_job db \<Longrightarrow> one_per_job (snd (Cancel_job i now db))"
  by (auto simp: Cancel_job_def Let_def elim!: one_per_job_stop)

lemma one_per_job_Claim:
  assumes "sched_inv db" and "one_per_job db"
  shows "one_per_job (snd (Claim_run w ttl now db))"
proof -
  have r: "exclusive (claim_ready now db)" by (rule claim_ready_exclusive [OF assms(2)])
  obtain x db1 where c: "claimPendingRun w now ttl (claim_ready now db) = (x, db1)" by fastforce
  with claimPendingRun_exclusive [OF claim_ready_keeps [OF assms(1)] r, of w now ttl]
  have "exclusive db1" by simp
  then have "exclusive db1 \<and> exclusive (snd (claimDueJob w now ttl db1))"
    by (simp add: claimDueJob_exclusive)
  with assms(2) c show ?thesis by (cases x) (simp_all add: Claim_run_eq exclusive_def)
qed

definition orderly :: "sched_db \<Rightarrow> bool" where
  "orderly db \<longleftrightarrow> sched_inv db \<and> one_per_job db"

lemma orderly_step:
  assumes "orderly db"
  shows "orderly (sched_step tz e db)"
proof -
  obtain oper now where e: "e = (oper, now)" by (cases e)
  have one: "one_per_job db" and inv: "sched_inv db" using assms by (simp_all add: orderly_def)
  have "one_per_job (snd (Create_job tz j now db))" "one_per_job (snd (SetEnabled i b now db))" for j i b
    using one by (auto simp: Create_job_def SetEnabled_def Let_def elim: one_per_job_same split: sum.split)
  then have "one_per_job (sched_step tz (oper, now) db)"
    using one inv
    by (cases oper)
       (simp_all add: one_per_job_Claim one_per_job_finish one_per_job_Fail one_per_job_Requeue
         one_per_job_Recover one_per_job_Cancel Complete_run_def Deny_run_def MarkCancelled_run_def)
  with e inv show ?thesis by (simp add: orderly_def sched_step_keeps)
qed

interpretation workers: machine "sched_step tz" orderly
  by unfold_locales (rule orderly_step)

lemma sched_run_orderly: "orderly (sched_run tz es)"
proof -
  have "one_per_job empty_db" by (simp add: one_per_job_def running_def empty_db_def)
  then show ?thesis
    unfolding sched_run_def by (intro workers.run_keeps) (simp add: orderly_def sched_inv_empty)
qed

section \<open>A lease holds until it expires\<close>

lemma claimPendingRun_leaves:
  assumes "r \<in> set (runs db)" and "r_state r = Running"
  shows "r \<in> set (runs (snd (claimPendingRun w now ttl db)))"
proof -
  have "r \<in> set (update_where (\<lambda>q. r_id q = k \<and> r_state q = Pending) f (runs db1))"
    if "runs db1 = runs db" for k f and db1 :: sched_db
    unfolding set_update_where by (rule bexI [of _ r]) (use assms that in simp_all)
  with assms(1) show ?thesis
    by (auto simp: claimPendingRun_def Let_def dest: acquireLock_frame split: option.split prod.split)
qed

lemma claimDueJob_leaves:
  assumes "r \<in> set (runs db)"
  shows "r \<in> set (runs (snd (claimDueJob w now ttl db)))"
proof (cases "first_by job_order (filter (job_due now db) (jobs db))")
  case (Some j)
  obtain db1 ok where a: "acquireLock j w now ttl db = (db1, ok)" by fastforce
  then have "r \<in> set (runs db1)" using assms acquireLock_frame [OF a] by simp
  with Some a show ?thesis by (auto simp: claimDueJob_def Let_def insert_run_eq frame)
qed (use assms in \<open>simp add: claimDueJob_def\<close>)

lemma insert_run_locks: "insert_run r db = (db', ok) \<Longrightarrow> locks db' = locks db"
  by (rule running_insert(2))

lemma claimPendingRun_locks:
  "l \<in> set (locks db) \<Longrightarrow> l \<in> set (locks (snd (claimPendingRun w now ttl db)))"
  by (auto simp: claimPendingRun_def Let_def acquireLock_eq split: option.split)

lemma claimDueJob_locks:
  assumes "l \<in> set (locks db)"
  shows "l \<in> set (locks (snd (claimDueJob w now ttl db)))"
proof (cases "first_by job_order (filter (job_due now db) (jobs db))")
  case (Some j)
  then have "job_due now db j" by (auto dest: first_by_in)
  then have other: "l_job_id l \<noteq> j_id j" and free: "\<not> locked (j_id j) db"
    using assms by (auto simp: job_due_def locked_iff)
  obtain db1 where a: "acquireLock j w now ttl db = (db1, True)" "l \<in> set (locks db1)"
    using free assms by (simp add: acquireLock_eq)
  have "l \<in> set (locks (fst (insert_run q s)))" if "l \<in> set (locks s)" for q s
    using that insert_run_locks [of q s] by (metis prod.collapse)
  then show ?thesis
    using Some a other by (auto simp: claimDueJob_def Let_def release_lock_def frame split: prod.split
      dest!: insert_run_locks)
qed (use assms in \<open>simp add: claimDueJob_def\<close>)

lemma claim_ready_leaves:
  assumes "r \<in> set (runs db)" and "r_state r = Running"
    and "l \<in> set (locks db)" and "l_job_id l = r_job_id r" and "\<not> sql_le (l_expires_at l) now"
  shows "r \<in> set (runs (claim_ready now db)) \<and> l \<in> set (locks (claim_ready now db))"
proof -
  let ?e = "expire_locks now db"
  have l: "l \<in> set (locks ?e)" using assms(3,5) by (simp add: expire_locks_def)
  then have "locked (r_job_id r) ?e" using assms(4) by (auto simp: locked_iff)
  then have "r \<in> set (runs (recover_runs now ?e))"
    using assms(1) by (auto simp: recover_runs_def set_update_where frame intro!: bexI [of _ r])
  then have "r \<in> set (runs (bury_runs now (recover_runs now ?e)))"
    using assms(2) by (auto simp: bury_runs_def set_update_where intro!: bexI [of _ r])
  with l show ?thesis by (simp add: claim_ready_def bury_runs_def recover_runs_def)
qed

lemma Claim_run_leaves:
  assumes "r \<in> set (runs db)" and "r_state r = Running"
    and "l \<in> set (locks db)" and "l_job_id l = r_job_id r" and "\<not> sql_le (l_expires_at l) now"
  shows "r \<in> set (runs (snd (Claim_run w ttl now db))) \<and> l \<in> set (locks (snd (Claim_run w ttl now db)))"
proof -
  obtain x db1 where c: "claimPendingRun w now ttl (claim_ready now db) = (x, db1)" by fastforce
  have "r \<in> set (runs db1) \<and> l \<in> set (locks db1)"
    using claim_ready_leaves [OF assms] claimPendingRun_leaves [OF _ assms(2)] claimPendingRun_locks c
    by (metis snd_conv)
  with assms c show ?thesis
    by (cases x) (simp_all add: Claim_run_eq claimDueJob_leaves claimDueJob_locks)
qed


section \<open>Cancelled jobs\<close>

text \<open>Jobs are never dropped, and a cancelled one stays cancelled.\<close>

definition jobs_last :: "sched_db \<Rightarrow> sched_db \<Rightarrow> bool" where
  "jobs_last db db' \<longleftrightarrow> (\<forall>j \<in> set (jobs db). j_cancelled_at j \<noteq> None \<longrightarrow>
     (\<exists>k \<in> set (jobs db'). j_id k = j_id j \<and> j_cancelled_at k \<noteq> None))"

lemma jobs_last_refl: "jobs db' = jobs db \<Longrightarrow> jobs_last db db'"
  by (auto simp: jobs_last_def)

lemma jobs_last_trans: "jobs_last a b \<Longrightarrow> jobs_last b c \<Longrightarrow> jobs_last a c"
  unfolding jobs_last_def by metis

lemma jobs_last_update:
  assumes "jobs db' = update_where p f (jobs db)"
    and "\<And>j. j_id (f j) = j_id j \<and> (j_cancelled_at j \<noteq> None \<longrightarrow> j_cancelled_at (f j) \<noteq> None)"
  shows "jobs_last db db'"
  unfolding jobs_last_def
proof (intro ballI impI)
  fix j assume j: "j \<in> set (jobs db)" "j_cancelled_at j \<noteq> None"
  then have "(if p j then f j else j) \<in> set (jobs db')" by (auto simp: assms(1) set_update_where)
  with j assms(2) show "\<exists>k \<in> set (jobs db'). j_id k = j_id j \<and> j_cancelled_at k \<noteq> None"
    by (intro bexI [of _ "if p j then f j else j"]) simp_all
qed

lemma claimPendingRun_jobs [frame]: "jobs (snd (claimPendingRun w now ttl db)) = jobs db"
  by (auto simp: claimPendingRun_def Let_def acquireLock_eq split: option.split)

lemma insert_run_jobs: "insert_run r db = (db', ok) \<Longrightarrow> jobs db' = jobs db"
  by (auto simp: insert_run_eq split: if_splits)

lemma claimDueJob_jobs_last: "jobs_last db (snd (claimDueJob w now ttl db))"
proof (cases "first_by job_order (filter (job_due now db) (jobs db))")
  case (Some j)
  obtain db1 ok where a: "acquireLock j w now ttl db = (db1, ok)" by fastforce
  have "jobs db1 = jobs db" using acquireLock_frame [OF a] by simp
  moreover have "jobs (fst (insert_run q s)) = jobs s" for q s
    using insert_run_jobs [of q s] by (metis prod.collapse)
  ultimately show ?thesis
    using Some a
    by (auto simp: claimDueJob_def Let_def frame update_job_def split: prod.split dest!: insert_run_jobs
      intro: jobs_last_refl jobs_last_update)
qed (simp add: claimDueJob_def jobs_last_refl)

lemma Claim_run_jobs_last: "jobs_last db (snd (Claim_run w ttl now db))"
proof -
  obtain x db1 where c: "claimPendingRun w now ttl (claim_ready now db) = (x, db1)" by fastforce
  then have "jobs db1 = jobs db" using claimPendingRun_jobs [of w now ttl "claim_ready now db"] frame by simp
  then have "jobs_last db db1" by (rule jobs_last_refl)
  then show ?thesis
    using c jobs_last_trans [OF _ claimDueJob_jobs_last]
    by (cases x) (auto simp: Claim_run_eq jobs_last_refl)
qed

lemma sched_step_jobs_last: "jobs_last db (sched_step tz e db)"
proof -
  obtain oper now where e: "e = (oper, now)" by (cases e)
  have "jobs_last db (snd (Create_job tz j now db))" for j
    by (auto simp: Create_job_def jobs_last_def split: sum.split)
  moreover have "jobs_last db (snd (SetEnabled i b now db))" for i b
    by (auto simp: SetEnabled_def Let_def intro: jobs_last_refl jobs_last_update)
  moreover have "jobs_last db (snd (Cancel_job i now db))" for i
    by (auto simp: Cancel_job_def Let_def coalesce_def intro: jobs_last_refl jobs_last_update split: option.split)
  ultimately show ?thesis
    unfolding e
    by (cases oper)
       (auto simp: Claim_run_jobs_last Complete_run_def Deny_run_def MarkCancelled_run_def finish_run_def
         Fail_run_def Requeue_run_def RecoverStale_def Let_def frame intro!: jobs_last_refl split: option.split)
qed

lemma job_cancelled_last: "job_cancelled db i \<Longrightarrow> jobs_last db db' \<Longrightarrow> job_cancelled db' i"
  unfolding job_cancelled_def jobs_last_def exists_where_iff by metis

lemma job_cancelled_run: "job_cancelled db i \<Longrightarrow> job_cancelled (fold (sched_step tz) es db) i"
  by (induction es arbitrary: db) (simp_all add: job_cancelled_last [OF _ sched_step_jobs_last])

lemma Cancel_job_cancelled:
  assumes "Cancel_job i now db = (Inr (), db')"
  shows "job_cancelled db' i"
proof -
  define f where "f = (\<lambda>j :: job. j\<lparr>j_enabled := False, j_cancelled_at := coalesce (j_cancelled_at j) now,
      j_updated_at := now\<rparr>)"
  have n: "rows_affected (\<lambda>j. j_id j = i) (jobs db) = 1"
    and js: "jobs db' = update_where (\<lambda>j. j_id j = i) f (jobs db)"
    using assms by (auto simp: Cancel_job_def Let_def f_def split: if_splits)
  from rows_affected_oneD [OF n] obtain j where "j \<in> set (jobs db)" "j_id j = i" by blast
  then have "f j \<in> set (jobs db')" by (auto simp: js set_update_where intro!: bexI [of _ j])
  moreover have "j_id (f j) = i \<and> j_cancelled_at (f j) \<noteq> None"
    using \<open>j_id j = i\<close> by (simp add: f_def coalesce_def split: option.split)
  ultimately show ?thesis unfolding job_cancelled_def exists_where_iff by blast
qed

lemma same_job: "sched_inv db \<Longrightarrow> j \<in> set (jobs db) \<Longrightarrow> k \<in> set (jobs db) \<Longrightarrow> j_id j = j_id k \<Longrightarrow> j = k"
  by (rule distinct_map_eq [OF sched_invD(1)])

lemma Claim_run_live:
  assumes "sched_inv db" and "Claim_run w ttl now db = (Inr (Some x), db')"
  shows "x_job x \<in> set (jobs db) \<and> j_cancelled_at (x_job x) = None"
  using assms
proof (cases rule: Claim_run_Some)
  case (again r j db0)
  then show ?thesis by (auto simp: run_ready_def frame dest: job_by_idD)
next
  case (first db1)
  then have "jobs db1 = jobs db" using claimPendingRun_jobs [of w now ttl "claim_ready now db"] frame by simp
  with first show ?thesis by (simp add: job_due_def)
qed

lemma Claim_run_not_cancelled:
  assumes "sched_inv db" and "Claim_run w ttl now db = (Inr (Some x), db')" and "job_cancelled db i"
  shows "j_id (x_job x) \<noteq> i"
proof
  assume same: "j_id (x_job x) = i"
  from assms(3) obtain j where j: "j \<in> set (jobs db)" "j_id j = i" "j_cancelled_at j \<noteq> None"
    by (auto simp: job_cancelled_def)
  have "x_job x = j"
    by (rule same_job [OF assms(1)]) (use Claim_run_live [OF assms(1,2)] j same in simp_all)
  with j(3) Claim_run_live [OF assms(1,2)] show False by simp
qed

section \<open>An idle Claim\<close>

lemma claimPendingRun_None:
  assumes "sched_inv db" and "claimPendingRun w now ttl db = (None, db')"
  shows "(\<forall>r \<in> set (runs db). \<not> run_ready now db r) \<and> db' = db"
proof (cases "first_by run_order (filter (run_ready now db) (runs db))")
  case None
  then show ?thesis using assms(2) by (auto simp: claimPendingRun_def filter_empty_conv)
next
  case (Some r)
  then have r: "r \<in> set (runs db)" "run_ready now db r" by (auto dest: first_by_in)
  obtain j where j: "job_by_id (r_job_id r) db = Some j" using assms(1) r(1) by (rule run_has_job)
  have free: "\<not> locked (j_id j) db" using r(2) job_by_idD [OF j] by (simp add: run_ready_def)
  then obtain db1 where a: "acquireLock j w now ttl db = (db1, True)" by (simp add: acquireLock_eq)
  have "rows_affected (\<lambda>q. r_id q = r_id r \<and> r_state q = Pending) (runs db1) = 1"
    by (rule rows_affected_distinct [where key = r_id and r = r])
       (use acquireLock_frame [OF a] sched_invD(2) [OF assms(1)] r in \<open>simp_all add: run_ready_def\<close>)
  then have False using assms(2) Some j a by (simp add: claimPendingRun_def Let_def)
  then show ?thesis ..
qed

text \<open>Whether the due job is dropped because its occurrence was missed by a full interval.\<close>

definition missed :: "time \<Rightarrow> job \<Rightarrow> bool" where
  "missed now j \<longleftrightarrow> j_kind j = Recurring \<and> j_missed j = Skip \<and> j_next_run j + j_every j \<le> now"

lemma claimDueJob_None:
  assumes "claimDueJob w now ttl db = (None, db')"
    and "first_by job_order (filter (job_due now db) (jobs db)) = Some j"
  shows "missed now j \<or> runKey (j_id j) (j_next_run j) \<in> r_key ` set (runs db)"
proof (rule ccontr)
  assume not: "\<not> ?thesis"
  have "job_due now db j" using first_by_in [OF assms(2)] by simp
  then obtain db1 where a: "acquireLock j w now ttl db = (db1, True)"
    by (simp add: acquireLock_eq job_due_def)
  have "runs db1 = runs db" using acquireLock_frame [OF a] by simp
  moreover have "r_key q \<noteq> runKey (j_id j) (j_next_run j)" if "q \<in> set (runs db)" for q
    using not that by (metis imageI)
  ultimately have "snd (insert_run (started_run j now) s)" if "runs s = runs db1" for s
    using that by (simp add: insert_run_eq started_run_def)
  with assms a not show False
    by (simp add: claimDueJob_def Let_def missed_def frame case_prod_beta split: if_splits)
qed


section \<open>Recovery\<close>

lemma RecoverStale_runs:
  assumes "sched_inv db" and "RecoverStale now db = (n, db')" and "r \<in> set (runs db')"
  shows "r_state r = Running \<Longrightarrow> \<exists>l \<in> set (locks db'). l_job_id l = r_job_id r \<and> \<not> sql_le (l_expires_at l) now"
    and "r_state r = Running \<Longrightarrow> r \<in> set (runs db)"
proof -
  define db1 where "db1 = expire_locks now db"
  define f where "f = (\<lambda>r :: run_row. r\<lparr>r_state := if job_cancelled db1 (r_job_id r) then Cancelled else Pending,
      r_available_at := now, r_finished_at := if job_cancelled db1 (r_job_id r) then Some now else None,
      r_last_error := ''recovered after stale lock'', r_updated_at := now\<rparr>)"
  have db': "db' = db1\<lparr>runs := update_where (\<lambda>r. r_state r = Running \<and> \<not> locked (r_job_id r) db1) f (runs db1)\<rparr>"
    using assms(2) by (simp add: RecoverStale_def Let_def db1_def f_def)
  assume run: "r_state r = Running"
  from assms(3) have "r \<in> set (update_where (\<lambda>r. r_state r = Running \<and> \<not> locked (r_job_id r) db1) f (runs db1))"
    by (simp add: db')
  then have "locked (r_job_id r) db1 \<and> r \<in> set (runs db)"
  proof (cases rule: update_whereE)
    case kept
    with run show ?thesis by (simp add: db1_def frame)
  next
    case (changed q)
    with run show ?thesis by (simp add: f_def split: if_splits)
  qed
  then show "r \<in> set (runs db)"
    and "\<exists>l \<in> set (locks db'). l_job_id l = r_job_id r \<and> \<not> sql_le (l_expires_at l) now"
    by (auto simp: locked_iff db' db1_def expire_locks_def)
qed

section \<open>The theorems\<close>

text \<open>
  C2: No interleaving of the operations of the store, by any workers at any clock readings, leaves
  two runs of one job in progress.
\<close>

theorem one_worker_per_job:
  assumes "r \<in> set (runs (sched_run tz es))" and "q \<in> set (runs (sched_run tz es))"
    and "r_state r = Running" and "r_state q = Running" and "r_job_id r = r_job_id q"
  shows "r = q"
proof -
  note o = sched_run_orderly [of tz es, unfolded orderly_def one_per_job_def]
  have "(r_id r, r_job_id r) = (r_id q, r_job_id q)"
    by (rule inj_onD [OF o [THEN conjunct2]])
       (use assms(5) runningI [OF assms(1,3)] runningI [OF assms(2,4)] in simp_all)
  then show ?thesis using same_run [OF o [THEN conjunct1] assms(1,2)] by simp
qed

text \<open>
  In every state reached with \<open>Requeue\<close> called only on runs in progress, each run in
  progress has its job locked, so that no worker can start another run of it.
\<close>

theorem running_job_is_locked:
  assumes "sched_reach tz db" and "r \<in> set (runs db)" and "r_state r = Running"
  shows "locked (r_job_id r) db \<and> (\<forall>now q. r_job_id q = r_job_id r \<longrightarrow> \<not> run_ready now db q)
    \<and> (\<forall>now j. j_id j = r_job_id r \<longrightarrow> \<not> job_due now db j)"
proof -
  have "exclusive db" using sched_reach_inv [OF assms(1)] by simp
  then have "locked (r_job_id r) db"
    using runningI [OF assms(2,3)] by (force simp: exclusive_def locked_held)
  then show ?thesis by (simp add: run_ready_def job_due_def)
qed

text \<open>
  While the lease of a run in progress has not expired, a \<open>Claim\<close> of any worker leaves the
  run and the lease as they are: nobody else gets the run.
\<close>

theorem Claim_respects_lease:
  assumes "r \<in> set (runs db)" and "r_state r = Running" and "l \<in> set (locks db)"
    and "l_job_id l = r_job_id r" and "\<not> sql_le (l_expires_at l) now"
  shows "r \<in> set (runs (snd (Claim_run w ttl now db))) \<and> l \<in> set (locks (snd (Claim_run w ttl now db)))"
  using assms by (rule Claim_run_leaves)

text \<open>
  A run that has reached a final state (completed, failed, dead, denied, cancelled or skipped)
  keeps it through every later sequence of operations.
\<close>

theorem finished_runs_stay_finished:
  assumes "state_of (sched_run tz es) k = Some st" and "final_state st"
  shows "state_of (fold (sched_step tz) fs (sched_run tz es)) k = Some st"
  using sched_run_inv assms by (rule final_runs.final_run)

text \<open>
  No run is ever started more often than its job allows, and no job allows more than twenty
  attempts.
\<close>

theorem attempts_bounded:
  assumes "r \<in> set (runs (sched_run tz es))"
  shows "\<exists>j \<in> set (jobs (sched_run tz es)). j_id j = r_job_id r \<and> r_attempts r \<le> j_max_attempts j
    \<and> j_max_attempts j \<le> 20"
proof -
  note inv = sched_run_inv [of tz es]
  from run_attempts [OF inv assms] obtain j where
    "j \<in> set (jobs (sched_run tz es))" "j_id j = r_job_id r" "r_attempts r \<le> j_max_attempts j"
    by (auto simp: attempts_allowed_def)
  with sched_invD(5) [OF inv] show ?thesis by (fastforce simp: job_ok_def)
qed

text \<open>
  An occurrence of a job is recorded at most once: two runs of one job for one instant are the
  same run.
\<close>

theorem one_run_per_occurrence:
  assumes "r \<in> set (runs (sched_run tz es))" and "q \<in> set (runs (sched_run tz es))"
    and "r_job_id r = r_job_id q" and "r_scheduled_for r = r_scheduled_for q"
  shows "r = q"
proof -
  note inv = sched_run_inv [of tz es]
  have "r_key r = r_key q"
    using sched_invD(6) [OF inv assms(1)] sched_invD(6) [OF inv assms(2)] assms(3,4) by (simp add: run_ok_def)
  with distinct_map_eq [OF sched_invD(3) [OF inv] assms(1,2)] show ?thesis by simp
qed

text \<open>
  The idempotency key identifies the job and the instant: different occurrences never share a
  key, so \<open>INSERT OR IGNORE\<close> never drops a run of another occurrence.
\<close>

theorem runKey_identifies:
  assumes "is_identifier i" and "is_identifier k" and "in_range t" and "in_range s"
  shows "runKey i t = runKey k s \<longleftrightarrow> i = k \<and> t = s"
  using runKey_eq [OF assms] by auto

text \<open>
  A run that \<open>Claim\<close> returns is in progress in the new tables under a lease of the caller
  that lasts for the requested time and a second longer than the job's timeout, and its job exists
  and is not cancelled.
\<close>

theorem Claim_hands_out_a_lease:
  assumes "Claim_run w ttl now (sched_run tz es) = (Inr (Some x), db')"
  shows "executing w now ttl x db' \<and> x_job x \<in> set (jobs (sched_run tz es))
    \<and> j_cancelled_at (x_job x) = None"
  using sched_run_inv assms
  by (cases rule: Claim_run_Some) (use Claim_run_live [OF sched_run_inv assms] in simp_all)

text \<open>
  \<open>Claim\<close> serves the queue in order: a run it hands out again is the first pending one by
  availability and number, and a job it starts is the first due one, with no pending run ready.
\<close>

theorem Claim_in_order:
  assumes "Claim_run w ttl now (sched_run tz es) = (Inr (Some x), db')"
    and "db0 = claim_ready now (sched_run tz es)"
  shows "(\<exists>r \<in> set (runs db0). r_id r = x_id x \<and> run_ready now db0 r
        \<and> (\<forall>q \<in> set (runs db0). run_ready now db0 q \<longrightarrow> run_order r q))
    \<or> (\<forall>q \<in> set (runs db0). \<not> run_ready now db0 q)
        \<and> job_due now db0 (x_job x) \<and> (\<forall>k \<in> set (jobs db0). job_due now db0 k \<longrightarrow> job_order (x_job x) k)"
  using sched_run_inv assms(1)
proof (cases rule: Claim_run_Some)
  case (again r j db1)
  with run_queue.first_by_least show ?thesis by (auto simp: assms(2) intro!: bexI [of _ r])
next
  case (first db1)
  have "db1 = db0" and idle: "\<forall>q \<in> set (runs db0). \<not> run_ready now db0 q"
    using claimPendingRun_None [OF claim_ready_keeps [OF sched_run_inv] first(1)] assms(2) by simp_all
  with first job_queue.first_by_least [OF first(2)] show ?thesis by auto
qed

text \<open>
  \<open>Claim\<close> returns no run only if there is none: no pending run is ready, and the first due
  job, if there is one, was missed under the skip policy or its occurrence is already recorded.
\<close>

theorem Claim_idle:
  assumes "Claim_run w ttl now (sched_run tz es) = (Inr None, db')"
    and "db0 = claim_ready now (sched_run tz es)"
  shows "(\<forall>r \<in> set (runs db0). \<not> run_ready now db0 r)
    \<and> (\<forall>j. first_by job_order (filter (job_due now db0) (jobs db0)) = Some j \<longrightarrow>
         missed now j \<or> runKey (j_id j) (j_next_run j) \<in> r_key ` set (runs db0))"
proof -
  obtain y db1 where c: "claimPendingRun w now ttl db0 = (y, db1)" by fastforce
  with assms have "y = None" and d: "fst (claimDueJob w now ttl db1) = None"
    by (auto simp: Claim_run_eq split: if_splits option.splits)
  with c have idle: "(\<forall>r \<in> set (runs db0). \<not> run_ready now db0 r) \<and> db1 = db0"
    using claimPendingRun_None [OF claim_ready_keeps [OF sched_run_inv]] assms(2) by metis
  with d claimDueJob_None [of w now ttl db0] show ?thesis by (metis prod.collapse)
qed

text \<open>
  Once \<open>Cancel\<close> has succeeded, no later \<open>Claim\<close> of any worker hands out a run of the job.
\<close>

theorem cancelled_job_never_claimed:
  assumes "Cancel_job i t (sched_run tz es) = (Inr (), db1)" and "db2 = fold (sched_step tz) fs db1"
    and "Claim_run w ttl now db2 = (Inr (Some x), db3)"
  shows "j_id (x_job x) \<noteq> i"
proof -
  have "sched_inv db1" using Cancel_job_keeps [OF sched_run_inv, of i t tz es] assms(1) by simp
  then have "sched_inv db2" unfolding assms(2) by (rule store.run_keeps)
  moreover have "job_cancelled db2 i"
    using Cancel_job_cancelled [OF assms(1)] by (simp add: assms(2) job_cancelled_run)
  ultimately show ?thesis using Claim_run_not_cancelled assms(3) by blast
qed

text \<open>
  After \<open>RecoverStale\<close> every run still in progress was in progress before, as it is now, and
  is under a lease that has not expired.
\<close>

theorem RecoverStale_leaves_leased:
  assumes "RecoverStale now (sched_run tz es) = (n, db')" and "r \<in> set (runs db')" and "r_state r = Running"
  shows "r \<in> set (runs (sched_run tz es))
    \<and> (\<exists>l \<in> set (locks db'). l_job_id l = r_job_id r \<and> \<not> sql_le (l_expires_at l) now)"
  using RecoverStale_runs [OF sched_run_inv assms(1,2)] assms(3) by simp

text \<open>
  The retry delay of \<open>boundedBackoff\<close> is the base doubled per attempt, at most ten times, and
  clipped at a day; the multiplication never wraps around for a base a job may have.
\<close>

theorem boundedBackoff_doubles:
  assumes "0 < base" and "base \<le> 24 * hour" and "1 \<le> attempts"
  shows "boundedBackoff base attempts = min (24 * hour) (base * 2 ^ nat (min 10 (attempts - 1)))"
  using assms by (rule boundedBackoff_eq)

text \<open>
  The next occurrence of a recurring job is the first one of its grid after now: later than
  now, by at most one interval, and a whole number of intervals after the anchor.
\<close>

theorem NextRecurring_first_after:
  assumes "0 < every" and "anchor \<le> now" and "now - anchor \<le> max_int64 - every"
  shows "now < NextRecurring anchor every now \<and> NextRecurring anchor every now \<le> now + every
    \<and> (NextRecurring anchor every now - anchor) mod every = 0"
proof -
  define d where "d = now - anchor"
  have "d = d div every * every + d mod every" "0 \<le> d mod every" "d mod every < every"
    using assms(1) by simp_all
  then have "d < d div every * every + every" "d div every * every \<le> d" by linarith+
  then show ?thesis using NextRecurring_eq [OF assms] by (simp add: d_def distrib_right)
qed


end
