(* ===== verification/SchedDemo.thy ===== *)
theory SchedDemo
  imports SchedProps
begin

text \<open>
  A small run of the scheduler's store, evaluated by the kernel: two jobs are created, one is
  claimed and completed. The theorems of \<open>SchedProps\<close> are applied to its states.
\<close>

definition demo_t :: time where "demo_t = 63870000000000000000"

definition demo_job :: job where
  "demo_job = \<lparr>j_id = ''digest'', j_skill_id = ''news'', j_input = ''{}'', j_kind = Recurring, j_class = ReadOnly,
     j_risk = Risk_Unset, j_timezone = ''UTC'', j_every = hour, j_next_run = demo_t, j_enabled = True,
     j_missed = RunOnce, j_max_attempts = 2, j_retry_backoff = 0, j_timeout = 0, j_creation_key = [],
     j_approval_ref = [], j_cancelled_at = None, j_created_at = 0, j_updated_at = 0\<rparr>"

definition created_job :: job where
  "created_job = demo_job\<lparr>j_risk := Safe, j_retry_backoff := second, j_timeout := minute,
     j_creation_key := ''create:digest'', j_created_at := demo_t, j_updated_at := demo_t\<rparr>"

definition demo_run :: run_row where
  "demo_run = \<lparr>r_id = 1, r_job_id = ''digest'', r_scheduled_for = demo_t,
     r_key = ''job:digest:2024-12-17T02:40:00Z'', r_state = Running, r_attempts = 1,
     r_available_at = demo_t + minute, r_started_at = Some (demo_t + minute), r_finished_at = None,
     r_last_error = [], r_created_at = demo_t + minute, r_updated_at = demo_t + minute\<rparr>"

definition demo_lock :: lock_row where
  "demo_lock = \<lparr>l_job_id = ''digest'', l_owner = ''w1'', l_acquired_at = demo_t + minute,
     l_expires_at = demo_t + 2 * minute + second\<rparr>"

definition demo_db1 :: sched_db where
  "demo_db1 = \<lparr>jobs = [created_job], runs = [], locks = [], run_seq = 0\<rparr>"

definition demo_db2 :: sched_db where
  "demo_db2 = \<lparr>jobs = [created_job\<lparr>j_next_run := demo_t + hour, j_updated_at := demo_t + minute\<rparr>], runs = [demo_run],
     locks = [demo_lock], run_seq = 1\<rparr>"

definition demo_x :: run where
  "demo_x = (scanRun demo_run created_job)"

definition demo_tz where "demo_tz = (\<lambda>z :: string. True)"

lemma demo_create: "sched_step demo_tz (OpCreate demo_job, demo_t) empty_db = demo_db1"
  by code_simp

lemma demo_claim: "Claim_run ''w1'' minute (demo_t + minute) demo_db1 = (Inr (Some demo_x), demo_db2)"
  by code_simp


lemma demo_run1: "sched_run demo_tz [(OpCreate demo_job, demo_t)] = demo_db1"
  by (simp only: sched_run_def fold_simps demo_create)

lemma demo_step2: "sched_step demo_tz (OpClaim ''w1'' minute, demo_t + minute) demo_db1 = demo_db2"
  by (simp only: sched_step.simps demo_claim snd_conv)

abbreviation demo_trace :: "(sched_op \<times> time) list" where
  "demo_trace \<equiv> [(OpCreate demo_job, demo_t), (OpClaim ''w1'' minute, demo_t + minute)]"

lemma demo_run2: "sched_run demo_tz demo_trace = demo_db2"
  by (simp only: sched_run_def fold_simps demo_create demo_step2)

lemma demo_reach: "sched_reach demo_tz demo_db2"
proof -
  have "sched_reach demo_tz demo_db1"
    using reach_step [OF reach_empty, of "OpCreate demo_job" demo_tz demo_t]
    by (simp only: guarded.simps demo_create simp_thms)
  from reach_step [OF this, of "OpClaim ''w1'' minute" "demo_t + minute"] show ?thesis
    by (simp only: guarded.simps demo_step2 simp_thms)
qed

lemma demo_in: "demo_run \<in> set (runs demo_db2)" "r_state demo_run = Running"
  by (simp_all add: demo_db2_def demo_run_def)

lemma demo_valid: "\<not> sql_le (l_expires_at demo_lock) (demo_t + 90 * second)"
  by code_simp

lemma demo_done: "state_of (sched_step demo_tz (OpComplete 1 ''w1'', demo_t + 2 * minute) demo_db2) 1 = Some Completed"
  by code_simp

lemma demo_idle: "Claim_run ''w2'' minute (demo_t + 90 * second) demo_db2 = (Inr None, demo_db2)"
  by code_simp

lemma demo_in_range: "in_range demo_t" "in_range (demo_t + hour)"
  by (simp_all add: in_range_def demo_t_def max_seconds_def units)

lemma demo_ids: "is_identifier ''digest''" "is_identifier ''mail''"
  by code_simp+

definition mail_job :: job where
  "mail_job = demo_job\<lparr>j_id := ''mail''\<rparr>"

text \<open>Cancelling the first job leaves the second to be claimed.\<close>

definition cancelled_db :: sched_db where
  "cancelled_db = snd (Cancel_job ''digest'' (demo_t + second) demo_db1)"

lemma demo_cancel: "Cancel_job ''digest'' (demo_t + second) demo_db1 = (Inr (), cancelled_db)"
  by (rule prod_eqI; code_simp)

definition mail_db :: sched_db where
  "mail_db = sched_step demo_tz (OpCreate mail_job, demo_t + second) cancelled_db"

lemma demo_mail: "\<exists>x. fst (Claim_run ''w1'' minute (demo_t + minute) mail_db) = Inr (Some x)"
proof -
  have "(case fst (Claim_run ''w1'' minute (demo_t + minute) mail_db) of Inr (Some x) \<Rightarrow> True | _ \<Rightarrow> False)"
    by code_simp
  then show ?thesis by (auto split: sum.splits option.splits)
qed

section \<open>The theorems at these states\<close>

lemma one_worker_per_job_witness:
  "demo_run \<in> set (runs (sched_run demo_tz demo_trace)) \<and> demo_run = demo_run"
  using one_worker_per_job [of demo_run demo_tz demo_trace demo_run] demo_in demo_run2 by simp

lemma running_job_is_locked_witness: "locked (r_job_id demo_run) demo_db2"
  using running_job_is_locked [OF demo_reach demo_in] by simp

lemma Claim_respects_lease_witness:
  "demo_run \<in> set (runs (snd (Claim_run ''w2'' minute (demo_t + 90 * second) demo_db2)))"
proof -
  have "demo_lock \<in> set (locks demo_db2)" "l_job_id demo_lock = r_job_id demo_run"
    by (simp_all add: demo_db2_def demo_lock_def demo_run_def)
  from Claim_respects_lease [OF demo_in this demo_valid] show ?thesis by simp
qed

lemma finished_runs_stay_finished_witness:
  "state_of (fold (sched_step demo_tz) [(OpFail 1 ''w1'' None, demo_t + hour)]
     (sched_run demo_tz (demo_trace @ [(OpComplete 1 ''w1'', demo_t + 2 * minute)]))) 1 = Some Completed"
proof (rule finished_runs_stay_finished)
  show "state_of (sched_run demo_tz (demo_trace @ [(OpComplete 1 ''w1'', demo_t + 2 * minute)])) 1 = Some Completed"
    using demo_done by (simp only: sched_run_def append.simps fold_simps demo_create demo_step2)
qed (simp add: final_state_def)

lemma attempts_bounded_witness:
  "\<exists>j \<in> set (jobs demo_db2). j_id j = ''digest'' \<and> 1 \<le> j_max_attempts j \<and> j_max_attempts j \<le> 20"
  using attempts_bounded [of demo_run demo_tz demo_trace] demo_in demo_run2 by (simp add: demo_run_def)

lemma one_run_per_occurrence_witness:
  "demo_run \<in> set (runs (sched_run demo_tz demo_trace)) \<and> demo_run = demo_run"
  using one_run_per_occurrence [of demo_run demo_tz demo_trace demo_run] demo_in demo_run2 by simp

lemma runKey_identifies_witness:
  "runKey ''digest'' demo_t \<noteq> runKey ''mail'' demo_t \<and> runKey ''digest'' demo_t \<noteq> runKey ''digest'' (demo_t + hour)"
  using runKey_identifies [OF demo_ids demo_in_range(1,1)]
    runKey_identifies [OF demo_ids(1,1) demo_in_range] by (simp add: hour_def)

lemma Claim_hands_out_a_lease_witness: "executing ''w1'' (demo_t + minute) minute demo_x demo_db2"
  using Claim_hands_out_a_lease [OF demo_claim [folded demo_run1]] by simp

lemma Claim_in_order_witness: "job_due (demo_t + minute) (claim_ready (demo_t + minute) demo_db1) created_job"
proof -
  have "x_job demo_x = created_job" by (simp add: demo_x_def scanRun_def)
  moreover have "runs (claim_ready (demo_t + minute) demo_db1) = []" by code_simp
  ultimately show ?thesis
    using Claim_in_order [OF demo_claim [folded demo_run1] refl] by (simp add: demo_run1)
qed

lemma Claim_idle_witness:
  "\<not> run_ready (demo_t + 90 * second) (claim_ready (demo_t + 90 * second) demo_db2) demo_run"
proof -
  have "demo_run \<in> set (runs (claim_ready (demo_t + 90 * second) demo_db2))" by code_simp
  with Claim_idle [OF demo_idle [folded demo_run2] refl] show ?thesis by (simp add: demo_run2)
qed

lemma cancelled_job_never_claimed_witness:
  "\<exists>x. fst (Claim_run ''w1'' minute (demo_t + minute) mail_db) = Inr (Some x) \<and> j_id (x_job x) \<noteq> ''digest''"
proof -
  from demo_mail obtain x where x: "fst (Claim_run ''w1'' minute (demo_t + minute) mail_db) = Inr (Some x)" ..
  have "mail_db = fold (sched_step demo_tz) [(OpCreate mail_job, demo_t + second)] cancelled_db"
    by (simp add: mail_db_def)
  from cancelled_job_never_claimed [OF demo_cancel [folded demo_run1] this prod_eqI]
  show ?thesis using x by (metis fst_conv snd_conv)
qed

lemma RecoverStale_leaves_leased_witness:
  "\<exists>l \<in> set (locks (snd (RecoverStale (demo_t + 90 * second) demo_db2))). l_job_id l = ''digest''"
proof -
  have "demo_run \<in> set (runs (snd (RecoverStale (demo_t + 90 * second) demo_db2)))" by code_simp
  then have row: "demo_run \<in> set (runs (snd (RecoverStale (demo_t + 90 * second) (sched_run demo_tz demo_trace))))"
    by (simp only: demo_run2)
  from RecoverStale_leaves_leased [OF prod.collapse [symmetric] row demo_in(2)]
  show ?thesis by (auto simp: demo_run2 demo_run_def)
qed

lemma boundedBackoff_doubles_witness: "boundedBackoff (3 * second) 4 = 24 * second"
  using boundedBackoff_doubles [of "3 * second" 4] by (simp add: units)

lemma NextRecurring_first_after_witness:
  "NextRecurring demo_t hour (demo_t + 90 * minute) > demo_t + 90 * minute"
  using NextRecurring_first_after [of hour demo_t "demo_t + 90 * minute"] by (simp add: units max_int64_def)

end
