(* ===== verification/SchedExec.thy ===== *)
theory SchedExec
  imports SchedProps Sha256
begin

text \<open>
  Package \<open>internal/scheduler\<close>, \<open>policy_gate.go\<close> and \<open>scheduler.go\<close>: the gate that decides
  whether a claimed run may execute, the execution of one run and the loop of a worker. The
  executor, the approval verifier and what other workers and clients do to the tables in the
  meantime are arguments: an executor takes the invocation and the state and returns how it ended
  with the state it left, so every interleaving of store operations during an execution is
  covered. Every operation also returns the list of the invocations it executed.
\<close>

section \<open>Invocations\<close>

record invocation =
  i_run_id :: int
  i_job_id :: string
  i_skill_id :: string
  i_input :: string
  i_class :: job_class
  i_risk :: risk
  i_scheduled_for :: time
  i_key :: string
  i_approval_ref :: string

definition invocation_of :: "run \<Rightarrow> invocation" where
  "invocation_of x =
     \<lparr>i_run_id = x_id x, i_job_id = j_id (x_job x), i_skill_id = j_skill_id (x_job x),
      i_input = j_input (x_job x), i_class = j_class (x_job x), i_risk = j_risk (x_job x),
      i_scheduled_for = x_scheduled_for x, i_key = x_key x, i_approval_ref = j_approval_ref (x_job x)\<rparr>"

section \<open>The policy gate\<close>

record approval_binding =
  b_reference :: string
  b_skill_id :: string
  b_input_hash :: string
  b_class :: job_class
  b_scheduled_for :: time
  b_key :: string

text \<open>\<open>VerifyScheduled\<close>: whether it returns nil. \<open>None\<close> stands for a nil verifier.\<close>

type_synonym verifier = "(approval_binding \<Rightarrow> bool) option"

definition binding_of :: "invocation \<Rightarrow> approval_binding" where
  "binding_of i =
     \<lparr>b_reference = i_approval_ref i, b_skill_id = i_skill_id i, b_input_hash = sha256_hex (i_input i),
      b_class = i_class i, b_scheduled_for = i_scheduled_for i, b_key = i_key i\<rparr>"

text \<open>The switch over the class: the mode, and the risk a missing one defaults to.\<close>

definition gate_mode :: "job_class \<Rightarrow> (mode \<times> risk) option" where
  "gate_mode c =
     (case c of
        Reminder \<Rightarrow> Some (Read, Safe)
      | ReadOnly \<Rightarrow> Some (Read, Safe)
      | ClassWrite \<Rightarrow> Some (Write, Medium)
      | ClassPublish \<Rightarrow> Some (Publish, High)
      | _ \<Rightarrow> None)"

definition gate_tool :: "invocation \<Rightarrow> mode \<Rightarrow> risk \<Rightarrow> tool" where
  "gate_tool i m dflt =
     \<lparr>t_name = ''skill.'' @ i_skill_id i, t_version = ''1'', t_input_schema = [],
      t_risk = (if i_risk i = Risk_Unset then dflt else i_risk i), t_modes = [m],
      t_approval = False, t_timeout = minute, t_output_limit = 1048576, t_path_scope = [],
      t_network_scope = [], t_idempotency = AtLeastOnce\<rparr>"

definition Authorize_gate :: "verifier \<Rightarrow> invocation \<Rightarrow> (sched_error, unit) result" where
  "Authorize_gate v i =
     (case gate_mode (i_class i) of
        None \<Rightarrow> Inl (PolicyDenied ''unknown job class'')
      | Some (m, dflt) \<Rightarrow>
          let d = Evaluate (gate_tool i m dflt) m
          in if d_allowed d then Inr ()
             else if \<not> d_needs_approval d then Inl (PolicyDenied (d_reason d))
             else if i_approval_ref i = [] \<or> v = None then Inl (PolicyDenied ''bound approval required'')
             else if \<not> the v (binding_of i) then Inl (PolicyDenied ''approval verification failed'')
             else Inr ())"

section \<open>The worker\<close>

datatype run_end = Succeeded | Broke string bool bool

text \<open>
  \<open>Broke msg c d\<close>: the executor returned an error with this text; \<open>c\<close> tells whether it is
  \<open>context.Canceled\<close>, \<open>d\<close> whether the context of the run was cancelled.
\<close>

record sched_state =
  s_db :: sched_db
  s_active :: "(int \<times> string) list"

type_synonym authorizer = "invocation \<Rightarrow> string option"
type_synonym executor = "invocation \<Rightarrow> sched_state \<Rightarrow> run_end \<times> sched_state"

definition gate_authorizer :: "verifier \<Rightarrow> authorizer" where
  "gate_authorizer v i =
     (case Authorize_gate v i of
        Inr _ \<Rightarrow> None
      | Inl (PolicyDenied m) \<Rightarrow> Some (''scheduled invocation denied by policy: '' @ m)
      | Inl _ \<Rightarrow> Some [])"

record sched_config =
  g_executor :: "executor option"
  g_authorizer :: "authorizer option"
  g_owner :: string
  g_lock_ttl :: duration
  g_poll :: duration

definition validate_config :: "sched_config \<Rightarrow> (sched_error, unit) result" where
  "validate_config g =
     (if g_executor g = None \<or> g_authorizer g = None then Inl DependenciesRequired
      else if g_owner g = [] \<or> g_lock_ttl g \<le> 0 \<or> g_poll g \<le> 0 then Inl OwnerRequired
      else Inr ())"

definition new_scheduler :: "executor \<Rightarrow> string \<Rightarrow> sched_config" where
  "new_scheduler e owner =
     \<lparr>g_executor = Some e, g_authorizer = Some (gate_authorizer None), g_owner = owner,
      g_lock_ttl = 5 * minute, g_poll = second\<rparr>"

text \<open>One store operation on the tables inside the state.\<close>

definition on_db :: "(sched_db \<Rightarrow> 'a \<times> sched_db) \<Rightarrow> sched_state \<Rightarrow> 'a \<times> sched_state" where
  "on_db f s = (fst (f (s_db s)), s\<lparr>s_db := snd (f (s_db s))\<rparr>)"

definition register :: "run \<Rightarrow> sched_state \<Rightarrow> sched_state" where
  "register x s = s\<lparr>s_active := (x_id x, j_id (x_job x)) # filter (\<lambda>a. fst a \<noteq> x_id x) (s_active s)\<rparr>"

definition unregister :: "run \<Rightarrow> sched_state \<Rightarrow> sched_state" where
  "unregister x s = s\<lparr>s_active := filter (\<lambda>a. fst a \<noteq> x_id x) (s_active s)\<rparr>"

text \<open>What the executor's return leads to.\<close>

definition settle :: "string \<Rightarrow> time \<Rightarrow> run \<Rightarrow> run_end \<Rightarrow> sched_state \<Rightarrow> (sched_error, unit) result \<times> sched_state" where
  "settle owner now x out s =
     (case out of
        Succeeded \<Rightarrow> on_db (Complete_run (x_id x) owner now) s
      | Broke msg cancelled ctx_cancelled \<Rightarrow>
          if cancelled \<or> ctx_cancelled
          then (case IsCancelled (j_id (x_job x)) (s_db s) of
                  Inl e \<Rightarrow> (Inl e, s)
                | Inr True \<Rightarrow> on_db (MarkCancelled_run (x_id x) owner now) s
                | Inr False \<Rightarrow>
                    on_db (Requeue_run (x_id x) owner ''scheduler shutdown before completion'' now) s)
          else on_db (Fail_run (x_id x) owner (Some msg) now) s)"

definition execute_run ::
  "authorizer \<Rightarrow> executor \<Rightarrow> string \<Rightarrow> time \<Rightarrow> run \<Rightarrow> sched_state \<Rightarrow>
   (sched_error, unit) result \<times> sched_state \<times> invocation list" where
  "execute_run auth exec owner now x s =
     (let s = register x s; i = invocation_of x
      in case auth i of
           Some cause \<Rightarrow>
             (let (r, s') = on_db (Deny_run (x_id x) owner (Some cause) now) s
              in (r, unregister x s', []))
         | None \<Rightarrow>
             (let (out, s1) = exec i s;
                  (r, s') = settle owner now x out s1
              in (r, unregister x s', [i])))"

text \<open>\<open>RunOnce\<close>, with the clock readings of the claim and of the end of the run.\<close>

definition RunOnce_worker ::
  "sched_config \<Rightarrow> time \<Rightarrow> time \<Rightarrow> sched_state \<Rightarrow> (sched_error, bool) result \<times> sched_state \<times> invocation list" where
  "RunOnce_worker g now later s =
     (case validate_config g of
        Inl e \<Rightarrow> (Inl e, s, [])
      | Inr _ \<Rightarrow>
          (case on_db (Claim_run (g_owner g) (g_lock_ttl g) now) s of
             (Inl e, s') \<Rightarrow> (Inl e, s', [])
           | (Inr None, s') \<Rightarrow> (Inr False, s', [])
           | (Inr (Some x), s') \<Rightarrow>
               (case execute_run (the (g_authorizer g)) (the (g_executor g)) (g_owner g) later x s' of
                  (Inl e, s'', is) \<Rightarrow> (Inl e, s'', is)
                | (Inr _, s'', is) \<Rightarrow> (Inr True, s'', is))))"

definition CancelJob :: "string \<Rightarrow> time \<Rightarrow> sched_state \<Rightarrow> (sched_error, int list) result \<times> sched_state" where
  "CancelJob i now s =
     (case on_db (Cancel_job i now) s of
        (Inl e, s') \<Rightarrow> (Inl e, s')
      | (Inr _, s') \<Rightarrow> (Inr (map fst (filter (\<lambda>a. snd a = i) (s_active s'))), s'))"

text \<open>
  An iteration of the loop of \<open>Run\<close>: what the others did to the state since the last one, the
  clock readings, and whether the context is done after it. The loop itself ends when the list of
  iterations does, which stands for a process that is still running. After a run during which the
  context was done, the next \<open>Claim\<close> fails on the context and \<open>Run\<close> returns nil.
\<close>

record tick =
  k_world :: "sched_state \<Rightarrow> sched_state"
  k_claim :: time
  k_end :: time
  k_done :: bool

fun run_loop ::
  "sched_config \<Rightarrow> tick list \<Rightarrow> sched_state \<Rightarrow> (sched_error, unit) result option \<times> sched_state \<times> invocation list" where
  "run_loop g [] s = (None, s, [])"
| "run_loop g (t # ts) s =
     (case RunOnce_worker g (k_claim t) (k_end t) (k_world t s) of
        (Inl e, s', is) \<Rightarrow> (Some (if k_done t then Inr () else Inl e), s', is)
      | (Inr True, s', is) \<Rightarrow>
          if k_done t then (Some (Inr ()), s', is)
          else (let (r, s'', js) = run_loop g ts s' in (r, s'', is @ js))
      | (Inr False, s', is) \<Rightarrow>
          if k_done t then (Some (Inr ()), s', is)
          else (let (r, s'', js) = run_loop g ts s' in (r, s'', is @ js)))"

definition Run_worker ::
  "sched_config \<Rightarrow> time \<Rightarrow> tick list \<Rightarrow> sched_state \<Rightarrow>
   (sched_error, unit) result option \<times> sched_state \<times> invocation list" where
  "Run_worker g start ts s =
     (case validate_config g of
        Inl e \<Rightarrow> (Some (Inl e), s, [])
      | Inr _ \<Rightarrow> run_loop g ts (snd (on_db (RecoverStale start) s)))"


section \<open>What the gate lets through\<close>

definition needs_approval :: "invocation \<Rightarrow> bool" where
  "needs_approval i \<longleftrightarrow> i_class i = ClassPublish \<or> i_risk i = High \<or> i_risk i = Critical"

definition approved :: "verifier \<Rightarrow> invocation \<Rightarrow> bool" where
  "approved v i \<longleftrightarrow> i_approval_ref i \<noteq> [] \<and> (\<exists>verify. v = Some verify \<and> verify (binding_of i))"

lemma gate_mode_known: "gate_mode c = None \<longleftrightarrow> \<not> known_class c"
  by (cases c) (simp_all add: gate_mode_def known_class_def)

lemma gate_tool_verdict:
  assumes "gate_mode (i_class i) = Some (m, dflt)"
  shows "d_allowed (Evaluate (gate_tool i m dflt) m) \<longleftrightarrow> \<not> needs_approval i"
    and "d_needs_approval (Evaluate (gate_tool i m dflt) m) \<longleftrightarrow> needs_approval i"
  using assms
  by (auto simp: Evaluate_allowed_iff Evaluate_needs_iff gate_tool_def gate_mode_def needs_approval_def units
      split: job_class.splits)

lemma Authorize_gate_iff:
  "Authorize_gate v i = Inr () \<longleftrightarrow> known_class (i_class i) \<and> (needs_approval i \<longrightarrow> approved v i)"
proof (cases "gate_mode (i_class i)")
  case None
  then have "\<not> known_class (i_class i)" using gate_mode_known by blast
  with None show ?thesis by (simp add: Authorize_gate_def)
next
  case (Some md)
  obtain m dflt where md: "md = (m, dflt)" by fastforce
  have "known_class (i_class i)" using Some gate_mode_known [of "i_class i"] by simp
  with Some md gate_tool_verdict [of i m dflt] show ?thesis
    by (auto simp: Authorize_gate_def Let_def approved_def split: if_splits)
qed

lemma gate_authorizer_None: "gate_authorizer v i = None \<longleftrightarrow> Authorize_gate v i = Inr ()"
  by (simp add: gate_authorizer_def split: sum.split sched_error.split)

text \<open>The contract between a worker and its authorizer.\<close>

locale guarded_worker =
  fixes auth :: authorizer
    and safe :: "invocation \<Rightarrow> bool"
  assumes auth_safe: "auth i = None \<Longrightarrow> safe i"
begin

lemma execute_safe: "execute_run auth ex w now x s = (r, s', is) \<Longrightarrow> \<forall>i \<in> set is. safe i"
  by (auto simp: execute_run_def Let_def auth_safe split: option.splits prod.splits)

lemma RunOnce_safe:
  "g_authorizer g = Some auth \<Longrightarrow> RunOnce_worker g now later s = (r, s', is) \<Longrightarrow> \<forall>i \<in> set is. safe i"
  by (auto simp: RunOnce_worker_def split: sum.splits option.splits prod.splits dest: execute_safe)

lemma loop_safe:
  assumes "g_authorizer g = Some auth"
  shows "run_loop g ts s = (r, s', is) \<Longrightarrow> \<forall>i \<in> set is. safe i"
proof (induction ts arbitrary: s r s' "is")
  case (Cons t ts)
  obtain q s1 js where once: "RunOnce_worker g (k_claim t) (k_end t) (k_world t s) = (q, s1, js)"
    by (metis prod_cases3)
  note here = RunOnce_safe [OF assms once]
  show ?case
    using Cons.prems once here Cons.IH [of s1]
    by (auto split: sum.splits bool.splits prod.splits if_splits)
qed simp

lemma Run_safe:
  "g_authorizer g = Some auth \<Longrightarrow> Run_worker g start ts s = (r, s', is) \<Longrightarrow> \<forall>i \<in> set is. safe i"
  by (auto simp: Run_worker_def split: sum.splits dest: loop_safe)

end

interpretation gate: guarded_worker "gate_authorizer v" "\<lambda>i. known_class (i_class i) \<and> (needs_approval i \<longrightarrow> approved v i)"
  by unfold_locales (simp add: gate_authorizer_None Authorize_gate_iff)

section \<open>How a run ends\<close>

text \<open>The state a run in progress is put into, by how its executor ended.\<close>

definition settled :: "sched_db \<Rightarrow> run_end \<Rightarrow> run_row \<Rightarrow> job \<Rightarrow> run_state" where
  "settled db out r j =
     (case out of
        Succeeded \<Rightarrow> Completed
      | Broke msg c d \<Rightarrow>
          if c \<or> d then (if j_cancelled_at j \<noteq> None then Cancelled else Pending)
          else if r_attempts r \<ge> j_max_attempts j then Dead else Pending)"

text \<open>The end of a run in progress: its new row, and nobody but other owners holds its job.\<close>

definition ended :: "string \<Rightarrow> int \<Rightarrow> string \<Rightarrow> run_state \<Rightarrow> sched_db \<Rightarrow> bool" where
  "ended w k i st db \<longleftrightarrow> state_of db k = Some st
     \<and> (\<forall>l \<in> set (locks db). \<not> (l_job_id l = i \<and> l_owner l = w))"

lemma ended_update:
  assumes "sched_inv db" and "r \<in> set (runs db)" and "r_id r = k" and "r_state r = Running"
    and f: "\<And>q. r_id (f q) = r_id q \<and> r_job_id (f q) = r_job_id q" and "r_state (f r) = st"
  shows "ended w k (r_job_id r) st (release_of_run k w
    (db\<lparr>runs := update_where (\<lambda>q. r_id q = k \<and> r_state q = Running) f (runs db)\<rparr>))"
proof -
  let ?db = "db\<lparr>runs := update_where (\<lambda>q. r_id q = k \<and> r_state q = Running) f (runs db)\<rparr>"
  have "run_by_id k ?db = map_option (\<lambda>q. if r_id q = k \<and> r_state q = Running then f q else q) (run_by_id k db)"
    unfolding run_by_id_def by (simp add: select_one_update f)
  then have row: "run_by_id k ?db = Some (f r)"
    using run_by_id_self [OF assms(1,2)] assms(3,4) by simp
  have "release_of_run k w ?db = release_lock (r_job_id r) w ?db"
    by (simp add: release_of_run_def row f)
  with row assms(6) show ?thesis
    by (auto simp: ended_def state_of_def release_lock_def run_by_id_def)
qed

lemma finish_run_ends:
  assumes "sched_inv db" and "r \<in> set (runs db)" and "r_id r = k" and "r_state r = Running"
  shows "fst (finish_run k w st msg now db) = Inr () \<and> ended w k (r_job_id r) st (snd (finish_run k w st msg now db))"
proof -
  have "rows_affected (\<lambda>q. r_id q = k \<and> r_state q = Running) (runs db) = 1"
    by (rule rows_affected_distinct [where key = r_id and r = r])
       (use assms sched_invD(2) [OF assms(1)] in simp_all)
  with ended_update [OF assms] show ?thesis by (simp add: finish_run_def Let_def)
qed

lemma Fail_run_ends:
  assumes "sched_inv db" and "r \<in> set (runs db)" and "r_id r = k" and "r_state r = Running"
    and "job_by_id (r_job_id r) db = Some j"
  shows "fst (Fail_run k w c now db) = Inr ()
    \<and> ended w k (r_job_id r) (if r_attempts r \<ge> j_max_attempts j then Dead else Pending) (snd (Fail_run k w c now db))"
proof -
  have "select_one (\<lambda>q. r_id q = k \<and> r_state q = Running) (runs db) = Some r"
  proof (cases "select_one (\<lambda>q. r_id q = k \<and> r_state q = Running) (runs db)")
    case None
    then show ?thesis using assms by (simp add: select_one_None)
  next
    case (Some q)
    then have "q \<in> set (runs db)" "r_id q = k" by (auto dest: select_oneD)
    with Some show ?thesis using same_run [OF assms(1,2)] assms(3) by simp
  qed
  with ended_update [OF assms(1-4)] assms(5) show ?thesis by (simp add: Fail_run_def Let_def)
qed

lemma settle_ends:
  assumes "sched_inv (s_db s)" and "r \<in> set (runs (s_db s))" and "r_id r = x_id x" and "r_state r = Running"
    and "r_job_id r = j_id (x_job x)" and "job_by_id (r_job_id r) (s_db s) = Some j"
    and "settle w now x out s = (res, s')"
  shows "res = Inr () \<and> ended w (x_id x) (r_job_id r) (settled (s_db s) out r j) (s_db s')"
proof (cases out)
  case Succeeded
  with finish_run_ends [OF assms(1-4)] assms(7) show ?thesis
    by (auto simp: settle_def settled_def on_db_def Complete_run_def)
next
  case (Broke msg c d)
  show ?thesis
  proof (cases "c \<or> d")
    case True
    have "IsCancelled (j_id (x_job x)) (s_db s) = Inr (j_cancelled_at j \<noteq> None)"
      using assms(5,6) by (simp add: IsCancelled_def)
    with True Broke finish_run_ends [OF assms(1-4)] ended_update [OF assms(1-4)] assms(7) show ?thesis
      by (auto simp: settle_def settled_def on_db_def MarkCancelled_run_def Requeue_run_def Let_def
          split: if_splits)
  next
    case False
    with Broke Fail_run_ends [OF assms(1-4,6)] assms(7) show ?thesis
      by (auto simp: settle_def settled_def on_db_def)
  qed
qed

section \<open>The theorems\<close>

text \<open>
  The policy gate lets an invocation through exactly if its class is known and, where the class
  is publishing or the risk high or critical, a verifier has accepted the approval bound to its
  skill, the hash of its input, its class, its instant and its idempotency key.
\<close>

theorem gate_allows_iff:
  "Authorize_gate v i = Inr () \<longleftrightarrow> known_class (i_class i) \<and> (needs_approval i \<longrightarrow> approved v i)"
  by (rule Authorize_gate_iff)

text \<open>
  C1: A worker whose authorizer is the policy gate never executes a publishing or high-risk
  invocation without a verified approval, in any number of iterations and whatever other workers
  and clients do to the tables in between.
\<close>

theorem worker_never_publishes_unapproved:
  assumes "g_authorizer g = Some (gate_authorizer v)" and "Run_worker g start ts s = (r, s', is)"
    and "i \<in> set is" and "needs_approval i"
  shows "approved v i"
  using gate.Run_safe [OF assms(1,2)] assms(3,4) by blast

text \<open>
  A run that is still in progress when its executor returns ends in the state the outcome calls
  for (completed, cancelled, retried or dead), without an error, and its worker no longer holds the
  lock of the job.
\<close>

theorem execute_ends_run:
  assumes "auth (invocation_of x) = None" and "ex (invocation_of x) (register x s) = (out, s1)"
    and "sched_inv (s_db s1)" and "r \<in> set (runs (s_db s1))" and "r_id r = x_id x" and "r_state r = Running"
    and "r_job_id r = j_id (x_job x)" and "job_by_id (r_job_id r) (s_db s1) = Some j"
    and "execute_run auth ex w now x s = (res, s', is)"
  shows "res = Inr () \<and> is = [invocation_of x] \<and> ended w (x_id x) (r_job_id r) (settled (s_db s1) out r j) (s_db s')"
proof -
  obtain r2 s2 where st: "settle w now x out s1 = (r2, s2)" by fastforce
  have "s_db (unregister x s2) = s_db s2" by (simp add: unregister_def)
  with settle_ends [OF assms(3-8) st] st assms(1,2,9) show ?thesis
    by (auto simp: execute_run_def Let_def)
qed

end
