(* ===== verification/SchedExecDemo.thy ===== *)
theory SchedExecDemo
  imports SchedExec SchedDemo
begin

text \<open>A worker that publishes one approved job, evaluated; the theorems of \<open>SchedExec\<close> at it.\<close>

definition publish_job :: job where
  "publish_job = created_job\<lparr>j_kind := OneTime, j_class := ClassPublish, j_risk := High, j_every := 0,
     j_approval_ref := ''ap-1''\<rparr>"

definition publish_db :: sched_db where
  "publish_db = \<lparr>jobs = [publish_job], runs = [], locks = [], run_seq = 0\<rparr>"

definition publish_run :: run_row where
  "publish_run = \<lparr>r_id = 1, r_job_id = ''digest'', r_scheduled_for = demo_t,
     r_key = ''job:digest:2024-12-17T02:40:00Z'', r_state = Running, r_attempts = 1,
     r_available_at = demo_t + minute, r_started_at = Some (demo_t + minute), r_finished_at = None,
     r_last_error = [], r_created_at = demo_t + minute, r_updated_at = demo_t + minute\<rparr>"

definition publish_db2 :: sched_db where
  "publish_db2 = \<lparr>jobs = [publish_job\<lparr>j_enabled := False, j_updated_at := demo_t + minute\<rparr>],
     runs = [publish_run],
     locks = [\<lparr>l_job_id = ''digest'', l_owner = ''w1'', l_acquired_at = demo_t + minute,
               l_expires_at = demo_t + 6 * minute\<rparr>], run_seq = 1\<rparr>"

definition publish_x :: run where "publish_x = scanRun publish_run publish_job"

definition accept :: verifier where "accept = Some (\<lambda>b. b_reference b = ''ap-1'')"

definition sent :: executor where "sent = (\<lambda>i s. (Succeeded, s))"

definition publisher :: sched_config where
  "publisher = \<lparr>g_executor = Some sent, g_authorizer = Some (gate_authorizer accept), g_owner = ''w1'',
     g_lock_ttl = 5 * minute, g_poll = second\<rparr>"

definition publish_tick :: tick where
  "publish_tick = \<lparr>k_world = (\<lambda>s. s), k_claim = demo_t + minute, k_end = demo_t + 2 * minute, k_done = True\<rparr>"

definition publish_state :: sched_state where "publish_state = \<lparr>s_db = publish_db, s_active = []\<rparr>"

lemma publish_recover: "RecoverStale demo_t publish_db = (0, publish_db)"
  by code_simp

lemma publish_claim: "Claim_run ''w1'' (5 * minute) (demo_t + minute) publish_db = (Inr (Some publish_x), publish_db2)"
  by code_simp

lemma publish_invocation: "needs_approval (invocation_of publish_x)" "known_class (i_class (invocation_of publish_x))"
  "approved accept (invocation_of publish_x)"
  by (simp_all add: needs_approval_def known_class_def approved_def accept_def invocation_of_def publish_x_def
      scanRun_def publish_job_def created_job_def binding_of_def)

lemma publish_authorized: "gate_authorizer accept (invocation_of publish_x) = None"
  using publish_invocation by (simp add: gate_authorizer_None Authorize_gate_iff)

lemma publish_trace:
  "snd (snd (Run_worker publisher demo_t [publish_tick] publish_state)) = [invocation_of publish_x]"
proof -
  have "validate_config publisher = Inr ()"
    by (simp add: validate_config_def publisher_def units)
  then show ?thesis
    by (simp add: Run_worker_def on_db_def publish_state_def publish_recover publish_tick_def
        RunOnce_worker_def publisher_def publish_claim execute_run_def publish_authorized Let_def
        case_prod_beta split: sum.split prod.split)
qed

lemma publish_inv: "sched_inv publish_db2"
proof -
  have "sched_inv publish_db" by code_simp
  from Claim_run_keeps [OF this, of "''w1''" "5 * minute" "demo_t + minute"] show ?thesis
    by (simp add: publish_claim)
qed

lemma worker_never_publishes_unapproved_witness: "approved accept (invocation_of publish_x)"
proof (rule worker_never_publishes_unapproved)
  show "g_authorizer publisher = Some (gate_authorizer accept)" by (simp add: publisher_def)
  show "Run_worker publisher demo_t [publish_tick] publish_state =
      (fst (Run_worker publisher demo_t [publish_tick] publish_state),
       fst (snd (Run_worker publisher demo_t [publish_tick] publish_state)), [invocation_of publish_x])"
    by (metis prod.collapse publish_trace)
qed (simp_all add: publish_invocation)

lemma execute_ends_run_witness:
  "ended ''w1'' 1 ''digest'' Completed (s_db (fst (snd (execute_run (gate_authorizer accept) sent ''w1''
     (demo_t + 2 * minute) publish_x \<lparr>s_db = publish_db2, s_active = []\<rparr>))))"
proof -
  let ?s = "\<lparr>s_db = publish_db2, s_active = []\<rparr>"
  have row: "publish_run \<in> set (runs (s_db (register publish_x ?s)))"
    and inv: "sched_inv (s_db (register publish_x ?s))"
    using publish_inv by (simp_all add: register_def publish_db2_def)
  have same: "r_id publish_run = x_id publish_x" "r_state publish_run = Running"
    "r_job_id publish_run = j_id (x_job publish_x)"
    by (simp_all add: publish_x_def scanRun_def publish_run_def publish_job_def created_job_def demo_job_def)
  obtain j where j: "job_by_id (r_job_id publish_run) (s_db (register publish_x ?s)) = Some j"
    using inv row by (rule run_has_job)
  obtain res s' js where ex: "execute_run (gate_authorizer accept) sent ''w1'' (demo_t + 2 * minute) publish_x ?s
      = (res, s', js)" by (metis prod_cases3)
  have "sent (invocation_of publish_x) (register publish_x ?s) = (Succeeded, register publish_x ?s)"
    by (simp add: sent_def)
  from execute_ends_run [OF publish_authorized this inv row same j ex] ex show ?thesis
    by (simp add: settled_def publish_x_def scanRun_def publish_run_def)
qed

lemma gate_allows_iff_witness: "Authorize_gate accept (invocation_of publish_x) = Inr ()"
  using gate_allows_iff [of accept "invocation_of publish_x"] publish_invocation by simp

end
