(* ===== verification/Sha256Test.thy ===== *)
theory Sha256Test
  imports Sha256
begin

text \<open>The test vector of FIPS 180-4 for one block, evaluated by the kernel.\<close>

lemma sha256_abc: "sha256_hex ''abc'' = ''ba7816bf8f01cfea414140de5dae2223b00361a396177a9cb410ff61f20015ad''"
  by code_simp

end
