(* ===== verification/InstaStore.thy ===== *)
theory InstaStore
  imports Approval
begin

text \<open>
  Package \<open>internal/instagram\<close>, \<open>store.go\<close>: the drafts and the publish events. Every
  reading of the clock is an argument. A row keeps its timestamps as the values their texts stand
  for; reading a row back fails where such a text does not parse. The time stamps of the events, which
  nothing reads, are left out. The constants carry the suffix \<open>_draft\<close> where their Go name is taken.
\<close>

section \<open>Rows\<close>

datatype draft_state = DPrepared | DPublishing | DFailed | DPublished | DCancelled

record draft =
  d_id :: string
  d_account :: string
  d_artifact :: string
  d_asset_hash :: string
  d_caption :: string
  d_caption_hash :: string
  d_publish_at :: time
  d_state :: draft_state
  d_container :: string
  d_media :: string
  d_staging_id :: string
  d_staging_url :: string
  d_staging_expires :: "time option"
  d_creation_key :: string
  d_attempts :: int
  d_max_attempts :: int
  d_available_at :: time
  d_authorized_until :: "time option"
  d_last_error :: string
  d_created_at :: time
  d_updated_at :: time

record publish_event =
  e_draft :: string
  e_kind :: string
  e_ref :: string
  e_detail :: string

record insta_db =
  drafts :: "draft list"
  events :: "publish_event list"

definition no_drafts :: insta_db where
  "no_drafts = \<lparr>drafts = [], events = []\<rparr>"

record prepare_request =
  p_account :: string
  p_artifact :: string
  p_caption :: string
  p_publish_at :: time
  p_creation_key :: string
  p_max_attempts :: int

record staged_media =
  sm_id :: string
  sm_url :: string
  sm_expires :: time

datatype insta_error =
    InvalidDraft | DraftConflict | NotDue | BadBinding | RetryExhausted | ContainerFailed
  | NoDraft | BadStoredTime | NotClaimable draft_state | ClaimRace | CompletionMismatch | DraftConstraint
  | InstaUnavailable | BadStaging | PollingExhausted | CallFailed string | InstaAudit audit_error
  | StoreFailed | ProcessDied

section \<open>Reading rows\<close>

definition stored_ok :: "time option \<Rightarrow> bool" where
  "stored_ok t = (case t of None \<Rightarrow> True | Some x \<Rightarrow> parse_stored x \<noteq> None)"

definition scanDraft :: "draft \<Rightarrow> (insta_error, draft) result" where
  "scanDraft d =
     (if parse_stored (d_publish_at d) = None \<or> parse_stored (d_available_at d) = None
         \<or> parse_stored (d_created_at d) = None \<or> parse_stored (d_updated_at d) = None
         \<or> \<not> stored_ok (d_staging_expires d) \<or> \<not> stored_ok (d_authorized_until d)
      then Inl BadStoredTime else Inr d)"

definition scan_where :: "(draft \<Rightarrow> bool) \<Rightarrow> insta_db \<Rightarrow> (insta_error, draft) result" where
  "scan_where p db = (case select_one p (drafts db) of None \<Rightarrow> Inl NoDraft | Some d \<Rightarrow> scanDraft d)"

definition Get_draft :: "string \<Rightarrow> insta_db \<Rightarrow> (insta_error, draft) result" where
  "Get_draft i db = scan_where (\<lambda>d. d_id d = i) db"

definition insertEvent :: "string \<Rightarrow> string \<Rightarrow> string \<Rightarrow> string \<Rightarrow> insta_db \<Rightarrow> insta_db" where
  "insertEvent i kind ref detail db =
     db\<lparr>events := events db @ [\<lparr>e_draft = i, e_kind = kind, e_ref = ref, e_detail = detail\<rparr>]\<rparr>"

definition hashString :: "string \<Rightarrow> string" where
  "hashString s = sha256_hex s"

text \<open>\<open>strings.ReplaceAll(err.Error(), "\n", " ")\<close>, cut to 500 bytes.\<close>

definition safeError :: "string option \<Rightarrow> string" where
  "safeError e =
     (case e of None \<Rightarrow> []
      | Some s \<Rightarrow> (let v = map (\<lambda>c. if c = CHR 0x0A then CHR '' '' else c) s
                   in if length v > 500 then take 500 v else v))"

section \<open>Create\<close>

definition draft_id :: "string \<Rightarrow> string \<Rightarrow> string" where
  "draft_id account key = hex_encode (take 16 (sha256 (''instagram-draft:'' @ account @ '':'' @ key)))"

definition new_draft :: "prepare_request \<Rightarrow> string \<Rightarrow> string \<Rightarrow> time \<Rightarrow> draft" where
  "new_draft q asset caption now =
     \<lparr>d_id = draft_id (p_account q) (p_creation_key q), d_account = p_account q, d_artifact = p_artifact q,
      d_asset_hash = asset, d_caption = p_caption q, d_caption_hash = caption, d_publish_at = p_publish_at q,
      d_state = DPrepared, d_container = [], d_media = [], d_staging_id = [], d_staging_url = [],
      d_staging_expires = None, d_creation_key = p_creation_key q, d_attempts = 0,
      d_max_attempts = p_max_attempts q, d_available_at = p_publish_at q, d_authorized_until = None,
      d_last_error = [], d_created_at = now, d_updated_at = now\<rparr>"

text \<open>The result is the draft and whether it is new.\<close>

definition Create_draft ::
  "prepare_request \<Rightarrow> string \<Rightarrow> string \<Rightarrow> time \<Rightarrow> insta_db \<Rightarrow> (insta_error, draft \<times> bool) result \<times> insta_db" where
  "Create_draft q asset caption now db =
     (case scan_where (\<lambda>d. d_creation_key d = p_creation_key q) db of
        Inr old \<Rightarrow>
          if d_account old = p_account q \<and> d_artifact old = p_artifact q \<and> d_asset_hash old = asset
             \<and> d_caption_hash old = caption \<and> d_publish_at old = p_publish_at q
          then (Inr (old, False), db) else (Inl DraftConflict, db)
      | Inl NoDraft \<Rightarrow>
          (let d = new_draft q asset caption now in
           if exists_where (\<lambda>r. d_id r = d_id d \<or> d_creation_key r = d_creation_key d) (drafts db)
              \<or> \<not> (1 \<le> d_max_attempts d \<and> d_max_attempts d \<le> 10)
           then (Inl DraftConstraint, db)
           else (Inr (d, True), insertEvent (d_id d) ''prepared'' [] [] (db\<lparr>drafts := drafts db @ [d]\<rparr>)))
      | Inl e \<Rightarrow> (Inl e, db))"

section \<open>Transitions\<close>

definition open_draft :: "draft \<Rightarrow> bool" where
  "open_draft d \<longleftrightarrow> d_state d = DPrepared \<or> d_state d = DFailed"

definition MarkAuthorized :: "string \<Rightarrow> time \<Rightarrow> time \<Rightarrow> insta_db \<Rightarrow> (insta_error, unit) result \<times> insta_db" where
  "MarkAuthorized i expires now db =
     (let p = (\<lambda>d. d_id d = i \<and> open_draft d);
          db' = db\<lparr>drafts := update_where p (\<lambda>d. d\<lparr>d_authorized_until := Some expires, d_updated_at := now\<rparr>) (drafts db)\<rparr>
      in if rows_affected p (drafts db) \<noteq> 1 then (Inl BadBinding, db') else (Inr (), db'))"

definition attempt_detail :: "int \<Rightarrow> string" where
  "attempt_detail n = ''attempt='' @ format_int n"

definition Claim_draft :: "string \<Rightarrow> time \<Rightarrow> insta_db \<Rightarrow> (insta_error, draft) result \<times> insta_db" where
  "Claim_draft i now db =
     (case Get_draft i db of
        Inl e \<Rightarrow> (Inl e, db)
      | Inr d \<Rightarrow>
          if d_state d = DPublished then (Inr d, db)
          else if d_state d \<noteq> DPrepared \<and> d_state d \<noteq> DFailed then (Inl (NotClaimable (d_state d)), db)
          else if d_attempts d \<ge> d_max_attempts d then (Inl RetryExhausted, db)
          else if (case d_authorized_until d of None \<Rightarrow> True | Some t \<Rightarrow> \<not> now < t) then (Inl BadBinding, db)
          else if now < d_publish_at d \<or> now < d_available_at d then (Inl NotDue, db)
          else (let p = (\<lambda>r. d_id r = i \<and> open_draft r);
                    f = (\<lambda>r. r\<lparr>d_state := DPublishing, d_attempts := d_attempts r + 1, d_updated_at := now\<rparr>);
                    d' = d\<lparr>d_state := DPublishing, d_attempts := d_attempts d + 1, d_updated_at := now\<rparr>
                in if rows_affected p (drafts db) \<noteq> 1 then (Inl ClaimRace, db)
                   else (Inr d', insertEvent i ''claimed'' [] (attempt_detail (d_attempts d'))
                                   (db\<lparr>drafts := update_where p f (drafts db)\<rparr>))))"

definition publishing :: "string \<Rightarrow> draft \<Rightarrow> bool" where
  "publishing i d \<longleftrightarrow> d_id d = i \<and> d_state d = DPublishing"

text \<open>The event refers to its draft by a foreign key; without the draft the transaction is rolled back.\<close>

definition commit_event ::
  "string \<Rightarrow> string \<Rightarrow> string \<Rightarrow> insta_db \<Rightarrow> insta_db \<Rightarrow> (insta_error, unit) result \<times> insta_db" where
  "commit_event i kind ref db' db =
     (if exists_where (\<lambda>d. d_id d = i) (drafts db') then (Inr (), insertEvent i kind ref [] db') else (Inl DraftConstraint, db))"

definition SaveStaging :: "string \<Rightarrow> staged_media \<Rightarrow> time \<Rightarrow> insta_db \<Rightarrow> (insta_error, unit) result \<times> insta_db" where
  "SaveStaging i m now db =
     commit_event i ''media_staged'' (sm_id m)
       (db\<lparr>drafts := update_where (publishing i)
          (\<lambda>d. d\<lparr>d_staging_id := sm_id m, d_staging_url := sm_url m, d_staging_expires := Some (sm_expires m),
                 d_updated_at := now\<rparr>) (drafts db)\<rparr>) db"

definition SaveContainer :: "string \<Rightarrow> string \<Rightarrow> time \<Rightarrow> insta_db \<Rightarrow> (insta_error, unit) result \<times> insta_db" where
  "SaveContainer i c now db =
     commit_event i ''container_created'' c
       (db\<lparr>drafts := update_where (publishing i) (\<lambda>d. d\<lparr>d_container := c, d_updated_at := now\<rparr>) (drafts db)\<rparr>) db"

definition Complete_draft :: "string \<Rightarrow> string \<Rightarrow> time \<Rightarrow> insta_db \<Rightarrow> (insta_error, unit) result \<times> insta_db" where
  "Complete_draft i media now db =
     (if rows_affected (publishing i) (drafts db) \<noteq> 1 then (Inl CompletionMismatch, db)
      else (Inr (), insertEvent i ''published'' media []
              (db\<lparr>drafts := update_where (publishing i)
                 (\<lambda>d. d\<lparr>d_state := DPublished, d_media := media, d_last_error := [], d_updated_at := now\<rparr>) (drafts db)\<rparr>)))"

text \<open>\<open>1<<min(attempts-1, 6)\<close> seconds; a draft in progress has at least one attempt.\<close>

definition publish_delay :: "int \<Rightarrow> duration" where
  "publish_delay attempts = 2 ^ nat (if attempts - 1 < 6 then attempts - 1 else 6) * second"

definition Fail_draft :: "string \<Rightarrow> string option \<Rightarrow> time \<Rightarrow> insta_db \<Rightarrow> (insta_error, unit) result \<times> insta_db" where
  "Fail_draft i cause now db =
     (case select_one (publishing i) (drafts db) of
        None \<Rightarrow> (Inl NoDraft, db)
      | Some r \<Rightarrow>
          (Inr (), insertEvent i ''failed'' [] (safeError cause)
             (db\<lparr>drafts := update_where (publishing i)
                (\<lambda>d. d\<lparr>d_state := DFailed, d_available_at := now + publish_delay (d_attempts r),
                       d_last_error := safeError cause, d_updated_at := now\<rparr>) (drafts db)\<rparr>)))"

definition Recover_drafts :: "time \<Rightarrow> insta_db \<Rightarrow> nat \<times> insta_db" where
  "Recover_drafts now db =
     (let p = (\<lambda>d. d_state d = DPublishing) in
      (rows_affected p (drafts db),
       db\<lparr>drafts := update_where p (\<lambda>d. d\<lparr>d_state := DFailed, d_available_at := now,
            d_last_error := ''recovered interrupted publish'', d_updated_at := now\<rparr>) (drafts db)\<rparr>))"

definition ClearStaging :: "string \<Rightarrow> time \<Rightarrow> insta_db \<Rightarrow> insta_db" where
  "ClearStaging i now db =
     db\<lparr>drafts := update_where (\<lambda>d. d_id d = i)
        (\<lambda>d. d\<lparr>d_staging_id := [], d_staging_url := [], d_staging_expires := None, d_updated_at := now\<rparr>) (drafts db)\<rparr>"

definition stale_staging :: "time \<Rightarrow> draft \<Rightarrow> bool" where
  "stale_staging now d \<longleftrightarrow> d_staging_id d \<noteq> [] \<and> (\<exists>t \<in> set_option (d_staging_expires d). sql_le t now)
     \<and> d_state d \<noteq> DPublishing"

fun scan_all :: "draft list \<Rightarrow> (insta_error, draft list) result" where
  "scan_all [] = Inr []"
| "scan_all (d # ds) = and_then (scanDraft d) (\<lambda>x. and_then (scan_all ds) (\<lambda>xs. Inr (x # xs)))"

definition ExpiredStaging :: "time \<Rightarrow> insta_db \<Rightarrow> (insta_error, draft list) result" where
  "ExpiredStaging now db = scan_all (filter (stale_staging now) (drafts db))"

section \<open>The invariant\<close>

text \<open>
  Identifiers and creation keys are unique; attempts stay within the limit of the draft, which is at
  most ten; a draft in progress has been attempted; a published draft has its media.
\<close>

definition draft_ok :: "draft \<Rightarrow> bool" where
  "draft_ok d \<longleftrightarrow> 0 \<le> d_attempts d \<and> d_attempts d \<le> d_max_attempts d \<and> 1 \<le> d_max_attempts d \<and> d_max_attempts d \<le> 10
     \<and> (d_state d = DPublishing \<longrightarrow> 1 \<le> d_attempts d)"

definition insta_inv :: "insta_db \<Rightarrow> bool" where
  "insta_inv db \<longleftrightarrow> distinct (map d_id (drafts db)) \<and> distinct (map d_creation_key (drafts db))
     \<and> (\<forall>d \<in> set (drafts db). draft_ok d)"

lemma insta_inv_empty: "insta_inv no_drafts"
  by (simp add: insta_inv_def no_drafts_def)

lemma same_draft: "insta_inv db \<Longrightarrow> d \<in> set (drafts db) \<Longrightarrow> e \<in> set (drafts db) \<Longrightarrow> d_id d = d_id e \<Longrightarrow> d = e"
  by (rule distinct_map_eq [of d_id]) (simp_all add: insta_inv_def)

lemma insta_inv_events [simp]: "insta_inv (insertEvent i k r x db) = insta_inv db" "drafts (insertEvent i k r x db) = drafts db"
  by (simp_all add: insta_inv_def insertEvent_def)

definition draft_keeping :: "(draft \<Rightarrow> draft) \<Rightarrow> bool" where
  "draft_keeping f \<longleftrightarrow> (\<forall>d. d_id (f d) = d_id d \<and> d_creation_key (f d) = d_creation_key d)"

lemma drafts_update_inv:
  assumes "insta_inv db" and f: "draft_keeping f" and "\<And>d. d \<in> set (drafts db) \<Longrightarrow> p d \<Longrightarrow> draft_ok d \<Longrightarrow> draft_ok (f d)"
  shows "insta_inv (db\<lparr>drafts := update_where p f (drafts db)\<rparr>)"
proof -
  have "map d_id (update_where p f (drafts db)) = map d_id (drafts db)"
    and "map d_creation_key (update_where p f (drafts db)) = map d_creation_key (drafts db)"
    by (rule map_update_where; use f in \<open>simp add: draft_keeping_def\<close>)+
  with assms show ?thesis by (auto simp: insta_inv_def set_update_where split: if_splits)
qed

lemma draft_okD: "insta_inv db \<Longrightarrow> d \<in> set (drafts db) \<Longrightarrow> draft_ok d"
  by (simp add: insta_inv_def)

lemma scan_whereD: "scan_where p db = Inr d \<Longrightarrow> d \<in> set (drafts db) \<and> p d"
  by (auto simp: scan_where_def scanDraft_def split: option.splits if_splits dest: select_oneD)

lemma Get_draftD: "Get_draft i db = Inr d \<Longrightarrow> d \<in> set (drafts db) \<and> d_id d = i"
  by (drule scan_whereD [of "\<lambda>d. d_id d = i" for i, folded Get_draft_def]) simp

lemma Create_draft_inv [keeps]: "insta_inv db \<Longrightarrow> insta_inv (snd (Create_draft q a c now db))"
  by (auto simp: Create_draft_def Let_def insta_inv_def new_draft_def draft_ok_def split: sum.splits insta_error.splits)

lemma MarkAuthorized_inv [keeps]: "insta_inv db \<Longrightarrow> insta_inv (snd (MarkAuthorized i t now db))"
  by (auto simp: MarkAuthorized_def Let_def draft_keeping_def draft_ok_def intro!: drafts_update_inv)

text \<open>A claim either hands back a published draft and changes nothing, or starts an attempt.\<close>

lemma Claim_draftE:
  assumes "Claim_draft i now db = (Inr d', db')"
  obtains (published) "db' = db" and "Get_draft i db = Inr d'" and "d_state d' = DPublished"
  | (started) d t where "Get_draft i db = Inr d" and "open_draft d" and "d_attempts d < d_max_attempts d"
    and "d_authorized_until d = Some t" and "now < t" and "d_publish_at d \<le> now" and "d_available_at d \<le> now"
    and "d' = d\<lparr>d_state := DPublishing, d_attempts := d_attempts d + 1, d_updated_at := now\<rparr>"
    and "drafts db' = update_where (\<lambda>r. d_id r = i \<and> open_draft r)
        (\<lambda>r. r\<lparr>d_state := DPublishing, d_attempts := d_attempts r + 1, d_updated_at := now\<rparr>) (drafts db)"
    and "events db' = events db @ [\<lparr>e_draft = i, e_kind = ''claimed'', e_ref = [], e_detail = attempt_detail (d_attempts d')\<rparr>]"
  using assms by (auto simp: Claim_draft_def Let_def open_draft_def insertEvent_def not_less
      split: sum.splits if_splits option.splits)

lemma Claim_draft_Inl: "Claim_draft i now db = (Inl e, db') \<Longrightarrow> db' = db"
  by (auto simp: Claim_draft_def Let_def split: sum.splits if_splits)

lemma Claim_draft_inv [keeps]:
  assumes inv: "insta_inv db"
  shows "insta_inv (snd (Claim_draft i now db))"
proof (cases "Claim_draft i now db")
  case (Pair r db')
  show ?thesis
  proof (cases r)
    case (Inl e)
    with Pair inv Claim_draft_Inl [of i now db e db'] show ?thesis by simp
  next
    case (Inr d')
    with Pair have "Claim_draft i now db = (Inr d', db')" by simp
    then show ?thesis
    proof (cases rule: Claim_draftE)
      case published
      with Pair inv show ?thesis by simp
    next
      case (started d t)
      have "insta_inv (db\<lparr>drafts := drafts db'\<rparr>)" unfolding started(9)
      proof (rule drafts_update_inv [OF inv])
        fix r assume r: "r \<in> set (drafts db)" "d_id r = i \<and> open_draft r" "draft_ok r"
        then have "r = d" using same_draft [OF inv, of r d] Get_draftD [OF started(1)] by simp
        with r started(3) show "draft_ok (r\<lparr>d_state := DPublishing, d_attempts := d_attempts r + 1, d_updated_at := now\<rparr>)"
          by (simp add: draft_ok_def)
      qed (simp add: draft_keeping_def)
      with Pair show ?thesis by (simp add: insta_inv_def)
    qed
  qed
qed

lemma insta_inv_commit:
  "insta_inv db \<Longrightarrow> insta_inv db' \<Longrightarrow> insta_inv (snd (commit_event i k r db' db))"
  by (simp add: commit_event_def)

lemma SaveStaging_inv [keeps]: "insta_inv db \<Longrightarrow> insta_inv (snd (SaveStaging i m now db))"
  unfolding SaveStaging_def
  by (rule insta_inv_commit, assumption, rule drafts_update_inv) (auto simp: draft_keeping_def draft_ok_def)

lemma SaveContainer_inv [keeps]: "insta_inv db \<Longrightarrow> insta_inv (snd (SaveContainer i c now db))"
  unfolding SaveContainer_def
  by (rule insta_inv_commit, assumption, rule drafts_update_inv) (auto simp: draft_keeping_def draft_ok_def)

lemma Complete_draft_inv [keeps]: "insta_inv db \<Longrightarrow> insta_inv (snd (Complete_draft i m now db))"
  by (auto simp: Complete_draft_def draft_keeping_def draft_ok_def intro!: drafts_update_inv)

lemma Fail_draft_inv [keeps]: "insta_inv db \<Longrightarrow> insta_inv (snd (Fail_draft i e now db))"
  by (auto simp: Fail_draft_def draft_keeping_def draft_ok_def intro!: drafts_update_inv split: option.split)

lemma Recover_drafts_inv [keeps]: "insta_inv db \<Longrightarrow> insta_inv (snd (Recover_drafts now db))"
  by (auto simp: Recover_drafts_def Let_def draft_keeping_def draft_ok_def intro!: drafts_update_inv)

lemma ClearStaging_inv [keeps]: "insta_inv db \<Longrightarrow> insta_inv (ClearStaging i now db)"
  by (auto simp: ClearStaging_def draft_keeping_def draft_ok_def intro!: drafts_update_inv)

end
