(* ===== verification/Images.thy ===== *)
theory Images
  imports GoStr Approval
begin

text \<open>
  Package \<open>internal/images\<close>: the content-addressed artifact store (\<open>store.go\<close>) and the
  service that has an image generated, checks it and stores it (\<open>service.go\<close>). The directory of
  the store is a map from names to entries. The provider and the decoder of image headers
  (\<open>image.DecodeConfig\<close>) are arguments. Errors of the file system are not modelled. The constants
  carry the suffix \<open>_image\<close> where their Go name is taken.
\<close>

section \<open>Types\<close>

datatype image_error =
    ArtifactError string | BadRequest string | InvalidImage | CostBudget | NotExist
  | ImagesUnavailable | ProviderFailed string | BadReference string image_error | ImageAudit audit_error

record image_cost =
  co_currency :: string
  co_amount :: float64
  co_units :: int

record image_request =
  iq_prompt :: string
  iq_width :: int
  iq_height :: int
  iq_aspect :: string
  iq_references :: "string list"
  iq_max_cost :: float64

record reference =
  rf_id :: string
  rf_mime :: string
  rf_sha256 :: string
  rf_data :: string

record provider_request =
  pq_prompt :: string
  pq_width :: int
  pq_height :: int
  pq_aspect :: string
  pq_references :: "reference list"
  pq_max_cost :: float64

record provider_result =
  pr_data :: string
  pr_mime :: string
  pr_provider :: string
  pr_model :: string
  pr_cost :: image_cost

record artifact =
  af_id :: string
  af_path :: string
  af_mime :: string
  af_bytes :: nat
  af_width :: int
  af_height :: int
  af_sha256 :: string
  af_provider :: string
  af_model :: string
  af_cost :: image_cost
  af_created_at :: time
  af_publish :: bool

section \<open>The artifact store\<close>

datatype file_entry = RegularFile string | Irregular

type_synonym directory = "string \<rightharpoonup> file_entry"

definition max_artifact_bytes :: nat where "max_artifact_bytes = 10 * 1024 * 1024"

text \<open>\<open>http.DetectContentType\<close>, as far as its result is compared: the two image signatures.\<close>

definition detect_type :: "string \<Rightarrow> string" where
  "detect_type data =
     (if starts_with data [CHR 0x89, CHR ''P'', CHR ''N'', CHR ''G'', CHR 0x0D, CHR 0x0A, CHR 0x1A, CHR 0x0A]
      then ''image/png''
      else if starts_with data [CHR 0xFF, CHR 0xD8, CHR 0xFF] then ''image/jpeg''
      else ''application/octet-stream'')"

definition extensionForMIME :: "string \<Rightarrow> string option" where
  "extensionForMIME mime =
     (if mime = ''image/png'' then Some ''.png'' else if mime = ''image/jpeg'' then Some ''.jpg'' else None)"

definition equalHash :: "string \<Rightarrow> string \<Rightarrow> bool" where
  "equalHash data expected \<longleftrightarrow> sha256_hex data = expected"

definition Put_image :: "string \<Rightarrow> string \<Rightarrow> directory \<Rightarrow> (image_error, string \<times> string) result \<times> directory" where
  "Put_image data mime dir =
     (if data = [] \<or> length data > max_artifact_bytes then (Inl (ArtifactError ''size''), dir)
      else case extensionForMIME mime of
        None \<Rightarrow> (Inl (ArtifactError ''MIME''), dir)
      | Some ext \<Rightarrow>
          (let i = sha256_hex data; name = i @ ext in
           case dir name of
             Some Irregular \<Rightarrow> (Inl (ArtifactError ''existing path is unsafe''), dir)
           | Some (RegularFile old) \<Rightarrow>
               if \<not> equalHash old i then (Inl (ArtifactError ''existing artifact mismatch''), dir)
               else (Inr (i, name), dir)
           | None \<Rightarrow> (Inr (i, name), dir(name \<mapsto> RegularFile data))))"

definition artifact_id_ok :: "string \<Rightarrow> bool" where
  "artifact_id_ok i \<longleftrightarrow> length i = 64 \<and> list_all is_hex i \<and> lower_ascii i = i"

fun read_candidates :: "directory \<Rightarrow> string \<Rightarrow> (string \<times> string) list \<Rightarrow> (image_error, reference) result" where
  "read_candidates dir i [] = Inl NotExist"
| "read_candidates dir i ((ext, mime) # items) =
     (case dir (i @ ext) of
        None \<Rightarrow> read_candidates dir i items
      | Some Irregular \<Rightarrow> Inl (ArtifactError ''unsafe artifact'')
      | Some (RegularFile data) \<Rightarrow>
          if length data > max_artifact_bytes then Inl (ArtifactError ''unsafe artifact'')
          else if \<not> equalHash data i \<or> detect_type data \<noteq> mime then Inl (ArtifactError ''artifact integrity'')
          else Inr \<lparr>rf_id = i, rf_mime = mime, rf_sha256 = i, rf_data = data\<rparr>)"

definition Read_image :: "directory \<Rightarrow> string \<Rightarrow> (image_error, reference) result" where
  "Read_image dir i =
     (if \<not> artifact_id_ok i then Inl (ArtifactError ''malformed id'')
      else read_candidates dir i [(''.png'', ''image/png''), (''.jpg'', ''image/jpeg'')])"

section \<open>Checks of the service\<close>

definition aspectMatches :: "string \<Rightarrow> int \<Rightarrow> int \<Rightarrow> bool" where
  "aspectMatches aspect w h =
     (if aspect = ''1:1'' then w = h
      else if aspect = ''16:9'' then w * 9 = h * 16
      else if aspect = ''9:16'' then w * 16 = h * 9
      else if aspect = ''4:3'' then w * 3 = h * 4
      else if aspect = ''3:4'' then w * 4 = h * 3 else False)"

fun check_references :: "string list \<Rightarrow> string list \<Rightarrow> (image_error, unit) result" where
  "check_references seen [] = Inr ()"
| "check_references seen (i # is) =
     (if length i \<noteq> 64 then Inl (BadRequest ''reference id'')
      else if List.member seen i then Inl (BadRequest ''duplicate reference'')
      else check_references (i # seen) is)"

definition validateRequest :: "image_request \<Rightarrow> (image_error, unit) result" where
  "validateRequest q =
     (let prompt = trim_space (iq_prompt q); c = iq_max_cost q; w = iq_width q; h = iq_height q in
      reject_if (prompt = [] \<or> prompt \<noteq> iq_prompt q \<or> length prompt > 4000 \<or> has_nul prompt) (BadRequest ''prompt'')
     (reject_if (w < 256 \<or> w > 2048 \<or> h < 256 \<or> h > 2048 \<or> w mod 64 \<noteq> 0 \<or> h mod 64 \<noteq> 0) (BadRequest ''dimensions'')
     (reject_if (\<not> aspectMatches (iq_aspect q) w h) (BadRequest ''aspect ratio'')
     (reject_if (length (iq_references q) > 4) (BadRequest ''too many references'')
     (and_then (check_references [] (iq_references q)) (\<lambda>_.
      reject_if (is_nan c \<or> is_inf c \<or> float_le c (Finite 0) \<or> float_less (Finite 100) c)
        (BadRequest ''cost budget'') (Inr ())))))))"

type_synonym decoder = "string \<Rightarrow> (int \<times> int \<times> string) option"

definition validateProviderResult :: "decoder \<Rightarrow> provider_result \<Rightarrow> image_request \<Rightarrow> (image_error, unit) result" where
  "validateProviderResult decode r q =
     (if pr_data r = [] \<or> length (pr_data r) > max_artifact_bytes \<or> pr_provider r = [] \<or> pr_model r = [] then Inl InvalidImage
      else if pr_mime r \<noteq> ''image/png'' \<and> pr_mime r \<noteq> ''image/jpeg'' then Inl InvalidImage
      else if detect_type (pr_data r) \<noteq> pr_mime r then Inl InvalidImage
      else case decode (pr_data r) of
        None \<Rightarrow> Inl InvalidImage
      | Some (w, h, format) \<Rightarrow>
          if w \<noteq> iq_width q \<or> h \<noteq> iq_height q \<or> (format = ''png'' \<and> pr_mime r \<noteq> ''image/png'')
             \<or> (format = ''jpeg'' \<and> pr_mime r \<noteq> ''image/jpeg'') then Inl InvalidImage
          else (let c = co_amount (pr_cost r) in
                if co_currency (pr_cost r) \<noteq> ''USD'' \<or> float_less c (Finite 0) \<or> is_nan c \<or> is_inf c
                   \<or> co_units (pr_cost r) < 1
                then Inl InvalidImage else Inr ()))"

section \<open>Generate\<close>

record 'w image_service =
  is_generate :: "provider_request \<Rightarrow> 'w \<Rightarrow> (string, provider_result) result \<times> 'w"
  is_decode :: decoder
  is_clock :: "nat \<Rightarrow> time"
  is_ready :: bool
  is_owner :: int
  is_audited :: bool

record 'w image_state =
  ia_files :: directory
  ia_log :: "audit_row list"
  ia_world :: 'w
  ia_reads :: nat

definition image_now :: "'w image_service \<Rightarrow> 'w image_state \<Rightarrow> time \<times> 'w image_state" where
  "image_now v s = (is_clock v (ia_reads s), s\<lparr>ia_reads := Suc (ia_reads s)\<rparr>)"

definition record_image ::
  "'w image_service \<Rightarrow> string \<Rightarrow> string \<Rightarrow> 'w image_state \<Rightarrow> (image_error, unit) result \<times> 'w image_state" where
  "record_image v kind decision s =
     (if \<not> is_audited v then (Inr (), s)
      else case image_now v s of (now, s1) \<Rightarrow>
        (case Append_audit \<lparr>u_seq = 0, u_at = [], u_kind = kind, u_user = is_owner v, u_resource = ''images'',
               u_decision = decision, u_prev = [], u_hash = []\<rparr> now (ia_log s1) of
           (Inl e, l) \<Rightarrow> (Inl (ImageAudit e), s1\<lparr>ia_log := l\<rparr>)
         | (Inr _, l) \<Rightarrow> (Inr (), s1\<lparr>ia_log := l\<rparr>)))"

fun load_references :: "directory \<Rightarrow> nat \<Rightarrow> string list \<Rightarrow> (image_error, reference list) result" where
  "load_references dir used [] = Inr []"
| "load_references dir used (i # is) =
     (case Read_image dir i of
        Inl e \<Rightarrow> Inl (BadReference i e)
      | Inr r \<Rightarrow>
          if used + length (rf_data r) > 20 * 1024 * 1024 then Inl (BadRequest ''references too large'')
          else and_then (load_references dir (used + length (rf_data r)) is) (\<lambda>rs. Inr (r # rs)))"

definition store_result ::
  "'w image_service \<Rightarrow> image_request \<Rightarrow> provider_result \<Rightarrow> 'w image_state \<Rightarrow> (image_error, artifact) result \<times> 'w image_state" where
  "store_result v q r s =
     (case Put_image (pr_data r) (pr_mime r) (ia_files s) of
        (Inl e, dir) \<Rightarrow> (Inl e, s\<lparr>ia_files := dir\<rparr>)
      | (Inr (i, path), dir) \<Rightarrow>
          (case image_now v (s\<lparr>ia_files := dir\<rparr>) of (now, s1) \<Rightarrow>
           case record_image v ''image_artifact'' i s1 of
             (Inl e, s2) \<Rightarrow> (Inl e, s2)
           | (Inr _, s2) \<Rightarrow>
               (Inr \<lparr>af_id = i, af_path = path, af_mime = pr_mime r, af_bytes = length (pr_data r),
                     af_width = iq_width q, af_height = iq_height q, af_sha256 = i, af_provider = pr_provider r,
                     af_model = pr_model r, af_cost = pr_cost r, af_created_at = now, af_publish = False\<rparr>, s2)))"

text \<open>What \<open>Generate\<close> does with the provider's answer; the results of these records are dropped.\<close>

definition judge_result ::
  "'w image_service \<Rightarrow> image_request \<Rightarrow> (string, provider_result) result \<Rightarrow> 'w image_state \<Rightarrow>
   (image_error, artifact) result \<times> 'w image_state" where
  "judge_result v q answer s =
     (case answer of
        Inl e \<Rightarrow> (Inl (ProviderFailed e), snd (record_image v ''image_generation'' ''provider_error'' s))
      | Inr r \<Rightarrow>
          (case validateProviderResult (is_decode v) r q of
             Inl e \<Rightarrow> (Inl e, snd (record_image v ''image_generation'' ''rejected_output'' s))
           | Inr _ \<Rightarrow>
               if float_less (iq_max_cost q) (co_amount (pr_cost r))
               then (Inl CostBudget, snd (record_image v ''image_generation'' ''cost_denied'' s))
               else store_result v q r s))"

definition provider_request_of :: "image_request \<Rightarrow> reference list \<Rightarrow> provider_request" where
  "provider_request_of q refs =
     \<lparr>pq_prompt = iq_prompt q, pq_width = iq_width q, pq_height = iq_height q, pq_aspect = iq_aspect q,
      pq_references = refs, pq_max_cost = iq_max_cost q\<rparr>"

definition Generate_image ::
  "'w image_service \<Rightarrow> image_request \<Rightarrow> 'w image_state \<Rightarrow> (image_error, artifact) result \<times> 'w image_state" where
  "Generate_image v q s =
     (if \<not> is_ready v \<or> is_owner v = 0 then (Inl ImagesUnavailable, s)
      else case validateRequest q of
        Inl e \<Rightarrow> (Inl e, s)
      | Inr _ \<Rightarrow>
          (case load_references (ia_files s) 0 (iq_references q) of
             Inl e \<Rightarrow> (Inl e, s)
           | Inr refs \<Rightarrow>
               (case record_image v ''image_generation'' ''requested'' s of
                  (Inl e, s1) \<Rightarrow> (Inl e, s1)
                | (Inr _, s1) \<Rightarrow>
                    (case is_generate v (provider_request_of q refs) (ia_world s1) of (answer, w) \<Rightarrow>
                       judge_result v q answer (s1\<lparr>ia_world := w\<rparr>)))))"

section \<open>The artifact store is content addressed\<close>

lemma hex_digit_ok: "0 \<le> n \<Longrightarrow> n < 16 \<Longrightarrow> is_hex (hex_digit n) \<and> lower_char (hex_digit n) = hex_digit n"
  by (cases "n < 10") (simp_all add: hex_digit_def is_hex_def is_digit_def lower_char_def)

lemma hex_encode_ok: "list_all is_hex (hex_encode s) \<and> lower_ascii (hex_encode s) = hex_encode s"
proof (induction s)
  case (Cons c s)
  have "0 \<le> (of_char c :: int) div 16" "(of_char c :: int) div 16 < 16" "(0 :: int) \<le> of_char c mod 16" "of_char c mod 16 < (16 :: int)"
    using of_char_bounds [of c] by (auto simp: div_less_iff_less_mult)
  with Cons show ?case by (simp add: hex_encode_def lower_ascii_def hex_digit_ok)
qed (simp add: hex_encode_def lower_ascii_def)

lemma sha256_id_ok [simp]: "artifact_id_ok (sha256_hex data)"
  using hex_encode_ok by (simp add: artifact_id_ok_def sha256_hex_def length_sha256)

lemma extension_cases:
  "extensionForMIME mime = Some ext \<longleftrightarrow> mime = ''image/png'' \<and> ext = ''.png'' \<or> mime = ''image/jpeg'' \<and> ext = ''.jpg''"
  by (auto simp: extensionForMIME_def)

lemma Put_image_ok:
  assumes "Put_image data mime dir = (Inr (i, path), dir')"
  shows "i = sha256_hex data" and "data \<noteq> []" and "length data \<le> max_artifact_bytes"
    and "\<exists>ext. extensionForMIME mime = Some ext \<and> path = i @ ext"
    and "\<exists>old. dir' path = Some (RegularFile old) \<and> sha256_hex old = i \<and> (dir path = None \<longrightarrow> old = data)"
    and "\<And>name. dir name \<noteq> None \<Longrightarrow> dir' name = dir name" and "\<And>name. name \<noteq> path \<Longrightarrow> dir' name = dir name"
  using assms by (auto simp: Put_image_def Let_def equalHash_def split: if_splits option.splits file_entry.splits)

lemma Read_image_sound:
  assumes "Read_image dir i = Inr r"
  shows "rf_id r = i \<and> sha256_hex (rf_data r) = i \<and> detect_type (rf_data r) = rf_mime r
    \<and> (\<exists>ext. extensionForMIME (rf_mime r) = Some ext \<and> dir (i @ ext) = Some (RegularFile (rf_data r)))"
  using assms by (auto simp: Read_image_def equalHash_def extension_cases
      split: if_splits option.splits file_entry.splits)

lemma Read_after_Put:
  assumes put: "Put_image data mime dir = (Inr (i, path), dir')" and "dir path = None"
    and "detect_type data = mime" and "dir (i @ ''.png'') = None"
  shows "Read_image dir' i = Inr \<lparr>rf_id = i, rf_mime = mime, rf_sha256 = i, rf_data = data\<rparr>"
proof -
  note ok = Put_image_ok [OF put]
  obtain ext where ext: "extensionForMIME mime = Some ext" "path = i @ ext" using ok(4) by blast
  have stored: "dir' (i @ ext) = Some (RegularFile data)" using ok(5) assms(2) ext(2) by auto
  have "dir' (i @ ''.png'') = (if ext = ''.png'' then Some (RegularFile data) else None)"
    using stored ok(7) [of "i @ ''.png''"] assms(4) ext(2) by auto
  then show ?thesis using ext(1) stored ok(1,3) assms(3)
    by (auto simp: extension_cases Read_image_def equalHash_def)
qed

lemma Put_again:
  assumes "Put_image data mime dir = (Inr (i, path), dir')"
  shows "Put_image data mime dir' = (Inr (i, path), dir')"
  using Put_image_ok [OF assms] by (auto simp: Put_image_def Let_def equalHash_def)

section \<open>What Generate hands out\<close>

lemma record_image_frame: "ia_files (snd (record_image v k d s)) = ia_files s"
  by (simp add: record_image_def image_now_def split: prod.splits sum.splits)

lemma validateProviderResult_ok:
  "validateProviderResult decode r q = Inr () \<longleftrightarrow>
     pr_data r \<noteq> [] \<and> length (pr_data r) \<le> max_artifact_bytes \<and> pr_provider r \<noteq> [] \<and> pr_model r \<noteq> []
     \<and> (pr_mime r = ''image/png'' \<or> pr_mime r = ''image/jpeg'') \<and> detect_type (pr_data r) = pr_mime r
     \<and> (\<exists>format. decode (pr_data r) = Some (iq_width q, iq_height q, format)
          \<and> (format = ''png'' \<longrightarrow> pr_mime r = ''image/png'') \<and> (format = ''jpeg'' \<longrightarrow> pr_mime r = ''image/jpeg''))
     \<and> co_currency (pr_cost r) = ''USD'' \<and> (\<exists>a. co_amount (pr_cost r) = Finite a \<and> 0 \<le> a) \<and> 1 \<le> co_units (pr_cost r)"
proof -
  have "\<not> (float_less c (Finite 0) \<or> is_nan c \<or> is_inf c) \<longleftrightarrow> (\<exists>a. c = Finite a \<and> 0 \<le> a)" for c
    by (cases c) (auto simp: is_nan_def is_inf_def)
  then show ?thesis by (auto simp: validateProviderResult_def Let_def split: option.splits)
qed

lemma validateRequest_cost: "validateRequest q = Inr u \<Longrightarrow> \<exists>m. iq_max_cost q = Finite m \<and> 0 < m \<and> m \<le> 100"
  by (cases "iq_max_cost q") (auto simp: validateRequest_def Let_def is_nan_def is_inf_def and_then_ok)

lemma store_resultE:
  assumes "store_result v q r s = (Inr a, s')"
  obtains i path dir now where "Put_image (pr_data r) (pr_mime r) (ia_files s) = (Inr (i, path), dir)"
    and "ia_files s' = dir"
    and "a = \<lparr>af_id = i, af_path = path, af_mime = pr_mime r, af_bytes = length (pr_data r),
              af_width = iq_width q, af_height = iq_height q, af_sha256 = i, af_provider = pr_provider r,
              af_model = pr_model r, af_cost = pr_cost r, af_created_at = now, af_publish = False\<rparr>"
proof -
  obtain i path dir where put: "Put_image (pr_data r) (pr_mime r) (ia_files s) = (Inr (i, path), dir)"
    using assms by (auto simp: store_result_def split: prod.splits sum.splits)
  let ?s1 = "s\<lparr>ia_files := dir, ia_reads := Suc (ia_reads s)\<rparr>"
  have "case record_image v ''image_artifact'' i ?s1 of (Inl e, s2) \<Rightarrow> False
      | (Inr _, s2) \<Rightarrow> s' = s2 \<and> a = \<lparr>af_id = i, af_path = path, af_mime = pr_mime r, af_bytes = length (pr_data r),
          af_width = iq_width q, af_height = iq_height q, af_sha256 = i, af_provider = pr_provider r,
          af_model = pr_model r, af_cost = pr_cost r, af_created_at = is_clock v (ia_reads s), af_publish = False\<rparr>"
    using assms by (simp add: store_result_def put image_now_def split: prod.splits sum.splits)
  moreover have "ia_files (snd (record_image v ''image_artifact'' i ?s1)) = dir" by (simp add: record_image_frame)
  ultimately show thesis by (intro that [OF put]) (auto split: prod.splits sum.splits)
qed

lemma Generate_imageE:
  assumes "Generate_image v q s = (Inr a, s')"
  obtains r t where "validateRequest q = Inr ()" and "validateProviderResult (is_decode v) r q = Inr ()"
    and "\<not> float_less (iq_max_cost q) (co_amount (pr_cost r))" and "ia_files t = ia_files s"
    and "store_result v q r t = (Inr a, s')"
proof -
  have valid: "validateRequest q = Inr ()" using assms by (auto simp: Generate_image_def split: if_splits sum.splits)
  define s1 where "s1 = snd (record_image v ''image_generation'' ''requested'' s)"
  obtain refs where judge: "judge_result v q (fst (is_generate v (provider_request_of q refs) (ia_world s1)))
      (s1\<lparr>ia_world := snd (is_generate v (provider_request_of q refs) (ia_world s1))\<rparr>) = (Inr a, s')"
    using assms by (auto simp: Generate_image_def case_prod_beta s1_def split: if_splits sum.splits)
  have files: "ia_files (s1\<lparr>ia_world := w\<rparr>) = ia_files s" for w
    by (simp add: s1_def record_image_frame)
  from judge show thesis
    by (auto simp: judge_result_def intro!: that [OF valid _ _ files] split: sum.splits if_splits)
qed

text \<open>
  An artifact that \<open>Generate\<close> returns is in the store under the hash of its contents, which are a
  decodable image of the requested size and type; its cost is within the budget of the request, it
  is not for publication, and nothing that was in the store has changed.
\<close>

theorem Generate_sound:
  assumes "Generate_image v q s = (Inr a, s')"
  shows "\<exists>data cost budget. ia_files s' (af_path a) = Some (RegularFile data) \<and> sha256_hex data = af_id a
    \<and> (ia_files s (af_path a) = None \<longrightarrow> detect_type data = af_mime a
         \<and> (\<exists>format. is_decode v data = Some (iq_width q, iq_height q, format)))
    \<and> co_amount (af_cost a) = Finite cost \<and> iq_max_cost q = Finite budget \<and> 0 \<le> cost \<and> cost \<le> budget \<and> budget \<le> 100
    \<and> \<not> af_publish a \<and> (\<forall>name. ia_files s name \<noteq> None \<longrightarrow> ia_files s' name = ia_files s name)"
  using assms
proof (rule Generate_imageE)
  fix r t
  assume valid: "validateRequest q = Inr ()" "validateProviderResult (is_decode v) r q = Inr ()"
    and cost: "\<not> float_less (iq_max_cost q) (co_amount (pr_cost r))" and t: "ia_files t = ia_files s"
    and "store_result v q r t = (Inr a, s')"
  from this(5) obtain i path dir now where "Put_image (pr_data r) (pr_mime r) (ia_files t) = (Inr (i, path), dir)"
    and dir: "ia_files s' = dir"
    and art: "a = \<lparr>af_id = i, af_path = path, af_mime = pr_mime r, af_bytes = length (pr_data r),
              af_width = iq_width q, af_height = iq_height q, af_sha256 = i, af_provider = pr_provider r,
              af_model = pr_model r, af_cost = pr_cost r, af_created_at = now, af_publish = False\<rparr>"
    by (rule store_resultE)
  then have put: "Put_image (pr_data r) (pr_mime r) (ia_files s) = (Inr (i, path), dir)" by (simp add: t)
  have a: "ia_files s' = dir" "af_path a = path" "af_id a = i" "af_cost a = pr_cost r" "af_mime a = pr_mime r" "\<not> af_publish a"
    unfolding dir art by simp_all
  note ok = Put_image_ok [OF put]
  obtain old where old: "dir path = Some (RegularFile old)" "sha256_hex old = i" "ia_files s path = None \<longrightarrow> old = pr_data r"
    using ok(5) by (elim exE conjE) (rule that)
  obtain c m where cm: "co_amount (pr_cost r) = Finite c" "0 \<le> c" "iq_max_cost q = Finite m" "m \<le> 100"
    using validateRequest_cost [OF valid(1)] valid(2) unfolding validateProviderResult_ok by blast
  show ?thesis
  proof (intro exI conjI)
    show "ia_files s' (af_path a) = Some (RegularFile old)" "sha256_hex old = af_id a" "co_amount (af_cost a) = Finite c"
      "iq_max_cost q = Finite m" "0 \<le> c" "m \<le> 100" "\<not> af_publish a"
      using old cm by (simp_all add: a)
    show "c \<le> m" using cost cm by simp
    show "ia_files s (af_path a) = None \<longrightarrow> detect_type old = af_mime a
        \<and> (\<exists>format. is_decode v old = Some (iq_width q, iq_height q, format))"
      using old(3) valid(2) by (auto simp: validateProviderResult_ok a)
    show "\<forall>name. ia_files s name \<noteq> None \<longrightarrow> ia_files s' name = ia_files s name"
      using ok(6) by (simp only: a) blast
  qed
qed

section \<open>A provider that draws one picture\<close>

definition demo_png :: string where
  "demo_png = [CHR 0x89, CHR ''P'', CHR ''N'', CHR ''G'', CHR 0x0D, CHR 0x0A, CHR 0x1A, CHR 0x0A]"

definition demo_image_request :: image_request where
  "demo_image_request = \<lparr>iq_prompt = ''a cat'', iq_width = 512, iq_height = 512, iq_aspect = ''1:1'',
     iq_references = [], iq_max_cost = Finite 1\<rparr>"

definition demo_service :: "unit image_service" where
  "demo_service = \<lparr>is_generate = \<lambda>_ w. (Inr \<lparr>pr_data = demo_png, pr_mime = ''image/png'', pr_provider = ''p'', pr_model = ''m'',
       pr_cost = \<lparr>co_currency = ''USD'', co_amount = Finite 1, co_units = 1\<rparr>\<rparr>, w),
     is_decode = \<lambda>_. Some (512, 512, ''png''), is_clock = int, is_ready = True, is_owner = 7, is_audited = False\<rparr>"

definition demo_image_state :: "unit image_state" where
  "demo_image_state = \<lparr>ia_files = Map.empty, ia_log = [], ia_world = (), ia_reads = 0\<rparr>"

lemma demo_prompt: "trim_space ''a cat'' = ''a cat''" "has_nul ''a cat'' = False"
  by (code_simp, code_simp)

lemma demo_generate: "\<exists>a s'. Generate_image demo_service demo_image_request demo_image_state = (Inr a, s')"
proof -
  have "validateRequest demo_image_request = Inr ()"
    by (simp add: validateRequest_def demo_image_request_def demo_prompt aspectMatches_def is_nan_def is_inf_def)
  moreover have "validateProviderResult (is_decode demo_service)
      (projr (fst (is_generate demo_service q ()))) demo_image_request = Inr ()" for q
    by (simp add: validateProviderResult_ok demo_service_def demo_image_request_def demo_png_def detect_type_def
        starts_with_def max_artifact_bytes_def)
  ultimately show ?thesis
    by (simp add: Generate_image_def judge_result_def store_result_def Put_image_def Let_def demo_service_def
        demo_image_request_def demo_image_state_def record_image_def image_now_def extensionForMIME_def
        max_artifact_bytes_def demo_png_def)
qed

lemma Generate_sound_witness:
  "\<exists>a s'. Generate_image demo_service demo_image_request demo_image_state = (Inr a, s') \<and> \<not> af_publish a"
  using demo_generate Generate_sound [of demo_service demo_image_request demo_image_state] by blast

end
