(* ===== verification/Insta.thy ===== *)
theory Insta
  imports InstaStore Images
begin

text \<open>
  Package \<open>internal/instagram\<close>, \<open>service.go\<close>: preparing a draft, asking for its approval, and
  publishing it. The Graph API, the media stager and the sleeper are interfaces of the code and
  arguments here, with the state \<open>'w\<close> of the world they act on; so is \<open>url.Parse\<close>, of whose result
  four parts are read. The state is that of the database (drafts, approvals, audit log) and of the
  artifact directory; it also records every container that was created, every call of \<open>PublishContainer\<close> with
  the time of the check before it, and every binding a receipt was accepted for.

  A write to the database may fail, and the process may die before it: \<open>v_fault\<close> says so for the n-th access, with the
  readings of the clock as the count. After a death nothing more of the operation is done, the deferred function
  included, and the next operation is one of a new process.
\<close>

section \<open>The service and its state\<close>

record publish_binding =
  b_draft :: string
  b_account :: string
  b_asset_hash :: string
  b_caption_hash :: string
  b_publish_at :: string

record preview =
  w_draft :: string
  w_account :: string
  w_asset_hash :: string
  w_caption :: string
  w_caption_hash :: string
  w_publish_at :: time
  w_state :: draft_state
  w_binding :: publish_binding
  w_warning :: string

record publish_result =
  res_draft :: string
  res_media :: string
  res_state :: draft_state

datatype container_status = InProgress | Finished | StatusError | StatusExpired | OtherStatus string

record url_parts =
  url_scheme :: string
  url_hostname :: string
  url_user :: bool
  url_fragment :: string

datatype fault = Runs | Fails | Dies

record 'w publish_service =
  v_create :: "string \<Rightarrow> string \<Rightarrow> string \<Rightarrow> string \<Rightarrow> 'w \<Rightarrow> (string, string) result \<times> 'w"
  v_status :: "string \<Rightarrow> 'w \<Rightarrow> (string, container_status) result \<times> 'w"
  v_publish :: "string \<Rightarrow> string \<Rightarrow> string \<Rightarrow> 'w \<Rightarrow> (string, string) result \<times> 'w"
  v_stage :: "string \<Rightarrow> string \<Rightarrow> string \<Rightarrow> time \<Rightarrow> 'w \<Rightarrow> (string, staged_media) result \<times> 'w"
  v_cleanup :: "string \<Rightarrow> 'w \<Rightarrow> string option \<times> 'w"
  v_sleep :: "duration \<Rightarrow> 'w \<Rightarrow> string option \<times> 'w"
  v_url :: "string \<Rightarrow> url_parts option"
  v_clock :: "nat \<Rightarrow> time"
  v_fault :: "nat \<Rightarrow> fault"
  v_wired :: bool
  v_approvals :: bool
  v_audited :: bool
  v_owner :: int
  v_poll_interval :: duration
  v_max_polls :: int

text \<open>What was sent, when, what came back, and the access to the store that was to note it.\<close>

record publish_call =
  pc_draft :: string
  pc_account :: string
  pc_container :: string
  pc_key :: string
  pc_at :: time
  pc_media :: "string option"
  pc_noted :: nat

record container_made =
  cm_draft :: string
  cm_account :: string
  cm_caption :: string
  cm_container :: string

record 'w insta_state =
  n_db :: insta_db
  n_appr :: appr_db
  n_files :: directory
  n_world :: 'w
  n_reads :: nat
  n_made :: "container_made list"
  n_calls :: "publish_call list"
  n_grants :: "(publish_binding \<times> receipt) list"

definition clock :: "'w publish_service \<Rightarrow> 'w insta_state \<Rightarrow> time \<times> 'w insta_state" where
  "clock v s = (v_clock v (n_reads s), s\<lparr>n_reads := Suc (n_reads s)\<rparr>)"

text \<open>A write of the store, which reads the clock once.\<close>

definition on_store ::
  "'w publish_service \<Rightarrow> (time \<Rightarrow> insta_db \<Rightarrow> (insta_error, 'a) result \<times> insta_db) \<Rightarrow> 'w insta_state \<Rightarrow> (insta_error, 'a) result \<times> 'w insta_state" where
  "on_store v f s =
     (case clock v s of (now, s1) \<Rightarrow>
        (case v_fault v (n_reads s) of
           Runs \<Rightarrow> (case f now (n_db s1) of (x, db) \<Rightarrow> (x, s1\<lparr>n_db := db\<rparr>))
         | Fails \<Rightarrow> (Inl StoreFailed, s1)
         | Dies \<Rightarrow> (Inl ProcessDied, s1)))"

definition validateDependencies :: "'w publish_service \<Rightarrow> bool" where
  "validateDependencies v \<longleftrightarrow> v_wired v \<and> v_owner v \<noteq> 0 \<and> 0 < v_poll_interval v \<and> v_poll_interval v \<le> minute
     \<and> 1 \<le> v_max_polls v \<and> v_max_polls v \<le> 60"

definition record_insta ::
  "'w publish_service \<Rightarrow> string \<Rightarrow> string \<Rightarrow> string \<Rightarrow> 'w insta_state \<Rightarrow> (insta_error, unit) result \<times> 'w insta_state" where
  "record_insta v kind resource decision s =
     (if \<not> v_audited v then (Inr (), s)
      else case clock v s of (now, s1) \<Rightarrow>
        if v_fault v (n_reads s) = Fails then (Inl StoreFailed, s1)
        else if v_fault v (n_reads s) = Dies then (Inl ProcessDied, s1)
        else (case Append_audit \<lparr>u_seq = 0, u_at = [], u_kind = kind, u_user = v_owner v, u_resource = resource,
               u_decision = decision, u_prev = [], u_hash = []\<rparr> now (audit (n_appr s1)) of
           (Inl e, l) \<Rightarrow> (Inl (InstaAudit e), s1\<lparr>n_appr := (n_appr s1)\<lparr>audit := l\<rparr>\<rparr>)
         | (Inr _, l) \<Rightarrow> (Inr (), s1\<lparr>n_appr := (n_appr s1)\<lparr>audit := l\<rparr>\<rparr>)))"

definition bindingFor :: "draft \<Rightarrow> publish_binding" where
  "bindingFor d = \<lparr>b_draft = d_id d, b_account = d_account d, b_asset_hash = d_asset_hash d,
     b_caption_hash = d_caption_hash d, b_publish_at = formatTime (d_publish_at d)\<rparr>"

definition canonicalBinding :: "publish_binding \<Rightarrow> string" where
  "canonicalBinding b = json_struct
     [(''draft_id'', GoText (b_draft b)), (''account_id'', GoText (b_account b)),
      (''asset_hash'', GoText (b_asset_hash b)), (''caption_hash'', GoText (b_caption_hash b)),
      (''publish_at'', GoText (b_publish_at b))]"

definition binding_hash :: "publish_binding \<Rightarrow> string" where
  "binding_hash b = sha256_hex (canonicalBinding b)"

definition validStagedMedia :: "'w publish_service \<Rightarrow> staged_media \<Rightarrow> time \<Rightarrow> bool" where
  "validStagedMedia v m now \<longleftrightarrow>
     (case v_url v (sm_url m) of
        None \<Rightarrow> False
      | Some u \<Rightarrow> sm_id m \<noteq> [] \<and> url_scheme u = ''https'' \<and> url_hostname u \<noteq> [] \<and> \<not> url_user u
          \<and> url_fragment u = [] \<and> now + minute < sm_expires m)"

section \<open>Prepare and Preview\<close>

definition account_ok :: "string \<Rightarrow> bool" where
  "account_ok a \<longleftrightarrow> 1 \<le> length a \<and> length a \<le> 64 \<and> list_all is_digit a"

definition prepare_ok :: "prepare_request \<Rightarrow> time \<Rightarrow> bool" where
  "prepare_ok q now \<longleftrightarrow>
     account_ok (p_account q) \<and> length (p_artifact q) = 64 \<and> trim_space (p_caption q) = p_caption q
     \<and> p_caption q \<noteq> [] \<and> rune_count (p_caption q) \<le> 2200 \<and> \<not> has_nul (p_caption q)
     \<and> \<not> IsZero (p_publish_at q) \<and> \<not> p_publish_at q < now - minute \<and> \<not> now + 75 * 24 * hour < p_publish_at q
     \<and> p_creation_key q \<noteq> [] \<and> length (p_creation_key q) \<le> 256 \<and> \<not> has_nul (p_creation_key q)
     \<and> 1 \<le> p_max_attempts q \<and> p_max_attempts q \<le> 10"

definition default_attempts :: "prepare_request \<Rightarrow> prepare_request" where
  "default_attempts q = (if p_max_attempts q = 0 then q\<lparr>p_max_attempts := 3\<rparr> else q)"

definition Prepare :: "'w publish_service \<Rightarrow> prepare_request \<Rightarrow> 'w insta_state \<Rightarrow> (insta_error, draft) result \<times> 'w insta_state" where
  "Prepare v q0 s =
     (if \<not> validateDependencies v then (Inl InstaUnavailable, s)
      else case clock v s of (now, s1) \<Rightarrow>
        (let q = default_attempts q0 in
         if \<not> prepare_ok q now then (Inl InvalidDraft, s1)
         else case Read_image (n_files s1) (p_artifact q) of
           Inl e \<Rightarrow> (Inl InvalidDraft, s1)
         | Inr r \<Rightarrow>
             if rf_sha256 r \<noteq> p_artifact q then (Inl InvalidDraft, s1)
             else case on_store v (Create_draft q (rf_sha256 r) (hashString (p_caption q))) s1 of
               (Inl e, s2) \<Rightarrow> (Inl e, s2)
             | (Inr (d, False), s2) \<Rightarrow> (Inr d, s2)
             | (Inr (d, True), s2) \<Rightarrow>
                 (case record_insta v ''instagram_prepare'' (d_account d) ''prepared'' s2 of
                    (Inl e, s3) \<Rightarrow> (Inl e, s3) | (Inr _, s3) \<Rightarrow> (Inr d, s3))))"

definition Preview_draft :: "string \<Rightarrow> 'w insta_state \<Rightarrow> (insta_error, preview) result" where
  "Preview_draft i s =
     and_then (Get_draft i (n_db s)) (\<lambda>d.
       Inr \<lparr>w_draft = d_id d, w_account = d_account d, w_asset_hash = d_asset_hash d, w_caption = d_caption d,
            w_caption_hash = d_caption_hash d, w_publish_at = d_publish_at d, w_state = d_state d,
            w_binding = bindingFor d, w_warning = ''Preview only. This does not authorize or perform publishing.''\<rparr>)"

section \<open>Resume\<close>

text \<open>The steps of one attempt. Each fails with the error that \<open>Resume\<close> returns.\<close>

definition stage_media :: "'w publish_service \<Rightarrow> draft \<Rightarrow> 'w insta_state \<Rightarrow> (insta_error, draft) result \<times> 'w insta_state" where
  "stage_media v d s =
     (case Read_image (n_files s) (d_artifact d) of
        Inl e \<Rightarrow> (Inl (CallFailed ''artifact''), s)
      | Inr r \<Rightarrow>
          (case clock v s of (now, s1) \<Rightarrow>
           case v_stage v (rf_id r) (rf_mime r) (rf_data r) (now + hour) (n_world s1) of
             (Inl e, w) \<Rightarrow> (Inl (CallFailed e), s1\<lparr>n_world := w\<rparr>)
           | (Inr m, w) \<Rightarrow>
               (case clock v (s1\<lparr>n_world := w\<rparr>) of (checked, s2) \<Rightarrow>
                if \<not> validStagedMedia v m checked then (Inl BadStaging, s2)
                else case on_store v (SaveStaging (d_id d) m) s2 of
                  (Inl e, s3) \<Rightarrow> (Inl e, s3)
                | (Inr _, s3) \<Rightarrow>
                    (Inr (d\<lparr>d_staging_id := sm_id m, d_staging_url := sm_url m, d_staging_expires := Some (sm_expires m)\<rparr>), s3))))"

definition ensure_staged :: "'w publish_service \<Rightarrow> draft \<Rightarrow> 'w insta_state \<Rightarrow> (insta_error, draft) result \<times> 'w insta_state" where
  "ensure_staged v d s =
     (if d_staging_id d = [] then stage_media v d s
      else case d_staging_expires d of
        None \<Rightarrow> stage_media v d s
      | Some t \<Rightarrow> (case clock v s of (now, s1) \<Rightarrow> if now < t then (Inr d, s1) else stage_media v d s1))"

definition ensure_container :: "'w publish_service \<Rightarrow> draft \<Rightarrow> 'w insta_state \<Rightarrow> (insta_error, draft) result \<times> 'w insta_state" where
  "ensure_container v d s =
     (if d_container d \<noteq> [] then (Inr d, s)
      else case v_create v (d_account d) (d_staging_url d) (d_caption d) (''instagram-container:'' @ d_id d) (n_world s) of
        (Inl e, w) \<Rightarrow> (Inl (CallFailed e), s\<lparr>n_world := w\<rparr>)
      | (Inr c, w) \<Rightarrow>
          if c = [] then (Inl ContainerFailed, s\<lparr>n_world := w\<rparr>)
          else (let s1 = s\<lparr>n_world := w, n_made := n_made s @ [\<lparr>cm_draft = d_id d, cm_account = d_account d, cm_caption = d_caption d, cm_container = c\<rparr>]\<rparr> in
                case on_store v (SaveContainer (d_id d) c) s1 of
                  (Inl e, s2) \<Rightarrow> (Inl e, s2) | (Inr _, s2) \<Rightarrow> (Inr (d\<lparr>d_container := c\<rparr>), s2)))"

fun poll_container :: "'w publish_service \<Rightarrow> nat \<Rightarrow> draft \<Rightarrow> 'w insta_state \<Rightarrow> (insta_error, unit) result \<times> 'w insta_state" where
  "poll_container v 0 d s = (Inl PollingExhausted, s)"
| "poll_container v (Suc n) d s =
     (case v_status v (d_container d) (n_world s) of
        (Inl e, w) \<Rightarrow> (Inl (CallFailed e), s\<lparr>n_world := w\<rparr>)
      | (Inr Finished, w) \<Rightarrow> (Inr (), s\<lparr>n_world := w\<rparr>)
      | (Inr InProgress, w) \<Rightarrow>
          (case v_sleep v (v_poll_interval v) w of
             (Some e, w') \<Rightarrow> (Inl (CallFailed e), s\<lparr>n_world := w'\<rparr>)
           | (None, w') \<Rightarrow> poll_container v n d (s\<lparr>n_world := w'\<rparr>))
      | (Inr _, w) \<Rightarrow> (Inl ContainerFailed, s\<lparr>n_world := w\<rparr>))"

definition publish_container :: "'w publish_service \<Rightarrow> draft \<Rightarrow> 'w insta_state \<Rightarrow> (insta_error, string) result \<times> 'w insta_state" where
  "publish_container v d s =
     (case Get_draft (d_id d) (n_db s) of
        Inl e \<Rightarrow> (Inl e, s)
      | Inr current \<Rightarrow>
          (case d_authorized_until current of
             None \<Rightarrow> (Inl BadBinding, s)
           | Some t \<Rightarrow>
               (case clock v s of (now, s1) \<Rightarrow>
                if v_fault v (n_reads s) = Dies then (Inl ProcessDied, s1)
                else if \<not> now < t then (Inl BadBinding, s1)
                else case v_publish v (d_account d) (d_container d) (''instagram-publish:'' @ d_id d) (n_world s1) of (r, w) \<Rightarrow>
                  (let media = (case r of Inl e \<Rightarrow> None | Inr m \<Rightarrow> if m = [] then None else Some m);
                       s2 = s1\<lparr>n_world := w, n_calls := n_calls s1 @ [\<lparr>pc_draft = d_id d, pc_account = d_account d,
                              pc_container = d_container d, pc_key = ''instagram-publish:'' @ d_id d, pc_at = now, pc_media = media,
                              pc_noted = n_reads s1\<rparr>]\<rparr>
                   in case r of
                        Inl e \<Rightarrow> (Inl (CallFailed e), s2)
                      | Inr m \<Rightarrow>
                          if m = [] then (Inl ContainerFailed, s2)
                          else (case on_store v (Complete_draft (d_id d) m) s2 of
                                  (Inl e, s3) \<Rightarrow> (Inl e, s3) | (Inr _, s3) \<Rightarrow> (Inr m, s3))))))"

text \<open>The draft with its staging, and the media; a failure has to be recorded by the caller.\<close>

definition attempt_publish ::
  "'w publish_service \<Rightarrow> draft \<Rightarrow> 'w insta_state \<Rightarrow> (insta_error, draft \<times> string) result \<times> 'w insta_state" where
  "attempt_publish v d s =
     (case ensure_staged v d s of
        (Inl e, s1) \<Rightarrow> (Inl e, s1)
      | (Inr d1, s1) \<Rightarrow>
          (case ensure_container v d1 s1 of
             (Inl e, s2) \<Rightarrow> (Inl e, s2)
           | (Inr d2, s2) \<Rightarrow>
               (case poll_container v (nat (v_max_polls v)) d2 s2 of
                  (Inl e, s3) \<Rightarrow> (Inl e, s3)
                | (Inr _, s3) \<Rightarrow>
                    (case publish_container v d2 s3 of
                       (Inl e, s4) \<Rightarrow> (Inl e, s4)
                     | (Inr m, s4) \<Rightarrow> (Inr (d2, m), s4)))))"

text \<open>\<open>err.Error()\<close>, of which the store keeps a copy.\<close>

definition error_text :: "insta_error \<Rightarrow> string" where
  "error_text e =
     (case e of
        ContainerFailed \<Rightarrow> ''instagram media container failed''
      | BadBinding \<Rightarrow> ''instagram publish approval binding mismatch''
      | BadStaging \<Rightarrow> ''invalid staged media''
      | PollingExhausted \<Rightarrow> ''instagram container polling exhausted''
      | CompletionMismatch \<Rightarrow> ''draft completion state mismatch''
      | CallFailed x \<Rightarrow> x
      | _ \<Rightarrow> ''store error'')"

text \<open>The deferred function: the draft goes back to \<open>failed\<close>, which may itself fail.\<close>

definition abandon :: "'w publish_service \<Rightarrow> draft \<Rightarrow> insta_error \<Rightarrow> 'w insta_state \<Rightarrow> 'w insta_state" where
  "abandon v d e s =
     (case on_store v (Fail_draft (d_id d) (Some (error_text e))) s of
        (r, s1) \<Rightarrow> if r = Inl ProcessDied then s1 else snd (record_insta v ''instagram_publish'' (d_account d) ''failed'' s1))"

definition clear_staging :: "string \<Rightarrow> time \<Rightarrow> insta_db \<Rightarrow> (insta_error, unit) result \<times> insta_db" where
  "clear_staging i now db = (Inr (), ClearStaging i now db)"

definition cleanup_staged :: "'w publish_service \<Rightarrow> draft \<Rightarrow> 'w insta_state \<Rightarrow> (insta_error, unit) result \<times> 'w insta_state" where
  "cleanup_staged v d s =
     (case v_cleanup v (d_staging_id d) (n_world s) of
        (None, w) \<Rightarrow> on_store v (clear_staging (d_id d)) (s\<lparr>n_world := w\<rparr>)
      | (Some e, w) \<Rightarrow> record_insta v ''instagram_staging_cleanup'' (d_account d) ''deferred'' (s\<lparr>n_world := w\<rparr>))"

text \<open>An error of the cleanup is ignored.\<close>

definition finish_publish ::
  "'w publish_service \<Rightarrow> draft \<Rightarrow> string \<Rightarrow> 'w insta_state \<Rightarrow> (insta_error, publish_result) result \<times> 'w insta_state" where
  "finish_publish v d m s =
     (case cleanup_staged v d s of (c, s1) \<Rightarrow>
        if c = Inl ProcessDied then (Inl ProcessDied, s1)
        else (case record_insta v ''instagram_publish'' (d_account d) ''published_mock_or_external'' s1 of
                (Inl e, s2) \<Rightarrow> (Inl e, s2)
              | (Inr _, s2) \<Rightarrow> (Inr \<lparr>res_draft = d_id d, res_media = m, res_state = DPublished\<rparr>, s2)))"

definition Resume :: "'w publish_service \<Rightarrow> string \<Rightarrow> 'w insta_state \<Rightarrow> (insta_error, publish_result) result \<times> 'w insta_state" where
  "Resume v i s =
     (if \<not> validateDependencies v then (Inl InstaUnavailable, s)
      else case Get_draft i (n_db s) of
        Inl e \<Rightarrow> (Inl e, s)
      | Inr d \<Rightarrow>
          if d_state d = DPublished then (Inr \<lparr>res_draft = d_id d, res_media = d_media d, res_state = d_state d\<rparr>, s)
          else (case on_store v (Claim_draft i) s of
                  (Inl e, s1) \<Rightarrow> (Inl e, s1)
                | (Inr d1, s1) \<Rightarrow>
                    (case attempt_publish v d1 s1 of
                       (Inl e, s2) \<Rightarrow> (Inl e, if e = ProcessDied then s2 else abandon v d1 e s2)
                     | (Inr (d2, m), s2) \<Rightarrow> finish_publish v d2 m s2)))"

section \<open>Publishing with an approval\<close>

definition PublishApproved ::
  "'w publish_service \<Rightarrow> publish_binding \<Rightarrow> receipt \<Rightarrow> 'w insta_state \<Rightarrow> (insta_error, publish_result) result \<times> 'w insta_state" where
  "PublishApproved v b c s =
     (if \<not> validateDependencies v then (Inl InstaUnavailable, s)
      else case Get_draft (b_draft b) (n_db s) of
        Inl e \<Rightarrow> (Inl e, s)
      | Inr d \<Rightarrow>
          if b \<noteq> bindingFor d \<or> c_user c \<noteq> v_owner v \<or> c_tool c \<noteq> ''instagram.publish'' \<or> c_resource c \<noteq> d_account d
             \<or> c_args_hash c \<noteq> binding_hash b then (Inl BadBinding, s)
          else (case clock v s of (now, s1) \<Rightarrow>
            if \<not> now < c_expires c then (Inl BadBinding, s1)
            else case on_store v (MarkAuthorized (d_id d) (c_expires c)) (s1\<lparr>n_grants := n_grants s1 @ [(b, c)]\<rparr>) of
              (Inl e, s2) \<Rightarrow> (Inl e, s2)
            | (Inr _, s2) \<Rightarrow>
                (case record_insta v ''instagram_publish_approval'' (d_account d) ''authorized'' s2 of
                   (Inl e, s3) \<Rightarrow> (Inl e, s3)
                 | (Inr _, s3) \<Rightarrow> Resume v (d_id d) s3)))"

definition RequestApproval ::
  "'w publish_service \<Rightarrow> string \<Rightarrow> string \<Rightarrow> int \<Rightarrow> duration \<Rightarrow> 'w insta_state \<Rightarrow>
   (insta_error, (appr_error, appr_request) result \<times> string) result \<times> 'w insta_state" where
  "RequestApproval v bytes i user ttl s =
     (if \<not> v_approvals v \<or> ttl \<le> 0 \<or> ttl > 24 * hour then (Inl BadBinding, s)
      else case Get_draft i (n_db s) of
        Inl e \<Rightarrow> (Inl e, s)
      | Inr d \<Rightarrow>
          (case clock v s of (now, s1) \<Rightarrow> case clock v s1 of (created, s2) \<Rightarrow> case clock v s2 of (logged, s3) \<Rightarrow>
           case Create_request bytes user ''instagram.publish'' (binding_hash (bindingFor d)) (d_account d) ttl
                  now created logged (n_appr s3) of
             (r, a) \<Rightarrow> (Inr (r, canonicalBinding (bindingFor d)), s3\<lparr>n_appr := a\<rparr>)))"

definition PublishWithToken ::
  "'w publish_service \<Rightarrow> string \<Rightarrow> int \<Rightarrow> string \<Rightarrow> 'w insta_state \<Rightarrow> (insta_error, publish_result) result \<times> 'w insta_state" where
  "PublishWithToken v i user token s =
     (if \<not> v_approvals v then (Inl BadBinding, s)
      else case Get_draft i (n_db s) of
        Inl e \<Rightarrow> (Inl e, s)
      | Inr d \<Rightarrow>
          (case clock v s of (now, s1) \<Rightarrow> case clock v s1 of (used, s2) \<Rightarrow>
           case AuthorizeReceipt token user ''instagram.publish'' (binding_hash (bindingFor d)) (d_account d) now used (n_appr s2) of
             (Inl e, a) \<Rightarrow> (Inl BadBinding, s2\<lparr>n_appr := a\<rparr>)
           | (Inr c, a) \<Rightarrow> PublishApproved v (bindingFor d) c (s2\<lparr>n_appr := a\<rparr>)))"

section \<open>Recovery\<close>

definition recover_all :: "time \<Rightarrow> insta_db \<Rightarrow> (insta_error, nat) result \<times> insta_db" where
  "recover_all now db = (case Recover_drafts now db of (n, db') \<Rightarrow> (Inr n, db'))"

definition Recover_insta :: "'w publish_service \<Rightarrow> 'w insta_state \<Rightarrow> (insta_error, nat) result \<times> 'w insta_state" where
  "Recover_insta v s = on_store v recover_all s"

fun cleanup_all :: "'w publish_service \<Rightarrow> draft list \<Rightarrow> 'w insta_state \<Rightarrow> (insta_error, unit) result \<times> 'w insta_state" where
  "cleanup_all v [] s = (Inr (), s)"
| "cleanup_all v (d # ds) s =
     (case v_cleanup v (d_staging_id d) (n_world s) of
        (Some e, w) \<Rightarrow> (Inl (CallFailed e), s\<lparr>n_world := w\<rparr>)
      | (None, w) \<Rightarrow>
          (case on_store v (clear_staging (d_id d)) (s\<lparr>n_world := w\<rparr>) of
             (Inl e, s1) \<Rightarrow> (Inl e, s1) | (Inr _, s1) \<Rightarrow> cleanup_all v ds s1))"

definition CleanupExpired :: "'w publish_service \<Rightarrow> 'w insta_state \<Rightarrow> (insta_error, unit) result \<times> 'w insta_state" where
  "CleanupExpired v s =
     (case on_store v (\<lambda>now db. (ExpiredStaging now db, db)) s of
        (Inl e, s1) \<Rightarrow> (Inl e, s1) | (Inr ds, s1) \<Rightarrow> cleanup_all v ds s1)"

end
