(* ===== verification/InstaProofs.thy ===== *)
theory InstaProofs
  imports Insta
begin

text \<open>
  What the publishing service guarantees over every sequence of its operations, with writes that fail and processes
  that die in between: nothing is published without an accepted receipt for exactly this draft, and a draft is sent
  again only where the note of an earlier publication was lost.
\<close>

section \<open>The invariant of the service\<close>

definition receipt_fits :: "'w publish_service \<Rightarrow> publish_binding \<Rightarrow> receipt \<Rightarrow> bool" where
  "receipt_fits v b c \<longleftrightarrow> c_user c = v_owner v \<and> c_tool c = ''instagram.publish'' \<and> c_resource c = b_account b
     \<and> c_args_hash c = binding_hash b"

definition container_of :: "draft \<Rightarrow> container_made" where
  "container_of d = \<lparr>cm_draft = d_id d, cm_account = d_account d, cm_caption = d_caption d, cm_container = d_container d\<rparr>"

text \<open>A row: its authorization is from a receipt, its container was made from it.\<close>

definition row_ok :: "'w publish_service \<Rightarrow> (publish_binding \<times> receipt) list \<Rightarrow> container_made list \<Rightarrow> draft \<Rightarrow> bool" where
  "row_ok v gs ms d \<longleftrightarrow>
     (\<forall>t. d_authorized_until d = Some t \<longrightarrow> (\<exists>c. (bindingFor d, c) \<in> set gs \<and> receipt_fits v (bindingFor d) c \<and> c_expires c = t))
     \<and> (d_container d \<noteq> [] \<longrightarrow> container_of d \<in> set ms)"

text \<open>A call: it sent the container of a draft, under a receipt for it.\<close>

definition covered :: "'w publish_service \<Rightarrow> (publish_binding \<times> receipt) list \<Rightarrow> container_made list \<Rightarrow> insta_db \<Rightarrow> publish_call \<Rightarrow> bool" where
  "covered v gs ms db k \<longleftrightarrow> (\<exists>d \<in> set (drafts db). \<exists>c.
     pc_draft k = d_id d \<and> pc_account k = d_account d \<and> pc_container k = d_container d \<and> d_container d \<noteq> []
     \<and> pc_key k = ''instagram-publish:'' @ d_id d \<and> container_of d \<in> set ms
     \<and> (bindingFor d, c) \<in> set gs \<and> receipt_fits v (bindingFor d) c \<and> pc_at k < c_expires c)"

definition published_as :: "insta_db \<Rightarrow> string \<Rightarrow> string \<Rightarrow> bool" where
  "published_as db i m \<longleftrightarrow> (\<exists>d \<in> set (drafts db). d_id d = i \<and> d_state d = DPublished \<and> d_media d = m)"

text \<open>A publication that came back and whose note in the store was not prevented.\<close>

definition noted :: "'w publish_service \<Rightarrow> publish_call \<Rightarrow> bool" where
  "noted v k \<longleftrightarrow> pc_media k \<noteq> None \<and> v_fault v (pc_noted k) = Runs"

definition once :: "'w publish_service \<Rightarrow> insta_db \<Rightarrow> publish_call list \<Rightarrow> bool" where
  "once v db ks \<longleftrightarrow> sorted_wrt (\<lambda>k l. pc_draft k = pc_draft l \<longrightarrow> \<not> noted v k) ks
     \<and> (\<forall>k \<in> set ks. \<forall>m. pc_media k = Some m \<and> noted v k \<longrightarrow> published_as db (pc_draft k) m)"

definition insta_safe :: "'w publish_service \<Rightarrow> 'w insta_state \<Rightarrow> bool" where
  "insta_safe v s \<longleftrightarrow> insta_inv (n_db s) \<and> (\<forall>d \<in> set (drafts (n_db s)). row_ok v (n_grants s) (n_made s) d)
     \<and> (\<forall>k \<in> set (n_calls s). covered v (n_grants s) (n_made s) (n_db s) k) \<and> once v (n_db s) (n_calls s)"

section \<open>Changes of drafts that keep it\<close>

text \<open>The content of a draft stays, so does its container once it has one, and so does a publication.\<close>

definition content_kept :: "draft \<Rightarrow> draft \<Rightarrow> bool" where
  "content_kept d e \<longleftrightarrow> bindingFor e = bindingFor d \<and> d_caption e = d_caption d \<and> (d_container d \<noteq> [] \<longrightarrow> d_container e = d_container d)
     \<and> (d_state d = DPublished \<longrightarrow> d_state e = DPublished \<and> d_media e = d_media d)"

definition evolves :: "insta_db \<Rightarrow> insta_db \<Rightarrow> bool" where
  "evolves db db' \<longleftrightarrow> (\<forall>d \<in> set (drafts db). \<exists>e \<in> set (drafts db'). content_kept d e)"

lemma content_kept_refl [simp]: "content_kept d d"
  by (simp add: content_kept_def)

lemma bindingFor_eq: "bindingFor e = bindingFor d \<Longrightarrow> d_id e = d_id d \<and> d_account e = d_account d"
  by (simp add: bindingFor_def)

lemma evolves_refl [simp]: "evolves db db"
  unfolding evolves_def by (intro ballI bexI) simp_all

lemma evolves_published: "evolves db db' \<Longrightarrow> published_as db i m \<Longrightarrow> published_as db' i m"
  unfolding evolves_def published_as_def content_kept_def using bindingFor_eq by (metis (no_types, lifting))

lemma evolves_covered:
  assumes "evolves db db'" and "covered v gs ms db k" and "set gs \<subseteq> set gs'" and "set ms \<subseteq> set ms'"
  shows "covered v gs' ms' db' k"
proof -
  obtain d c where d: "d \<in> set (drafts db)" "pc_draft k = d_id d" "pc_account k = d_account d" "pc_container k = d_container d" "d_container d \<noteq> []"
    "pc_key k = ''instagram-publish:'' @ d_id d" "container_of d \<in> set ms"
    "(bindingFor d, c) \<in> set gs" "receipt_fits v (bindingFor d) c" "pc_at k < c_expires c"
    using assms(2) by (auto simp: covered_def)
  then obtain e where e: "e \<in> set (drafts db')" "content_kept d e" using assms(1) by (auto simp: evolves_def)
  then have same: "bindingFor e = bindingFor d" "d_caption e = d_caption d" "d_container e = d_container d" using d(5) by (simp_all add: content_kept_def)
  note id = bindingFor_eq [OF same(1)]
  have "container_of e = container_of d" by (simp add: container_of_def same id)
  then show ?thesis unfolding covered_def
    by (intro bexI [OF _ e(1)] exI [of _ c]) (use d same id assms(3,4) in auto)
qed

lemma row_ok_more: "row_ok v gs ms d \<Longrightarrow> set gs \<subseteq> set gs' \<Longrightarrow> set ms \<subseteq> set ms' \<Longrightarrow> row_ok v gs' ms' d"
  unfolding row_ok_def by blast

lemma safe_change:
  assumes "insta_safe v s" and "insta_inv (n_db s')" and "evolves (n_db s) (n_db s')"
    and "\<And>d. d \<in> set (drafts (n_db s')) \<Longrightarrow> row_ok v (n_grants s') (n_made s') d"
    and "set (n_grants s) \<subseteq> set (n_grants s')" and "set (n_made s) \<subseteq> set (n_made s')" and "n_calls s' = n_calls s"
  shows "insta_safe v s'"
proof -
  have "covered v (n_grants s') (n_made s') (n_db s') k" if "k \<in> set (n_calls s)" for k
    by (rule evolves_covered [OF assms(3) _ assms(5,6)]) (use assms(1) that in \<open>simp add: insta_safe_def\<close>)
  moreover have "once v (n_db s') (n_calls s)"
    using assms(1) evolves_published [OF assms(3)] by (auto simp: insta_safe_def once_def)
  ultimately show ?thesis using assms(2,4,7) by (simp add: insta_safe_def)
qed

lemma insta_safe_cong:
  "n_db s' = n_db s \<Longrightarrow> n_grants s' = n_grants s \<Longrightarrow> n_made s' = n_made s \<Longrightarrow> n_calls s' = n_calls s \<Longrightarrow> insta_safe v s' = insta_safe v s"
  by (simp add: insta_safe_def)

text \<open>An \<open>UPDATE\<close> of drafts.\<close>

lemma evolves_update:
  assumes "drafts db' = update_where p f (drafts db)" and "\<And>d. d \<in> set (drafts db) \<Longrightarrow> p d \<Longrightarrow> content_kept d (f d)"
  shows "evolves db db'"
  unfolding evolves_def
proof
  fix d assume d: "d \<in> set (drafts db)"
  then have "(if p d then f d else d) \<in> set (drafts db')" by (auto simp: assms(1) set_update_where)
  moreover have "content_kept d (if p d then f d else d)" using assms(2) d by simp
  ultimately show "\<exists>e \<in> set (drafts db'). content_kept d e" by blast
qed

lemma safe_update:
  assumes safe: "insta_safe v s" and inv: "insta_inv (n_db s')" and db: "drafts (n_db s') = update_where p f (drafts (n_db s))"
    and keep: "\<And>d. d \<in> set (drafts (n_db s)) \<Longrightarrow> p d \<Longrightarrow> content_kept d (f d)"
    and row: "\<And>d. d \<in> set (drafts (n_db s)) \<Longrightarrow> p d \<Longrightarrow> row_ok v (n_grants s) (n_made s) d \<Longrightarrow> row_ok v (n_grants s') (n_made s') (f d)"
    and more: "set (n_grants s) \<subseteq> set (n_grants s')" "set (n_made s) \<subseteq> set (n_made s')" and calls: "n_calls s' = n_calls s"
  shows "insta_safe v s'"
proof (rule safe_change [OF safe inv _ _ more calls])
  show "evolves (n_db s) (n_db s')" by (rule evolves_update [OF db keep])
  show "row_ok v (n_grants s') (n_made s') e" if "e \<in> set (drafts (n_db s'))" for e
    using that unfolding db
  proof (cases rule: update_whereE)
    case kept
    then show ?thesis using safe row_ok_more [OF _ more] by (auto simp: insta_safe_def)
  next
    case (changed d)
    then show ?thesis using row [OF changed(1,2)] safe by (simp add: insta_safe_def)
  qed
qed

lemma safe_quiet_update:
  assumes "insta_safe v s" and "insta_inv (n_db s')" and "drafts (n_db s') = update_where p f (drafts (n_db s))"
    and "\<And>d. p d \<Longrightarrow> content_kept d (f d) \<and> d_authorized_until (f d) = d_authorized_until d \<and> d_container (f d) = d_container d"
    and "n_grants s' = n_grants s" "n_made s' = n_made s" "n_calls s' = n_calls s"
  shows "insta_safe v s'"
proof (rule safe_update [OF assms(1-3)])
  fix d assume d: "p d" "row_ok v (n_grants s) (n_made s) d"
  note f = assms(4) [OF d(1)]
  have "container_of (f d) = container_of d" using f bindingFor_eq [of "f d" d] by (simp add: container_of_def content_kept_def)
  then show "row_ok v (n_grants s') (n_made s') (f d)" using d(2) f assms(5,6) by (simp add: row_ok_def content_kept_def)
qed (use assms(4-7) in auto)

section \<open>The clock, the log, the world and writes\<close>

lemma clock_frame [simp]:
  "n_db (snd (clock v s)) = n_db s" "n_grants (snd (clock v s)) = n_grants s" "n_calls (snd (clock v s)) = n_calls s"
  "n_appr (snd (clock v s)) = n_appr s" "n_made (snd (clock v s)) = n_made s"
  by (simp_all add: clock_def)

lemma clock_is: "clock v s = (t, s') \<Longrightarrow> s' = s\<lparr>n_reads := Suc (n_reads s)\<rparr>"
  by (simp add: clock_def)

lemma record_insta_frame [simp]:
  "n_db (snd (record_insta v k r d s)) = n_db s" "n_grants (snd (record_insta v k r d s)) = n_grants s"
  "n_calls (snd (record_insta v k r d s)) = n_calls s" "n_made (snd (record_insta v k r d s)) = n_made s"
  by (simp_all add: record_insta_def clock_def split: prod.splits sum.splits)

lemma record_safe [simp]: "insta_safe v (snd (record_insta v k r d s)) = insta_safe v s"
  by (rule insta_safe_cong) simp_all

lemma world_safe [simp]: "insta_safe v (s\<lparr>n_world := w\<rparr>) = insta_safe v s" "insta_safe v (s\<lparr>n_reads := n\<rparr>) = insta_safe v s"
  "insta_safe v (s\<lparr>n_appr := a\<rparr>) = insta_safe v s"
  by (rule insta_safe_cong; simp)+

lemma clock_safe: "clock v s = (t, s') \<Longrightarrow> insta_safe v s' = insta_safe v s \<and> n_db s' = n_db s"
  by (auto dest: clock_is)

text \<open>A write either happens, or leaves the tables as they are.\<close>

lemma on_storeE:
  assumes "on_store v f s = (r, s')"
  obtains (runs) db where "v_fault v (n_reads s) = Runs" and "f (v_clock v (n_reads s)) (n_db s) = (r, db)"
      and "s' = s\<lparr>n_reads := Suc (n_reads s), n_db := db\<rparr>"
    | (lost) e where "v_fault v (n_reads s) \<noteq> Runs" and "r = Inl e" and "e = StoreFailed \<or> e = ProcessDied" and "s' = s\<lparr>n_reads := Suc (n_reads s)\<rparr>"
  using assms that by (cases "v_fault v (n_reads s)") (auto simp: on_store_def clock_def split: prod.splits)

lemma on_store_runs:
  "v_fault v (n_reads s) = Runs \<Longrightarrow> on_store v f s = (fst (f (v_clock v (n_reads s)) (n_db s)),
     s\<lparr>n_reads := Suc (n_reads s), n_db := snd (f (v_clock v (n_reads s)) (n_db s))\<rparr>)"
  by (simp add: on_store_def clock_def case_prod_beta)

lemma write_safe:
  assumes safe: "insta_safe v s" and run: "on_store v f s = (r, s')"
    and f: "\<And>now r db. f now (n_db s) = (r, db) \<Longrightarrow> insta_safe v (s\<lparr>n_db := db\<rparr>)"
  shows "insta_safe v s'"
  using run
proof (cases rule: on_storeE)
  case (runs db)
  from f [OF runs(2)] have "insta_safe v (s\<lparr>n_db := db\<rparr>)" .
  moreover have "insta_safe v s' = insta_safe v (s\<lparr>n_db := db\<rparr>)" by (rule insta_safe_cong) (simp_all add: runs(3))
  ultimately show ?thesis by simp
next
  case (lost e)
  with safe show ?thesis by simp
qed

section \<open>An attempt in progress\<close>

text \<open>The copy of the draft the attempt works on agrees with the row, which is in progress.\<close>

definition agrees :: "draft \<Rightarrow> draft \<Rightarrow> bool" where
  "agrees d r \<longleftrightarrow> publishing (d_id d) r \<and> bindingFor r = bindingFor d \<and> d_caption r = d_caption d \<and> d_container r = d_container d"

definition attempting :: "'w publish_service \<Rightarrow> draft \<Rightarrow> 'w insta_state \<Rightarrow> bool" where
  "attempting v d s \<longleftrightarrow> insta_safe v s \<and> (\<exists>r \<in> set (drafts (n_db s)). agrees d r)"

lemma attempting_safe: "attempting v d s \<Longrightarrow> insta_safe v s"
  by (simp add: attempting_def)

lemma attempting_cong:
  "n_db s' = n_db s \<Longrightarrow> n_grants s' = n_grants s \<Longrightarrow> n_made s' = n_made s \<Longrightarrow> n_calls s' = n_calls s \<Longrightarrow> attempting v d s' = attempting v d s"
  using insta_safe_cong [of s' s v] by (simp add: attempting_def)

lemma attempting_frame [simp]: "attempting v d (s\<lparr>n_world := w\<rparr>) = attempting v d s" "attempting v d (s\<lparr>n_reads := n\<rparr>) = attempting v d s"
  by (rule attempting_cong; simp)+

lemma attempting_clock: "attempting v d s \<Longrightarrow> clock v s = (t, s') \<Longrightarrow> attempting v d s'"
  by (auto dest: clock_is)

text \<open>The row is the only one of that name.\<close>

lemma attempting_row:
  assumes "attempting v d s"
  obtains r where "r \<in> set (drafts (n_db s))" and "agrees d r" and "\<And>e. e \<in> set (drafts (n_db s)) \<Longrightarrow> d_id e = d_id d \<Longrightarrow> e = r"
proof -
  obtain r where r: "r \<in> set (drafts (n_db s))" "agrees d r" using assms by (auto simp: attempting_def)
  moreover have "e = r" if "e \<in> set (drafts (n_db s))" "d_id e = d_id d" for e
    using same_draft [of "n_db s" e r] assms that r by (simp add: attempting_def insta_safe_def agrees_def publishing_def)
  ultimately show ?thesis using that by blast
qed

lemma commit_update:
  assumes "draft_keeping f" and "\<exists>d \<in> set (drafts db). d_id d = i"
  shows "commit_event i k r (db\<lparr>drafts := update_where p f (drafts db)\<rparr>) db
    = (Inr (), insertEvent i k r [] (db\<lparr>drafts := update_where p f (drafts db)\<rparr>))"
proof -
  have "map d_id (update_where p f (drafts db)) = map d_id (drafts db)"
    by (rule map_update_where) (use assms(1) in \<open>simp add: draft_keeping_def\<close>)
  from arg_cong [OF this, of set] have "d_id ` set (update_where p f (drafts db)) = d_id ` set (drafts db)" by simp
  moreover have "i \<in> d_id ` set (drafts db)" using assms(2) by auto
  ultimately have "\<exists>e \<in> set (update_where p f (drafts db)). d_id e = i" by (metis imageE)
  then show ?thesis by (simp add: commit_event_def)
qed

lemma attempting_id: "attempting v d s \<Longrightarrow> \<exists>e \<in> set (drafts (n_db s)). d_id e = d_id d"
  by (auto simp: attempting_def agrees_def publishing_def)

lemma staging_ok:
  assumes att: "attempting v d s" and run: "on_store v (SaveStaging (d_id d) m) s = (r, s')"
  shows "attempting v d s'"
  using run
proof (cases rule: on_storeE)
  case (lost e)
  with att show ?thesis by simp
next
  case (runs db)
  let ?now = "v_clock v (n_reads s)"
  let ?f = "\<lambda>e. e\<lparr>d_staging_id := sm_id m, d_staging_url := sm_url m, d_staging_expires := Some (sm_expires m), d_updated_at := ?now\<rparr>"
  have db: "drafts db = update_where (publishing (d_id d)) ?f (drafts (n_db s))"
    using runs(2) commit_update [OF _ attempting_id [OF att], of ?f "''media_staged''" "sm_id m" "publishing (d_id d)"]
    by (auto simp: SaveStaging_def draft_keeping_def)
  have inv: "insta_inv db" using SaveStaging_inv [of "n_db s" "d_id d" m ?now] runs(2) att by (simp add: attempting_def insta_safe_def)
  have "insta_safe v s'"
    by (rule safe_quiet_update [OF attempting_safe [OF att], where p = "publishing (d_id d)" and f = ?f])
       (use inv db runs(3) in \<open>simp_all add: content_kept_def bindingFor_def\<close>)
  moreover obtain q where "q \<in> set (drafts (n_db s))" "agrees d q" using att by (auto simp: attempting_def)
  then have "?f q \<in> set (drafts db)" "agrees d (?f q)" by (auto simp: db set_update_where agrees_def publishing_def bindingFor_def)
  ultimately show ?thesis unfolding attempting_def by (simp add: runs(3)) blast
qed

lemma agrees_staging: "agrees (d\<lparr>d_staging_id := a, d_staging_url := b, d_staging_expires := c\<rparr>) = agrees d"
  by (simp add: agrees_def bindingFor_def fun_eq_iff)

lemma attempting_staging [simp]: "attempting v (d\<lparr>d_staging_id := a, d_staging_url := b, d_staging_expires := c\<rparr>) s = attempting v d s"
  by (simp add: attempting_def agrees_staging)

section \<open>The steps of an attempt\<close>

lemma stage_media_ok:
  assumes att: "attempting v d s" and run: "stage_media v d s = (r, s')"
  shows "attempting v d s' \<and> (\<forall>d'. r = Inr d' \<longrightarrow> attempting v d' s')"
proof (cases "Read_image (n_files s) (d_artifact d)")
  case (Inl e)
  with assms show ?thesis by (auto simp: stage_media_def)
next
  case (Inr ref)
  obtain now s1 where c1: "clock v s = (now, s1)" by fastforce
  obtain a w where st: "v_stage v (rf_id ref) (rf_mime ref) (rf_data ref) (now + hour) (n_world s1) = (a, w)" by fastforce
  obtain checked s2 where c2: "clock v (s1\<lparr>n_world := w\<rparr>) = (checked, s2)" by fastforce
  have ok: "attempting v d (s1\<lparr>n_world := w\<rparr>)" "attempting v d s2"
    using attempting_clock [OF att c1] attempting_clock [OF _ c2, of d] by simp_all
  have save: "attempting v d s3" if "on_store v (SaveStaging (d_id d) m) s2 = (x, s3)" for m x s3
    by (rule staging_ok [OF ok(2) that])
  show ?thesis using run ok save
    by (auto simp: stage_media_def Inr c1 st c2 split: sum.splits if_splits prod.splits)
qed

lemma ensure_staged_ok:
  assumes "attempting v d s" and "ensure_staged v d s = (r, s')"
  shows "attempting v d s' \<and> (\<forall>d'. r = Inr d' \<longrightarrow> attempting v d' s')"
proof -
  obtain now s1 where c: "clock v s = (now, s1)" by fastforce
  have att1: "attempting v d s1" using attempting_clock [OF assms(1) c] .
  show ?thesis using assms att1
    by (auto simp: ensure_staged_def c split: if_splits option.splits dest: stage_media_ok [OF assms(1)] stage_media_ok [OF att1])
qed

text \<open>A container is made from the row as it is approved, and kept.\<close>

lemma container_saved:
  assumes att: "attempting v d s" and d: "d_container d = []" "c \<noteq> []" and run: "on_store v (SaveContainer (d_id d) c) s1 = (r, s')"
    and s1: "s1 = s\<lparr>n_world := w, n_made := n_made s @ [\<lparr>cm_draft = d_id d, cm_account = d_account d, cm_caption = d_caption d, cm_container = c\<rparr>]\<rparr>"
  shows "insta_safe v s' \<and> (r = Inr () \<longrightarrow> attempting v (d\<lparr>d_container := c\<rparr>) s')"
proof -
  let ?ms = "n_made s @ [\<lparr>cm_draft = d_id d, cm_account = d_account d, cm_caption = d_caption d, cm_container = c\<rparr>]"
  have safe: "insta_safe v s" by (rule attempting_safe [OF att])
  have safe1: "insta_safe v s1"
    by (rule safe_change [OF safe]) (use safe row_ok_more [of v "n_grants s" "n_made s" _ "n_grants s" ?ms] in \<open>auto simp: s1 insta_safe_def\<close>)
  obtain q where q: "q \<in> set (drafts (n_db s))" "agrees d q" "\<And>e. e \<in> set (drafts (n_db s)) \<Longrightarrow> d_id e = d_id d \<Longrightarrow> e = q"
    using attempting_row [OF att] by blast
  from run show ?thesis
  proof (cases rule: on_storeE)
    case (lost e)
    with safe1 show ?thesis by simp
  next
    case (runs db)
    let ?now = "v_clock v (n_reads s1)"
    let ?f = "\<lambda>e. e\<lparr>d_container := c, d_updated_at := ?now\<rparr>"
    have db: "drafts db = update_where (publishing (d_id d)) ?f (drafts (n_db s))" "r = Inr ()"
      using runs(2) commit_update [OF _ attempting_id [OF att], of ?f "''container_created''" c "publishing (d_id d)"]
      by (auto simp: SaveContainer_def draft_keeping_def s1)
    have inv: "insta_inv db" using SaveContainer_inv [of "n_db s" "d_id d" c ?now] runs(2) safe by (simp add: insta_safe_def s1)
    have only: "e = q" if "e \<in> set (drafts (n_db s))" "publishing (d_id d) e" for e using q(3) that by (simp add: publishing_def)
    have same: "bindingFor q = bindingFor d" "d_caption q = d_caption d" "d_container q = []" using q(2) d by (simp_all add: agrees_def)
    note id = bindingFor_eq [OF same(1)]
    have "insta_safe v s'"
    proof (rule safe_update [OF safe, where p = "publishing (d_id d)" and f = ?f])
      fix e assume e: "e \<in> set (drafts (n_db s))" "publishing (d_id d) e"
      then show "content_kept e (?f e)" using only [OF e] same by (simp add: content_kept_def bindingFor_def)
      assume row: "row_ok v (n_grants s) (n_made s) e"
      have "bindingFor (?f e) = bindingFor e" by (simp add: bindingFor_def)
      moreover have "container_of (?f e) \<in> set ?ms" using only [OF e] same id by (simp add: container_of_def)
      ultimately show "row_ok v (n_grants s') (n_made s') (?f e)" using row by (simp add: row_ok_def runs(3) s1)
    qed (use inv db runs(3) in \<open>auto simp: s1\<close>)
    moreover have "?f q \<in> set (drafts db)" "agrees (d\<lparr>d_container := c\<rparr>) (?f q)"
      using q(1,2) by (auto simp: db set_update_where agrees_def publishing_def bindingFor_def)
    ultimately show ?thesis unfolding attempting_def by (simp add: runs(3)) blast
  qed
qed

lemma ensure_container_ok:
  assumes att: "attempting v d s" and run: "ensure_container v d s = (r, s')"
  shows "insta_safe v s' \<and> (\<forall>d'. r = Inr d' \<longrightarrow> attempting v d' s' \<and> d_container d' \<noteq> [])"
proof (cases "d_container d = []")
  case False
  with assms show ?thesis by (auto simp: ensure_container_def attempting_def)
next
  case True
  obtain a w where a: "v_create v (d_account d) (d_staging_url d) (d_caption d) (''instagram-container:'' @ d_id d) (n_world s) = (a, w)" by fastforce
  have safe: "insta_safe v s" by (rule attempting_safe [OF att])
  show ?thesis
  proof (cases "\<exists>c. a = Inr c \<and> c \<noteq> []")
    case False
    with a True run safe show ?thesis by (auto simp: ensure_container_def split: sum.splits)
  next
    case c: True
    then obtain c where c: "a = Inr c" "c \<noteq> []" by blast
    define s1 where "s1 = s\<lparr>n_world := w, n_made := n_made s @ [\<lparr>cm_draft = d_id d, cm_account = d_account d, cm_caption = d_caption d, cm_container = c\<rparr>]\<rparr>"
    obtain x s2 where x: "on_store v (SaveContainer (d_id d) c) s1 = (x, s2)" by fastforce
    note saved = container_saved [OF att True c(2) x s1_def]
    have "ensure_container v d s = (case x of Inl e \<Rightarrow> (Inl e, s2) | Inr _ \<Rightarrow> (Inr (d\<lparr>d_container := c\<rparr>), s2))"
      unfolding ensure_container_def a c(1) prod.case sum.case Let_def s1_def [symmetric] x using True c(2) by simp
    with run saved c(2) show ?thesis by (auto split: sum.splits)
  qed
qed

lemma poll_container_ok:
  "attempting v d s \<Longrightarrow> attempting v d (snd (poll_container v n e s))"
  by (induction n arbitrary: s) (auto simp: case_prod_beta split: sum.split container_status.split option.split)

section \<open>Ending an attempt\<close>

text \<open>A row in progress has no publication that was noted.\<close>

lemma not_yet_noted:
  assumes "attempting v d s" and "k \<in> set (n_calls s)" and "pc_draft k = d_id d"
  shows "\<not> noted v k"
proof
  assume k: "noted v k"
  then obtain m where m: "pc_media k = Some m" by (auto simp: noted_def)
  then obtain e where e: "e \<in> set (drafts (n_db s))" "d_id e = d_id d" "d_state e = DPublished"
    using assms k by (fastforce simp: attempting_def insta_safe_def once_def published_as_def)
  obtain r where r: "agrees d r" "\<And>e. e \<in> set (drafts (n_db s)) \<Longrightarrow> d_id e = d_id d \<Longrightarrow> e = r" using attempting_row [OF assms(1)] by blast
  from r(2) [OF e(1,2)] e(3) r(1) show False by (simp add: agrees_def publishing_def)
qed

text \<open>The call of \<open>PublishContainer\<close>, with what it returned.\<close>

definition the_call :: "draft \<Rightarrow> time \<Rightarrow> string option \<Rightarrow> nat \<Rightarrow> publish_call" where
  "the_call d now m n = \<lparr>pc_draft = d_id d, pc_account = d_account d, pc_container = d_container d,
     pc_key = ''instagram-publish:'' @ d_id d, pc_at = now, pc_media = m, pc_noted = n\<rparr>"

lemma call_covered:
  assumes att: "attempting v d s" and d: "d_container d \<noteq> []" and got: "Get_draft (d_id d) (n_db s) = Inr e" "d_authorized_until e = Some t" "now < t"
  shows "covered v (n_grants s) (n_made s) (n_db s) (the_call d now m n)"
proof -
  obtain r where r: "r \<in> set (drafts (n_db s))" "agrees d r" "\<And>e. e \<in> set (drafts (n_db s)) \<Longrightarrow> d_id e = d_id d \<Longrightarrow> e = r"
    using attempting_row [OF att] by blast
  have "e = r" using r(3) Get_draftD [OF got(1)] by blast
  then have auth: "d_authorized_until r = Some t" using got(2) by simp
  have row: "row_ok v (n_grants s) (n_made s) r" using att r(1) by (simp add: attempting_def insta_safe_def)
  then obtain c where c: "(bindingFor r, c) \<in> set (n_grants s)" "receipt_fits v (bindingFor r) c" "c_expires c = t"
    using auth by (auto simp: row_ok_def)
  have same: "bindingFor r = bindingFor d" "d_container r = d_container d" using r(2) by (simp_all add: agrees_def)
  note id = bindingFor_eq [OF same(1)]
  have "container_of r \<in> set (n_made s)" using row d same by (simp add: row_ok_def)
  then show ?thesis unfolding covered_def
    by (intro bexI [OF _ r(1)] exI [of _ c]) (use c got(3) same id d in \<open>simp add: the_call_def\<close>)
qed

lemma call_added:
  assumes att: "attempting v d s" and d: "d_container d \<noteq> []" and got: "Get_draft (d_id d) (n_db s) = Inr e" "d_authorized_until e = Some t" "now < t"
    and s': "n_calls s' = n_calls s @ [the_call d now m n]" "n_grants s' = n_grants s" "n_made s' = n_made s"
    and db: "insta_inv (n_db s')" "evolves (n_db s) (n_db s')" "\<And>e. e \<in> set (drafts (n_db s')) \<Longrightarrow> row_ok v (n_grants s) (n_made s) e"
    and pub: "\<And>x. m = Some x \<Longrightarrow> v_fault v n = Runs \<Longrightarrow> published_as (n_db s') (d_id d) x"
  shows "insta_safe v s'"
proof -
  have safe: "insta_safe v s" by (rule attempting_safe [OF att])
  have "\<forall>k \<in> set (n_calls s'). covered v (n_grants s) (n_made s) (n_db s') k"
  proof
    fix k assume "k \<in> set (n_calls s')"
    then have "covered v (n_grants s) (n_made s) (n_db s) k" using safe call_covered [OF att d got, of m n] by (auto simp: s'(1) insta_safe_def)
    then show "covered v (n_grants s) (n_made s) (n_db s') k" by (rule evolves_covered [OF db(2)]) simp_all
  qed
  moreover have "sorted_wrt (\<lambda>k l. pc_draft k = pc_draft l \<longrightarrow> \<not> noted v k) (n_calls s')"
    using safe not_yet_noted [OF att] by (auto simp: s'(1) insta_safe_def once_def sorted_wrt_append the_call_def)
  moreover have "published_as (n_db s') (pc_draft k) x" if "k \<in> set (n_calls s')" "pc_media k = Some x" "noted v k" for k x
  proof (cases "k \<in> set (n_calls s)")
    case True
    then have "published_as (n_db s) (pc_draft k) x" using safe that by (simp add: insta_safe_def once_def)
    then show ?thesis by (rule evolves_published [OF db(2)])
  next
    case False
    then have "k = the_call d now m n" using that(1) by (simp add: s'(1))
    then show ?thesis using pub that(2,3) by (simp add: the_call_def noted_def)
  qed
  ultimately show ?thesis using db(1,3) by (simp add: insta_safe_def once_def s'(2,3))
qed

lemma publishing_unique:
  assumes "attempting v d s"
  shows "rows_affected (publishing (d_id d)) (drafts (n_db s)) = 1"
proof -
  obtain r where r: "r \<in> set (drafts (n_db s))" "agrees d r" using assms by (auto simp: attempting_def)
  have "distinct (map d_id (drafts (n_db s)))" using assms by (simp add: attempting_def insta_safe_def insta_inv_def)
  moreover have "publishing (d_id d) r" "d_id r = d_id d" using r(2) by (simp_all add: agrees_def publishing_def)
  ultimately show ?thesis using r(1) by (intro rows_affected_distinct [of d_id _ r]) (simp_all add: publishing_def)
qed

lemma note_ok:
  assumes att: "attempting v d s" and d: "d_container d \<noteq> []" and got: "Get_draft (d_id d) (n_db s) = Inr e" "d_authorized_until e = Some t" "now < t"
    and run: "on_store v (Complete_draft (d_id d) m) (s\<lparr>n_world := w, n_calls := n_calls s @ [the_call d now (Some m) (n_reads s)]\<rparr>) = (r, s')"
  shows "insta_safe v s'"
  using run
proof (cases rule: on_storeE)
  case (lost x)
  then show ?thesis
    by (intro call_added [OF att d got, of s' "Some m" "n_reads s"])
       (use att in \<open>auto simp: attempting_def insta_safe_def\<close>)
next
  case (runs db)
  let ?now = "v_clock v (n_reads s)"
  let ?f = "\<lambda>e. e\<lparr>d_state := DPublished, d_media := m, d_last_error := [], d_updated_at := ?now\<rparr>"
  have safe: "insta_safe v s" by (rule attempting_safe [OF att])
  have db: "drafts db = update_where (publishing (d_id d)) ?f (drafts (n_db s))"
    using runs(2) publishing_unique [OF att] by (auto simp: Complete_draft_def)
  have inv: "insta_inv db" using Complete_draft_inv [of "n_db s" "d_id d" m ?now] runs(2) safe by (simp add: insta_safe_def)
  have "insta_safe v (s\<lparr>n_db := db\<rparr>)"
    by (rule safe_quiet_update [OF safe, where p = "publishing (d_id d)" and f = ?f])
       (use inv db in \<open>simp_all add: content_kept_def bindingFor_def publishing_def\<close>)
  then have rows: "row_ok v (n_grants s) (n_made s) y" if "y \<in> set (drafts db)" for y using that by (simp add: insta_safe_def)
  have evolves: "evolves (n_db s) db" by (rule evolves_update [OF db]) (simp add: content_kept_def bindingFor_def publishing_def)
  obtain q where q: "q \<in> set (drafts (n_db s))" "publishing (d_id d) q" using att by (auto simp: attempting_def agrees_def)
  then have "?f q \<in> set (drafts db)" "d_id (?f q) = d_id d" by (auto simp: db set_update_where publishing_def)
  then have "published_as db (d_id d) m" unfolding published_as_def by (intro bexI [of _ "?f q"]) simp_all
  then show ?thesis using runs(3) inv rows evolves
    by (intro call_added [OF att d got, of s' "Some m" "n_reads s"]) simp_all
qed

lemma publish_container_ok:
  assumes att: "attempting v d s" and d: "d_container d \<noteq> []" and run: "publish_container v d s = (r, s')"
  shows "insta_safe v s'"
proof (cases "Get_draft (d_id d) (n_db s)")
  case (Inl e)
  with run att show ?thesis by (auto simp: publish_container_def attempting_def)
next
  case got: (Inr current)
  show ?thesis
  proof (cases "d_authorized_until current")
    case None
    with got run att show ?thesis by (auto simp: publish_container_def attempting_def)
  next
    case auth: (Some t)
    obtain now s1 where c: "clock v s = (now, s1)" by fastforce
    have s1: "s1 = s\<lparr>n_reads := Suc (n_reads s)\<rparr>" by (rule clock_is [OF c])
    have att1: "attempting v d s1" by (rule attempting_clock [OF att c])
    have got1: "Get_draft (d_id d) (n_db s1) = Inr current" using got by (simp add: s1)
    show ?thesis
    proof (cases "v_fault v (n_reads s) \<noteq> Dies \<and> now < t")
      case False
      then have "s' = s1" using got auth c run by (auto simp: publish_container_def split: if_splits)
      with att1 show ?thesis by (simp add: attempting_def)
    next
      case True
      obtain a w where a: "v_publish v (d_account d) (d_container d) (''instagram-publish:'' @ d_id d) (n_world s1) = (a, w)" by fastforce
      let ?s2 = "\<lambda>m. s1\<lparr>n_world := w, n_calls := n_calls s1 @ [the_call d now m (n_reads s1)]\<rparr>"
      have bad: "insta_safe v (?s2 None)"
        by (rule call_added [OF att1 d got1 auth, of now _ None "n_reads s1"]) (use True att1 in \<open>simp_all add: attempting_def insta_safe_def\<close>)
      have good: "insta_safe v s3" if "on_store v (Complete_draft (d_id d) m) (?s2 (Some m)) = (x, s3)" for m x s3
        by (rule note_ok [OF att1 d got1 auth _ that]) (use True in simp)
      have "publish_container v d s =
        (case a of Inl e \<Rightarrow> (Inl (CallFailed e), ?s2 None)
         | Inr m \<Rightarrow> if m = [] then (Inl ContainerFailed, ?s2 None)
                     else (case on_store v (Complete_draft (d_id d) m) (?s2 (Some m)) of (Inl e, s3) \<Rightarrow> (Inl e, s3) | (Inr _, s3) \<Rightarrow> (Inr m, s3)))"
        unfolding publish_container_def got auth c a prod.case sum.case option.case Let_def the_call_def using True by (simp split: sum.split)
      with run bad show ?thesis by (auto split: sum.splits if_splits prod.splits intro: good)
    qed
  qed
qed

lemma attempt_publish_ok:
  assumes att: "attempting v d s" and run: "attempt_publish v d s = (r, s')"
  shows "insta_safe v s'"
proof -
  obtain r1 s1 where e1: "ensure_staged v d s = (r1, s1)" by fastforce
  note ok1 = ensure_staged_ok [OF att e1]
  show ?thesis
  proof (cases r1)
    case (Inl e)
    with e1 run ok1 show ?thesis by (auto simp: attempt_publish_def attempting_def)
  next
    case r1: (Inr d1)
    obtain r2 s2 where e2: "ensure_container v d1 s1 = (r2, s2)" by fastforce
    have att1: "attempting v d1 s1" using ok1 r1 by blast
    note ok2 = ensure_container_ok [OF att1 e2]
    show ?thesis
    proof (cases r2)
      case (Inl e)
      with e1 r1 e2 run ok2 show ?thesis by (auto simp: attempt_publish_def)
    next
      case r2: (Inr d2)
      have att2: "attempting v d2 s2" "d_container d2 \<noteq> []" using ok2 r2 by blast+
      obtain r3 s3 where e3: "poll_container v (nat (v_max_polls v)) d2 s2 = (r3, s3)" by fastforce
      have att3: "attempting v d2 s3" using poll_container_ok [OF att2(1), of "nat (v_max_polls v)" d2] by (simp add: e3)
      obtain r4 s4 where e4: "publish_container v d2 s3 = (r4, s4)" by fastforce
      have "insta_safe v s4" by (rule publish_container_ok [OF att3 att2(2) e4])
      with run att3 show ?thesis
        by (auto simp: attempt_publish_def e1 r1 e2 r2 e3 e4 attempting_def split: sum.splits)
    qed
  qed
qed

lemma fail_ok:
  assumes "insta_safe v s" and "on_store v (Fail_draft i c) s = (r, s')"
  shows "insta_safe v s'"
proof (rule write_safe [OF assms])
  fix now r db assume run: "Fail_draft i c now (n_db s) = (r, db)"
  show "insta_safe v (s\<lparr>n_db := db\<rparr>)"
  proof (cases "select_one (publishing i) (drafts (n_db s))")
    case None
    with run have "db = n_db s" by (simp add: Fail_draft_def)
    with assms(1) show ?thesis by simp
  next
    case (Some q)
    have inv: "insta_inv db" using Fail_draft_inv [of "n_db s" i c now] run assms(1) by (simp add: insta_safe_def)
    show ?thesis
      by (rule safe_quiet_update [OF assms(1), where p = "publishing i"
            and f = "\<lambda>d. d\<lparr>d_state := DFailed, d_available_at := now + publish_delay (d_attempts q), d_last_error := safeError c, d_updated_at := now\<rparr>"])
         (use inv run Some in \<open>auto simp: Fail_draft_def content_kept_def bindingFor_def publishing_def\<close>)
  qed
qed

lemma abandon_ok: "insta_safe v s \<Longrightarrow> insta_safe v (abandon v d e s)"
  by (auto simp: abandon_def split: prod.split dest: fail_ok)

lemma clear_staging_ok:
  assumes "insta_safe v s" and "on_store v (clear_staging i) s = (r, s')"
  shows "insta_safe v s'"
proof (rule write_safe [OF assms])
  fix now r db assume run: "clear_staging i now (n_db s) = (r, db)"
  have inv: "insta_inv db" using ClearStaging_inv [of "n_db s" i now] run assms(1) by (simp add: insta_safe_def clear_staging_def)
  show "insta_safe v (s\<lparr>n_db := db\<rparr>)"
    by (rule safe_quiet_update [OF assms(1), where p = "\<lambda>d. d_id d = i"
          and f = "\<lambda>d. d\<lparr>d_staging_id := [], d_staging_url := [], d_staging_expires := None, d_updated_at := now\<rparr>"])
       (use inv run in \<open>auto simp: clear_staging_def ClearStaging_def content_kept_def bindingFor_def\<close>)
qed

section \<open>Whole operations\<close>

lemma record_ok: "insta_safe v s \<Longrightarrow> record_insta v k r d s = (x, s') \<Longrightarrow> insta_safe v s'"
  using record_safe [of v k r d s] by simp

lemma finish_publish_ok:
  assumes safe: "insta_safe v s" and run: "finish_publish v d m s = (r, s')"
  shows "insta_safe v s'"
proof -
  obtain c s1 where c: "cleanup_staged v d s = (c, s1)" by fastforce
  then have "insta_safe v s1" using safe
    by (auto simp: cleanup_staged_def split: prod.splits option.splits dest: clear_staging_ok [rotated] record_ok [rotated])
  with run c show ?thesis by (auto simp: finish_publish_def split: if_splits prod.splits sum.splits dest: record_ok)
qed

lemma claim_ok:
  assumes safe: "insta_safe v s" and run: "on_store v (Claim_draft i) s = (r, s')"
    and open_d: "Get_draft i (n_db s) = Inr d0" "d_state d0 \<noteq> DPublished"
  shows "insta_safe v s' \<and> (\<forall>d. r = Inr d \<longrightarrow> attempting v d s')"
  using run
proof (cases rule: on_storeE)
  case (lost e)
  with safe show ?thesis by simp
next
  case (runs db)
  let ?now = "v_clock v (n_reads s)"
  have inv: "insta_inv (n_db s)" using safe by (simp add: insta_safe_def)
  show ?thesis
  proof (cases r)
    case (Inl e)
    with runs have "db = n_db s" using Claim_draft_Inl by blast
    with safe Inl runs(3) show ?thesis using insta_safe_cong [of s' s v] by simp
  next
    case (Inr d)
    have inv': "insta_inv db" using Claim_draft_inv [OF inv, of i ?now] runs(2) by simp
    from runs(2) [unfolded Inr] show ?thesis
    proof (cases rule: Claim_draftE)
      case published
      with open_d show ?thesis by simp
    next
      case (started d1 t)
      let ?f = "\<lambda>r. r\<lparr>d_state := DPublishing, d_attempts := d_attempts r + 1, d_updated_at := ?now\<rparr>"
      have d1: "d1 \<in> set (drafts (n_db s))" "d_id d1 = i" using Get_draftD [OF started(1)] by simp_all
      have "insta_safe v s'"
        by (rule safe_quiet_update [OF safe _ _ _ , where p = "\<lambda>r. d_id r = i \<and> open_draft r" and f = ?f])
           (use inv' started(9) in \<open>auto simp: runs(3) content_kept_def bindingFor_def open_draft_def\<close>)
      moreover have "?f d1 \<in> set (drafts db)" using d1 started(2) by (auto simp: started(9) set_update_where)
      moreover have "agrees d (?f d1)" using started(8) by (simp add: agrees_def publishing_def bindingFor_def)
      ultimately show ?thesis using Inr unfolding attempting_def by (simp add: runs(3)) blast
    qed
  qed
qed

lemma Resume_ok:
  assumes safe: "insta_safe v s" and run: "Resume v i s = (r, s')"
  shows "insta_safe v s'"
proof (cases "\<exists>d. validateDependencies v \<and> Get_draft i (n_db s) = Inr d \<and> d_state d \<noteq> DPublished")
  case False
  with run safe show ?thesis by (auto simp: Resume_def split: if_splits sum.splits)
next
  case True
  then obtain d0 where got: "validateDependencies v" "Get_draft i (n_db s) = Inr d0" "d_state d0 \<noteq> DPublished" by blast
  obtain c s1 where cl: "on_store v (Claim_draft i) s = (c, s1)" by fastforce
  note claimed = claim_ok [OF safe cl got(2,3)]
  show ?thesis
  proof (cases c)
    case (Inl e)
    with cl claimed got run show ?thesis by (auto simp: Resume_def)
  next
    case c: (Inr d1)
    obtain a s2 where at: "attempt_publish v d1 s1 = (a, s2)" by fastforce
    have safe2: "insta_safe v s2" using attempt_publish_ok [OF _ at] claimed c by blast
    show ?thesis
    proof (cases a)
      case (Inl e)
      then show ?thesis using run got cl c at safe2 abandon_ok [OF safe2] by (auto simp: Resume_def)
    next
      case (Inr p)
      then obtain d2 m where p: "a = Inr (d2, m)" by (cases p) simp
      then have "finish_publish v d2 m s2 = (r, s')" using run got cl c at by (simp add: Resume_def)
      with finish_publish_ok [OF safe2] show ?thesis by blast
    qed
  qed
qed

text \<open>A new draft carries no authorization and no container.\<close>

lemma Create_draft_drafts:
  assumes "Create_draft q a c now db = (r, db')"
  shows "drafts db' = drafts db \<or> drafts db' = drafts db @ [new_draft q a c now]"
  using assms by (auto simp: Create_draft_def Let_def split: sum.splits insta_error.splits if_splits)

lemma create_ok:
  assumes safe: "insta_safe v s" and run: "on_store v (Create_draft q a c) s = (r, s')"
  shows "insta_safe v s'"
proof (rule write_safe [OF assms])
  fix now r db assume run: "Create_draft q a c now (n_db s) = (r, db)"
  note grow = Create_draft_drafts [OF run]
  show "insta_safe v (s\<lparr>n_db := db\<rparr>)"
  proof (rule safe_change [OF safe])
    show "insta_inv (n_db (s\<lparr>n_db := db\<rparr>))" using Create_draft_inv [of "n_db s" q a c now] safe run by (simp add: insta_safe_def)
    show "evolves (n_db s) (n_db (s\<lparr>n_db := db\<rparr>))" unfolding evolves_def
    proof
      fix d assume "d \<in> set (drafts (n_db s))"
      then have "d \<in> set (drafts db)" using grow by auto
      then show "\<exists>e \<in> set (drafts (n_db (s\<lparr>n_db := db\<rparr>))). content_kept d e" by (auto intro: bexI [of _ d])
    qed
    have "row_ok v gs ms (new_draft q a c now)" for gs ms by (simp add: row_ok_def new_draft_def)
    then show "row_ok v (n_grants (s\<lparr>n_db := db\<rparr>)) (n_made (s\<lparr>n_db := db\<rparr>)) d" if "d \<in> set (drafts (n_db (s\<lparr>n_db := db\<rparr>)))" for d
      using that grow safe by (auto simp: insta_safe_def)
  qed simp_all
qed

lemma Prepare_ok:
  assumes safe: "insta_safe v s" and run: "Prepare v q s = (r, s')"
  shows "insta_safe v s'"
proof -
  obtain now s1 where c: "clock v s = (now, s1)" by fastforce
  have safe1: "insta_safe v s1" using clock_safe [OF c] safe by simp
  show ?thesis using run safe safe1
    by (auto simp: Prepare_def c Let_def split: if_splits sum.splits prod.splits bool.splits dest: create_ok [OF safe1] record_ok [OF create_ok [OF safe1]])
qed

lemma grant_ok:
  assumes safe: "insta_safe v s" and got: "Get_draft (b_draft b) (n_db s) = Inr d" and b: "b = bindingFor d"
    and fits: "c_user c = v_owner v" "c_tool c = ''instagram.publish''" "c_resource c = d_account d" "c_args_hash c = binding_hash b"
    and run: "on_store v (MarkAuthorized (d_id d) (c_expires c)) (s\<lparr>n_grants := n_grants s @ [(b, c)]\<rparr>) = (r, s')"
  shows "insta_safe v s'"
proof -
  have inv: "insta_inv (n_db s)" using safe by (simp add: insta_safe_def)
  have d: "d \<in> set (drafts (n_db s))" using Get_draftD [OF got] by simp
  have safe1: "insta_safe v (s\<lparr>n_grants := n_grants s @ [(b, c)]\<rparr>)"
    by (rule safe_change [OF safe]) (use safe row_ok_more [of v "n_grants s" "n_made s" _ "n_grants s @ [(b, c)]" "n_made s"] in \<open>auto simp: insta_safe_def\<close>)
  from run show ?thesis
  proof (cases rule: on_storeE)
    case (lost e)
    with safe1 show ?thesis by simp
  next
    case (runs db)
    let ?now = "v_clock v (n_reads s)" and ?p = "\<lambda>e. d_id e = d_id d \<and> open_draft e"
    let ?f = "\<lambda>e. e\<lparr>d_authorized_until := Some (c_expires c), d_updated_at := ?now\<rparr>"
    have db: "drafts db = update_where ?p ?f (drafts (n_db s))"
      using runs(2) by (auto simp: MarkAuthorized_def Let_def split: if_splits)
    have inv': "insta_inv db" using MarkAuthorized_inv [OF inv, of "d_id d" "c_expires c" ?now] runs(2) by simp
    have new: "(bindingFor d, c) \<in> set (n_grants s') \<and> receipt_fits v (bindingFor d) c"
      using fits by (simp add: runs(3) receipt_fits_def b bindingFor_def)
    show ?thesis
    proof (rule safe_update [OF safe, where p = ?p and f = ?f])
      fix e assume e: "e \<in> set (drafts (n_db s))" "?p e"
      then have "e = d" using same_draft [OF inv, of e d] d by simp
      then show "content_kept e (?f e)" by (simp add: content_kept_def bindingFor_def)
      assume "row_ok v (n_grants s) (n_made s) e"
      then show "row_ok v (n_grants s') (n_made s') (?f e)" using new \<open>e = d\<close>
        by (auto simp: row_ok_def bindingFor_def container_of_def runs(3))
    qed (use inv' db in \<open>auto simp: runs(3)\<close>)
  qed
qed

lemma PublishApproved_ok:
  assumes safe: "insta_safe v s" and run: "PublishApproved v b c s = (r, s')"
  shows "insta_safe v s'"
proof (cases "Get_draft (b_draft b) (n_db s)")
  case (Inl e)
  with run safe show ?thesis by (auto simp: PublishApproved_def split: if_splits)
next
  case got: (Inr d)
  obtain now s1 where k: "clock v s = (now, s1)" by fastforce
  have safe1: "insta_safe v s1" "n_db s1 = n_db s" using clock_safe [OF k] safe by simp_all
  show ?thesis
  proof (cases "validateDependencies v \<and> b = bindingFor d \<and> c_user c = v_owner v \<and> c_tool c = ''instagram.publish''
      \<and> c_resource c = d_account d \<and> c_args_hash c = binding_hash b \<and> now < c_expires c")
    case False
    with run got k safe1 safe show ?thesis by (auto simp: PublishApproved_def split: if_splits)
  next
    case fits: True
    obtain x s2 where m: "on_store v (MarkAuthorized (d_id d) (c_expires c)) (s1\<lparr>n_grants := n_grants s1 @ [(b, c)]\<rparr>) = (x, s2)"
      by fastforce
    have safe2: "insta_safe v s2" using grant_ok [OF safe1(1) _ _ _ _ _ _ m] got fits safe1(2) by simp
    obtain y s3 where l: "record_insta v ''instagram_publish_approval'' (d_account d) ''authorized'' s2 = (y, s3)" by fastforce
    have safe3: "insta_safe v s3" by (rule record_ok [OF safe2 l])
    show ?thesis using run got fits k m l safe2 safe3 Resume_ok [OF safe3]
      by (auto simp: PublishApproved_def split: sum.splits)
  qed
qed

lemma PublishWithToken_ok:
  assumes safe: "insta_safe v s" and run: "PublishWithToken v i u tok s = (r, s')"
  shows "insta_safe v s'"
proof (cases "\<exists>d. v_approvals v \<and> Get_draft i (n_db s) = Inr d")
  case False
  with run safe show ?thesis by (auto simp: PublishWithToken_def split: if_splits sum.splits)
next
  case True
  then obtain d where got: "v_approvals v" "Get_draft i (n_db s) = Inr d" by blast
  obtain now s1 where k1: "clock v s = (now, s1)" by fastforce
  obtain used s2 where k2: "clock v s1 = (used, s2)" by fastforce
  obtain x a where ar: "AuthorizeReceipt tok u ''instagram.publish'' (binding_hash (bindingFor d)) (d_account d) now used (n_appr s2) = (x, a)"
    by fastforce
  have "insta_safe v (s2\<lparr>n_appr := a\<rparr>)" using safe clock_safe [OF k1] clock_safe [OF k2] by simp
  with run got k1 k2 ar PublishApproved_ok [of v "s2\<lparr>n_appr := a\<rparr>"] show ?thesis
    by (auto simp: PublishWithToken_def split: sum.splits)
qed

lemma RequestApproval_ok:
  assumes "insta_safe v s" and "RequestApproval v bytes i u ttl s = (r, s')"
  shows "insta_safe v s'"
  using assms insta_safe_cong [of s' s v] by (auto simp: RequestApproval_def clock_def case_prod_beta split: if_splits sum.splits)

lemma Recover_insta_ok:
  assumes safe: "insta_safe v s" and run: "Recover_insta v s = (r, s')"
  shows "insta_safe v s'"
proof (rule write_safe [OF safe run [unfolded Recover_insta_def]])
  fix now r db assume run: "recover_all now (n_db s) = (r, db)"
  then have db: "db = snd (Recover_drafts now (n_db s))" by (auto simp: recover_all_def split: prod.splits)
  have inv: "insta_inv db" using Recover_drafts_inv [of "n_db s" now] safe by (simp add: db insta_safe_def)
  show "insta_safe v (s\<lparr>n_db := db\<rparr>)"
    by (rule safe_quiet_update [OF safe, where p = "\<lambda>d. d_state d = DPublishing"
          and f = "\<lambda>d. d\<lparr>d_state := DFailed, d_available_at := now, d_last_error := ''recovered interrupted publish'', d_updated_at := now\<rparr>"])
       (use inv in \<open>auto simp: db Recover_drafts_def Let_def content_kept_def bindingFor_def\<close>)
qed

lemma cleanup_all_ok: "insta_safe v s \<Longrightarrow> insta_safe v (snd (cleanup_all v ds s))"
proof (induction ds arbitrary: s)
  case (Cons d ds)
  obtain e w where e: "v_cleanup v (d_staging_id d) (n_world s) = (e, w)" by fastforce
  obtain r s1 where r: "on_store v (clear_staging (d_id d)) (s\<lparr>n_world := w\<rparr>) = (r, s1)" by fastforce
  have "insta_safe v s1" using clear_staging_ok [OF _ r] Cons.prems by simp
  with Cons show ?case by (auto simp: e r split: option.split sum.split)
qed simp

lemma CleanupExpired_ok:
  assumes "insta_safe v s" and "CleanupExpired v s = (r, s')"
  shows "insta_safe v s'"
proof -
  obtain x s1 where x: "on_store v (\<lambda>now db. (ExpiredStaging now db, db)) s = (x, s1)" by fastforce
  have "insta_safe v s1" by (rule write_safe [OF assms(1) x]) (use assms(1) in simp)
  then show ?thesis using cleanup_all_ok [of v s1] assms(2) by (auto simp: CleanupExpired_def x split: sum.splits) (metis snd_conv)
qed

section \<open>Sequences of operations\<close>

datatype insta_op =
    IPrepare prepare_request | IAsk string string int duration | IResolve string int string time time time
  | IToken string int string | IApproved publish_binding receipt | IResume string | IRecover | ICleanup

fun insta_step :: "'w publish_service \<Rightarrow> insta_op \<Rightarrow> 'w insta_state \<Rightarrow> 'w insta_state" where
  "insta_step v (IPrepare q) s = snd (Prepare v q s)"
| "insta_step v (IAsk b i u ttl) s = snd (RequestApproval v b i u ttl s)"
| "insta_step v (IResolve tok u d n1 n2 n3) s = s\<lparr>n_appr := snd (ResolveToken tok u d n1 n2 n3 (n_appr s))\<rparr>"
| "insta_step v (IToken i u tok) s = snd (PublishWithToken v i u tok s)"
| "insta_step v (IApproved b c) s = snd (PublishApproved v b c s)"
| "insta_step v (IResume i) s = snd (Resume v i s)"
| "insta_step v IRecover s = snd (Recover_insta v s)"
| "insta_step v ICleanup s = snd (CleanupExpired v s)"

lemma insta_step_safe:
  assumes "insta_safe v s"
  shows "insta_safe v (insta_step v op s)"
  using Prepare_ok [OF assms surjective_pairing] RequestApproval_ok [OF assms surjective_pairing]
    PublishWithToken_ok [OF assms surjective_pairing] PublishApproved_ok [OF assms surjective_pairing]
    Resume_ok [OF assms surjective_pairing] Recover_insta_ok [OF assms surjective_pairing] CleanupExpired_ok [OF assms surjective_pairing] assms
  by (cases op) simp_all

interpretation publishing: machine "insta_step v" "insta_safe v" for v
  by unfold_locales (rule insta_step_safe)

definition insta_run :: "'w publish_service \<Rightarrow> insta_op list \<Rightarrow> 'w insta_state \<Rightarrow> 'w insta_state" where
  "insta_run v es s = fold (insta_step v) es s"

text \<open>A service that starts: no drafts, no calls, any artifacts and any approvals.\<close>

definition insta_start :: "'w insta_state \<Rightarrow> bool" where
  "insta_start s \<longleftrightarrow> n_db s = no_drafts \<and> n_made s = [] \<and> n_calls s = [] \<and> n_grants s = []"

lemma insta_run_safe: "insta_start s \<Longrightarrow> insta_safe v (insta_run v es s)"
  unfolding insta_run_def
  by (rule publishing.run_keeps) (simp add: insta_start_def insta_safe_def once_def no_drafts_def insta_inv_def)

text \<open>
  C3: Over any sequence of operations, whatever writes fail and wherever the process dies, every call that publishes
  was covered: it sent the account and the container of a draft in the table, a container that had been made with the
  account and caption of this draft; and a receipt for \<open>instagram.publish\<close>, of the owner, for this account, whose hash is
  that of the binding of this draft (its id, account, image, caption and time) had been accepted and had not expired.
\<close>

theorem publish_needs_receipt:
  assumes "insta_start s" and "k \<in> set (n_calls (insta_run v es s))"
  shows "\<exists>d \<in> set (drafts (n_db (insta_run v es s))). \<exists>c.
    pc_draft k = d_id d \<and> pc_account k = d_account d \<and> pc_container k = d_container d
    \<and> \<lparr>cm_draft = d_id d, cm_account = d_account d, cm_caption = d_caption d, cm_container = d_container d\<rparr> \<in> set (n_made (insta_run v es s))
    \<and> (bindingFor d, c) \<in> set (n_grants (insta_run v es s)) \<and> c_user c = v_owner v
    \<and> c_tool c = ''instagram.publish'' \<and> c_resource c = d_account d
    \<and> c_args_hash c = sha256_hex (canonicalBinding (bindingFor d)) \<and> pc_at k < c_expires c"
proof -
  have "covered v (n_grants (insta_run v es s)) (n_made (insta_run v es s)) (n_db (insta_run v es s)) k"
    using insta_run_safe [OF assms(1), of v es] assms(2) by (simp add: insta_safe_def)
  then show ?thesis unfolding covered_def receipt_fits_def binding_hash_def container_of_def by (fastforce simp: bindingFor_def)
qed


text \<open>
  No draft has more attempts than it may, and identifiers and creation keys are unique; after a recovery that is
  written none is in progress.
\<close>

theorem drafts_well_formed:
  assumes "insta_start s"
  shows "(\<forall>d \<in> set (drafts (n_db (insta_run v es s))).
       0 \<le> d_attempts d \<and> d_attempts d \<le> d_max_attempts d \<and> d_max_attempts d \<le> 10)
    \<and> distinct (map d_id (drafts (n_db (insta_run v es s)))) \<and> distinct (map d_creation_key (drafts (n_db (insta_run v es s))))"
  using insta_run_safe [OF assms, of v es]
  by (simp add: insta_safe_def insta_inv_def draft_ok_def)

lemma recovered_settled: "Recover_insta v s = (Inr n, s') \<Longrightarrow> d \<in> set (drafts (n_db s')) \<Longrightarrow> d_state d \<noteq> DPublishing"
  unfolding Recover_insta_def
  by (erule on_storeE) (auto simp: recover_all_def Recover_drafts_def Let_def elim!: update_whereE)

end
