(* ===== verification/InstaDemo.thy ===== *)
theory InstaDemo
  imports InstaProofs
begin

text \<open>
  A draft taken from \<open>Prepare\<close> through an accepted receipt to its publication, with the properties of
  \<open>InstaProofs\<close> applied to that run.
\<close>

section \<open>A draft that is published\<close>

definition demo_publisher :: "unit publish_service" where
  "demo_publisher = \<lparr>v_create = \<lambda>_ _ _ _ w. (Inr ''c1'', w), v_status = \<lambda>_ w. (Inr Finished, w),
     v_publish = \<lambda>_ _ _ w. (Inr ''m1'', w), v_stage = \<lambda>_ _ _ t w. (Inr \<lparr>sm_id = ''s1'', sm_url = ''u'', sm_expires = t\<rparr>, w),
     v_cleanup = \<lambda>_ w. (None, w), v_sleep = \<lambda>_ w. (None, w),
     v_url = \<lambda>_. Some \<lparr>url_scheme = ''https'', url_hostname = ''h'', url_user = False, url_fragment = []\<rparr>,
     v_clock = \<lambda>_. hour, v_fault = \<lambda>_. Runs, v_wired = True, v_approvals = True, v_audited = False, v_owner = 7,
     v_poll_interval = second, v_max_polls = 3\<rparr>"

definition demo_asset :: string where "demo_asset = sha256_hex demo_png"

definition demo_prepare :: prepare_request where
  "demo_prepare = \<lparr>p_account = ''17'', p_artifact = demo_asset, p_caption = ''a cat'', p_publish_at = hour,
     p_creation_key = ''k'', p_max_attempts = 3\<rparr>"

definition demo_insta :: "unit insta_state" where
  "demo_insta = \<lparr>n_db = no_drafts, n_appr = no_approvals, n_files = [demo_asset @ ''.png'' \<mapsto> RegularFile demo_png],
     n_world = (), n_reads = 0, n_made = [], n_calls = [], n_grants = []\<rparr>"

definition demo_draft :: draft where
  "demo_draft = new_draft demo_prepare demo_asset (hashString ''a cat'') hour"

definition demo_receipt_for :: "draft \<Rightarrow> receipt" where
  "demo_receipt_for d = \<lparr>c_id = ''r'', c_user = 7, c_tool = ''instagram.publish'', c_args_hash = binding_hash (bindingFor d),
     c_resource = d_account d, c_expires = 2 * hour\<rparr>"

lemma demo_insta_start: "insta_start demo_insta"
  by (simp add: insta_start_def demo_insta_def)

lemma demo_read: "Read_image (n_files demo_insta) demo_asset
    = Inr \<lparr>rf_id = demo_asset, rf_mime = ''image/png'', rf_sha256 = demo_asset, rf_data = demo_png\<rparr>"
  by (simp add: demo_insta_def demo_asset_def Read_image_def equalHash_def)
     (simp add: demo_png_def max_artifact_bytes_def detect_type_def starts_with_def)

lemma demo_hour: "parse_stored hour = Some hour" "parse_stored (2 * hour) = Some (2 * hour)" "\<not> IsZero hour"
  by (simp_all add: parse_stored_def in_range_def units IsZero_def max_seconds_def)

definition demo_insta1 :: "unit insta_state" where
  "demo_insta1 = demo_insta\<lparr>n_reads := 2, n_db := \<lparr>drafts = [demo_draft],
     events = [\<lparr>e_draft = d_id demo_draft, e_kind = ''prepared'', e_ref = [], e_detail = []\<rparr>]\<rparr>\<rparr>"

lemma demo_wired: "validateDependencies demo_publisher"
  by (simp add: validateDependencies_def demo_publisher_def units)

lemma demo_store: "on_store demo_publisher f s = (fst (f hour (n_db s)), s\<lparr>n_reads := Suc (n_reads s), n_db := snd (f hour (n_db s))\<rparr>)"
  using on_store_runs [of demo_publisher s f] by (simp add: demo_publisher_def)

lemma demo_created:
  "on_store demo_publisher (Create_draft demo_prepare demo_asset (hashString ''a cat'')) (demo_insta\<lparr>n_reads := Suc 0\<rparr>)
     = (Inr (demo_draft, True), demo_insta1)"
proof -
  have "v_clock demo_publisher n = hour" for n by (simp add: demo_publisher_def)
  moreover have "scan_where p no_drafts = Inl NoDraft" for p by (simp add: scan_where_def select_one_def no_drafts_def)
  moreover have "p_max_attempts demo_prepare = 3" by (simp add: demo_prepare_def)
  ultimately show ?thesis
    by (simp add: demo_store demo_insta1_def demo_draft_def demo_insta_def Create_draft_def Let_def insertEvent_def new_draft_def)
       (simp add: no_drafts_def)
qed

lemma demo_prepared: "Prepare demo_publisher demo_prepare demo_insta = (Inr demo_draft, demo_insta1)"
proof -
  have "prepare_ok demo_prepare hour"
    by (simp add: prepare_ok_def demo_prepare_def account_ok_def demo_asset_def demo_prompt demo_hour is_digit_def has_nul_def)
       (simp add: units rune_count_le [THEN le_trans])
  moreover have "p_artifact demo_prepare = demo_asset" "default_attempts demo_prepare = demo_prepare" "p_caption demo_prepare = ''a cat''"
    by (simp_all add: demo_prepare_def default_attempts_def)
  moreover have "clock demo_publisher demo_insta = (hour, demo_insta\<lparr>n_reads := Suc 0\<rparr>)"
    by (simp add: clock_def demo_publisher_def demo_insta_def)
  moreover have "record_insta demo_publisher k r d s = (Inr (), s)" for k r d s
    by (simp add: record_insta_def demo_publisher_def)
  moreover have "n_files (demo_insta\<lparr>n_reads := Suc 0\<rparr>) = n_files demo_insta" by simp
  ultimately show ?thesis by (simp add: Prepare_def demo_wired demo_read demo_created del: insta_state.simps)
qed

text \<open>The published state, reached with the receipt.\<close>

lemma demo_got: "Get_draft (d_id demo_draft) (n_db demo_insta1) = Inr demo_draft"
  by (simp add: Get_draft_def scan_where_def demo_insta1_def demo_insta_def select_one_def scanDraft_def)
     (simp add: demo_draft_def new_draft_def demo_prepare_def demo_hour stored_ok_def)

lemma demo_authorized:
  "on_store demo_publisher (MarkAuthorized (d_id demo_draft) (2 * hour)) (demo_insta1\<lparr>n_reads := 3, n_grants := g\<rparr>)
     = (Inr (), demo_insta1\<lparr>n_reads := 4, n_grants := g,
          n_db := (n_db demo_insta1)\<lparr>drafts := [demo_draft\<lparr>d_authorized_until := Some (2 * hour), d_updated_at := hour\<rparr>]\<rparr>\<rparr>)"
  by (simp add: demo_store MarkAuthorized_def Let_def demo_insta1_def demo_insta_def update_where_def rows_affected_def
      open_draft_def demo_draft_def new_draft_def)

text \<open>The attempt, step by step; only the drafts of the states matter.\<close>

definition demo_authorized_draft :: draft where
  "demo_authorized_draft = demo_draft\<lparr>d_authorized_until := Some (2 * hour), d_updated_at := hour\<rparr>"

lemmas demo_fields = demo_authorized_draft_def demo_draft_def new_draft_def demo_prepare_def

lemma demo_claimed:
  assumes "drafts db = [demo_authorized_draft]"
  shows "\<exists>db'. Claim_draft (d_id demo_draft) hour db
    = (Inr (demo_authorized_draft\<lparr>d_state := DPublishing, d_attempts := 1, d_updated_at := hour\<rparr>), db')
    \<and> drafts db' = [demo_authorized_draft\<lparr>d_state := DPublishing, d_attempts := 1, d_updated_at := hour\<rparr>]"
proof -
  have "Get_draft (d_id demo_draft) db = Inr demo_authorized_draft"
    by (simp add: Get_draft_def scan_where_def assms select_one_def scanDraft_def)
       (simp add: demo_fields demo_hour stored_ok_def)
  then show ?thesis
    by (simp add: Claim_draft_def Let_def assms rows_affected_def update_where_def insertEvent_def open_draft_def demo_fields units)
qed

definition demo_call :: publish_call where
  "demo_call = \<lparr>pc_draft = d_id demo_draft, pc_account = ''17'', pc_container = ''c1'', pc_key = ''instagram-publish:'' @ d_id demo_draft,
     pc_at = hour, pc_media = Some ''m1'', pc_noted = 10\<rparr>"

lemma demo_attempt:
  assumes "drafts (n_db s) = [demo_authorized_draft\<lparr>d_state := DPublishing, d_attempts := 1, d_updated_at := hour\<rparr>]"
    and "n_files s = n_files demo_insta" and "n_calls s = []" and "n_reads s = 5"
  shows "\<exists>d s'. attempt_publish demo_publisher (demo_authorized_draft\<lparr>d_state := DPublishing, d_attempts := 1, d_updated_at := hour\<rparr>) s
    = (Inr (d, ''m1''), s') \<and> n_calls s' = [demo_call]"
proof -
  have v: "v_clock demo_publisher n = hour" "v_create demo_publisher a u c k w = (Inr ''c1'', w)"
    "v_status demo_publisher c w = (Inr Finished, w)" "v_publish demo_publisher a c k w = (Inr ''m1'', w)"
    "v_stage demo_publisher a m k t w = (Inr \<lparr>sm_id = ''s1'', sm_url = ''u'', sm_expires = t\<rparr>, w)"
    "v_max_polls demo_publisher = 3" "v_fault demo_publisher n = Runs" for n and a u c k m :: string and w t by (simp_all add: demo_publisher_def)
  have staged_ok: "validStagedMedia demo_publisher \<lparr>sm_id = ''s1'', sm_url = ''u'', sm_expires = 2 * hour\<rparr> hour"
    by (simp add: validStagedMedia_def demo_publisher_def units)
  have poll: "poll_container demo_publisher 3 d s = (Inr (), s\<lparr>n_world := n_world s\<rparr>)" for d s
    by (simp add: numeral_3_eq_3 v)
  have art: "d_artifact demo_authorized_draft = demo_asset" "d_staging_id demo_authorized_draft = []"
    "d_container demo_authorized_draft = []" "d_account demo_authorized_draft = ''17''" "d_id demo_authorized_draft = d_id demo_draft"
    "d_authorized_until demo_authorized_draft = Some (2 * hour)" "d_publish_at demo_authorized_draft = hour"
    "d_available_at demo_authorized_draft = hour" "d_created_at demo_authorized_draft = hour"
    by (simp_all add: demo_fields)
  have early: "hour < 2 * hour" by (simp add: units)
  show ?thesis using assms
    by (simp add: attempt_publish_def demo_call_def ensure_staged_def stage_media_def demo_read art v clock_def demo_store staged_ok
        SaveStaging_def SaveContainer_def commit_event_def insertEvent_def update_where_def publishing_def
        ensure_container_def poll publish_container_def early demo_hour stored_ok_def Complete_draft_def rows_affected_def Get_draft_def scan_where_def select_one_def scanDraft_def)
qed

lemma demo_published:
  "[demo_call] = n_calls (insta_run demo_publisher [IPrepare demo_prepare, IApproved (bindingFor demo_draft) (demo_receipt_for demo_draft)] demo_insta)"
proof -
  define g where "g = [(bindingFor demo_draft, demo_receipt_for demo_draft)]"
  define s2 where "s2 = demo_insta1\<lparr>n_reads := 4, n_grants := g,
      n_db := (n_db demo_insta1)\<lparr>drafts := [demo_authorized_draft]\<rparr>\<rparr>"
  obtain db' where cl: "Claim_draft (d_id demo_draft) hour (n_db s2)
      = (Inr (demo_authorized_draft\<lparr>d_state := DPublishing, d_attempts := 1, d_updated_at := hour\<rparr>), db')"
    and db': "drafts db' = [demo_authorized_draft\<lparr>d_state := DPublishing, d_attempts := 1, d_updated_at := hour\<rparr>]"
    using demo_claimed [of "n_db s2"] by (auto simp: s2_def)
  define s3 where "s3 = s2\<lparr>n_reads := 5, n_db := db'\<rparr>"
  have claim: "on_store demo_publisher (Claim_draft (d_id demo_draft)) s2
      = (Inr (demo_authorized_draft\<lparr>d_state := DPublishing, d_attempts := 1, d_updated_at := hour\<rparr>), s3)"
    using cl by (simp add: demo_store s3_def s2_def)
  have parts: "n_files s3 = n_files demo_insta" "n_calls s3 = []" "n_reads s3 = 5" "drafts (n_db s3) = [demo_authorized_draft\<lparr>d_state := DPublishing, d_attempts := 1, d_updated_at := hour\<rparr>]"
    by (simp_all add: s3_def s2_def demo_insta1_def demo_insta_def db')
  obtain d s4 where at: "attempt_publish demo_publisher (demo_authorized_draft\<lparr>d_state := DPublishing, d_attempts := 1, d_updated_at := hour\<rparr>) s3
      = (Inr (d, ''m1''), s4)" and calls: "n_calls s4 = [demo_call]"
    using demo_attempt [OF parts(4,1,2,3)] by blast
  have no_log: "record_insta demo_publisher k r x s = (Inr (), s)" for k r x s by (simp add: record_insta_def demo_publisher_def)
  have v [simp]: "v_cleanup demo_publisher x w = (None, w)" "v_owner demo_publisher = 7" "v_clock demo_publisher n = hour" for x w n
    by (simp_all add: demo_publisher_def)
  have "n_calls (snd (finish_publish demo_publisher d ''m1'' s4)) = n_calls s4"
    by (simp add: finish_publish_def no_log cleanup_staged_def demo_store)
  moreover have "Get_draft (d_id demo_draft) (n_db s2) = Inr demo_authorized_draft"
    by (simp add: Get_draft_def scan_where_def s2_def select_one_def scanDraft_def)
       (simp add: demo_fields demo_hour stored_ok_def)
  ultimately have resumed: "n_calls (snd (Resume demo_publisher (d_id demo_draft) s2)) = n_calls s4"
    by (simp add: Resume_def demo_wired claim at) (simp add: demo_fields)
  have "snd (PublishApproved demo_publisher (bindingFor demo_draft) (demo_receipt_for demo_draft) demo_insta1)
      = snd (Resume demo_publisher (d_id demo_draft) s2)"
  proof -
    have c: "c_user (demo_receipt_for demo_draft) = 7" "c_tool (demo_receipt_for demo_draft) = ''instagram.publish''"
      "c_resource (demo_receipt_for demo_draft) = d_account demo_draft" "c_expires (demo_receipt_for demo_draft) = 2 * hour"
      "c_args_hash (demo_receipt_for demo_draft) = binding_hash (bindingFor demo_draft)" "b_draft (bindingFor demo_draft) = d_id demo_draft"
      by (simp_all add: demo_receipt_for_def bindingFor_def)
    have start: "n_reads demo_insta1 = 2" "n_grants demo_insta1 = []" "hour < 2 * hour" by (simp_all add: demo_insta1_def demo_insta_def units)
    have clk: "clock demo_publisher demo_insta1 = (hour, demo_insta1\<lparr>n_reads := 3\<rparr>)" by (simp add: clock_def start)
    have marked: "on_store demo_publisher (MarkAuthorized (d_id demo_draft) (2 * hour)) (demo_insta1\<lparr>n_reads := 3, n_grants := g\<rparr>) = (Inr (), s2)"
      using demo_authorized [of g] by (simp add: s2_def demo_authorized_draft_def)
    have "n_grants (demo_insta1\<lparr>n_reads := 3\<rparr>) @ [(bindingFor demo_draft, demo_receipt_for demo_draft)] = g" by (simp add: start g_def)
    then show ?thesis using demo_got marked start(3) by (simp add: PublishApproved_def demo_wired c clk no_log g_def start)
  qed
  then show ?thesis using resumed calls by (simp add: insta_run_def demo_prepared)
qed

definition demo_ops :: "insta_op list" where
  "demo_ops = [IPrepare demo_prepare, IApproved (bindingFor demo_draft) (demo_receipt_for demo_draft)]"

lemma publish_needs_receipt_witness:
  "n_calls (insta_run demo_publisher demo_ops demo_insta) = [demo_call]
   \<and> (\<exists>d \<in> set (drafts (n_db (insta_run demo_publisher demo_ops demo_insta))). \<exists>c :: receipt. pc_draft demo_call = d_id d
        \<and> c_user c = v_owner demo_publisher \<and> c_args_hash c = sha256_hex (canonicalBinding (bindingFor d)) \<and> hour < c_expires c)"
proof -
  have calls: "n_calls (insta_run demo_publisher demo_ops demo_insta) = [demo_call]" using demo_published by (simp add: demo_ops_def)
  then have "demo_call \<in> set (n_calls (insta_run demo_publisher demo_ops demo_insta))" by simp
  from publish_needs_receipt [OF demo_insta_start this]
  have "\<exists>d \<in> set (drafts (n_db (insta_run demo_publisher demo_ops demo_insta))). \<exists>c :: receipt. pc_draft demo_call = d_id d
        \<and> c_user c = v_owner demo_publisher \<and> c_args_hash c = sha256_hex (canonicalBinding (bindingFor d)) \<and> pc_at demo_call < c_expires c"
  proof (elim bexE exE conjE)
    fix d :: draft and c :: receipt
    assume "d \<in> set (drafts (n_db (insta_run demo_publisher demo_ops demo_insta)))" "pc_draft demo_call = d_id d" "c_user c = v_owner demo_publisher"
      "c_args_hash c = sha256_hex (canonicalBinding (bindingFor d))" "pc_at demo_call < c_expires c"
    then show ?thesis by (intro bexI [where x = d] exI [where x = c] conjI)
  qed
  moreover have "pc_at demo_call = hour" by (simp only: demo_call_def publish_call.select_convs)
  ultimately show ?thesis using calls by (simp only: simp_thms)
qed


lemma drafts_well_formed_witness:
  "\<exists>d. drafts (n_db (insta_run demo_publisher [IPrepare demo_prepare] demo_insta)) = [d] \<and> d_attempts d \<le> 10"
proof -
  have "drafts (n_db (insta_run demo_publisher [IPrepare demo_prepare] demo_insta)) = [demo_draft]"
    by (simp add: insta_run_def demo_prepared demo_insta1_def)
  with drafts_well_formed [OF demo_insta_start, of demo_publisher "[IPrepare demo_prepare]"] show ?thesis by fastforce
qed

end
