(* ===== verification/SkillsDemo.thy ===== *)
theory SkillsDemo
  imports Skills Images
begin

text \<open>
  The theorems on skills at one history: a declarative skill with one step in mode Publish is
  registered and executed, which asks for an approval; the owner approves; the second execution, with
  the token, runs the tool.
\<close>

definition demo_publish_tool :: "(nat, string) registered" where
  "demo_publish_tool = \<lparr>r_spec = \<lparr>t_name = ''git.push'', t_version = ''1'', t_input_schema = [], t_risk = Low, t_modes = [Publish],
     t_approval = False, t_timeout = second, t_output_limit = 100, t_path_scope = [], t_network_scope = [],
     t_idempotency = NonRepeatable\<rparr>, r_run = Some (\<lambda>m a w. (Inr ''pushed'', Suc w))\<rparr>"

definition demo_unsigned :: manifest where
  "demo_unsigned = \<lparr>m_id = ''demo'', m_version = ''1.0.0'', m_description = ''publishes it'', m_type = Declarative,
     m_input_schema = demo_schema, m_outputs = Some [\<lparr>so_name = ''out'', so_description = ''d'', so_schema = demo_schema\<rparr>],
     m_tools = Some [''git.push''], m_permissions = Some [Publish], m_secrets = None, m_networks = None, m_timeout = 10,
     m_approval = ApprovalBound, m_compatibility = \<lparr>cp_min_core = ''0.1.0'', cp_max_core = [], cp_os = [], cp_arch = []\<rparr>,
     m_integrity = [], m_steps = [\<lparr>st_tool = ''git.push'', st_mode = Publish, st_arguments = []\<rparr>], m_mcp = None\<rparr>"

definition demo_skill :: manifest where
  "demo_skill = demo_unsigned\<lparr>m_integrity := ''sha256:'' @ sha256_hex (the (manifest_json demo_unsigned))\<rparr>"

lemma demo_schema_raw: "\<exists>r. raw_json demo_schema = Some r"
proof -
  have "parse_document demo_schema \<noteq> None" using demo_schema_decoded by (auto simp: decode_document_def)
  then show ?thesis by (simp add: raw_json_def json_compact_def json_valid_def)
qed

lemma demo_json: "\<exists>j. manifest_json demo_unsigned = Some j"
  using demo_schema_raw by (auto simp: manifest_json_def demo_unsigned_def output_json_def step_json_def elems_def Let_def)

lemma demo_integrity: "VerifyIntegrity demo_skill = Inr ()"
proof -
  obtain j where j: "manifest_json demo_unsigned = Some j" using demo_json by blast
  have "demo_skill\<lparr>m_integrity := []\<rparr> = demo_unsigned" by (simp add: demo_skill_def demo_unsigned_def)
  then have "ComputeIntegrity demo_skill = Inr (''sha256:'' @ sha256_hex j)" by (simp add: ComputeIntegrity_def j)
  moreover have "m_integrity demo_skill = ''sha256:'' @ sha256_hex j" by (simp add: demo_skill_def j)
  moreover have "length (sha256_hex j) = 64" using sha256_id_ok [of j] by (simp add: artifact_id_ok_def)
  then have "sha256_hex j \<noteq> []" by (cases "sha256_hex j") simp_all
  ultimately show ?thesis by (simp add: VerifyIntegrity_def trim_prefix_def starts_with_def)
qed

lemma demo_skill_valid: "Validate_manifest lower demo_skill no_capabilities = Inr ()"
proof -
  have ids: "manifest_id_ok ''demo''" "manifest_id_ok ''git.push''" "manifest_id_ok ''out''" by code_simp+
  have versions: "semantic_version_ok ''1.0.0''" "semantic_version_ok ''0.1.0''" "compareVersions ''0.1.0'' ''0.1.0'' = 0" by code_simp+
  have texts: "length (trim_space ''publishes it'') = 12" "trim_space ''d'' \<noteq> []" by code_simp+
  have shape: "validIntegrityShape (''sha256:'' @ sha256_hex j)" for j
    using sha256_id_ok [of j] by (simp add: validIntegrityShape_def starts_with_def artifact_id_ok_def)
  show ?thesis
    by (simp add: Validate_manifest_def demo_skill_def demo_unsigned_def elems_def ids versions texts shape [simplified] demo_schema_valid
        no_capabilities_def check_compatibility_def core_of_def current_core_def validateImplementation_def check_step_def grantable_def)
qed

definition demo_request_for :: "string \<Rightarrow> skill_request" where
  "demo_request_for tok = \<lparr>e_id = ''demo'', e_version = ''1.0.0'', e_input = [CHR 0x22, CHR ''a'', CHR 0x22], e_user = 7,
     e_resource = ''repo'', e_token = tok\<rparr>"

definition demo_walk :: "string list \<Rightarrow> string list" where "demo_walk = rev"

definition demo_history :: "(nat, string) skill_event list" where
  "demo_history =
     [STools (TRegister demo_publish_tool), SAdd demo_skill, SExecute demo_walk (\<lambda>n. demo_env) (demo_request_for []),
      STools (TApproval (OpResolveToken demo_token 7 ''approved'' second second second)),
      SExecute demo_walk (\<lambda>n. demo_env\<lparr>en_now := minute\<rparr>) (demo_request_for demo_token)]"

definition demo_skills :: "(nat, string) skills_state" where
  "demo_skills = skill_run (\<lambda>s. s) (take 2 demo_history) None 0"

lemma demo_skills_manifests: "sk_manifests demo_skills = [''demo'' \<mapsto> [(''1.0.0'', demo_skill)]]"
proof -
  have "m_id demo_skill = ''demo''" "m_version demo_skill = ''1.0.0''" by (simp_all add: demo_skill_def demo_unsigned_def)
  then show ?thesis
    by (simp add: demo_skills_def skill_run_def demo_history_def NewSkills_def Add_skill_def demo_skill_valid demo_integrity versions_of_def)
qed

lemma demo_resolved: "sk_manifests s = [''demo'' \<mapsto> [(''1.0.0'', demo_skill)]] \<Longrightarrow> Resolve_skill walk ''demo'' ''1.0.0'' s = Inr demo_skill"
  by (simp add: Resolve_skill_def versions_of_def)

lemma demo_accepted: "ValidateInput (m_input_schema demo_skill) [CHR 0x22, CHR ''a'', CHR 0x22] = Inr ()"
proof -
  have "validateValue input_levels demo_schema_value (decode_any (JStr ''a'')) = Inr ()" by code_simp
  then have "ValidateInput demo_schema [CHR 0x22, CHR ''a'', CHR 0x22] = Inr ()"
    by (simp add: ValidateInput_def demo_schema_valid demo_schema_decoded demo_input_parsed max_input_bytes_def)
  then show ?thesis by (simp add: demo_skill_def demo_unsigned_def)
qed

lemma demo_skill_fields:
  "m_id demo_skill = ''demo''" "m_version demo_skill = ''1.0.0''" "m_type demo_skill = Declarative"
  "m_tools demo_skill = Some [''git.push'']" "m_permissions demo_skill = Some [Publish]" "m_approval demo_skill = ApprovalBound"
  "m_steps demo_skill = [\<lparr>st_tool = ''git.push'', st_mode = Publish, st_arguments = []\<rparr>]"
  by (simp_all add: demo_skill_def demo_unsigned_def)

definition demo_call :: "string \<Rightarrow> tool_request" where
  "demo_call tok = \<lparr>q_name = ''git.push'', q_arguments = [CHR 0x22, CHR ''a'', CHR 0x22], q_mode = Publish, q_user_id = 7,
     q_target = ''repo'', q_approval_token = tok\<rparr>"

lemma demo_execute_tools:
  assumes "sk_manifests s = [''demo'' \<mapsto> [(''1.0.0'', demo_skill)]]" and "sk_tools s = CoreTools t"
  shows "sk_tools (snd (Execute_skill walk env (demo_request_for tok) s))
    = CoreTools (snd (Execute_tool (env (length (sk_calls s))) (demo_call tok) t))"
proof -
  obtain r t' where ex: "Execute_tool (env (length (sk_calls s))) (demo_call tok) t = (r, t')" by (cases rule: prod.exhaust)
  have "e_id (demo_request_for tok) = ''demo''" "e_version (demo_request_for tok) = ''1.0.0''" "e_user (demo_request_for tok) = 7"
    "e_input (demo_request_for tok) = [CHR 0x22, CHR ''a'', CHR 0x22]" "e_resource (demo_request_for tok) = ''repo''"
    "e_token (demo_request_for tok) = tok" by (simp_all add: demo_request_for_def)
  with ex show ?thesis
    by (cases r) (simp_all add: Execute_skill_def demo_resolved assms demo_integrity demo_accepted demo_skill_fields run_skill_def
        CallTool_def elems_def InvokeTool_def Let_def demo_call_def split: tool_result.split)
qed

definition demo_tools :: "(nat, string) tool_event list" where
  "demo_tools =
     [TRegister demo_publish_tool, TExecute demo_env (demo_call []),
      TApproval (OpResolveToken demo_token 7 ''approved'' second second second),
      TExecute (demo_env\<lparr>en_now := minute\<rparr>) (demo_call demo_token)]"

lemma skill_run_snoc: "skill_run lower (es @ [e]) mcp w = skills_step lower e (skill_run lower es mcp w)"
  by (simp add: skill_run_def)

lemma demo_states:
  "sk_tools demo_skills = CoreTools (tool_run (take 1 demo_tools) None 0)"
  "sk_tools (skill_run (\<lambda>s. s) (take 4 demo_history) None 0) = CoreTools (tool_run (take 3 demo_tools) None 0)"
  "sk_manifests (skill_run (\<lambda>s. s) (take 4 demo_history) None 0) = [''demo'' \<mapsto> [(''1.0.0'', demo_skill)]]"
  "sk_tools (skill_run (\<lambda>s. s) demo_history None 0) = CoreTools (tool_run demo_tools None 0)"
proof -
  let ?run = "\<lambda>es. skill_run (\<lambda>s. s) es None (0 :: nat) :: (nat, string) skills_state"
  have split: "take 3 demo_history = take 2 demo_history @ [demo_history ! 2]" "take 4 demo_history = take 3 demo_history @ [demo_history ! 3]"
    "demo_history = take 4 demo_history @ [demo_history ! 4]" by (simp_all add: demo_history_def)
  have at: "demo_history ! 2 = SExecute demo_walk (\<lambda>n. demo_env) (demo_request_for [])"
    "demo_history ! 3 = STools (TApproval (OpResolveToken demo_token 7 ''approved'' second second second))"
    "demo_history ! 4 = SExecute demo_walk (\<lambda>n. demo_env\<lparr>en_now := minute\<rparr>) (demo_request_for demo_token)"
    by (simp_all add: demo_history_def)
  show s2: "sk_tools demo_skills = CoreTools (tool_run (take 1 demo_tools) None 0)"
    by (simp add: demo_skills_def skill_run_def demo_history_def NewSkills_def Add_skill_def demo_skill_valid demo_integrity versions_of_def
        demo_skill_fields tool_run_def demo_tools_def)
  have s3: "sk_tools (?run (take 3 demo_history)) = CoreTools (tool_run (take 2 demo_tools) None 0)"
    "sk_manifests (?run (take 3 demo_history)) = [''demo'' \<mapsto> [(''1.0.0'', demo_skill)]]"
    using demo_execute_tools [OF demo_skills_manifests s2] demo_skills_manifests
    by (simp_all add: split(1) skill_run_snoc at demo_skills_def [symmetric] tool_run_def demo_tools_def)
  show s4: "sk_tools (?run (take 4 demo_history)) = CoreTools (tool_run (take 3 demo_tools) None 0)"
    "sk_manifests (?run (take 4 demo_history)) = [''demo'' \<mapsto> [(''1.0.0'', demo_skill)]]"
    using s3 by (simp_all add: split(2) skill_run_snoc at tool_run_def demo_tools_def)
  show "sk_tools (?run demo_history) = CoreTools (tool_run demo_tools None 0)"
    using demo_execute_tools [OF s4(2,1)] by (subst split(3)) (simp add: skill_run_snoc at tool_run_def demo_tools_def)
qed

lemma demo_tool_runs:
  "ts_runs (tool_run (take 3 demo_tools) None 0) = []" "map x_mode (ts_runs (tool_run demo_tools None 0)) = [Publish]"
  by (simp_all add: tool_run_def demo_tools_def NewRegistry_def Register_tool_def demo_publish_tool_def Validate_def
      Execute_tool_def charge_tool_def Evaluate_def Let_def execute_approved_def demo_call_def demo_env_def metadata_for_def
      Create_request_def no_approvals_def ResolveToken_def Resolve_request_def by_token_def select_one_def demo_token_def
      decision_state_def expiry_of_def parse_stored_def in_range_def max_seconds_def units rows_affected_def update_where_def
      AuthorizeReceipt_def run_handler_def demo_bytes_def)

lemma demo_runs:
  "tool_runs (skill_run (\<lambda>s. s) (take 4 demo_history) None 0) = []"
  "map x_mode (tool_runs (skill_run (\<lambda>s. s) demo_history None 0)) = [Publish]"
  by (simp_all add: tool_runs_def demo_states demo_tool_runs)

section \<open>Witnesses\<close>

lemma skill_stays_in_scope_witness:
  "length (tool_runs (skill_run (\<lambda>s. s) demo_history None 0)) = 1
   \<and> list_all (run_in_scope demo_skill (demo_request_for demo_token)) (tool_runs (skill_run (\<lambda>s. s) demo_history None 0))"
proof -
  let ?s = "skill_run (\<lambda>s. s) (take 4 demo_history) None (0 :: nat) :: (nat, string) skills_state"
  let ?env = "\<lambda>n :: nat. demo_env\<lparr>en_now := minute\<rparr>"
  have m: "Resolve_skill demo_walk (e_id (demo_request_for demo_token)) (e_version (demo_request_for demo_token)) ?s = Inr demo_skill"
    using demo_resolved [OF demo_states(3)] by (simp add: demo_request_for_def)
  have last: "demo_history = take 4 demo_history @ [SExecute demo_walk ?env (demo_request_for demo_token)]" by (simp add: demo_history_def)
  have s': "skill_run (\<lambda>s. s) demo_history None 0 = snd (Execute_skill demo_walk ?env (demo_request_for demo_token) ?s)"
    by (subst last) (simp only: skill_run_snoc skills_step.simps)
  have "length (tool_runs (skill_run (\<lambda>s. s) demo_history None 0)) = 1" using arg_cong [OF demo_runs(2), of length] by simp
  with skill_stays_in_scope [OF refl m s'] show ?thesis by (auto simp: demo_runs(1) list_all_iff)
qed

lemma skills_publish_approved_witness:
  "\<exists>x e r. x \<in> set (tool_runs (skill_run (\<lambda>s. s) demo_history None 0)) \<and> STools (TApproval e) \<in> set demo_history
     \<and> approves e r \<and> a_tool r = x_name x"
proof -
  obtain x where x: "x \<in> set (tool_runs (skill_run (\<lambda>s. s) demo_history None 0))" "x_mode x = Publish"
    using demo_runs(2) by (cases "tool_runs (skill_run (\<lambda>s. s) demo_history None 0)") auto
  from skills_publish_approved [OF this] x(1) show ?thesis by blast
qed

lemma registered_skill_is_final_witness:
  "Resolve_skill demo_walk ''demo'' ''1.0.0'' (fold (skills_step (\<lambda>s. s)) (drop 2 demo_history) demo_skills) = Inr demo_skill"
  using registered_skill_is_final [OF demo_resolved [OF demo_skills_manifests, unfolded demo_skills_def]]
  by (simp add: demo_skills_def)

lemma Resolve_newest_witness:
  "\<exists>m. Resolve_skill demo_walk ''demo'' [] demo_skills = Inr m \<and> compareVersions (m_version m) ''1.0.0'' \<ge> 0"
proof -
  have v: "manifest_at demo_skills (''demo'', ''1.0.0'') = Some demo_skill"
    by (simp add: manifest_at_def versions_of_def demo_skills_manifests)
  have r: "Resolve_skill demo_walk ''demo'' [] demo_skills = Inr demo_skill"
    by (simp add: Resolve_skill_def versions_of_def demo_skills_manifests sortedVersions_def demo_walk_def)
  from Resolve_newest [OF demo_skills_def r _ v] have "compareVersions (m_version demo_skill) ''1.0.0'' \<ge> 0" by (simp add: demo_walk_def)
  with r show ?thesis by blast
qed

end
