(* ===== verification/Spec2Isabelle.thy ===== *)
theory Spec2Isabelle
  imports Start Redact GatewayAgent WorkspaceProofs Git ApprovalSpec JsonFuel Search McpDemo SchedDemo SchedExecDemo Sha256Test AuditLog GatewayProofs InstaDemo Workspace SkillsDemo
begin

text \<open>
  Mosaid (\<open>src/\<close>) is an assistant that one owner runs on a device of his own: a Telegram gateway
  puts his messages into a durable inbox, an agent answers them with a model and with tools, a
  scheduler runs jobs in the background, and skills, image generation and publishing to Instagram
  are the things that can have an effect outside. What may have such an effect is decided in one
  place, the policy, and needs an approval of the owner that is bound to exactly one action. This
  library models these parts of the program and proves what they promise each other.

  \<^bold>\<open>The parts and how they interact.\<close> Every package keeps its state in tables of one SQLite file. A
  table is a list of records here, a transaction is one function on the tables, and the clock, the
  random bytes and the services outside (Telegram, the Graph API, image providers, handlers of
  tools, executors of jobs, URL parsing) are arguments. A Go function that returns a value and an error returns a \<open>result\<close>, a sum
  whose left side is the error (\<open>Prelude\<close>).

  \<^item> Policy (\<open>Policy\<close>, from \<open>internal/policy\<close>): \<open>Evaluate\<close> decides for a tool and a mode whether a
    call is allowed, needs an approval, or is denied.
  \<^item> Audit log (\<open>AuditLog\<close>, from \<open>internal/audit\<close>): \<open>Append_audit\<close> and \<open>Verify_audit\<close> over a chain of
    SHA-256 hashes, which \<open>Sha256\<close> computes on 32-bit words and \<open>Sha256Test\<close> checks at the vectors
    of FIPS 180.
  \<^item> Approvals (\<open>Approval\<close>, from \<open>internal/approval\<close>): requests, the owner's verdict, and the receipt
    that an approved request is redeemed for once. \<open>ApprovalSpec\<close> is the specification without tables, an
    office of one-time tickets, and shows that the tables refine it.
  \<^item> Scheduler (from \<open>internal/scheduler\<close>): \<open>SchedJob\<close> holds the data and \<open>normalizeJob\<close>, \<open>SchedStore\<close>
    the operations of \<open>store.go\<close> on jobs, runs and locks, \<open>SchedExec\<close> the policy gate and the loop of
    a worker. \<open>SchedInv\<close>, \<open>SchedLocks\<close>, \<open>SchedSpec\<close> and \<open>SchedProps\<close> hold the invariants and the
    theorems over any sequence of operations of any number of workers, \<open>SchedDemo\<close> and
    \<open>SchedExecDemo\<close> runs that the kernel evaluates.
  \<^item> Telegram gateway (\<open>Inbox\<close> from \<open>internal/storage/db.go\<close> and \<open>internal/message\<close>, \<open>Gateway\<close> and
    \<open>GatewayProofs\<close> from \<open>internal/telegram/gateway.go\<close>): admission of messages, the queues, and the
    two loops that drain them.
  \<^item> Images (\<open>Images\<close>, from \<open>internal/images\<close>): the content-addressed store and the checks around a
    provider.
  \<^item> Instagram (\<open>InstaStore\<close>, \<open>Insta\<close>, \<open>InstaProofs\<close>, \<open>InstaDemo\<close>, from \<open>internal/instagram\<close>): the life
    of a draft from \<open>Prepare\<close> to its publication, with the approval it needs.
  \<^item> Budgets and rate limits (\<open>SecLimits\<close>, from \<open>internal/security/limits.go\<close>), in the floating point
    arithmetic of \<open>GoFloat\<close>.
  \<^item> Tools (\<open>Tools\<close> and \<open>Workspace\<close>, from \<open>internal/tools\<close>): the registry that runs a handler only
    within the policy, the budget and the approvals. The handlers of \<open>workspace.go\<close> are in \<open>WorkspaceFiles\<close>,
    over the file system with links of \<open>Files\<close> and the paths of \<open>GoPath\<close>; \<open>WorkspaceProofs\<close> shows how far
    they stay inside the workspace. \<open>Process\<close> is the process runner.
  \<^item> Agent (\<open>Agent\<close>, \<open>AgentProofs\<close>, from \<open>internal/agent\<close>): the commands of the owner and the conversation with
    a model, over the memory (\<open>Memory\<close>, from \<open>internal/memory\<close>) and the sessions (\<open>Session\<close>, from
    \<open>internal/storage/session.go\<close>). \<open>GatewayAgent\<close> puts the agent behind the gateway as
    \<open>cmd/mosaid/main.go\<close> does.
  \<^item> Configuration (\<open>Config\<close>, from \<open>internal/config\<close>): reading and validating the file, with the decoder of
    structs of \<open>GoDecode\<close>, and what the main program builds from it.
  \<^item> Files of the process, over \<open>Files\<close> and \<open>FilesIn\<close> (calls on the entries of one directory): backup and restore of
    the database (\<open>Backup\<close>, from \<open>internal/storage/maintenance.go\<close>), the lock that keeps a second process out
    (\<open>Singleton\<close>, from \<open>internal/security/singleton.go\<close>), the health report (\<open>HealthFile\<close>, from
    \<open>internal/health\<close>) and secret files (\<open>Secrets\<close>, from \<open>internal/secrets\<close>). \<open>Start\<close>, from
    \<open>cmd/mosaid/main.go\<close>, is the start of the program on them, with its exits.
  \<^item> Log (\<open>Redact\<close>, from \<open>internal/observability\<close>): the redactor, with a matcher of its regular expressions, and the
    handler that sends every record through it.
  \<^item> Git (\<open>Git\<close>, from \<open>internal/gitops\<close>): the operations on repositories, each a sequence of runs of git.
  \<^item> Skills (from \<open>internal/skills\<close>): \<open>SkillSchema\<close> holds the check of a schema and of an input,
    \<open>SkillManifest\<close> the manifest, its validation and its integrity hash, \<open>Skills\<close> the registry with the
    scope check on what a skill calls and the adapter to the tools, \<open>SkillsDemo\<close> a history of a skill that
    asks for an approval.
  \<^item> Research (\<open>GoNet\<close>, \<open>Fetch\<close>, \<open>FetchProofs\<close>, \<open>Search\<close>, from \<open>internal/research\<close>): fetching a public page
    through redirects, each hop resolved, checked and pinned before it is connected to, and the adapter to
    a search provider. \<open>GoNet\<close> holds the addresses of \<open>net/netip\<close>.
  \<^item> MCP client (\<open>McpConfig\<close>, \<open>McpSchema\<close>, \<open>Mcp\<close>, \<open>McpProofs\<close>, \<open>McpDemo\<close>, from \<open>internal/mcpclient\<close>): the
    validation of a server's configuration and of the schemas of its tools, and the manager that
    connects, discovers tools, asks the policy and the approvals, and calls.

  \<^bold>\<open>What the lemmas show.\<close> Each stateful component has an invariant over its tables that every
  operation keeps (\<open>store_inv\<close>, the locks of \<open>SchedLocks\<close>, \<open>tool_inv\<close> and others), stated through the
  locales of \<open>Prelude\<close> and of the components and interpreted on the operations themselves. On these
  rest the claims numbered \<open>C1\<close> and up: that one job never runs twice at a time and a lease is
  respected; that a publishing or high-risk job, a tool and an Instagram draft are executed only with
  a verified approval bound to them, and a receipt is good for one use; that verdicts, finished runs
  and published drafts are final; that only the owner is served and each message has one reply;
  that no request goes to an address of the device or its network, as far as the check sees (the exception is
  a claim of its own), and what was fetched is data with its provenance; that every call to an MCP server is
  covered by its configuration, the policy and the owner; that a skill calls only what its manifest declares;
  that the drains end; that schema checks decide a declarative reading of schemas and never panic;
  that budgets are not exceeded and bursts are bounded; that a hash chain shows tampering; that the owner alone
  decides about requests, through the gateway and the agent together; that a model sees the conversation and
  no more calls are made than the budget has; that what is forgotten stays so and no secret is remembered; that the
  handlers of the workspace stay in it as long as it has no links; that a backup is restored byte for byte and
  nothing is written over, that the health report is never a part of one, and that a holder of the lock keeps all others out; that no protected branch is written to; and
  that a configuration that loads builds the gateway, a program that starts holds its lock, and its log shows no secret that it
  was given. Claims that show a limit of the code say so in their text.

  \<^bold>\<open>Bounds and fuel.\<close> Durations and counters are integers with the wrap-around of int64 written out
  where the code computes with them (\<open>wrap64\<close>), floats are rationals rounded as IEEE 754 double
  precision rounds them. The loops of the gateway take the number of rounds as fuel, and
  \<open>gateway_returns\<close> shows how much is enough; \<open>validateSchemaNode\<close> recurses to the depth limit of the
  code, 16, so 17 levels are all there are, and \<open>validateValue\<close> to 32. The JSON parser of \<open>Json\<close> spends
  one unit per call and starts with the length of its input; \<open>JsonFuel\<close> shows that more changes nothing.
  A fetch follows as many redirects as its policy allows, the discovery of MCP tools reads at most 8
  pages, and \<open>ParseAddr\<close> recurses over the text.

  The walk over a workspace has as much fuel as the file system has entries, links are followed 255 times as
  \<open>filepath.EvalSymlinks\<close> does.

  \<^bold>\<open>Not modelled.\<close> Errors of SQLite and of devices; the format of a log line; the HTTP clients of the services
  named above; the reading of skill files.
\<close>

end
